(* ===== verification/Go_Base.thy ===== *)
theory Go_Base
  imports Main "HOL-Library.Sublist"
begin

text \<open>
  The prelude of the development: the parts of Go's \<^verbatim>\<open>strings\<close> and \<^verbatim>\<open>strconv\<close>
  packages the modelled code calls, and the generic list lemmas the components share.

  A Go string is a sequence of bytes; here it is a \<open>string\<close>, whose characters are the
  bytes 0 to 255. Functions that treat Unicode white space (\<open>strings.TrimSpace\<close>,
  \<open>strings.Fields\<close>) are exact on UTF-8 bytes: the white-space code points are listed with
  their encodings. \<open>strings.ToLower\<close> is modelled on ASCII letters, the only letters in
  the words the code compares with.
\<close>

named_theorems go_string
  \<comment> \<open>rewrite rules of the string functions\<close>

text \<open>
  A Go pair \<open>(value, error)\<close> is a \<open>result\<close>: \<open>Inl\<close> the error, \<open>Inr\<close> the value. An error
  carries its message and whether \<open>errors.Is(err, fs.ErrNotExist)\<close> holds of it.
\<close>

datatype go_error = Go_Error (err_not_exist: bool) (err_message: string)

type_synonym 'a result = "go_error + 'a"

definition errorf :: "string \<Rightarrow> 'a result" where
  "errorf msg = Inl (Go_Error False msg)"

text \<open>A \<open>for\<close> loop over a slice whose body returns at the first error.\<close>

fun fold_result :: "('a \<Rightarrow> 'b \<Rightarrow> 'b result) \<Rightarrow> 'a list \<Rightarrow> 'b \<Rightarrow> 'b result" where
  "fold_result f [] b = Inr b"
| "fold_result f (x # xs) b = (case f x b of Inl e \<Rightarrow> Inl e | Inr b' \<Rightarrow> fold_result f xs b')"

lemma fold_result_append:
  "fold_result f (xs @ ys) b =
     (case fold_result f xs b of Inl e \<Rightarrow> Inl e | Inr b' \<Rightarrow> fold_result f ys b')"
  by (induction xs arbitrary: b) (auto split: sum.splits)

lemma fold_result_inv:
  assumes "fold_result f xs b = Inr b'" and "I b"
    and "\<And>x b b'. x \<in> set xs \<Longrightarrow> I b \<Longrightarrow> f x b = Inr b' \<Longrightarrow> I b'"
  shows "I b'"
  using assms(1,2,3)
proof (induction xs arbitrary: b)
  case (Cons x xs)
  then obtain c where c: "f x b = Inr c" "fold_result f xs c = Inr b'"
    by (auto split: sum.splits)
  then have "I c"
    using Cons.prems(2,3) by auto
  with c(2) Cons.prems(3) show ?case
    by (intro Cons.IH) auto
qed simp

text \<open>
  Code with effects on a world \<open>'w\<close> that may fail: the world is returned on failure too,
  since the effects before the error have happened.
\<close>

type_synonym ('w, 'a) io = "'w \<Rightarrow> 'a result \<times> 'w"

definition io_return :: "'a \<Rightarrow> ('w, 'a) io" where
  "io_return a = (\<lambda>w. (Inr a, w))"

definition io_fail :: "go_error \<Rightarrow> ('w, 'a) io" where
  "io_fail e = (\<lambda>w. (Inl e, w))"

definition io_bind :: "('w, 'a) io \<Rightarrow> ('a \<Rightarrow> ('w, 'b) io) \<Rightarrow> ('w, 'b) io" where
  "io_bind m f = (\<lambda>w. case m w of (Inl e, w') \<Rightarrow> (Inl e, w') | (Inr a, w') \<Rightarrow> f a w')"

definition io_read :: "('w \<Rightarrow> 'a) \<Rightarrow> ('w, 'a) io" where
  "io_read f = (\<lambda>w. (Inr (f w), w))"

definition io_modify :: "('w \<Rightarrow> 'w) \<Rightarrow> ('w, unit) io" where
  "io_modify f = (\<lambda>w. (Inr (), f w))"

fun io_for :: "('a \<Rightarrow> ('w, unit) io) \<Rightarrow> 'a list \<Rightarrow> ('w, unit) io" where
  "io_for f [] = io_return ()"
| "io_for f (x # xs) = io_bind (f x) (\<lambda>_. io_for f xs)"

text \<open>An action keeps a relation between the worlds before and after: reflexive and
  transitive relations are kept by every composition.\<close>

definition io_keeps :: "('w \<Rightarrow> 'w \<Rightarrow> bool) \<Rightarrow> ('w, 'a) io \<Rightarrow> bool" where
  "io_keeps R m = (\<forall>w. R w (snd (m w)))"

named_theorems io_intros
  \<comment> \<open>rules that split an action into its parts\<close>

lemma io_keeps_return [io_intros]: "reflp R \<Longrightarrow> io_keeps R (io_return a)"
  by (simp add: io_keeps_def io_return_def reflpD)

lemma io_keeps_fail [io_intros]: "reflp R \<Longrightarrow> io_keeps R (io_fail e)"
  by (simp add: io_keeps_def io_fail_def reflpD)

lemma io_keeps_read [io_intros]: "reflp R \<Longrightarrow> io_keeps R (io_read f)"
  by (simp add: io_keeps_def io_read_def reflpD)

lemma io_keeps_bind [io_intros]:
  "transp R \<Longrightarrow> io_keeps R m \<Longrightarrow> (\<And>a. io_keeps R (f a)) \<Longrightarrow> io_keeps R (io_bind m f)"
  by (auto simp: io_keeps_def io_bind_def split: prod.split sum.split)
    (metis snd_conv transpD)+

lemma io_keeps_for [io_intros]:
  "reflp R \<Longrightarrow> transp R \<Longrightarrow> (\<And>x. io_keeps R (f x)) \<Longrightarrow> io_keeps R (io_for f xs)"
  by (induction xs) (auto intro: io_intros)

section \<open>Prefixes, suffixes and searching\<close>

fun has_prefix :: "string \<Rightarrow> string \<Rightarrow> bool" where
  "has_prefix s [] = True"
| "has_prefix [] (p # ps) = False"
| "has_prefix (c # s) (p # ps) = (c = p \<and> has_prefix s ps)"

definition has_suffix :: "string \<Rightarrow> string \<Rightarrow> bool" where
  "has_suffix s p = has_prefix (rev s) (rev p)"

definition trim_prefix :: "string \<Rightarrow> string \<Rightarrow> string" where
  "trim_prefix s p = (if has_prefix s p then drop (length p) s else s)"

lemma has_prefix_iff: "has_prefix s p \<longleftrightarrow> prefix p s"
  by (induction s p rule: has_prefix.induct) auto

lemma has_prefix_append [simp, go_string]: "has_prefix (p @ s) p"
  by (simp add: has_prefix_iff)

lemma has_prefix_refl [simp, go_string]: "has_prefix p p"
  by (simp add: has_prefix_iff)

lemma has_suffix_iff: "has_suffix s p \<longleftrightarrow> suffix p s"
  by (simp add: has_suffix_def has_prefix_iff suffix_to_prefix)

lemma trim_prefix_append [simp, go_string]: "trim_prefix (p @ s) p = s"
  by (simp add: trim_prefix_def)

text \<open>\<open>strings.Index\<close>, \<open>strings.Contains\<close>: the first position of a substring.\<close>

fun index_of :: "string \<Rightarrow> string \<Rightarrow> nat option" where
  "index_of [] p = (if p = [] then Some 0 else None)"
| "index_of (c # s) p = (if has_prefix (c # s) p then Some 0 else map_option Suc (index_of s p))"

definition contains :: "string \<Rightarrow> string \<Rightarrow> bool" where
  "contains s p = (index_of s p \<noteq> None)"

lemma index_of_Some: "index_of s p = Some i \<Longrightarrow> i \<le> length s \<and> has_prefix (drop i s) p"
  by (induction s p arbitrary: i rule: index_of.induct) (auto split: if_splits)

lemma index_of_char_None: "index_of s [c] = None \<longleftrightarrow> c \<notin> set s"
  by (induction s) auto

lemma index_of_char_append:
  "c \<notin> set s \<Longrightarrow> index_of (s @ c # t) [c] = Some (length s)"
  by (induction s) auto

text \<open>\<open>strings.SplitN(s, c, 2)\<close> for a one-byte separator: the parts before and after its
  first occurrence, if it occurs.\<close>

fun split_at :: "char \<Rightarrow> string \<Rightarrow> (string \<times> string) option" where
  "split_at c [] = None"
| "split_at c (x # xs) =
     (if x = c then Some ([], xs)
      else map_option (\<lambda>(a, b). (x # a, b)) (split_at c xs))"

lemma split_at_Some: "split_at c s = Some (a, b) \<longleftrightarrow> s = a @ c # b \<and> c \<notin> set a"
proof (induction s arbitrary: a)
  case Nil
  then show ?case by simp
next
  case (Cons x s)
  then show ?case by (cases a) auto
qed

lemma split_at_None: "split_at c s = None \<longleftrightarrow> c \<notin> set s"
  by (induction s) auto

text \<open>\<open>strings.Split(s, c)\<close> for a one-byte separator.\<close>

fun split_on :: "char \<Rightarrow> string \<Rightarrow> string list" where
  "split_on c [] = [[]]"
| "split_on c (x # xs) =
     (if x = c then [] # split_on c xs
      else (case split_on c xs of [] \<Rightarrow> [[x]] | y # ys \<Rightarrow> (x # y) # ys))"

text \<open>\<open>strings.Join(xs, sep)\<close>.\<close>

fun join_with :: "string \<Rightarrow> string list \<Rightarrow> string" where
  "join_with sep [] = []"
| "join_with sep [x] = x"
| "join_with sep (x # y # ys) = x @ sep @ join_with sep (y # ys)"

lemma split_on_not_Nil [simp]: "split_on c s \<noteq> []"
  by (cases s) (auto split: list.splits)

lemma split_on_no_sep: "c \<notin> set s \<Longrightarrow> split_on c s = [s]"
  by (induction s) auto

lemma split_on_append:
  "c \<notin> set s \<Longrightarrow> split_on c (s @ c # t) = s # split_on c t"
  by (induction s) auto

lemma split_on_join:
  "xs \<noteq> [] \<Longrightarrow> (\<forall>x \<in> set xs. c \<notin> set x) \<Longrightarrow> split_on c (join_with [c] xs) = xs"
  by (induction "[c]" xs rule: join_with.induct) (auto simp: split_on_no_sep split_on_append)

lemma join_split_on: "join_with [c] (split_on c s) = s"
proof (induction s)
  case Nil
  then show ?case by simp
next
  case (Cons x s)
  obtain y ys where ys: "split_on c s = y # ys"
    by (cases "split_on c s") auto
  with Cons show ?case by (cases ys) auto
qed

lemma split_on_sep_free: "y \<in> set (split_on c s) \<Longrightarrow> c \<notin> set y"
  by (induction s arbitrary: y) (auto split: if_splits list.splits)

lemma join_with_Cons: "xs \<noteq> [] \<Longrightarrow> join_with sep (x # xs) = x @ sep @ join_with sep xs"
  by (cases xs) auto

lemma join_with_append:
  "xs \<noteq> [] \<Longrightarrow> ys \<noteq> [] \<Longrightarrow> join_with sep (xs @ ys) = join_with sep xs @ sep @ join_with sep ys"
proof (induction sep xs rule: join_with.induct)
  case (2 sep x)
  then show ?case by (cases ys) auto
qed auto

section \<open>White space\<close>

definition ascii_space :: "char \<Rightarrow> bool" where
  "ascii_space c = (c \<in> {CHR '' '', CHR 0x09, CHR 0x0A, CHR 0x0B, CHR 0x0C, CHR 0x0D})"

text \<open>The UTF-8 encodings of the white-space code points above ASCII
  (\<open>unicode.White_Space\<close>): U+0085, U+00A0, U+1680, U+2000 to U+200A, U+2028, U+2029,
  U+202F, U+205F and U+3000.\<close>

definition wide_spaces :: "string list" where
  "wide_spaces =
     [[CHR 0xC2, CHR 0x85], [CHR 0xC2, CHR 0xA0], [CHR 0xE1, CHR 0x9A, CHR 0x80],
      [CHR 0xE2, CHR 0x80, CHR 0x80], [CHR 0xE2, CHR 0x80, CHR 0x81],
      [CHR 0xE2, CHR 0x80, CHR 0x82], [CHR 0xE2, CHR 0x80, CHR 0x83],
      [CHR 0xE2, CHR 0x80, CHR 0x84], [CHR 0xE2, CHR 0x80, CHR 0x85],
      [CHR 0xE2, CHR 0x80, CHR 0x86], [CHR 0xE2, CHR 0x80, CHR 0x87],
      [CHR 0xE2, CHR 0x80, CHR 0x88], [CHR 0xE2, CHR 0x80, CHR 0x89],
      [CHR 0xE2, CHR 0x80, CHR 0x8A], [CHR 0xE2, CHR 0x80, CHR 0xA8],
      [CHR 0xE2, CHR 0x80, CHR 0xA9], [CHR 0xE2, CHR 0x80, CHR 0xAF],
      [CHR 0xE2, CHR 0x81, CHR 0x9F], [CHR 0xE3, CHR 0x80, CHR 0x80]]"

text \<open>The number of bytes of the white-space rune a string starts with, 0 if none.\<close>

definition space_len :: "string list \<Rightarrow> string \<Rightarrow> nat" where
  "space_len ws s =
     (case s of [] \<Rightarrow> 0
      | c # _ \<Rightarrow> if ascii_space c then 1
               else (case find (has_prefix s) ws of None \<Rightarrow> 0 | Some w \<Rightarrow> length w))"

lemma space_len_le: "space_len ws s \<le> length s"
proof -
  have "length w \<le> length s" if "has_prefix s w" for w
    using that by (auto simp: has_prefix_iff dest: prefix_length_le)
  then show ?thesis
    by (auto simp: space_len_def find_Some_iff split: list.splits option.splits)
qed

function trim_left_with :: "string list \<Rightarrow> string \<Rightarrow> string" where
  "trim_left_with ws s =
     (if space_len ws s = 0 then s else trim_left_with ws (drop (space_len ws s) s))"
  by pat_completeness auto
termination
  by (relation "measure (\<lambda>(ws, s). length s)")
     (use space_len_le in \<open>auto simp: space_len_def split: list.splits\<close>)

declare trim_left_with.simps [simp del]

definition trim_left :: "string \<Rightarrow> string" where
  "trim_left s = trim_left_with wide_spaces s"

definition trim_right :: "string \<Rightarrow> string" where
  "trim_right s = rev (trim_left_with (map rev wide_spaces) (rev s))"

definition trim_space :: "string \<Rightarrow> string" where
  "trim_space s = trim_right (trim_left s)"

text \<open>\<open>strings.Fields\<close>: the maximal runs of non-space runes.\<close>

function fields_from :: "string \<Rightarrow> string \<Rightarrow> string list" where
  "fields_from cur s =
     (case s of [] \<Rightarrow> (if cur = [] then [] else [rev cur])
      | c # t \<Rightarrow>
          (if space_len wide_spaces s = 0 then fields_from (c # cur) t
           else (if cur = [] then [] else [rev cur])
                @ fields_from [] (drop (space_len wide_spaces s) s)))"
  by pat_completeness auto
termination
  by (relation "measure (\<lambda>(cur, s). length s)") auto

declare fields_from.simps [simp del]

definition fields :: "string \<Rightarrow> string list" where
  "fields s = fields_from [] s"

section \<open>Case, numbers\<close>

definition lower_char :: "char \<Rightarrow> char" where
  "lower_char c = (if 65 \<le> (of_char c :: nat) \<and> (of_char c :: nat) \<le> 90
                   then char_of ((of_char c :: nat) + 32) else c)"

definition to_lower :: "string \<Rightarrow> string" where
  "to_lower = map lower_char"

definition is_digit :: "char \<Rightarrow> bool" where
  "is_digit c = (48 \<le> (of_char c :: nat) \<and> (of_char c :: nat) \<le> 57)"

definition digits_value :: "string \<Rightarrow> int" where
  "digits_value s = foldl (\<lambda>n c. 10 * n + int (of_char c - 48)) 0 s"

text \<open>\<open>strconv.Itoa\<close> on a number that is not negative.\<close>

fun decimal :: "nat \<Rightarrow> string" where
  "decimal n = (if n < 10 then [char_of (48 + n)] else decimal (n div 10) @ [char_of (48 + n mod 10)])"

declare decimal.simps [simp del]

text \<open>\<open>strconv.Atoi\<close> on a 64-bit platform: an optional sign, decimal digits, and the
  range of \<open>int\<close>; \<open>None\<close> for the error.\<close>

definition atoi :: "string \<Rightarrow> int option" where
  "atoi s =
     (let neg = has_prefix s ''-'';
          d = (if has_prefix s ''-'' \<or> has_prefix s ''+'' then tl s else s);
          v = (if neg then - digits_value d else digits_value d)
      in if d \<noteq> [] \<and> list_all is_digit d \<and> - (2 ^ 63) \<le> v \<and> v < 2 ^ 63
         then Some v else None)"

section \<open>Lists\<close>

lemma sorted_sort_key_desc:
  "sorted_wrt (\<lambda>x y. f y \<le> f x) (sort_key (\<lambda>x. - (int (f x))) xs)"
proof -
  have "sorted (map (\<lambda>x. - (int (f x))) (sort_key (\<lambda>x. - (int (f x))) xs))"
    by simp
  then show ?thesis
    by (simp add: sorted_wrt_map)
qed

lemma foldl_inv:
  "I a \<Longrightarrow> (\<And>a x. x \<in> set xs \<Longrightarrow> I a \<Longrightarrow> I (f a x)) \<Longrightarrow> I (foldl f a xs)"
  by (induction xs arbitrary: a) auto

text \<open>A loop that writes some of its keys into a map: the final value at each target.\<close>

lemma fold_map_upd_other:
  "q \<notin> f ` set ks \<Longrightarrow> fold (\<lambda>k m. if P k then m(f k \<mapsto> g k) else m) ks m q = m q"
  by (induction ks arbitrary: m) auto

lemma fold_map_upd_key:
  "inj_on f (set ks) \<Longrightarrow> k \<in> set ks \<Longrightarrow>
     fold (\<lambda>k m. if P k then m(f k \<mapsto> g k) else m) ks m (f k)
       = (if P k then Some (g k) else m (f k))"
proof (induction ks arbitrary: m)
  case (Cons x ks)
  show ?case
  proof (cases "k \<in> set ks")
    case True
    with Cons show ?thesis by (auto simp: inj_on_def)
  next
    case False
    with Cons.prems have "k = x" and "f x \<notin> f ` set ks" by (auto simp: inj_on_def)
    then show ?thesis by (simp add: fold_map_upd_other)
  qed
qed simp

section \<open>Replacing\<close>

text \<open>\<open>strings.ReplaceAll\<close> for an old text that is not empty.\<close>

function replace_all :: "string \<Rightarrow> string \<Rightarrow> string \<Rightarrow> string" where
  "replace_all s old new =
     (if old = [] then s
      else (case index_of s old of None \<Rightarrow> s
            | Some i \<Rightarrow> take i s @ new @ replace_all (drop (i + length old) s) old new))"
  by pat_completeness auto
termination
proof (relation "measure (\<lambda>(s, old, new). length s)", goal_cases)
  case (2 s old new i)
  then have "has_prefix (drop i s) old"
    using index_of_Some by simp
  then have "length old \<le> length (drop i s)"
    by (auto simp: has_prefix_iff dest: prefix_length_le)
  with 2 show ?case
    by (cases old) simp_all
qed simp

declare replace_all.simps [simp del]

text \<open>\<open>strings.NewReplacer\<close>: at each position the first pair whose old text is there is replaced, and
  the search goes on behind it.\<close>

function new_replacer :: "(string \<times> string) list \<Rightarrow> string \<Rightarrow> string" where
  "new_replacer pairs [] = []"
| "new_replacer pairs (c # s) =
     (case find (\<lambda>(old, new). old \<noteq> [] \<and> has_prefix (c # s) old) pairs of
        Some (old, new) \<Rightarrow> new @ new_replacer pairs (drop (length old) (c # s))
      | None \<Rightarrow> c # new_replacer pairs s)"
  by pat_completeness auto
termination
  by (relation "measure (\<lambda>(p, s). length s)") (auto simp: find_Some_iff)

end
