(* ===== verification/Go_Path.thy ===== *)
theory Go_Path
  imports Go_Base
begin

text \<open>
  Go's \<^verbatim>\<open>path\<close> package (\<^verbatim>\<open>path/filepath\<close> on a POSIX host), as the code uses it
  through \<open>Clean\<close>, \<open>Dir\<close>, \<open>Join\<close>, \<open>IsAbs\<close>: definitions by the documented rules, the
  normal form of an absolute path (a list of proper element names), and the interface
  \<open>path_ops\<close> the file-system code relies on, interpreted on these definitions.
\<close>

section \<open>The operations\<close>

definition clean_step :: "bool \<Rightarrow> string list \<Rightarrow> string \<Rightarrow> string list" where
  "clean_step rooted stk e =
     (if e = '''' \<or> e = ''.'' then stk
      else if e = ''..'' then
        (case stk of [] \<Rightarrow> (if rooted then [] else [''..''])
         | t # ts \<Rightarrow> (if t = ''..'' then ''..'' # stk else ts))
      else e # stk)"

definition is_abs :: "string \<Rightarrow> bool" where
  "is_abs p = has_prefix p ''/''"

definition clean_elems :: "string \<Rightarrow> string list" where
  "clean_elems p = rev (foldl (clean_step (is_abs p)) [] (split_on CHR ''/'' p))"

definition path_clean :: "string \<Rightarrow> string" where
  "path_clean p =
     (if p = [] then ''.''
      else if is_abs p then ''/'' @ join_with ''/'' (clean_elems p)
      else if clean_elems p = [] then ''.''
      else join_with ''/'' (clean_elems p))"

text \<open>\<open>path.Split\<close>'s directory part: everything up to and including the last slash.\<close>

definition path_split_dir :: "string \<Rightarrow> string" where
  "path_split_dir p = rev (dropWhile (\<lambda>c. c \<noteq> CHR ''/'') (rev p))"

definition path_dir :: "string \<Rightarrow> string" where
  "path_dir p = path_clean (path_split_dir p)"

definition path_join :: "string list \<Rightarrow> string" where
  "path_join es =
     (let es' = filter (\<lambda>e. e \<noteq> []) es
      in if es' = [] then [] else path_clean (join_with ''/'' es'))"

section \<open>Normal form of absolute paths\<close>

definition proper_elem :: "string \<Rightarrow> bool" where
  "proper_elem e = (e \<noteq> '''' \<and> e \<noteq> ''.'' \<and> e \<noteq> ''..'' \<and> CHR ''/'' \<notin> set e)"

definition abs_path :: "string list \<Rightarrow> string" where
  "abs_path es = ''/'' @ join_with ''/'' es"

definition abs_clean :: "string \<Rightarrow> bool" where
  "abs_clean p = (is_abs p \<and> path_clean p = p)"

lemma is_abs_abs_path [simp]: "is_abs (abs_path es)"
  by (simp add: is_abs_def abs_path_def)

lemma clean_step_proper [simp]: "proper_elem e \<Longrightarrow> clean_step r stk e = e # stk"
  by (simp add: clean_step_def proper_elem_def)

lemma foldl_clean_step_proper:
  "list_all proper_elem es \<Longrightarrow> foldl (clean_step r) stk es = rev es @ stk"
  by (induction es arbitrary: stk) auto

lemma list_all_proper_no_slash:
  "list_all proper_elem es \<Longrightarrow> \<forall>x \<in> set es. CHR ''/'' \<notin> set x"
  by (auto simp: list_all_iff proper_elem_def)

lemma foldl_clean_rooted:
  "list_all proper_elem stk \<Longrightarrow> \<forall>e \<in> set es. CHR ''/'' \<notin> set e \<Longrightarrow>
     list_all proper_elem (foldl (clean_step True) stk es)"
proof (induction es arbitrary: stk)
  case (Cons e es)
  have "proper_elem e \<or> e = '''' \<or> e = ''.'' \<or> e = ''..''"
    using Cons.prems by (auto simp: proper_elem_def)
  then have "list_all proper_elem (clean_step True stk e)"
    using Cons.prems(1) by (cases stk) (auto simp: clean_step_def)
  with Cons show ?case by auto
qed simp

lemma clean_elems_proper: "is_abs p \<Longrightarrow> list_all proper_elem (clean_elems p)"
  unfolding clean_elems_def list_all_rev
  by (auto intro!: foldl_clean_rooted dest: split_on_sep_free)

lemma path_clean_abs: "is_abs p \<Longrightarrow> path_clean p = abs_path (clean_elems p)"
  by (auto simp: path_clean_def abs_path_def is_abs_def)

lemma split_on_abs_path:
  "list_all proper_elem es \<Longrightarrow>
     split_on CHR ''/'' (abs_path es) = (if es = [] then [[], []] else [] # es)"
  using list_all_proper_no_slash[of es]
  by (auto simp: abs_path_def split_on_join)

lemma clean_elems_abs_path [simp]:
  "list_all proper_elem es \<Longrightarrow> clean_elems (abs_path es) = es"
  by (auto simp: clean_elems_def split_on_abs_path foldl_clean_step_proper clean_step_def)

lemma path_clean_abs_path [simp]:
  "list_all proper_elem es \<Longrightarrow> path_clean (abs_path es) = abs_path es"
  by (simp add: path_clean_abs)

lemma abs_path_inj:
  "list_all proper_elem es \<Longrightarrow> list_all proper_elem fs \<Longrightarrow> abs_path es = abs_path fs \<longleftrightarrow> es = fs"
  using clean_elems_abs_path by metis

lemma abs_cleanE:
  assumes "abs_clean p"
  obtains es where "p = abs_path es" and "list_all proper_elem es"
  using assms by (metis abs_clean_def path_clean_abs clean_elems_proper)

lemma abs_clean_abs_path [simp]: "list_all proper_elem es \<Longrightarrow> abs_clean (abs_path es)"
  by (simp add: abs_clean_def)

lemma abs_clean_clean: "is_abs p \<Longrightarrow> abs_clean (path_clean p)"
  by (simp add: path_clean_abs clean_elems_proper)

lemma abs_path_snoc:
  "abs_path (es @ [e]) = (if es = [] then ''/'' else abs_path es @ ''/'') @ e"
  by (simp add: abs_path_def join_with_append)

lemma path_split_dir_abs_path:
  assumes "list_all proper_elem (es @ [e])"
  shows "path_split_dir (abs_path (es @ [e])) = (if es = [] then ''/'' else abs_path es @ ''/'')"
proof -
  have "CHR ''/'' \<notin> set (rev e)"
    using assms by (auto simp: proper_elem_def)
  then have "dropWhile (\<lambda>c. c \<noteq> CHR ''/'') (rev e @ CHR ''/'' # t) = CHR ''/'' # t" for t
    by (subst dropWhile_append2) auto
  then show ?thesis
    by (simp add: path_split_dir_def abs_path_snoc)
qed

lemma path_clean_trailing_slash:
  assumes "list_all proper_elem es" and "es \<noteq> []"
  shows "path_clean (abs_path es @ ''/'') = abs_path es"
proof -
  have "abs_path es @ ''/'' = ''/'' @ join_with ''/'' (es @ [''''])"
    using assms(2) by (simp add: abs_path_def join_with_append)
  then have "split_on CHR ''/'' (abs_path es @ ''/'') = [] # es @ ['''']"
    using split_on_join[of "es @ ['''']" "CHR ''/''"] list_all_proper_no_slash[OF assms(1)] by simp
  moreover have "is_abs (abs_path es @ ''/'')"
    by (simp add: is_abs_def abs_path_def)
  ultimately show ?thesis
    using assms(1)
    by (simp add: path_clean_abs clean_elems_def foldl_clean_step_proper) (simp add: clean_step_def foldl_clean_step_proper)
qed

lemma path_dir_abs_path [simp]:
  assumes "list_all proper_elem es"
  shows "path_dir (abs_path es) = abs_path (butlast es)"
proof (cases es rule: rev_cases)
  case Nil
  then show ?thesis by (simp add: path_dir_def path_split_dir_def abs_path_def path_clean_def
      is_abs_def clean_elems_def clean_step_def)
next
  case (snoc fs e)
  show ?thesis
  proof (cases "fs = []")
    case True
    with snoc assms show ?thesis
      by (simp add: path_dir_def path_split_dir_abs_path[of "[]", simplified]
          path_clean_abs_path[of "[]", unfolded abs_path_def, simplified] abs_path_def[of "[]"])
  next
    case False
    with snoc assms show ?thesis
      by (simp add: path_dir_def path_split_dir_abs_path path_clean_trailing_slash)
  qed
qed

lemma path_join_abs_path:
  assumes "list_all proper_elem es" and "list_all proper_elem fs" and "fs \<noteq> []"
  shows "path_join [abs_path es, join_with ''/'' fs] = abs_path (es @ fs)"
proof -
  have nz: "join_with ''/'' fs \<noteq> []"
    using assms(2,3) by (cases fs rule: list.exhaust; cases "tl fs") (auto simp: proper_elem_def)
  have "split_on CHR ''/'' (abs_path es @ ''/'' @ join_with ''/'' fs) =
      split_on CHR ''/'' (join_with ''/'' ([[]] @ (if es = [] then [[]] else es) @ fs))"
    using assms(3) by (auto simp: abs_path_def join_with_append join_with_Cons)
  also have "\<dots> = [[]] @ (if es = [] then [[]] else es) @ fs"
    using list_all_proper_no_slash[OF assms(1)] list_all_proper_no_slash[OF assms(2)]
    by (intro split_on_join) auto
  finally have "clean_elems (abs_path es @ ''/'' @ join_with ''/'' fs) = es @ fs"
    using assms(1,2)
    by (simp add: clean_elems_def foldl_clean_step_proper clean_step_def[of _ _ "[]"])
  moreover have "is_abs (abs_path es @ ''/'' @ join_with ''/'' fs)"
    by (simp add: is_abs_def abs_path_def)
  ultimately show ?thesis
    using nz by (simp add: path_join_def path_clean_abs) (simp add: abs_path_def)
qed

lemma has_suffix_slash_abs_path [simp]:
  assumes "list_all proper_elem es"
  shows "has_suffix (abs_path es) ''/'' \<longleftrightarrow> es = []"
proof (cases es rule: rev_cases)
  case Nil
  then show ?thesis by (simp add: abs_path_def has_suffix_iff)
next
  case (snoc fs e)
  with assms obtain a b where e: "e = a @ [b]" "b \<noteq> CHR ''/''"
    by (cases e rule: rev_cases) (auto simp: proper_elem_def)
  have "has_suffix (t @ a @ [b]) ''/'' = has_suffix ((t @ a) @ [b]) ([] @ ''/'')" for t
    by simp
  also have "\<dots> t = False" for t
    using e(2) unfolding has_suffix_iff by (metis append_Nil last_snoc suffix_def append1_eq_conv append_assoc)
  finally show ?thesis
    using snoc e(1) by (simp add: abs_path_snoc)
qed

text \<open>A path lies under another exactly when its element list extends the other's: the
  string test with a separator appended does not confuse \<open>/a/bc\<close> with a child of \<open>/a/b\<close>.\<close>

lemma prefix_snoc_abs_path:
  assumes "list_all proper_elem ps" and "list_all proper_elem qs" and "ps \<noteq> []"
  shows "prefix (abs_path ps @ ''/'') (abs_path qs) \<longleftrightarrow> strict_prefix ps qs"
proof
  assume "prefix (abs_path ps @ ''/'') (abs_path qs)"
  then obtain t where t: "abs_path qs = abs_path ps @ ''/'' @ t"
    by (auto simp: prefix_def)
  have "split_on CHR ''/'' (abs_path ps @ ''/'' @ t) =
      split_on CHR ''/'' (join_with ''/'' ([[]] @ ps @ split_on CHR ''/'' t))"
    using assms(3) by (simp add: abs_path_def join_with_append join_with_Cons join_split_on)
  also have "\<dots> = [[]] @ ps @ split_on CHR ''/'' t"
    using list_all_proper_no_slash[OF assms(1)]
    by (intro split_on_join) (auto dest: split_on_sep_free)
  finally have "split_on CHR ''/'' (abs_path qs) = [] # ps @ split_on CHR ''/'' t"
    using t by simp
  then have "qs = ps @ split_on CHR ''/'' t"
    using assms(2,3) by (cases ps) (auto simp: split_on_abs_path split: if_splits)
  then show "strict_prefix ps qs"
    by (simp add: strict_prefix_def prefix_def)
next
  assume "strict_prefix ps qs"
  then obtain ts where "qs = ps @ ts" and "ts \<noteq> []"
    by (auto simp: strict_prefix_def prefix_def)
  then show "prefix (abs_path ps @ ''/'') (abs_path qs)"
    using assms(3) by (simp add: abs_path_def join_with_append)
qed

section \<open>Relative clean paths\<close>

lemma join_with_hd:
  "xs \<noteq> [] \<Longrightarrow> hd xs \<noteq> [] \<Longrightarrow> \<exists>t. join_with sep xs = hd (hd xs) # t"
  by (cases xs; cases "hd xs"; cases "tl xs") auto

lemma clean_elems_slash_free:
  assumes "e \<in> set (clean_elems p)"
  shows "e \<noteq> [] \<and> CHR ''/'' \<notin> set e"
proof -
  let ?ok = "\<lambda>stk. \<forall>e \<in> set stk. e \<noteq> [] \<and> CHR ''/'' \<notin> set e"
  have "?ok (foldl (clean_step (is_abs p)) [] (split_on CHR ''/'' p))"
  proof (rule foldl_inv)
    fix stk x
    assume "x \<in> set (split_on CHR ''/'' p)" and "?ok stk"
    then show "?ok (clean_step (is_abs p) stk x)"
      using split_on_sep_free by (auto simp: clean_step_def split: list.splits)
  qed simp
  with assms show ?thesis
    by (simp add: clean_elems_def)
qed

lemma is_abs_path_clean [simp]: "is_abs (path_clean p) = is_abs p"
proof (cases "is_abs p \<or> clean_elems p = []")
  case True
  then show ?thesis
    by (auto simp: path_clean_abs) (auto simp: path_clean_def is_abs_def split: if_splits)
next
  case False
  then have e: "hd (clean_elems p) \<noteq> []" "CHR ''/'' \<notin> set (hd (clean_elems p))"
    using clean_elems_slash_free[of "hd (clean_elems p)" p] by auto
  obtain t where "join_with ''/'' (clean_elems p) = hd (hd (clean_elems p)) # t"
    using join_with_hd[OF _ e(1)] False by blast
  moreover have "hd (hd (clean_elems p)) \<noteq> CHR ''/''"
    using e by (metis list.set_sel(1))
  ultimately show ?thesis
    using False by (auto simp: path_clean_def is_abs_def)
qed

lemma path_clean_join_proper:
  assumes "list_all proper_elem xs" and "xs \<noteq> []"
  shows "path_clean (join_with ''/'' xs) = join_with ''/'' xs"
proof -
  have x: "hd xs \<noteq> []" "CHR ''/'' \<notin> set (hd xs)"
    using assms by (cases xs; auto simp: proper_elem_def)+
  obtain t where t: "join_with ''/'' xs = hd (hd xs) # t"
    using join_with_hd[OF assms(2) x(1)] by blast
  then have "\<not> is_abs (join_with ''/'' xs)"
    using x by (auto simp: is_abs_def dest: list.set_sel(1))
  moreover have "clean_elems (join_with ''/'' xs) = xs"
    using assms list_all_proper_no_slash[OF assms(1)]
    by (simp add: clean_elems_def split_on_join foldl_clean_step_proper)
  ultimately show ?thesis
    using t assms(2) by (simp add: path_clean_def)
qed

section \<open>Relative paths\<close>

text \<open>\<open>filepath.Rel\<close> of two clean paths: the elements behind those they share, with one \<open>..\<close> for each
  element of the base that is left; an error when one of them is relative, or the base climbs.\<close>

fun strip_common :: "string list \<Rightarrow> string list \<Rightarrow> string list \<times> string list" where
  "strip_common (b # bs) (p # ps) = (if b = p then strip_common bs ps else (b # bs, p # ps))"
| "strip_common bs ps = (bs, ps)"

definition filepath_rel :: "string \<Rightarrow> string \<Rightarrow> string option" where
  "filepath_rel base p =
     (if is_abs base \<noteq> is_abs p then None
      else (case strip_common (clean_elems base) (clean_elems p) of (bs, ps) \<Rightarrow>
        if ''..'' \<in> set bs then None
        else (let es = map (\<lambda>_. ''..'') bs @ ps in Some (if es = [] then ''.'' else join_with ''/'' es))))"

lemma strip_common_spec:
  "strip_common bs ps = (bs', ps') \<Longrightarrow> \<exists>cs. bs = cs @ bs' \<and> ps = cs @ ps' \<and> (bs' \<noteq> [] \<and> ps' \<noteq> [] \<longrightarrow> hd bs' \<noteq> hd ps')"
proof (induction bs ps rule: strip_common.induct)
  case (1 b bs p ps)
  show ?case
  proof (cases "b = p")
    case True
    then obtain cs where "bs = cs @ bs' \<and> ps = cs @ ps' \<and> (bs' \<noteq> [] \<and> ps' \<noteq> [] \<longrightarrow> hd bs' \<noteq> hd ps')"
      using 1 by auto
    then show ?thesis
      using True by (intro exI[of _ "b # cs"]) simp
  next
    case False
    then show ?thesis
      using 1(2) by (intro exI[of _ "[]"]) auto
  qed
qed auto

lemma strip_common_append: "strip_common bs (bs @ ts) = ([], ts)"
  by (induction bs) (cases ts; simp)+

lemma filepath_rel_below:
  assumes "list_all proper_elem es" "list_all proper_elem fs"
  shows "filepath_rel (abs_path es) (abs_path (es @ fs)) = Some (if fs = [] then ''.'' else join_with ''/'' fs)"
proof -
  have "list_all proper_elem (es @ fs)"
    using assms by simp
  from clean_elems_abs_path[OF this] assms show ?thesis
    by (simp add: filepath_rel_def strip_common_append)
qed

end
