(* ===== verification/Sync_Path.thy ===== *)
theory Sync_Path
  imports Go_Path
begin

text \<open>
  Path decisions of the sync engine: \<^verbatim>\<open>internal/sync/path.go\<close> (is the destination a
  directory, where does a walked file land) and the path helpers of
  \<^verbatim>\<open>internal/sync/plan.go\<close>. The functions the source takes as parameters (\<open>cleaner\<close>,
  \<open>dir\<close>, \<open>join\<close>, \<open>separator\<close> of the \<open>FileSystem\<close> interface) stay parameters; what the
  engine relies on is the locale \<open>path_ops\<close>, interpreted on the POSIX path package both
  file systems of \<^verbatim>\<open>internal/sync/filesystem.go\<close> delegate to.
\<close>

section \<open>path.go\<close>

definition has_trailing_slash :: "string \<Rightarrow> string \<Rightarrow> bool" where
  "has_trailing_slash p sep =
     (has_suffix p ''/'' \<or> (sep \<noteq> ''/'' \<and> has_suffix p sep))"

definition copy_source_base ::
  "string \<Rightarrow> bool \<Rightarrow> bool \<Rightarrow> (string \<Rightarrow> string) \<Rightarrow> (string \<Rightarrow> string) \<Rightarrow> string" where
  "copy_source_base source_path source_is_dir preserve_source_name cleaner dir =
     (let sp = cleaner source_path
      in if source_is_dir \<and> \<not> preserve_source_name then sp else dir sp)"

definition should_treat_destination_as_dir ::
  "string \<Rightarrow> bool \<Rightarrow> bool \<Rightarrow> bool \<Rightarrow> string \<Rightarrow> bool" where
  "should_treat_destination_as_dir destination target_exists_as_dir source_is_dir
       multiple_sources separator =
     (target_exists_as_dir \<or> source_is_dir \<or> multiple_sources
      \<or> has_trailing_slash destination separator)"

definition resolve_destination_path ::
  "string \<Rightarrow> string \<Rightarrow> bool \<Rightarrow> (string \<Rightarrow> string) \<Rightarrow> (string list \<Rightarrow> string) \<Rightarrow> string" where
  "resolve_destination_path destination relpath treat_as_dir cleaner join =
     (if \<not> treat_as_dir \<or> relpath = '''' \<or> relpath = ''.'' then cleaner destination
      else join [destination, relpath])"

section \<open>Path helpers of plan.go\<close>

definition should_preserve_source_name ::
  "string \<Rightarrow> bool \<Rightarrow> string \<Rightarrow> string \<Rightarrow> bool \<Rightarrow> bool \<Rightarrow> string \<Rightarrow> bool" where
  "should_preserve_source_name source_path source_is_dir raw_destination resolved_destination
       target_exists_as_dir multiple_sources separator =
     (if multiple_sources then True
      else if \<not> source_is_dir
        then target_exists_as_dir \<or> has_trailing_slash raw_destination separator
      else False)"

definition with_separator :: "string \<Rightarrow> string \<Rightarrow> string" where
  "with_separator sep p = (if has_suffix p sep then p else p @ sep)"

definition relative_path ::
  "(string \<Rightarrow> string) \<Rightarrow> string \<Rightarrow> string \<Rightarrow> string \<Rightarrow> string result" where
  "relative_path cleaner sep base current =
     (let base = cleaner base; current = cleaner current
      in if current = base then Inr ''.''
         else let pre = with_separator sep base
           in if \<not> has_prefix current pre
              then errorf (''path '' @ current @ '' is outside '' @ base)
              else Inr (trim_prefix current pre))"

definition has_path_prefix ::
  "(string \<Rightarrow> string) \<Rightarrow> string \<Rightarrow> string \<Rightarrow> string \<Rightarrow> bool" where
  "has_path_prefix cleaner sep candidate pre =
     (let candidate = cleaner candidate; pre = cleaner pre
      in candidate = pre \<or> has_prefix candidate (with_separator sep pre))"

definition is_path_sep :: "char \<Rightarrow> bool" where
  "is_path_sep c = (c = CHR ''/'' \<or> c = CHR 0x5C)"

text \<open>\<open>strings.FieldsFunc\<close>: the number of maximal runs of non-separators.\<close>

fun count_runs :: "bool \<Rightarrow> string \<Rightarrow> nat" where
  "count_runs inside [] = (if inside then 1 else 0)"
| "count_runs inside (c # s) =
     (if is_path_sep c then (if inside then 1 else 0) + count_runs False s
      else count_runs True s)"

definition trim_seps :: "string \<Rightarrow> string" where
  "trim_seps p = rev (dropWhile is_path_sep (rev (dropWhile is_path_sep p)))"

definition path_depth :: "string \<Rightarrow> nat" where
  "path_depth p =
     (let p = trim_seps p in if p = '''' then 0 else count_runs False p)"

section \<open>The interface the engine relies on\<close>

text \<open>
  \<open>valid\<close> are the paths the engine works on (the results of \<open>Resolve\<close> and \<open>Walk\<close>) and
  \<open>elems\<close> is the abstract view: a path is its list of names from the root.
\<close>

locale path_ops =
  fixes cleaner :: "string \<Rightarrow> string"
    and dir :: "string \<Rightarrow> string"
    and sep :: string
    and valid :: "string \<Rightarrow> bool"
    and elems :: "string \<Rightarrow> string list"
  assumes clean_valid: "valid p \<Longrightarrow> cleaner p = p"
    and dir_valid: "valid p \<Longrightarrow> valid (dir p)"
    and dir_elems: "valid p \<Longrightarrow> elems (dir p) = butlast (elems p)"
    and elems_inj: "valid p \<Longrightarrow> valid q \<Longrightarrow> elems p = elems q \<Longrightarrow> p = q"
    and under_iff: "valid p \<Longrightarrow> valid q \<Longrightarrow>
      has_path_prefix cleaner sep p q \<longleftrightarrow> prefix (elems q) (elems p)"
begin

lemma dir_under:
  assumes "valid p" and "valid q" and "prefix (elems q) (elems p)" and "p \<noteq> q"
  shows "prefix (elems q) (elems (dir p))" and "length (elems (dir p)) < length (elems p)"
proof -
  have "elems p \<noteq> elems q"
    using assms elems_inj by blast
  then obtain e es where es: "elems p = es @ [e]" "prefix (elems q) es"
    using assms(3) by (metis prefix_bot.extremum_uniqueI prefix_snoc rev_exhaust)
  then show "prefix (elems q) (elems (dir p))" and "length (elems (dir p)) < length (elems p)"
    using assms(1) by (auto simp: dir_elems)
qed

end

interpretation posix: path_ops path_clean path_dir "''/''" abs_clean clean_elems
proof unfold_locales
  fix p q
  show "path_clean p = p" if "abs_clean p"
    using that by (simp add: abs_clean_def)
  show "abs_clean (path_dir p)" and "clean_elems (path_dir p) = butlast (clean_elems p)"
    if p: "abs_clean p"
  proof -
    obtain es where "p = abs_path es" "list_all proper_elem es"
      using p by (rule abs_cleanE)
    moreover from this have "list_all proper_elem (butlast es)"
      by (auto simp: list_all_iff dest: in_set_butlastD)
    ultimately show "abs_clean (path_dir p)" and "clean_elems (path_dir p) = butlast (clean_elems p)"
      by simp_all
  qed
  assume p: "abs_clean p" and q: "abs_clean q"
  obtain es where es: "p = abs_path es" "list_all proper_elem es"
    using p by (rule abs_cleanE)
  obtain fs where fs: "q = abs_path fs" "list_all proper_elem fs"
    using q by (rule abs_cleanE)
  show "p = q" if "clean_elems p = clean_elems q"
    using that es fs by simp
  show "has_path_prefix path_clean ''/'' p q \<longleftrightarrow> prefix (clean_elems q) (clean_elems p)"
  proof (cases "fs = []")
    case True
    have "has_path_prefix path_clean ''/'' p q"
      using es fs True by (simp add: has_path_prefix_def with_separator_def)
        (simp add: has_prefix_iff abs_path_def)
    then show ?thesis
      using fs True by simp
  next
    case False
    with es fs show ?thesis
      by (simp add: has_path_prefix_def with_separator_def has_prefix_iff
          prefix_snoc_abs_path abs_path_inj) (auto simp: strict_prefix_def)
  qed
qed

end
