(* ===== verification/Sync_Plan.thy ===== *)
theory Sync_Plan
  imports Sync_Path "HOL-Library.AList" "HOL-Library.Multiset" "HOL-Library.Char_ord"
    "HOL-Library.List_Lexorder"
begin

text \<open>
  Planning a one-way synchronisation: \<^verbatim>\<open>internal/sync/plan.go\<close>.

  A file system is the record \<open>file_system\<close> of the operations of the Go interface
  \<open>FileSystem\<close> that the sync engine calls, over an abstract state \<open>'s\<close>. What the operating
  system or the SFTP server answers is not under the repository, so the fields are
  parameters of every definition. A Go map with string keys is an association list with
  distinct keys, updated with \<open>AList.update\<close>; Go's map order is unspecified, and no theorem
  depends on the list's order.
\<close>

section \<open>Data\<close>

record file_info =
  fi_mode :: nat
  fi_size :: int
  fi_mtime :: int
  fi_is_dir :: bool

record 's file_system =
  fs_expand :: "'s \<Rightarrow> string \<Rightarrow> string list result"
  fs_resolve :: "string \<Rightarrow> string result"
  fs_stat :: "'s \<Rightarrow> string \<Rightarrow> file_info result"
  fs_walk :: "'s \<Rightarrow> string \<Rightarrow> (string \<times> file_info) list \<times> go_error option"
    \<comment> \<open>the entries \<open>Walk\<close> visits, in order, and the error that ends it, if any\<close>
  fs_open :: "'s \<Rightarrow> string \<Rightarrow> (string \<times> go_error option) result"
    \<comment> \<open>\<open>Open\<close>: the bytes the reader will deliver and the error that ends them, if any\<close>
  fs_create :: "string \<Rightarrow> ('s, unit) io"
    \<comment> \<open>\<open>OpenWriter\<close>: create or truncate\<close>
  fs_copy_into :: "string \<Rightarrow> string \<Rightarrow> ('s, unit) io"
    \<comment> \<open>writing all the bytes to the opened file\<close>
  fs_mkdir_all :: "string \<Rightarrow> ('s, unit) io"
  fs_remove :: "string \<Rightarrow> ('s, unit) io"
  fs_remove_dir :: "string \<Rightarrow> ('s, unit) io"
  fs_chmod :: "string \<Rightarrow> nat \<Rightarrow> 's \<Rightarrow> 's"
  fs_chtimes :: "string \<Rightarrow> int \<Rightarrow> 's \<Rightarrow> 's"
    \<comment> \<open>the code ignores the errors of these two\<close>
  fs_clean :: "string \<Rightarrow> string"
  fs_join :: "string list \<Rightarrow> string"
  fs_dir :: "string \<Rightarrow> string"
  fs_separator :: string

record desired_entry =
  source_path :: string
  destination_path :: string
  rel_path :: string
  de_mode :: nat
  de_size :: int
  de_mtime :: int
  de_is_dir :: bool

record delete_scope =
  scope_path :: string
  scope_is_dir :: bool

record plan =
  desired :: "(string \<times> desired_entry) list"
  delete_scopes :: "delete_scope list"

definition empty_plan :: plan where
  "empty_plan = \<lparr>desired = [], delete_scopes = []\<rparr>"

definition is_not_exist_err :: "go_error \<Rightarrow> bool" where
  "is_not_exist_err e =
     (err_not_exist e \<or> contains (to_lower (err_message e)) ''no such file'')"

text \<open>\<open>Walk(root, fn)\<close>: the callback runs on the entries in order and its first error
  ends the walk.\<close>

definition walk_with ::
  "'s file_system \<Rightarrow> 's \<Rightarrow> string \<Rightarrow> (string \<times> file_info \<Rightarrow> 'a \<Rightarrow> 'a result) \<Rightarrow> 'a \<Rightarrow> 'a result" where
  "walk_with fs s root fn a =
     (case fs_walk fs s root of (entries, err) \<Rightarrow>
        (case fold_result fn entries a of Inl e \<Rightarrow> Inl e
         | Inr a' \<Rightarrow> (case err of Some e \<Rightarrow> Inl e | None \<Rightarrow> Inr a')))"

section \<open>BuildPlan\<close>

definition expand_root_step ::
  "'s file_system \<Rightarrow> 's \<Rightarrow> string \<Rightarrow> (string \<times> bool) list \<Rightarrow> (string \<times> bool) list result" where
  "expand_root_step fs s raw roots =
     (case fs_expand fs s raw of Inl e \<Rightarrow> Inl e
      | Inr paths \<Rightarrow>
          fold_result (\<lambda>current rs. case fs_stat fs s current of Inl e \<Rightarrow> Inl e
             | Inr info \<Rightarrow> Inr (rs @ [(current, fi_is_dir info)])) paths roots)"

text \<open>The callback of the walk over one source root: the plan's \<open>Desired\<close> map and the
  variable \<open>rootDestinationPath\<close> are its state.\<close>

definition plan_walk_step ::
  "'s file_system \<Rightarrow> 'd file_system \<Rightarrow> string \<Rightarrow> string \<Rightarrow> bool \<Rightarrow> string \<Rightarrow> string \<times> file_info \<Rightarrow>
   (string \<times> desired_entry) list \<times> string \<Rightarrow> ((string \<times> desired_entry) list \<times> string) result" where
  "plan_walk_step src dst root_path base treat_as_dir resolved_destination =
     (\<lambda>(current, info) (des, root_dest).
        case relative_path (fs_clean src) (fs_separator src) base current of Inl e \<Rightarrow> Inl e
        | Inr relpath \<Rightarrow>
            (let dp = resolve_destination_path resolved_destination relpath treat_as_dir
                        (fs_clean dst) (fs_join dst)
             in Inr (AList.update dp
                       \<lparr>source_path = current, destination_path = dp, rel_path = relpath,
                        de_mode = fi_mode info, de_size = fi_size info,
                        de_mtime = fi_mtime info, de_is_dir = fi_is_dir info\<rparr> des,
                     if current = root_path then dp else root_dest)))"

definition plan_root_step ::
  "'s file_system \<Rightarrow> 's \<Rightarrow> 'd file_system \<Rightarrow> string \<Rightarrow> string \<Rightarrow> bool \<Rightarrow> bool \<Rightarrow>
   string \<times> bool \<Rightarrow> plan \<Rightarrow> plan result" where
  "plan_root_step src s dst destination resolved_destination target_exists_as_dir multiple =
     (\<lambda>(path, is_dir) pl.
        let preserve = should_preserve_source_name path is_dir destination resolved_destination
                         target_exists_as_dir multiple (fs_separator dst);
            base = copy_source_base path is_dir preserve (fs_clean src) (fs_dir src);
            treat = should_treat_destination_as_dir destination target_exists_as_dir is_dir
                      multiple (fs_separator dst)
        in case walk_with src s path
                  (plan_walk_step src dst path base treat resolved_destination)
                  (desired pl, '''') of Inl e \<Rightarrow> Inl e
           | Inr (des, root_dest) \<Rightarrow>
               Inr (pl\<lparr>desired := des,
                       delete_scopes :=
                         (if \<not> multiple
                          then delete_scopes pl @ [\<lparr>scope_path = root_dest, scope_is_dir = is_dir\<rparr>]
                          else delete_scopes pl)\<rparr>))"

definition build_plan ::
  "'s file_system \<Rightarrow> 's \<Rightarrow> 'd file_system \<Rightarrow> 'd \<Rightarrow> string list \<Rightarrow> string \<Rightarrow> plan result" where
  "build_plan src s dst d source_args destination =
     (case fold_result (expand_root_step src s) source_args [] of Inl e \<Rightarrow> Inl e
      | Inr roots \<Rightarrow>
          if roots = [] then errorf ''no source paths to sync''
          else (case fs_resolve dst destination of Inl e \<Rightarrow> Inl e
            | Inr resolved \<Rightarrow>
                let st = fs_stat dst d resolved;
                    exists_dir = (case st of Inl e \<Rightarrow> False | Inr info \<Rightarrow> fi_is_dir info);
                    multiple = (length roots > 1);
                    pl = (if multiple
                          then empty_plan\<lparr>delete_scopes :=
                                 [\<lparr>scope_path = resolved, scope_is_dir = True\<rparr>]\<rparr>
                          else empty_plan)
                in (case st of
                      Inl e \<Rightarrow> if \<not> is_not_exist_err e then Inl e
                               else fold_result (plan_root_step src s dst destination resolved
                                      exists_dir multiple) roots pl
                    | Inr info \<Rightarrow> fold_result (plan_root_step src s dst destination resolved
                                      exists_dir multiple) roots pl)))"

definition sorted_desired_directories :: "plan \<Rightarrow> desired_entry list" where
  "sorted_desired_directories pl =
     sort_key (\<lambda>e. path_depth (destination_path e)) (filter de_is_dir (map snd (desired pl)))"

definition sorted_desired_files :: "plan \<Rightarrow> desired_entry list" where
  "sorted_desired_files pl =
     sort_key destination_path (filter (\<lambda>e. \<not> de_is_dir e) (map snd (desired pl)))"

section \<open>pathsToDelete\<close>

text \<open>
  The inner loop \<open>for { protected[current] = ...; if current == cleaner(scope.Path) break;
  current = dir(current) }\<close> has no bound of its own: whether it stops depends on \<open>dir\<close>.
  \<open>None\<close> is a loop that does not return.
\<close>

partial_function (option) protect_loop ::
  "(string \<Rightarrow> string) \<Rightarrow> (string \<Rightarrow> string) \<Rightarrow> string \<Rightarrow> string \<Rightarrow> string list \<Rightarrow> string list option"
where
  "protect_loop cleaner dir scope current prot =
     (if current = cleaner scope then Some (List.insert current prot)
      else protect_loop cleaner dir scope (dir current) (List.insert current prot))"

declare protect_loop.simps [code]

fun protect_desired ::
  "(string \<Rightarrow> string) \<Rightarrow> (string \<Rightarrow> string) \<Rightarrow> string \<Rightarrow> string \<Rightarrow> string list \<Rightarrow> string list \<Rightarrow>
   string list option"
where
  "protect_desired cleaner dir sep scope [] prot = Some prot"
| "protect_desired cleaner dir sep scope (d # ds) prot =
     (if \<not> has_path_prefix cleaner sep d scope
      then protect_desired cleaner dir sep scope ds prot
      else (case protect_loop cleaner dir scope (cleaner d) prot of None \<Rightarrow> None
            | Some prot' \<Rightarrow> protect_desired cleaner dir sep scope ds prot'))"

definition paths_to_delete ::
  "delete_scope \<Rightarrow> string list \<Rightarrow> string list \<Rightarrow> (string \<Rightarrow> string) \<Rightarrow> (string \<Rightarrow> string) \<Rightarrow>
   string \<Rightarrow> string list option"
where
  "paths_to_delete scope existing desired_paths cleaner dir sep =
     (case protect_desired cleaner dir sep (scope_path scope) desired_paths
             [cleaner (scope_path scope)] of
        None \<Rightarrow> None
      | Some prot \<Rightarrow>
          Some (sort_key (\<lambda>p. - int (path_depth p))
                  (filter (\<lambda>p. p \<notin> set prot) (map cleaner existing))))"

text \<open>What is protected below a scope: the scope and, for every desired path under it, the
  paths between the two.\<close>

definition between ::
  "(string \<Rightarrow> bool) \<Rightarrow> (string \<Rightarrow> string list) \<Rightarrow> string \<Rightarrow> string \<Rightarrow> string set" where
  "between valid elems scope d =
     {q. valid q \<and> prefix (elems scope) (elems q) \<and> prefix (elems q) (elems d)}"

context path_ops
begin

lemma between_dir:
  assumes "valid c" and "valid scope" and "prefix (elems scope) (elems c)" and "c \<noteq> scope"
  shows "between valid elems scope c = insert c (between valid elems scope (dir c))"
proof -
  have "elems c \<noteq> []"
    using dir_under(2)[OF assms] by auto
  then obtain es e where es: "elems c = es @ [e]"
    by (metis rev_exhaust)
  then have "elems (dir c) = es"
    using assms(1) by (simp add: dir_elems)
  moreover have "prefix (elems q) (elems c) \<longleftrightarrow> q = c \<or> prefix (elems q) es" if "valid q" for q
    using es elems_inj[OF that assms(1)] by auto
  ultimately show ?thesis
    using assms by (auto simp: between_def)
qed

lemma protect_loop_returns:
  assumes "valid c" and "valid scope" and "prefix (elems scope) (elems c)"
  shows "\<exists>prot'. protect_loop cleaner dir scope c prot = Some prot'
           \<and> set prot' = set prot \<union> between valid elems scope c"
  using assms
proof (induction "length (elems c)" arbitrary: c prot rule: less_induct)
  case less
  show ?case
  proof (cases "c = scope")
    case True
    have "between valid elems scope scope = {scope}"
      using less.prems elems_inj by (auto simp: between_def dest: prefix_order.antisym)
    with True less.prems(2) show ?thesis
      by (simp add: protect_loop.simps[of _ _ scope scope] clean_valid)
  next
    case False
    note d = dir_under[OF less.prems False]
    from less.hyps[OF d(2) dir_valid[OF less.prems(1)] less.prems(2) d(1)]
    obtain prot' where "protect_loop cleaner dir scope (dir c) (List.insert c prot) = Some prot'"
      and "set prot' = set (List.insert c prot) \<union> between valid elems scope (dir c)"
      by blast
    with False less.prems show ?thesis
      by (simp add: protect_loop.simps[of _ _ _ c] clean_valid between_dir)
  qed
qed

lemma protect_desired_returns:
  assumes "valid scope" and "list_all valid ds"
  shows "\<exists>prot'. protect_desired cleaner dir sep scope ds prot = Some prot'
           \<and> set prot' = set prot \<union> (\<Union>d \<in> set (filter (\<lambda>d. prefix (elems scope) (elems d)) ds).
                                       between valid elems scope d)"
  using assms(2)
proof (induction ds arbitrary: prot)
  case (Cons d ds)
  then have d: "valid d" and ds: "list_all valid ds"
    by auto
  show ?case
  proof (cases "prefix (elems scope) (elems d)")
    case True
    obtain p1 where p1: "protect_loop cleaner dir scope d prot = Some p1"
      "set p1 = set prot \<union> between valid elems scope d"
      using protect_loop_returns[OF d assms(1) True] by blast
    obtain p2 where "protect_desired cleaner dir sep scope ds p1 = Some p2"
      "set p2 = set p1 \<union> (\<Union>d \<in> set (filter (\<lambda>d. prefix (elems scope) (elems d)) ds).
                          between valid elems scope d)"
      using Cons.IH[OF ds] by blast
    with p1 True d assms(1) show ?thesis
      by (simp add: under_iff clean_valid Un_assoc)
  next
    case False
    with Cons.IH[OF ds] d assms(1) show ?thesis
      by (simp add: under_iff)
  qed
qed simp

lemma paths_to_delete_spec:
  assumes "valid (scope_path scope)" and "list_all valid existing" and "list_all valid ds"
  shows "\<exists>rs. paths_to_delete scope existing ds cleaner dir sep = Some rs
     \<and> set rs = {p \<in> set existing. p \<noteq> scope_path scope
           \<and> \<not> (\<exists>d \<in> set ds. prefix (elems (scope_path scope)) (elems p) \<and> prefix (elems p) (elems d))}
     \<and> sorted_wrt (\<lambda>p q. path_depth q \<le> path_depth p) rs"
proof -
  let ?s = "scope_path scope"
  obtain prot where prot: "protect_desired cleaner dir sep ?s ds [cleaner ?s] = Some prot"
    "set prot = {?s} \<union> (\<Union>d \<in> set (filter (\<lambda>d. prefix (elems ?s) (elems d)) ds). between valid elems ?s d)"
    using protect_desired_returns[OF assms(1,3), of "[cleaner ?s]"] clean_valid[OF assms(1)]
    by auto
  have ex: "map cleaner existing = existing"
    using assms(2) by (auto simp: list_all_iff clean_valid intro: map_idI)
  have "p \<notin> set prot \<longleftrightarrow> p \<noteq> ?s \<and> \<not> (\<exists>d \<in> set ds. prefix (elems ?s) (elems p) \<and> prefix (elems p) (elems d))"
    if "p \<in> set existing" for p
    using that assms(2) prot(2)
    by (auto simp: between_def list_all_iff intro: prefix_order.trans)
  with prot(1) ex show ?thesis
    by (auto simp: paths_to_delete_def sorted_sort_key_desc)
qed

end

section \<open>Order of deletions\<close>

lemma count_runs_inside:
  "\<forall>c \<in> set e. \<not> is_path_sep c \<Longrightarrow> count_runs True (e @ t) = count_runs True t"
  by (induction e) auto

lemma count_runs_no_sep:
  "\<forall>c \<in> set e. \<not> is_path_sep c \<Longrightarrow> e \<noteq> [] \<Longrightarrow> count_runs b (e @ t) = count_runs True t"
  by (cases e) (auto simp: count_runs_inside)

lemma count_runs_join:
  assumes "es \<noteq> []" and "\<forall>e \<in> set es. e \<noteq> [] \<and> (\<forall>c \<in> set e. \<not> is_path_sep c)"
  shows "count_runs False (join_with ''/'' es) = length es"
  using assms
proof (induction es)
  case (Cons e es)
  show ?case
  proof (cases "es = []")
    case True
    with Cons.prems show ?thesis
      using count_runs_no_sep[of e False "[]"] by simp
  next
    case False
    with Cons.prems have "count_runs False (join_with ''/'' (e # es)) =
        count_runs True (''/'' @ join_with ''/'' es)"
      by (simp add: join_with_Cons count_runs_no_sep)
    also have "\<dots> = Suc (length es)"
      using Cons False by (simp add: is_path_sep_def)
    finally show ?thesis by simp
  qed
qed simp

definition plain_elem :: "string \<Rightarrow> bool" where
  "plain_elem e = (proper_elem e \<and> CHR 0x5C \<notin> set e)"

lemma trim_seps_id:
  assumes "es \<noteq> []" and "\<forall>e \<in> set es. e \<noteq> [] \<and> (\<forall>c \<in> set e. \<not> is_path_sep c)"
  shows "trim_seps (''/'' @ join_with ''/'' es) = join_with ''/'' es"
proof -
  obtain e es' where e: "es = e # es'"
    using assms(1) by (cases es) auto
  obtain f fs' where f: "es = fs' @ [f]"
    using assms(1) by (cases es rule: rev_cases) auto
  obtain c e' where c: "e = c # e'" "\<not> is_path_sep c"
    using e assms(2) by (cases e) auto
  obtain g f' where g: "f = f' @ [g]" "\<not> is_path_sep g"
    using f assms(2) by (cases f rule: rev_cases) auto
  have 1: "\<exists>t. join_with ''/'' es = c # t"
    using e c by (cases es') auto
  have 2: "\<exists>t. join_with ''/'' es = t @ [g]"
  proof (cases "fs' = []")
    case True
    with f g show ?thesis by simp
  next
    case False
    with f g show ?thesis by (simp add: join_with_append)
  qed
  obtain t u where t: "join_with ''/'' es = c # t" and u: "join_with ''/'' es = u @ [g]"
    using 1 2 by blast
  have "dropWhile is_path_sep (''/'' @ join_with ''/'' es) = join_with ''/'' es"
    using t c(2) by (simp add: is_path_sep_def)
  moreover have "dropWhile is_path_sep (rev (join_with ''/'' es)) = rev (join_with ''/'' es)"
    using u g(2) by simp
  ultimately show ?thesis
    by (simp add: trim_seps_def)
qed

lemma path_depth_abs_path:
  assumes "list_all plain_elem es"
  shows "path_depth (abs_path es) = length es"
proof (cases "es = []")
  case True
  then show ?thesis
    by (simp add: path_depth_def trim_seps_def abs_path_def is_path_sep_def)
next
  case False
  have *: "\<forall>e \<in> set es. e \<noteq> [] \<and> (\<forall>c \<in> set e. \<not> is_path_sep c)"
    using assms by (auto simp: list_all_iff plain_elem_def proper_elem_def is_path_sep_def)
  have "join_with ''/'' es \<noteq> []"
    using False * by (cases es rule: list.exhaust; cases "tl es") auto
  with False * show ?thesis
    by (simp add: path_depth_def abs_path_def trim_seps_id[simplified] count_runs_join)
qed

text \<open>
  C2. The removals of a delete scope are exactly the existing paths that are neither the
  scope itself nor a desired path under it nor an ancestor (inside the scope) of one; the
  ancestor loop always returns on absolute clean paths; and the list is ordered by
  decreasing depth. So an extra file is always deleted and nothing the plan needs ever is.
\<close>

theorem sync_delete_exact:
  assumes "abs_clean (scope_path scope)" and "list_all abs_clean existing" and "list_all abs_clean ds"
  shows "\<exists>rs. paths_to_delete scope existing ds path_clean path_dir ''/'' = Some rs
     \<and> set rs = {p \<in> set existing. p \<noteq> scope_path scope
           \<and> \<not> (\<exists>d \<in> set ds. prefix (clean_elems (scope_path scope)) (clean_elems p)
                           \<and> prefix (clean_elems p) (clean_elems d))}
     \<and> sorted_wrt (\<lambda>p q. path_depth q \<le> path_depth p) rs"
  using assms by (rule posix.paths_to_delete_spec)

lemma sync_delete_exact_witness:
  "\<exists>rs. paths_to_delete \<lparr>scope_path = ''/d'', scope_is_dir = True\<rparr> [''/d/a'', ''/d/b'']
          [''/d/a/f''] path_clean path_dir ''/'' = Some rs \<and> set rs = {''/d/b''}"
proof -
  let ?sc = "\<lparr>scope_path = ''/d'', scope_is_dir = True\<rparr>"
  have c: "abs_clean (scope_path ?sc)" "list_all abs_clean [''/d/a'', ''/d/b'']" "list_all abs_clean [''/d/a/f'']"
    by code_simp+
  have e: "{p \<in> set [''/d/a'', ''/d/b'']. p \<noteq> scope_path ?sc
           \<and> \<not> (\<exists>d \<in> set [''/d/a/f'']. prefix (clean_elems (scope_path ?sc)) (clean_elems p)
                           \<and> prefix (clean_elems p) (clean_elems d))} = {''/d/b''}"
    by code_simp
  show ?thesis
    using sync_delete_exact[OF c] unfolding e by blast
qed
text \<open>
  Deletions run children first: where names hold no backslash (which \<open>pathDepth\<close> also
  counts as a separator), a path is removed before every one of its ancestors in the list.
\<close>

theorem sync_delete_children_first:
  assumes "paths_to_delete scope (map abs_path existing) ds path_clean path_dir ''/'' = Some rs"
    and "\<forall>es \<in> set existing. list_all plain_elem es"
    and "i < j" and "j < length rs"
  shows "\<not> strict_prefix (clean_elems (rs ! i)) (clean_elems (rs ! j))"
proof -
  have cl: "path_clean (abs_path es) = abs_path es \<and> list_all proper_elem es" if "es \<in> set existing" for es
    using that assms(2) by (auto simp: list_all_iff plain_elem_def)
  then have "map path_clean (map abs_path existing) = map abs_path existing"
    by simp
  then have "\<exists>P. rs = sort_key (\<lambda>p. - int (path_depth p)) (filter P (map abs_path existing))"
    using assms(1) unfolding paths_to_delete_def by (auto split: option.splits simp del: map_map)
  then obtain P where rs: "rs = sort_key (\<lambda>p. - int (path_depth p)) (filter P (map abs_path existing))"
    by blast
  have "\<exists>es. rs ! k = abs_path es \<and> list_all plain_elem es \<and> clean_elems (rs ! k) = es"
    if "k < length rs" for k
  proof -
    have "rs ! k \<in> set rs"
      using that by simp
    then have "rs ! k \<in> abs_path ` set existing"
      unfolding rs by auto
    with cl assms(2) show ?thesis by auto
  qed
  then have d: "path_depth (rs ! k) = length (clean_elems (rs ! k))" if "k < length rs" for k
    using that path_depth_abs_path by metis
  have "path_depth (rs ! j) \<le> path_depth (rs ! i)"
    using assms(3,4) sorted_sort_key_desc[of path_depth] unfolding rs
    by (rule_tac sorted_wrt_nth_less) auto
  then have "length (clean_elems (rs ! j)) \<le> length (clean_elems (rs ! i))"
    using d assms(3,4) by simp
  then show ?thesis
    by (meson prefix_length_less not_le)
qed

lemma sync_delete_children_first_witness:
  "\<not> strict_prefix (clean_elems ''/d/b/c'') (clean_elems ''/d/b'')"
proof -
  let ?sc = "\<lparr>scope_path = ''/d'', scope_is_dir = True\<rparr>"
  have "paths_to_delete ?sc (map abs_path [[''d'', ''b''], [''d'', ''b'', ''c'']]) [] path_clean
      path_dir ''/'' = Some [''/d/b/c'', ''/d/b'']"
    by code_simp
  moreover have "\<forall>es \<in> set [[''d'', ''b''], [''d'', ''b'', ''c'']]. list_all plain_elem es"
    by code_simp
  ultimately show ?thesis
    using sync_delete_children_first[of ?sc "[[''d'', ''b''], [''d'', ''b'', ''c'']]" "[]"
        "[''/d/b/c'', ''/d/b'']" 0 1] by simp
qed

section \<open>The plan of a directory\<close>

text \<open>What both file systems of \<^verbatim>\<open>filesystem.go\<close> do for \<open>Clean\<close>, \<open>Join\<close>, \<open>Dir\<close>,
  \<open>Separator\<close> and \<open>Resolve\<close> on a POSIX host: \<open>base_dir\<close> is the working directory of
  \<open>localFS\<close>, the remote \<open>pwd\<close> of \<open>remoteFS\<close>.\<close>

definition resolve_path :: "string \<Rightarrow> string \<Rightarrow> string \<Rightarrow> string" where
  "resolve_path base_dir home raw =
     path_clean (if raw = ''~'' then home
                 else if has_prefix raw ''~/'' then path_join [home, drop 2 raw]
                 else if \<not> is_abs raw then path_join [base_dir, raw]
                 else raw)"

definition posix_fs :: "string \<Rightarrow> string \<Rightarrow> 's file_system \<Rightarrow> bool" where
  "posix_fs base_dir home fs =
     (fs_clean fs = path_clean \<and> fs_join fs = path_join \<and> fs_dir fs = path_dir
      \<and> fs_separator fs = ''/'' \<and> fs_resolve fs = (\<lambda>raw. Inr (resolve_path base_dir home raw)))"

lemma is_abs_join: "is_abs a \<Longrightarrow> is_abs (join_with sep (a # xs))"
  by (cases xs) (auto simp: is_abs_def has_prefix_iff prefix_def)

text \<open>
  \<open>Resolve\<close> yields an absolute, lexically clean path for every argument, so the paths
  the planner works on satisfy the preconditions of the deletion properties.
\<close>

theorem resolve_path_abs_clean:
  assumes "is_abs base_dir" and "is_abs home"
  shows "abs_clean (resolve_path base_dir home raw)"
proof -
  have "is_abs (path_join [b, r])" if "is_abs b" for b r
  proof -
    have "b \<noteq> []"
      using that by (auto simp: is_abs_def)
    moreover have "abs_clean (path_clean (join_with ''/'' (b # filter (\<lambda>e. e \<noteq> []) [r])))"
      using that by (intro abs_clean_clean is_abs_join)
    ultimately show ?thesis
      by (auto simp: path_join_def abs_clean_def)
  qed
  then show ?thesis
    unfolding resolve_path_def using assms by (intro abs_clean_clean) auto
qed

lemma resolve_path_abs_clean_witness: "abs_clean (resolve_path ''/w'' ''/h'' ''../x/./y'')"
  by (rule resolve_path_abs_clean) (simp_all add: is_abs_def)

lemma join_is_dot:
  "list_all proper_elem xs \<Longrightarrow> xs \<noteq> [] \<Longrightarrow> join_with ''/'' xs \<noteq> ''.'' \<and> join_with ''/'' xs \<noteq> ''''"
proof (induction xs rule: join_with.induct[of _ "''/''"])
  case (3 _ x y ys)
  then show ?case by (cases x) (auto simp: proper_elem_def)
qed (auto simp: proper_elem_def)

definition rel_key :: "string list \<Rightarrow> string" where
  "rel_key xs = (if xs = [] then ''.'' else join_with ''/'' xs)"

lemma relative_path_abs:
  assumes "list_all proper_elem rs" and "list_all proper_elem xs"
  shows "relative_path path_clean ''/'' (abs_path rs) (abs_path (rs @ xs)) = Inr (rel_key xs)"
proof (cases "xs = []")
  case True
  with assms show ?thesis by (simp add: relative_path_def rel_key_def)
next
  case False
  have "abs_path (rs @ xs) = with_separator ''/'' (abs_path rs) @ join_with ''/'' xs"
    using False assms(1)
    by (simp add: with_separator_def abs_path_def[of "rs @ xs"] join_with_append)
      (simp add: abs_path_def)
  then have "has_prefix (abs_path (rs @ xs)) (with_separator ''/'' (abs_path rs))"
    and "trim_prefix (abs_path (rs @ xs)) (with_separator ''/'' (abs_path rs)) = join_with ''/'' xs"
    by simp_all
  moreover have "abs_path (rs @ xs) \<noteq> abs_path rs"
    using False assms by (simp add: abs_path_inj)
  moreover have "path_clean (abs_path rs) = abs_path rs"
    and "path_clean (abs_path (rs @ xs)) = abs_path (rs @ xs)"
    using assms by simp_all
  ultimately show ?thesis
    using False unfolding relative_path_def rel_key_def Let_def by (simp (no_asm_simp))
qed

lemma resolve_destination_abs:
  assumes "list_all proper_elem ts" and "list_all proper_elem xs"
  shows "resolve_destination_path (abs_path ts) (rel_key xs) True path_clean path_join = abs_path (ts @ xs)"
  using assms join_is_dot[OF assms(2)]
  by (auto simp: resolve_destination_path_def rel_key_def path_join_abs_path)

definition mirrored :: "string list \<Rightarrow> string list \<Rightarrow> string list \<times> file_info \<Rightarrow> string \<times> desired_entry" where
  "mirrored rs ts = (\<lambda>(xs, i). (abs_path (ts @ xs),
     \<lparr>source_path = abs_path (rs @ xs), destination_path = abs_path (ts @ xs),
      rel_path = rel_key xs, de_mode = fi_mode i, de_size = fi_size i, de_mtime = fi_mtime i,
      de_is_dir = fi_is_dir i\<rparr>))"

lemma plan_walk_abs:
  assumes "posix_fs c h src" and "posix_fs c' h' dst"
    and "list_all proper_elem rs" and "list_all proper_elem ts"
    and "\<forall>(xs, i) \<in> set es. list_all proper_elem xs"
  shows "\<exists>des'. fold_result (plan_walk_step src dst (abs_path rs) (abs_path rs) True (abs_path ts))
            (map (\<lambda>(xs, i). (abs_path (rs @ xs), i)) es) (des, rd)
          = Inr (des', if [] \<in> fst ` set es then abs_path ts else rd)
        \<and> map_of des' = map_of (rev (map (mirrored rs ts) es) @ des)"
  using assms(5)
proof (induction es arbitrary: des rd)
  case (Cons e es)
  obtain xs i where e: "e = (xs, i)" by (cases e)
  with Cons.prems have xs: "list_all proper_elem xs" by auto
  have "(abs_path (rs @ xs) = abs_path rs) = (xs = [])"
    using abs_path_inj[of "rs @ xs" rs] assms(3) xs by simp
  then have step: "plan_walk_step src dst (abs_path rs) (abs_path rs) True (abs_path ts)
      (abs_path (rs @ xs), i) (des, rd) =
      Inr (AList.update (fst (mirrored rs ts e)) (snd (mirrored rs ts e)) des,
           if xs = [] then abs_path ts else rd)"
    using assms xs e
    by (simp add: plan_walk_step_def posix_fs_def relative_path_abs resolve_destination_abs
        Let_def mirrored_def)
  let ?des = "AList.update (fst (mirrored rs ts e)) (snd (mirrored rs ts e)) des"
  obtain des' where "fold_result (plan_walk_step src dst (abs_path rs) (abs_path rs) True (abs_path ts))
        (map (\<lambda>(xs, i). (abs_path (rs @ xs), i)) es) (?des, if xs = [] then abs_path ts else rd)
      = Inr (des', if [] \<in> fst ` set es then abs_path ts else (if xs = [] then abs_path ts else rd))"
    and "map_of des' = map_of (rev (map (mirrored rs ts) es) @ ?des)"
    using Cons.IH[of ?des "if xs = [] then abs_path ts else rd"] Cons.prems by auto
  moreover have "map_of ?des = map_of (mirrored rs ts e # des)"
    by (simp add: update_conv')
  ultimately show ?case
    using e step by (auto simp: map_add_def fun_eq_iff split: option.splits)
qed simp

text \<open>
  C1. Planning one source directory mirrors it: every entry the walk visits below the source
  root is planned at the same relative path below the resolved destination, with its mode,
  size, time and kind; nothing else is planned; and the one delete scope is the destination
  root itself. (The last visit of a path wins, as a Go map assignment does.)
\<close>

theorem build_plan_mirrors_directory:
  assumes "posix_fs c h src" and "posix_fs c' h' dst"
    and "fs_expand src s raw = Inr [abs_path rs]" and "fs_stat src s (abs_path rs) = Inr info"
    and "fi_is_dir info" and "list_all proper_elem rs"
    and "resolve_path c' h' destination = abs_path ts" and "list_all proper_elem ts"
    and "\<forall>e. fs_stat dst d (abs_path ts) = Inl e \<longrightarrow> is_not_exist_err e"
    and "fs_walk src s (abs_path rs) = (map (\<lambda>(xs, i). (abs_path (rs @ xs), i)) (([], info) # es), None)"
    and "\<forall>(xs, i) \<in> set es. list_all proper_elem xs"
  shows "\<exists>pl. build_plan src s dst d [raw] destination = Inr pl
     \<and> map_of (desired pl) = map_of (rev (map (mirrored rs ts) (([], info) # es)))
     \<and> delete_scopes pl = [\<lparr>scope_path = abs_path ts, scope_is_dir = True\<rparr>]"
proof -
  obtain des' where des': "fold_result (plan_walk_step src dst (abs_path rs) (abs_path rs) True (abs_path ts))
        (map (\<lambda>(xs, i). (abs_path (rs @ xs), i)) (([], info) # es)) ([], '''') = Inr (des', abs_path ts)"
    "map_of des' = map_of (rev (map (mirrored rs ts) (([], info) # es)) @ [])"
    using plan_walk_abs[OF assms(1,2,6,8), of "([], info) # es" "[]" "''''"] assms(11) by auto
  have root: "plan_root_step src s dst destination (abs_path ts) ex False (abs_path rs, True) empty_plan =
      Inr \<lparr>desired = des', delete_scopes = [\<lparr>scope_path = abs_path ts, scope_is_dir = True\<rparr>]\<rparr>" for ex
  proof -
    have "should_preserve_source_name (abs_path rs) True destination (abs_path ts) ex False (fs_separator dst) = False"
      by (simp add: should_preserve_source_name_def)
    moreover have "copy_source_base (abs_path rs) True False (fs_clean src) (fs_dir src) = abs_path rs"
      using assms(1,6) by (simp add: copy_source_base_def posix_fs_def)
    moreover have "should_treat_destination_as_dir destination ex True False (fs_separator dst) = True"
      by (simp add: should_treat_destination_as_dir_def)
    moreover have "walk_with src s (abs_path rs)
        (plan_walk_step src dst (abs_path rs) (abs_path rs) True (abs_path ts)) ([], '''') = Inr (des', abs_path ts)"
      unfolding walk_with_def assms(10) prod.case des'(1) by simp
    ultimately show ?thesis
      by (simp add: plan_root_step_def empty_plan_def)
  qed
  have "fold_result (expand_root_step src s) [raw] [] = Inr [(abs_path rs, True)]"
    using assms(3,4,5) by (simp add: expand_root_step_def)
  then have "build_plan src s dst d [raw] destination =
      Inr \<lparr>desired = des', delete_scopes = [\<lparr>scope_path = abs_path ts, scope_is_dir = True\<rparr>]\<rparr>"
    using assms(2,7,9) root
    by (auto simp: build_plan_def posix_fs_def Let_def split: sum.splits)
  with des'(2) show ?thesis by simp
qed

definition sample_dir :: file_info where
  "sample_dir = \<lparr>fi_mode = 493, fi_size = 0, fi_mtime = 7, fi_is_dir = True\<rparr>"

definition sample_file :: file_info where
  "sample_file = \<lparr>fi_mode = 420, fi_size = 3, fi_mtime = 9, fi_is_dir = False\<rparr>"

definition sample_fs :: "unit file_system" where
  "sample_fs =
     \<lparr>fs_expand = (\<lambda>s raw. Inr [resolve_path ''/w'' ''/h'' raw]),
      fs_resolve = (\<lambda>raw. Inr (resolve_path ''/w'' ''/h'' raw)),
      fs_stat = (\<lambda>s p. if p = ''/w/s'' then Inr sample_dir
                       else if p = ''/w/s/a'' then Inr sample_file
                       else Inl (Go_Error True ''file does not exist'')),
      fs_walk = (\<lambda>s p. ([(''/w/s'', sample_dir), (''/w/s/a'', sample_file)], None)),
      fs_open = (\<lambda>s p. Inr (''abc'', None)), fs_create = (\<lambda>p. io_return ()),
      fs_copy_into = (\<lambda>p c. io_return ()), fs_mkdir_all = (\<lambda>p. io_return ()),
      fs_remove = (\<lambda>p. io_return ()), fs_remove_dir = (\<lambda>p. io_return ()), fs_chmod = (\<lambda>p m s. s),
      fs_chtimes = (\<lambda>p t s. s), fs_clean = path_clean, fs_join = path_join, fs_dir = path_dir,
      fs_separator = ''/''\<rparr>"

lemma posix_sample_fs: "posix_fs ''/w'' ''/h'' sample_fs"
  by (simp add: posix_fs_def sample_fs_def)

lemma build_plan_mirrors_directory_witness:
  "\<exists>pl. build_plan sample_fs () sample_fs () [''s''] ''/t/'' = Inr pl
     \<and> map_option source_path (map_of (desired pl) ''/t/a'') = Some ''/w/s/a''
     \<and> delete_scopes pl = [\<lparr>scope_path = ''/t'', scope_is_dir = True\<rparr>]"
proof -
  let ?es = "[([''a''], sample_file)]"
  have n: "\<forall>e. fs_stat sample_fs () (abs_path [''t'']) = Inl e \<longrightarrow> is_not_exist_err e"
    by (simp add: sample_fs_def is_not_exist_err_def abs_path_def)
  have h: "fs_expand sample_fs () ''s'' = Inr [abs_path [''w'', ''s'']]"
    "fs_stat sample_fs () (abs_path [''w'', ''s'']) = Inr sample_dir" "fi_is_dir sample_dir"
    "list_all proper_elem [''w'', ''s'']" "resolve_path ''/w'' ''/h'' ''/t/'' = abs_path [''t'']"
    "list_all proper_elem [''t'']"
    by code_simp+
  have h': "fs_walk sample_fs () (abs_path [''w'', ''s'']) =
       (map (\<lambda>(xs, i). (abs_path ([''w'', ''s''] @ xs), i)) (([], sample_dir) # ?es), None)"
    "\<forall>(xs, i) \<in> set ?es. list_all proper_elem xs"
    by code_simp+
  have m: "map_option source_path (map_of (rev (map (mirrored [''w'', ''s''] [''t'']) (([], sample_dir) # ?es)))
      ''/t/a'') = Some ''/w/s/a''" and t: "abs_path [''t''] = ''/t''"
    by code_simp+
  show ?thesis
    using build_plan_mirrors_directory[OF posix_sample_fs posix_sample_fs h n h'] m t by auto
qed

end
