(* ===== verification/Sync_Bidirectional.thy ===== *)
theory Sync_Bidirectional
  imports Sync_Plan
begin

text \<open>
  Two-way synchronisation: \<^verbatim>\<open>internal/sync/bidirectional.go\<close> and
  \<^verbatim>\<open>internal/sync/checksum.go\<close>. Each side is read into a snapshot keyed by relative
  path; the two snapshots are compared key by key and every difference becomes an entry of
  exactly one of the two plans. The SHA-256 digest is a parameter \<open>digest\<close>.
\<close>

section \<open>Snapshots\<close>

record snapshot_entry =
  se_key :: string
  se_path :: string
  se_mode :: nat
  se_size :: int
  se_checksum :: string
  se_mtime :: int
  se_is_dir :: bool

record snapshot =
  sn_root :: string
  sn_entries :: "(string \<times> snapshot_entry) list"

definition file_checksum ::
  "(string \<Rightarrow> string) \<Rightarrow> 's file_system \<Rightarrow> 's \<Rightarrow> string \<Rightarrow> string result" where
  "file_checksum digest fs s p =
     (case fs_open fs s p of Inl e \<Rightarrow> Inl e
      | Inr (content, Some e) \<Rightarrow> Inl e
      | Inr (content, None) \<Rightarrow> Inr (digest content))"

definition to_snapshot_key :: "string \<Rightarrow> string" where
  "to_snapshot_key relpath =
     (if relpath = '''' \<or> relpath = ''.'' then ''.'' else path_clean relpath)"

definition snapshot_walk_step ::
  "(string \<Rightarrow> string) \<Rightarrow> 's file_system \<Rightarrow> 's \<Rightarrow> string \<Rightarrow> string \<times> file_info \<Rightarrow>
   (string \<times> snapshot_entry) list \<Rightarrow> (string \<times> snapshot_entry) list result" where
  "snapshot_walk_step digest fs s resolved_root =
     (\<lambda>(current, info) entries.
        case relative_path (fs_clean fs) (fs_separator fs) resolved_root current of Inl e \<Rightarrow> Inl e
        | Inr relpath \<Rightarrow>
            (let entry = \<lparr>se_key = to_snapshot_key relpath, se_path = current,
                   se_mode = fi_mode info, se_size = fi_size info, se_checksum = '''',
                   se_mtime = fi_mtime info, se_is_dir = fi_is_dir info\<rparr>
             in if \<not> fi_is_dir info
                then (case file_checksum digest fs s current of Inl e \<Rightarrow> Inl e
                  | Inr checksum \<Rightarrow>
                      Inr (AList.update (to_snapshot_key relpath)
                             (entry\<lparr>se_checksum := checksum\<rparr>) entries))
                else Inr (AList.update (to_snapshot_key relpath) entry entries)))"

definition build_snapshot ::
  "(string \<Rightarrow> string) \<Rightarrow> 's file_system \<Rightarrow> 's \<Rightarrow> string \<Rightarrow> snapshot result" where
  "build_snapshot digest fs s root =
     (case fs_resolve fs root of Inl e \<Rightarrow> Inl e
      | Inr resolved \<Rightarrow>
          (case fs_stat fs s resolved of
             Inl e \<Rightarrow> if is_not_exist_err e then Inr \<lparr>sn_root = resolved, sn_entries = []\<rparr>
                      else Inl e
           | Inr info \<Rightarrow>
               if \<not> fi_is_dir info
               then (case file_checksum digest fs s resolved of Inl e \<Rightarrow> Inl e
                 | Inr checksum \<Rightarrow>
                     Inr \<lparr>sn_root = resolved,
                          sn_entries = [(''.'', \<lparr>se_key = ''.'', se_path = resolved,
                            se_mode = fi_mode info, se_size = fi_size info,
                            se_checksum = checksum, se_mtime = fi_mtime info,
                            se_is_dir = False\<rparr>)]\<rparr>)
               else (case walk_with fs s resolved (snapshot_walk_step digest fs s resolved) []
                     of Inl e \<Rightarrow> Inl e
                     | Inr entries \<Rightarrow> Inr \<lparr>sn_root = resolved, sn_entries = entries\<rparr>)))"

section \<open>Comparing and planning\<close>

text \<open>1: the left entry wins; -1: the right entry wins; 0: nothing to do.\<close>

definition compare_snapshot_entries :: "snapshot_entry \<Rightarrow> snapshot_entry \<Rightarrow> int" where
  "compare_snapshot_entries left right =
     (if se_is_dir left \<noteq> se_is_dir right then
        (if se_mtime right < se_mtime left then 1
         else if se_mtime left < se_mtime right then -1 else 1)
      else if se_is_dir left then
        (if se_mtime right < se_mtime left then 1
         else if se_mtime left < se_mtime right then -1 else 0)
      else if se_size left = se_size right \<and> se_checksum left = se_checksum right then 0
      else if se_mtime right < se_mtime left then 1
      else if se_mtime left < se_mtime right then -1 else 1)"

definition add_snapshot_entry_plan ::
  "plan \<Rightarrow> snapshot_entry \<Rightarrow> string \<Rightarrow> (string list \<Rightarrow> string) \<Rightarrow> plan" where
  "add_snapshot_entry_plan pl source destination_root join =
     (let dp = (if se_key source \<noteq> ''.'' then join [destination_root, se_key source]
                else destination_root)
      in pl\<lparr>desired := AList.update dp
             \<lparr>source_path = se_path source, destination_path = dp, rel_path = se_key source,
              de_mode = se_mode source, de_size = se_size source, de_mtime = se_mtime source,
              de_is_dir = se_is_dir source\<rparr> (desired pl)\<rparr>)"

definition plan_key_step ::
  "snapshot \<Rightarrow> snapshot \<Rightarrow> (string list \<Rightarrow> string) \<Rightarrow> (string list \<Rightarrow> string) \<Rightarrow> string \<Rightarrow>
   plan \<times> plan \<Rightarrow> plan \<times> plan" where
  "plan_key_step left right ljoin rjoin key =
     (\<lambda>(l2r, r2l).
        case (map_of (sn_entries left) key, map_of (sn_entries right) key) of
          (Some le, None) \<Rightarrow> (add_snapshot_entry_plan l2r le (sn_root right) rjoin, r2l)
        | (None, Some re) \<Rightarrow> (l2r, add_snapshot_entry_plan r2l re (sn_root left) ljoin)
        | (Some le, Some re) \<Rightarrow>
            (let winner = compare_snapshot_entries le re
             in if winner = -1 then (l2r, add_snapshot_entry_plan r2l re (sn_root left) ljoin)
                else if winner = 1 then (add_snapshot_entry_plan l2r le (sn_root right) rjoin, r2l)
                else (l2r, r2l))
        | (None, None) \<Rightarrow> (l2r, r2l))"

definition sorted_keys :: "snapshot \<Rightarrow> snapshot \<Rightarrow> string list" where
  "sorted_keys left right =
     sort (remdups (map fst (sn_entries left) @ map fst (sn_entries right)))"

definition build_bidirectional_plans ::
  "(string \<Rightarrow> string) \<Rightarrow> 's file_system \<Rightarrow> 's \<Rightarrow> 'd file_system \<Rightarrow> 'd \<Rightarrow> string \<Rightarrow> string \<Rightarrow>
   (plan \<times> plan) result" where
  "build_bidirectional_plans digest lfs s rfs d left_root right_root =
     (case build_snapshot digest lfs s left_root of Inl e \<Rightarrow> Inl e
      | Inr left \<Rightarrow>
          (case build_snapshot digest rfs d right_root of Inl e \<Rightarrow> Inl e
           | Inr right \<Rightarrow>
               Inr (fold (plan_key_step left right (fs_join lfs) (fs_join rfs))
                      (sorted_keys left right) (empty_plan, empty_plan))))"

section \<open>What the plans hold\<close>

text \<open>The keys sent to the right: present on the left and absent or older on the right.\<close>

definition sends ::
  "(snapshot_entry \<Rightarrow> snapshot_entry \<Rightarrow> bool) \<Rightarrow> snapshot \<Rightarrow> snapshot \<Rightarrow> string \<Rightarrow> bool" where
  "sends wins from to key =
     (case map_of (sn_entries from) key of None \<Rightarrow> False
      | Some e \<Rightarrow> (case map_of (sn_entries to) key of None \<Rightarrow> True | Some e' \<Rightarrow> wins e e'))"

definition left_wins :: "snapshot_entry \<Rightarrow> snapshot_entry \<Rightarrow> bool" where
  "left_wins l r = (compare_snapshot_entries l r = 1)"

definition right_wins :: "snapshot_entry \<Rightarrow> snapshot_entry \<Rightarrow> bool" where
  "right_wins r l = (compare_snapshot_entries l r = -1)"

definition destination_of :: "string \<Rightarrow> (string list \<Rightarrow> string) \<Rightarrow> string \<Rightarrow> string" where
  "destination_of root join key = (if key \<noteq> ''.'' then join [root, key] else root)"

definition planned_entry :: "string \<Rightarrow> snapshot_entry \<Rightarrow> desired_entry" where
  "planned_entry dp e =
     \<lparr>source_path = se_path e, destination_path = dp, rel_path = se_key e, de_mode = se_mode e,
      de_size = se_size e, de_mtime = se_mtime e, de_is_dir = se_is_dir e\<rparr>"

definition snapshot_ok :: "snapshot \<Rightarrow> bool" where
  "snapshot_ok sn = (\<forall>k e. map_of (sn_entries sn) k = Some e \<longrightarrow> se_key e = k)"

lemma compare_range: "compare_snapshot_entries l r \<in> {-1, 0, 1}"
  by (simp add: compare_snapshot_entries_def)

lemma plan_key_step_desired:
  assumes "snapshot_ok left" and "snapshot_ok right"
  shows "map_of (desired (fst (plan_key_step left right ljoin rjoin key (l2r, r2l)))) =
      (if sends left_wins left right key
       then (map_of (desired l2r))(destination_of (sn_root right) rjoin key \<mapsto>
              planned_entry (destination_of (sn_root right) rjoin key)
                (the (map_of (sn_entries left) key)))
       else map_of (desired l2r))"
    and "map_of (desired (snd (plan_key_step left right ljoin rjoin key (l2r, r2l)))) =
      (if sends right_wins right left key
       then (map_of (desired r2l))(destination_of (sn_root left) ljoin key \<mapsto>
              planned_entry (destination_of (sn_root left) ljoin key)
                (the (map_of (sn_entries right) key)))
       else map_of (desired r2l))"
  using assms
  by (auto simp: plan_key_step_def sends_def left_wins_def right_wins_def Let_def
      add_snapshot_entry_plan_def destination_of_def planned_entry_def snapshot_ok_def update_conv'
      split: option.splits)

lemma fold_plan_keys:
  assumes "snapshot_ok left" and "snapshot_ok right"
  shows "map_of (desired (fst (fold (plan_key_step left right ljoin rjoin) ks p))) =
      fold (\<lambda>k m. if sends left_wins left right k
              then m(destination_of (sn_root right) rjoin k \<mapsto>
                     planned_entry (destination_of (sn_root right) rjoin k)
                       (the (map_of (sn_entries left) k)))
              else m) ks (map_of (desired (fst p)))"
    and "map_of (desired (snd (fold (plan_key_step left right ljoin rjoin) ks p))) =
      fold (\<lambda>k m. if sends right_wins right left k
              then m(destination_of (sn_root left) ljoin k \<mapsto>
                     planned_entry (destination_of (sn_root left) ljoin k)
                       (the (map_of (sn_entries right) k)))
              else m) ks (map_of (desired (snd p)))"
proof (induction ks arbitrary: p)
  case (Cons k ks)
  { case 1
    show ?case using Cons.IH(1) plan_key_step_desired(1)[OF assms, of ljoin rjoin k "fst p" "snd p"]
      by simp }
  { case 2
    show ?case using Cons.IH(2) plan_key_step_desired(2)[OF assms, of ljoin rjoin k "fst p" "snd p"]
      by simp }
qed simp_all

section \<open>Snapshots of a POSIX tree\<close>

definition key_of_elems :: "string \<Rightarrow> bool" where
  "key_of_elems k = (\<exists>xs. list_all proper_elem xs \<and> k = rel_key xs)"

lemma relative_path_key:
  assumes "relative_path path_clean ''/'' (abs_path rs) current = Inr relpath"
    and "list_all proper_elem rs"
  shows "to_snapshot_key relpath = relpath \<and> key_of_elems relpath"
proof (cases "path_clean current = abs_path rs")
  case True
  then have "relpath = rel_key []"
    using assms by (simp add: relative_path_def rel_key_def)
  then show ?thesis
    unfolding key_of_elems_def by (force simp: to_snapshot_key_def rel_key_def)
next
  case False
  then have pre: "has_prefix (path_clean current) (with_separator ''/'' (abs_path rs))"
    and rel: "relpath = trim_prefix (path_clean current) (with_separator ''/'' (abs_path rs))"
    using assms by (auto simp: relative_path_def Let_def errorf_def split: if_splits)
  have "is_abs (path_clean current)"
    using pre by (auto simp: has_prefix_iff is_abs_def with_separator_def abs_path_def prefix_def
        split: if_splits)
  then obtain es where es: "path_clean current = abs_path es" "list_all proper_elem es"
    using path_clean_abs clean_elems_proper by auto
  have "prefix rs es"
    using pre es assms(2) prefix_snoc_abs_path[OF assms(2) es(2)]
    by (cases "rs = []") (auto simp: with_separator_def has_prefix_iff)
  then obtain xs where xs: "es = rs @ xs"
    by (auto simp: prefix_def)
  have "xs \<noteq> []" and p: "list_all proper_elem xs"
    using False es xs by auto
  then have "relpath = rel_key xs"
    using relative_path_abs[OF assms(2) p] es xs rel pre assms(2) False
    by (simp add: relative_path_def Let_def split: if_splits)
  with p \<open>xs \<noteq> []\<close> show ?thesis
    using path_clean_join_proper[OF p] join_is_dot[OF p]
    by (auto simp: to_snapshot_key_def rel_key_def key_of_elems_def)
qed

lemma destination_of_inj:
  assumes "list_all proper_elem ts" and "\<forall>k \<in> K. key_of_elems k"
  shows "inj_on (destination_of (abs_path ts) path_join) K"
proof (rule inj_onI)
  have d: "destination_of (abs_path ts) path_join (rel_key xs) = abs_path (ts @ xs)"
    if "list_all proper_elem xs" for xs
    using that assms(1) join_is_dot[OF that]
    by (auto simp: destination_of_def rel_key_def path_join_abs_path)
  fix k l
  assume kl: "k \<in> K" "l \<in> K"
    and eq: "destination_of (abs_path ts) path_join k = destination_of (abs_path ts) path_join l"
  obtain xs ys where "list_all proper_elem xs" "k = rel_key xs" "list_all proper_elem ys" "l = rel_key ys"
    using assms(2) kl unfolding key_of_elems_def by meson
  with eq d assms(1) show "k = l"
    by (simp add: abs_path_inj)
qed

lemma build_snapshot_ok:
  assumes "build_snapshot digest fs s root = Inr sn" and "posix_fs b h fs"
    and "is_abs b" and "is_abs h"
  shows "snapshot_ok sn \<and> (\<forall>k \<in> set (map fst (sn_entries sn)). key_of_elems k)
     \<and> (\<exists>ts. sn_root sn = abs_path ts \<and> list_all proper_elem ts)"
proof -
  let ?root = "resolve_path b h root"
  obtain ts where ts: "?root = abs_path ts" "list_all proper_elem ts"
    using resolve_path_abs_clean[OF assms(3,4), of root] by (rule abs_cleanE)
  let ?I = "\<lambda>es :: (string \<times> snapshot_entry) list. (\<forall>k e. map_of es k = Some e \<longrightarrow> se_key e = k)
      \<and> (\<forall>k \<in> dom (map_of es). key_of_elems k)"
  have dot: "key_of_elems ''.''"
    unfolding key_of_elems_def by (rule exI[of _ "[]"]) (simp add: rel_key_def)
  have walk: "?I es" if w: "walk_with fs s ?root (snapshot_walk_step digest fs s ?root) [] = Inr es" for es
  proof -
    obtain entries where "fold_result (snapshot_walk_step digest fs s ?root) entries [] = Inr es"
      using w unfolding walk_with_def by (auto split: prod.splits sum.splits option.splits)
    then show ?thesis
    proof (rule fold_result_inv[where I = ?I])
      fix x b b'
      assume I: "?I b" and st: "snapshot_walk_step digest fs s ?root x b = Inr b'"
      obtain current info where x: "x = (current, info)" by (cases x)
      with st obtain relpath where
        "relative_path path_clean ''/'' (abs_path ts) current = Inr relpath"
        using assms(2) ts by (auto simp: snapshot_walk_step_def posix_fs_def split: sum.splits)
      with st x I show "?I b'"
        using relative_path_key[OF _ ts(2)] assms(2) ts(1)
        by (auto simp: snapshot_walk_step_def posix_fs_def Let_def update_conv'
            split: sum.splits if_splits)
    qed simp
  qed
  show ?thesis
    using assms(1,2) ts dot walk unfolding set_map dom_map_of_conv_image_fst[symmetric]
    by (auto simp: build_snapshot_def posix_fs_def snapshot_ok_def split: sum.splits if_splits)
qed

text \<open>The keys the code goes through are those of the two snapshots.\<close>

lemma set_sorted_keys: "set (sorted_keys left right) = fst ` set (sn_entries left) \<union> fst ` set (sn_entries right)"
  by (simp add: sorted_keys_def)

text \<open>
  C5. Two-way planning decides every key once. For POSIX file systems, whatever the walks
  visit: take any key of either snapshot. If it exists on one side only, or its entry on one
  side wins the comparison, it is planned from that side, at the key's place below the other
  side's root and with the winner's data; otherwise it is planned in neither direction. Nothing
  is planned that is not at the place of a key of one of the snapshots.
\<close>

theorem bidirectional_plans_exact:
  assumes "posix_fs bl hl lfs" and "is_abs bl" and "is_abs hl"
    and "posix_fs br hr rfs" and "is_abs br" and "is_abs hr"
    and "build_snapshot digest lfs s left_root = Inr left"
    and "build_snapshot digest rfs d right_root = Inr right"
    and "k \<in> fst ` set (sn_entries left) \<union> fst ` set (sn_entries right)"
  shows "\<exists>l2r r2l. build_bidirectional_plans digest lfs s rfs d left_root right_root = Inr (l2r, r2l)
     \<and> map_of (desired l2r) (destination_of (sn_root right) path_join k) =
         (if sends left_wins left right k
          then Some (planned_entry (destination_of (sn_root right) path_join k)
                       (the (map_of (sn_entries left) k))) else None)
     \<and> map_of (desired r2l) (destination_of (sn_root left) path_join k) =
         (if sends right_wins right left k
          then Some (planned_entry (destination_of (sn_root left) path_join k)
                       (the (map_of (sn_entries right) k))) else None)
     \<and> dom (map_of (desired l2r)) \<subseteq> destination_of (sn_root right) path_join `
          (fst ` set (sn_entries left) \<union> fst ` set (sn_entries right))
     \<and> dom (map_of (desired r2l)) \<subseteq> destination_of (sn_root left) path_join `
          (fst ` set (sn_entries left) \<union> fst ` set (sn_entries right))"
proof -
  note L = build_snapshot_ok[OF assms(7,1,2,3)] and R = build_snapshot_ok[OF assms(8,4,5,6)]
  have keys: "\<forall>k \<in> set (sorted_keys left right). key_of_elems k"
    using L R by (auto simp: sorted_keys_def)
  have il: "inj_on (destination_of (sn_root left) path_join) (set (sorted_keys left right))"
    and ir: "inj_on (destination_of (sn_root right) path_join) (set (sorted_keys left right))"
    using L R keys by (auto intro: destination_of_inj)
  have build: "build_bidirectional_plans digest lfs s rfs d left_root right_root =
      Inr (fold (plan_key_step left right path_join path_join) (sorted_keys left right) (empty_plan, empty_plan))"
    using assms(1,4,7,8) by (simp add: build_bidirectional_plans_def posix_fs_def)
  obtain l2r r2l where p: "fold (plan_key_step left right path_join path_join) (sorted_keys left right)
      (empty_plan, empty_plan) = (l2r, r2l)"
    by (cases "fold (plan_key_step left right path_join path_join) (sorted_keys left right)
      (empty_plan, empty_plan)")
  have l: "map_of (desired l2r) = fold (\<lambda>k m. if sends left_wins left right k
              then m(destination_of (sn_root right) path_join k \<mapsto>
                     planned_entry (destination_of (sn_root right) path_join k)
                       (the (map_of (sn_entries left) k)))
              else m) (sorted_keys left right) Map.empty"
    and r: "map_of (desired r2l) = fold (\<lambda>k m. if sends right_wins right left k
              then m(destination_of (sn_root left) path_join k \<mapsto>
                     planned_entry (destination_of (sn_root left) path_join k)
                       (the (map_of (sn_entries right) k)))
              else m) (sorted_keys left right) Map.empty"
    using fold_plan_keys[of left right path_join path_join "sorted_keys left right"
        "(empty_plan, empty_plan)"] L R p by (simp_all add: empty_plan_def)
  have "map_of (desired l2r) q = None"
    if "q \<notin> destination_of (sn_root right) path_join ` set (sorted_keys left right)" for q
    unfolding l by (subst fold_map_upd_other[OF that]) (rule refl)
  then have dl: "dom (map_of (desired l2r)) \<subseteq> destination_of (sn_root right) path_join ` set (sorted_keys left right)"
    by (metis domIff subsetI)
  have "map_of (desired r2l) q = None"
    if "q \<notin> destination_of (sn_root left) path_join ` set (sorted_keys left right)" for q
    unfolding r by (subst fold_map_upd_other[OF that]) (rule refl)
  then have dr: "dom (map_of (desired r2l)) \<subseteq> destination_of (sn_root left) path_join ` set (sorted_keys left right)"
    by (metis domIff subsetI)
  have k: "k \<in> set (sorted_keys left right)"
    using assms(9) by (simp only: set_sorted_keys)
  show ?thesis
    unfolding build p set_sorted_keys[symmetric]
  proof (intro exI conjI)
    show "Inr (l2r, r2l) = Inr (l2r, r2l)" ..
    show "map_of (desired l2r) (destination_of (sn_root right) path_join k) =
         (if sends left_wins left right k
          then Some (planned_entry (destination_of (sn_root right) path_join k)
                       (the (map_of (sn_entries left) k))) else None)"
      unfolding l by (rule fold_map_upd_key[OF ir k])
    show "map_of (desired r2l) (destination_of (sn_root left) path_join k) =
         (if sends right_wins right left k
          then Some (planned_entry (destination_of (sn_root left) path_join k)
                       (the (map_of (sn_entries right) k))) else None)"
      unfolding r by (rule fold_map_upd_key[OF il k])
  qed (fact dl dr)+
qed

text \<open>The two machines of the example: the key \<open>a\<close> on the right one only, nothing on the left one.\<close>

definition missing_fs :: "unit file_system" where
  "missing_fs = sample_fs\<lparr>fs_stat := (\<lambda>s p. Inl (Go_Error True ''file does not exist''))\<rparr>"

lemma posix_missing_fs: "posix_fs ''/w'' ''/h'' missing_fs"
  by (simp add: posix_fs_def missing_fs_def sample_fs_def)

lemma bidirectional_plans_exact_witness:
  "\<exists>l2r r2l. build_bidirectional_plans id missing_fs () sample_fs () ''t'' ''s'' = Inr (l2r, r2l)
     \<and> map_of (desired l2r) ''/w/s/a'' = None
     \<and> map_option source_path (map_of (desired r2l) ''/w/t/a'') = Some ''/w/s/a''"
proof -
  let ?R = "\<lparr>sn_root = ''/w/s'', sn_entries =
      [(''.'', \<lparr>se_key = ''.'', se_path = ''/w/s'', se_mode = 493, se_size = 0, se_checksum = '''',
               se_mtime = 7, se_is_dir = True\<rparr>),
       (''a'', \<lparr>se_key = ''a'', se_path = ''/w/s/a'', se_mode = 420, se_size = 3,
               se_checksum = ''abc'', se_mtime = 9, se_is_dir = False\<rparr>)]\<rparr>"
  let ?L = "\<lparr>sn_root = ''/w/t'', sn_entries = []\<rparr> :: snapshot"
  have a: "is_abs ''/w''" "is_abs ''/h''"
    by code_simp+
  have r: "build_snapshot id sample_fs () ''s'' = Inr ?R"
    and l: "build_snapshot id missing_fs () ''t'' = Inr ?L"
    by code_simp+
  have k: "''a'' \<in> fst ` set (sn_entries ?L) \<union> fst ` set (sn_entries ?R)"
    by simp
  have d: "destination_of (sn_root ?L) path_join ''a'' = ''/w/t/a''"
    "destination_of (sn_root ?R) path_join ''a'' = ''/w/s/a''"
    "sends right_wins ?R ?L ''a''" "\<not> sends left_wins ?L ?R ''a''"
    "source_path (planned_entry ''/w/t/a'' (the (map_of (sn_entries ?R) ''a''))) = ''/w/s/a''"
    by code_simp+
  show ?thesis
    using bidirectional_plans_exact[OF posix_missing_fs a posix_sample_fs a l r k]
    unfolding d(1,2) using d(3-5) by auto
qed

text \<open>
  C6. No conflict and no loss: a key present on both sides is never planned in both
  directions, it is planned in neither only when the two entries agree (two directories of
  the same time, or two files of the same size and digest), and of two differing entries
  the strictly newer one is the one that is sent.
\<close>

theorem bidirectional_decision:
  assumes "map_of (sn_entries left) k = Some le" and "map_of (sn_entries right) k = Some re"
  shows "\<not> (sends left_wins left right k \<and> sends right_wins right left k)
     \<and> (\<not> sends left_wins left right k \<and> \<not> sends right_wins right left k \<longleftrightarrow>
          se_is_dir le = se_is_dir re \<and>
          (if se_is_dir le then se_mtime le = se_mtime re
           else se_size le = se_size re \<and> se_checksum le = se_checksum re))
     \<and> (sends right_wins right left k \<longrightarrow> se_mtime le < se_mtime re)
     \<and> (sends left_wins left right k \<longrightarrow> se_mtime re \<le> se_mtime le)"
  using assms
  by (auto simp: sends_def left_wins_def right_wins_def compare_snapshot_entries_def split: if_splits)

lemma bidirectional_decision_witness:
  "sends right_wins
     \<lparr>sn_root = ''/r'', sn_entries = [(''k'', \<lparr>se_key = ''k'', se_path = ''/r/k'', se_mode = 0,
        se_size = 1, se_checksum = ''x'', se_mtime = 5, se_is_dir = False\<rparr>)]\<rparr>
     \<lparr>sn_root = ''/l'', sn_entries = [(''k'', \<lparr>se_key = ''k'', se_path = ''/l/k'', se_mode = 0,
        se_size = 1, se_checksum = ''y'', se_mtime = 4, se_is_dir = False\<rparr>)]\<rparr> ''k''"
  (is "sends right_wins ?R ?L ''k''")
proof -
  have m: "map_of (sn_entries ?L) ''k'' = Some (snd (hd (sn_entries ?L)))"
    "map_of (sn_entries ?R) ''k'' = Some (snd (hd (sn_entries ?R)))"
    by code_simp+
  have "\<not> sends left_wins ?L ?R ''k''"
    by code_simp
  then show ?thesis
    using bidirectional_decision[OF m] by simp
qed

end
