(* ===== verification/Sync_Apply.thy ===== *)
theory Sync_Apply
  imports Sync_Bidirectional
begin

text \<open>
  Applying a plan: \<^verbatim>\<open>internal/sync/execute.go\<close>. The world of an application is the
  state of the destination file system and the lines printed; the source is only read. The
  file copies are made here in plan order; the worker pool that makes them concurrently is
  the theory \<^verbatim>\<open>Sync_Pool\<close>.
\<close>

section \<open>The world and the options\<close>

record 's apply_world =
  aw_dst :: 's
  aw_log :: "string list"

record apply_options =
  ao_delete :: bool
  ao_dry_run :: bool
  ao_permission :: bool
  ao_output :: bool
    \<comment> \<open>\<open>Output != nil\<close>: progress bars\<close>
  ao_source_label :: string
  ao_target_label :: string
  ao_source_display :: "(string \<Rightarrow> string) option"
  ao_target_display :: "(string \<Rightarrow> string) option"

definition on_dst :: "('s, 'a) io \<Rightarrow> ('s apply_world, 'a) io" where
  "on_dst m = (\<lambda>w. case m (aw_dst w) of (r, s) \<Rightarrow> (r, w\<lparr>aw_dst := s\<rparr>))"

definition ask_dst :: "('s \<Rightarrow> 'a) \<Rightarrow> ('s apply_world, 'a) io" where
  "ask_dst f = io_read (\<lambda>w. f (aw_dst w))"

definition print_line :: "string \<Rightarrow> ('s apply_world, unit) io" where
  "print_line l = io_modify (\<lambda>w. w\<lparr>aw_log := aw_log w @ [l]\<rparr>)"

section \<open>Labels and messages\<close>

definition labeled_path :: "string \<Rightarrow> string \<Rightarrow> string" where
  "labeled_path label p = (if label = '''' then p else label @ '':'' @ p)"

definition print_action :: "string \<Rightarrow> string \<Rightarrow> bool \<Rightarrow> ('s apply_world, unit) io" where
  "print_action action target dry_run =
     print_line ((if dry_run then ''[DRY-RUN] '' else '''') @ action @ '': '' @ target)"

definition format_transfer_label ::
  "string \<Rightarrow> string \<Rightarrow> string \<Rightarrow> string \<Rightarrow> (string \<Rightarrow> string) option \<Rightarrow> (string \<Rightarrow> string) option \<Rightarrow> string" where
  "format_transfer_label sp dp source_label target_label source_display target_display =
     (let sp = (case source_display of None \<Rightarrow> sp | Some f \<Rightarrow> f sp);
          dp = (case target_display of None \<Rightarrow> dp | Some f \<Rightarrow> f dp);
          source = (if source_label \<noteq> '''' then source_label @ '':'' @ sp else sp);
          destination = (if target_label \<noteq> '''' then target_label @ '':'' @ dp else dp)
      in source @ '' -> '' @ destination)"

section \<open>removePathRecursive\<close>

definition ignore_not_exist :: "('w, unit) io \<Rightarrow> ('w, unit) io" where
  "ignore_not_exist m = (\<lambda>w. case m w of
      (Inl e, w') \<Rightarrow> if is_not_exist_err e then (Inr (), w') else (Inl e, w')
    | (Inr u, w') \<Rightarrow> (Inr u, w'))"

definition remove_child :: "'s file_system \<Rightarrow> string \<Rightarrow> ('s, unit) io" where
  "remove_child fs current =
     io_bind (io_read (\<lambda>s. fs_stat fs s current)) (\<lambda>st. case st of
        Inl e \<Rightarrow> if is_not_exist_err e then io_return () else io_fail e
      | Inr info \<Rightarrow>
          if fi_is_dir info then ignore_not_exist (fs_remove_dir fs current)
          else ignore_not_exist (fs_remove fs current))"

definition remove_path_recursive :: "'s file_system \<Rightarrow> string \<Rightarrow> ('s, unit) io" where
  "remove_path_recursive fs p =
     io_bind (io_read (\<lambda>s. fs_stat fs s p)) (\<lambda>st. case st of
        Inl e \<Rightarrow> if is_not_exist_err e then io_return () else io_fail e
      | Inr info \<Rightarrow>
          if \<not> fi_is_dir info then fs_remove fs p
          else io_bind (io_read (\<lambda>s. fs_walk fs s p)) (\<lambda>walked. case walked of
              (entries, Some e) \<Rightarrow> io_fail e
            | (entries, None) \<Rightarrow> io_for (remove_child fs) (rev (map fst entries))))"

section \<open>Directories and files\<close>

definition ensure_directory ::
  "'s file_system \<Rightarrow> desired_entry \<Rightarrow> apply_options \<Rightarrow> ('s apply_world, unit) io" where
  "ensure_directory dst directory opts =
     (let dp = destination_path directory; lp = labeled_path (ao_target_label opts) dp in
      io_bind (ask_dst (\<lambda>d. fs_stat dst d dp)) (\<lambda>st.
      io_bind (case st of
          Inr info \<Rightarrow> if \<not> fi_is_dir info
                      then (if ao_dry_run opts then print_action ''remove'' lp True
                            else on_dst (remove_path_recursive dst dp))
                      else io_return ()
        | Inl e \<Rightarrow> if is_not_exist_err e then io_return () else io_fail e) (\<lambda>_.
      io_bind (if ao_dry_run opts then print_action ''mkdir'' lp True
               else on_dst (fs_mkdir_all dst dp)) (\<lambda>_.
      if ao_permission opts
      then (if ao_dry_run opts then print_action ''chmod'' lp True
            else on_dst (io_modify (fs_chmod dst dp (de_mode directory))))
      else io_return ()))))"

definition file_needs_copy ::
  "(string \<Rightarrow> string) \<Rightarrow> 's file_system \<Rightarrow> 's \<Rightarrow> 'd file_system \<Rightarrow> 'd \<Rightarrow> desired_entry \<Rightarrow> bool result" where
  "file_needs_copy digest src s dst d file =
     (case fs_stat dst d (destination_path file) of
        Inr info \<Rightarrow>
          if fi_is_dir info then Inr True
          else if fi_size info \<noteq> de_size file then Inr True
          else (case file_checksum digest src s (source_path file) of Inl e \<Rightarrow> Inl e
            | Inr src_checksum \<Rightarrow>
                (case file_checksum digest dst d (destination_path file) of Inl e \<Rightarrow> Inl e
                 | Inr dst_checksum \<Rightarrow> Inr (src_checksum \<noteq> dst_checksum)))
      | Inl e \<Rightarrow> if is_not_exist_err e then Inr True else Inl e)"

text \<open>The body of the copy: without an \<open>Output\<close>, \<open>io.Copy\<close> returns the first write or
  read error; with one, \<open>ProgressPrinter\<close> copies through a \<open>TeeReader\<close> and drops the
  error (\<^verbatim>\<open>_, _ = io.Copy(io.Discard, reader)\<close>).\<close>

definition drop_error :: "('w, unit) io \<Rightarrow> ('w, unit) io" where
  "drop_error m = (\<lambda>w. (Inr (), snd (m w)))"

definition copy_bytes ::
  "'d file_system \<Rightarrow> string \<Rightarrow> string \<times> go_error option \<Rightarrow> bool \<Rightarrow> ('d, unit) io" where
  "copy_bytes dst dp = (\<lambda>(content, read_err) with_output.
     let copy = io_bind (fs_copy_into dst dp content)
                  (\<lambda>_. case read_err of None \<Rightarrow> io_return () | Some e \<Rightarrow> io_fail e)
     in if with_output then drop_error copy else copy)"

definition copy_single_file ::
  "'s file_system \<Rightarrow> 's \<Rightarrow> 'd file_system \<Rightarrow> desired_entry \<Rightarrow> apply_options \<Rightarrow>
   ('d apply_world, unit) io" where
  "copy_single_file src s dst file opts =
     (let dp = destination_path file; lp = labeled_path (ao_target_label opts) dp;
          label = format_transfer_label (source_path file) dp (ao_source_label opts)
                    (ao_target_label opts) (ao_source_display opts) (ao_target_display opts) in
      io_bind (ask_dst (\<lambda>d. fs_stat dst d dp)) (\<lambda>st.
      io_bind (case st of
          Inr info \<Rightarrow> if fi_is_dir info
                      then (if ao_dry_run opts then print_action ''remove'' lp True
                            else on_dst (remove_path_recursive dst dp))
                      else io_return ()
        | Inl e \<Rightarrow> if is_not_exist_err e then io_return () else io_fail e) (\<lambda>_.
      if ao_dry_run opts then
        io_bind (print_action ''copy'' label True) (\<lambda>_.
          if ao_permission opts then print_action ''chmod'' lp True else io_return ())
      else
        io_bind (on_dst (fs_mkdir_all dst (fs_dir dst dp))) (\<lambda>_.
        case fs_open src s (source_path file) of Inl e \<Rightarrow> io_fail e
        | Inr reader \<Rightarrow>
            io_bind (on_dst (fs_create dst dp)) (\<lambda>_.
            io_bind (if ao_output opts then print_line (''copy: '' @ label) else io_return ()) (\<lambda>_.
            io_bind (on_dst (copy_bytes dst dp reader (ao_output opts))) (\<lambda>_.
            io_bind (if ao_permission opts
                     then on_dst (io_modify (fs_chmod dst dp (de_mode file))) else io_return ()) (\<lambda>_.
            on_dst (io_modify (fs_chtimes dst dp (de_mtime file)))))))))))"

section \<open>deleteExtraPaths and ApplyPlan\<close>

text \<open>\<open>pathsToDelete\<close> may fail to return; the whole call then does not return, \<open>None\<close>.\<close>

definition delete_scope_paths ::
  "'d file_system \<Rightarrow> plan \<Rightarrow> bool \<Rightarrow> string \<Rightarrow> delete_scope \<Rightarrow> 'd \<Rightarrow> (string list result) option" where
  "delete_scope_paths dst pl dry_run target_label scope d =
     (if \<not> scope_is_dir scope then Some (Inr [])
      else case fs_stat dst d (scope_path scope) of
          Inl e \<Rightarrow> if is_not_exist_err e then Some (Inr []) else Some (Inl e)
        | Inr info \<Rightarrow>
            if \<not> fi_is_dir info then Some (Inr [])
            else case fs_walk dst d (scope_path scope) of
                (entries, Some e) \<Rightarrow> Some (Inl e)
              | (entries, None) \<Rightarrow>
                  map_option Inr
                    (paths_to_delete scope (filter (\<lambda>p. p \<noteq> scope_path scope) (map fst entries))
                       (map fst (desired pl)) (fs_clean dst) (fs_dir dst) (fs_separator dst)))"

definition delete_path ::
  "'d file_system \<Rightarrow> bool \<Rightarrow> string \<Rightarrow> string \<Rightarrow> ('d apply_world, unit) io" where
  "delete_path dst dry_run target_label p =
     io_bind (print_action ''delete'' (labeled_path target_label p) dry_run) (\<lambda>_.
       if dry_run then io_return () else on_dst (remove_path_recursive dst p))"

fun delete_extra_paths ::
  "'d file_system \<Rightarrow> plan \<Rightarrow> bool \<Rightarrow> string \<Rightarrow> delete_scope list \<Rightarrow> 'd apply_world \<Rightarrow>
   (unit result \<times> 'd apply_world) option" where
  "delete_extra_paths dst pl dry_run target_label [] w = Some (Inr (), w)"
| "delete_extra_paths dst pl dry_run target_label (scope # scopes) w =
     (case delete_scope_paths dst pl dry_run target_label scope (aw_dst w) of
        None \<Rightarrow> None
      | Some (Inl e) \<Rightarrow> Some (Inl e, w)
      | Some (Inr paths) \<Rightarrow>
          (case io_for (delete_path dst dry_run target_label) paths w of
             (Inl e, w') \<Rightarrow> Some (Inl e, w')
           | (Inr _, w') \<Rightarrow> delete_extra_paths dst pl dry_run target_label scopes w'))"

text \<open>The loop over the files: those that need a copy are collected, the others get their
  mode.\<close>

fun plan_copies ::
  "(string \<Rightarrow> string) \<Rightarrow> 's file_system \<Rightarrow> 's \<Rightarrow> 'd file_system \<Rightarrow> apply_options \<Rightarrow>
   desired_entry list \<Rightarrow> desired_entry list \<Rightarrow> ('d apply_world, desired_entry list) io" where
  "plan_copies digest src s dst opts [] targets = io_return targets"
| "plan_copies digest src s dst opts (file # files) targets =
     io_bind (ask_dst (\<lambda>d. file_needs_copy digest src s dst d file)) (\<lambda>r. case r of
        Inl e \<Rightarrow> io_fail e
      | Inr True \<Rightarrow> plan_copies digest src s dst opts files (targets @ [file])
      | Inr False \<Rightarrow>
          io_bind (if ao_permission opts \<and> \<not> ao_dry_run opts
                   then on_dst (io_modify (fs_chmod dst (destination_path file) (de_mode file)))
                   else if ao_permission opts
                   then print_action ''chmod'' (labeled_path (ao_target_label opts) (destination_path file)) True
                   else io_return ())
            (\<lambda>_. plan_copies digest src s dst opts files targets))"

definition apply_files ::
  "(string \<Rightarrow> string) \<Rightarrow> 's file_system \<Rightarrow> 's \<Rightarrow> 'd file_system \<Rightarrow> plan \<Rightarrow> apply_options \<Rightarrow>
   ('d apply_world, unit) io" where
  "apply_files digest src s dst pl opts =
     io_bind (io_for (\<lambda>dir. ensure_directory dst dir opts) (sorted_desired_directories pl)) (\<lambda>_.
     io_bind (plan_copies digest src s dst opts (sorted_desired_files pl) []) (\<lambda>targets.
     io_for (\<lambda>file. copy_single_file src s dst file opts) targets))"

definition apply_plan ::
  "(string \<Rightarrow> string) \<Rightarrow> 's file_system \<Rightarrow> 's \<Rightarrow> 'd file_system \<Rightarrow> plan \<Rightarrow> apply_options \<Rightarrow>
   'd apply_world \<Rightarrow> (unit result \<times> 'd apply_world) option" where
  "apply_plan digest src s dst pl opts w =
     (case apply_files digest src s dst pl opts w of
        (Inl e, w1) \<Rightarrow> Some (Inl e, w1)
      | (Inr _, w1) \<Rightarrow>
          (case (if ao_delete opts
                 then delete_extra_paths dst pl (ao_dry_run opts) (ao_target_label opts) (delete_scopes pl) w1
                 else Some (Inr (), w1)) of
             None \<Rightarrow> None
           | Some (Inl e, w2) \<Rightarrow> Some (Inl e, w2)
           | Some (Inr _, w2) \<Rightarrow>
               Some (Inr (),
                 if ao_permission opts \<and> \<not> ao_dry_run opts
                 then fold (\<lambda>dir w. w\<lparr>aw_dst := fs_chmod dst (destination_path dir) (de_mode dir) (aw_dst w)\<rparr>)
                        (sorted_desired_directories pl) w2
                 else w2)))"

section \<open>A dry run has no effect\<close>

definition same_dst :: "'s apply_world \<Rightarrow> 's apply_world \<Rightarrow> bool" where
  "same_dst w w' = (aw_dst w' = aw_dst w)"

lemma same_dst_equiv [simp, intro]: "reflp same_dst" "transp same_dst"
  by (auto simp: same_dst_def intro: reflpI transpI)

lemma print_action_same [io_intros]: "io_keeps same_dst (print_action a t d)"
  by (simp add: io_keeps_def print_action_def print_line_def io_modify_def same_dst_def)

lemma ask_dst_same [io_intros]: "io_keeps same_dst (ask_dst f)"
  by (simp add: io_keeps_def ask_dst_def io_read_def same_dst_def)

lemma ensure_directory_dry:
  "ao_dry_run opts \<Longrightarrow> io_keeps same_dst (ensure_directory dst dir opts)"
  by (auto simp: ensure_directory_def Let_def split: sum.split intro!: io_intros)

lemma copy_single_file_dry:
  "ao_dry_run opts \<Longrightarrow> io_keeps same_dst (copy_single_file src s dst file opts)"
  by (auto simp: copy_single_file_def Let_def split: sum.split intro!: io_intros)

lemma plan_copies_dry:
  "ao_dry_run opts \<Longrightarrow> io_keeps same_dst (plan_copies digest src s dst opts files targets)"
proof (induction files arbitrary: targets)
  case (Cons f fs)
  then show ?case
    by (auto split: sum.split bool.split intro!: io_intros)
qed (auto intro: io_intros)

lemma apply_files_dry:
  "ao_dry_run opts \<Longrightarrow> io_keeps same_dst (apply_files digest src s dst pl opts)"
  unfolding apply_files_def
  by (intro io_intros ensure_directory_dry plan_copies_dry copy_single_file_dry) auto

lemma delete_path_dry: "io_keeps same_dst (delete_path dst True label p)"
  unfolding delete_path_def by (auto intro!: io_intros)

lemma delete_extra_paths_dry:
  "delete_extra_paths dst pl True label scopes w = Some (r, w') \<Longrightarrow> aw_dst w' = aw_dst w"
proof (induction scopes arbitrary: w)
  case (Cons scope scopes)
  have "aw_dst (snd (io_for (delete_path dst True label) paths w)) = aw_dst w" for paths
    using io_keeps_for[of same_dst "delete_path dst True label" paths] delete_path_dry[of dst label]
    by (auto simp: io_keeps_def same_dst_def)
  then have "io_for (delete_path dst True label) paths w = (x, w1) \<Longrightarrow> aw_dst w1 = aw_dst w" for paths x w1
    by (metis snd_conv)
  with Cons show ?case
    by (auto split: option.splits sum.splits prod.splits)
qed simp

text \<open>
  C7. A dry run never touches the destination: whatever the two file systems answer, and
  whether the run ends with success or with an error, the destination state afterwards is
  the state before.
\<close>

theorem dry_run_changes_nothing:
  assumes "ao_dry_run opts" and "apply_plan digest src s dst pl opts w = Some (r, w')"
  shows "aw_dst w' = aw_dst w"
proof -
  obtain r1 w1 where w1: "apply_files digest src s dst pl opts w = (r1, w1)"
    by (cases "apply_files digest src s dst pl opts w")
  then have same: "aw_dst w1 = aw_dst w"
    using apply_files_dry[OF assms(1), of digest src s dst pl]
    by (auto simp: io_keeps_def same_dst_def dest: spec[of _ w])
  show ?thesis
    using assms w1 same
    by (auto simp: apply_plan_def dest!: delete_extra_paths_dry split: sum.splits option.splits if_splits)
qed

section \<open>Removing a tree\<close>

text \<open>
  What an operating system's file tree does, stated over the set of live paths:
  \<open>live s p\<close> is \<open>Some True\<close> for a directory, \<open>Some False\<close> for a file, \<open>None\<close> if absent.
\<close>

definition under :: "string \<Rightarrow> string \<Rightarrow> bool" where
  "under p q = prefix (clean_elems p) (clean_elems q)"

definition strictly_under :: "string \<Rightarrow> string \<Rightarrow> bool" where
  "strictly_under p q = strict_prefix (clean_elems p) (clean_elems q)"

definition tree_fs :: "'s file_system \<Rightarrow> ('s \<Rightarrow> string \<Rightarrow> bool option) \<Rightarrow> bool" where
  "tree_fs fs live =
     ((\<forall>s p. live s p \<noteq> None \<longrightarrow> abs_clean p)
      \<and> (\<forall>s p. case fs_stat fs s p of Inr i \<Rightarrow> live s p = Some (fi_is_dir i)
               | Inl e \<Rightarrow> live s p = None \<and> is_not_exist_err e)
      \<and> (\<forall>s p. live s p = Some False \<longrightarrow>
            (\<exists>s'. fs_remove fs p s = (Inr (), s') \<and> live s' = (live s)(p := None)))
      \<and> (\<forall>s p. live s p = Some True \<and> (\<forall>q. live s q \<noteq> None \<longrightarrow> \<not> strictly_under p q) \<longrightarrow>
            (\<exists>s'. fs_remove_dir fs p s = (Inr (), s') \<and> live s' = (live s)(p := None)))
      \<and> (\<forall>s p. live s p = Some True \<longrightarrow>
            (\<exists>es. fs_walk fs s p = (es, None) \<and> distinct (map fst es)
               \<and> set (map fst es) = {q. live s q \<noteq> None \<and> under p q}
               \<and> sorted_wrt (\<lambda>a b. \<not> strictly_under b a) (map fst es))))"

lemma tree_fs_stat:
  assumes "tree_fs fs live"
  shows "(\<exists>i. fs_stat fs s p = Inr i \<and> live s p = Some (fi_is_dir i))
       \<or> (\<exists>e. fs_stat fs s p = Inl e \<and> live s p = None \<and> is_not_exist_err e)"
proof -
  have "case fs_stat fs s p of Inr i \<Rightarrow> live s p = Some (fi_is_dir i)
         | Inl e \<Rightarrow> live s p = None \<and> is_not_exist_err e"
    using assms unfolding tree_fs_def by blast
  then show ?thesis
    by (auto split: sum.splits)
qed

lemma remove_children:
  assumes fs: "tree_fs fs live"
    and "distinct xs" and "\<forall>x \<in> set xs. live s x \<noteq> None"
    and "\<forall>x q. x \<in> set xs \<longrightarrow> live s q \<noteq> None \<longrightarrow> strictly_under x q \<longrightarrow> q \<in> set xs"
    and "sorted_wrt (\<lambda>a b. \<not> strictly_under a b) xs"
  shows "\<exists>s'. io_for (remove_child fs) xs s = (Inr (), s')
     \<and> live s' = (\<lambda>q. if q \<in> set xs then None else live s q)"
  using assms(2-)
proof (induction xs arbitrary: s)
  case Nil
  then show ?case by (simp add: io_return_def)
next
  case (Cons x xs)
  have leaf: "\<not> strictly_under x q" if "live s q \<noteq> None" for q
    using Cons.prems that by (auto simp: strictly_under_def)
  have "\<exists>s1. remove_child fs x s = (Inr (), s1) \<and> live s1 = (live s)(x := None)"
  proof (cases "live s x")
    case (Some d)
    then obtain i where i: "fs_stat fs s x = Inr i" "d = fi_is_dir i"
      using tree_fs_stat[OF fs, of s x] by auto
    have "\<exists>s1. (if d then fs_remove_dir fs x s else fs_remove fs x s) = (Inr (), s1)
        \<and> live s1 = (live s)(x := None)"
      using fs Some leaf by (cases d) (simp_all add: tree_fs_def)
    then show ?thesis
      using i by (auto simp: remove_child_def io_bind_def io_read_def ignore_not_exist_def
          split: if_splits)
  qed (use Cons.prems in auto)
  then obtain s1 where s1: "remove_child fs x s = (Inr (), s1)" "live s1 = (live s)(x := None)"
    by blast
  have "\<exists>s'. io_for (remove_child fs) xs s1 = (Inr (), s')
     \<and> live s' = (\<lambda>q. if q \<in> set xs then None else live s1 q)"
    by (rule Cons.IH) (use Cons.prems s1(2) in \<open>auto split: if_splits\<close>)
  with s1 show ?case
    by (auto simp: io_bind_def fun_eq_iff)
qed

text \<open>
  On a file tree, \<open>removePathRecursive\<close> succeeds and removes exactly the path and
  everything below it: a directory is only removed when its children are gone, because the
  walk order (parents first) is reversed. A path that does not exist is no error.
\<close>

theorem remove_path_recursive_exact:
  assumes "tree_fs fs live"
  shows "\<exists>s'. remove_path_recursive fs p s = (Inr (), s')
     \<and> live s' = (\<lambda>q. if live s p = Some True \<and> under p q \<or> live s p = Some False \<and> q = p
                      then None else live s q)"
proof (cases "live s p")
  case None
  then have "\<exists>e. fs_stat fs s p = Inl e \<and> is_not_exist_err e"
    using tree_fs_stat[OF assms, of s p] by auto
  with None show ?thesis
    by (auto simp: remove_path_recursive_def io_bind_def io_read_def io_return_def)
next
  case (Some d)
  then obtain i where i: "fs_stat fs s p = Inr i" "d = fi_is_dir i"
    using tree_fs_stat[OF assms, of s p] by auto
  show ?thesis
  proof (cases d)
    case False
    then have "\<exists>s'. fs_remove fs p s = (Inr (), s') \<and> live s' = (live s)(p := None)"
      using assms Some by (simp add: tree_fs_def)
    with False Some i show ?thesis
      by (auto simp: remove_path_recursive_def io_bind_def io_read_def fun_eq_iff)
  next
    case True
    with Some have "live s p = Some True" by simp
    then obtain es where es: "fs_walk fs s p = (es, None)" "distinct (map fst es)"
      "set (map fst es) = {q. live s q \<noteq> None \<and> under p q}"
      "sorted_wrt (\<lambda>a b. \<not> strictly_under b a) (map fst es)"
      using assms unfolding tree_fs_def by blast
    have "\<exists>s'. io_for (remove_child fs) (rev (map fst es)) s = (Inr (), s')
       \<and> live s' = (\<lambda>q. if q \<in> set (rev (map fst es)) then None else live s q)"
      using es by (intro remove_children[OF assms])
        (auto simp: sorted_wrt_rev under_def strictly_under_def rev_map[symmetric]
          simp del: set_map intro: prefix_order.trans)
    with True Some i es(1,3) show ?thesis
      by (auto simp: remove_path_recursive_def io_bind_def io_read_def fun_eq_iff)
  qed
qed

text \<open>A concrete tree: one directory with one file, either of them possibly removed.\<close>

record pair_tree =
  has_dir :: bool
  has_file :: bool

definition pair_live :: "pair_tree \<Rightarrow> string \<Rightarrow> bool option" where
  "pair_live s p = (if p = ''/t'' \<and> has_dir s then Some True
                    else if p = ''/t/f'' \<and> has_dir s \<and> has_file s then Some False else None)"

definition pair_fs :: "pair_tree file_system" where
  "pair_fs =
     \<lparr>fs_expand = (\<lambda>s raw. Inr [raw]),
      fs_resolve = (\<lambda>raw. Inr (resolve_path ''/'' ''/'' raw)),
      fs_stat = (\<lambda>s p. case pair_live s p of None \<Rightarrow> Inl (Go_Error True ''file does not exist'')
                 | Some d \<Rightarrow> Inr (if d then sample_dir else sample_file)),
      fs_walk = (\<lambda>s p. (if p = ''/t'' then (''/t'', sample_dir) #
                        (if has_file s then [(''/t/f'', sample_file)] else []) else [], None)),
      fs_open = (\<lambda>s p. Inr (''abc'', None)),
      fs_create = (\<lambda>p. io_modify (has_file_update (\<lambda>_. True))),
      fs_copy_into = (\<lambda>p c. io_fail (Go_Error False ''no space left on device'')),
      fs_mkdir_all = (\<lambda>p. io_modify (has_dir_update (\<lambda>_. True))),
      fs_remove = (\<lambda>p. io_modify (has_file_update (\<lambda>_. False))),
      fs_remove_dir = (\<lambda>p. io_modify (\<lambda>s. \<lparr>has_dir = False, has_file = False\<rparr>)),
      fs_chmod = (\<lambda>p m s. s), fs_chtimes = (\<lambda>p t s. s), fs_clean = path_clean,
      fs_join = path_join, fs_dir = path_dir, fs_separator = ''/''\<rparr>"

lemma tree_fs_pair: "tree_fs pair_fs pair_live"
proof -
  have c: "abs_clean ''/t'' \<and> abs_clean ''/t/f''" and e: "clean_elems ''/t'' = [''t'']"
    "clean_elems ''/t/f'' = [''t'', ''f'']"
    by code_simp+
  have walk: "\<exists>es. fs_walk pair_fs s p = (es, None) \<and> distinct (map fst es)
      \<and> set (map fst es) = {q. pair_live s q \<noteq> None \<and> under p q}
      \<and> sorted_wrt (\<lambda>a b. \<not> strictly_under b a) (map fst es)" if "pair_live s p = Some True" for s p
  proof -
    have p: "p = ''/t''" "has_dir s"
      using that by (auto simp: pair_live_def split: if_splits)
    have "{q. pair_live s q \<noteq> None \<and> under ''/t'' q} = (if has_file s then {''/t'', ''/t/f''} else {''/t''})"
      using p by (auto simp: pair_live_def under_def e split: if_splits)
    then show ?thesis
      using p by (simp add: pair_fs_def strictly_under_def e)
  qed
  show ?thesis
    unfolding tree_fs_def
  proof (intro conjI allI impI)
    show "case fs_stat pair_fs s p of Inl er \<Rightarrow> pair_live s p = None \<and> is_not_exist_err er
        | Inr i \<Rightarrow> pair_live s p = Some (fi_is_dir i)" for s p
      by (simp add: pair_fs_def sample_dir_def sample_file_def is_not_exist_err_def split: option.split)
    show "abs_clean p" if "pair_live s p \<noteq> None" for s p
      using that c by (auto simp: pair_live_def split: if_splits)
    show "\<exists>s'. fs_remove pair_fs p s = (Inr (), s') \<and> pair_live s' = (pair_live s)(p := None)"
      if "pair_live s p = Some False" for s p
      using that by (auto simp: pair_fs_def pair_live_def io_modify_def fun_eq_iff split: if_splits)
    show "\<exists>s'. fs_remove_dir pair_fs p s = (Inr (), s') \<and> pair_live s' = (pair_live s)(p := None)"
      if "pair_live s p = Some True \<and> (\<forall>q. pair_live s q \<noteq> None \<longrightarrow> \<not> strictly_under p q)" for s p
    proof -
      have "p = ''/t''" "has_dir s" "\<not> has_file s"
        using that by (auto simp: pair_live_def strictly_under_def e split: if_splits)
      then show ?thesis
        by (auto simp: pair_fs_def pair_live_def io_modify_def fun_eq_iff)
    qed
  qed (rule walk)
qed

lemma remove_path_recursive_exact_witness:
  "\<exists>s'. remove_path_recursive pair_fs ''/t'' \<lparr>has_dir = True, has_file = True\<rparr> = (Inr (), s')
     \<and> pair_live s' ''/t/f'' = None"
proof -
  have "pair_live \<lparr>has_dir = True, has_file = True\<rparr> ''/t'' = Some True" "under ''/t'' ''/t/f''"
    by code_simp+
  then show ?thesis
    using remove_path_recursive_exact[OF tree_fs_pair, of "''/t''" "\<lparr>has_dir = True, has_file = True\<rparr>"]
    by auto
qed

lemma dry_run_changes_nothing_witness:
  "\<exists>r w'. apply_plan id sample_fs () pair_fs
      \<lparr>desired = [(''/t'', planned_entry ''/t'' \<lparr>se_key = ''k'', se_path = ''/w/s'', se_mode = 0,
          se_size = 0, se_checksum = '''', se_mtime = 0, se_is_dir = True\<rparr>)],
       delete_scopes = [\<lparr>scope_path = ''/t'', scope_is_dir = True\<rparr>]\<rparr>
      \<lparr>ao_delete = True, ao_dry_run = True, ao_permission = True, ao_output = False,
       ao_source_label = '''', ao_target_label = '''', ao_source_display = None, ao_target_display = None\<rparr>
      \<lparr>aw_dst = \<lparr>has_dir = True, has_file = True\<rparr>, aw_log = []\<rparr> = Some (r, w')
     \<and> aw_log w' = [''[DRY-RUN] mkdir: /t'', ''[DRY-RUN] chmod: /t'', ''[DRY-RUN] delete: /t/f'']
     \<and> aw_dst w' = \<lparr>has_dir = True, has_file = True\<rparr>" (is "\<exists>r w'. apply_plan id sample_fs () pair_fs ?pl ?o ?w = _ \<and> _")
proof -
  have o: "ao_dry_run ?o"
    by simp
  have "\<exists>r w'. apply_plan id sample_fs () pair_fs ?pl ?o ?w = Some (r, w')
      \<and> aw_log w' = [''[DRY-RUN] mkdir: /t'', ''[DRY-RUN] chmod: /t'', ''[DRY-RUN] delete: /t/f'']"
    by (intro exI conjI) code_simp+
  then show ?thesis
    using dry_run_changes_nothing[OF o] by fastforce
qed

section \<open>What a copy reports\<close>

lemma io_bind_Inr:
  "io_bind m f w = (Inr b, w') \<longleftrightarrow> (\<exists>a w1. m w = (Inr a, w1) \<and> f a w1 = (Inr b, w'))"
  by (auto simp: io_bind_def split: prod.split sum.split)

lemma on_dst_Inr:
  "on_dst m w = (Inr a, w') \<longleftrightarrow> (\<exists>s'. m (aw_dst w) = (Inr a, s') \<and> w' = w\<lparr>aw_dst := s'\<rparr>)"
  by (auto simp: on_dst_def split: prod.split)

text \<open>
  Without an \<open>Output\<close>, a copy that returns no error has done its work: the source was
  opened and read without a read error and all its bytes were written without an error.
\<close>

theorem copy_success_means_copied:
  assumes "\<not> ao_dry_run opts" and "\<not> ao_output opts"
    and "copy_single_file src s dst file opts w = (Inr (), w')"
  shows "\<exists>content d1 d2. fs_open src s (source_path file) = Inr (content, None)
     \<and> fs_copy_into dst (destination_path file) content d1 = (Inr (), d2)"
proof (cases "fs_open src s (source_path file)")
  case (Inl e)
  with assms show ?thesis
    by (simp add: copy_single_file_def Let_def io_bind_Inr io_fail_def)
next
  case (Inr reader)
  obtain content read_err where r: "reader = (content, read_err)"
    by (cases reader)
  from assms Inr obtain w1 w2 where
    "on_dst (copy_bytes dst (destination_path file) reader False) w1 = (Inr (), w2)"
    by (simp add: copy_single_file_def Let_def io_bind_Inr del: split_paired_Ex) blast
  with Inr r show ?thesis
    by (cases read_err) (auto simp: copy_bytes_def on_dst_Inr io_bind_Inr io_fail_def)
qed

text \<open>
  With an \<open>Output\<close> (the interactive case), the error of the byte copy is lost: once
  the destination could be created, the file counts as copied whatever the reader and the
  writer answer, a full disk included.
\<close>

theorem copy_error_lost_with_output:
  assumes "\<not> ao_dry_run opts" and "ao_output opts"
    and "fs_stat dst (aw_dst w) (destination_path file) = Inr info" and "\<not> fi_is_dir info"
    and "fs_mkdir_all dst (fs_dir dst (destination_path file)) (aw_dst w) = (Inr (), d1)"
    and "fs_open src s (source_path file) = Inr reader"
    and "fs_create dst (destination_path file) d1 = (Inr (), d2)"
  shows "fst (copy_single_file src s dst file opts w) = Inr ()"
  using assms
  by (cases reader)
    (simp add: copy_single_file_def Let_def io_bind_def ask_dst_def io_read_def on_dst_def
      io_return_def print_line_def io_modify_def copy_bytes_def drop_error_def)

abbreviation (input) sample_options :: "bool \<Rightarrow> apply_options" where
  "sample_options progress \<equiv> \<lparr>ao_delete = False, ao_dry_run = False, ao_permission = False,
     ao_output = progress, ao_source_label = '''', ao_target_label = '''',
     ao_source_display = None, ao_target_display = None\<rparr>"

abbreviation (input) sample_entry :: desired_entry where
  "sample_entry \<equiv> \<lparr>source_path = ''/w/s/a'', destination_path = ''/t/f'', rel_path = ''f'',
     de_mode = 420, de_size = 3, de_mtime = 9, de_is_dir = False\<rparr>"

lemma copy_success_means_copied_witness:
  "\<exists>content d1 d2. fs_open sample_fs () ''/w/s/a'' = Inr (content, None)
     \<and> fs_copy_into sample_fs ''/t/f'' content d1 = (Inr (), d2)"
proof -
  have r: "copy_single_file sample_fs () sample_fs sample_entry (sample_options False)
      \<lparr>aw_dst = (), aw_log = []\<rparr> = (Inr (), \<lparr>aw_dst = (), aw_log = []\<rparr>)"
    by code_simp
  show ?thesis
    using copy_success_means_copied[OF _ _ r] by simp
qed

lemma copy_error_lost_with_output_witness:
  "fst (copy_single_file sample_fs () pair_fs sample_entry (sample_options True)
      \<lparr>aw_dst = \<lparr>has_dir = True, has_file = True\<rparr>, aw_log = []\<rparr>) = Inr ()
   \<and> fst (fs_copy_into pair_fs ''/t/f'' ''abc'' \<lparr>has_dir = True, has_file = True\<rparr>)
     = Inl (Go_Error False ''no space left on device'')"
proof -
  let ?w = "\<lparr>aw_dst = \<lparr>has_dir = True, has_file = True\<rparr>, aw_log = []\<rparr>"
  have h: "fs_stat pair_fs (aw_dst ?w) (destination_path sample_entry) = Inr sample_file"
    "\<not> fi_is_dir sample_file"
    "fs_mkdir_all pair_fs (fs_dir pair_fs (destination_path sample_entry)) (aw_dst ?w) = (Inr (), aw_dst ?w)"
    "fs_open sample_fs () (source_path sample_entry) = Inr (''abc'', None)"
    "fs_create pair_fs (destination_path sample_entry) (aw_dst ?w) = (Inr (), aw_dst ?w)"
    by code_simp+
  have "fst (copy_single_file sample_fs () pair_fs sample_entry (sample_options True) ?w) = Inr ()"
    by (rule copy_error_lost_with_output[OF _ _ h]) simp_all
  moreover have "fst (fs_copy_into pair_fs ''/t/f'' ''abc'' (aw_dst ?w))
     = Inl (Go_Error False ''no space left on device'')"
    by code_simp
  ultimately show ?thesis by simp
qed

end
