(* ===== verification/Sync_Pool.thy ===== *)
theory Sync_Pool
  imports Sync_Apply
begin

text \<open>
  The worker pool of \<open>copyFiles\<close> in \<^verbatim>\<open>internal/sync/execute.go\<close>: one feeder goroutine
  that sends the files over an unbuffered channel, \<open>ParallelNum\<close> workers, a context that the
  first failing worker (or the caller) cancels, and a results channel of capacity
  \<open>ParallelNum\<close> into which a failing worker puts its error if there is room. Each goroutine
  step is one rule; one file copy is one step. The copy is a parameter: an action on the
  world.
\<close>

section \<open>States and steps\<close>

datatype 'f worker = Waiting | Running 'f | Exited

record ('f, 'w) pool =
  todo :: "'f list"          \<comment> \<open>files the feeder has not sent\<close>
  feeding :: bool            \<comment> \<open>the channel \<open>tasks\<close> is open\<close>
  workers :: "'f worker list"
  cancelled :: bool          \<comment> \<open>the context is done\<close>
  caller_cancelled :: bool   \<comment> \<open>the caller's context was cancelled\<close>
  results :: "go_error list" \<comment> \<open>errors accepted by the channel \<open>results\<close>\<close>
  copied :: "'f list"        \<comment> \<open>history: the copies that succeeded\<close>
  world :: 'w

definition init_pool :: "nat \<Rightarrow> 'f list \<Rightarrow> 'w \<Rightarrow> ('f, 'w) pool" where
  "init_pool n files w =
     \<lparr>todo = files, feeding = True, workers = replicate n Waiting, cancelled = False,
      caller_cancelled = False, results = [], copied = [], world = w\<rparr>"

inductive pool_step ::
  "('f \<Rightarrow> ('w, unit) io) \<Rightarrow> nat \<Rightarrow> ('f, 'w) pool \<Rightarrow> ('f, 'w) pool \<Rightarrow> bool"
  for copy and cap
where
  send: "feeding p \<Longrightarrow> todo p = f # fs \<Longrightarrow> i < length (workers p) \<Longrightarrow> workers p ! i = Waiting \<Longrightarrow>
     pool_step copy cap p (p\<lparr>todo := fs, workers := (workers p)[i := Running f]\<rparr>)"
| feeder_stop: "feeding p \<Longrightarrow> cancelled p \<Longrightarrow> todo p \<noteq> [] \<Longrightarrow> pool_step copy cap p (p\<lparr>feeding := False\<rparr>)"
| feeder_done: "feeding p \<Longrightarrow> todo p = [] \<Longrightarrow> pool_step copy cap p (p\<lparr>feeding := False\<rparr>)"
| worker_stop: "i < length (workers p) \<Longrightarrow> workers p ! i = Running f \<Longrightarrow> cancelled p \<Longrightarrow>
     pool_step copy cap p (p\<lparr>workers := (workers p)[i := Exited]\<rparr>)"
| worker_ok: "i < length (workers p) \<Longrightarrow> workers p ! i = Running f \<Longrightarrow>
     copy f (world p) = (Inr (), w') \<Longrightarrow>
     pool_step copy cap p
       (p\<lparr>workers := (workers p)[i := Waiting], copied := copied p @ [f], world := w'\<rparr>)"
| worker_err: "i < length (workers p) \<Longrightarrow> workers p ! i = Running f \<Longrightarrow>
     copy f (world p) = (Inl e, w') \<Longrightarrow>
     pool_step copy cap p
       (p\<lparr>workers := (workers p)[i := Exited],
          results := (if length (results p) < cap then results p @ [e] else results p),
          cancelled := True, world := w'\<rparr>)"
| worker_end: "i < length (workers p) \<Longrightarrow> workers p ! i = Waiting \<Longrightarrow> \<not> feeding p \<Longrightarrow>
     pool_step copy cap p (p\<lparr>workers := (workers p)[i := Exited]\<rparr>)"
| caller_cancel: "\<not> cancelled p \<Longrightarrow>
     pool_step copy cap p (p\<lparr>cancelled := True, caller_cancelled := True\<rparr>)"

inductive reachable ::
  "('f \<Rightarrow> ('w, unit) io) \<Rightarrow> nat \<Rightarrow> 'f list \<Rightarrow> 'w \<Rightarrow> ('f, 'w) pool \<Rightarrow> bool"
  for copy and n and files and w
where
  start: "reachable copy n files w (init_pool n files w)"
| step: "reachable copy n files w p \<Longrightarrow> pool_step copy n p q \<Longrightarrow> reachable copy n files w q"

text \<open>\<open>wg.Wait()\<close> is over and \<open>results\<close> is closed; \<open>copyFiles\<close> returns the first error
  received, or nil.\<close>

definition finished :: "('f, 'w) pool \<Rightarrow> bool" where
  "finished p = (\<not> feeding p \<and> list_all (\<lambda>x. x = Exited) (workers p))"

definition pool_error :: "('f, 'w) pool \<Rightarrow> go_error option" where
  "pool_error p = (case results p of [] \<Rightarrow> None | e # _ \<Rightarrow> Some e)"

section \<open>Invariant\<close>

definition in_flight :: "'f worker list \<Rightarrow> 'f multiset" where
  "in_flight ws = mset (List.map_filter (\<lambda>x. case x of Running f \<Rightarrow> Some f | _ \<Rightarrow> None) ws)"

definition pool_inv :: "nat \<Rightarrow> 'f list \<Rightarrow> ('f, 'w) pool \<Rightarrow> bool" where
  "pool_inv n files p =
     (length (workers p) = n
      \<and> mset (copied p) + in_flight (workers p) + mset (todo p) \<subseteq># mset files
      \<and> (\<not> cancelled p \<longrightarrow> mset (copied p) + in_flight (workers p) + mset (todo p) = mset files)
      \<and> (cancelled p \<and> \<not> caller_cancelled p \<and> 0 < n \<longrightarrow> results p \<noteq> [])
      \<and> (\<not> cancelled p \<and> \<not> feeding p \<longrightarrow> todo p = [])
      \<and> (Exited \<in> set (workers p) \<longrightarrow> cancelled p \<or> \<not> feeding p))"

lemma in_flight_update:
  assumes "i < length ws"
  shows "in_flight (ws[i := x]) + (case ws ! i of Running f \<Rightarrow> {#f#} | _ \<Rightarrow> {#})
       = in_flight ws + (case x of Running f \<Rightarrow> {#f#} | _ \<Rightarrow> {#})"
proof -
  let ?c = "\<lambda>y :: 'a worker. case y of Running f \<Rightarrow> {#f#} | _ \<Rightarrow> {#}"
  have app: "in_flight (as @ y # bs) = in_flight as + ?c y + in_flight bs" for as bs and y :: "'a worker"
    by (auto simp: in_flight_def map_filter_def split: worker.splits)
  have "in_flight ws = in_flight (take i ws) + ?c (ws ! i) + in_flight (drop (Suc i) ws)"
    unfolding app[symmetric] using assms by (simp add: id_take_nth_drop[symmetric])
  moreover have "in_flight (ws[i := x]) = in_flight (take i ws) + ?c x + in_flight (drop (Suc i) ws)"
    unfolding app[symmetric] using assms by (simp add: upd_conv_take_nth_drop)
  ultimately show ?thesis
    by (simp add: ac_simps)
qed

lemma add_mset_subseteqD: "add_mset x A \<subseteq># B \<Longrightarrow> A \<subseteq># B"
  by (meson mset_subset_eq_insertD subset_mset.less_imp_le)

lemma in_flight_cases:
  assumes "i < length ws"
  shows "ws ! i = Waiting \<Longrightarrow> in_flight (ws[i := Running f]) = in_flight ws + {#f#}"
    and "ws ! i = Waiting \<Longrightarrow> in_flight (ws[i := Exited]) = in_flight ws"
    and "ws ! i = Running f \<Longrightarrow> in_flight ws = in_flight (ws[i := Exited]) + {#f#}"
    and "ws ! i = Running f \<Longrightarrow> in_flight ws = in_flight (ws[i := Waiting]) + {#f#}"
  using in_flight_update[OF assms, of "Running f"] in_flight_update[OF assms, of Exited]
    in_flight_update[OF assms, of Waiting] by simp_all

lemma pool_inv_init: "pool_inv n files (init_pool n files w)"
proof -
  have "in_flight (replicate n Waiting) = ({#} :: 'a multiset)"
    by (induction n) (simp_all add: in_flight_def map_filter_def)
  then show ?thesis
    by (auto simp: pool_inv_def init_pool_def)
qed

lemma pool_step_inv:
  assumes "pool_step copy n p q" and "pool_inv n files p"
  shows "pool_inv n files q"
  using assms
proof (induction rule: pool_step.induct)
  case (send p f fs i)
  then show ?case
    by (auto simp: pool_inv_def in_flight_cases(1) ac_simps dest: set_update_subset_insert[THEN subsetD])
next
  case (worker_stop i p f)
  then show ?case
    using in_flight_cases(3)[OF worker_stop(1,2)]
    by (auto simp: pool_inv_def ac_simps dest: add_mset_subseteqD)
next
  case (worker_ok i p f w')
  then show ?case
    using in_flight_cases(4)[OF worker_ok(1,2)]
    by (auto simp: pool_inv_def ac_simps dest: set_update_subset_insert[THEN subsetD])
next
  case (worker_err i p f e w')
  then show ?case
    using in_flight_cases(3)[OF worker_err(1,2)]
    by (auto simp: pool_inv_def ac_simps dest: add_mset_subseteqD)
next
  case (worker_end i p)
  then show ?case
    by (auto simp: pool_inv_def in_flight_cases(2))
qed (auto simp: pool_inv_def)

lemma reachable_inv: "reachable copy n files w p \<Longrightarrow> pool_inv n files p"
  by (induction rule: reachable.induct) (auto intro: pool_inv_init pool_step_inv)

lemma finished_in_flight: "finished p \<Longrightarrow> in_flight (workers p) = {#}"
proof -
  assume "finished p"
  then have "list_all (\<lambda>x. x = Exited) (workers p)"
    by (simp add: finished_def)
  then show ?thesis
    by (induction "workers p" arbitrary: p rule: list.induct)
      (auto simp: in_flight_def map_filter_def list_all_iff)
qed

text \<open>
  C11. When the pool is over and reports no error, and the caller did not cancel it, every
  file was copied successfully and exactly once, whatever the number of workers and however
  their steps interleave; and in every reachable state no file has been copied twice.
\<close>

theorem pool_success_complete:
  assumes "reachable copy n files w p" and "0 < n"
  shows "mset (copied p) \<subseteq># mset files
     \<and> (finished p \<and> pool_error p = None \<and> \<not> caller_cancelled p \<longrightarrow> mset (copied p) = mset files)"
proof -
  note inv = reachable_inv[OF assms(1)]
  have "mset (copied p) \<subseteq># mset files"
    using inv unfolding pool_inv_def
    by (metis mset_subset_eq_add_left subset_mset.order_trans add.assoc)
  moreover have "mset (copied p) = mset files"
    if "finished p" and "pool_error p = None" and "\<not> caller_cancelled p"
    using inv that assms(2) finished_in_flight[of p]
    by (auto simp: pool_inv_def pool_error_def finished_def split: list.splits)
  ultimately show ?thesis by blast
qed

definition sample_copy :: "nat \<Rightarrow> (nat, unit) io" where
  "sample_copy f = io_modify (\<lambda>w. w + f)"

definition sample_run :: "(nat, nat) pool" where
  "sample_run = \<lparr>todo = [], feeding = False, workers = [Exited], cancelled = False,
     caller_cancelled = False, results = [], copied = [5], world = 5\<rparr>"

lemma sample_run_reachable: "reachable sample_copy 1 [5] 0 sample_run"
proof -
  let ?p1 = "(init_pool 1 [5] (0::nat))\<lparr>todo := [], workers := [Running (5::nat)]\<rparr>"
  let ?p2 = "?p1\<lparr>workers := [Waiting], copied := [5], world := 5\<rparr>"
  let ?p3 = "?p2\<lparr>feeding := False\<rparr>"
  have "pool_step sample_copy 1 (init_pool 1 [5] 0) ?p1"
    using pool_step.send[of "init_pool 1 [5] 0" 5 "[]" 0] by (simp add: init_pool_def)
  then have 1: "reachable sample_copy 1 [5] 0 ?p1"
    by (rule reachable.step[OF reachable.start])
  have "pool_step sample_copy 1 ?p1 ?p2"
    using pool_step.worker_ok[of 0 ?p1 5 sample_copy 5]
    by (simp add: init_pool_def sample_copy_def io_modify_def)
  then have 2: "reachable sample_copy 1 [5] 0 ?p2"
    by (rule reachable.step[OF 1])
  have "pool_step sample_copy 1 ?p2 ?p3"
    using pool_step.feeder_done[of ?p2] by (simp add: init_pool_def)
  then have 3: "reachable sample_copy 1 [5] 0 ?p3"
    by (rule reachable.step[OF 2])
  have "pool_step sample_copy 1 ?p3 sample_run"
    using pool_step.worker_end[of 0 ?p3] by (simp add: init_pool_def sample_run_def)
  then show ?thesis
    by (rule reachable.step[OF 3])
qed

lemma pool_success_complete_witness:
  "finished sample_run \<and> mset (copied sample_run) = {#5#}"
proof -
  have "finished sample_run" "pool_error sample_run = None" "\<not> caller_cancelled sample_run"
    by (simp_all add: sample_run_def finished_def pool_error_def)
  then show ?thesis
    using pool_success_complete[OF sample_run_reachable] by simp
qed

section \<open>The pool always finishes\<close>

text \<open>
  The only step that no goroutine of the pool makes: the caller cancels the context it passed
  in. It is open in every state that is not cancelled, so it says nothing about the progress
  of the pool.
\<close>

definition environment_step :: "('f, 'w) pool \<Rightarrow> ('f, 'w) pool \<Rightarrow> bool" where
  "environment_step p q = (\<not> cancelled p \<and> q = p\<lparr>cancelled := True, caller_cancelled := True\<rparr>)"

lemma environment_step_keeps:
  "environment_step p q \<Longrightarrow> workers q = workers p \<and> feeding q = feeding p"
  by (simp add: environment_step_def)

lemma worker_step_not_environment:
  assumes "i < length (workers p)" and "workers q = (workers p)[i := x]" and "x \<noteq> workers p ! i"
  shows "\<not> environment_step p q"
proof
  assume "environment_step p q"
  then have "(workers p)[i := x] = workers p"
    using assms(2) by (metis environment_step_keeps)
  then show False
    using assms(1,3) by (simp add: list_update_same_conv)
qed

lemma feeder_step_not_environment: "feeding p \<Longrightarrow> \<not> feeding q \<Longrightarrow> \<not> environment_step p q"
  by (auto dest: environment_step_keeps)

lemma running_moves:
  assumes "i < length (workers p)" and "workers p ! i = Running f"
  shows "\<exists>q. pool_step copy cap p q \<and> \<not> environment_step p q"
proof -
  obtain r w' where c: "copy f (world p) = (r, w')"
    by (cases "copy f (world p)")
  show ?thesis
  proof (cases r)
    case (Inl e)
    let ?q = "p\<lparr>workers := (workers p)[i := Exited],
          results := (if length (results p) < cap then results p @ [e] else results p),
          cancelled := True, world := w'\<rparr>"
    have "pool_step copy cap p ?q"
      using pool_step.worker_err[OF assms, of copy e w'] c Inl by simp
    moreover have "\<not> environment_step p ?q"
      using assms by (intro worker_step_not_environment[of i p ?q Exited]) simp_all
    ultimately show ?thesis
      by blast
  next
    case (Inr u)
    let ?q = "p\<lparr>workers := (workers p)[i := Waiting], copied := copied p @ [f], world := w'\<rparr>"
    have "pool_step copy cap p ?q"
      using pool_step.worker_ok[OF assms, of copy w'] c Inr by simp
    moreover have "\<not> environment_step p ?q"
      using assms by (intro worker_step_not_environment[of i p ?q Waiting]) simp_all
    ultimately show ?thesis
      by blast
  qed
qed

lemma closed_moves:
  assumes "i < length (workers p)" and "workers p ! i = Waiting" and "\<not> feeding p"
  shows "\<exists>q. pool_step copy cap p q \<and> \<not> environment_step p q"
proof (intro exI conjI)
  let ?q = "p\<lparr>workers := (workers p)[i := Exited]\<rparr>"
  show "pool_step copy cap p ?q"
    using assms by (rule pool_step.worker_end)
  show "\<not> environment_step p ?q"
    using assms by (intro worker_step_not_environment[of i p ?q Exited]) simp_all
qed

lemma send_moves:
  assumes "feeding p" and "todo p = f # fs" and "i < length (workers p)" and "workers p ! i = Waiting"
  shows "\<exists>q. pool_step copy cap p q \<and> \<not> environment_step p q"
proof (intro exI conjI)
  let ?q = "p\<lparr>todo := fs, workers := (workers p)[i := Running f]\<rparr>"
  show "pool_step copy cap p ?q"
    using assms by (rule pool_step.send)
  show "\<not> environment_step p ?q"
    using assms by (intro worker_step_not_environment[of i p ?q "Running f"]) simp_all
qed

lemma feeder_moves:
  assumes "feeding p" and "todo p = [] \<or> cancelled p"
  shows "\<exists>q. pool_step copy cap p q \<and> \<not> environment_step p q"
proof (intro exI conjI)
  show "pool_step copy cap p (p\<lparr>feeding := False\<rparr>)"
    using assms by (cases "todo p = []") (auto intro: pool_step.feeder_done pool_step.feeder_stop)
  show "\<not> environment_step p (p\<lparr>feeding := False\<rparr>)"
    using assms(1) by (rule feeder_step_not_environment) simp
qed

text \<open>
  C12. No deadlock: in every reachable state that is not finished some goroutine of the pool,
  the feeder or a worker, can move, without the caller's cancelling the context (with at
  least one worker, which \<open>ApplyPlan\<close> ensures). It rests on the cancellation by the first
  failing worker: once all workers have failed, only the cancelled context frees the feeder.
\<close>

theorem pool_no_deadlock:
  assumes "reachable copy n files w p" and "0 < n" and "\<not> finished p"
  shows "\<exists>q. pool_step copy n p q \<and> \<not> environment_step p q"
proof (cases "\<exists>i < length (workers p). \<exists>f. workers p ! i = Running f")
  case True
  then show ?thesis
    by (blast intro: running_moves)
next
  case False
  note inv = reachable_inv[OF assms(1)]
  show ?thesis
  proof (cases "feeding p \<and> todo p \<noteq> [] \<and> \<not> cancelled p")
    case go: True
    then obtain f fs where todo: "todo p = f # fs"
      by (cases "todo p") auto
    have "0 < length (workers p)" "Exited \<notin> set (workers p)"
      using inv assms(2) go by (auto simp: pool_inv_def)
    then have "workers p ! 0 = Waiting"
      using False by (cases "workers p ! 0") (auto simp: in_set_conv_nth)
    with go todo \<open>0 < length (workers p)\<close> show ?thesis
      by (blast intro: send_moves)
  next
    case stop: False
    show ?thesis
    proof (cases "feeding p")
      case True
      with stop show ?thesis
        by (blast intro: feeder_moves)
    next
      case closed: False
      then obtain i where i: "i < length (workers p)" "workers p ! i \<noteq> Exited"
        using assms(3) by (auto simp: finished_def list_all_length)
      with False have "workers p ! i = Waiting"
        by (cases "workers p ! i") auto
      with closed i show ?thesis
        by (blast intro: closed_moves)
    qed
  qed
qed

text \<open>A pool whose only worker has failed with a file left to send.\<close>

definition failing_copy :: "nat \<Rightarrow> (nat, unit) io" where
  "failing_copy f = io_fail (Go_Error False ''no space left on device'')"

definition failed_run :: "(nat, nat) pool" where
  "failed_run = \<lparr>todo = [6], feeding = True, workers = [Exited], cancelled = True,
     caller_cancelled = False, results = [Go_Error False ''no space left on device''], copied = [], world = 0\<rparr>"

lemma failed_run_reachable: "reachable failing_copy 1 [5, 6] 0 failed_run"
proof -
  let ?p1 = "(init_pool 1 [5, 6] (0::nat))\<lparr>todo := [6], workers := [Running (5::nat)]\<rparr>"
  have "pool_step failing_copy 1 (init_pool 1 [5, 6] 0) ?p1"
    using pool_step.send[of "init_pool 1 [5, 6] 0" 5 "[6]" 0] by (simp add: init_pool_def)
  then have 1: "reachable failing_copy 1 [5, 6] 0 ?p1"
    by (rule reachable.step[OF reachable.start])
  have "pool_step failing_copy 1 ?p1 failed_run"
    using pool_step.worker_err[of 0 ?p1 5 failing_copy _ 0 1]
    by (simp add: init_pool_def failing_copy_def failed_run_def io_fail_def)
  then show ?thesis
    by (rule reachable.step[OF 1])
qed

lemma pool_no_deadlock_witness:
  "\<exists>q. pool_step failing_copy 1 failed_run q \<and> \<not> environment_step failed_run q"
  by (rule pool_no_deadlock[OF failed_run_reachable]) (simp_all add: finished_def failed_run_def)

fun worker_weight :: "'f worker \<Rightarrow> nat" where
  "worker_weight Waiting = 1"
| "worker_weight (Running f) = 2"
| "worker_weight Exited = 0"

definition pool_measure :: "('f, 'w) pool \<Rightarrow> nat" where
  "pool_measure p =
     2 * length (todo p) + sum_list (map worker_weight (workers p))
     + (if feeding p then 1 else 0) + (if cancelled p then 0 else 1)"

lemma sum_weights_update:
  "i < length ws \<Longrightarrow> sum_list (map worker_weight (ws[i := x])) + worker_weight (ws ! i)
     = sum_list (map worker_weight ws) + worker_weight x"
  by (induction ws arbitrary: i) (auto split: nat.splits)

lemma pool_step_measure:
  "pool_step copy cap p q \<Longrightarrow> pool_measure q < pool_measure p"
proof (induction rule: pool_step.induct)
  case (send p f fs i)
  then show ?case
    using sum_weights_update[of i "workers p" "Running f"] by (simp add: pool_measure_def)
next
  case (worker_stop i p f)
  then show ?case
    using sum_weights_update[of i "workers p" Exited] by (simp add: pool_measure_def)
next
  case (worker_ok i p f w')
  then show ?case
    using sum_weights_update[of i "workers p" Waiting] by (simp add: pool_measure_def)
next
  case (worker_err i p f e w')
  then show ?case
    using sum_weights_update[of i "workers p" Exited] by (simp add: pool_measure_def)
next
  case (worker_end i p)
  then show ?case
    using sum_weights_update[of i "workers p" Exited] by (simp add: pool_measure_def)
qed (auto simp: pool_measure_def)

text \<open>
  C13. Every run is finite: a pool over \<open>k\<close> files with \<open>n\<close> workers makes at most
  \<open>2 * k + n + 2\<close> steps. With the absence of deadlock, \<open>copyFiles\<close> always returns.
\<close>

theorem pool_run_bounded:
  assumes "(pool_step copy n ^^ m) (init_pool n files w) q"
  shows "m \<le> 2 * length files + n + 2"
proof -
  have "m + pool_measure q \<le> pool_measure p" if "(pool_step copy n ^^ m) p q" for p
    using that
  proof (induction m arbitrary: q)
    case (Suc m)
    then obtain r where "(pool_step copy n ^^ m) p r" and "pool_step copy n r q"
      by auto
    with Suc.IH[of r] pool_step_measure[of copy n r q] show ?case by simp
  qed simp
  moreover have "pool_measure (init_pool n files w) = 2 * length files + n + 2"
    by (simp add: pool_measure_def init_pool_def sum_list_replicate)
  ultimately show ?thesis
    using assms by force
qed

lemma pool_run_bounded_witness: "(1::nat) \<le> 2 * length [5::nat] + 1 + 2"
proof (rule pool_run_bounded[where copy = sample_copy and n = 1 and files = "[5]" and w = 0])
  have "pool_step sample_copy 1 (init_pool 1 [5] 0)
      ((init_pool 1 [5] 0)\<lparr>todo := [], workers := [Running 5]\<rparr>)"
    using pool_step.send[of "init_pool 1 [5] 0" 5 "[]" 0 sample_copy 1] by (simp add: init_pool_def)
  then show "(pool_step sample_copy 1 ^^ 1) (init_pool 1 [5] 0)
      ((init_pool 1 [5] 0)\<lparr>todo := [], workers := [Running 5]\<rparr>)"
    by (simp add: relpowp_1 del: One_nat_def)
qed

end
