(* ===== verification/Cli_Spec.thy ===== *)
theory Cli_Spec
  imports Go_Path "HOL-Library.Multiset"
begin

text \<open>
  What the commands parse from their arguments: the host and path selectors and forward
  specifications of \<^verbatim>\<open>internal/common/common.go\<close>, the flag normalisation of
  \<^verbatim>\<open>internal/common/cli_args.go\<close>, the sync command line of
  \<^verbatim>\<open>internal/sync/command.go\<close>, the diff targets of \<^verbatim>\<open>internal/lsdiff/parse.go\<close> and the
  targeted shell commands of \<^verbatim>\<open>internal/pshell/targeted.go\<close>.
\<close>

section \<open>Host selectors\<close>

definition parse_host_path :: "string \<Rightarrow> string list \<times> string" where
  "parse_host_path value =
     (case split_at CHR '':'' value of None \<Rightarrow> ([], value)
      | Some (selector, p) \<Rightarrow> (split_on CHR '','' selector, p))"

definition known_host_set :: "string list \<Rightarrow> string list" where
  "known_host_set known = filter (\<lambda>h. h \<noteq> '''') (map (\<lambda>h. trim_space (trim_prefix h ''@'')) known)"

text \<open>The inner loop over the comma-separated hosts of one candidate selector.\<close>

fun match_hosts :: "string list \<Rightarrow> string list \<Rightarrow> string list option" where
  "match_hosts known [] = Some []"
| "match_hosts known (candidate # hosts) =
     (let c = trim_space (trim_prefix candidate ''@'')
      in if c = '''' \<or> c \<notin> set known then None
         else map_option ((#) c) (match_hosts known hosts))"

text \<open>\<open>strings.LastIndex\<close> for one byte.\<close>

definition last_index :: "char \<Rightarrow> string \<Rightarrow> nat option" where
  "last_index c s =
     (case index_of (rev s) [c] of None \<Rightarrow> None | Some i \<Rightarrow> Some (length s - 1 - i))"

lemma last_index_Some: "last_index c s = Some i \<Longrightarrow> i < length s"
  by (auto simp: last_index_def split: option.splits)
    (metis diff_Suc_less index_of_char_None length_greater_0_conv length_rev list.set(1) empty_iff option.distinct(1) rev.simps(1))

text \<open>The outer loop: candidate selectors end at the colons, from the last one backwards;
  \<open>n\<close> is the length of the prefix that is still to be searched.\<close>

function try_colons :: "string list \<Rightarrow> string \<Rightarrow> nat \<Rightarrow> (string list \<times> string) option" where
  "try_colons known value n =
     (case last_index CHR '':'' (take n value) of None \<Rightarrow> None
      | Some idx \<Rightarrow>
          (let selector = take idx value; candidate_path = drop (Suc idx) value
           in if selector = '''' \<or> candidate_path = '''' then try_colons known value idx
              else (case match_hosts known (split_on CHR '','' selector) of
                      Some hosts \<Rightarrow> Some (hosts, candidate_path)
                    | None \<Rightarrow> try_colons known value idx)))"
  by pat_completeness auto
termination
  by (relation "measure (\<lambda>(known, value, n). n)") (auto dest: last_index_Some)

declare try_colons.simps [simp del]

definition parse_host_path_with_hosts :: "string \<Rightarrow> string list \<Rightarrow> string list \<times> string" where
  "parse_host_path_with_hosts value known_hosts =
     (if CHR '':'' \<notin> set value then ([], value)
      else let known = known_host_set known_hosts
           in if known = [] then parse_host_path value
              else (case try_colons known value (length value) of
                      Some r \<Rightarrow> r | None \<Rightarrow> parse_host_path value))"

section \<open>Forward specifications\<close>

fun parse_forward_port :: "string \<Rightarrow> (string \<times> string) result" where
  "parse_forward_port value =
     (case split_on CHR '':'' value of
        [a, b, c, d] \<Rightarrow> Inr (a @ '':'' @ b, c @ '':'' @ d)
      | [a, b, c] \<Rightarrow>
          (case atoi a of Some _ \<Rightarrow> Inr (''localhost:'' @ a, b @ '':'' @ c)
           | None \<Rightarrow> Inr (a @ '':'' @ b, ''localhost:'' @ c))
      | _ \<Rightarrow> errorf ''Could not parse.'')"

definition is_socket_path :: "string \<Rightarrow> bool" where
  "is_socket_path v = (has_prefix v ''/'' \<or> has_prefix v ''./'' \<or> has_prefix v ''../'' \<or> has_prefix v ''~/'')"

text \<open>\<open>parseTCPBind\<close> and \<open>parseTCPDest\<close>, which have the same body.\<close>

definition parse_tcp :: "string \<Rightarrow> string result" where
  "parse_tcp v =
     (if count_list v CHR '':'' = 0
      then (case atoi v of None \<Rightarrow> errorf ''Could not parse.'' | Some _ \<Rightarrow> Inr (''localhost:'' @ v))
      else if count_list v CHR '':'' = 1 then Inr v
      else errorf ''Could not parse.'')"

datatype forward_spec =
  Forward (fw_local_network: string) (fw_local: string) (fw_remote_network: string) (fw_remote: string)

text \<open>\<open>full_path\<close> is \<open>GetFullPath\<close>, which asks the operating system for the home
  directory.\<close>

definition parse_forward_spec :: "(string \<Rightarrow> string) \<Rightarrow> string \<Rightarrow> forward_spec result" where
  "parse_forward_spec full_path value =
     (if value = '''' then errorf ''Could not parse.''
      else if CHR ''/'' \<notin> set value \<and> CHR 0x7E \<notin> set value
      then (case parse_forward_port value of Inl e \<Rightarrow> Inl e
            | Inr (l, r) \<Rightarrow> Inr (Forward ''tcp'' l ''tcp'' r))
      else
        (let unix_first = (case split_at CHR '':'' value of None \<Rightarrow> None
               | Some (a, b) \<Rightarrow> if is_socket_path a then Some (a, b) else None)
         in case unix_first of
              Some (a, b) \<Rightarrow>
                if is_socket_path b then Inr (Forward ''unix'' (full_path a) ''unix'' (full_path b))
                else (case parse_tcp b of Inl e \<Rightarrow> Inl e
                      | Inr r \<Rightarrow> Inr (Forward ''unix'' (full_path a) ''tcp'' r))
            | None \<Rightarrow>
                (case last_index CHR '':'' value of None \<Rightarrow> errorf ''Could not parse.''
                 | Some idx \<Rightarrow>
                     if idx = 0 \<or> length value \<le> idx + 1 then errorf ''Could not parse.''
                     else (let local_part = take idx value; remote_part = drop (idx + 1) value
                           in if \<not> is_socket_path remote_part then errorf ''Could not parse.''
                              else (case parse_tcp local_part of Inl e \<Rightarrow> Inl e
                                    | Inr l \<Rightarrow> Inr (Forward ''tcp'' l ''unix'' (full_path remote_part)))))))"

definition parse_forward_path_pair :: "string \<Rightarrow> (string \<times> string) result" where
  "parse_forward_path_pair value =
     (case split_at CHR '':'' value of None \<Rightarrow> errorf ''Could not parse.''
      | Some (l, p) \<Rightarrow> if l = '''' \<or> p = '''' then errorf ''Could not parse.'' else Inr (l, p))"

text \<open>\<open>tunnel_any\<close> is the constant \<open>TunnelDeviceAny\<close> of the SSH library.\<close>

definition tunnel_unit :: "int \<Rightarrow> string \<Rightarrow> int result" where
  "tunnel_unit tunnel_any p =
     (if p = ''any'' then Inr tunnel_any
      else (case atoi p of None \<Rightarrow> errorf ''strconv.Atoi: value out of range'' | Some n \<Rightarrow> Inr n))"

definition tunnel_word :: "string \<Rightarrow> bool" where
  "tunnel_word p = (p = ''any'' \<or> (p \<noteq> '''' \<and> list_all is_digit p))"

definition parse_tunnel_spec :: "int \<Rightarrow> string \<Rightarrow> (int \<times> int) result" where
  "parse_tunnel_spec tunnel_any s =
     (if s = '''' then errorf ''empty tunnel spec''
      else case split_on CHR '':'' s of
          [a, b] \<Rightarrow>
            if tunnel_word a \<and> tunnel_word b
            then (case tunnel_unit tunnel_any a of Inl e \<Rightarrow> Inl e
                  | Inr l \<Rightarrow> (case tunnel_unit tunnel_any b of Inl e \<Rightarrow> Inl e | Inr r \<Rightarrow> Inr (l, r)))
            else errorf ''invalid format''
        | _ \<Rightarrow> errorf ''invalid format'')"

section \<open>Flag normalisation\<close>

text \<open>The first loop: the index of the first positional argument from \<open>i\<close> on, over the
  arguments not yet seen.\<close>

fun first_positional :: "string list \<Rightarrow> nat \<Rightarrow> string list \<Rightarrow> nat option" where
  "first_positional value_flags i [] = None"
| "first_positional value_flags i [arg] =
     (if arg \<in> set value_flags then None
      else if has_prefix arg ''-'' then None else Some i)"
| "first_positional value_flags i (arg # next # rest) =
     (if arg \<in> set value_flags then first_positional value_flags (i + 2) rest
      else if has_prefix arg ''-'' then first_positional value_flags (i + 1) (next # rest)
      else Some i)"

definition normalize_trailing_bool_flags ::
  "string list \<Rightarrow> string list \<Rightarrow> string list \<Rightarrow> string list" where
  "normalize_trailing_bool_flags args bool_flags value_flags =
     (if length args \<le> 2 then args
      else case first_positional value_flags 1 (tl args) of None \<Rightarrow> args
        | Some k \<Rightarrow>
            take k args @ filter (\<lambda>a. a \<in> set bool_flags) (drop k args)
                        @ filter (\<lambda>a. a \<notin> set bool_flags) (drop k args))"

section \<open>The sync command line\<close>

record command_args =
  ca_delete :: bool
  ca_dry_run :: bool
  ca_permission :: bool
  ca_daemon :: bool
  ca_daemon_interval :: int   \<comment> \<open>nanoseconds\<close>
  ca_bidirectional :: bool
  ca_parallel_num :: int
  ca_sources :: "string list"
  ca_destination :: string

definition five_seconds :: int where
  "five_seconds = 5 * 1000000000"

definition initial_args :: command_args where
  "initial_args = \<lparr>ca_delete = False, ca_dry_run = False, ca_permission = False,
     ca_daemon = False, ca_daemon_interval = five_seconds, ca_bidirectional = False,
     ca_parallel_num = 1, ca_sources = [], ca_destination = ''''\<rparr>"

text \<open>The labels of the switch on an argument.\<close>

datatype sync_flag =
  F_delete | F_dry_run | F_daemon | F_bidirectional | F_permission | F_daemon_interval
  | F_parallel | F_positional

definition sync_flag_of :: "string \<Rightarrow> sync_flag" where
  "sync_flag_of a =
     (if a = ''--delete'' then F_delete
      else if a = ''--dry-run'' then F_dry_run
      else if a = ''--daemon'' \<or> a = ''-D'' then F_daemon
      else if a = ''--bidirectional'' \<or> a = ''-B'' then F_bidirectional
      else if a = ''--permission'' \<or> a = ''-p'' then F_permission
      else if a = ''--daemon-interval'' then F_daemon_interval
      else if a = ''--parallel'' \<or> a = ''-P'' then F_parallel
      else F_positional)"

text \<open>\<open>parse_duration\<close> is \<open>time.ParseDuration\<close>.\<close>

fun command_loop ::
  "(string \<Rightarrow> int option) \<Rightarrow> string list \<Rightarrow> string list \<Rightarrow> command_args \<Rightarrow>
   (command_args \<times> string list) result" where
  "command_loop parse_duration [] rest r = Inr (r, rest)"
| "command_loop parse_duration (a # args) rest r =
     (case sync_flag_of a of
        F_delete \<Rightarrow> command_loop parse_duration args rest (r\<lparr>ca_delete := True\<rparr>)
      | F_dry_run \<Rightarrow> command_loop parse_duration args rest (r\<lparr>ca_dry_run := True\<rparr>)
      | F_daemon \<Rightarrow> command_loop parse_duration args rest (r\<lparr>ca_daemon := True\<rparr>)
      | F_bidirectional \<Rightarrow> command_loop parse_duration args rest (r\<lparr>ca_bidirectional := True\<rparr>)
      | F_permission \<Rightarrow> command_loop parse_duration args rest (r\<lparr>ca_permission := True\<rparr>)
      | F_daemon_interval \<Rightarrow>
          (case args of [] \<Rightarrow> errorf (''missing value for '' @ a)
           | v # args' \<Rightarrow>
               (case parse_duration v of None \<Rightarrow> errorf (''invalid daemon interval value: '' @ v)
                | Some d \<Rightarrow> command_loop parse_duration args' rest
                    (r\<lparr>ca_daemon_interval := (if d \<le> 0 then five_seconds else d)\<rparr>)))
      | F_parallel \<Rightarrow>
          (case args of [] \<Rightarrow> errorf (''missing value for '' @ a)
           | v # args' \<Rightarrow>
               (case atoi v of None \<Rightarrow> errorf (''invalid parallel value: '' @ v)
                | Some n \<Rightarrow> command_loop parse_duration args' rest
                    (r\<lparr>ca_parallel_num := (if n < 1 then 1 else n)\<rparr>)))
      | F_positional \<Rightarrow> command_loop parse_duration args (rest @ [a]) r)"

definition parse_command_args :: "(string \<Rightarrow> int option) \<Rightarrow> string list \<Rightarrow> command_args result" where
  "parse_command_args parse_duration args =
     (case args of [] \<Rightarrow> errorf ''missing command''
      | _ # args' \<Rightarrow>
          (case command_loop parse_duration args' [] initial_args of Inl e \<Rightarrow> Inl e
           | Inr (r, rest) \<Rightarrow>
               if length rest < 2 then errorf ''requires source and destination paths''
               else Inr (r\<lparr>ca_sources := ca_sources r @ butlast rest, ca_destination := last rest\<rparr>)))"

record path_spec =
  ps_is_remote :: bool
  ps_hosts :: "string list"
  ps_path :: string
  ps_raw :: string

definition parse_path_spec_with_hosts :: "string \<Rightarrow> string list \<Rightarrow> path_spec result" where
  "parse_path_spec_with_hosts arg known_hosts =
     (case split_at CHR '':'' arg of
        None \<Rightarrow> Inr \<lparr>ps_is_remote = False, ps_hosts = [], ps_path = arg, ps_raw = arg\<rparr>
      | Some (pre, p) \<Rightarrow>
          if to_lower pre = ''local'' \<or> to_lower pre = ''l''
          then Inr \<lparr>ps_is_remote = False, ps_hosts = [], ps_path = p, ps_raw = arg\<rparr>
          else if to_lower pre = ''remote'' \<or> to_lower pre = ''r''
          then (if has_prefix p ''@''
                then (let (hosts, q) = parse_host_path_with_hosts (trim_prefix p ''@'') known_hosts
                      in if hosts = [] \<or> q = ''''
                         then errorf ''remote path must be remote:@host:/path or remote:/path''
                         else Inr \<lparr>ps_is_remote = True, ps_hosts = hosts, ps_path = q, ps_raw = arg\<rparr>)
                else Inr \<lparr>ps_is_remote = True, ps_hosts = [], ps_path = p, ps_raw = arg\<rparr>)
          else errorf (''invalid path prefix: '' @ pre))"

section \<open>Diff targets and targeted commands\<close>

record diff_target =
  dt_host :: string
  dt_remote_path :: string
  dt_title :: string

definition host_target :: "string \<Rightarrow> string \<Rightarrow> diff_target" where
  "host_target host p =
     (let h = trim_space host; q = trim_space p
      in \<lparr>dt_host = h, dt_remote_path = q, dt_title = h @ '':'' @ q\<rparr>)"

definition parse_target_spec_with_hosts :: "string \<Rightarrow> string list \<Rightarrow> diff_target result" where
  "parse_target_spec_with_hosts raw known_hosts =
     (let value = trim_space raw;
          plain = Inr \<lparr>dt_host = '''', dt_remote_path = value, dt_title = value\<rparr>
      in if value = '''' then errorf ''target path is required''
         else if has_prefix value ''@'' then
           (let (hosts, p) = parse_host_path_with_hosts (trim_prefix value ''@'') known_hosts
            in case hosts of
                 [h] \<Rightarrow> if trim_space p = '''' then errorf ''invalid target format: expected @host:/path''
                        else Inr (host_target h p)
               | _ \<Rightarrow> errorf ''invalid target format: expected @host:/path'')
         else if CHR '':'' \<in> set value then
           (let (hosts, p) = parse_host_path_with_hosts value known_hosts
            in case hosts of
                 [h] \<Rightarrow> if trim_space h \<noteq> '''' \<and> has_prefix (trim_space p) ''/''
                        then Inr (host_target h p) else plain
               | _ \<Rightarrow> plain)
         else plain)"

definition is_targeted_remote_command :: "string \<Rightarrow> bool" where
  "is_targeted_remote_command cmd =
     (has_prefix cmd ''@'' \<and> (case index_of cmd '':'' of None \<Rightarrow> False | Some idx \<Rightarrow> 1 < idx))"

fun trim_targets :: "string list \<Rightarrow> string list result" where
  "trim_targets [] = Inr []"
| "trim_targets (t # ts) =
     (if trim_space t = '''' then errorf ''invalid server selector''
      else (case trim_targets ts of Inl e \<Rightarrow> Inl e | Inr ts' \<Rightarrow> Inr (trim_space t # ts')))"

definition parse_targeted_command :: "string \<Rightarrow> string list \<Rightarrow> (string list \<times> string) result" where
  "parse_targeted_command command known_hosts =
     (if \<not> is_targeted_remote_command command then errorf ''not targeted command''
      else (let (targets, head) = parse_host_path_with_hosts (trim_prefix command ''@'') known_hosts;
                head = trim_space head
            in if targets = [] \<or> head = '''' then errorf ''invalid server selector''
               else (case trim_targets targets of Inl e \<Rightarrow> Inl e | Inr ts \<Rightarrow> Inr (ts, head))))"

section \<open>Properties of host selectors\<close>

lemma last_index_append:
  "c \<notin> set t \<Longrightarrow> last_index c (s @ c # t) = Some (length s)"
  by (simp add: last_index_def index_of_char_append)

lemma last_index_is:
  assumes "last_index c s = Some i"
  shows "s ! i = c \<and> (\<forall>j. i < j \<and> j < length s \<longrightarrow> s ! j \<noteq> c)"
proof -
  have "c \<in> set (rev s)"
    using assms index_of_char_None[of "rev s" c] by (auto simp: last_index_def split: option.splits)
  then obtain a b where ab: "rev s = a @ c # b" "c \<notin> set a"
    by (metis split_list_first)
  then have s: "s = rev b @ c # rev a"
    by (metis append.assoc append_Cons append_Nil rev.simps(2) rev_append rev_rev_ident)
  with ab(2) assms have i: "i = length b"
    by (simp add: last_index_append)
  have "s ! j \<noteq> c" if "i < j" "j < length s" for j
  proof -
    have "s ! j = rev a ! (j - Suc i)" and "j - Suc i < length (rev a)"
      using that s i by (simp_all add: nth_append)
    then have "s ! j \<in> set (rev a)"
      by (metis nth_mem)
    with ab(2) show ?thesis by auto
  qed
  moreover have "s ! i = c"
    using s i by (simp add: nth_append)
  ultimately show ?thesis by blast
qed

definition plain_host :: "string \<Rightarrow> bool" where
  "plain_host h = (h \<noteq> '''' \<and> \<not> has_prefix h ''@'' \<and> trim_space h = h \<and> CHR '','' \<notin> set h)"

lemma match_hosts_plain:
  "\<forall>h \<in> set hs. plain_host h \<and> h \<in> set known \<Longrightarrow> match_hosts known hs = Some hs"
  by (induction hs) (auto simp: plain_host_def trim_prefix_def)

lemma match_hosts_known:
  "match_hosts known xs = Some hs \<Longrightarrow> set hs \<subseteq> set known \<and> length hs = length xs \<and> '''' \<notin> set hs"
  by (induction xs arbitrary: hs) (fastforce simp: Let_def split: if_splits)+

text \<open>
  C14. A selector of known hosts and a path is read back from \<open>host1,host2:path\<close>, also when
  the host names hold colons themselves (IPv6 addresses). This asks of every host that it is
  known, not empty, without commas, without a leading at sign and without white space at its ends, and of the
  path that it is not empty and has no colon. With a colon in the path it would not hold: when
  \<open>a\<close> and \<open>a:x\<close> are both known, \<open>a:x:y\<close> is read as the path \<open>y\<close> on the host \<open>a:x\<close>.
\<close>

theorem host_selector_roundtrip:
  assumes "hs \<noteq> []" and "\<forall>h \<in> set hs. plain_host h \<and> h \<in> set known"
    and "p \<noteq> ''''" and "CHR '':'' \<notin> set p"
  shows "parse_host_path_with_hosts (join_with '','' hs @ '':'' @ p) known = (hs, p)"
proof -
  let ?v = "join_with '','' hs @ CHR '':'' # p"
  have known: "\<forall>h \<in> set hs. plain_host h \<and> h \<in> set (known_host_set known)"
  proof
    fix h
    assume "h \<in> set hs"
    then have h: "plain_host h" "h \<in> set known"
      using assms(2) by auto
    then have "trim_space (trim_prefix h ''@'') = h"
      by (simp add: plain_host_def trim_prefix_def)
    then show "plain_host h \<and> h \<in> set (known_host_set known)"
      using h unfolding known_host_set_def plain_host_def by (auto simp: image_iff intro!: bexI[of _ h])
  qed
  have "hd hs \<noteq> ''''"
    using assms(1,2) by (auto simp: plain_host_def)
  then have "join_with '','' hs \<noteq> ''''"
    using join_with_hd[OF assms(1), of "'',''"] by auto
  moreover have "split_on CHR '','' (join_with '','' hs) = hs"
    using assms(1,2) by (intro split_on_join) (auto simp: plain_host_def)
  ultimately have "try_colons (known_host_set known) ?v (length ?v) = Some (hs, p)"
    using assms(3) last_index_append[OF assms(4), of "join_with '','' hs"] match_hosts_plain[OF known]
    by (subst try_colons.simps) simp
  moreover have "known_host_set known \<noteq> []"
    using known assms(1) by (cases hs) auto
  ultimately show ?thesis
    by (simp add: parse_host_path_with_hosts_def)
qed

lemma host_selector_roundtrip_witness:
  "parse_host_path_with_hosts ''fe80::1,web:/srv'' [''web'', ''fe80::1''] = ([''fe80::1'', ''web''], ''/srv'')"
proof -
  have "\<forall>h \<in> set [''fe80::1'', ''web'']. plain_host h \<and> h \<in> set [''web'', ''fe80::1'']"
    by code_simp
  then show ?thesis
    using host_selector_roundtrip[of "[''fe80::1'', ''web'']" "[''web'', ''fe80::1'']" "''/srv''"] by simp
qed

text \<open>
  The colon search only answers with known hosts, splits the value at a colon with a
  non-empty path after it, and takes the longest selector: no later colon with a path after
  it ends a selector of known hosts.
\<close>

theorem try_colons_longest:
  assumes "try_colons known v (length v) = Some (hs, p)"
  shows "hs \<noteq> [] \<and> set hs \<subseteq> set known \<and> p \<noteq> ''''
     \<and> (\<exists>selector. v = selector @ '':'' @ p
          \<and> match_hosts known (split_on CHR '','' selector) = Some hs
          \<and> (\<forall>j. length selector < j \<and> j < length v \<and> v ! j = CHR '':''
               \<and> drop (Suc j) v \<noteq> ''''
               \<longrightarrow> match_hosts known (split_on CHR '','' (take j v)) = None))"
proof -
  have "hs \<noteq> [] \<and> set hs \<subseteq> set known \<and> p \<noteq> ''''
     \<and> (\<exists>selector. v = selector @ '':'' @ p
          \<and> match_hosts known (split_on CHR '','' selector) = Some hs
          \<and> (\<forall>j. length selector < j \<and> j < n \<and> v ! j = CHR '':''
               \<and> drop (Suc j) v \<noteq> ''''
               \<longrightarrow> match_hosts known (split_on CHR '','' (take j v)) = None))"
    if "try_colons known v n = Some (hs, p)" and "n \<le> length v" for n
    using that
  proof (induction n rule: less_induct)
    case (less n)
    obtain idx where idx: "last_index CHR '':'' (take n v) = Some idx"
      using less.prems(1) by (subst (asm) try_colons.simps) (auto split: option.splits)
    have n: "idx < n" "idx < length v"
      using last_index_Some[OF idx] by auto
    have colon: "v ! idx = CHR '':''"
      and later: "\<forall>j. idx < j \<and> j < n \<longrightarrow> v ! j \<noteq> CHR '':''"
      using last_index_is[OF idx] n less.prems(2) by auto
    let ?sel = "take idx v" and ?path = "drop (Suc idx) v"
    have step: "try_colons known v n =
        (if ?sel = '''' \<or> ?path = '''' then try_colons known v idx
         else (case match_hosts known (split_on CHR '','' ?sel) of
                 Some hosts \<Rightarrow> Some (hosts, ?path) | None \<Rightarrow> try_colons known v idx))"
      by (subst try_colons.simps) (simp only: idx option.case Let_def)
    have split: "v = ?sel @ '':'' @ ?path"
      using n(2) colon id_take_nth_drop[of idx v] by simp
    show ?case
    proof (cases "?sel = '''' \<or> ?path = '''' \<or> match_hosts known (split_on CHR '','' ?sel) = None")
      case True
      then have "try_colons known v n = try_colons known v idx"
        unfolding step by (elim disjE) (simp_all only: if_cancel option.case simp_thms if_True)
      then have "try_colons known v idx = Some (hs, p)"
        using less.prems(1) by simp
      from less.IH[OF n(1) this] n(2) obtain sel where sel: "hs \<noteq> []" "set hs \<subseteq> set known" "p \<noteq> ''''" "v = sel @ '':'' @ p"
        "match_hosts known (split_on CHR '','' sel) = Some hs"
        "\<forall>j. length sel < j \<and> j < idx \<and> v ! j = CHR '':'' \<and> drop (Suc j) v \<noteq> ''''
           \<longrightarrow> match_hosts known (split_on CHR '','' (take j v)) = None"
        by auto
      have "match_hosts known (split_on CHR '','' '''') = None"
        by (simp add: trim_prefix_def trim_space_def trim_right_def trim_left_def
            trim_left_with.simps[of _ "[]"] space_len_def)
      then have "?path = '''' \<or> match_hosts known (split_on CHR '','' ?sel) = None"
        using True by auto
      then have "\<forall>j. length sel < j \<and> j < n \<and> v ! j = CHR '':'' \<and> drop (Suc j) v \<noteq> ''''
           \<longrightarrow> match_hosts known (split_on CHR '','' (take j v)) = None"
        using sel(6) later by (metis linorder_neqE_nat)
      with sel show ?thesis by blast
    next
      case False
      then have eq: "match_hosts known (split_on CHR '','' ?sel) = Some hs" "p = ?path"
        using less.prems(1) unfolding step by auto
      moreover have "hs \<noteq> []" "set hs \<subseteq> set known"
        using match_hosts_known[OF eq(1)] by auto
      moreover have "length ?sel = idx"
        using n by simp
      ultimately show ?thesis
        using False split later by (intro conjI exI[of _ ?sel]) auto
    qed
  qed
  from this[OF assms order_refl] show ?thesis .
qed

lemma try_colons_longest_witness:
  "try_colons [''a:b'', ''a''] ''a:b:/x'' 6 = Some ([''a:b''], ''/x'')
   \<and> set [''a:b''] \<subseteq> set [''a:b'', ''a'']"
proof -
  have "length ''a:b:/x'' = 6"
    by code_simp
  moreover have r: "try_colons [''a:b'', ''a''] ''a:b:/x'' (length ''a:b:/x'') = Some ([''a:b''], ''/x'')"
    by code_simp
  moreover have "set [''a:b''] \<subseteq> set [''a:b'', ''a'']"
    using try_colons_longest[OF r] by (elim conjE)
  ultimately show ?thesis
    by metis
qed

section \<open>Properties of the command line\<close>

lemma first_positional_bound:
  "first_positional vf i xs = Some k \<Longrightarrow> i \<le> k \<and> k < i + length xs"
  by (induction vf i xs rule: first_positional.induct) (force split: if_splits)+

lemma mset_filter_split:
  "mset (filter P xs) + mset (filter (\<lambda>x. \<not> P x) xs) = mset xs"
  by (induction xs) simp_all

text \<open>What the two partitions of the arguments from index \<open>k\<close> on do to the list.\<close>

lemma partition_tail:
  fixes xs :: "'a list" and P :: "'a \<Rightarrow> bool"
  defines "ys k \<equiv> take k xs @ filter P (drop k xs) @ filter (\<lambda>a. \<not> P a) (drop k xs)"
  shows "mset (ys k) = mset xs"
    and "1 \<le> k \<Longrightarrow> take 1 (ys k) = take 1 xs"
    and "filter (\<lambda>a. \<not> P a) (ys k) = filter (\<lambda>a. \<not> P a) xs"
proof -
  have "mset (ys k) = mset (take k xs) + mset (drop k xs)"
    unfolding ys_def by (simp only: mset_append mset_filter_split)
  also have "\<dots> = mset xs"
    by (simp only: mset_append[symmetric] append_take_drop_id)
  finally show "mset (ys k) = mset xs" .
  show "take 1 (ys k) = take 1 xs" if "1 \<le> k"
    using that unfolding ys_def by (cases xs; cases k) simp_all
  have "filter (\<lambda>a. \<not> P a) (ys k) =
      filter (\<lambda>a. \<not> P a) (take k xs) @ filter (\<lambda>a. \<not> P a) (drop k xs)"
    unfolding ys_def by simp
  also have "\<dots> = filter (\<lambda>a. \<not> P a) xs"
    by (simp only: filter_append[symmetric] append_take_drop_id)
  finally show "filter (\<lambda>a. \<not> P a) (ys k) = filter (\<lambda>a. \<not> P a) xs" .
qed

lemma normalize_cases:
  "normalize_trailing_bool_flags args bs vs = args
   \<or> (\<exists>k \<ge> 1. normalize_trailing_bool_flags args bs vs =
         take k args @ filter (\<lambda>a. a \<in> set bs) (drop k args) @ filter (\<lambda>a. a \<notin> set bs) (drop k args))"
proof (cases "first_positional vs 1 (tl args)")
  case None
  then show ?thesis
    unfolding normalize_trailing_bool_flags_def by (simp only: option.case if_cancel simp_thms)
next
  case (Some k)
  then have "1 \<le> k"
    using first_positional_bound by blast
  with Some show ?thesis
    unfolding normalize_trailing_bool_flags_def by (simp only: option.case split: if_split) blast
qed

text \<open>
  Moving trailing boolean flags forward loses nothing: the result is a rearrangement of
  the arguments, it keeps the command name first, and it keeps the arguments that are not
  boolean flags in their order.
\<close>

theorem normalize_trailing_bool_flags_rearranges:
  "mset (normalize_trailing_bool_flags args bool_flags value_flags) = mset args
   \<and> take 1 (normalize_trailing_bool_flags args bool_flags value_flags) = take 1 args
   \<and> filter (\<lambda>a. a \<notin> set bool_flags) (normalize_trailing_bool_flags args bool_flags value_flags)
      = filter (\<lambda>a. a \<notin> set bool_flags) args"
  using normalize_cases[of args bool_flags value_flags]
proof (elim disjE exE conjE)
  fix k
  assume k: "1 \<le> k" and r: "normalize_trailing_bool_flags args bool_flags value_flags =
      take k args @ filter (\<lambda>a. a \<in> set bool_flags) (drop k args)
                  @ filter (\<lambda>a. a \<notin> set bool_flags) (drop k args)"
  show ?thesis
    unfolding r by (intro conjI partition_tail k)
qed simp

lemma command_loop_inv:
  assumes "command_loop pd args rest r = Inr (r', rest')"
    and "1 \<le> ca_parallel_num r" and "0 < ca_daemon_interval r"
  shows "1 \<le> ca_parallel_num r' \<and> 0 < ca_daemon_interval r' \<and> ca_sources r' = ca_sources r
     \<and> (\<exists>ys. rest' = rest @ ys \<and> set ys \<subseteq> {a \<in> set args. sync_flag_of a = F_positional})"
  using assms
proof (induction pd args rest r rule: command_loop.induct)
  case (2 pd a args rest r)
  show ?case
  proof (cases "sync_flag_of a")
    case F_daemon_interval
    with "2.prems" obtain v args' d where
      v: "args = v # args'" "pd v = Some d"
      "command_loop pd args' rest (r\<lparr>ca_daemon_interval := (if d \<le> 0 then five_seconds else d)\<rparr>) = Inr (r', rest')"
      by (auto simp: errorf_def split: list.splits option.splits)
    have "1 \<le> ca_parallel_num r' \<and> 0 < ca_daemon_interval r' \<and> ca_sources r' = ca_sources r
       \<and> (\<exists>ys. rest' = rest @ ys \<and> set ys \<subseteq> {a \<in> set args'. sync_flag_of a = F_positional})"
      using "2.IH"(6)[OF F_daemon_interval v(1,2,3)] "2.prems"(2)
      by (simp add: five_seconds_def)
    then show ?thesis
      using v(1) by auto
  next
    case F_parallel
    with "2.prems" obtain v args' n where
      v: "args = v # args'" "atoi v = Some n"
      "command_loop pd args' rest (r\<lparr>ca_parallel_num := (if n < 1 then 1 else n)\<rparr>) = Inr (r', rest')"
      by (auto simp: errorf_def split: list.splits option.splits)
    have "1 \<le> ca_parallel_num r' \<and> 0 < ca_daemon_interval r' \<and> ca_sources r' = ca_sources r
       \<and> (\<exists>ys. rest' = rest @ ys \<and> set ys \<subseteq> {a \<in> set args'. sync_flag_of a = F_positional})"
      using "2.IH"(7)[OF F_parallel v(1,2,3)] "2.prems"(2,3) by simp
    then show ?thesis
      using v(1) by auto
  next
    case F_delete
    with "2.prems" "2.IH"(1)[OF F_delete] show ?thesis by auto
  next
    case F_dry_run
    with "2.prems" "2.IH"(2)[OF F_dry_run] show ?thesis by auto
  next
    case F_daemon
    with "2.prems" "2.IH"(3)[OF F_daemon] show ?thesis by auto
  next
    case F_bidirectional
    with "2.prems" "2.IH"(4)[OF F_bidirectional] show ?thesis by auto
  next
    case F_permission
    with "2.prems" "2.IH"(5)[OF F_permission] show ?thesis by auto
  next
    case F_positional
    with "2.prems" have "command_loop pd args (rest @ [a]) r = Inr (r', rest')"
      by simp
    from "2.IH"(8)[OF F_positional this] "2.prems"(2,3) obtain ys where
      inv: "1 \<le> ca_parallel_num r'" "0 < ca_daemon_interval r'" "ca_sources r' = ca_sources r"
      and ys: "rest' = rest @ a # ys" "set ys \<subseteq> {a \<in> set args. sync_flag_of a = F_positional}"
      by auto
    have "set (a # ys) \<subseteq> {b \<in> set (a # args). sync_flag_of b = F_positional}"
      using ys(2) F_positional by auto
    with inv ys(1) show ?thesis by blast
  qed
qed simp

text \<open>
  Every accepted sync command line has at least one source and a destination, all of
  them positional arguments of the line, and its numbers are in range: a parallelism of at
  least 1 and a positive interval, whatever was asked for.
\<close>

theorem parse_command_args_wellformed:
  assumes "parse_command_args parse_duration args = Inr r"
  shows "ca_sources r \<noteq> [] \<and> 1 \<le> ca_parallel_num r \<and> 0 < ca_daemon_interval r
     \<and> set (ca_destination r # ca_sources r) \<subseteq> {a \<in> set (tl args). sync_flag_of a = F_positional}"
proof -
  obtain c args' where args: "args = c # args'"
    using assms by (cases args) (auto simp: parse_command_args_def errorf_def)
  then obtain r0 rest where
    loop: "command_loop parse_duration args' [] initial_args = Inr (r0, rest)" and len: "2 \<le> length rest"
    and r: "r = r0\<lparr>ca_sources := ca_sources r0 @ butlast rest, ca_destination := last rest\<rparr>"
    using assms by (auto simp: parse_command_args_def errorf_def split: sum.splits if_splits)
  have inv: "1 \<le> ca_parallel_num r0 \<and> 0 < ca_daemon_interval r0 \<and> ca_sources r0 = []
     \<and> set rest \<subseteq> {a \<in> set args'. sync_flag_of a = F_positional}"
    using command_loop_inv[OF loop] by (auto simp: initial_args_def five_seconds_def)
  have "rest \<noteq> []" and "butlast rest \<noteq> []"
    using len by (auto simp: butlast_conv_take)
  moreover have "set (last rest # butlast rest) \<subseteq> set rest"
    using last_in_set[OF \<open>rest \<noteq> []\<close>] by (auto dest: in_set_butlastD)
  then have "set (last rest # butlast rest) \<subseteq> {a \<in> set args'. sync_flag_of a = F_positional}"
    using inv by blast
  ultimately show ?thesis
    using inv args r by simp
qed

lemma parse_command_args_wellformed_witness:
  "\<exists>r. parse_command_args (\<lambda>_. Some (- 3)) [''sync'', ''local:a'', ''-P'', ''0'', ''--daemon-interval'', ''x'',
      ''-D'', ''remote:b''] = Inr r \<and> ca_sources r = [''local:a''] \<and> 1 \<le> ca_parallel_num r
      \<and> 0 < ca_daemon_interval r"
proof -
  let ?a = "[''sync'', ''local:a'', ''-P'', ''0'', ''--daemon-interval'', ''x'', ''-D'', ''remote:b'']"
  let ?r = "initial_args\<lparr>ca_daemon := True, ca_sources := [''local:a''], ca_destination := ''remote:b''\<rparr>"
  have r: "parse_command_args (\<lambda>_. Some (- 3)) ?a = Inr ?r"
    by code_simp
  moreover have "ca_sources ?r = [''local:a'']"
    by simp
  ultimately show ?thesis
    using parse_command_args_wellformed[OF r] by blast
qed

text \<open>
  An accepted \<open>@\<close> target has a non-empty trimmed path, the title \<open>host:path\<close> and the
  one host of the selector, trimmed. The host may be empty: \<open>@:/path\<close> is accepted, although
  the error text of the same function asks for \<open>@host:/path\<close> (the witness).
\<close>

theorem at_target_parse:
  assumes "parse_target_spec_with_hosts raw known = Inr t" and "has_prefix (trim_space raw) ''@''"
  shows "dt_remote_path t \<noteq> '''' \<and> dt_title t = dt_host t @ '':'' @ dt_remote_path t
     \<and> (\<exists>h p. parse_host_path_with_hosts (trim_prefix (trim_space raw) ''@'') known = ([h], p)
           \<and> dt_host t = trim_space h \<and> dt_remote_path t = trim_space p)"
  using assms
  by (auto simp: parse_target_spec_with_hosts_def Let_def errorf_def host_target_def
      split: if_splits prod.splits list.splits)

lemma at_target_parse_witness:
  "parse_target_spec_with_hosts '' @:/etc/hosts '' [] =
     Inr \<lparr>dt_host = '''', dt_remote_path = ''/etc/hosts'', dt_title = '':/etc/hosts''\<rparr>
   \<and> ''/etc/hosts'' \<noteq> ''''"
proof -
  have t: "parse_target_spec_with_hosts '' @:/etc/hosts '' [] =
     Inr \<lparr>dt_host = '''', dt_remote_path = ''/etc/hosts'', dt_title = '':/etc/hosts''\<rparr>"
    and p: "has_prefix (trim_space '' @:/etc/hosts '') ''@''"
    by code_simp+
  show ?thesis
    using t at_target_parse[OF t p] by simp
qed

end
