(* ===== verification/Mux_Layout.thy ===== *)
theory Mux_Layout
  imports Go_Base
begin

text \<open>
  The layout tree of a terminal multiplexer page, \<^verbatim>\<open>internal/mux/layout.go\<close>: splitting the
  focused pane, removing a pane, and the balanced grid a page of several hosts starts with.
  A pane is a reference of type \<open>'p\<close>, a nil pointer is \<open>None\<close>. The methods mutate the tree in
  place; here they return the new node beside the boolean of the source.
\<close>

section \<open>The tree and its operations\<close>

datatype 'p layout_node =
  Layout_Node (node_pane: "'p option") (node_direction: int) (node_children: "'p layout_node list")

abbreviation pane_node :: "'p \<Rightarrow> 'p layout_node" where
  "pane_node p \<equiv> Layout_Node (Some p) 0 []"

text \<open>The constants of the UI library.\<close>

definition flex_row :: int where "flex_row = 0"
definition flex_column :: int where "flex_column = 1"

fun split_layout :: "'p option \<Rightarrow> 'p layout_node \<Rightarrow> int \<Rightarrow> 'p layout_node \<Rightarrow> 'p layout_node \<times> bool"
and split_children ::
  "'p option \<Rightarrow> 'p layout_node \<Rightarrow> int \<Rightarrow> 'p layout_node list \<Rightarrow> 'p layout_node list \<times> bool" where
  "split_layout target next direction (Layout_Node p d cs) =
     (if p = target then (Layout_Node None direction [Layout_Node p 0 [], next], True)
      else (let (cs', found) = split_children target next direction cs
            in (Layout_Node p d cs', found)))"
| "split_children target next direction [] = ([], False)"
| "split_children target next direction (c # cs) =
     (let (c', found) = split_layout target next direction c
      in if found then (c' # cs, True)
         else (let (cs', found') = split_children target next direction cs in (c' # cs', found')))"

definition layout_split :: "'p option \<Rightarrow> 'p \<Rightarrow> int \<Rightarrow> 'p layout_node \<Rightarrow> 'p layout_node \<times> bool" where
  "layout_split target next direction n = split_layout target (pane_node next) direction n"

definition compact :: "'p layout_node \<Rightarrow> 'p layout_node" where
  "compact n =
     (case node_children n of
        [] \<Rightarrow> Layout_Node None 0 []
      | [only] \<Rightarrow> Layout_Node (node_pane only) (node_direction only) (node_children only)
      | _ \<Rightarrow> n)"

fun layout_remove :: "'p option \<Rightarrow> 'p layout_node \<Rightarrow> 'p layout_node \<times> bool"
and remove_children :: "'p option \<Rightarrow> 'p layout_node list \<Rightarrow> 'p layout_node list \<times> bool" where
  "layout_remove target (Layout_Node p d cs) =
     (if p = target then (Layout_Node None d cs, True)
      else (let (cs', found) = remove_children target cs
            in if found then (compact (Layout_Node p d cs'), True)
               else (Layout_Node p d cs', False)))"
| "remove_children target [] = ([], False)"
| "remove_children target (c # cs) =
     (let (c', found) = layout_remove target c
      in if found
         then (if node_pane c' = None \<and> node_children c' = [] then (cs, True) else (c' # cs, True))
         else (let (cs', found') = remove_children target cs in (c' # cs', found')))"

text \<open>The nodes of a linear layout; \<open>None\<close> is the nil node of an empty list.\<close>

definition build_linear_layout :: "'p list \<Rightarrow> int \<Rightarrow> 'p layout_node option" where
  "build_linear_layout panes direction =
     (case panes of
        [] \<Rightarrow> None
      | [p] \<Rightarrow> Some (pane_node p)
      | _ \<Rightarrow> Some (Layout_Node None direction (map pane_node panes)))"

text \<open>\<open>int(math.Ceil(math.Sqrt(float64(n))))\<close>: the square root is correctly rounded, so the
  result is the least \<open>c\<close> with \<open>n \<le> c * c\<close> for every list that fits in memory.\<close>

fun ceil_sqrt_from :: "nat \<Rightarrow> nat \<Rightarrow> nat \<Rightarrow> nat" where
  "ceil_sqrt_from n c 0 = c"
| "ceil_sqrt_from n c (Suc fuel) = (if n \<le> c * c then c else ceil_sqrt_from n (Suc c) fuel)"

definition ceil_sqrt :: "nat \<Rightarrow> nat" where
  "ceil_sqrt n = ceil_sqrt_from n 0 n"

text \<open>The loop over the rows: \<open>rows - i\<close> rows are still to be built from \<open>panes[offset:]\<close>.\<close>

fun balanced_rows :: "nat \<Rightarrow> nat \<Rightarrow> nat \<Rightarrow> nat \<Rightarrow> 'p list \<Rightarrow> 'p layout_node option list" where
  "balanced_rows i 0 base rest panes = []"
| "balanced_rows i (Suc todo) base rest panes =
     (let size = (if i < rest then base + 1 else base)
      in build_linear_layout (take size panes) flex_column
         # balanced_rows (i + 1) todo base rest (drop size panes))"

text \<open>A nil child would be a nil pointer in the tree; \<open>build_balanced_grid\<close> shows that there
  is none, so the children are the rows themselves.\<close>

definition build_balanced_layout :: "'p list \<Rightarrow> int \<Rightarrow> 'p layout_node option" where
  "build_balanced_layout panes direction =
     (if length panes = 0 then None
      else if length panes = 1 then Some (pane_node (panes ! 0))
      else if length panes \<le> 3 then build_linear_layout panes flex_column
      else
        (let cols = ceil_sqrt (length panes);
             rows = (length panes + cols - 1) div cols
         in if rows \<le> 1 then build_linear_layout panes flex_column
            else Some (Layout_Node None flex_row
                   (map the (balanced_rows 0 rows (length panes div rows) (length panes mod rows) panes)))))"

section \<open>Well-formed trees and their panes\<close>

fun layout_panes :: "'p layout_node \<Rightarrow> 'p list" where
  "layout_panes (Layout_Node p d cs) = (case p of Some q \<Rightarrow> [q] | None \<Rightarrow> concat (map layout_panes cs))"

text \<open>A node is either a pane without children or a split with at least two of them.\<close>

fun layout_wf :: "'p layout_node \<Rightarrow> bool" where
  "layout_wf (Layout_Node p d cs) =
     (case p of Some q \<Rightarrow> cs = [] | None \<Rightarrow> 2 \<le> length cs \<and> list_all layout_wf cs)"

abbreviation forest_panes :: "'p layout_node list \<Rightarrow> 'p list" where
  "forest_panes cs \<equiv> concat (map layout_panes cs)"

lemma layout_wf_panes: "layout_wf n \<Longrightarrow> layout_panes n \<noteq> []"
proof (induction n rule: layout_wf.induct)
  case (1 p d cs)
  show ?case
  proof (cases p)
    case None
    with 1 obtain c cs' where "cs = c # cs'"
      by (cases cs) auto
    with 1 None show ?thesis
      by auto
  qed simp
qed

text \<open>The panes \<open>new\<close> inserted behind the pane \<open>p\<close>.\<close>

fun insert_after :: "'p \<Rightarrow> 'p list \<Rightarrow> 'p list \<Rightarrow> 'p list" where
  "insert_after p new [] = []"
| "insert_after p new (x # xs) = (if x = p then x # new @ xs else x # insert_after p new xs)"

lemma insert_after_append:
  "insert_after p new (xs @ ys) =
     (if p \<in> set xs then insert_after p new xs @ ys else xs @ insert_after p new ys)"
  by (induction xs) auto

lemma insert_after_absent: "p \<notin> set xs \<Longrightarrow> insert_after p new xs = xs"
  by (induction xs) auto

lemma set_insert_after: "p \<in> set xs \<Longrightarrow> set (insert_after p new xs) = set xs \<union> set new"
  by (induction xs) auto

lemma distinct_insert_after:
  "distinct xs \<Longrightarrow> p \<in> set xs \<Longrightarrow> distinct new \<Longrightarrow> set new \<inter> set xs = {}
   \<Longrightarrow> distinct (insert_after p new xs)"
  by (induction xs) (auto simp: set_insert_after)

section \<open>Splitting\<close>

lemma split_layout_absent:
  "layout_wf n \<Longrightarrow> p \<notin> set (layout_panes n) \<Longrightarrow> split_layout (Some p) next d n = (n, False)"
  "list_all layout_wf cs \<Longrightarrow> p \<notin> set (forest_panes cs) \<Longrightarrow> split_children (Some p) next d cs = (cs, False)"
proof (induction "Some p" "next" d n and "Some p" "next" d cs rule: split_layout_split_children.induct)
  case (1 "next" d q e cs)
  then show ?case
    by (cases q) auto
qed auto

lemma split_layout_present:
  "layout_wf n \<Longrightarrow> p \<in> set (layout_panes n) \<Longrightarrow> layout_wf next \<Longrightarrow>
     \<exists>n'. split_layout (Some p) next d n = (n', True) \<and> layout_wf n'
        \<and> layout_panes n' = insert_after p (layout_panes next) (layout_panes n)"
  "list_all layout_wf cs \<Longrightarrow> p \<in> set (forest_panes cs) \<Longrightarrow> layout_wf next \<Longrightarrow>
     \<exists>cs'. split_children (Some p) next d cs = (cs', True) \<and> list_all layout_wf cs'
        \<and> length cs' = length cs
        \<and> forest_panes cs' = insert_after p (layout_panes next) (forest_panes cs)"
proof (induction "Some p" "next" d n and "Some p" "next" d cs rule: split_layout_split_children.induct)
  case (1 "next" d q e cs)
  then show ?case
    by (cases q) auto
next
  case (3 "next" d c cs)
  show ?case
  proof (cases "p \<in> set (layout_panes c)")
    case True
    with 3 show ?thesis
      by (auto simp: insert_after_append)
  next
    case False
    then have r: "split_layout (Some p) next d c = (c, False)"
      using 3 by (intro split_layout_absent) simp_all
    then have "\<exists>cs'. split_children (Some p) next d cs = (cs', True) \<and> list_all layout_wf cs'
        \<and> length cs' = length cs
        \<and> forest_panes cs' = insert_after p (layout_panes next) (forest_panes cs)"
      using 3(2)[OF r[symmetric]] 3(3-5) False by simp
    with r False 3(3) show ?thesis
      by (auto simp: insert_after_append)
  qed
qed simp

section \<open>Removing\<close>

lemma layout_remove_absent:
  "layout_wf n \<Longrightarrow> p \<notin> set (layout_panes n) \<Longrightarrow> layout_remove (Some p) n = (n, False)"
  "list_all layout_wf cs \<Longrightarrow> p \<notin> set (forest_panes cs) \<Longrightarrow> remove_children (Some p) cs = (cs, False)"
proof (induction "Some p" n and "Some p" cs rule: layout_remove_remove_children.induct)
  case (1 q e cs)
  then show ?case
    by (cases q) auto
qed auto

lemma compact_split:
  assumes "list_all layout_wf cs" and "cs \<noteq> []"
  shows "layout_wf (compact (Layout_Node None d cs))
     \<and> layout_panes (compact (Layout_Node None d cs)) = forest_panes cs"
proof (cases cs)
  case (Cons c cs')
  with assms show ?thesis
    by (cases c; cases cs') (auto simp: compact_def)
qed (use assms in simp)

text \<open>The node a removal leaves is either empty, when the pane was the whole tree, or again
  well-formed and without the pane.\<close>

definition removed :: "'p layout_node \<Rightarrow> 'p \<Rightarrow> 'p layout_node \<Rightarrow> bool" where
  "removed n p n' =
     (if layout_panes n = [p] then node_pane n' = None \<and> node_children n' = []
      else layout_wf n' \<and> layout_panes n' = remove1 p (layout_panes n))"

lemma layout_wf_single: "layout_wf (Layout_Node None d cs) \<Longrightarrow> forest_panes cs \<noteq> [p]"
proof
  assume wf: "layout_wf (Layout_Node None d cs)" and p: "forest_panes cs = [p]"
  then obtain a b r where cs: "cs = a # b # r"
    by (cases cs; cases "tl cs") auto
  with wf have "layout_panes a \<noteq> []" "layout_panes b \<noteq> []"
    using layout_wf_panes by auto
  with p cs show False
    by (auto simp: append_eq_Cons_conv)
qed

lemma layout_wf_single_node:
  assumes "layout_wf n" and "layout_panes n = [p]"
  shows "\<exists>d. n = Layout_Node (Some p) d []"
proof (cases n)
  case (Layout_Node q d cs)
  have "q \<noteq> None"
  proof
    assume "q = None"
    then have "forest_panes cs = [p]"
      using assms(2) Layout_Node by simp
    then show False
      using layout_wf_single assms(1) Layout_Node \<open>q = None\<close> by metis
  qed
  with assms Layout_Node show ?thesis by auto
qed

lemma layout_wf_not_empty: "layout_wf n \<Longrightarrow> \<not> (node_pane n = None \<and> node_children n = [])"
  by (cases n) auto

lemma layout_remove_present:
  "layout_wf n \<Longrightarrow> p \<in> set (layout_panes n) \<Longrightarrow>
     \<exists>n'. layout_remove (Some p) n = (n', True) \<and> removed n p n'"
  "list_all layout_wf cs \<Longrightarrow> p \<in> set (forest_panes cs) \<Longrightarrow>
     \<exists>cs'. remove_children (Some p) cs = (cs', True) \<and> list_all layout_wf cs'
        \<and> length cs \<le> length cs' + 1 \<and> forest_panes cs' = remove1 p (forest_panes cs)"
proof (induction "Some p" n and "Some p" cs rule: layout_remove_remove_children.induct)
  case (1 q e cs)
  show ?case
  proof (cases q)
    case (Some q')
    with 1 show ?thesis
      by (auto simp: removed_def)
  next
    case None
    with 1 obtain cs' where cs': "remove_children (Some p) cs = (cs', True)"
      "list_all layout_wf cs'" "length cs \<le> length cs' + 1" "forest_panes cs' = remove1 p (forest_panes cs)"
      by auto
    moreover have "cs' \<noteq> []"
      using 1(2) None cs'(3) by auto
    moreover have "forest_panes cs \<noteq> [p]"
      using 1(2) unfolding None by (rule layout_wf_single)
    ultimately show ?thesis
      using compact_split[of cs' e] None by (auto simp: removed_def)
  qed
next
  case (3 c cs)
  show ?case
  proof (cases "p \<in> set (layout_panes c)")
    case True
    with 3 obtain c' where c': "layout_remove (Some p) c = (c', True)" "removed c p c'"
      by auto
    show ?thesis
    proof (cases "layout_panes c = [p]")
      case single: True
      with c' 3 show ?thesis
        by (auto simp: removed_def)
    next
      case False
      with c' have "layout_wf c'" and "layout_panes c' = remove1 p (layout_panes c)"
        by (auto simp: removed_def)
      with True 3 c' layout_wf_not_empty[OF \<open>layout_wf c'\<close>] show ?thesis
        by (auto simp: remove1_append)
    qed
  next
    case False
    then have r: "layout_remove (Some p) c = (c, False)"
      using 3 by (intro layout_remove_absent) simp_all
    then have "\<exists>cs'. remove_children (Some p) cs = (cs', True) \<and> list_all layout_wf cs'
        \<and> length cs \<le> length cs' + 1 \<and> forest_panes cs' = remove1 p (forest_panes cs)"
      using 3(2)[OF r[symmetric]] 3(3,4) False by simp
    with r False 3(3) show ?thesis
      by (auto simp: remove1_append)
  qed
qed simp

section \<open>The balanced grid\<close>

lemma ceil_sqrt_from_bounds:
  "n \<le> (c + fuel) * (c + fuel) \<Longrightarrow> (\<forall>d < c. d * d < n) \<Longrightarrow>
     n \<le> ceil_sqrt_from n c fuel * ceil_sqrt_from n c fuel \<and> (\<forall>d < ceil_sqrt_from n c fuel. d * d < n)"
proof (induction n c fuel rule: ceil_sqrt_from.induct)
  case (2 n c fuel)
  show ?case
  proof (cases "n \<le> c * c")
    case False
    then have "\<forall>d < Suc c. d * d < n"
      using 2(3) less_Suc_eq by auto
    with False 2 show ?thesis
      by simp
  qed (use 2 in simp)
qed simp

lemma ceil_sqrt_bounds: "n \<le> ceil_sqrt n * ceil_sqrt n" "d < ceil_sqrt n \<Longrightarrow> d * d < n"
  using ceil_sqrt_from_bounds[of n 0 n] by (auto simp: ceil_sqrt_def)

text \<open>
  Splitting the pane \<open>p\<close> of a well-formed page works exactly when the page shows \<open>p\<close>; the
  panes of the inserted node then follow \<open>p\<close>, all other panes stay in their order, and the page
  stays well-formed. Otherwise the page is unchanged.
\<close>

theorem split_layout_exact:
  assumes "layout_wf n" and "layout_wf next"
  shows "snd (split_layout (Some p) next d n) = (p \<in> set (layout_panes n))
     \<and> layout_wf (fst (split_layout (Some p) next d n))
     \<and> layout_panes (fst (split_layout (Some p) next d n)) =
         insert_after p (layout_panes next) (layout_panes n)"
proof (cases "p \<in> set (layout_panes n)")
  case True
  then show ?thesis
    using split_layout_present(1)[OF assms(1) True assms(2), of d] by auto
next
  case False
  then show ?thesis
    using split_layout_absent(1)[OF assms(1) False, of "next" d] assms(1)
    by (simp add: insert_after_absent)
qed

lemma split_layout_exact_witness:
  "layout_panes (fst (split_layout (Some 2) (pane_node 9) flex_row
       (Layout_Node None flex_column [pane_node (1::nat), pane_node 2, pane_node 3]))) = [1, 2, 9, 3]"
proof -
  have "layout_wf (Layout_Node None flex_column [pane_node (1::nat), pane_node 2, pane_node 3])"
    and "layout_wf (pane_node (9::nat))"
    by simp_all
  from split_layout_exact[OF this, of 2 flex_row] show ?thesis
    by simp
qed

text \<open>
  Removing the pane \<open>p\<close> from a well-formed page works exactly when the page shows \<open>p\<close>. The
  other panes stay in their order in a well-formed page again, where every split left with a
  single child is replaced by that child. Only the removal of the last pane leaves an empty node.
\<close>

theorem layout_remove_exact:
  assumes "layout_wf n"
  shows "snd (layout_remove (Some p) n) = (p \<in> set (layout_panes n))
     \<and> (if layout_panes n = [p]
        then node_pane (fst (layout_remove (Some p) n)) = None \<and> node_children (fst (layout_remove (Some p) n)) = []
        else layout_wf (fst (layout_remove (Some p) n))
           \<and> layout_panes (fst (layout_remove (Some p) n)) = remove1 p (layout_panes n))"
proof (cases "p \<in> set (layout_panes n)")
  case True
  then show ?thesis
    using layout_remove_present(1)[OF assms True] by (auto simp: removed_def)
next
  case False
  then show ?thesis
    using layout_remove_absent(1)[OF assms False] assms by (auto simp: remove1_idem)
qed

lemma layout_remove_exact_witness:
  "fst (layout_remove (Some 2) (Layout_Node None flex_column [pane_node (1::nat), pane_node 2])) = pane_node 1
   \<and> layout_panes (fst (layout_remove (Some 2) (Layout_Node None flex_column [pane_node (1::nat), pane_node 2]))) = [1]"
proof -
  have "layout_wf (Layout_Node None flex_column [pane_node (1::nat), pane_node 2])"
    by simp
  from layout_remove_exact[OF this, of 2] show ?thesis
    by (simp add: compact_def)
qed

lemma build_linear_layout_Some:
  "panes \<noteq> [] \<Longrightarrow> \<exists>n. build_linear_layout panes d = Some n \<and> layout_wf n \<and> layout_panes n = panes"
  by (cases panes; cases "tl panes")
    (auto simp: build_linear_layout_def list_all_iff comp_def)

text \<open>The number of panes of row \<open>i\<close> and later ones.\<close>

fun row_sizes :: "nat \<Rightarrow> nat \<Rightarrow> nat \<Rightarrow> nat \<Rightarrow> nat list" where
  "row_sizes i 0 base rest = []"
| "row_sizes i (Suc todo) base rest =
     (if i < rest then base + 1 else base) # row_sizes (i + 1) todo base rest"

lemma sum_row_sizes: "rest \<le> i + todo \<Longrightarrow> sum_list (row_sizes i todo base rest) = todo * base + (rest - i)"
  by (induction i todo base rest rule: row_sizes.induct) auto

lemma balanced_rows_exact:
  assumes "0 < base" and "length panes = sum_list (row_sizes i todo base rest)"
  shows "\<exists>rows. balanced_rows i todo base rest panes = map Some rows \<and> length rows = todo
     \<and> list_all layout_wf rows \<and> forest_panes rows = panes
     \<and> (\<forall>r \<in> set rows. length (layout_panes r) \<in> {base, if i < rest then base + 1 else base})"
  using assms
proof (induction i todo base rest panes rule: balanced_rows.induct)
  case (2 i todo base rest panes)
  let ?size = "if i < rest then base + 1 else base"
  have len: "?size \<le> length panes"
    using 2(3) by simp
  moreover have "0 < ?size"
    using 2(2) by simp
  ultimately have ne: "take ?size panes \<noteq> []"
    by auto
  obtain n where n: "build_linear_layout (take ?size panes) flex_column = Some n" "layout_wf n"
    "layout_panes n = take ?size panes"
    using build_linear_layout_Some[OF ne] by blast
  from 2 obtain rows where "balanced_rows (i + 1) todo base rest (drop ?size panes) = map Some rows"
    "length rows = todo" "list_all layout_wf rows" "forest_panes rows = drop ?size panes"
    "\<forall>r \<in> set rows. length (layout_panes r) \<in> {base, if i + 1 < rest then base + 1 else base}"
    by auto
  with n len show ?case
    by (intro exI[of _ "n # rows"]) (auto simp: Let_def min_def split: if_splits)
qed simp

lemma balanced_grid:
  assumes "panes \<noteq> []"
  shows "\<exists>n. build_balanced_layout panes d = Some n \<and> layout_wf n \<and> layout_panes n = panes
     \<and> (4 \<le> length panes \<longrightarrow> node_direction n = flex_row
          \<and> 2 \<le> length (node_children n) \<and> length (node_children n) \<le> ceil_sqrt (length panes)
          \<and> (\<exists>base > 0. \<forall>r \<in> set (node_children n). length (layout_panes r) \<in> {base, base + 1}
                \<and> length (layout_panes r) \<le> ceil_sqrt (length panes)))"
proof (cases "4 \<le> length panes")
  case False
  with assms show ?thesis
    using build_linear_layout_Some[OF assms, of flex_column]
    by (cases panes) (auto simp: build_balanced_layout_def)
next
  case True
  let ?n = "length panes" and ?c = "ceil_sqrt (length panes)"
  let ?rows = "(?n + ?c - 1) div ?c" and ?size = "length \<circ> layout_panes"
  have sq: "?n \<le> ?c * ?c"
    by (rule ceil_sqrt_bounds)
  have "2 \<le> ?c"
  proof (rule ccontr)
    assume "\<not> 2 \<le> ?c"
    then have "?c = 0 \<or> ?c = 1" by auto
    with sq True show False by auto
  qed
  have "?c < ?n"
  proof (rule ccontr)
    assume "\<not> ?c < ?n"
    then have "?n - 1 < ?c" using True by linarith
    then have "(?n - 1) * (?n - 1) < ?n"
      by (rule ceil_sqrt_bounds(2))
    moreover have "3 * (?n - 1) \<le> (?n - 1) * (?n - 1)"
      using True by (intro mult_le_mono) auto
    ultimately show False using True by linarith
  qed
  have r2: "2 \<le> ?rows"
    using \<open>?c < ?n\<close> \<open>2 \<le> ?c\<close> by (simp add: less_eq_div_iff_mult_less_eq)
  have rc: "?rows \<le> ?c"
  proof -
    have "?rows < ?c + 1"
      using sq \<open>2 \<le> ?c\<close> by (intro less_mult_imp_div_less) (simp add: algebra_simps)
    then show ?thesis by simp
  qed
  have holds_all: "?n \<le> ?rows * ?c"
    using div_mult_mod_eq[of "?n + ?c - 1" ?c] mod_less_divisor[of ?c "?n + ?c - 1"] \<open>2 \<le> ?c\<close> by linarith
  have base: "0 < ?n div ?rows"
    using rc \<open>?c < ?n\<close> r2 by (simp add: div_greater_zero_iff)
  have "?n = sum_list (row_sizes 0 ?rows (?n div ?rows) (?n mod ?rows))"
    using r2 by (subst sum_row_sizes) (auto simp: less_imp_le)
  then obtain rows where rows: "balanced_rows 0 ?rows (?n div ?rows) (?n mod ?rows) panes = map Some rows"
    "length rows = ?rows" "list_all layout_wf rows" "forest_panes rows = panes"
    "\<forall>r \<in> set rows. length (layout_panes r)
       \<in> {?n div ?rows, if 0 < ?n mod ?rows then ?n div ?rows + 1 else ?n div ?rows}"
    using balanced_rows_exact[OF base] by blast
  let ?node = "Layout_Node None flex_row rows"
  have "build_balanced_layout panes d = Some ?node"
    using True r2 rows(1) assms by (simp add: build_balanced_layout_def Let_def comp_def)
  moreover have "length (layout_panes r) \<le> ?c" if "r \<in> set rows" for r
  proof -
    have "?n = ?rows * (?n div ?rows) + ?n mod ?rows"
      by simp
    then have "?rows * (?n div ?rows) + ?n mod ?rows \<le> ?rows * ?c"
      using holds_all by simp
    then have "?n div ?rows \<le> ?c" "0 < ?n mod ?rows \<Longrightarrow> ?n div ?rows < ?c"
      using r2 mult_le_cancel1[of ?rows "?n div ?rows" ?c] mult_less_cancel1[of ?rows "?n div ?rows" ?c]
      by linarith+
    then show ?thesis
      using rows(5) that by (auto split: if_splits)
  qed
  ultimately show ?thesis
    using rows r2 rc base by (intro exI[of _ ?node]) (auto intro!: exI[of _ "?n div ?rows"] split: if_splits)
qed

lemma build_balanced_layout_panes:
  "panes \<noteq> [] \<Longrightarrow> \<exists>n. build_balanced_layout panes d = Some n \<and> layout_wf n \<and> layout_panes n = panes"
  using balanced_grid by blast

text \<open>
  C21. A page for several hosts starts with a well-formed layout that shows exactly its panes
  in their order; from four panes on it is a grid of \<open>rows\<close> rows of \<open>base\<close> or \<open>base + 1\<close> panes,
  with no row longer than the number of columns, the least whose square holds all panes.
\<close>

theorem build_balanced_layout_grid:
  assumes "panes \<noteq> []"
  shows "\<exists>n. build_balanced_layout panes d = Some n \<and> layout_wf n \<and> layout_panes n = panes
     \<and> (4 \<le> length panes \<longrightarrow> node_direction n = flex_row
          \<and> 2 \<le> length (node_children n) \<and> length (node_children n) \<le> ceil_sqrt (length panes)
          \<and> (\<exists>base > 0. \<forall>r \<in> set (node_children n). length (layout_panes r) \<in> {base, base + 1}
                \<and> length (layout_panes r) \<le> ceil_sqrt (length panes)))"
  using assms by (rule balanced_grid)

lemma build_balanced_layout_grid_witness:
  "\<exists>n. build_balanced_layout [1..<8] flex_column = Some n \<and> layout_panes n = [1..<8]
     \<and> map layout_panes (node_children n) = [[1, 2, 3], [4, 5], [6, 7::nat]]"
proof -
  have "[1..<8] \<noteq> ([] :: nat list)"
    by simp
  from build_balanced_layout_grid[OF this, of flex_column] obtain n
    where n: "build_balanced_layout [1..<8] flex_column = Some n" "layout_panes n = [1..<8]"
    by blast
  moreover have "map layout_panes (node_children (the (build_balanced_layout [1..<8] flex_column)))
      = [[1, 2, 3], [4, 5], [6, 7]]"
    by code_simp
  ultimately show ?thesis
    by auto
qed

end
