(* ===== verification/Mux_Manager.thy ===== *)
theory Mux_Manager
  imports Mux_Layout
begin

text \<open>
  The state machine of the terminal multiplexer, \<^verbatim>\<open>internal/mux/manager.go\<close> and the key
  dispatch of \<^verbatim>\<open>internal/mux/manager_input.go\<close>: pages of panes, the host selectors that are
  open, connections that are under way, and the events that change them. Panes and pages are
  references into two stores, as the pointers of the source. Widgets, colours and the status
  line are display only and left out.
\<close>

section \<open>State\<close>

record mux_pane =
  mp_id :: nat
  mp_server :: string
  mp_term :: bool        \<comment> \<open>\<open>p.term != nil\<close>\<close>
  mp_session :: bool     \<comment> \<open>\<open>p.session != nil\<close>\<close>
  mp_title :: string
  mp_transient :: bool
  mp_exited :: bool
  mp_exit_message :: string
  mp_failed :: bool
  mp_badge_label :: string

record mux_page =
  pg_name :: string
  pg_panes :: "nat list"
  pg_focus :: "nat option"
  pg_layout :: "nat layout_node option"

datatype selector_mode =
  Selector_Initial | Selector_New_Page | Selector_New_Pane | Selector_Split_Horizontal | Selector_Split_Vertical

text \<open>The variables the closures of an open selector have captured.\<close>

record selector =
  sel_mode :: selector_mode
  sel_pane :: "nat option"
  sel_page :: "nat option"
  sel_previous_focus :: "nat option"
  sel_previous_page :: "nat option"

record mux_config =
  mc_command :: "string list"
  mc_stdin_data :: string
  mc_hold :: bool
  mc_allow_layout_change :: bool

record manager =
  pane_at :: "nat \<Rightarrow> mux_pane"
  page_at :: "nat \<Rightarrow> mux_page"
  next_ref :: nat                         \<comment> \<open>references from here on are not allocated\<close>
  session_pages :: "nat list"
  current_page :: "nat option"
  selector_focus :: bool                  \<comment> \<open>\<open>m.selectorFocus != nil\<close>\<close>
  broadcast_all :: bool
  prefix_active :: bool
  next_page_id :: nat
  next_pane_id :: nat
  app_stopped :: bool
  connecting :: "(nat \<times> nat) list"       \<comment> \<open>page and pane of every connection under way\<close>
  terms_closed :: "nat list"              \<comment> \<open>panes whose terminal was asked to close\<close>
  stdin_sent :: "nat list"                \<comment> \<open>panes the standard input was copied to\<close>

definition upd_page :: "nat \<Rightarrow> (mux_page \<Rightarrow> mux_page) \<Rightarrow> manager \<Rightarrow> manager" where
  "upd_page pg f m = m\<lparr>page_at := (page_at m)(pg := f (page_at m pg))\<rparr>"

definition upd_pane :: "nat \<Rightarrow> (mux_pane \<Rightarrow> mux_pane) \<Rightarrow> manager \<Rightarrow> manager" where
  "upd_pane p f m = m\<lparr>pane_at := (pane_at m)(p := f (pane_at m p))\<rparr>"

definition the_page :: "manager \<Rightarrow> nat \<Rightarrow> mux_page" where
  "the_page m pg = page_at m pg"

fun index_in :: "'a \<Rightarrow> 'a list \<Rightarrow> nat option" where
  "index_in x [] = None"
| "index_in x (y # ys) = (if y = x then Some 0 else map_option Suc (index_in x ys))"

section \<open>Panes\<close>

definition pane_title :: "mux_config \<Rightarrow> mux_pane \<Rightarrow> string \<Rightarrow> string" where
  "pane_title c p remote_title =
     (if remote_title \<noteq> '''' then mp_server p @ '' ('' @ remote_title @ '')''
      else if mp_failed p then mp_server p @ '' [error]''
      else if mp_exited p then mp_server p @ '' [done]''
      else if mc_command c \<noteq> [] then mp_server p @ '' [cmd]''
      else mp_server p @ '' [shell]'')"

definition alloc_pane :: "mux_pane \<Rightarrow> manager \<Rightarrow> nat \<times> manager" where
  "alloc_pane p m = (next_ref m, m\<lparr>pane_at := (pane_at m)(next_ref m := p), next_ref := next_ref m + 1\<rparr>)"

definition new_pending_pane :: "string \<Rightarrow> manager \<Rightarrow> nat \<times> manager" where
  "new_pending_pane host m =
     (let (p, m) = alloc_pane
            \<lparr>mp_id = next_pane_id m, mp_server = host, mp_term = False, mp_session = False,
             mp_title = host @ '' [connecting]'', mp_transient = False, mp_exited = False,
             mp_exit_message = '''', mp_failed = False, mp_badge_label = ''''\<rparr> m
      in (p, m\<lparr>next_pane_id := next_pane_id m + 1\<rparr>))"

definition new_selector_pane :: "manager \<Rightarrow> nat \<times> manager" where
  "new_selector_pane m = alloc_pane
     \<lparr>mp_id = next_pane_id m, mp_server = ''selector'', mp_term = False, mp_session = False,
      mp_title = ''select hosts'', mp_transient = True, mp_exited = False,
      mp_exit_message = '''', mp_failed = False, mp_badge_label = ''''\<rparr> m"

definition start_pane_connect :: "nat \<Rightarrow> nat \<Rightarrow> manager \<Rightarrow> manager" where
  "start_pane_connect pg p m = m\<lparr>connecting := connecting m @ [(pg, p)]\<rparr>"

text \<open>\<open>has_input\<close>: the session of the connection offers a standard input.\<close>

definition activate_pane :: "mux_config \<Rightarrow> nat \<Rightarrow> bool \<Rightarrow> manager \<Rightarrow> manager" where
  "activate_pane c p has_input m =
     (let m = upd_pane p (\<lambda>q. q\<lparr>mp_session := True, mp_term := True, mp_failed := False,
                mp_exited := False, mp_exit_message := '''', mp_badge_label := ''''\<rparr>) m;
          m = upd_pane p (\<lambda>q. q\<lparr>mp_title := pane_title c q ''''\<rparr>) m
      in if mc_command c \<noteq> [] \<and> mc_stdin_data c \<noteq> '''' \<and> has_input
         then m\<lparr>stdin_sent := stdin_sent m @ [p]\<rparr> else m)"

definition replace_pane_with_error :: "nat \<Rightarrow> string \<Rightarrow> manager \<Rightarrow> manager" where
  "replace_pane_with_error p err m =
     upd_pane p (\<lambda>q. q\<lparr>mp_term := False, mp_session := False, mp_title := mp_server q @ '' [error]'',
       mp_failed := True, mp_exit_message := err, mp_exited := False, mp_badge_label := ''''\<rparr>) m"

section \<open>Pages\<close>

text \<open>The loop of \<open>createPage\<close> over the hosts; the page is not in the list of pages yet.\<close>

fun open_panes :: "nat \<Rightarrow> string list \<Rightarrow> manager \<Rightarrow> manager" where
  "open_panes pg [] m = m"
| "open_panes pg (host # hosts) m =
     (let (p, m) = new_pending_pane host m;
          m = upd_page pg (\<lambda>g. g\<lparr>pg_panes := pg_panes g @ [p]\<rparr>) m
      in open_panes pg hosts (start_pane_connect pg p m))"

definition alloc_page :: "mux_page \<Rightarrow> manager \<Rightarrow> nat \<times> manager" where
  "alloc_page g m = (next_ref m, m\<lparr>page_at := (page_at m)(next_ref m := g), next_ref := next_ref m + 1\<rparr>)"

definition create_page :: "string list \<Rightarrow> manager \<Rightarrow> manager" where
  "create_page hosts m =
     (let (pg, m) = alloc_page \<lparr>pg_name = ''page-'' @ decimal (next_page_id m), pg_panes = [],
                                pg_focus = None, pg_layout = None\<rparr> m;
          m = m\<lparr>next_page_id := next_page_id m + 1\<rparr>;
          m = open_panes pg hosts m;
          panes = pg_panes (page_at m pg)
      in if panes = [] then m
         else (let m = upd_page pg (\<lambda>g. g\<lparr>pg_focus := Some (panes ! 0),
                      pg_layout := (if length panes > 1 then build_balanced_layout panes flex_column
                                    else Some (pane_node (panes ! 0)))\<rparr>) m
               in m\<lparr>session_pages := session_pages m @ [pg], current_page := Some pg\<rparr>))"

fun new_pending_panes :: "string list \<Rightarrow> manager \<Rightarrow> nat list \<times> manager" where
  "new_pending_panes [] m = ([], m)"
| "new_pending_panes (host # hosts) m =
     (let (p, m) = new_pending_pane host m; (ps, m) = new_pending_panes hosts m in (p # ps, m))"

text \<open>The last loop of \<open>addPanesToCurrentPage\<close>.\<close>

fun append_panes :: "nat \<Rightarrow> nat list \<Rightarrow> manager \<Rightarrow> manager" where
  "append_panes pg [] m = m"
| "append_panes pg (p # ps) m =
     append_panes pg ps (start_pane_connect pg p
       (upd_page pg (\<lambda>g. g\<lparr>pg_panes := pg_panes g @ [p], pg_focus := Some p\<rparr>) m))"

definition new_panes_layout :: "nat list \<Rightarrow> int \<Rightarrow> nat layout_node option" where
  "new_panes_layout ps direction =
     (if length ps = 1 then Some (pane_node (ps ! 0)) else build_balanced_layout ps direction)"

text \<open>The error (if any) beside the new state.\<close>

definition add_panes_to_current_page :: "string list \<Rightarrow> int \<Rightarrow> manager \<Rightarrow> go_error option \<times> manager" where
  "add_panes_to_current_page hosts direction m =
     (case current_page m of None \<Rightarrow> (None, create_page hosts m)
      | Some pg \<Rightarrow>
          if hosts = [] then (None, m)
          else
            (let (ps, m) = new_pending_panes hosts m; next_layout = new_panes_layout ps direction
             in case pg_layout (page_at m pg) of
                  None \<Rightarrow> (None, append_panes pg ps (upd_page pg (\<lambda>g. g\<lparr>pg_layout := next_layout\<rparr>) m))
                | Some n \<Rightarrow>
                    (let (n', found) = split_layout (pg_focus (page_at m pg)) (the next_layout) direction n;
                         m = upd_page pg (\<lambda>g. g\<lparr>pg_layout := Some n'\<rparr>) m
                     in if found then (None, append_panes pg ps m)
                        else (Some (Go_Error False ''focused pane not found''),
                              m\<lparr>terms_closed := terms_closed m @ filter (\<lambda>p. mp_term (pane_at m p)) ps\<rparr>))))"

definition insert_transient_pane :: "nat \<Rightarrow> int \<Rightarrow> manager \<Rightarrow> go_error option \<times> manager" where
  "insert_transient_pane p direction m =
     (case current_page m of None \<Rightarrow> (Some (Go_Error False ''no current page''), m)
      | Some pg \<Rightarrow>
          (let m = m\<lparr>next_pane_id := next_pane_id m + 1\<rparr>;
               show_it = (\<lambda>n g. g\<lparr>pg_layout := Some n, pg_panes := pg_panes g @ [p], pg_focus := Some p\<rparr>)
           in case pg_layout (page_at m pg) of
                None \<Rightarrow> (None, upd_page pg (show_it (pane_node p)) m)
              | Some n \<Rightarrow>
                  (let (n', found) = layout_split (pg_focus (page_at m pg)) p direction n
                   in if found then (None, upd_page pg (show_it n') m)
                      else (Some (Go_Error False ''focused pane not found''), m))))"

definition page_without :: "nat \<Rightarrow> mux_page \<Rightarrow> mux_page" where
  "page_without p g = g\<lparr>pg_panes := remove1 p (pg_panes g),
     pg_layout := map_option (\<lambda>n. fst (layout_remove (Some p) n)) (pg_layout g)\<rparr>"

definition remove_transient_pane :: "nat option \<Rightarrow> nat option \<Rightarrow> manager \<Rightarrow> manager" where
  "remove_transient_pane target fallback m =
     (case (current_page m, target) of
        (Some pg, Some p) \<Rightarrow>
          upd_page pg (\<lambda>g. let g = page_without p g
             in g\<lparr>pg_focus := (case fallback of Some f \<Rightarrow> Some f
                    | None \<Rightarrow> if pg_panes g \<noteq> [] then Some (pg_panes g ! 0) else None)\<rparr>) m
      | _ \<Rightarrow> m)"

definition remove_page :: "nat option \<Rightarrow> nat option \<Rightarrow> manager \<Rightarrow> manager" where
  "remove_page target fallback m =
     (case target of None \<Rightarrow> m
      | Some pg \<Rightarrow>
          (let pages = remove1 pg (session_pages m)
           in m\<lparr>session_pages := pages,
                current_page := (case fallback of Some f \<Rightarrow> Some f
                  | None \<Rightarrow> if pages \<noteq> [] then Some (pages ! 0) else None)\<rparr>))"

definition remove_pane :: "nat \<Rightarrow> nat \<Rightarrow> manager \<Rightarrow> manager" where
  "remove_pane pg p m =
     (case index_in p (pg_panes (page_at m pg)) of None \<Rightarrow> m
      | Some index \<Rightarrow>
          (let m = upd_page pg (page_without p) m; g = page_at m pg
           in if pg_panes g = []
              then (let pages = remove1 pg (session_pages m); m = m\<lparr>session_pages := pages\<rparr>
                    in if pages = [] then m\<lparr>current_page := None, app_stopped := True\<rparr>
                       else m\<lparr>current_page := Some (pages ! 0)\<rparr>)
              else if pg_focus g = Some p
              then upd_page pg (\<lambda>g. g\<lparr>pg_focus := Some (pg_panes g !
                     (if length (pg_panes g) \<le> index then length (pg_panes g) - 1 else index))\<rparr>) m
              else m))"

section \<open>Selectors\<close>

definition selector_direction :: "selector_mode \<Rightarrow> int" where
  "selector_direction mode = (if mode = Selector_Split_Horizontal then flex_row else flex_column)"

text \<open>The outer \<open>None\<close> is a nil pointer dereference; \<open>None\<close> for the selector when it was not
  opened.\<close>

definition show_selector :: "selector_mode \<Rightarrow> manager \<Rightarrow> (selector option \<times> manager) option" where
  "show_selector mode m =
     (let s = \<lparr>sel_mode = mode, sel_pane = None, sel_page = None, sel_previous_focus = None,
               sel_previous_page = None\<rparr>
      in case mode of
           Selector_Initial \<Rightarrow> Some (Some s, m\<lparr>selector_focus := True\<rparr>)
         | Selector_New_Page \<Rightarrow>
             (let previous_page = current_page m; (p, m) = new_selector_pane m;
                  (pg, m) = alloc_page \<lparr>pg_name = ''page-'' @ decimal (next_page_id m), pg_panes = [p],
                              pg_focus = Some p, pg_layout = Some (pane_node p)\<rparr> m
              in Some (Some (s\<lparr>sel_pane := Some p, sel_page := Some pg, sel_previous_page := previous_page\<rparr>),
                       m\<lparr>next_page_id := next_page_id m + 1, session_pages := session_pages m @ [pg],
                         current_page := Some pg, selector_focus := True\<rparr>))
         | _ \<Rightarrow>
             (case current_page m of None \<Rightarrow> None
              | Some pg \<Rightarrow>
                  (let previous_focus = pg_focus (page_at m pg); (p, m) = new_selector_pane m;
                       (err, m) = insert_transient_pane p (selector_direction mode) m
                   in case err of
                        Some _ \<Rightarrow> Some (None, m)
                      | None \<Rightarrow> Some (Some (s\<lparr>sel_pane := Some p, sel_previous_focus := previous_focus\<rparr>),
                                      m\<lparr>selector_focus := True\<rparr>))))"

text \<open>What both closures do first.\<close>

definition close_selector :: "selector \<Rightarrow> manager \<Rightarrow> manager" where
  "close_selector s m =
     (let m = m\<lparr>selector_focus := False\<rparr>
      in if sel_page s \<noteq> None then remove_page (sel_page s) (sel_previous_page s) m
         else if sel_pane s \<noteq> None then remove_transient_pane (sel_pane s) (sel_previous_focus s) m
         else m)"

definition selector_done :: "selector \<Rightarrow> string list \<Rightarrow> manager \<Rightarrow> go_error option \<times> manager" where
  "selector_done s hosts m =
     (if hosts = [] then (None, m)
      else (let m = close_selector s m
            in case sel_mode s of
                 Selector_Initial \<Rightarrow> (None, create_page hosts m)
               | Selector_New_Page \<Rightarrow> (None, create_page hosts m)
               | Selector_New_Pane \<Rightarrow> add_panes_to_current_page hosts flex_column m
               | Selector_Split_Horizontal \<Rightarrow> add_panes_to_current_page hosts flex_row m
               | Selector_Split_Vertical \<Rightarrow> add_panes_to_current_page hosts flex_column m))"

definition selector_cancel :: "selector \<Rightarrow> manager \<Rightarrow> manager" where
  "selector_cancel s m =
     (let m = close_selector s m
      in if sel_mode s = Selector_Initial \<and> current_page m = None then m\<lparr>app_stopped := True\<rparr>
         else if (case current_page m of None \<Rightarrow> False | Some pg \<Rightarrow> pg_panes (page_at m pg) = [])
         then m\<lparr>app_stopped := True\<rparr>
         else m)"

section \<open>Other events\<close>

definition pane_connected :: "mux_config \<Rightarrow> nat \<Rightarrow> bool \<Rightarrow> manager \<Rightarrow> manager" where
  "pane_connected c p has_input m = activate_pane c p has_input m"

definition backend_exit :: "mux_config \<Rightarrow> nat \<Rightarrow> nat \<Rightarrow> string option \<Rightarrow> manager \<Rightarrow> manager" where
  "backend_exit c pg p err m =
     (if mc_hold c \<and> mc_command c \<noteq> []
      then upd_pane p (\<lambda>q. q\<lparr>mp_title := pane_title c q ''''\<rparr>)
            (upd_pane p (\<lambda>q. q\<lparr>mp_exited := True,
               mp_exit_message := (case err of Some e \<Rightarrow> e | None \<Rightarrow> ''completed''),
               mp_badge_label := ''DONE''\<rparr>) m)
      else remove_pane pg p m)"

definition find_page_index :: "nat option \<Rightarrow> manager \<Rightarrow> int" where
  "find_page_index target m =
     (case target of None \<Rightarrow> 0
      | Some pg \<Rightarrow> (case index_in pg (session_pages m) of None \<Rightarrow> 0 | Some i \<Rightarrow> int i))"

definition switch_page :: "int \<Rightarrow> manager \<Rightarrow> manager" where
  "switch_page index m =
     (let n = int (length (session_pages m));
          index = (if index < 0 then n - 1 else index);
          index = (if n \<le> index then 0 else index)
      in if session_pages m = [] then m
         else m\<lparr>current_page := Some (session_pages m ! nat index)\<rparr>)"

definition cycle_pane :: "manager \<Rightarrow> manager" where
  "cycle_pane m =
     (case current_page m of None \<Rightarrow> m
      | Some pg \<Rightarrow>
          (let panes = pg_panes (page_at m pg);
               current = (case pg_focus (page_at m pg) of None \<Rightarrow> 0
                 | Some f \<Rightarrow> (case index_in f panes of None \<Rightarrow> 0 | Some i \<Rightarrow> i))
           in if panes = [] then m
              else upd_page pg (\<lambda>g. g\<lparr>pg_focus := Some (panes ! ((current + 1) mod length panes))\<rparr>) m))"

definition close_focused_pane :: "manager \<Rightarrow> manager" where
  "close_focused_pane m =
     (case current_page m of None \<Rightarrow> m
      | Some pg \<Rightarrow>
          (case pg_focus (page_at m pg) of None \<Rightarrow> m
           | Some p \<Rightarrow>
               if mp_failed (pane_at m p) then remove_pane pg p m
               else if mp_exited (pane_at m p) then remove_pane pg p m
               else if \<not> mp_term (pane_at m p) then m
               else m\<lparr>terms_closed := terms_closed m @ [p]\<rparr>))"

text \<open>A click on a pane of the current page.\<close>

definition focus_pane :: "nat \<Rightarrow> manager \<Rightarrow> manager" where
  "focus_pane p m =
     (case current_page m of None \<Rightarrow> m
      | Some pg \<Rightarrow> if p \<in> set (pg_panes (page_at m pg))
                   then upd_page pg (\<lambda>g. g\<lparr>pg_focus := Some p\<rparr>) m else m)"

definition layout_change_allowed :: "mux_config \<Rightarrow> bool" where
  "layout_change_allowed c = (mc_command c = [] \<or> mc_allow_layout_change c)"

text \<open>The panes \<open>broadcastKey\<close> sends a key to.\<close>

definition broadcast_targets :: "manager \<Rightarrow> nat list" where
  "broadcast_targets m =
     (case current_page m of None \<Rightarrow> []
      | Some pg \<Rightarrow>
          (case pg_focus (page_at m pg) of None \<Rightarrow> []
           | Some f \<Rightarrow>
               concat (map (\<lambda>g. filter (\<lambda>p. \<not> mp_transient (pane_at m p) \<and> mp_term (pane_at m p) \<and> p \<noteq> f)
                                       (pg_panes (page_at m g)))
                           (session_pages m))))"

section \<open>Keys\<close>

datatype mux_key = Key_Ctrl_C | Key_Pg_Up | Key_Pg_Dn | Key_Other

text \<open>What the UI library returns for the key: the key itself, a replacement, or nothing.\<close>

datatype key_result = Key_Passed | Key_As_Esc | Key_As_Ctrl_C | Key_Consumed

text \<open>What \<open>captureInput\<close> asks the UI library: whether the selector's widget has the keyboard,
  whether a widget of the focused pane other than its terminal has it, and whether the focused
  terminal has lines to scroll back.\<close>

record input_env =
  ie_selector_has_focus :: bool
  ie_overlay_has_focus :: bool
  ie_local_scrollback :: bool

record key_outcome =
  ko_result :: key_result
  ko_broadcast :: "nat list"
  ko_selector :: "selector option"
  ko_state :: manager

definition broadcast_if :: "manager \<Rightarrow> nat list" where
  "broadcast_if m = (if broadcast_all m then broadcast_targets m else [])"

definition focused_transient :: "manager \<Rightarrow> bool" where
  "focused_transient m =
     (case current_page m of None \<Rightarrow> False
      | Some pg \<Rightarrow> (case pg_focus (page_at m pg) of None \<Rightarrow> False
                    | Some f \<Rightarrow> mp_transient (pane_at m f)))"

definition key_only :: "key_result \<Rightarrow> manager \<Rightarrow> key_outcome" where
  "key_only r m = \<lparr>ko_result = r, ko_broadcast = [], ko_selector = None, ko_state = m\<rparr>"

definition open_by_key :: "mux_config \<Rightarrow> selector_mode \<Rightarrow> manager \<Rightarrow> key_outcome option" where
  "open_by_key c mode m =
     (if \<not> layout_change_allowed c then Some (key_only Key_Consumed m)
      else map_option (\<lambda>(s, m). (key_only Key_Consumed m)\<lparr>ko_selector := s\<rparr>) (show_selector mode m))"

text \<open>The switch over the bindings, in the order of its cases; \<open>bound name\<close> tells whether the
  key matches the binding of that name.\<close>

definition prefixed_key :: "mux_config \<Rightarrow> (string \<Rightarrow> bool) \<Rightarrow> manager \<Rightarrow> key_outcome option" where
  "prefixed_key c bound m =
     (if bound ''new_page'' then open_by_key c Selector_New_Page m
      else if bound ''new_pane'' then open_by_key c Selector_New_Pane m
      else if bound ''split_horizontal'' then open_by_key c Selector_Split_Horizontal m
      else if bound ''split_vertical'' then open_by_key c Selector_Split_Vertical m
      else if bound ''next_pane'' then Some (key_only Key_Consumed (cycle_pane m))
      else if bound ''next_page'' then
        Some (key_only Key_Consumed (switch_page (find_page_index (current_page m) m + 1) m))
      else if bound ''prev_page'' then
        Some (key_only Key_Consumed (switch_page (find_page_index (current_page m) m - 1) m))
      else if bound ''page_list'' then Some (key_only Key_Consumed m)
      else if bound ''close_pane'' then Some (key_only Key_Consumed (close_focused_pane m))
      else if bound ''quit'' then Some (key_only Key_Consumed (m\<lparr>app_stopped := True\<rparr>))
      else if bound ''broadcast'' then
        Some (key_only Key_Consumed (m\<lparr>broadcast_all := \<not> broadcast_all m\<rparr>))
      else if bound ''transfer'' then Some (key_only Key_Consumed m)
      else Some (key_only Key_Passed m))"

definition capture_input ::
  "mux_config \<Rightarrow> input_env \<Rightarrow> mux_key \<Rightarrow> (string \<Rightarrow> bool) \<Rightarrow> manager \<Rightarrow> key_outcome option" where
  "capture_input c env key bound m =
     (let to_widget = key_only (if key = Key_Ctrl_C then Key_As_Esc else Key_Passed) m;
          to_pane = (\<lambda>r. Some ((key_only r m)\<lparr>ko_broadcast := broadcast_if m\<rparr>))
      in if selector_focus m \<and> (ie_selector_has_focus env \<or> focused_transient m) then Some to_widget
         else if ie_overlay_has_focus env then Some to_widget
         else if key = Key_Ctrl_C then to_pane Key_As_Ctrl_C
         else if (key = Key_Pg_Up \<or> key = Key_Pg_Dn) \<and> \<not> ie_local_scrollback env then to_pane Key_Passed
         else if key = Key_Pg_Up \<or> key = Key_Pg_Dn then Some (key_only Key_Consumed m)
         else if bound ''prefix'' then Some (key_only Key_Consumed (m\<lparr>prefix_active := True\<rparr>))
         else if \<not> prefix_active m then to_pane Key_Passed
         else prefixed_key c bound (m\<lparr>prefix_active := False\<rparr>))"

section \<open>Events\<close>

datatype mux_event =
  Open_Selector selector_mode
| Choose_Hosts nat "string list"      \<comment> \<open>in the open selector of this index\<close>
| Cancel_Selector nat
| Connected nat nat bool
| Connect_Failed nat nat string
| Exited nat nat "string option"
| Cycle
| Switch_Page int
| Close_Focused
| Click nat

type_synonym mux_state = "manager \<times> selector list"

text \<open>One event; \<open>None\<close> is a nil pointer dereference. An event that cannot happen in the state
  leaves it unchanged; a stopped application gets no events.\<close>

definition mux_event_step :: "mux_config \<Rightarrow> mux_event \<Rightarrow> mux_state \<Rightarrow> mux_state option" where
  "mux_event_step c ev st =
     (case st of (m, ss) \<Rightarrow>
       if app_stopped m then Some st else
       (case ev of
          Open_Selector mode \<Rightarrow>
            if mode = Selector_Initial \<or> \<not> layout_change_allowed c then Some (m, ss)
            else map_option (\<lambda>(s, m). (m, case s of None \<Rightarrow> ss | Some s \<Rightarrow> s # ss)) (show_selector mode m)
        | Choose_Hosts i hosts \<Rightarrow>
            if length ss \<le> i \<or> hosts = [] then Some (m, ss)
            else Some (snd (selector_done (ss ! i) hosts m), take i ss @ drop (Suc i) ss)
        | Cancel_Selector i \<Rightarrow>
            if length ss \<le> i then Some (m, ss)
            else Some (selector_cancel (ss ! i) m, take i ss @ drop (Suc i) ss)
        | Connected pg p has_input \<Rightarrow>
            if (pg, p) \<notin> set (connecting m) then Some (m, ss)
            else Some (pane_connected c p has_input (m\<lparr>connecting := remove1 (pg, p) (connecting m)\<rparr>), ss)
        | Connect_Failed pg p err \<Rightarrow>
            if (pg, p) \<notin> set (connecting m) then Some (m, ss)
            else Some (replace_pane_with_error p err (m\<lparr>connecting := remove1 (pg, p) (connecting m)\<rparr>), ss)
        | Exited pg p err \<Rightarrow> if mp_term (pane_at m p) then Some (backend_exit c pg p err m, ss) else Some (m, ss)
        | Cycle \<Rightarrow> Some (cycle_pane m, ss)
        | Switch_Page i \<Rightarrow> Some (switch_page i m, ss)
        | Close_Focused \<Rightarrow> Some (close_focused_pane m, ss)
        | Click p \<Rightarrow> Some (focus_pane p m, ss)))"

fun mux_run :: "mux_config \<Rightarrow> mux_event list \<Rightarrow> mux_state \<Rightarrow> mux_state option" where
  "mux_run c [] st = Some st"
| "mux_run c (ev # evs) st = (case mux_event_step c ev st of None \<Rightarrow> None | Some st' \<Rightarrow> mux_run c evs st')"

definition empty_manager :: manager where
  "empty_manager =
     \<lparr>pane_at = (\<lambda>_. \<lparr>mp_id = 0, mp_server = '''', mp_term = False, mp_session = False, mp_title = '''',
        mp_transient = False, mp_exited = False, mp_exit_message = '''', mp_failed = False, mp_badge_label = ''''\<rparr>),
      page_at = (\<lambda>_. \<lparr>pg_name = '''', pg_panes = [], pg_focus = None, pg_layout = None\<rparr>),
      next_ref = 0, session_pages = [], current_page = None, selector_focus = False,
      broadcast_all = False, prefix_active = False, next_page_id = 1, next_pane_id = 1,
      app_stopped = False, connecting = [], terms_closed = [], stdin_sent = []\<rparr>"

text \<open>\<open>Run\<close>: the hosts of the command line, or the initial selector.\<close>

definition mux_start :: "string list \<Rightarrow> mux_state" where
  "mux_start initial =
     (if initial \<noteq> [] then (create_page initial empty_manager, [])
      else (case show_selector Selector_Initial empty_manager of
              Some (Some s, m) \<Rightarrow> (m, [s]) | _ \<Rightarrow> (empty_manager, [])))"

end
