(* ===== verification/Mux_Invariant.thy ===== *)
theory Mux_Invariant
  imports Mux_Manager
begin

text \<open>
  What every state of the terminal multiplexer satisfies: each page shows exactly its panes in
  a well-formed layout and its focus is one of them. The invariant holds along every run in
  which no pane leaves a page while a host selector is open; a pane that does so breaks it.
\<close>

section \<open>The invariant\<close>

definition page_ok :: "mux_page \<Rightarrow> bool" where
  "page_ok g = (\<exists>n f. pg_layout g = Some n \<and> layout_wf n \<and> distinct (layout_panes n)
     \<and> set (layout_panes n) = set (pg_panes g) \<and> distinct (pg_panes g)
     \<and> pg_focus g = Some f \<and> f \<in> set (pg_panes g))"

definition pages_ok :: "manager \<Rightarrow> bool" where
  "pages_ok m = (distinct (session_pages m)
     \<and> (\<forall>pg \<in> set (session_pages m). pg < next_ref m \<and> page_ok (page_at m pg)
          \<and> (\<forall>p \<in> set (pg_panes (page_at m pg)). p < next_ref m)))"

definition mux_ok :: "manager \<Rightarrow> bool" where
  "mux_ok m = (pages_ok m
     \<and> (case current_page m of None \<Rightarrow> session_pages m = [] | Some pg \<Rightarrow> pg \<in> set (session_pages m)))"

definition selector_ok :: "manager \<Rightarrow> selector \<Rightarrow> bool" where
  "selector_ok m s =
     (case (sel_page s, sel_pane s) of
        (Some pg, _) \<Rightarrow> sel_mode s = Selector_New_Page \<and> current_page m = Some pg
          \<and> (\<exists>q. sel_previous_page s = Some q \<and> q \<noteq> pg \<and> q \<in> set (session_pages m))
      | (None, Some p) \<Rightarrow> sel_mode s \<in> {Selector_New_Pane, Selector_Split_Horizontal, Selector_Split_Vertical}
          \<and> (\<exists>pg f. current_page m = Some pg \<and> sel_previous_focus s = Some f
               \<and> {f, p} \<subseteq> set (pg_panes (page_at m pg)) \<and> f \<noteq> p)
      | (None, None) \<Rightarrow> sel_mode s = Selector_Initial \<and> session_pages m = [])"

definition mux_inv :: "mux_state \<Rightarrow> bool" where
  "mux_inv st = (case st of (m, ss) \<Rightarrow> mux_ok m
     \<and> (app_stopped m \<or> (ss = [] \<and> current_page m \<noteq> None) \<or> (\<exists>s. ss = [s] \<and> selector_ok m s)))"

text \<open>The events after which the open selectors still fit the state.\<close>

definition modal :: "mux_config \<Rightarrow> selector list \<Rightarrow> mux_event \<Rightarrow> bool" where
  "modal c ss ev =
     (ss = [] \<or> (case ev of Open_Selector _ \<Rightarrow> False | Exited _ _ _ \<Rightarrow> mc_hold c \<and> mc_command c \<noteq> []
                  | Close_Focused \<Rightarrow> False | Switch_Page _ \<Rightarrow> False | _ \<Rightarrow> True))"

fun modal_run :: "mux_config \<Rightarrow> mux_event list \<Rightarrow> mux_state \<Rightarrow> bool" where
  "modal_run c [] st = True"
| "modal_run c (ev # evs) st = (modal c (snd st) ev
     \<and> (case mux_event_step c ev st of None \<Rightarrow> True | Some st' \<Rightarrow> modal_run c evs st'))"

section \<open>Frames\<close>

lemma pages_ok_frame:
  assumes "pages_ok m" and "session_pages m' = session_pages m" and "next_ref m \<le> next_ref m'"
    and "\<And>pg. pg \<in> set (session_pages m) \<Longrightarrow> page_at m' pg = page_at m pg"
  shows "pages_ok m'"
  using assms unfolding pages_ok_def by fastforce

lemma pages_ok_upd:
  assumes "pages_ok m" and "session_pages m' = session_pages m" and "next_ref m \<le> next_ref m'"
    and "\<And>q. q \<in> set (session_pages m) \<Longrightarrow> q \<noteq> pg \<Longrightarrow> page_at m' q = page_at m q"
    and "pg \<in> set (session_pages m) \<Longrightarrow> page_ok (page_at m' pg)
           \<and> (\<forall>p \<in> set (pg_panes (page_at m' pg)). p < next_ref m')"
  shows "pages_ok m'"
  unfolding pages_ok_def
proof (intro conjI ballI)
  show "distinct (session_pages m')"
    using assms(1,2) by (simp add: pages_ok_def)
  fix q
  assume q: "q \<in> set (session_pages m')"
  then show "q < next_ref m'"
    using assms(1-3) by (auto simp: pages_ok_def)
  show "page_ok (page_at m' q)"
    using q assms by (cases "q = pg") (auto simp: pages_ok_def)
  show "p < next_ref m'" if "p \<in> set (pg_panes (page_at m' q))" for p
    using q that assms by (cases "q = pg") (fastforce simp: pages_ok_def)+
qed

lemma pages_ok_add:
  assumes "pages_ok m" and "session_pages m' = session_pages m @ [pg]" and "next_ref m \<le> next_ref m'"
    and "pg \<notin> set (session_pages m)" and "pg < next_ref m'"
    and "\<And>q. q \<in> set (session_pages m) \<Longrightarrow> page_at m' q = page_at m q"
    and "page_ok (page_at m' pg)" and "\<forall>p \<in> set (pg_panes (page_at m' pg)). p < next_ref m'"
  shows "pages_ok m'"
  using assms unfolding pages_ok_def by fastforce

lemma pages_ok_remove:
  assumes "pages_ok m" and "session_pages m' = remove1 pg (session_pages m)" and "next_ref m' = next_ref m"
    and "\<And>q. q \<in> set (session_pages m) \<Longrightarrow> q \<noteq> pg \<Longrightarrow> page_at m' q = page_at m q"
  shows "pages_ok m'"
  using assms unfolding pages_ok_def by (auto simp: distinct_remove1 set_remove1_eq)

lemma page_at_upd_page [simp]:
  "page_at (upd_page pg f m) q = (if q = pg then f (page_at m pg) else page_at m q)"
  by (simp add: upd_page_def)

lemma upd_page_simps [simp]:
  "session_pages (upd_page pg f m) = session_pages m" "current_page (upd_page pg f m) = current_page m"
  "next_ref (upd_page pg f m) = next_ref m" "pane_at (upd_page pg f m) = pane_at m"
  "app_stopped (upd_page pg f m) = app_stopped m" "connecting (upd_page pg f m) = connecting m"
  by (simp_all add: upd_page_def)

lemma upd_pane_simps [simp]:
  "session_pages (upd_pane p f m) = session_pages m" "current_page (upd_pane p f m) = current_page m"
  "next_ref (upd_pane p f m) = next_ref m" "page_at (upd_pane p f m) = page_at m"
  "app_stopped (upd_pane p f m) = app_stopped m"
  by (simp_all add: upd_pane_def)

text \<open>Two states that agree on what the invariant reads.\<close>

definition same_pages :: "manager \<Rightarrow> manager \<Rightarrow> bool" where
  "same_pages m m' = (session_pages m' = session_pages m \<and> current_page m' = current_page m
     \<and> page_at m' = page_at m \<and> next_ref m' = next_ref m \<and> app_stopped m' = app_stopped m)"

lemma same_pages_inv: "same_pages m m' \<Longrightarrow> mux_inv (m', ss) = mux_inv (m, ss)"
  by (simp add: same_pages_def mux_inv_def mux_ok_def pages_ok_def selector_ok_def
      cong del: option.case_cong_weak)

lemma same_pages_pane_events [simp]:
  "same_pages m (pane_connected c p b (m\<lparr>connecting := cs\<rparr>))"
  "same_pages m (replace_pane_with_error p err (m\<lparr>connecting := cs\<rparr>))"
  "mc_hold c \<and> mc_command c \<noteq> [] \<Longrightarrow> same_pages m (backend_exit c pg p e m)"
  by (simp_all add: same_pages_def pane_connected_def activate_pane_def replace_pane_with_error_def
      backend_exit_def Let_def)

section \<open>New panes and pages\<close>

lemma new_pending_pane_simps:
  "new_pending_pane host m = (p, m') \<Longrightarrow> p = next_ref m \<and> next_ref m' = Suc (next_ref m)
     \<and> page_at m' = page_at m \<and> session_pages m' = session_pages m \<and> current_page m' = current_page m
     \<and> app_stopped m' = app_stopped m"
  by (auto simp: new_pending_pane_def alloc_pane_def)

lemma upt_first: "[n ..< Suc (n + k)] = n # [Suc n ..< Suc (n + k)]"
  by (simp add: upt_conv_Cons del: upt_Suc)

lemma open_panes_facts:
  "pg_panes (page_at (open_panes pg hosts m) pg) =
     pg_panes (page_at m pg) @ [next_ref m ..< next_ref m + length hosts]
   \<and> (\<forall>q. q \<noteq> pg \<longrightarrow> page_at (open_panes pg hosts m) q = page_at m q)
   \<and> next_ref (open_panes pg hosts m) = next_ref m + length hosts
   \<and> session_pages (open_panes pg hosts m) = session_pages m
   \<and> app_stopped (open_panes pg hosts m) = app_stopped m"
proof (induction pg hosts m rule: open_panes.induct)
  case (2 pg host hosts m)
  obtain p m1 where p: "new_pending_pane host m = (p, m1)"
    by fastforce
  from 2[OF p[symmetric] refl refl] new_pending_pane_simps[OF p] show ?case
    by (simp add: p start_pane_connect_def upt_first del: upt_Suc)
qed simp


lemma page_ok_layout:
  assumes "ps \<noteq> []" and "distinct ps"
  shows "\<exists>n. (if length ps > 1 then build_balanced_layout ps d else Some (pane_node (ps ! 0))) = Some n
     \<and> layout_wf n \<and> layout_panes n = ps"
proof (cases "length ps > 1")
  case True
  then show ?thesis
    using build_balanced_layout_panes[OF assms(1), of d] by simp
next
  case False
  with assms(1) show ?thesis
    by (cases ps) auto
qed

lemma create_page_ok:
  assumes "pages_ok m" and "hosts \<noteq> []"
  shows "mux_ok (create_page hosts m) \<and> current_page (create_page hosts m) \<noteq> None
     \<and> app_stopped (create_page hosts m) = app_stopped m"
proof -
  let ?pg = "next_ref m"
  let ?m1 = "m\<lparr>page_at := (page_at m)(?pg := \<lparr>pg_name = ''page-'' @ decimal (next_page_id m), pg_panes = [],
      pg_focus = None, pg_layout = None\<rparr>), next_ref := ?pg + 1, next_page_id := next_page_id m + 1\<rparr>"
  define m2 where "m2 = open_panes ?pg hosts ?m1"
  define ps where "ps = pg_panes (page_at m2 ?pg)"
  have facts: "ps = [?pg + 1 ..< ?pg + 1 + length hosts]" "\<forall>q. q \<noteq> ?pg \<longrightarrow> page_at m2 q = page_at m q"
    "next_ref m2 = ?pg + 1 + length hosts" "session_pages m2 = session_pages m" "app_stopped m2 = app_stopped m"
    using open_panes_facts[of ?pg hosts ?m1] by (auto simp: m2_def ps_def)
  have ps: "ps \<noteq> []" "distinct ps"
    using assms(2) unfolding facts(1) by (cases hosts; simp del: upt_Suc)+
  then obtain n where n: "(if length ps > 1 then build_balanced_layout ps flex_column
      else Some (pane_node (ps ! 0))) = Some n" "layout_wf n" "layout_panes n = ps"
    using page_ok_layout by blast
  have "create_page hosts m =
     (if ps = [] then m2
      else (upd_page ?pg (\<lambda>g. g\<lparr>pg_focus := Some (ps ! 0),
              pg_layout := (if length ps > 1 then build_balanced_layout ps flex_column
                            else Some (pane_node (ps ! 0)))\<rparr>) m2)
             \<lparr>session_pages := session_pages m2 @ [?pg], current_page := Some ?pg\<rparr>)"
    by (simp add: create_page_def alloc_page_def Let_def ps_def m2_def)
  then have new: "create_page hosts m = (upd_page ?pg (\<lambda>g. g\<lparr>pg_focus := Some (ps ! 0), pg_layout := Some n\<rparr>) m2)
      \<lparr>session_pages := session_pages m @ [?pg], current_page := Some ?pg\<rparr>" (is "_ = ?m3")
    using ps(1) facts(4) unfolding n(1) by simp
  have "?pg \<notin> set (session_pages m)"
    using assms(1) by (auto simp: pages_ok_def)
  moreover have "page_ok (page_at ?m3 ?pg)"
    using n ps by (auto simp: page_ok_def ps_def[symmetric])
  ultimately have "pages_ok ?m3"
    using facts by (intro pages_ok_add[OF assms(1), of _ ?pg]) (auto simp: ps_def[symmetric])
  then show ?thesis
    using facts(5) by (simp add: new mux_ok_def)
qed

lemma new_pending_panes_facts:
  "new_pending_panes hosts m = (ps, m') \<Longrightarrow> ps = [next_ref m ..< next_ref m + length hosts]
     \<and> next_ref m' = next_ref m + length hosts \<and> page_at m' = page_at m
     \<and> session_pages m' = session_pages m \<and> current_page m' = current_page m \<and> app_stopped m' = app_stopped m"
proof (induction hosts m arbitrary: ps m' rule: new_pending_panes.induct)
  case (2 host hosts m)
  obtain p m1 where p: "new_pending_pane host m = (p, m1)"
    by fastforce
  obtain qs m2 where qs: "new_pending_panes hosts m1 = (qs, m2)"
    by fastforce
  from 2(1)[OF p[symmetric] refl qs] new_pending_pane_simps[OF p] 2(2) show ?case
    by (auto simp add: p qs upt_first simp del: upt_Suc)
qed simp

lemma new_pending_panes_connecting:
  "new_pending_panes hosts m = (ps, m') \<Longrightarrow> connecting m' = connecting m"
  by (induction hosts m arbitrary: ps m' rule: new_pending_panes.induct)
    (auto simp: new_pending_pane_def alloc_pane_def Let_def split: prod.splits)

lemma distinct_single: "distinct xs \<Longrightarrow> set xs = {x} \<Longrightarrow> xs = [x]"
  by (cases xs; cases "tl xs") auto

lemma append_panes_facts:
  "pg_panes (page_at (append_panes pg ps m) pg) = pg_panes (page_at m pg) @ ps
   \<and> (ps \<noteq> [] \<longrightarrow> pg_focus (page_at (append_panes pg ps m) pg) = Some (last ps))
   \<and> pg_layout (page_at (append_panes pg ps m) pg) = pg_layout (page_at m pg)
   \<and> (\<forall>q. q \<noteq> pg \<longrightarrow> page_at (append_panes pg ps m) q = page_at m q)
   \<and> next_ref (append_panes pg ps m) = next_ref m \<and> session_pages (append_panes pg ps m) = session_pages m
   \<and> current_page (append_panes pg ps m) = current_page m \<and> app_stopped (append_panes pg ps m) = app_stopped m"
  by (induction pg ps m rule: append_panes.induct) (auto simp: start_pane_connect_def)

lemma current_page_ok:
  assumes "mux_ok m" and "current_page m = Some pg"
  obtains n f where "pg_layout (page_at m pg) = Some n" and "layout_wf n" and "distinct (layout_panes n)"
    and "set (layout_panes n) = set (pg_panes (page_at m pg))" and "distinct (pg_panes (page_at m pg))"
    and "pg_focus (page_at m pg) = Some f" and "f \<in> set (pg_panes (page_at m pg))"
    and "\<forall>p \<in> set (pg_panes (page_at m pg)). p < next_ref m" and "pg \<in> set (session_pages m)"
    and "pages_ok m"
  using assms unfolding mux_ok_def pages_ok_def page_ok_def by fastforce

text \<open>Splitting the focused pane of a page by new panes.\<close>

lemma page_ok_split:
  assumes "pg_layout g = Some n" and "layout_wf n" and "distinct (layout_panes n)"
    and "set (layout_panes n) = set (pg_panes g)" and "distinct (pg_panes g)"
    and "f \<in> set (pg_panes g)" and "layout_wf new" and "set (layout_panes new) = set ps"
    and "distinct (layout_panes new)" and "distinct ps" and "set ps \<inter> set (pg_panes g) = {}"
    and "split_layout (Some f) new d n = (n', found)" and "f' \<in> set ps"
    and "pg_layout g' = Some n'" and "pg_panes g' = pg_panes g @ ps" and "pg_focus g' = Some f'"
  shows "found \<and> page_ok g'"
proof -
  have f: "f \<in> set (layout_panes n)"
    using assms(4,6) by simp
  have n': "found" "layout_wf n'" "layout_panes n' = insert_after f (layout_panes new) (layout_panes n)"
    using split_layout_present(1)[OF assms(2) f assms(7), of d] assms(12) by auto
  have "distinct (layout_panes n')" "set (layout_panes n') = set (pg_panes g) \<union> set ps"
    using n'(3) f assms by (auto simp: set_insert_after intro!: distinct_insert_after)
  with n' assms show ?thesis
    by (auto simp: page_ok_def)
qed


lemma new_panes_layout_Some:
  assumes "ps \<noteq> []" and "distinct ps"
  shows "\<exists>new. new_panes_layout ps d = Some new \<and> layout_wf new \<and> layout_panes new = ps"
proof (cases "length ps = 1")
  case True
  with assms show ?thesis
    by (cases ps) (auto simp: new_panes_layout_def)
next
  case False
  then show ?thesis
    using build_balanced_layout_panes[OF assms(1), of d] by (simp add: new_panes_layout_def)
qed

lemma add_panes_ok:
  assumes ok: "mux_ok m" and pg: "current_page m = Some pg" and hosts: "hosts \<noteq> []"
  shows "\<exists>m'. add_panes_to_current_page hosts d m = (None, m') \<and> mux_ok m' \<and> current_page m' = Some pg
     \<and> app_stopped m' = app_stopped m"
proof -
  obtain n f where page: "pg_layout (page_at m pg) = Some n" "layout_wf n" "distinct (layout_panes n)"
    "set (layout_panes n) = set (pg_panes (page_at m pg))" "distinct (pg_panes (page_at m pg))"
    "pg_focus (page_at m pg) = Some f" "f \<in> set (pg_panes (page_at m pg))"
    and old: "\<forall>p \<in> set (pg_panes (page_at m pg)). p < next_ref m" and mem: "pg \<in> set (session_pages m)"
    and pages: "pages_ok m"
    using current_page_ok[OF ok pg] by metis
  obtain ps m1 where new: "new_pending_panes hosts m = (ps, m1)"
    by fastforce
  note facts = new_pending_panes_facts[OF new]
  have ps: "ps \<noteq> []" "distinct ps" "set ps \<inter> set (pg_panes (page_at m pg)) = {}"
    using facts hosts old by (auto simp del: upt_Suc)
  obtain t where t: "new_panes_layout ps d = Some t" "layout_wf t" "layout_panes t = ps"
    using new_panes_layout_Some[OF ps(1,2)] by blast
  obtain n' found where split: "split_layout (Some f) t d n = (n', found)"
    by fastforce
  define m2 where "m2 = append_panes pg ps (upd_page pg (\<lambda>g. g\<lparr>pg_layout := Some n'\<rparr>) m1)"
  note facts2 = append_panes_facts[of pg ps "upd_page pg (\<lambda>g. g\<lparr>pg_layout := Some n'\<rparr>) m1", folded m2_def]
  have "page_at m1 = page_at m"
    using facts by simp
  then have page2: "found \<and> page_ok (page_at m2 pg)"
    using facts2 ps(1)
    by (intro page_ok_split[where f' = "last ps", OF page(1-5,7) t(2) _ _ ps(2,3) split])
      (simp_all add: t(3) ps(2))
  have "\<forall>p \<in> set (pg_panes (page_at m2 pg)). p < next_ref m2"
    using facts facts2 old by (fastforce simp del: upt_Suc)
  then have "pages_ok m2"
    using facts facts2 page2 by (intro pages_ok_upd[OF pages, of _ pg]) auto
  then have "mux_ok m2"
    using facts facts2 mem pg by (simp add: mux_ok_def)
  moreover have "add_panes_to_current_page hosts d m = (None, m2)"
    using \<open>page_at m1 = page_at m\<close> page2 hosts
    by (simp add: add_panes_to_current_page_def pg new t(1) page(1,6) split m2_def Let_def)
  ultimately show ?thesis
    using facts facts2 pg by simp
qed

lemma insert_transient_ok:
  assumes ok: "mux_ok m" and pg: "current_page m = Some pg" and p: "p < next_ref m"
    and fresh: "p \<notin> set (pg_panes (page_at m pg))"
  shows "\<exists>m'. insert_transient_pane p d m = (None, m') \<and> mux_ok m' \<and> current_page m' = Some pg
     \<and> app_stopped m' = app_stopped m \<and> pg_panes (page_at m' pg) = pg_panes (page_at m pg) @ [p]"
proof -
  obtain n f where page: "pg_layout (page_at m pg) = Some n" "layout_wf n" "distinct (layout_panes n)"
    "set (layout_panes n) = set (pg_panes (page_at m pg))" "distinct (pg_panes (page_at m pg))"
    "pg_focus (page_at m pg) = Some f" "f \<in> set (pg_panes (page_at m pg))"
    and old: "\<forall>p \<in> set (pg_panes (page_at m pg)). p < next_ref m" and mem: "pg \<in> set (session_pages m)"
    and pages: "pages_ok m"
    using current_page_ok[OF ok pg] by metis
  obtain n' found where split: "split_layout (Some f) (pane_node p) d n = (n', found)"
    by fastforce
  define g' where "g' = (page_at m pg)\<lparr>pg_layout := Some n', pg_panes := pg_panes (page_at m pg) @ [p], pg_focus := Some p\<rparr>"
  have page2: "found \<and> page_ok g'"
    using fresh by (intro page_ok_split[where ps = "[p]" and f' = p, OF page(1-5,7) _ _ _ _ _ split]) (auto simp: g'_def)
  define m2 where "m2 = upd_page pg (\<lambda>g. g\<lparr>pg_layout := Some n', pg_panes := pg_panes g @ [p], pg_focus := Some p\<rparr>)
     (m\<lparr>next_pane_id := next_pane_id m + 1\<rparr>)"
  have g: "page_at m2 pg = g'"
    by (simp add: m2_def g'_def)
  then have "pages_ok m2"
    using page2 p old by (intro pages_ok_upd[OF pages, of _ pg]) (auto simp: m2_def g'_def)
  then have "mux_ok m2"
    using mem pg by (simp add: mux_ok_def m2_def)
  moreover have "insert_transient_pane p d m = (None, m2)"
    using page2 by (simp add: insert_transient_pane_def layout_split_def pg page(1,6) split m2_def)
  ultimately show ?thesis
    using pg g by (simp add: m2_def g'_def)
qed

lemma show_selector_ok:
  assumes ok: "mux_ok m" and pg: "current_page m = Some pg" and mode: "mode \<noteq> Selector_Initial"
  shows "\<exists>s m'. show_selector mode m = Some (Some s, m') \<and> mux_ok m' \<and> selector_ok m' s
     \<and> current_page m' \<noteq> None \<and> app_stopped m' = app_stopped m"
proof (cases "mode = Selector_New_Page")
  case True
  define m' where "m' = snd (the (show_selector mode m))"
  define s where "s = the (fst (the (show_selector mode m)))"
  have mem: "pg \<in> set (session_pages m)" and pages: "pages_ok m"
    using ok pg by (auto simp: mux_ok_def)
  have r: "show_selector mode m = Some (Some s, m')"
    by (simp add: show_selector_def True m'_def s_def new_selector_pane_def alloc_pane_def alloc_page_def Let_def)
  have m': "session_pages m' = session_pages m @ [Suc (next_ref m)]" "next_ref m' = Suc (Suc (next_ref m))"
    "current_page m' = Some (Suc (next_ref m))" "app_stopped m' = app_stopped m"
    "\<forall>q. q \<noteq> Suc (next_ref m) \<longrightarrow> page_at m' q = page_at m q"
    "pg_panes (page_at m' (Suc (next_ref m))) = [next_ref m]" "page_ok (page_at m' (Suc (next_ref m)))"
    by (simp_all add: show_selector_def True m'_def new_selector_pane_def alloc_pane_def alloc_page_def
        Let_def page_ok_def)
  have "Suc (next_ref m) \<notin> set (session_pages m)" "pg \<noteq> Suc (next_ref m)"
    using pages mem by (auto simp: pages_ok_def)
  moreover have "sel_page s = Some (Suc (next_ref m))" "sel_mode s = Selector_New_Page" "sel_previous_page s = Some pg"
    by (simp_all add: show_selector_def True s_def new_selector_pane_def alloc_pane_def alloc_page_def Let_def pg)
  moreover from calculation have "pages_ok m'"
    using m' pages by (intro pages_ok_add[OF pages m'(1)]) (auto simp: pages_ok_def)
  ultimately show ?thesis
    using r m' mem by (auto simp: mux_ok_def selector_ok_def)
next
  case False
  obtain f where f: "pg_focus (page_at m pg) = Some f" "f \<in> set (pg_panes (page_at m pg))"
    and old: "\<forall>p \<in> set (pg_panes (page_at m pg)). p < next_ref m" and mem: "pg \<in> set (session_pages m)"
    and pages: "pages_ok m"
    using current_page_ok[OF ok pg] by metis
  obtain p m1 where new: "new_selector_pane m = (p, m1)"
    by fastforce
  then have m1: "p = next_ref m" "next_ref m1 = Suc p" "page_at m1 = page_at m" "session_pages m1 = session_pages m"
    "current_page m1 = Some pg" "app_stopped m1 = app_stopped m"
    using pg by (auto simp: new_selector_pane_def alloc_pane_def)
  then have "mux_ok m1"
    using ok pg pages_ok_frame[of m m1] by (simp add: mux_ok_def)
  moreover have "p \<notin> set (pg_panes (page_at m1 pg))"
    using m1 old by auto
  ultimately obtain m2 where m2: "insert_transient_pane p (selector_direction mode) m1 = (None, m2)" "mux_ok m2"
    "current_page m2 = Some pg" "app_stopped m2 = app_stopped m1"
    "pg_panes (page_at m2 pg) = pg_panes (page_at m1 pg) @ [p]"
    using insert_transient_ok[of m1 pg p "selector_direction mode"] m1 by auto
  let ?s = "\<lparr>sel_mode = mode, sel_pane = Some p, sel_page = None, sel_previous_focus = Some f, sel_previous_page = None\<rparr>"
  have "show_selector mode m = Some (Some ?s, m2\<lparr>selector_focus := True\<rparr>)"
    using mode False m2(1) by (cases mode) (simp_all add: show_selector_def Let_def pg new f(1))
  moreover have "f \<noteq> p"
    using f(2) old m1(1) by auto
  then have "selector_ok (m2\<lparr>selector_focus := True\<rparr>) ?s"
    using mode False f(2) m2 m1 by (cases mode) (auto simp: selector_ok_def)
  moreover have "mux_ok (m2\<lparr>selector_focus := True\<rparr>)"
    using m2(2) by (simp add: mux_ok_def pages_ok_def cong del: option.case_cong_weak)
  ultimately show ?thesis
    using m2 m1 by simp
qed


section \<open>Removing panes and pages\<close>

lemma page_ok_without:
  assumes "page_ok g" and "p \<in> set (pg_panes g)" and "f \<in> set (pg_panes g)" and "f \<noteq> p"
  shows "page_ok ((page_without p g)\<lparr>pg_focus := Some f\<rparr>)"
proof -
  obtain n where n: "pg_layout g = Some n" "layout_wf n" "distinct (layout_panes n)"
    "set (layout_panes n) = set (pg_panes g)" "distinct (pg_panes g)"
    using assms(1) by (auto simp: page_ok_def)
  obtain n' where n': "layout_remove (Some p) n = (n', True)" "removed n p n'"
    using layout_remove_present(1)[OF n(2), of p] assms(2) n(4) by auto
  have "layout_panes n \<noteq> [p]"
    using assms(2-4) n(4) by (metis list.set(1) list.simps(15) singletonD)
  then have "layout_wf n'" "layout_panes n' = remove1 p (layout_panes n)"
    using n'(2) by (auto simp: removed_def)
  then show ?thesis
    using n assms n'(1) by (auto simp: page_ok_def page_without_def)
qed

lemma index_in_bounds: "index_in x xs = Some i \<Longrightarrow> i < length xs \<and> xs ! i = x"
  by (induction x xs arbitrary: i rule: index_in.induct) (auto split: if_splits)

lemma index_in_None: "index_in x xs = None \<longleftrightarrow> x \<notin> set xs"
  by (induction x xs rule: index_in.induct) auto

lemma remove_pane_ok:
  assumes ok: "mux_ok m" and current: "current_page m \<noteq> None"
  shows "mux_ok (remove_pane pg p m)
     \<and> (app_stopped (remove_pane pg p m) \<or> current_page (remove_pane pg p m) \<noteq> None)"
proof (cases "index_in p (pg_panes (page_at m pg))")
  case None
  with assms show ?thesis
    by (simp add: remove_pane_def)
next
  case (Some i)
  then have p: "p \<in> set (pg_panes (page_at m pg))"
    using index_in_None[of p "pg_panes (page_at m pg)"] by auto
  have pages: "pages_ok m"
    using ok by (simp add: mux_ok_def)
  let ?g = "page_without p (page_at m pg)"
  let ?m1 = "upd_page pg (page_without p) m"
  show ?thesis
  proof (cases "pg_panes ?g = []")
    case True
    let ?rest = "remove1 pg (session_pages m)"
    let ?m2 = "if ?rest = [] then ?m1\<lparr>session_pages := ?rest, current_page := None, app_stopped := True\<rparr>
               else ?m1\<lparr>session_pages := ?rest, current_page := Some (?rest ! 0)\<rparr>"
    have r: "remove_pane pg p m = ?m2"
      using True by (simp add: remove_pane_def Some Let_def)
    have "pages_ok ?m2"
      by (intro pages_ok_remove[OF pages, of _ pg]) auto
    then show ?thesis
      by (simp add: r mux_ok_def)
  next
    case False
    define focus where "focus = (if pg_focus ?g = Some p
        then Some (pg_panes ?g ! (if length (pg_panes ?g) \<le> i then length (pg_panes ?g) - 1 else i))
        else pg_focus ?g)"
    have "page_at (remove_pane pg p m) = (page_at m)(pg := ?g\<lparr>pg_focus := focus\<rparr>)"
      and frame: "session_pages (remove_pane pg p m) = session_pages m"
      "current_page (remove_pane pg p m) = current_page m" "next_ref (remove_pane pg p m) = next_ref m"
      using False by (auto simp: remove_pane_def Some Let_def focus_def upd_page_def)
    moreover have "page_ok (?g\<lparr>pg_focus := focus\<rparr>)" if "pg \<in> set (session_pages m)"
    proof -
      have g: "page_ok (page_at m pg)"
        using pages that by (simp add: pages_ok_def)
      then obtain f where f: "pg_focus (page_at m pg) = Some f" "f \<in> set (pg_panes (page_at m pg))"
        and dist: "distinct (pg_panes (page_at m pg))"
        by (auto simp: page_ok_def)
      have "pg_panes ?g ! (if length (pg_panes ?g) \<le> i then length (pg_panes ?g) - 1 else i) \<in> set (pg_panes ?g)"
        using False by (intro nth_mem) (auto simp: not_le)
      moreover have "pg_focus ?g = Some f" "f \<noteq> p \<Longrightarrow> f \<in> set (pg_panes ?g)"
        using f by (simp_all add: page_without_def)
      ultimately obtain f' where "focus = Some f'" "f' \<in> set (pg_panes ?g)"
        unfolding focus_def by (cases "f = p") auto
      then have "focus = Some f'" "f' \<in> set (pg_panes (page_at m pg))" "f' \<noteq> p"
        using dist by (auto simp: page_without_def set_remove1_eq)
      then show ?thesis
        using page_ok_without[OF g p] by simp
    qed
    moreover have "\<forall>q \<in> set (pg_panes ?g). q < next_ref m" if "pg \<in> set (session_pages m)"
      using pages that by (auto simp: pages_ok_def page_without_def dest: subsetD[OF set_remove1_subset])
    ultimately have "pages_ok (remove_pane pg p m)"
      by (intro pages_ok_upd[OF pages, of _ pg]) simp_all
    then show ?thesis
      using ok current frame by (simp add: mux_ok_def cong del: option.case_cong_weak)
  qed
qed

lemma close_selector_ok:
  assumes ok: "mux_ok m" and s: "selector_ok m s"
  shows "mux_ok (close_selector s m) \<and> app_stopped (close_selector s m) = app_stopped m
     \<and> (sel_mode s \<notin> {Selector_Initial, Selector_New_Page} \<longrightarrow> current_page (close_selector s m) \<noteq> None)
     \<and> (sel_mode s = Selector_New_Page \<longrightarrow> current_page (close_selector s m) \<noteq> None)"
proof (cases "sel_page s")
  case (Some pg)
  have pages: "pages_ok m" "distinct (session_pages m)"
    using ok by (auto simp: mux_ok_def pages_ok_def)
  have "pages_ok (close_selector s m)"
    using Some by (intro pages_ok_remove[OF pages(1), of _ pg]) (auto simp: close_selector_def remove_page_def Let_def)
  moreover have "q \<in> set (remove1 pg (session_pages m))" if "sel_previous_page s = Some q" for q
    using Some s pages(2) that by (auto simp: selector_ok_def set_remove1_eq)
  ultimately show ?thesis
    using Some s
    by (auto simp: mux_ok_def selector_ok_def close_selector_def remove_page_def Let_def)
next
  case None
  show ?thesis
  proof (cases "sel_pane s")
    case None
    with \<open>sel_page s = None\<close> s ok show ?thesis
      by (auto simp: close_selector_def selector_ok_def mux_ok_def pages_ok_def split: option.splits)
  next
    case (Some p)
    then obtain pg f where pg: "current_page m = Some pg" "sel_previous_focus s = Some f"
      "f \<in> set (pg_panes (page_at m pg))" "p \<in> set (pg_panes (page_at m pg))" "f \<noteq> p"
      using s \<open>sel_page s = None\<close> by (auto simp: selector_ok_def)
    then have mem: "pg \<in> set (session_pages m)" and pages: "pages_ok m"
      using ok by (auto simp: mux_ok_def)
    let ?g = "(page_without p (page_at m pg))\<lparr>pg_focus := Some f\<rparr>"
    let ?m1 = "upd_page pg (\<lambda>g. (page_without p g)\<lparr>pg_focus := Some f\<rparr>) (m\<lparr>selector_focus := False\<rparr>)"
    have r: "close_selector s m = ?m1"
      using Some \<open>sel_page s = None\<close> pg by (simp add: close_selector_def remove_transient_pane_def Let_def)
    have "page_ok ?g"
      using pages mem pg by (intro page_ok_without) (auto simp: pages_ok_def)
    moreover have "\<forall>q \<in> set (pg_panes ?g). q < next_ref m"
      using pages mem by (auto simp: pages_ok_def page_without_def dest: subsetD[OF set_remove1_subset])
    ultimately have "pages_ok ?m1"
      by (intro pages_ok_upd[OF pages, of _ pg]) simp_all
    then show ?thesis
      using mem pg(1) by (simp add: r mux_ok_def)
  qed
qed


section \<open>The invariant along runs\<close>

lemma current_page_event_ok:
  assumes "mux_inv (m, ss)" and "\<And>pg. current_page m = Some pg \<Longrightarrow> m' = m \<or>
     (\<exists>f \<in> set (pg_panes (page_at m pg)). m' = upd_page pg (\<lambda>g. g\<lparr>pg_focus := Some f\<rparr>) m)"
    and "current_page m = None \<Longrightarrow> m' = m"
  shows "mux_inv (m', ss)"
proof (cases "m' = m")
  case False
  then obtain pg f where pg: "current_page m = Some pg" "f \<in> set (pg_panes (page_at m pg))"
    and m': "m' = upd_page pg (\<lambda>g. g\<lparr>pg_focus := Some f\<rparr>) m"
    using assms(2,3) by (cases "current_page m") auto
  have ok: "mux_ok m" and mem: "pg \<in> set (session_pages m)" and pages: "pages_ok m"
    using assms(1) pg(1) by (auto simp: mux_inv_def mux_ok_def)
  have "pages_ok m'"
    using pages mem pg(2) unfolding m' by (intro pages_ok_upd[OF pages, of _ pg]) (auto simp: pages_ok_def page_ok_def)
  then have "mux_ok m'"
    using mem pg(1) by (simp add: mux_ok_def m')
  moreover have "selector_ok m' s = selector_ok m s" for s
    by (cases "sel_page s"; cases "sel_pane s") (auto simp: selector_ok_def m' split: if_splits)
  ultimately show ?thesis
    using assms(1) by (simp add: mux_inv_def m')
qed (use assms in simp)

lemma cycle_pane_ok: "mux_inv (m, ss) \<Longrightarrow> mux_inv (cycle_pane m, ss)"
proof (erule current_page_event_ok)
  fix pg
  assume pg: "current_page m = Some pg"
  let ?ps = "pg_panes (page_at m pg)"
  show "cycle_pane m = m \<or> (\<exists>f \<in> set ?ps. cycle_pane m = upd_page pg (\<lambda>g. g\<lparr>pg_focus := Some f\<rparr>) m)"
  proof (cases "?ps = []")
    case False
    have "?ps ! (i mod length ?ps) \<in> set ?ps" for i
      using False by (intro nth_mem) simp
    moreover have "\<exists>i. cycle_pane m = upd_page pg (\<lambda>g. g\<lparr>pg_focus := Some (?ps ! (i mod length ?ps))\<rparr>) m"
      unfolding cycle_pane_def pg option.case Let_def if_not_P[OF False] by (intro exI) (rule refl)
    ultimately show ?thesis
      by blast
  qed (simp add: cycle_pane_def pg)
qed (simp add: cycle_pane_def)

lemma focus_pane_ok: "mux_inv (m, ss) \<Longrightarrow> mux_inv (focus_pane p m, ss)"
  by (erule current_page_event_ok) (auto simp: focus_pane_def)

lemma selector_done_ok:
  assumes ok: "mux_ok m" and s: "selector_ok m s" and hosts: "hosts \<noteq> []"
  shows "mux_ok (snd (selector_done s hosts m))
     \<and> (app_stopped (snd (selector_done s hosts m)) \<or> current_page (snd (selector_done s hosts m)) \<noteq> None)
     \<and> (app_stopped m \<or> fst (selector_done s hosts m) = None)"
proof -
  note closed = close_selector_ok[OF ok s]
  have page: "mux_ok (create_page hosts (close_selector s m)) \<and> current_page (create_page hosts (close_selector s m)) \<noteq> None"
    using closed create_page_ok[OF _ hosts, of "close_selector s m"] by (simp add: mux_ok_def)
  show ?thesis
  proof (cases "sel_mode s \<in> {Selector_Initial, Selector_New_Page}")
    case True
    with page hosts show ?thesis
      by (auto simp: selector_done_def)
  next
    case False
    then obtain pg where pg: "current_page (close_selector s m) = Some pg"
      using closed by auto
    have "\<exists>m'. add_panes_to_current_page hosts d (close_selector s m) = (None, m') \<and> mux_ok m'
       \<and> current_page m' = Some pg" for d
      using add_panes_ok[OF conjunct1[OF closed] pg hosts, of d] by blast
    from this[of flex_column] this[of flex_row] False hosts show ?thesis
      by (cases "sel_mode s") (auto simp: selector_done_def Let_def)
  qed
qed

lemma selector_cancel_ok:
  assumes ok: "mux_ok m" and s: "selector_ok m s"
  shows "mux_ok (selector_cancel s m)
     \<and> (app_stopped (selector_cancel s m) \<or> current_page (selector_cancel s m) \<noteq> None)"
proof -
  note closed = close_selector_ok[OF ok s]
  let ?m = "close_selector s m"
  have stop: "mux_ok (?m\<lparr>app_stopped := True\<rparr>)"
    using closed by (simp add: mux_ok_def pages_ok_def cong del: option.case_cong_weak)
  show ?thesis
  proof (cases "sel_mode s = Selector_Initial \<and> current_page ?m = None")
    case True
    then have "selector_cancel s m = ?m\<lparr>app_stopped := True\<rparr>"
      unfolding selector_cancel_def Let_def by simp
    with stop show ?thesis by simp
  next
    case False
    then have "current_page ?m \<noteq> None"
      using closed by (cases "sel_mode s") simp_all
    moreover have "selector_cancel s m = ?m \<or> selector_cancel s m = ?m\<lparr>app_stopped := True\<rparr>"
      unfolding selector_cancel_def Let_def by simp
    ultimately show ?thesis
      using stop closed by (elim disjE) simp_all
  qed
qed


lemma mux_inv_closed: "mux_ok m \<Longrightarrow> app_stopped m \<or> current_page m \<noteq> None \<Longrightarrow> mux_inv (m, [])"
  by (auto simp: mux_inv_def)

lemma mux_inv_same: "same_pages m m' \<Longrightarrow> mux_inv (m, ss) \<Longrightarrow> mux_inv (m', ss)"
  using same_pages_inv by blast

lemma switch_page_ok:
  assumes "mux_ok m" and "current_page m \<noteq> None"
  shows "mux_inv (switch_page i m, [])"
proof (cases "session_pages m = []")
  case True
  with assms show ?thesis
    by (auto simp: switch_page_def mux_inv_def)
next
  case False
  let ?n = "int (length (session_pages m))"
  let ?i = "if i < 0 then ?n - 1 else i"
  let ?j = "if ?n \<le> ?i then 0 else ?i"
  have "nat ?j < length (session_pages m)"
    using False by (cases "session_pages m") (auto simp: nat_less_iff)
  moreover have "switch_page i m = m\<lparr>current_page := Some (session_pages m ! nat ?j)\<rparr>"
    using False by (simp add: switch_page_def Let_def)
  ultimately show ?thesis
    using assms by (intro mux_inv_closed) (simp_all only:, simp_all add: mux_ok_def pages_ok_def)
qed

lemma close_focused_ok:
  assumes "mux_ok m" and "current_page m \<noteq> None"
  shows "mux_inv (close_focused_pane m, [])"
proof -
  obtain pg where pg: "current_page m = Some pg"
    using assms(2) by auto
  have "mux_inv (m\<lparr>terms_closed := x\<rparr>, [])" "mux_inv (m, [])" for x
    using assms by (auto simp: mux_inv_def mux_ok_def pages_ok_def)
  moreover have "mux_inv (remove_pane pg p m, [])" for p
    using remove_pane_ok[OF assms, of pg p] by (intro mux_inv_closed) auto
  ultimately show ?thesis
    by (simp add: close_focused_pane_def pg split: option.split)
qed

lemma mux_step_ok:
  assumes inv: "mux_inv (m, ss)" and modal: "modal c ss ev"
  shows "\<exists>st'. mux_event_step c ev (m, ss) = Some st' \<and> mux_inv st'"
proof (cases "app_stopped m")
  case True
  with inv show ?thesis by (simp add: mux_event_step_def)
next
  case run: False
  have ok: "mux_ok m"
    using inv by (simp add: mux_inv_def)
  have sel: "ss = [] \<and> current_page m \<noteq> None \<or> (\<exists>s. ss = [s] \<and> selector_ok m s)"
    using inv run by (auto simp: mux_inv_def)
  show ?thesis
  proof (cases ev)
    case (Open_Selector mode)
    then have "ss = []"
      using modal by (simp add: modal_def)
    then obtain pg where "current_page m = Some pg"
      using sel by auto
    from show_selector_ok[OF ok this, of mode] inv run \<open>ss = []\<close> show ?thesis
      by (auto simp: Open_Selector mux_event_step_def mux_inv_def)
  next
    case (Choose_Hosts i hosts)
    show ?thesis
    proof (cases "length ss \<le> i \<or> hosts = []")
      case True
      with Choose_Hosts inv run show ?thesis by (auto simp: mux_event_step_def)
    next
      case False
      with sel obtain s where s: "ss = [s]" "selector_ok m s" "i = 0"
        by auto
      with False selector_done_ok[OF ok s(2), of hosts] run Choose_Hosts show ?thesis
        by (auto simp: mux_event_step_def intro!: mux_inv_closed)
    qed
  next
    case (Cancel_Selector i)
    show ?thesis
    proof (cases "length ss \<le> i")
      case True
      with Cancel_Selector inv run show ?thesis by (auto simp: mux_event_step_def)
    next
      case False
      with sel obtain s where s: "ss = [s]" "selector_ok m s" "i = 0"
        by auto
      with False selector_cancel_ok[OF ok s(2)] run Cancel_Selector show ?thesis
        by (auto simp: mux_event_step_def intro!: mux_inv_closed)
    qed
  next
    case (Connected pg p b)
    then show ?thesis
      using inv run by (auto simp: mux_event_step_def intro: mux_inv_same[OF same_pages_pane_events(1)])
  next
    case (Connect_Failed pg p e)
    then show ?thesis
      using inv run by (auto simp: mux_event_step_def intro: mux_inv_same[OF same_pages_pane_events(2)])
  next
    case (Exited pg p e)
    have "mux_inv (backend_exit c pg p e m, ss)"
    proof (cases "mc_hold c \<and> mc_command c \<noteq> []")
      case True
      then show ?thesis
        using inv by (rule mux_inv_same[OF same_pages_pane_events(3)])
    next
      case False
      then have "ss = []"
        using modal Exited by (auto simp: modal_def)
      then have "current_page m \<noteq> None"
        using sel by auto
      from remove_pane_ok[OF ok this, of pg p] False \<open>ss = []\<close> show ?thesis
        by (auto simp: backend_exit_def intro!: mux_inv_closed)
    qed
    with inv run Exited show ?thesis
      by (simp add: mux_event_step_def)
  next
    case Cycle
    with cycle_pane_ok[OF inv] run show ?thesis
      by (simp add: mux_event_step_def)
  next
    case (Switch_Page i)
    then have "ss = []"
      using modal by (simp add: modal_def)
    moreover from this have "current_page m \<noteq> None"
      using sel by auto
    ultimately show ?thesis
      using switch_page_ok[OF ok, of i] run Switch_Page by (simp add: mux_event_step_def)
  next
    case Close_Focused
    then have "ss = []"
      using modal by (simp add: modal_def)
    moreover from this have "current_page m \<noteq> None"
      using sel by auto
    ultimately show ?thesis
      using close_focused_ok[OF ok] run Close_Focused by (simp add: mux_event_step_def)
  next
    case (Click p)
    with focus_pane_ok[OF inv] run show ?thesis
      by (simp add: mux_event_step_def)
  qed
qed

lemma mux_run_ok:
  "mux_inv st \<Longrightarrow> modal_run c evs st \<Longrightarrow> \<exists>st'. mux_run c evs st = Some st' \<and> mux_inv st'"
proof (induction evs arbitrary: st)
  case (Cons ev evs)
  obtain m ss where st: "st = (m, ss)"
    by fastforce
  then obtain st' where "mux_event_step c ev st = Some st'" "mux_inv st'"
    using mux_step_ok[of m ss c ev] Cons.prems by auto
  with Cons show ?case by simp
qed simp

lemma mux_start_ok: "mux_inv (mux_start initial)"
proof (cases "initial = []")
  case True
  then show ?thesis
    by (auto simp: mux_start_def show_selector_def Let_def empty_manager_def mux_inv_def mux_ok_def
        pages_ok_def selector_ok_def)
next
  case False
  moreover have "pages_ok empty_manager"
    by (simp add: pages_ok_def empty_manager_def)
  ultimately show ?thesis
    using create_page_ok[of empty_manager initial] by (auto simp: mux_start_def intro: mux_inv_closed)
qed

text \<open>
  C22. From the start on, whatever hosts are opened and whatever connections come up, fail or
  end, the multiplexer never dereferences a nil page, and every page shows exactly its panes,
  each once, in a layout without empty or single-child splits; the focus is a pane of the page
  and the current page is one of the pages. The run is asked for three things while a host selector is
  open (\<open>modal_run\<close>): no pane is removed, by its end or by a key, no other page is switched to, and no second selector is
  opened. Without them it does not hold: a selector that was opened on one page and is answered on
  another gives the second a focus of the first.
\<close>

theorem mux_pages_consistent:
  assumes "modal_run c evs (mux_start initial)"
  shows "\<exists>m ss. mux_run c evs (mux_start initial) = Some (m, ss)
     \<and> (\<forall>pg \<in> set (session_pages m). \<exists>n f. pg_layout (page_at m pg) = Some n \<and> layout_wf n
          \<and> distinct (layout_panes n) \<and> set (layout_panes n) = set (pg_panes (page_at m pg))
          \<and> pg_focus (page_at m pg) = Some f \<and> f \<in> set (pg_panes (page_at m pg)))
     \<and> (case current_page m of None \<Rightarrow> session_pages m = [] | Some pg \<Rightarrow> pg \<in> set (session_pages m))"

proof -
  obtain m ss where run: "mux_run c evs (mux_start initial) = Some (m, ss)" and ok: "mux_ok m"
    using mux_run_ok[OF mux_start_ok assms] by (auto simp: mux_inv_def)
  then have "page_ok (page_at m pg)" if "pg \<in> set (session_pages m)" for pg
    using that by (simp add: mux_ok_def pages_ok_def)
  then have "\<forall>pg \<in> set (session_pages m). \<exists>n f. pg_layout (page_at m pg) = Some n \<and> layout_wf n
          \<and> distinct (layout_panes n) \<and> set (layout_panes n) = set (pg_panes (page_at m pg))
          \<and> pg_focus (page_at m pg) = Some f \<and> f \<in> set (pg_panes (page_at m pg))"
    unfolding page_ok_def by blast
  with run ok show ?thesis
    unfolding mux_ok_def by blast
qed

definition shell_config :: mux_config where
  "shell_config = \<lparr>mc_command = [], mc_stdin_data = '''', mc_hold = False, mc_allow_layout_change = False\<rparr>"

lemma mux_pages_consistent_witness:
  "\<exists>m ss. mux_run shell_config [Connected 0 1 True, Open_Selector Selector_Split_Horizontal,
      Choose_Hosts 0 [''b''], Exited 0 1 None] (mux_start [''a'']) = Some (m, ss)
     \<and> (case current_page m of None \<Rightarrow> session_pages m = [] | Some pg \<Rightarrow> pg \<in> set (session_pages m))"
proof -
  have "modal_run shell_config [Connected 0 1 True, Open_Selector Selector_Split_Horizontal,
      Choose_Hosts 0 [''b''], Exited 0 1 None] (mux_start [''a''])"
    by code_simp
  from mux_pages_consistent[OF this] show ?thesis
    by blast
qed

section \<open>A pane that leaves while a selector is open\<close>

text \<open>
  C23. When the only pane of a page exits while a host selector is open beside it, choosing
  hosts fails: the closed selector gives the focus back to the pane that is gone, the new panes
  find no pane to split, no connection is started, and the page stays current with no panes.
\<close>

theorem exit_during_selector_strands_page:
  assumes "mux_ok m" and "current_page m = Some pg" and "pg_panes (page_at m pg) = [p]"
    and "mp_term (pane_at m p)" and "\<not> app_stopped m" and "\<not> mc_hold c" and "layout_change_allowed c"
    and "hosts \<noteq> []"
  shows "\<exists>m'. mux_run c [Open_Selector Selector_New_Pane, Exited pg p err, Choose_Hosts 0 hosts] (m, []) = Some (m', [])
     \<and> current_page m' = Some pg \<and> pg_panes (page_at m' pg) = [] \<and> pg_focus (page_at m' pg) = Some p
     \<and> connecting m' = connecting m"
proof -
  obtain n f where n: "pg_layout (page_at m pg) = Some n" "layout_wf n" "distinct (layout_panes n)"
    "set (layout_panes n) = set (pg_panes (page_at m pg))"
    and focus: "pg_focus (page_at m pg) = Some f" "f \<in> set (pg_panes (page_at m pg))"
    and old: "\<forall>p \<in> set (pg_panes (page_at m pg)). p < next_ref m"
    using current_page_ok[OF assms(1,2)] by metis
  then have f: "f = p" and p: "p < next_ref m" and single: "layout_panes n = [p]"
    using assms(3) distinct_single by auto
  then obtain d where d: "n = Layout_Node (Some p) d []"
    using layout_wf_single_node[OF n(2)] by blast
  define q where "q = next_ref m"
  let ?s = "\<lparr>sel_mode = Selector_New_Pane, sel_pane = Some q, sel_page = None, sel_previous_focus = Some p,
             sel_previous_page = None\<rparr>"
  define m1 where "m1 = fst (the (mux_event_step c (Open_Selector Selector_New_Pane) (m, [])))"
  have m1: "mux_event_step c (Open_Selector Selector_New_Pane) (m, []) = Some (m1, [?s])"
    "current_page m1 = Some pg" "connecting m1 = connecting m" "app_stopped m1 = app_stopped m"
    "mp_term (pane_at m1 p)"
    "page_at m1 pg = (page_at m pg)\<lparr>pg_layout := Some (Layout_Node None flex_column [pane_node p, pane_node q]),
       pg_panes := [p, q], pg_focus := Some q\<rparr>"
    using assms(2-7) n(1) focus f p
    by (simp_all add: m1_def mux_event_step_def show_selector_def new_selector_pane_def alloc_pane_def
        insert_transient_pane_def layout_split_def d q_def selector_direction_def Let_def)
  have "p \<noteq> q"
    using p by (simp add: q_def)
  define m2 where "m2 = remove_pane pg p m1"
  have m2: "mux_event_step c (Exited pg p err) (m1, [?s]) = Some (m2, [?s])"
    "current_page m2 = Some pg" "connecting m2 = connecting m" "app_stopped m2 = app_stopped m"
    "page_at m2 pg = (page_at m pg)\<lparr>pg_layout := Some (pane_node q), pg_panes := [q], pg_focus := Some q\<rparr>"
    using m1(2-6) assms(5,6) \<open>p \<noteq> q\<close>
    by (simp_all add: m2_def mux_event_step_def backend_exit_def remove_pane_def page_without_def compact_def Let_def)
  define m3 where "m3 = close_selector ?s m2"
  have m3: "current_page m3 = Some pg" "connecting m3 = connecting m" "app_stopped m3 = app_stopped m"
    "page_at m3 pg = (page_at m pg)\<lparr>pg_layout := Some (Layout_Node None 0 []), pg_panes := [], pg_focus := Some p\<rparr>"
    using m2 by (simp_all add: m3_def close_selector_def remove_transient_pane_def page_without_def Let_def)
  obtain ps m4 where m4: "new_pending_panes hosts m3 = (ps, m4)"
    by fastforce
  have "connecting m4 = connecting m3"
    using new_pending_panes_connecting[OF m4] .
  moreover have page4: "page_at m4 = page_at m3" "current_page m4 = current_page m3"
    using new_pending_panes_facts[OF m4] by simp_all
  moreover define m5 where "m5 = snd (add_panes_to_current_page hosts flex_column m3)"
  have m5: "current_page m5 = Some pg" "connecting m5 = connecting m4" "page_at m5 pg = page_at m3 pg"
    using page4 m3 assms(8) by (simp_all add: m5_def add_panes_to_current_page_def m4 Let_def upd_page_def)
  moreover have "mux_event_step c (Choose_Hosts 0 hosts) (m2, [?s]) = Some (m5, [])"
    using m2(4) assms(5,8) by (simp add: mux_event_step_def selector_done_def m3_def[symmetric] m5_def Let_def)
  then have "mux_run c [Open_Selector Selector_New_Pane, Exited pg p err, Choose_Hosts 0 hosts] (m, []) = Some (m5, [])"
    unfolding mux_run.simps m1(1) m2(1) option.case by simp
  ultimately show ?thesis
    using m3 by (intro exI[of _ m5]) simp
qed

lemma exit_during_selector_strands_page_witness:
  "\<exists>m m'. mux_run shell_config [Connected 0 1 True] (mux_start [''a'']) = Some (m, [])
     \<and> mux_run shell_config [Open_Selector Selector_New_Pane, Exited 0 1 None, Choose_Hosts 0 [''b'']] (m, []) = Some (m', [])
     \<and> current_page m' = Some 0 \<and> pg_panes (page_at m' 0) = [] \<and> connecting m' = connecting m"
proof -
  have "modal_run shell_config [Connected 0 1 True] (mux_start [''a''])"
    by code_simp
  then obtain m ss where run: "mux_run shell_config [Connected 0 1 True] (mux_start [''a'']) = Some (m, ss)"
    and ok: "mux_ok m"
    using mux_run_ok[OF mux_start_ok] by (fastforce simp: mux_inv_def)
  have "case mux_run shell_config [Connected 0 1 True] (mux_start [''a'']) of None \<Rightarrow> False
     | Some (m, ss) \<Rightarrow> ss = [] \<and> current_page m = Some 0 \<and> pg_panes (page_at m 0) = [1]
         \<and> mp_term (pane_at m 1) \<and> \<not> app_stopped m"
    by code_simp
  then have m: "ss = []" "current_page m = Some 0" "pg_panes (page_at m 0) = [1]" "mp_term (pane_at m 1)"
    "\<not> app_stopped m"
    unfolding run by simp_all
  have "\<not> mc_hold shell_config" and "layout_change_allowed shell_config"
    by code_simp+
  from exit_during_selector_strands_page[OF ok m(2-5) this, of "[''b'']" None] run m(1) show ?thesis
    by auto
qed

section \<open>Keys\<close>

definition same_layout :: "manager \<Rightarrow> manager \<Rightarrow> bool" where
  "same_layout m m' = (session_pages m' = session_pages m
     \<and> (\<forall>pg. pg_panes (page_at m' pg) = pg_panes (page_at m pg)
            \<and> pg_layout (page_at m' pg) = pg_layout (page_at m pg)))"

lemma same_layout_simps [simp]:
  "same_layout m m" "same_layout m (m\<lparr>prefix_active := b\<rparr>)" "same_layout m (m\<lparr>app_stopped := b\<rparr>)"
  "same_layout m (m\<lparr>broadcast_all := b\<rparr>)" "same_layout m (switch_page i m)" "same_layout m (cycle_pane m)"
  by (auto simp: same_layout_def switch_page_def cycle_pane_def Let_def split: option.split)

lemma same_layout_prefix: "same_layout (m\<lparr>prefix_active := b\<rparr>) m' \<Longrightarrow> same_layout m m'"
  by (simp add: same_layout_def)

definition quiet_outcome :: "manager \<Rightarrow> key_outcome option \<Rightarrow> bool" where
  "quiet_outcome m r = (\<exists>x. r = Some x \<and> ko_selector x = None \<and> same_layout m (ko_state x))"

lemma quiet_key_only [simp]: "quiet_outcome m (Some (key_only r m')) = same_layout m m'"
  by (simp add: quiet_outcome_def key_only_def)

lemma prefixed_key_quiet:
  assumes "\<not> layout_change_allowed c" and "\<not> bound ''close_pane''"
  shows "quiet_outcome m (prefixed_key c bound m)"
  unfolding prefixed_key_def open_by_key_def if_P[OF assms(1)] if_not_P[OF assms(2)] by simp

lemma prefixed_key_broadcast:
  "prefixed_key c bound m = Some x \<Longrightarrow> ko_broadcast x = []"
  unfolding prefixed_key_def open_by_key_def
  by (auto simp: key_only_def split: if_splits prod.splits)

lemma broadcast_targets_are:
  assumes "p \<in> set (broadcast_targets m)"
  shows "\<exists>pg g f. current_page m = Some pg \<and> pg_focus (page_at m pg) = Some f \<and> p \<noteq> f
          \<and> g \<in> set (session_pages m) \<and> p \<in> set (pg_panes (page_at m g))
          \<and> mp_term (pane_at m p) \<and> \<not> mp_transient (pane_at m p)"
proof -
  obtain pg where pg: "current_page m = Some pg"
    using assms by (cases "current_page m") (auto simp: broadcast_targets_def)
  moreover obtain f where "pg_focus (page_at m pg) = Some f"
    using assms pg by (cases "pg_focus (page_at m pg)") (auto simp: broadcast_targets_def)
  ultimately show ?thesis
    using assms by (auto simp: broadcast_targets_def)
qed

text \<open>
  In command mode without \<open>--allow-layout-change\<close> no key dereferences a nil page, opens a
  host selector, or changes the pages, their panes or their layouts; only the key that closes
  the focused pane is exempt.
\<close>

theorem command_mode_keys_keep_layout:
  assumes "\<not> layout_change_allowed c" and "\<not> bound ''close_pane''"
  shows "\<exists>x. capture_input c env key bound m = Some x \<and> ko_selector x = None
     \<and> session_pages (ko_state x) = session_pages m
     \<and> (\<forall>pg. pg_panes (page_at (ko_state x) pg) = pg_panes (page_at m pg)
            \<and> pg_layout (page_at (ko_state x) pg) = pg_layout (page_at m pg))"
proof -
  have "quiet_outcome (m\<lparr>prefix_active := False\<rparr>) (prefixed_key c bound (m\<lparr>prefix_active := False\<rparr>))"
    using assms by (rule prefixed_key_quiet)
  then have "quiet_outcome m (prefixed_key c bound (m\<lparr>prefix_active := False\<rparr>))"
    by (auto simp: quiet_outcome_def intro: same_layout_prefix)
  moreover have "quiet_outcome m (Some ((key_only r m)\<lparr>ko_broadcast := bs\<rparr>))" for r bs
    by (simp add: quiet_outcome_def key_only_def)
  ultimately have "quiet_outcome m (capture_input c env key bound m)"
    unfolding capture_input_def Let_def by simp
  then show ?thesis
    by (simp add: quiet_outcome_def same_layout_def)
qed

lemma command_mode_keys_keep_layout_witness:
  "\<exists>x. capture_input (shell_config\<lparr>mc_command := [''uptime'']\<rparr>)
      \<lparr>ie_selector_has_focus = False, ie_overlay_has_focus = False, ie_local_scrollback = False\<rparr> Key_Other
      (\<lambda>name. name = ''new_page'') (empty_manager\<lparr>prefix_active := True\<rparr>) = Some x \<and> ko_selector x = None"
proof -
  have "\<not> layout_change_allowed (shell_config\<lparr>mc_command := [''uptime'']\<rparr>)"
    by (simp add: layout_change_allowed_def shell_config_def)
  moreover have "\<not> (\<lambda>name. name = ''new_page'') ''close_pane''"
    by simp
  ultimately obtain x where "capture_input (shell_config\<lparr>mc_command := [''uptime'']\<rparr>)
      \<lparr>ie_selector_has_focus = False, ie_overlay_has_focus = False, ie_local_scrollback = False\<rparr> Key_Other
      (\<lambda>name. name = ''new_page'') (empty_manager\<lparr>prefix_active := True\<rparr>) = Some x \<and> ko_selector x = None"
    using command_mode_keys_keep_layout[of "shell_config\<lparr>mc_command := [''uptime'']\<rparr>" "\<lambda>name. name = ''new_page''"]
    by metis
  then show ?thesis ..
qed

text \<open>
  C25. A key is copied to other panes only in broadcast mode and never when it is part of a
  prefix command or goes to a selector; the receivers are connected panes of the open pages,
  never a selector and never the focused pane, which gets the key itself.
\<close>

theorem broadcast_receivers:
  assumes "capture_input c env key bound m = Some x" and "p \<in> set (ko_broadcast x)"
  shows "broadcast_all m \<and> ko_state x = m \<and> ko_result x \<in> {Key_Passed, Key_As_Ctrl_C}
     \<and> (key = Key_Other \<longrightarrow> \<not> bound ''prefix'' \<and> \<not> prefix_active m)
     \<and> \<not> (selector_focus m \<and> focused_transient m)
     \<and> (\<exists>pg g f. current_page m = Some pg \<and> pg_focus (page_at m pg) = Some f \<and> p \<noteq> f
          \<and> g \<in> set (session_pages m) \<and> p \<in> set (pg_panes (page_at m g))
          \<and> mp_term (pane_at m p) \<and> \<not> mp_transient (pane_at m p))"
proof -
  have "x = key_only (ko_result x) m \<lparr>ko_broadcast := broadcast_if m\<rparr> \<and> ko_result x \<in> {Key_Passed, Key_As_Ctrl_C}
     \<and> (key = Key_Other \<longrightarrow> \<not> bound ''prefix'' \<and> \<not> prefix_active m)
     \<and> \<not> (selector_focus m \<and> focused_transient m)"
    using assms prefixed_key_broadcast[of c bound "m\<lparr>prefix_active := False\<rparr>" x]
    unfolding capture_input_def Let_def
    by (cases key) (auto simp: key_only_def split: if_splits)
  moreover from this have "p \<in> set (broadcast_if m)"
    using assms(2) by (metis key_outcome.select_convs(2) key_outcome.surjective key_outcome.update_convs(2))
  then have "broadcast_all m" "p \<in> set (broadcast_targets m)"
    by (auto simp: broadcast_if_def split: if_splits)
  moreover from this(2) have "\<exists>pg g f. current_page m = Some pg \<and> pg_focus (page_at m pg) = Some f \<and> p \<noteq> f
          \<and> g \<in> set (session_pages m) \<and> p \<in> set (pg_panes (page_at m g))
          \<and> mp_term (pane_at m p) \<and> \<not> mp_transient (pane_at m p)"
    by (rule broadcast_targets_are)
  moreover from calculation(1) have "ko_state x = m"
    by (metis key_only_def key_outcome.select_convs(4) key_outcome.surjective key_outcome.update_convs(2))
  ultimately show ?thesis
    by blast
qed

definition two_panes :: manager where
  "two_panes = empty_manager\<lparr>
     page_at := (\<lambda>_. \<lparr>pg_name = ''page-1'', pg_panes = [1, 2], pg_focus = Some 1,
       pg_layout = Some (Layout_Node None flex_column [pane_node 1, pane_node 2])\<rparr>),
     pane_at := (\<lambda>p. (pane_at empty_manager p)\<lparr>mp_term := True\<rparr>),
     session_pages := [0], current_page := Some 0, broadcast_all := True\<rparr>"

lemma broadcast_receivers_witness:
  "\<exists>x. capture_input shell_config
          \<lparr>ie_selector_has_focus = False, ie_overlay_has_focus = False, ie_local_scrollback = False\<rparr> Key_Other
          (\<lambda>_. False) two_panes = Some x
     \<and> ko_broadcast x = [2] \<and> ko_result x \<in> {Key_Passed, Key_As_Ctrl_C}"
proof -
  let ?env = "\<lparr>ie_selector_has_focus = False, ie_overlay_has_focus = False, ie_local_scrollback = False\<rparr>"
  let ?x = "(key_only Key_Passed two_panes)\<lparr>ko_broadcast := [2]\<rparr>"
  have x: "capture_input shell_config ?env Key_Other (\<lambda>_. False) two_panes = Some ?x"
    by (simp add: capture_input_def Let_def broadcast_if_def broadcast_targets_def two_panes_def
        empty_manager_def)
  then have "2 \<in> set (ko_broadcast ?x)"
    by simp
  from broadcast_receivers[OF x this] x show ?thesis
    by simp
qed

end
