(* ===== verification/Lsdiff_Align.thy ===== *)
theory Lsdiff_Align
  imports Go_Base
begin

text \<open>
  The side-by-side alignment of several files, \<^verbatim>\<open>internal/lsdiff/align.go\<close>: every other
  document is aligned to the first one with the opcodes of a diff library, inserted lines get
  rows of their own between the rows of the first document. The opcodes are a parameter; what
  the library documents of them is \<open>tiles\<close>.
\<close>

section \<open>Data\<close>

record line_cell =
  lc_line_no :: nat
  lc_text :: string
  lc_present :: bool

record aligned_row =
  ar_cells :: "line_cell list"
  ar_changed :: bool

record opcode =
  op_tag :: char
  op_i1 :: nat
  op_i2 :: nat
  op_j1 :: nat
  op_j2 :: nat

record document =
  doc_title :: string
  doc_lines :: "string list"
  doc_error :: string

definition no_cell :: line_cell where
  "no_cell = \<lparr>lc_line_no = 0, lc_text = '''', lc_present = False\<rparr>"

definition line_cell_of :: "string list \<Rightarrow> nat \<Rightarrow> line_cell" where
  "line_cell_of ls j = \<lparr>lc_line_no = j + 1, lc_text = ls ! j, lc_present = True\<rparr>"

section \<open>Alignment to the first document\<close>

type_synonym alignment = "line_cell list \<times> line_cell list list"

text \<open>The two slices the loops write to; \<open>None\<close> is an index out of range.\<close>

definition set_mapped :: "nat \<Rightarrow> line_cell \<Rightarrow> alignment \<Rightarrow> alignment option" where
  "set_mapped i c a =
     (case a of (mapped, inserts) \<Rightarrow>
       if i < length mapped then Some (mapped[i := c], inserts) else None)"

definition add_insert :: "nat \<Rightarrow> line_cell \<Rightarrow> alignment \<Rightarrow> alignment option" where
  "add_insert i c a =
     (case a of (mapped, inserts) \<Rightarrow>
       if i < length inserts then Some (mapped, inserts[i := inserts ! i @ [c]]) else None)"

definition other_line :: "string list \<Rightarrow> nat \<Rightarrow> line_cell option" where
  "other_line other j = (if j < length other then Some (line_cell_of other j) else None)"

text \<open>A \<open>for\<close> loop over indices whose body may panic.\<close>

fun for_each :: "('i \<Rightarrow> 'a \<Rightarrow> 'a option) \<Rightarrow> 'i list \<Rightarrow> 'a \<Rightarrow> 'a option" where
  "for_each f [] a = Some a"
| "for_each f (i # is) a = (case f i a of None \<Rightarrow> None | Some a' \<Rightarrow> for_each f is a')"

definition map_line :: "string list \<Rightarrow> nat \<Rightarrow> nat \<Rightarrow> alignment \<Rightarrow> alignment option" where
  "map_line other i j a = (case other_line other j of None \<Rightarrow> None | Some c \<Rightarrow> set_mapped i c a)"

definition insert_line :: "string list \<Rightarrow> nat \<Rightarrow> nat \<Rightarrow> alignment \<Rightarrow> alignment option" where
  "insert_line other i j a = (case other_line other j of None \<Rightarrow> None | Some c \<Rightarrow> add_insert i c a)"

definition apply_opcode :: "string list \<Rightarrow> opcode \<Rightarrow> alignment \<Rightarrow> alignment option" where
  "apply_opcode other op a =
     (let i1 = op_i1 op; i2 = op_i2 op; j1 = op_j1 op; j2 = op_j2 op
      in if op_tag op = CHR ''e'' then
           for_each (\<lambda>k. map_line other (i1 + k) (j1 + k)) [0 ..< i2 - i1] a
         else if op_tag op = CHR ''d'' then
           for_each (\<lambda>i. set_mapped i no_cell) [i1 ..< i2] a
         else if op_tag op = CHR ''i'' then
           for_each (\<lambda>j. insert_line other i1 j) [j1 ..< j2] a
         else if op_tag op = CHR ''r'' then
           (let a_len = i2 - i1; b_len = j2 - j1; common = min a_len b_len
            in case for_each (\<lambda>k. map_line other (i1 + k) (j1 + k)) [0 ..< common] a of None \<Rightarrow> None
               | Some a1 \<Rightarrow>
                 (case for_each (\<lambda>k. set_mapped (i1 + k) no_cell) [common ..< a_len] a1 of None \<Rightarrow> None
                  | Some a2 \<Rightarrow>
                      for_each (\<lambda>k. insert_line other (i1 + common) (j1 + k)) [common ..< b_len] a2))
         else Some a)"

definition align_to_base ::
  "(string list \<Rightarrow> string list \<Rightarrow> opcode list) \<Rightarrow> string list \<Rightarrow> string list \<Rightarrow> alignment option" where
  "align_to_base get_op_codes base other =
     for_each (apply_opcode other) (get_op_codes base other)
       (replicate (length base) no_cell, replicate (length base + 1) [])"

section \<open>Rows\<close>

definition merge_inserted_rows :: "aligned_row list \<Rightarrow> line_cell list \<Rightarrow> nat \<Rightarrow> aligned_row list" where
  "merge_inserted_rows existing inserted previous_doc_count =
     map (\<lambda>i. if i < length existing
              then (existing ! i)\<lparr>ar_cells := ar_cells (existing ! i) @
                     [if i < length inserted then inserted ! i else no_cell]\<rparr>
              else \<lparr>ar_cells = replicate previous_doc_count no_cell @ [inserted ! i], ar_changed = False\<rparr>)
         [0 ..< max (length existing) (length inserted)]"

text \<open>The first loop of \<open>rowChanged\<close>: \<open>Some b\<close> is an early return of \<open>b\<close>, otherwise the
  reference text found.\<close>

fun changed_loop :: "line_cell list \<Rightarrow> string option \<Rightarrow> bool \<times> string option" where
  "changed_loop [] ref = (False, ref)"
| "changed_loop (c # cs) ref =
     (if \<not> lc_present c then (if ref \<noteq> None then (True, ref) else changed_loop cs ref)
      else (case ref of None \<Rightarrow> changed_loop cs (Some (lc_text c))
            | Some t \<Rightarrow> if lc_text c \<noteq> t then (True, ref) else changed_loop cs ref))"

definition row_changed :: "line_cell list \<Rightarrow> bool" where
  "row_changed cells =
     (case changed_loop cells None of
        (True, _) \<Rightarrow> True
      | (False, None) \<Rightarrow> False
      | (False, Some _) \<Rightarrow> list_ex (\<lambda>c. \<not> lc_present c) cells)"

text \<open>The loop over the other documents: the insert segments, the rows of the first document
  and the number of documents merged so far.\<close>

fun align_others ::
  "(string list \<Rightarrow> string list \<Rightarrow> opcode list) \<Rightarrow> string list \<Rightarrow> document list \<Rightarrow>
   aligned_row list list \<Rightarrow> aligned_row list \<Rightarrow> nat \<Rightarrow> (aligned_row list list \<times> aligned_row list) option" where
  "align_others get_op_codes base [] segments rows n = Some (segments, rows)"
| "align_others get_op_codes base (d # ds) segments rows n =
     (case align_to_base get_op_codes base (doc_lines d) of None \<Rightarrow> None
      | Some (mapped, inserts) \<Rightarrow>
          align_others get_op_codes base ds
            (map (\<lambda>(s, ins). merge_inserted_rows s ins n) (zip segments inserts))
            (map (\<lambda>(r, c). r\<lparr>ar_cells := ar_cells r @ [c]\<rparr>) (zip rows mapped))
            (n + 1))"

text \<open>The insert segments between the rows of the first document.\<close>

fun interleave :: "'a list list \<Rightarrow> 'a list \<Rightarrow> 'a list" where
  "interleave [] xs = xs"
| "interleave (s # ss) [] = s @ concat ss"
| "interleave (s # ss) (x # xs) = s @ x # interleave ss xs"

definition align_documents ::
  "(string list \<Rightarrow> string list \<Rightarrow> opcode list) \<Rightarrow> document list \<Rightarrow> aligned_row list option" where
  "align_documents get_op_codes documents =
     (case documents of [] \<Rightarrow> Some []
      | base # others \<Rightarrow>
          (let ls = doc_lines base;
               rows = map (\<lambda>i. \<lparr>ar_cells = [line_cell_of ls i], ar_changed = False\<rparr>) [0 ..< length ls]
           in case align_others get_op_codes ls others (replicate (length ls + 1) []) rows 1 of
                None \<Rightarrow> None
              | Some (segments, rows) \<Rightarrow>
                  Some (map (\<lambda>r. r\<lparr>ar_changed := row_changed (ar_cells r)\<rparr>) (interleave segments rows))))"

section \<open>The contract of the opcodes\<close>

text \<open>The opcodes cover both documents from the beginning to the end, each one starting where
  the one before it ends; \<open>e\<close> covers equally many lines that are equal, \<open>d\<close> only lines of the
  first, \<open>i\<close> only lines of the second document.\<close>

fun tiles_from :: "string list \<Rightarrow> string list \<Rightarrow> nat \<Rightarrow> nat \<Rightarrow> opcode list \<Rightarrow> bool" where
  "tiles_from base other i j [] = (i = length base \<and> j = length other)"
| "tiles_from base other i j (op # ops) =
     (op_i1 op = i \<and> op_j1 op = j \<and> i \<le> op_i2 op \<and> j \<le> op_j2 op
      \<and> op_i2 op \<le> length base \<and> op_j2 op \<le> length other
      \<and> (op_tag op = CHR ''e'' \<and> op_i2 op - i = op_j2 op - j
           \<and> take (op_i2 op - i) (drop i base) = take (op_j2 op - j) (drop j other)
         \<or> op_tag op = CHR ''d'' \<and> op_j2 op = j
         \<or> op_tag op = CHR ''i'' \<and> op_i2 op = i
         \<or> op_tag op = CHR ''r'')
      \<and> tiles_from base other (op_i2 op) (op_j2 op) ops)"

definition tiles :: "string list \<Rightarrow> string list \<Rightarrow> opcode list \<Rightarrow> bool" where
  "tiles base other ops = tiles_from base other 0 0 ops"

section \<open>One document against the first\<close>

lemma for_each_upt:
  assumes "a \<le> b" and "P a s"
    and "\<And>k s. a \<le> k \<Longrightarrow> k < b \<Longrightarrow> P k s \<Longrightarrow> \<exists>s'. f k s = Some s' \<and> P (Suc k) s'"
  shows "\<exists>s'. for_each f [a ..< b] s = Some s' \<and> P b s'"
  using assms(1,2,3)
proof (induction "b - a" arbitrary: a s)
  case (Suc m)
  then have "a < b" by simp
  then have "[a ..< b] = a # [Suc a ..< b]"
    by (rule upt_conv_Cons)
  moreover obtain s' where s': "f a s = Some s'" "P (Suc a) s'"
    using Suc.prems(3)[of a s] Suc.prems(2) \<open>a < b\<close> by auto
  moreover have "\<exists>s''. for_each f [Suc a ..< b] s' = Some s'' \<and> P b s''"
    using Suc.hyps(2) \<open>a < b\<close> Suc.prems(3) by (intro Suc.hyps(1) s'(2)) auto
  ultimately show ?case by simp
qed simp

text \<open>The column of the other document above and between the first \<open>i\<close> lines.\<close>

definition column :: "nat \<Rightarrow> alignment \<Rightarrow> line_cell list" where
  "column i a = (case a of (mapped, inserts) \<Rightarrow>
     concat (map2 (\<lambda>s c. s @ [c]) (take i inserts) (take i mapped)) @ inserts ! i)"

abbreviation present :: "line_cell list \<Rightarrow> line_cell list" where
  "present \<equiv> filter lc_present"

definition aligned :: "string list \<Rightarrow> nat \<Rightarrow> nat \<Rightarrow> nat \<Rightarrow> alignment \<Rightarrow> bool" where
  "aligned other n i j a = (case a of (mapped, inserts) \<Rightarrow>
     length mapped = n \<and> length inserts = n + 1 \<and> (\<forall>k. i < k \<and> k \<le> n \<longrightarrow> inserts ! k = [])
     \<and> (\<forall>s \<in> set inserts. list_all lc_present s)
     \<and> present (column i a) = map (line_cell_of other) [0 ..< j])"

lemma column_set_mapped:
  assumes "i < length mapped" and "length inserts = length mapped + 1" and "inserts ! Suc i = []"
  shows "column (Suc i) (mapped[i := c], inserts) = column i (mapped, inserts) @ [c]"
  using assms by (simp add: column_def take_Suc_conv_app_nth zip_append)

lemma aligned_set_mapped:
  assumes "aligned other n i j a" and "i < n" and "present [c] = map (line_cell_of other) [j ..< j']" and "j \<le> j'"
  shows "\<exists>a'. set_mapped i c a = Some a' \<and> aligned other n (Suc i) j' a'"
proof -
  obtain mapped inserts where a: "a = (mapped, inserts)"
    by fastforce
  then have len: "length mapped = n" "length inserts = n + 1" "inserts ! Suc i = []"
    using assms(1,2) by (auto simp: aligned_def)
  have "present (column (Suc i) (mapped[i := c], inserts)) = map (line_cell_of other) ([0 ..< j] @ [j ..< j'])"
    using assms(1,2) len by (subst column_set_mapped) (auto simp: aligned_def a assms(3)[simplified])
  also have "[0 ..< j] @ [j ..< j'] = [0 ..< j']"
    using assms(4) by (metis le0 upt_add_eq_append le_add_diff_inverse)
  finally show ?thesis
    using assms(1,2) len by (simp add: set_mapped_def a aligned_def)
qed

lemma aligned_map_line:
  assumes "aligned other n i j a" and "i < n" and "j < length other"
  shows "\<exists>a'. map_line other i j a = Some a' \<and> aligned other n (Suc i) (Suc j) a'"
  using aligned_set_mapped[OF assms(1,2), of "line_cell_of other j" "Suc j"] assms(3)
  by (simp add: map_line_def other_line_def line_cell_of_def)

lemma aligned_skip:
  assumes "aligned other n i j a" and "i < n"
  shows "\<exists>a'. set_mapped i no_cell a = Some a' \<and> aligned other n (Suc i) j a'"
  using aligned_set_mapped[OF assms, of no_cell j] by (simp add: no_cell_def)

lemma aligned_insert_line:
  assumes "aligned other n i j a" and "i \<le> n" and "j < length other"
  shows "\<exists>a'. insert_line other i j a = Some a' \<and> aligned other n i (Suc j) a'"
proof -
  obtain mapped inserts where a: "a = (mapped, inserts)"
    by fastforce
  let ?c = "line_cell_of other j"
  let ?ins = "inserts[i := inserts ! i @ [?c]]"
  have len: "length mapped = n" "length inserts = n + 1" "i < length inserts"
    using assms(1,2) by (auto simp: aligned_def a)
  have "column i (mapped, ?ins) = column i (mapped, inserts) @ [?c]"
    using len by (simp add: column_def)
  moreover have "\<forall>s \<in> set ?ins. list_all lc_present s"
    using assms(1) len set_update_subset_insert[of inserts i "inserts ! i @ [?c]"]
    by (auto simp: aligned_def a line_cell_of_def dest!: subsetD)
  ultimately show ?thesis
    using assms len
    by (auto simp: insert_line_def other_line_def add_insert_def a aligned_def line_cell_of_def)
qed

text \<open>The three kinds of loops over the lines of an opcode.\<close>

lemma loop_map:
  assumes "aligned other n (i + a) (j + a) s" and "a \<le> b" and "i + b \<le> n" and "j + b \<le> length other"
  shows "\<exists>s'. for_each (\<lambda>k. map_line other (i + k) (j + k)) [a ..< b] s = Some s'
     \<and> aligned other n (i + b) (j + b) s'"
proof (rule for_each_upt[where P = "\<lambda>k. aligned other n (i + k) (j + k)", OF assms(2,1)])
  fix k s
  assume "k < b" "aligned other n (i + k) (j + k) s"
  then show "\<exists>s'. map_line other (i + k) (j + k) s = Some s' \<and> aligned other n (i + Suc k) (j + Suc k) s'"
    using aligned_map_line[of other n "i + k" "j + k" s] assms(3,4) by simp
qed

lemma loop_skip:
  assumes "aligned other n (i + a) j s" and "a \<le> b" and "i + b \<le> n"
  shows "\<exists>s'. for_each (\<lambda>k. set_mapped (i + k) no_cell) [a ..< b] s = Some s' \<and> aligned other n (i + b) j s'"
proof (rule for_each_upt[where P = "\<lambda>k. aligned other n (i + k) j", OF assms(2,1)])
  fix k s
  assume "k < b" "aligned other n (i + k) j s"
  then show "\<exists>s'. set_mapped (i + k) no_cell s = Some s' \<and> aligned other n (i + Suc k) j s'"
    using aligned_skip[of other n "i + k" j s] assms(3) by simp
qed

lemma loop_insert:
  assumes "aligned other n i (j + a) s" and "a \<le> b" and "i \<le> n" and "j + b \<le> length other"
  shows "\<exists>s'. for_each (\<lambda>k. insert_line other i (j + k)) [a ..< b] s = Some s' \<and> aligned other n i (j + b) s'"
proof (rule for_each_upt[where P = "\<lambda>k. aligned other n i (j + k)", OF assms(2,1)])
  fix k s
  assume "k < b" "aligned other n i (j + k) s"
  then show "\<exists>s'. insert_line other i (j + k) s = Some s' \<and> aligned other n i (j + Suc k) s'"
    using aligned_insert_line[of other n i "j + k" s] assms(3,4) by simp
qed

lemma apply_opcode_aligned:
  assumes "aligned other n i j a" and "tiles_from base other i j (op # ops)" and "n = length base"
  shows "\<exists>a'. apply_opcode other op a = Some a' \<and> aligned other n (op_i2 op) (op_j2 op) a'"
proof -
  let ?i2 = "op_i2 op" and ?j2 = "op_j2 op"
  have op: "op_i1 op = i" "op_j1 op = j" "i \<le> ?i2" "j \<le> ?j2" "?i2 \<le> n" "?j2 \<le> length other"
    using assms(2,3) by auto
  consider (e) "op_tag op = CHR ''e''" "?i2 - i = ?j2 - j" | (d) "op_tag op = CHR ''d''" "?j2 = j"
    | (i) "op_tag op = CHR ''i''" "?i2 = i" | (r) "op_tag op = CHR ''r''"
    using assms(2) by auto
  then show ?thesis
  proof cases
    case e
    define m where "m = ?i2 - i"
    then have m: "?i2 = i + m" "?j2 = j + m"
      using e(2) op by simp_all
    with loop_map[of other n i 0 j a m] assms(1) op obtain a' where
      "for_each (\<lambda>k. map_line other (i + k) (j + k)) [0 ..< m] a = Some a'" "aligned other n (i + m) (j + m) a'"
      by auto
    with m e(1) op(1,2) show ?thesis
      by (simp add: apply_opcode_def Let_def)
  next
    case d
    from loop_skip[of other n 0 i j a ?i2] assms(1) d op show ?thesis
      by (simp add: apply_opcode_def Let_def)
  next
    case i
    from loop_insert[of other n i 0 j a ?j2] assms(1) i op show ?thesis
      by (simp add: apply_opcode_def Let_def)
  next
    case r
    let ?al = "?i2 - i" and ?bl = "?j2 - j"
    let ?c = "min ?al ?bl"
    have "i + ?c \<le> n" "j + ?c \<le> length other"
      using op by linarith+
    with assms(1) have "\<exists>a1. for_each (\<lambda>k. map_line other (i + k) (j + k)) [0 ..< ?c] a = Some a1
       \<and> aligned other n (i + ?c) (j + ?c) a1"
      by (intro loop_map) simp_all
    then obtain a1 where a1: "for_each (\<lambda>k. map_line other (i + k) (j + k)) [0 ..< ?c] a = Some a1"
      "aligned other n (i + ?c) (j + ?c) a1"
      by blast
    obtain a2 where a2: "for_each (\<lambda>k. set_mapped (i + k) no_cell) [?c ..< ?al] a1 = Some a2"
      "aligned other n (i + ?al) (j + ?c) a2"
      using loop_skip[OF a1(2), of ?al] op by auto
    have "\<exists>a3. for_each (\<lambda>k. insert_line other (i + ?c) (j + k)) [?c ..< ?bl] a2 = Some a3
       \<and> aligned other n ?i2 ?j2 a3"
    proof (cases "?bl \<le> ?al")
      case True
      have "i + ?al = ?i2" "j + ?c = ?j2"
        using True op by linarith+
      then have "aligned other n ?i2 ?j2 a2"
        using a2(2) by (simp only:)
      with True show ?thesis by (simp add: min_absorb2)
    next
      case False
      then have c: "?c = ?al" by simp
      from a2(2) loop_insert[of other n ?i2 j ?al a2 ?bl] False op show ?thesis
        unfolding c by simp
    qed
    with r a1(1) a2(1) op show ?thesis
      by (simp add: apply_opcode_def Let_def)
  qed
qed

lemma for_each_opcodes_aligned:
  "aligned other n i j a \<Longrightarrow> tiles_from base other i j ops \<Longrightarrow> n = length base \<Longrightarrow>
     \<exists>a'. for_each (apply_opcode other) ops a = Some a' \<and> aligned other n n (length other) a'"
proof (induction ops arbitrary: i j a)
  case (Cons op ops)
  obtain a' where a': "apply_opcode other op a = Some a'" "aligned other n (op_i2 op) (op_j2 op) a'"
    using apply_opcode_aligned[OF Cons.prems] by blast
  with Cons.IH[OF a'(2) _ Cons.prems(3)] Cons.prems(2) show ?case
    by simp
qed simp

lemma align_to_base_aligned:
  assumes "tiles base other (ops base other)"
  shows "\<exists>a. align_to_base ops base other = Some a \<and> aligned other (length base) (length base) (length other) a"
  unfolding align_to_base_def
  using assms by (intro for_each_opcodes_aligned[of _ _ 0 0])
    (simp_all add: aligned_def column_def tiles_def del: replicate_Suc)

section \<open>All documents\<close>

lemma interleave_map: "map f (interleave ss xs) = interleave (map (map f) ss) (map f xs)"
  by (induction ss xs rule: interleave.induct) (auto simp: map_concat)

lemma set_interleave: "length ss = Suc (length xs) \<Longrightarrow> set (interleave ss xs) = \<Union> (set ` set ss) \<union> set xs"
  by (induction ss xs rule: interleave.induct) auto

lemma filter_interleave:
  "list_all2 (\<lambda>s s'. filter P s = filter P s') ss ss' \<Longrightarrow> length ss = Suc (length xs) \<Longrightarrow>
     filter P (interleave ss xs) = filter P (interleave ss' xs)"
proof (induction xs arbitrary: ss ss')
  case Nil
  then obtain s s' where "ss = [s]" "ss' = [s']" "filter P s = filter P s'"
    by (cases ss; cases ss') auto
  then show ?case by simp
next
  case (Cons x xs)
  then obtain s r s' r' where "ss = s # r" "ss' = s' # r'"
    by (cases ss; cases ss') auto
  with Cons show ?case by auto
qed

lemma column_interleave:
  "length inserts = Suc (length mapped) \<Longrightarrow> column (length mapped) (mapped, inserts) = interleave inserts mapped"
proof (induction inserts mapped rule: interleave.induct)
  case (2 s ss)
  then show ?case by (simp add: column_def)
next
  case (3 s ss x xs)
  then show ?case by (simp add: column_def)
qed simp

lemma aligned_interleave:
  assumes "aligned other n n (length other) (mapped, inserts)"
  shows "length mapped = n \<and> length inserts = n + 1 \<and> (\<forall>s \<in> set inserts. list_all lc_present s)
     \<and> present (interleave inserts mapped) = map (line_cell_of other) [0 ..< length other]"
  using assms column_interleave[of inserts mapped] by (auto simp: aligned_def)

text \<open>The cell of document \<open>d\<close> in a row, and all rows having \<open>n\<close> cells, one at least present.\<close>

abbreviation cell :: "nat \<Rightarrow> aligned_row \<Rightarrow> line_cell" where
  "cell d r \<equiv> ar_cells r ! d"

definition rows_ok :: "nat \<Rightarrow> aligned_row set \<Rightarrow> bool" where
  "rows_ok n rs = (\<forall>r \<in> rs. length (ar_cells r) = n \<and> (\<exists>c \<in> set (ar_cells r). lc_present c))"

lemma merge_split:
  fixes existing :: "aligned_row list" and inserted :: "line_cell list" and n :: nat
  defines "a \<equiv> length existing" and "rows \<equiv> merge_inserted_rows existing inserted n"
  shows "rows = map (\<lambda>i. (existing ! i)\<lparr>ar_cells := ar_cells (existing ! i) @
                       [if i < length inserted then inserted ! i else no_cell]\<rparr>) [0 ..< a]
              @ map (\<lambda>i. \<lparr>ar_cells = replicate n no_cell @ [inserted ! i], ar_changed = False\<rparr>) [a ..< max a (length inserted)]"
proof -
  have "[0 ..< max a (length inserted)] = [0 ..< a] @ [a ..< max a (length inserted)]"
    by (metis le0 max.cobounded1 upt_add_eq_append le_add_diff_inverse)
  then show ?thesis
    unfolding rows_def merge_inserted_rows_def by (simp add: a_def)
qed

lemma merge_old_column:
  assumes "rows_ok n (set existing)" and "d < n"
  shows "present (map (cell d) (merge_inserted_rows existing inserted n)) = present (map (cell d) existing)"
proof -
  let ?a = "length existing"
  have "map (cell d) (merge_inserted_rows existing inserted n) =
      map (\<lambda>i. cell d (existing ! i)) [0 ..< ?a] @ map (\<lambda>_. no_cell) [?a ..< max ?a (length inserted)]"
    using assms unfolding merge_split by (auto simp: rows_ok_def nth_append)
  moreover have "map (\<lambda>i. cell d (existing ! i)) [0 ..< ?a] = map (cell d) existing"
    by (rule nth_equalityI) simp_all
  moreover have "present (map (\<lambda>_. no_cell) xs) = []" for xs :: "nat list"
    by (simp add: no_cell_def filter_empty_conv)
  ultimately show ?thesis
    by simp
qed

lemma merge_new_column:
  assumes "rows_ok n (set existing)" and "list_all lc_present inserted"
  shows "present (map (cell n) (merge_inserted_rows existing inserted n)) = inserted"
proof -
  let ?a = "length existing" and ?b = "length inserted"
  let ?f = "\<lambda>i. if i < ?b then inserted ! i else no_cell"
  have "map (cell n) (merge_inserted_rows existing inserted n) = map ?f ([0 ..< ?a] @ [?a ..< max ?a ?b])"
    using assms(1) unfolding merge_split by (auto simp: rows_ok_def nth_append)
  also have "[0 ..< ?a] @ [?a ..< max ?a ?b] = [0 ..< ?b] @ [?b ..< max ?a ?b]"
    by (metis le0 max.cobounded1 max.cobounded2 upt_add_eq_append le_add_diff_inverse)
  also have "map ?f ([0 ..< ?b] @ [?b ..< max ?a ?b]) = inserted @ map (\<lambda>_. no_cell) [?b ..< max ?a ?b]"
    by (auto intro!: nth_equalityI simp: nth_append)
  finally show ?thesis
    using assms(2) by (simp add: no_cell_def filter_empty_conv filter_id_conv list_all_iff)
qed

lemma merge_rows_ok:
  assumes "rows_ok n (set existing)" and "list_all lc_present inserted"
  shows "rows_ok (Suc n) (set (merge_inserted_rows existing inserted n))"
  using assms unfolding merge_split rows_ok_def by (auto simp: list_all_iff)

text \<open>What the loop over the other documents keeps: \<open>lines\<close> are the documents merged so far.\<close>

definition merged :: "string list list \<Rightarrow> nat \<Rightarrow> aligned_row list list \<Rightarrow> aligned_row list \<Rightarrow> bool" where
  "merged lines n segments rows =
     (length segments = n + 1 \<and> length rows = n
      \<and> rows_ok (length lines) (\<Union> (set ` set segments) \<union> set rows)
      \<and> (\<forall>d < length lines. present (map (cell d) (interleave segments rows)) =
           map (line_cell_of (lines ! d)) [0 ..< length (lines ! d)]))"

lemma merged_step:
  assumes ok: "merged lines n segments rows" and a: "aligned other n n (length other) (mapped, inserts)"
  shows "merged (lines @ [other]) n
     (map (\<lambda>(s, ins). merge_inserted_rows s ins (length lines)) (zip segments inserts))
     (map (\<lambda>(r, c). r\<lparr>ar_cells := ar_cells r @ [c]\<rparr>) (zip rows mapped))"
    (is "merged _ _ ?segs ?rows")
proof -
  let ?k = "length lines"
  have len: "length segments = n + 1" "length rows = n"
    and rows: "\<forall>s \<in> set segments. rows_ok ?k (set s)" "rows_ok ?k (set rows)"
    using ok by (auto simp: merged_def rows_ok_def)
  note al = aligned_interleave[OF a]
  have old_rows: "map (cell d) ?rows = map (cell d) rows" if "d < ?k" for d
    using al rows(2) len that by (auto intro!: nth_equalityI simp: rows_ok_def nth_append)
  have new_rows: "map (cell ?k) ?rows = mapped"
    using al rows(2) len by (auto intro!: nth_equalityI simp: rows_ok_def nth_append)
  have "rows_ok (Suc ?k) (set ?rows)"
    using rows(2) by (fastforce simp: rows_ok_def dest!: set_zip_leftD)
  moreover have "rows_ok (Suc ?k) (set s)" if "s \<in> set ?segs" for s
    using that rows(1) al by (auto intro!: merge_rows_ok dest: set_zip_leftD set_zip_rightD)
  ultimately have "rows_ok (length (lines @ [other])) (\<Union> (set ` set ?segs) \<union> set ?rows)"
    unfolding rows_ok_def by auto
  moreover have "present (map (cell d) (interleave ?segs ?rows)) =
      map (line_cell_of (lines ! d)) [0 ..< length (lines ! d)]" if "d < ?k" for d
  proof -
    have "present (map (cell d) (interleave ?segs ?rows)) = present (interleave (map (map (cell d)) ?segs) (map (cell d) rows))"
      by (simp add: interleave_map old_rows[OF that] del: map_map)
    also have "\<dots> = present (interleave (map (map (cell d)) segments) (map (cell d) rows))"
      using rows(1) al len that
      by (intro filter_interleave) (auto simp: list_all2_conv_all_nth intro!: merge_old_column)
    finally show ?thesis
      using ok that by (simp add: merged_def interleave_map)
  qed
  moreover have "present (map (cell ?k) (interleave ?segs ?rows)) = map (line_cell_of other) [0 ..< length other]"
  proof -
    have "present (map (cell ?k) (interleave ?segs ?rows)) = present (interleave (map (map (cell ?k)) ?segs) mapped)"
      by (simp add: interleave_map new_rows del: map_map)
    also have "\<dots> = present (interleave inserts mapped)"
    proof (intro filter_interleave)
      have "present (map (cell ?k) (merge_inserted_rows (segments ! i) (inserts ! i) ?k)) = present (inserts ! i)"
        if "i < n + 1" for i
      proof -
        have "rows_ok ?k (set (segments ! i))" "list_all lc_present (inserts ! i)"
          using rows(1) al len that by simp_all
        then show ?thesis
          using merge_new_column by (simp add: list_all_iff filter_id_conv)
      qed
      then show "list_all2 (\<lambda>s s'. present s = present s') (map (map (cell ?k)) ?segs) inserts"
        using al len by (simp add: list_all2_conv_all_nth)
    qed (use al len in simp)
    finally show ?thesis
      using al by simp
  qed
  ultimately show ?thesis
    using al len by (auto simp: merged_def nth_append less_Suc_eq)
qed

lemma align_others_merged:
  assumes "\<forall>d \<in> set ds. tiles base (doc_lines d) (ops base (doc_lines d))"
    and "merged lines (length base) segments rows"
  shows "\<exists>segments' rows'. align_others ops base ds segments rows (length lines) = Some (segments', rows')
     \<and> merged (lines @ map doc_lines ds) (length base) segments' rows'"
  using assms
proof (induction ds arbitrary: lines segments rows)
  case (Cons d ds)
  then obtain mapped inserts where a: "align_to_base ops base (doc_lines d) = Some (mapped, inserts)"
    "aligned (doc_lines d) (length base) (length base) (length (doc_lines d)) (mapped, inserts)"
    using align_to_base_aligned[of base "doc_lines d" ops] by auto
  from Cons.IH[OF _ merged_step[OF Cons.prems(2) a(2)]] Cons.prems(1) a(1) show ?case
    by simp
qed simp

lemma merged_first:
  "merged [ls] (length ls) (replicate (length ls + 1) [])
     (map (\<lambda>i. \<lparr>ar_cells = [line_cell_of ls i], ar_changed = False\<rparr>) [0 ..< length ls])"
proof -
  have "interleave (replicate (Suc (length xs)) []) xs = xs" for xs :: "'a list"
    by (induction xs) simp_all
  from this[of "map (\<lambda>i. \<lparr>ar_cells = [line_cell_of ls i], ar_changed = False\<rparr>) [0 ..< length ls]"]
  show ?thesis
    by (simp add: merged_def rows_ok_def line_cell_of_def comp_def filter_id_conv del: replicate_Suc)
qed

section \<open>Changed rows\<close>

lemma changed_loop_Some:
  "fst (changed_loop cs (Some t)) = (\<exists>c \<in> set cs. \<not> lc_present c \<or> lc_text c \<noteq> t)"
  "snd (changed_loop cs (Some t)) = Some t"
  by (induction cs) auto

lemma changed_loop_skip:
  "\<forall>c \<in> set pre. \<not> lc_present c \<Longrightarrow> lc_present c \<Longrightarrow>
     changed_loop (pre @ c # post) None = changed_loop post (Some (lc_text c))"
  by (induction pre) auto

lemma row_changed_iff:
  assumes "\<exists>c \<in> set cs. lc_present c"
  shows "row_changed cs \<longleftrightarrow> \<not> (\<exists>t. \<forall>c \<in> set cs. lc_present c \<and> lc_text c = t)"
proof -
  obtain pre c post where cs: "cs = pre @ c # post" "lc_present c" "\<forall>c \<in> set pre. \<not> lc_present c"
    using split_list_first_prop[OF assms] by blast
  let ?bad = "\<lambda>d. \<not> lc_present d \<or> lc_text d \<noteq> lc_text c"
  have "changed_loop cs None = (\<exists>d \<in> set post. ?bad d, Some (lc_text c))"
    unfolding cs(1) changed_loop_skip[OF cs(3,2)]
    by (rule prod_eqI) (simp_all add: changed_loop_Some)
  then have "row_changed cs = ((\<exists>d \<in> set post. ?bad d) \<or> (\<exists>d \<in> set cs. \<not> lc_present d))"
    by (simp add: row_changed_def list_ex_iff split: bool.split)
  with cs show ?thesis
    by auto
qed

section \<open>Properties\<close>

text \<open>
  C26. Aligning a list of documents never indexes out of range. Every row has one cell per
  document, and reading the cells that are present in the column of a document from top to
  bottom gives exactly its lines, numbered from 1: no line of any document is lost, repeated or
  moved. A row is marked as changed exactly when its cells are not all present with the same
  text.
\<close>

theorem align_documents_lossless:
  assumes "\<forall>d \<in> set others. tiles (doc_lines base) (doc_lines d) (ops (doc_lines base) (doc_lines d))"
  shows "\<exists>rows. align_documents ops (base # others) = Some rows
     \<and> (\<forall>r \<in> set rows. length (ar_cells r) = length (base # others)
          \<and> (ar_changed r \<longleftrightarrow> \<not> (\<exists>t. \<forall>c \<in> set (ar_cells r). lc_present c \<and> lc_text c = t)))
     \<and> (\<forall>d < length (base # others).
          filter lc_present (map (\<lambda>r. ar_cells r ! d) rows) =
            map (line_cell_of (doc_lines ((base # others) ! d)))
              [0 ..< length (doc_lines ((base # others) ! d))])"
proof -
  let ?docs = "map doc_lines (base # others)" and ?n = "length (doc_lines base)"
  let ?mark = "\<lambda>r. r\<lparr>ar_changed := row_changed (ar_cells r)\<rparr>"
  obtain segments rows where r: "align_others ops (doc_lines base) others (replicate (?n + 1) [])
      (map (\<lambda>i. \<lparr>ar_cells = [line_cell_of (doc_lines base) i], ar_changed = False\<rparr>) [0 ..< ?n]) 1
      = Some (segments, rows)" and m: "merged ?docs ?n segments rows"
    using align_others_merged[of others "doc_lines base" ops "[doc_lines base]", OF assms merged_first] by auto
  let ?rows = "interleave segments rows"
  have "rows_ok (length ?docs) (set ?rows)"
    using m set_interleave[of segments rows] by (simp add: merged_def)
  then have "\<forall>r \<in> set (map ?mark ?rows). length (ar_cells r) = length (base # others)
          \<and> (ar_changed r \<longleftrightarrow> \<not> (\<exists>t. \<forall>c \<in> set (ar_cells r). lc_present c \<and> lc_text c = t))"
    by (auto simp: rows_ok_def row_changed_iff)
  moreover have "filter lc_present (map (\<lambda>r. ar_cells r ! d) (map ?mark ?rows)) =
      map (line_cell_of (doc_lines ((base # others) ! d))) [0 ..< length (doc_lines ((base # others) ! d))]"
    if "d < length (base # others)" for d
    using m that nth_map[OF that, of doc_lines] by (simp add: merged_def comp_def)
  moreover have "align_documents ops (base # others) = Some (map ?mark ?rows)"
    using r by (simp add: align_documents_def Let_def)
  ultimately show ?thesis
    by blast
qed

definition sample_ops :: "string list \<Rightarrow> string list \<Rightarrow> opcode list" where
  "sample_ops base other =
     [\<lparr>op_tag = CHR ''e'', op_i1 = 0, op_i2 = 1, op_j1 = 0, op_j2 = 1\<rparr>,
      \<lparr>op_tag = CHR ''r'', op_i1 = 1, op_i2 = 2, op_j1 = 1, op_j2 = 3\<rparr>]"

lemma align_documents_lossless_witness:
  "\<exists>rows. align_documents sample_ops [\<lparr>doc_title = ''a'', doc_lines = [''x'', ''y''], doc_error = ''''\<rparr>,
        \<lparr>doc_title = ''b'', doc_lines = [''x'', ''z'', ''w''], doc_error = ''''\<rparr>] = Some rows
     \<and> map ar_changed rows = [False, True, True]"
proof -
  let ?a = "\<lparr>doc_title = ''a'', doc_lines = [''x'', ''y''], doc_error = ''''\<rparr>"
  let ?b = "\<lparr>doc_title = ''b'', doc_lines = [''x'', ''z'', ''w''], doc_error = ''''\<rparr>"
  have "\<forall>d \<in> set [?b]. tiles (doc_lines ?a) (doc_lines d) (sample_ops (doc_lines ?a) (doc_lines d))"
    by code_simp
  from align_documents_lossless[of "[?b]" ?a sample_ops, OF this] obtain rows where
    "align_documents sample_ops [?a, ?b] = Some rows"
    by blast
  moreover have "map_option (map ar_changed) (align_documents sample_ops [?a, ?b]) = Some [False, True, True]"
    by code_simp
  ultimately show ?thesis
    by simp
qed

end
