(* ===== verification/Go_Netip.thy ===== *)
theory Go_Netip
  imports Go_Base "HOL-Library.Word"
begin

unbundle bit_operations_syntax

text \<open>
  What the configuration uses of Go's \<^verbatim>\<open>net/netip\<close>: parsing addresses and prefixes, unmapping
  IPv4 addresses mapped into IPv6, and prefix containment. An address is a 32 or 128 bit word,
  the latter with its zone.
\<close>

section \<open>Addresses\<close>

datatype ip_addr = Ip4 "32 word" | Ip6 "128 word" (ip_zone: string)

datatype ip_prefix = Prefix4 "32 word" nat | Prefix6 "128 word" nat

text \<open>\<open>parseIPv4Fields\<close>: four decimal fields of at most 255, without leading zeros.\<close>

definition ipv4_field :: "string \<Rightarrow> int option" where
  "ipv4_field f =
     (if f \<noteq> '''' \<and> list_all is_digit f \<and> (length f = 1 \<or> hd f \<noteq> CHR ''0'') \<and> digits_value f \<le> 255
      then Some (digits_value f) else None)"

definition ipv4_fields :: "string \<Rightarrow> int list option" where
  "ipv4_fields s =
     (let fs = map ipv4_field (split_on CHR ''.'' s)
      in if length fs = 4 \<and> None \<notin> set fs then Some (map the fs) else None)"

definition bytes_value :: "int list \<Rightarrow> int" where
  "bytes_value bs = foldl (\<lambda>n b. 256 * n + b) 0 bs"

definition hex_digit :: "char \<Rightarrow> int option" where
  "hex_digit c =
     (let n = (of_char c :: int)
      in if 48 \<le> n \<and> n \<le> 57 then Some (n - 48)
         else if 97 \<le> n \<and> n \<le> 102 then Some (n - 87)
         else if 65 \<le> n \<and> n \<le> 70 then Some (n - 55)
         else None)"

text \<open>The hexadecimal digits a string starts with, and what follows them.\<close>

fun hex_group :: "string \<Rightarrow> int list \<times> string" where
  "hex_group [] = ([], [])"
| "hex_group (c # s) =
     (case hex_digit c of None \<Rightarrow> ([], c # s)
      | Some d \<Rightarrow> (let (ds, r) = hex_group s in (d # ds, r)))"

lemma hex_group_length: "hex_group s = (ds, r) \<Longrightarrow> length r + length ds = length s"
  by (induction s arbitrary: ds r) (auto split: option.splits prod.splits)

text \<open>The loop of \<open>parseIPv6\<close>: the text still to be read, the bytes written so far and the
  position of the ellipsis. The result is the bytes and the ellipsis, \<open>None\<close> an error.\<close>

function ipv6_loop :: "string \<Rightarrow> int list \<Rightarrow> nat option \<Rightarrow> (int list \<times> nat option) option" where
  "ipv6_loop s bs ellipsis =
     (if 16 \<le> length bs then (if s = '''' then Some (bs, ellipsis) else None)
      else
        (case hex_group s of (ds, r) \<Rightarrow>
          if ds = [] \<or> 4 < length ds then None
          else if has_prefix r ''.'' then
            (if ellipsis = None \<and> length bs \<noteq> 12 then None
             else if 16 < length bs + 4 then None
             else case ipv4_fields s of None \<Rightarrow> None | Some fs \<Rightarrow> Some (bs @ fs, ellipsis))
          else
            (let acc = foldl (\<lambda>n d. 16 * n + d) 0 ds; bs' = bs @ [acc div 256, acc mod 256]
             in if r = '''' then Some (bs', ellipsis)
                else if hd r \<noteq> CHR '':'' then None
                else if length r = 1 then None
                else if hd (tl r) = CHR '':'' then
                  (if ellipsis \<noteq> None then None
                   else if length r = 2 then Some (bs', Some (length bs'))
                   else ipv6_loop (tl (tl r)) bs' (Some (length bs')))
                else ipv6_loop (tl r) bs' ellipsis)))"
  by pat_completeness auto
termination
  by (relation "measure (\<lambda>(s, bs, e). length s)")
    (auto dest!: hex_group_length[OF sym] simp: less_Suc_eq_le neq_Nil_conv)

declare ipv6_loop.simps [simp del]

definition parse_ipv6 :: "string \<Rightarrow> ip_addr option" where
  "parse_ipv6 input =
     (let (s, zone) = (case split_at CHR ''%'' input of None \<Rightarrow> (input, None) | Some (a, z) \<Rightarrow> (a, Some z));
          z = (case zone of None \<Rightarrow> '''' | Some z \<Rightarrow> z);
          ellipsis0 = has_prefix s ''::'';
          s = (if ellipsis0 then drop 2 s else s)
      in if zone = Some '''' then None
         else if ellipsis0 \<and> s = '''' then Some (Ip6 0 z)
         else
           (case ipv6_loop s [] (if ellipsis0 then Some 0 else None) of None \<Rightarrow> None
            | Some (bs, ellipsis) \<Rightarrow>
                if length bs < 16 then
                  (case ellipsis of None \<Rightarrow> None
                   | Some e \<Rightarrow> Some (Ip6 (word_of_int (bytes_value
                       (take e bs @ replicate (16 - length bs) 0 @ drop e bs))) z))
                else if ellipsis \<noteq> None then None
                else Some (Ip6 (word_of_int (bytes_value bs)) z)))"

definition parse_addr :: "string \<Rightarrow> ip_addr option" where
  "parse_addr s =
     (case find (\<lambda>c. c = CHR ''.'' \<or> c = CHR '':'' \<or> c = CHR ''%'') s of
        None \<Rightarrow> None
      | Some c \<Rightarrow>
          if c = CHR ''.'' then map_option (\<lambda>fs. Ip4 (word_of_int (bytes_value fs))) (ipv4_fields s)
          else if c = CHR '':'' then parse_ipv6 s
          else None)"

definition unmap :: "ip_addr \<Rightarrow> ip_addr" where
  "unmap a = (case a of Ip4 w \<Rightarrow> Ip4 w
     | Ip6 w z \<Rightarrow> if drop_bit 32 w = 0xFFFF then Ip4 (ucast w) else Ip6 w z)"

section \<open>Prefixes\<close>

definition last_slash :: "string \<Rightarrow> (string \<times> string) option" where
  "last_slash s = map_option (\<lambda>(a, b). (rev b, rev a)) (split_at CHR ''/'' (rev s))"

definition parse_prefix :: "string \<Rightarrow> ip_prefix option" where
  "parse_prefix s =
     (case last_slash s of None \<Rightarrow> None
      | Some (a, bits_str) \<Rightarrow>
          (case parse_addr a of None \<Rightarrow> None
           | Some ip \<Rightarrow>
               if (case ip of Ip4 _ \<Rightarrow> False | Ip6 _ z \<Rightarrow> z \<noteq> '''') then None
               else if 1 < length bits_str \<and> (\<not> is_digit (hd bits_str) \<or> hd bits_str = CHR ''0'') then None
               else (case atoi bits_str of None \<Rightarrow> None
                 | Some bits \<Rightarrow>
                     (case ip of
                        Ip4 w \<Rightarrow> if 0 \<le> bits \<and> bits \<le> 32 then Some (Prefix4 w (nat bits)) else None
                      | Ip6 w _ \<Rightarrow> if 0 \<le> bits \<and> bits \<le> 128 then Some (Prefix6 w (nat bits)) else None))))"

definition masked :: "ip_prefix \<Rightarrow> ip_prefix" where
  "masked p = (case p of
       Prefix4 w n \<Rightarrow> Prefix4 (push_bit (32 - n) (drop_bit (32 - n) w)) n
     | Prefix6 w n \<Rightarrow> Prefix6 (push_bit (128 - n) (drop_bit (128 - n) w)) n)"

definition prefix_contains :: "ip_prefix \<Rightarrow> ip_addr \<Rightarrow> bool" where
  "prefix_contains p a = (case (p, a) of
       (Prefix4 w n, Ip4 v) \<Rightarrow> drop_bit (32 - n) (w XOR v) = 0
     | (Prefix6 w n, Ip6 v z) \<Rightarrow> z = '''' \<and> drop_bit (128 - n) (w XOR v) = 0
     | _ \<Rightarrow> False)"

end
