(* ===== verification/Conf_Match.thy ===== *)
theory Conf_Match
  imports Go_Netip "HOL-Library.AList" "HOL-Library.Multiset" "HOL-Library.Product_Lexorder"
begin

text \<open>
  Conditional server settings, \<^verbatim>\<open>internal/config/match.go\<close> and the structures of
  \<^verbatim>\<open>internal/config/conf_struct_server.go\<close>: the branches \<^verbatim>\<open>[server.name.match.branch]\<close> of a
  server, the conditions on the local machine they carry, and how the branches that match
  override the server's settings.

  The struct fields with a configuration key are a function from the key to the value, since
  the code reads and writes them by reflection over the keys. A Go map is a list of key-value
  pairs with distinct keys; its order is the iteration order, which the language leaves open.
\<close>

section \<open>Settings\<close>

datatype conf_value =
  V_String string | V_Bool bool | V_Int int | V_Strings "string list" | V_Branches

text \<open>The keys of \<open>ServerConfig\<close>, in the order of its fields.\<close>

definition server_keys :: "string list" where
  "server_keys =
    [''addr'', ''port'', ''user'', ''pass'', ''pass_ref'', ''passes'', ''key'', ''key_ref'',
      ''keycmd'', ''keycmdpass'', ''keycmdpass_ref'', ''keypass'', ''keypass_ref'', ''keys'',
      ''cert'', ''cert_ref'', ''certs'', ''certkey'', ''certkey_ref'', ''certkeypass'',
      ''certkeypass_ref'', ''certpkcs11'', ''agentauth'', ''ssh_agent'', ''ssh_agent_key'',
      ''pkcs11'', ''pkcs11provider'', ''pkcs11pin'', ''pkcs11pin_ref'', ''pre_cmd'',
      ''post_cmd'', ''proxy_type'', ''proxy'', ''proxy_cmd'', ''local_rc'', ''local_rc_file'',
      ''local_rc_compress'', ''local_rc_decode_cmd'', ''local_rc_uncompress_cmd'',
      ''port_forward'', ''port_forward_local'', ''port_forward_remote'', ''port_forwards'',
      ''dynamic_port_forward'', ''reverse_dynamic_port_forward'',
      ''http_dynamic_port_forward'', ''http_reverse_dynamic_port_forward'',
      ''nfs_dynamic_forward'', ''nfs_dynamic_forward_path'', ''nfs_reverse_dynamic_forward'',
      ''nfs_reverse_dynamic_forward_path'', ''smb_dynamic_forward'',
      ''smb_dynamic_forward_path'', ''smb_reverse_dynamic_forward'',
      ''smb_reverse_dynamic_forward_path'', ''x11'', ''x11_trusted'', ''connect_timeout'',
      ''alive_max'', ''alive_interval'', ''check_known_hosts'', ''known_hosts_files'',
      ''control_master'', ''control_path'', ''control_persist'', ''note'', ''ignore'',
      ''connector_name'', ''match'']"

text \<open>The keys \<open>collectDefinedMatchKeys\<close> (and its twin for YAML) looks for in a branch.\<close>

definition tracked_keys :: "string list" where
  "tracked_keys =
    [''addr'', ''port'', ''user'', ''pass'', ''pass_ref'', ''passes'', ''key'', ''key_ref'',
      ''keycmd'', ''keycmdpass'', ''keycmdpass_ref'', ''keypass'', ''keypass_ref'', ''keys'',
      ''cert'', ''cert_ref'', ''certs'', ''certkey'', ''certkey_ref'', ''certkeypass'',
      ''certkeypass_ref'', ''certpkcs11'', ''agentauth'', ''ssh_agent'', ''ssh_agent_key'',
      ''pkcs11'', ''pkcs11provider'', ''pkcs11pin'', ''pkcs11pin_ref'', ''pre_cmd'',
      ''post_cmd'', ''proxy_type'', ''proxy'', ''proxy_cmd'', ''local_rc'', ''local_rc_file'',
      ''local_rc_compress'', ''local_rc_decode_cmd'', ''local_rc_uncompress_cmd'',
      ''port_forward'', ''port_forward_local'', ''port_forward_remote'', ''port_forwards'',
      ''dynamic_port_forward'', ''reverse_dynamic_port_forward'',
      ''http_dynamic_port_forward'', ''http_reverse_dynamic_port_forward'',
      ''nfs_dynamic_forward'', ''nfs_dynamic_forward_path'', ''nfs_reverse_dynamic_forward'',
      ''nfs_reverse_dynamic_forward_path'', ''smb_dynamic_forward'',
      ''smb_dynamic_forward_path'', ''smb_reverse_dynamic_forward'',
      ''smb_reverse_dynamic_forward_path'', ''x11'', ''x11_trusted'', ''connect_timeout'',
      ''alive_max'', ''alive_interval'', ''check_known_hosts'', ''known_hosts_files'',
      ''control_master'', ''control_path'', ''control_persist'', ''note'', ''ignore'']"

record match_when =
  mw_local_ip_in :: "string list"
  mw_local_ip_not_in :: "string list"
  mw_gateway_in :: "string list"
  mw_gateway_not_in :: "string list"
  mw_username_in :: "string list"
  mw_username_not_in :: "string list"
  mw_hostname_in :: "string list"
  mw_hostname_not_in :: "string list"
  mw_os_in :: "string list"
  mw_os_not_in :: "string list"
  mw_term_in :: "string list"
  mw_term_not_in :: "string list"
  mw_env_in :: "string list"
  mw_env_not_in :: "string list"
  mw_env_value_in :: "string list"
  mw_env_value_not_in :: "string list"

definition when_empty :: "match_when \<Rightarrow> bool" where
  "when_empty w =
     (mw_local_ip_in w = [] \<and> mw_local_ip_not_in w = [] \<and> mw_gateway_in w = [] \<and> mw_gateway_not_in w = []
      \<and> mw_username_in w = [] \<and> mw_username_not_in w = [] \<and> mw_hostname_in w = [] \<and> mw_hostname_not_in w = []
      \<and> mw_os_in w = [] \<and> mw_os_not_in w = [] \<and> mw_term_in w = [] \<and> mw_term_not_in w = []
      \<and> mw_env_in w = [] \<and> mw_env_not_in w = [] \<and> mw_env_value_in w = [] \<and> mw_env_value_not_in w = [])"

record match_branch =
  mb_values :: "string \<Rightarrow> conf_value"
  mb_priority :: int
  mb_when :: match_when
  mb_order :: nat
  mb_priority_defined :: bool
  mb_defined :: "string list"     \<comment> \<open>the keys that are set in the branch\<close>

record server_config =
  sc_values :: "string \<Rightarrow> conf_value"
  sc_match :: "(string \<times> match_branch) list"

type_synonym servers = "(string \<times> server_config) list"

definition effective_priority :: "match_branch \<Rightarrow> int" where
  "effective_priority b = (if mb_priority_defined b then mb_priority b else 100)"

definition is_defined :: "match_branch \<Rightarrow> string \<Rightarrow> bool" where
  "is_defined b key = (if mb_defined b = [] then False else key \<in> set (mb_defined b))"

text \<open>\<open>OverrideConfig\<close> copies the fields the branch struct has; the two others keep the zero
  value of their type.\<close>

definition override_config :: "match_branch \<Rightarrow> string \<Rightarrow> conf_value" where
  "override_config b key =
     (if key = ''connector_name'' then V_String ''''
      else if key = ''match'' then V_Branches
      else mb_values b key)"

definition merge_server_match :: "server_config \<Rightarrow> match_branch \<Rightarrow> server_config" where
  "merge_server_match base b =
     foldl (\<lambda>r tag. if tag = '''' \<or> \<not> is_defined b tag then r
                    else r\<lparr>sc_values := (sc_values r)(tag := override_config b tag)\<rparr>)
           base server_keys"

section \<open>Metadata of the file\<close>

text \<open>\<open>defined\<close> is \<open>IsDefined\<close> of the metadata of the TOML library, the keys are the paths it
  lists in the order of the file.\<close>

definition match_metadata_step ::
  "(string list \<Rightarrow> bool) \<Rightarrow> nat \<times> servers \<Rightarrow> string list \<Rightarrow> nat \<times> servers" where
  "match_metadata_step defined st key =
     (case st of (order, servers) \<Rightarrow>
       if length key < 4 \<or> key ! 0 \<noteq> ''server'' \<or> key ! 2 \<noteq> ''match'' then st
       else
         (case map_of servers (key ! 1) of None \<Rightarrow> st
          | Some s \<Rightarrow>
             (case map_of (sc_match s) (key ! 3) of None \<Rightarrow> st
              | Some b \<Rightarrow>
                  (let order' = (if mb_order b = 0 then order + 1 else order);
                       branch = [''server'', key ! 1, ''match'', key ! 3];
                       b = b\<lparr>mb_order := (if mb_order b = 0 then order' else mb_order b),
                             mb_priority_defined := (if defined (branch @ [''priority'']) then True
                                                     else mb_priority_defined b),
                             mb_defined := filter (\<lambda>k. defined (branch @ [k])) tracked_keys\<rparr>
                   in (order', AList.update (key ! 1)
                         (s\<lparr>sc_match := AList.update (key ! 3) b (sc_match s)\<rparr>) servers)))))"

definition apply_match_metadata ::
  "(string list \<Rightarrow> bool) \<Rightarrow> string list list \<Rightarrow> servers \<Rightarrow> servers" where
  "apply_match_metadata defined keys servers =
     snd (foldl (match_metadata_step defined) (0, servers) keys)"

section \<open>The local machine\<close>

record match_requirements =
  mr_local_ip :: bool
  mr_gateway :: bool
  mr_username :: bool
  mr_hostname :: bool
  mr_os :: bool
  mr_term :: bool
  mr_env :: bool

definition no_requirements :: match_requirements where
  "no_requirements = \<lparr>mr_local_ip = False, mr_gateway = False, mr_username = False,
     mr_hostname = False, mr_os = False, mr_term = False, mr_env = False\<rparr>"

definition need_nothing :: "match_requirements \<Rightarrow> bool" where
  "need_nothing r = (\<not> mr_local_ip r \<and> \<not> mr_gateway r \<and> \<not> mr_username r \<and> \<not> mr_hostname r
     \<and> \<not> mr_os r \<and> \<not> mr_term r \<and> \<not> mr_env r)"

text \<open>The fields of a context that are read after it is built; the errors of the lookups are
  only logged.\<close>

record match_context =
  mx_local_ips :: "ip_addr list"
  mx_gateways :: "ip_addr list"
  mx_username :: string
  mx_hostname :: string
  mx_os :: string
  mx_terms :: "string list"
  mx_env_names :: "string list"
  mx_env_values :: "(string \<times> string) list"

text \<open>What the code asks the operating system: the addresses of the interfaces that are up, the
  default gateway (nothing when the lookup fails), names, and the environment.\<close>

record host_env =
  he_interface_addrs :: "string list"
  he_gateway :: "ip_addr option"
  he_username :: string
  he_hostname :: string
  he_os :: string
  he_environ :: "string list"

fun unique_addrs_from :: "ip_addr list \<Rightarrow> ip_addr list \<Rightarrow> ip_addr list" where
  "unique_addrs_from seen [] = []"
| "unique_addrs_from seen (a # as) =
     (if a \<in> set seen then unique_addrs_from seen as else a # unique_addrs_from (a # seen) as)"

definition unique_addrs :: "ip_addr list \<Rightarrow> ip_addr list" where
  "unique_addrs as = unique_addrs_from [] as"

fun unique_strings_from :: "string list \<Rightarrow> string list \<Rightarrow> string list" where
  "unique_strings_from seen [] = []"
| "unique_strings_from seen (v # vs) =
     (if v = '''' \<or> to_lower v \<in> set seen then unique_strings_from seen vs
      else to_lower v # unique_strings_from (to_lower v # seen) vs)"

definition unique_strings :: "string list \<Rightarrow> string list" where
  "unique_strings vs = unique_strings_from [] vs"

text \<open>The address part of a prefix, as \<open>netip.ParsePrefix(s).Addr()\<close> keeps it unmasked.\<close>

definition prefix_addr :: "ip_prefix \<Rightarrow> ip_addr" where
  "prefix_addr p = (case p of Prefix4 w _ \<Rightarrow> Ip4 w | Prefix6 w _ \<Rightarrow> Ip6 w '''')"

definition get_local_ips :: "host_env \<Rightarrow> ip_addr list" where
  "get_local_ips h =
     unique_addrs (map (unmap \<circ> prefix_addr) (List.map_filter parse_prefix (he_interface_addrs h)))"

definition get_default_gateways :: "host_env \<Rightarrow> ip_addr list" where
  "get_default_gateways h = (case he_gateway h of None \<Rightarrow> [] | Some a \<Rightarrow> [unmap a])"

text \<open>The environment entries with a name, as pairs; \<open>os.Getenv\<close> answers with the first one.\<close>

definition env_pairs :: "host_env \<Rightarrow> (string \<times> string) list" where
  "env_pairs h = filter (\<lambda>(n, v). n \<noteq> '''') (List.map_filter (split_at CHR ''='') (he_environ h))"

definition getenv :: "host_env \<Rightarrow> string \<Rightarrow> string" where
  "getenv h name = (case map_of (env_pairs h) name of None \<Rightarrow> '''' | Some v \<Rightarrow> v)"

definition get_env_names :: "host_env \<Rightarrow> string list" where
  "get_env_names h = unique_strings (map fst (env_pairs h))"

text \<open>Later entries of a name overwrite earlier ones.\<close>

definition get_env_values :: "host_env \<Rightarrow> (string \<times> string) list" where
  "get_env_values h = rev (env_pairs h)"

definition get_terminal_kinds :: "host_env \<Rightarrow> string list" where
  "get_terminal_kinds h =
     (let term_program = to_lower (trim_space (getenv h ''TERM_PROGRAM''));
          from_program = (if term_program = '''' then []
            else term_program #
              (if contains term_program ''iterm'' then [''iterm2'']
               else if contains term_program ''apple_terminal'' \<or> contains term_program ''terminal.app''
               then [''terminal''] else []));
          from_wt = (if getenv h ''WT_SESSION'' \<noteq> '''' then [''windows-terminal''] else []);
          t = to_lower (trim_space (getenv h ''TERM''));
          from_term = (if t = '''' then []
            else t # (case split_at CHR ''-'' t of Some (a, _) \<Rightarrow> (if a \<noteq> '''' then [a] else []) | None \<Rightarrow> []))
      in unique_strings (from_program @ from_wt @ from_term))"

definition build_match_context :: "host_env \<Rightarrow> match_requirements \<Rightarrow> match_context" where
  "build_match_context h r =
     \<lparr>mx_local_ips = (if mr_local_ip r then get_local_ips h else []),
      mx_gateways = (if mr_gateway r then get_default_gateways h else []),
      mx_username = (if mr_username r then he_username h else ''''),
      mx_hostname = (if mr_hostname r then he_hostname h else ''''),
      mx_os = (if mr_os r then he_os h else ''''),
      mx_terms = (if mr_term r then get_terminal_kinds h else []),
      mx_env_names = (if mr_env r then get_env_names h else []),
      mx_env_values = (if mr_env r then get_env_values h else [])\<rparr>"

section \<open>Conditions\<close>

text \<open>\<open>parseIPorPrefix\<close>: an address, a prefix, or an error.\<close>

datatype ip_pattern = Pattern_Addr ip_addr | Pattern_Prefix ip_prefix

definition parse_ip_or_prefix :: "string \<Rightarrow> ip_pattern result" where
  "parse_ip_or_prefix v =
     (case parse_addr v of Some a \<Rightarrow> Inr (Pattern_Addr (unmap a))
      | None \<Rightarrow> (case parse_prefix v of Some p \<Rightarrow> Inr (Pattern_Prefix (masked p))
                 | None \<Rightarrow> errorf (''invalid IP/CIDR '' @ v)))"

definition pattern_matches :: "ip_pattern \<Rightarrow> ip_addr \<Rightarrow> bool" where
  "pattern_matches p a = (case p of Pattern_Addr b \<Rightarrow> a = b | Pattern_Prefix q \<Rightarrow> prefix_contains q a)"

fun match_ip_patterns :: "ip_addr list \<Rightarrow> string list \<Rightarrow> bool" where
  "match_ip_patterns actual [] = False"
| "match_ip_patterns actual (e # es) =
     (case parse_ip_or_prefix e of Inl _ \<Rightarrow> False
      | Inr p \<Rightarrow> if list_ex (pattern_matches p) actual then True else match_ip_patterns actual es)"

definition match_ip_list :: "ip_addr list \<Rightarrow> string list \<Rightarrow> bool" where
  "match_ip_list actual expected = (if actual = [] then False else match_ip_patterns actual expected)"

definition match_string_list :: "string \<Rightarrow> string list \<Rightarrow> bool" where
  "match_string_list v candidates = list_ex (\<lambda>c. v = c) candidates"

definition match_any_string_list :: "string list \<Rightarrow> string list \<Rightarrow> bool" where
  "match_any_string_list actual expected =
     (if actual = [] then False else list_ex (\<lambda>c. to_lower c \<in> set (map to_lower actual)) expected)"

definition match_env_value_list :: "(string \<times> string) list \<Rightarrow> string list \<Rightarrow> bool" where
  "match_env_value_list actual expected =
     (if actual = [] then False
      else list_ex (\<lambda>c. case split_at CHR ''='' c of None \<Rightarrow> False
                        | Some (n, v) \<Rightarrow> map_of actual n = Some v) expected)"

definition when_matches :: "match_when \<Rightarrow> match_context \<Rightarrow> bool" where
  "when_matches w c =
     (if mw_local_ip_in w \<noteq> [] \<and> \<not> match_ip_list (mx_local_ips c) (mw_local_ip_in w) then False
      else if mw_local_ip_not_in w \<noteq> [] \<and> match_ip_list (mx_local_ips c) (mw_local_ip_not_in w) then False
      else if mw_gateway_in w \<noteq> [] \<and> \<not> match_ip_list (mx_gateways c) (mw_gateway_in w) then False
      else if mw_gateway_not_in w \<noteq> [] \<and> match_ip_list (mx_gateways c) (mw_gateway_not_in w) then False
      else if mw_username_in w \<noteq> [] \<and> \<not> match_string_list (mx_username c) (mw_username_in w) then False
      else if mw_username_not_in w \<noteq> [] \<and> match_string_list (mx_username c) (mw_username_not_in w) then False
      else if mw_hostname_in w \<noteq> [] \<and> \<not> match_string_list (mx_hostname c) (mw_hostname_in w) then False
      else if mw_hostname_not_in w \<noteq> [] \<and> match_string_list (mx_hostname c) (mw_hostname_not_in w) then False
      else if mw_os_in w \<noteq> [] \<and> \<not> match_string_list (mx_os c) (mw_os_in w) then False
      else if mw_os_not_in w \<noteq> [] \<and> match_string_list (mx_os c) (mw_os_not_in w) then False
      else if mw_term_in w \<noteq> [] \<and> \<not> match_any_string_list (mx_terms c) (mw_term_in w) then False
      else if mw_term_not_in w \<noteq> [] \<and> match_any_string_list (mx_terms c) (mw_term_not_in w) then False
      else if mw_env_in w \<noteq> [] \<and> \<not> match_any_string_list (mx_env_names c) (mw_env_in w) then False
      else if mw_env_not_in w \<noteq> [] \<and> match_any_string_list (mx_env_names c) (mw_env_not_in w) then False
      else if mw_env_value_in w \<noteq> [] \<and> \<not> match_env_value_list (mx_env_values c) (mw_env_value_in w) then False
      else if mw_env_value_not_in w \<noteq> [] \<and> match_env_value_list (mx_env_values c) (mw_env_value_not_in w) then False
      else True)"

section \<open>Validation and resolution\<close>

definition validate_network_list :: "string list \<Rightarrow> string \<Rightarrow> string \<Rightarrow> string \<Rightarrow> go_error option" where
  "validate_network_list values key server branch =
     map_option (\<lambda>v. case parse_ip_or_prefix v of
          Inl e \<Rightarrow> Go_Error (err_not_exist e)
            (''server.'' @ server @ ''.match.'' @ branch @ ''.when.'' @ key @ '': '' @ err_message e)
        | Inr _ \<Rightarrow> Go_Error False '''')
       (find (\<lambda>v. case parse_ip_or_prefix v of Inl _ \<Rightarrow> True | Inr _ \<Rightarrow> False) values)"

definition add_requirements :: "match_when \<Rightarrow> match_requirements \<Rightarrow> match_requirements" where
  "add_requirements w r =
     \<lparr>mr_local_ip = (mr_local_ip r \<or> mw_local_ip_in w \<noteq> [] \<or> mw_local_ip_not_in w \<noteq> []),
      mr_gateway = (mr_gateway r \<or> mw_gateway_in w \<noteq> [] \<or> mw_gateway_not_in w \<noteq> []),
      mr_username = (mr_username r \<or> mw_username_in w \<noteq> [] \<or> mw_username_not_in w \<noteq> []),
      mr_hostname = (mr_hostname r \<or> mw_hostname_in w \<noteq> [] \<or> mw_hostname_not_in w \<noteq> []),
      mr_os = (mr_os r \<or> mw_os_in w \<noteq> [] \<or> mw_os_not_in w \<noteq> []),
      mr_term = (mr_term r \<or> mw_term_in w \<noteq> [] \<or> mw_term_not_in w \<noteq> []),
      mr_env = (mr_env r \<or> mw_env_in w \<noteq> [] \<or> mw_env_not_in w \<noteq> [] \<or> mw_env_value_in w \<noteq> []
                \<or> mw_env_value_not_in w \<noteq> [])\<rparr>"

text \<open>The checks of one branch, in their order.\<close>

definition validate_branch :: "string \<Rightarrow> string \<times> match_branch \<Rightarrow> match_requirements \<Rightarrow> match_requirements result" where
  "validate_branch server nb r =
     (case nb of (name, b) \<Rightarrow>
        let w = mb_when b
        in if when_empty w
           then errorf (''server.'' @ server @ ''.match.'' @ name @ '': at least one when.* condition is required'')
           else case List.map_filter id
                  [validate_network_list (mw_local_ip_in w) ''local_ip_in'' server name,
                   validate_network_list (mw_local_ip_not_in w) ''local_ip_not_in'' server name,
                   validate_network_list (mw_gateway_in w) ''gateway_in'' server name,
                   validate_network_list (mw_gateway_not_in w) ''gateway_not_in'' server name] of
                  e # _ \<Rightarrow> Inl e
                | [] \<Rightarrow> Inr (add_requirements w r))"

definition validate_match_configs :: "servers \<Rightarrow> match_requirements result" where
  "validate_match_configs servers =
     fold_result (\<lambda>(server, s) r. fold_result (validate_branch server) (sc_match s) r) servers no_requirements"

definition sorted_matches :: "(string \<times> match_branch) list \<Rightarrow> (string \<times> match_branch) list" where
  "sorted_matches ms = sort_key (\<lambda>(n, b). (effective_priority b, mb_order b)) ms"

definition resolve_server :: "match_context \<Rightarrow> server_config \<Rightarrow> server_config" where
  "resolve_server c s =
     (if sc_match s = [] then s
      else (foldl (\<lambda>m (n, b). if when_matches (mb_when b) c then merge_server_match m b else m)
                  s (sorted_matches (sc_match s)))\<lparr>sc_match := sc_match s\<rparr>)"

definition resolve_conditional_matches :: "host_env \<Rightarrow> servers \<Rightarrow> servers result" where
  "resolve_conditional_matches h servers =
     (case validate_match_configs servers of Inl e \<Rightarrow> Inl e
      | Inr r \<Rightarrow>
          if need_nothing r then Inr servers
          else Inr (map (\<lambda>(name, s). (name, resolve_server (build_match_context h r) s)) servers))"

end
