(* ===== verification/Conf_Match_Props.thy ===== *)
theory Conf_Match_Props
  imports Conf_Match
begin

text \<open>
  Properties of the conditional server settings: what a condition means, that the lookups made
  are enough, which value every setting gets, and that the result does not depend on the
  iteration order of Go's maps.
\<close>

section \<open>Conditions\<close>

definition valid_patterns :: "string list \<Rightarrow> bool" where
  "valid_patterns vs = list_all (\<lambda>v. case parse_ip_or_prefix v of Inl _ \<Rightarrow> False | Inr _ \<Rightarrow> True) vs"

definition ip_matches :: "string \<Rightarrow> ip_addr \<Rightarrow> bool" where
  "ip_matches v a = (case parse_ip_or_prefix v of Inl _ \<Rightarrow> False | Inr p \<Rightarrow> pattern_matches p a)"

definition env_value_matches :: "(string \<times> string) list \<Rightarrow> string \<Rightarrow> bool" where
  "env_value_matches vs c = (\<exists>n v. split_at CHR ''='' c = Some (n, v) \<and> map_of vs n = Some v)"

lemma match_ip_list_iff:
  "valid_patterns es \<Longrightarrow> match_ip_list as es \<longleftrightarrow> (\<exists>e \<in> set es. \<exists>a \<in> set as. ip_matches e a)"
proof -
  have "match_ip_patterns as es \<longleftrightarrow> (\<exists>e \<in> set es. \<exists>a \<in> set as. ip_matches e a)" if "valid_patterns es"
    using that
    by (induction as es rule: match_ip_patterns.induct)
      (auto simp: valid_patterns_def ip_matches_def list_ex_iff split: sum.splits)
  then show "valid_patterns es \<Longrightarrow> ?thesis"
    by (auto simp: match_ip_list_def)
qed

lemma match_string_list_iff: "match_string_list v cs \<longleftrightarrow> v \<in> set cs"
  by (auto simp: match_string_list_def list_ex_iff)

lemma match_any_string_list_iff:
  "match_any_string_list as es \<longleftrightarrow> (\<exists>e \<in> set es. \<exists>a \<in> set as. to_lower a = to_lower e)"
  by (auto simp: match_any_string_list_def list_ex_iff image_iff) metis+

lemma match_env_value_list_iff:
  "match_env_value_list vs es \<longleftrightarrow> (\<exists>e \<in> set es. env_value_matches vs e)"
proof -
  have "(case split_at CHR ''='' c of None \<Rightarrow> False | Some (n, v) \<Rightarrow> map_of vs n = Some v)
      = env_value_matches vs c" for c
    by (auto simp: env_value_matches_def split: option.split)
  then show ?thesis
    by (auto simp: match_env_value_list_def list_ex_iff env_value_matches_def)
qed

lemmas match_list_iff = match_ip_list_iff match_string_list_iff match_any_string_list_iff match_env_value_list_iff

text \<open>One kind of condition: a non-empty \<open>in\<close> list needs an element that holds, no element of
  the \<open>not_in\<close> list may hold.\<close>

definition clause :: "('a \<Rightarrow> bool) \<Rightarrow> 'a list \<Rightarrow> 'a list \<Rightarrow> bool" where
  "clause P inside outside = ((inside = [] \<or> (\<exists>e \<in> set inside. P e)) \<and> (\<forall>e \<in> set outside. \<not> P e))"

text \<open>
  A branch applies exactly when each of its eight kinds of conditions holds: addresses and
  gateways by address or prefix, user and host name and operating system exactly, terminal
  kinds and environment names up to case, environment values exactly.
\<close>

theorem when_matches_iff:
  assumes "valid_patterns (mw_local_ip_in w)" and "valid_patterns (mw_local_ip_not_in w)"
    and "valid_patterns (mw_gateway_in w)" and "valid_patterns (mw_gateway_not_in w)"
  shows "when_matches w c \<longleftrightarrow>
     clause (\<lambda>e. \<exists>a \<in> set (mx_local_ips c). ip_matches e a) (mw_local_ip_in w) (mw_local_ip_not_in w)
   \<and> clause (\<lambda>e. \<exists>a \<in> set (mx_gateways c). ip_matches e a) (mw_gateway_in w) (mw_gateway_not_in w)
   \<and> clause ((=) (mx_username c)) (mw_username_in w) (mw_username_not_in w)
   \<and> clause ((=) (mx_hostname c)) (mw_hostname_in w) (mw_hostname_not_in w)
   \<and> clause ((=) (mx_os c)) (mw_os_in w) (mw_os_not_in w)
   \<and> clause (\<lambda>e. \<exists>a \<in> set (mx_terms c). to_lower a = to_lower e) (mw_term_in w) (mw_term_not_in w)
   \<and> clause (\<lambda>e. \<exists>a \<in> set (mx_env_names c). to_lower a = to_lower e) (mw_env_in w) (mw_env_not_in w)
   \<and> clause (env_value_matches (mx_env_values c)) (mw_env_value_in w) (mw_env_value_not_in w)"
proof -
  have string: "(xs \<noteq> [] \<and> \<not> match_string_list v xs) = (\<not> (xs = [] \<or> (\<exists>e \<in> set xs. v = e)))"
    "(ys \<noteq> [] \<and> match_string_list v ys) = (\<not> (\<forall>e \<in> set ys. v \<noteq> e))" for v xs ys
    by (auto simp: match_string_list_iff)
  have any: "(xs \<noteq> [] \<and> \<not> match_any_string_list vs xs) = (\<not> (xs = [] \<or> (\<exists>e \<in> set xs. \<exists>a \<in> set vs. to_lower a = to_lower e)))"
    "(ys \<noteq> [] \<and> match_any_string_list vs ys) = (\<not> (\<forall>e \<in> set ys. \<not> (\<exists>a \<in> set vs. to_lower a = to_lower e)))" for vs xs ys
    by (auto simp: match_any_string_list_iff)
  have env: "(xs \<noteq> [] \<and> \<not> match_env_value_list vs xs) = (\<not> (xs = [] \<or> (\<exists>e \<in> set xs. env_value_matches vs e)))"
    "(ys \<noteq> [] \<and> match_env_value_list vs ys) = (\<not> (\<forall>e \<in> set ys. \<not> env_value_matches vs e))" for vs xs ys
    by (auto simp: match_env_value_list_iff)
  have ip: "valid_patterns xs \<Longrightarrow> (xs \<noteq> [] \<and> \<not> match_ip_list as xs) = (\<not> (xs = [] \<or> (\<exists>e \<in> set xs. \<exists>a \<in> set as. ip_matches e a)))"
    "valid_patterns ys \<Longrightarrow> (ys \<noteq> [] \<and> match_ip_list as ys) = (\<not> (\<forall>e \<in> set ys. \<not> (\<exists>a \<in> set as. ip_matches e a)))" for as xs ys
    by (auto simp: match_ip_list_iff)
  show ?thesis
    unfolding when_matches_def ip(1)[OF assms(1)] ip(2)[OF assms(2)] ip(1)[OF assms(3)] ip(2)[OF assms(4)]
      string any env clause_def
    by (simp only: if_bool_eq_conj simp_thms not_not de_Morgan_disj de_Morgan_conj if_True if_False) argo
qed

section \<open>The lookups are enough\<close>

definition all_requirements :: match_requirements where
  "all_requirements = \<lparr>mr_local_ip = True, mr_gateway = True, mr_username = True,
     mr_hostname = True, mr_os = True, mr_term = True, mr_env = True\<rparr>"

definition covers :: "match_requirements \<Rightarrow> match_requirements \<Rightarrow> bool" where
  "covers r r' = ((mr_local_ip r \<longrightarrow> mr_local_ip r') \<and> (mr_gateway r \<longrightarrow> mr_gateway r')
     \<and> (mr_username r \<longrightarrow> mr_username r') \<and> (mr_hostname r \<longrightarrow> mr_hostname r') \<and> (mr_os r \<longrightarrow> mr_os r')
     \<and> (mr_term r \<longrightarrow> mr_term r') \<and> (mr_env r \<longrightarrow> mr_env r'))"

lemma covers_refl [simp]: "covers r r"
  by (simp add: covers_def)

lemma covers_trans: "covers r r' \<Longrightarrow> covers r' r'' \<Longrightarrow> covers r r''"
  by (simp add: covers_def)

lemma covers_add: "covers r (add_requirements w r)" "covers (add_requirements w no_requirements) (add_requirements w r)"
  by (simp_all add: covers_def add_requirements_def no_requirements_def)

lemma fold_result_covers:
  assumes "\<forall>x r r'. f x r = Inr r' \<longrightarrow> covers r r'" and "fold_result f xs r = Inr r'"
  shows "covers r r'"
  using assms(2) covers_refl
  by (rule fold_result_inv) (use assms(1) covers_trans in blast)

lemma fold_result_at:
  assumes "\<forall>x r r'. f x r = Inr r' \<longrightarrow> covers r r'" and "fold_result f xs r = Inr r'" and "x \<in> set xs"
  shows "\<exists>r1 r2. f x r1 = Inr r2 \<and> covers r2 r'"
proof -
  obtain ys zs where xs: "xs = ys @ x # zs"
    using assms(3) by (meson split_list)
  obtain r1 where "fold_result f ys r = Inr r1" "fold_result f (x # zs) r1 = Inr r'"
    using assms(2) unfolding xs fold_result_append by (auto split: sum.splits)
  then obtain r2 where "f x r1 = Inr r2" "fold_result f zs r2 = Inr r'"
    by (auto split: sum.splits)
  then show ?thesis
    using fold_result_covers[OF assms(1)] by blast
qed

lemma validate_network_list_None: "validate_network_list vs k server n = None \<longleftrightarrow> valid_patterns vs"
  by (auto simp: validate_network_list_def find_None_iff valid_patterns_def list_all_iff split: sum.splits)

lemma validate_branch_Inr:
  assumes "validate_branch server (n, b) r = Inr r'"
  shows "r' = add_requirements (mb_when b) r \<and> \<not> when_empty (mb_when b)
     \<and> valid_patterns (mw_local_ip_in (mb_when b)) \<and> valid_patterns (mw_local_ip_not_in (mb_when b))
     \<and> valid_patterns (mw_gateway_in (mb_when b)) \<and> valid_patterns (mw_gateway_not_in (mb_when b))"
proof -
  have "\<not> when_empty (mb_when b)"
    using assms by (auto simp: validate_branch_def errorf_def Let_def)
  moreover have "a = None \<and> c = None \<and> d = None \<and> e = None" if "List.map_filter id [a, c, d, e] = []"
    for a c d e :: "go_error option"
    using that by (auto simp: List.map_filter_def split: if_splits)
  moreover have "List.map_filter id
                  [validate_network_list (mw_local_ip_in (mb_when b)) ''local_ip_in'' server n,
                   validate_network_list (mw_local_ip_not_in (mb_when b)) ''local_ip_not_in'' server n,
                   validate_network_list (mw_gateway_in (mb_when b)) ''gateway_in'' server n,
                   validate_network_list (mw_gateway_not_in (mb_when b)) ''gateway_not_in'' server n] = []
      \<and> r' = add_requirements (mb_when b) r"
    using assms calculation(1) unfolding validate_branch_def prod.case Let_def
    by (simp only: if_False split: list.splits) auto
  ultimately show ?thesis
    unfolding validate_network_list_None[of _ "''local_ip_in''" server n, symmetric]
    by (metis validate_network_list_None)
qed

lemma validate_branch_covers: "\<forall>nb r r'. validate_branch server nb r = Inr r' \<longrightarrow> covers r r'"
  using validate_branch_Inr covers_add(1) by (metis surj_pair)

lemma validate_server_covers:
  "\<forall>ns r r'. (\<lambda>(server, s) r. fold_result (validate_branch server) (sc_match s) r) ns r = Inr r' \<longrightarrow> covers r r'"
  using fold_result_covers[OF validate_branch_covers] by auto

lemma validated_branch:
  assumes "validate_match_configs servers = Inr r" and "(server, s) \<in> set servers" and "(n, b) \<in> set (sc_match s)"
  shows "covers (add_requirements (mb_when b) no_requirements) r \<and> \<not> when_empty (mb_when b)
     \<and> valid_patterns (mw_local_ip_in (mb_when b)) \<and> valid_patterns (mw_local_ip_not_in (mb_when b))
     \<and> valid_patterns (mw_gateway_in (mb_when b)) \<and> valid_patterns (mw_gateway_not_in (mb_when b))"
proof -
  obtain r1 r2 where r1: "fold_result (validate_branch server) (sc_match s) r1 = Inr r2" "covers r2 r"
    using fold_result_at[OF validate_server_covers assms(1)[unfolded validate_match_configs_def] assms(2)]
    by auto
  obtain r3 r4 where r3: "validate_branch server (n, b) r3 = Inr r4" "covers r4 r2"
    using fold_result_at[OF validate_branch_covers r1(1) assms(3)] by blast
  have "covers (add_requirements (mb_when b) no_requirements) r"
    using validate_branch_Inr[OF r3(1)] r3(2) r1(2) covers_add(2) covers_trans by metis
  with validate_branch_Inr[OF r3(1)] show ?thesis
    by blast
qed

lemma when_matches_covers:
  assumes "covers (add_requirements w no_requirements) r"
  shows "when_matches w (build_match_context h r) = when_matches w (build_match_context h all_requirements)"
proof -
  have "mw_local_ip_in w \<noteq> [] \<or> mw_local_ip_not_in w \<noteq> [] \<Longrightarrow> mr_local_ip r"
    "mw_gateway_in w \<noteq> [] \<or> mw_gateway_not_in w \<noteq> [] \<Longrightarrow> mr_gateway r"
    "mw_username_in w \<noteq> [] \<or> mw_username_not_in w \<noteq> [] \<Longrightarrow> mr_username r"
    "mw_hostname_in w \<noteq> [] \<or> mw_hostname_not_in w \<noteq> [] \<Longrightarrow> mr_hostname r"
    "mw_os_in w \<noteq> [] \<or> mw_os_not_in w \<noteq> [] \<Longrightarrow> mr_os r"
    "mw_term_in w \<noteq> [] \<or> mw_term_not_in w \<noteq> [] \<Longrightarrow> mr_term r"
    "mw_env_in w \<noteq> [] \<or> mw_env_not_in w \<noteq> [] \<or> mw_env_value_in w \<noteq> [] \<or> mw_env_value_not_in w \<noteq> [] \<Longrightarrow> mr_env r"
    using assms by (simp_all add: covers_def add_requirements_def no_requirements_def)
  then show ?thesis
    unfolding when_matches_def build_match_context_def all_requirements_def
    by (simp cong: if_cong conj_cong)
qed


text \<open>
  The lookups the code makes are enough: it only asks the local machine for what some
  branch of some server tests, yet every branch decides as it would with everything looked up.
\<close>

theorem lookups_suffice:
  assumes "validate_match_configs servers = Inr r" and "(server, s) \<in> set servers" and "(n, b) \<in> set (sc_match s)"
  shows "when_matches (mb_when b) (build_match_context h r) =
         when_matches (mb_when b) (build_match_context h all_requirements)"
  using when_matches_covers validated_branch[OF assms] by blast

section \<open>Overriding\<close>

lemma merge_server_match_values:
  "sc_values (merge_server_match s b) k =
     (if k \<in> set server_keys \<and> k \<noteq> '''' \<and> is_defined b k then override_config b k else sc_values s k)"
proof -
  have "sc_values (foldl (\<lambda>r tag. if tag = '''' \<or> \<not> is_defined b tag then r
                    else r\<lparr>sc_values := (sc_values r)(tag := override_config b tag)\<rparr>) s ks) k =
     (if k \<in> set ks \<and> k \<noteq> '''' \<and> is_defined b k then override_config b k else sc_values s k)" for ks
    by (induction ks arbitrary: s) auto
  then show ?thesis
    by (simp add: merge_server_match_def)
qed

text \<open>The value of a key after the branches of a list: the last one that applies and sets it.\<close>

definition last_value :: "(match_branch \<Rightarrow> bool) \<Rightarrow> (string \<times> match_branch) list \<Rightarrow> string \<Rightarrow> conf_value \<Rightarrow> conf_value" where
  "last_value applies bs k base =
     (case filter (\<lambda>(n, b). applies b \<and> is_defined b k) bs of [] \<Rightarrow> base
      | x # xs \<Rightarrow> override_config (snd (last (x # xs))) k)"

lemma last_value_last:
  "last_value applies bs k base =
     (if filter (\<lambda>(n, b). applies b \<and> is_defined b k) bs = [] then base
      else override_config (snd (last (filter (\<lambda>(n, b). applies b \<and> is_defined b k) bs))) k)"
  by (simp add: last_value_def split: list.split)

lemma last_value_snoc:
  "last_value applies (bs @ [(n, b)]) k base =
     (if applies b \<and> is_defined b k then override_config b k else last_value applies bs k base)"
  unfolding last_value_last by simp

lemma foldl_merge_values:
  assumes "k \<in> set server_keys" and "k \<noteq> ''''"
  shows "sc_values (foldl (\<lambda>m (n, b). if applies b then merge_server_match m b else m) s bs) k =
     last_value applies bs k (sc_values s k)"
proof (induction bs rule: rev_induct)
  case Nil
  then show ?case by (simp add: last_value_def)
next
  case (snoc x bs)
  obtain n b where x: "x = (n, b)"
    by fastforce
  then show ?case
    using snoc.IH assms by (simp add: last_value_snoc merge_server_match_values)
qed

lemma server_keys_not_empty: "'''' \<notin> set server_keys"
  by code_simp

lemma resolve_server_values:
  assumes "k \<in> set server_keys"
  shows "sc_values (resolve_server c s) k =
     last_value (\<lambda>b. when_matches (mb_when b) c) (sorted_matches (sc_match s)) k (sc_values s k)"
proof -
  have "k \<noteq> ''''"
    using assms server_keys_not_empty by metis
  show ?thesis
  proof (cases "sc_match s = []")
    case True
    then show ?thesis
      by (simp add: resolve_server_def sorted_matches_def last_value_def)
  next
    case False
    then show ?thesis
      using foldl_merge_values[OF assms \<open>k \<noteq> ''''\<close>] by (simp add: resolve_server_def)
  qed
qed

lemma set_sorted_matches [simp]: "set (sorted_matches ms) = set ms"
  by (simp add: sorted_matches_def)

lemma last_value_cong:
  assumes "\<forall>(n, b) \<in> set bs. P b = Q b"
  shows "last_value P bs k base = last_value Q bs k base"
proof -
  have "filter (\<lambda>(n, b). P b \<and> is_defined b k) bs = filter (\<lambda>(n, b). Q b \<and> is_defined b k) bs"
    using assms by (intro filter_cong refl) (simp add: case_prod_beta)
  then show ?thesis
    by (simp only: last_value_def)
qed

text \<open>The whole context of the local machine.\<close>

definition local_context :: "host_env \<Rightarrow> match_context" where
  "local_context h = build_match_context h all_requirements"

lemma need_nothing_no_branches:
  assumes "validate_match_configs servers = Inr r" and "need_nothing r" and "(server, s) \<in> set servers"
  shows "sc_match s = []"
proof (rule ccontr)
  assume "sc_match s \<noteq> []"
  then obtain n b where b: "(n, b) \<in> set (sc_match s)"
    by (cases "sc_match s") auto
  have "covers (add_requirements (mb_when b) no_requirements) r" "\<not> when_empty (mb_when b)"
    using validated_branch[OF assms(1,3) b] by simp_all
  then show False
    using assms(2) unfolding covers_def add_requirements_def no_requirements_def need_nothing_def when_empty_def
    by simp
qed

lemma resolve_values_local:
  assumes "validate_match_configs servers = Inr r" and "(n, s) \<in> set servers" and "k \<in> set server_keys"
  shows "sc_values (resolve_server (build_match_context h r) s) k =
     last_value (\<lambda>b. when_matches (mb_when b) (local_context h)) (sorted_matches (sc_match s)) k (sc_values s k)"
proof -
  have "\<forall>(n, b) \<in> set (sorted_matches (sc_match s)).
      when_matches (mb_when b) (build_match_context h r) = when_matches (mb_when b) (local_context h)"
  proof (rule ballI, clarify)
    fix m b
    assume "(m, b) \<in> set (sorted_matches (sc_match s))"
    then have "(m, b) \<in> set (sc_match s)"
      by simp
    from validated_branch[OF assms(1,2) this]
    have "covers (add_requirements (mb_when b) no_requirements) r"
      by (rule conjunct1)
    then show "when_matches (mb_when b) (build_match_context h r) = when_matches (mb_when b) (local_context h)"
      unfolding local_context_def by (rule when_matches_covers)
  qed
  then show ?thesis
    unfolding resolve_server_values[OF assms(3)] by (rule last_value_cong)
qed

lemma resolve_no_branches:
  "sc_match s = [] \<Longrightarrow> resolve_server c s = s"
  by (simp add: resolve_server_def)

lemma resolve_is_map:
  assumes "resolve_conditional_matches h servers = Inr servers'"
  shows "\<exists>r. validate_match_configs servers = Inr r
     \<and> servers' = map (\<lambda>(name, s). (name, resolve_server (build_match_context h r) s)) servers"
proof (cases "validate_match_configs servers")
  case (Inl e)
  with assms show ?thesis
    by (simp add: resolve_conditional_matches_def)
next
  case (Inr r)
  show ?thesis
  proof (cases "need_nothing r")
    case True
    then have "servers' = servers"
      using assms Inr by (simp add: resolve_conditional_matches_def)
    moreover have "map (\<lambda>(name, s). (name, resolve_server (build_match_context h r) s)) servers = servers"
    proof (rule map_idI)
      fix x
      assume x: "x \<in> set servers"
      obtain n s where "x = (n, s)"
        by (rule prod.exhaust)
      with x show "(\<lambda>(name, s). (name, resolve_server (build_match_context h r) s)) x = x"
        using resolve_no_branches[OF need_nothing_no_branches[OF Inr True, of n s]] by simp
    qed
    ultimately show ?thesis
      using Inr by simp
  next
    case False
    with assms Inr show ?thesis
      by (simp add: resolve_conditional_matches_def)
  qed
qed

lemma resolved_server:
  assumes "resolve_conditional_matches h servers = Inr servers'"
  shows "map fst servers' = map fst servers
     \<and> (\<forall>i < length servers. sc_match (snd (servers' ! i)) = sc_match (snd (servers ! i))
         \<and> (\<forall>k \<in> set server_keys. sc_values (snd (servers' ! i)) k =
              last_value (\<lambda>b. when_matches (mb_when b) (local_context h))
                (sorted_matches (sc_match (snd (servers ! i)))) k (sc_values (snd (servers ! i)) k)))"
proof -
  obtain r where r: "validate_match_configs servers = Inr r"
    and map: "servers' = map (\<lambda>(name, s). (name, resolve_server (build_match_context h r) s)) servers"
    using resolve_is_map[OF assms] by blast
  have at: "snd (servers' ! i) = resolve_server (build_match_context h r) (snd (servers ! i))"
    and local: "(fst (servers ! i), snd (servers ! i)) \<in> set servers" if "i < length servers" for i
    using that by (simp_all add: map case_prod_beta)
  have match: "sc_match (resolve_server c s) = sc_match s" for c s
    by (simp add: resolve_server_def)
  have "map fst servers' = map fst servers"
    unfolding map map_map by (intro map_cong refl) (simp add: case_prod_beta)
  moreover have "sc_match (snd (servers' ! i)) = sc_match (snd (servers ! i))" if "i < length servers" for i
    unfolding at[OF that] by (rule match)
  moreover have "\<forall>k \<in> set server_keys. sc_values (snd (servers' ! i)) k =
              last_value (\<lambda>b. when_matches (mb_when b) (local_context h))
                (sorted_matches (sc_match (snd (servers ! i)))) k (sc_values (snd (servers ! i)) k)"
    if "i < length servers" for i
    unfolding at[OF that] by (intro ballI resolve_values_local[OF r local[OF that]])
  ultimately show ?thesis
    by blast
qed

text \<open>The last element of a list with a property, and of a list sorted by a key.\<close>

lemma last_filter_index:
  assumes "filter Q xs \<noteq> []"
  shows "\<exists>j < length xs. Q (xs ! j) \<and> last (filter Q xs) = xs ! j
           \<and> (\<forall>j' < length xs. Q (xs ! j') \<longrightarrow> j' \<le> j)"
  using assms
proof (induction xs rule: rev_induct)
  case (snoc x xs)
  show ?case
  proof (cases "Q x")
    case True
    then show ?thesis
      by (intro exI[of _ "length xs"]) simp
  next
    case False
    with snoc obtain j where "j < length xs" "Q (xs ! j)" "last (filter Q xs) = xs ! j"
      "\<forall>j' < length xs. Q (xs ! j') \<longrightarrow> j' \<le> j"
      by auto
    with False show ?thesis
      by (intro exI[of _ j]) (auto simp: nth_append less_Suc_eq)
  qed
qed simp

lemma last_sort_key_Max:
  assumes "ys \<noteq> []"
  shows "f (last (sort_key f ys)) = Max (f ` set ys)"
proof (rule Max_eqI[symmetric])
  have "sort_key f ys \<noteq> []"
    using assms by (metis length_sort length_0_conv)
  then show "f (last (sort_key f ys)) \<in> f ` set ys"
    by (metis imageI last_in_set set_sort)
  fix v
  assume "v \<in> f ` set ys"
  then obtain m where "m < length (sort_key f ys)" "v = f (sort_key f ys ! m)"
    by (metis (no_types, lifting) imageE in_set_conv_nth set_sort)
  moreover from this have "f (sort_key f ys ! m) \<le> f (sort_key f ys ! (length ys - 1))"
    using sorted_nth_mono[OF sorted_sort_key[of f ys], of m "length ys - 1"] by simp
  ultimately show "v \<le> f (last (sort_key f ys))"
    using \<open>sort_key f ys \<noteq> []\<close> by (simp add: last_conv_nth)
qed simp

lemma last_filter_last: "xs \<noteq> [] \<Longrightarrow> Q (last xs) \<Longrightarrow> last (filter Q xs) = last xs"
  by (induction xs rule: rev_induct) auto

text \<open>Sorting is stable: the last of the greatest stays the last.\<close>

lemma last_filter_sort_key:
  assumes "filter P xs \<noteq> []"
  shows "\<exists>j < length xs. P (xs ! j) \<and> last (filter P (sort_key f xs)) = xs ! j
     \<and> (\<forall>j' < length xs. P (xs ! j') \<longrightarrow> f (xs ! j') < f (xs ! j) \<or> f (xs ! j') = f (xs ! j) \<and> j' \<le> j)"
proof -
  let ?ys = "filter P xs" and ?m = "Max (f ` set (filter P xs))"
  have ne: "sort_key f ?ys \<noteq> []"
    using assms by (metis length_sort length_0_conv)
  have "last (filter (\<lambda>y. f y = ?m) (sort_key f ?ys)) = last (sort_key f ?ys)"
    by (rule last_filter_last[OF ne last_sort_key_Max[OF assms]])
  then have "last (sort_key f ?ys) = last (filter (\<lambda>y. f y = ?m) ?ys)"
    unfolding sort_key_stable by (rule sym)
  then have last: "last (filter P (sort_key f xs)) = last (filter (\<lambda>y. f y = ?m \<and> P y) xs)"
    unfolding filter_sort filter_filter by (simp only: conj_commute)
  have "?m \<in> f ` set ?ys"
    using assms by (intro Max_in) (auto simp: filter_empty_conv)
  then obtain y where "y \<in> set ?ys" "?m = f y"
    by (rule imageE)
  then have "y \<in> set (filter (\<lambda>y. f y = ?m \<and> P y) xs)"
    by simp
  then have "filter (\<lambda>y. f y = ?m \<and> P y) xs \<noteq> []"
    by (metis empty_iff empty_set)
  from last_filter_index[OF this] obtain j where j: "j < length xs" "f (xs ! j) = ?m" "P (xs ! j)"
    and xj: "last (filter P (sort_key f xs)) = xs ! j"
    and greatest: "\<forall>j' < length xs. f (xs ! j') = ?m \<and> P (xs ! j') \<longrightarrow> j' \<le> j"
    unfolding last by blast
  have "f (xs ! j') \<le> ?m" if "j' < length xs" and "P (xs ! j')" for j'
    using that by (intro Max_ge) auto
  then show ?thesis
    using j xj greatest by (intro exI[of _ j]) (auto simp: le_less)
qed

text \<open>
  Which of two branches of a server is the weaker one: the one with the smaller priority (100
  when it sets none), then the one that comes earlier in the files, that is with the smaller
  order number.
\<close>

definition weaker_branch :: "match_branch \<Rightarrow> match_branch \<Rightarrow> bool" where
  "weaker_branch a b \<longleftrightarrow> effective_priority a < effective_priority b
     \<or> effective_priority a = effective_priority b \<and> mb_order a < mb_order b"

text \<open>
  The branch at a place in the list of a server wins, among those that count: every other one
  that counts is weaker, or as strong and earlier in the list.
\<close>

definition winning_branch :: "(match_branch \<Rightarrow> bool) \<Rightarrow> (string \<times> match_branch) list \<Rightarrow> nat \<Rightarrow> bool" where
  "winning_branch counts ms j \<longleftrightarrow> j < length ms \<and> counts (snd (ms ! j))
     \<and> (\<forall>j' < length ms. j' \<noteq> j \<and> counts (snd (ms ! j')) \<longrightarrow>
          weaker_branch (snd (ms ! j')) (snd (ms ! j))
          \<or> \<not> weaker_branch (snd (ms ! j)) (snd (ms ! j')) \<and> j' < j)"

lemma last_value_strongest:
  "(\<forall>(n, b) \<in> set ms. \<not> (applies b \<and> is_defined b k)) \<and> last_value applies (sorted_matches ms) k base = base
   \<or> (\<exists>j. winning_branch (\<lambda>b. applies b \<and> is_defined b k) ms j
        \<and> last_value applies (sorted_matches ms) k base = override_config (snd (ms ! j)) k)"
proof (cases "filter (\<lambda>(n, b). applies b \<and> is_defined b k) ms = []")
  case True
  then have none: "\<forall>(n, b) \<in> set ms. \<not> (applies b \<and> is_defined b k)"
    by (auto simp: filter_empty_conv)
  then have "filter (\<lambda>(n, b). applies b \<and> is_defined b k) (sorted_matches ms) = []"
    by (simp only: filter_empty_conv set_sorted_matches) auto
  then show ?thesis
    using none by (simp add: last_value_last)
next
  case False
  let ?P = "\<lambda>(n, b). applies b \<and> is_defined b k"
  let ?f = "\<lambda>(n :: string, b). (effective_priority b, mb_order b)"
  have "\<exists>j < length ms. ?P (ms ! j) \<and> last (filter ?P (sorted_matches ms)) = ms ! j
      \<and> (\<forall>j' < length ms. ?P (ms ! j') \<longrightarrow> ?f (ms ! j') < ?f (ms ! j) \<or> ?f (ms ! j') = ?f (ms ! j) \<and> j' \<le> j)"
    unfolding sorted_matches_def by (rule last_filter_sort_key[OF False])
  then obtain j where "j < length ms \<and> ?P (ms ! j) \<and> last (filter ?P (sorted_matches ms)) = ms ! j
      \<and> (\<forall>j' < length ms. ?P (ms ! j') \<longrightarrow> ?f (ms ! j') < ?f (ms ! j) \<or> ?f (ms ! j') = ?f (ms ! j) \<and> j' \<le> j)"
    by (rule exE)
  note at = this
  note j = conjunct1[OF at] conjunct1[OF conjunct2[OF at]]
    and lastj = conjunct1[OF conjunct2[OF conjunct2[OF at]]]
    and top = conjunct2[OF conjunct2[OF conjunct2[OF at]]]
  have "ms ! j \<in> set (filter ?P (sorted_matches ms))"
    using j by simp
  then have "filter ?P (sorted_matches ms) \<noteq> []"
    by (metis empty_iff empty_set)
  then have "last_value applies (sorted_matches ms) k base = override_config (snd (ms ! j)) k"
    using lastj by (simp add: last_value_last)
  moreover have "winning_branch (\<lambda>b. applies b \<and> is_defined b k) ms j"
    unfolding winning_branch_def
  proof (intro conjI allI impI)
    fix j'
    assume j': "j' < length ms" "j' \<noteq> j \<and> applies (snd (ms ! j')) \<and> is_defined (snd (ms ! j')) k"
    obtain n b n' b' where at: "ms ! j = (n, b)" "ms ! j' = (n', b')"
      by (metis surj_pair)
    then have "(effective_priority b', mb_order b') < (effective_priority b, mb_order b)
        \<or> (effective_priority b', mb_order b') = (effective_priority b, mb_order b) \<and> j' \<le> j"
      using top[rule_format, of j'] j' by (simp only: prod.case snd_conv simp_thms)
    then show "weaker_branch (snd (ms ! j')) (snd (ms ! j))
          \<or> \<not> weaker_branch (snd (ms ! j)) (snd (ms ! j')) \<and> j' < j"
      using j'(2) by (simp only: at snd_conv weaker_branch_def less_prod_simp prod.inject) linarith
  next
    show "applies (snd (ms ! j))" "is_defined (snd (ms ! j)) k"
      using j(2) by (simp_all only: case_prod_beta)
  qed (rule j(1))
  ultimately show ?thesis
    by blast
qed

text \<open>
  C29. When the configuration is accepted, every server keeps its name and its branches, and
  every setting of a server keeps its value when no branch of the server that applies to the
  local machine sets it; otherwise it gets the value of one of those that do, and every other
  one of them has a smaller priority (100 where none is given), or the same priority and a
  smaller order number, or the same of both and stands before it in the list.
\<close>

theorem resolve_last_branch_wins:
  assumes "resolve_conditional_matches h servers = Inr servers'"
  shows "map fst servers' = map fst servers
     \<and> (\<forall>i < length servers. sc_match (snd (servers' ! i)) = sc_match (snd (servers ! i))
         \<and> (\<forall>k \<in> set server_keys.
              let ms = sc_match (snd (servers ! i));
                  sets = (\<lambda>b. when_matches (mb_when b) (local_context h) \<and> is_defined b k)
              in (\<forall>(n, b) \<in> set ms. \<not> sets b)
                   \<and> sc_values (snd (servers' ! i)) k = sc_values (snd (servers ! i)) k
               \<or> (\<exists>j. winning_branch sets ms j
                   \<and> sc_values (snd (servers' ! i)) k = override_config (snd (ms ! j)) k)))"
proof -
  note resolved = resolved_server[OF assms]
  have "let ms = sc_match (snd (servers ! i));
                  sets = (\<lambda>b. when_matches (mb_when b) (local_context h) \<and> is_defined b k)
              in (\<forall>(n, b) \<in> set ms. \<not> sets b)
                   \<and> sc_values (snd (servers' ! i)) k = sc_values (snd (servers ! i)) k
               \<or> (\<exists>j. winning_branch sets ms j
                   \<and> sc_values (snd (servers' ! i)) k = override_config (snd (ms ! j)) k)"
    if "i < length servers" and "k \<in> set server_keys" for i k
  proof -
    have "sc_values (snd (servers' ! i)) k =
              last_value (\<lambda>b. when_matches (mb_when b) (local_context h))
                (sorted_matches (sc_match (snd (servers ! i)))) k (sc_values (snd (servers ! i)) k)"
      using resolved that by blast
    then show ?thesis
      using last_value_strongest[of "sc_match (snd (servers ! i))"
          "\<lambda>b. when_matches (mb_when b) (local_context h)" k "sc_values (snd (servers ! i)) k"]
      by (simp only: Let_def conj_assoc)
  qed
  with resolved show ?thesis
    by blast
qed

section \<open>Iteration order\<close>

lemma sorted_matches_mset:
  assumes "mset ms = mset ms'" and "inj_on (\<lambda>(n, b). (effective_priority b, mb_order b)) (set ms)"
  shows "sorted_matches ms = sorted_matches ms'"
proof -
  let ?f = "\<lambda>(n, b). (effective_priority b, mb_order b)"
  have "map ?f (sorted_matches xs) = sort (map ?f xs)" for xs
    by (rule properties_for_sort[symmetric]) (simp_all add: sorted_matches_def)
  moreover have "sort (map ?f ms) = sort (map ?f ms')"
    using assms(1) by (intro properties_for_sort) simp_all
  ultimately have "map ?f (sorted_matches ms) = map ?f (sorted_matches ms')"
    by simp
  moreover have "set ms = set ms'"
    using assms(1) by (rule mset_eq_setD)
  ultimately show ?thesis
    using assms(2) by (subst (asm) inj_on_map_eq_map) simp_all
qed

lemma merge_same_values:
  "sc_values t = sc_values u \<Longrightarrow> sc_values (merge_server_match t b) = sc_values (merge_server_match u b)"
  by (rule ext) (simp only: merge_server_match_values)

lemma foldl_merge_same_values:
  "sc_values t = sc_values u \<Longrightarrow>
    sc_values (foldl (\<lambda>m (n, b). if P b then merge_server_match m b else m) t bs)
  = sc_values (foldl (\<lambda>m (n, b). if P b then merge_server_match m b else m) u bs)"
proof (induction bs arbitrary: t u)
  case (Cons nb bs)
  obtain n b where nb: "nb = (n, b)"
    by (rule prod.exhaust)
  show ?case
    unfolding foldl_Cons nb prod.case
    using Cons.IH[OF merge_same_values[OF Cons.prems]] Cons.IH[OF Cons.prems] by (cases "P b") simp_all
qed simp

lemma server_config_values_eq:
  "sc_values (s :: server_config) = sc_values t \<Longrightarrow> s\<lparr>sc_match := ms\<rparr> = t\<lparr>sc_match := ms\<rparr>"
  by (cases s, cases t) simp

text \<open>
  Go iterates over the branches of a server in an arbitrary order. Two iteration orders of
  the same branches resolve a server to the same settings, provided that no two branches have
  the same priority and the same position in the file.
\<close>

theorem resolve_iteration_order:
  assumes "mset ms = mset ms'" and "inj_on (\<lambda>(n, b). (effective_priority b, mb_order b)) (set ms)"
  shows "resolve_server c (s\<lparr>sc_match := ms\<rparr>) = (resolve_server c (s\<lparr>sc_match := ms'\<rparr>))\<lparr>sc_match := ms\<rparr>"
proof -
  have eq: "sorted_matches ms = sorted_matches ms'"
    using assms by (rule sorted_matches_mset)
  let ?merge = "\<lambda>m (n, b). if when_matches (mb_when b) c then merge_server_match m b else m"
  have "foldl ?merge (s\<lparr>sc_match := ms\<rparr>) bs\<lparr>sc_match := ms\<rparr> = foldl ?merge (s\<lparr>sc_match := ms'\<rparr>) bs\<lparr>sc_match := ms\<rparr>" for bs
    by (rule server_config_values_eq) (simp add: foldl_merge_same_values[of "s\<lparr>sc_match := ms\<rparr>" "s\<lparr>sc_match := ms'\<rparr>"])
  then have merged: "foldl ?merge (s\<lparr>sc_match := ms\<rparr>) bs\<lparr>sc_match := ms\<rparr>
      = foldl ?merge (s\<lparr>sc_match := ms'\<rparr>) bs\<lparr>sc_match := ms'\<rparr>\<lparr>sc_match := ms\<rparr>" for bs
    by simp
  show ?thesis
  proof (cases "ms = []")
    case True
    with assms(1) show ?thesis
      by (simp add: resolve_server_def)
  next
    case False
    with assms(1) have "ms' \<noteq> []"
      by auto
    with False merged show ?thesis
      by (simp add: resolve_server_def eq)
  qed
qed

section \<open>Order of the branches in the file\<close>

text \<open>All branches of a configuration with their position, and the keys that name one.\<close>

definition branch_at :: "servers \<Rightarrow> string \<Rightarrow> string \<Rightarrow> match_branch option" where
  "branch_at servers n m =
     (case map_of servers n of None \<Rightarrow> None | Some s \<Rightarrow> map_of (sc_match s) m)"

definition names_branch :: "string \<Rightarrow> string \<Rightarrow> string list \<Rightarrow> bool" where
  "names_branch n m key = (4 \<le> length key \<and> key ! 0 = ''server'' \<and> key ! 1 = n \<and> key ! 2 = ''match'' \<and> key ! 3 = m)"

lemma branch_at_update:
  assumes "map_of servers n = Some s"
  shows "branch_at (AList.update n (s\<lparr>sc_match := AList.update m b (sc_match s)\<rparr>) servers) n' m' =
     (if n' = n \<and> m' = m then Some b else branch_at servers n' m')"
  using assms by (auto simp: branch_at_def AList.update_conv')

text \<open>What a step of the loop over the keys does to a branch.\<close>

lemma metadata_step:
  assumes "match_metadata_step defined (order, servers) key = (order', servers')"
  shows "(\<exists>n m b b'. names_branch n m key \<and> branch_at servers n m = Some b
           \<and> (\<forall>n' m'. branch_at servers' n' m' = (if n' = n \<and> m' = m then Some b' else branch_at servers n' m'))
           \<and> set (mb_defined b') \<subseteq> set tracked_keys
           \<and> (if mb_order b = 0 then order' = order + 1 \<and> mb_order b' = order'
              else order' = order \<and> mb_order b' = mb_order b))
       \<or> (order' = order \<and> servers' = servers \<and> (\<forall>n m. names_branch n m key \<longrightarrow> branch_at servers n m = None))"
proof (cases "length key < 4 \<or> key ! 0 \<noteq> ''server'' \<or> key ! 2 \<noteq> ''match''")
  case True
  then show ?thesis
    using assms by (auto simp: match_metadata_step_def names_branch_def)
next
  case False
  show ?thesis
  proof (cases "branch_at servers (key ! 1) (key ! 3)")
    case None
    then show ?thesis
      using assms False
      by (auto simp: match_metadata_step_def names_branch_def branch_at_def split: option.splits)
  next
    case (Some b)
    then obtain s where s: "map_of servers (key ! 1) = Some s" "map_of (sc_match s) (key ! 3) = Some b"
      by (auto simp: branch_at_def split: option.splits)
    let ?order = "if mb_order b = 0 then order + 1 else order"
    let ?branch = "[''server'', key ! 1, ''match'', key ! 3]"
    let ?b = "b\<lparr>mb_order := (if mb_order b = 0 then ?order else mb_order b),
        mb_priority_defined := (if defined (?branch @ [''priority'']) then True else mb_priority_defined b),
        mb_defined := filter (\<lambda>k. defined (?branch @ [k])) tracked_keys\<rparr>"
    have r: "order' = ?order"
      "servers' = AList.update (key ! 1) (s\<lparr>sc_match := AList.update (key ! 3) ?b (sc_match s)\<rparr>) servers"
      using assms False s by (simp_all add: match_metadata_step_def Let_def)
    show ?thesis
      unfolding r(2)
      using False Some r(1) branch_at_update[OF s(1), of "key ! 3" ?b]
      by (intro disjI1 exI[of _ "key ! 1"] exI[of _ "key ! 3"] exI[of _ b] exI[of _ ?b])
        (auto simp: names_branch_def)
  qed
qed

lemma metadata_step_cases:
  assumes "match_metadata_step defined (order, servers) key = (order', servers')"
  obtains (branch) n m b b' where "names_branch n m key" and "branch_at servers n m = Some b"
      and "\<forall>n' m'. branch_at servers' n' m' = (if n' = n \<and> m' = m then Some b' else branch_at servers n' m')"
      and "if mb_order b = 0 then order' = order + 1 \<and> mb_order b' = order' else order' = order \<and> mb_order b' = mb_order b"
    | (other) "order' = order" and "servers' = servers" and "\<forall>n m. names_branch n m key \<longrightarrow> branch_at servers n m = None"
  using metadata_step[OF assms]
proof (elim disjE exE conjE)
  fix n m b b'
  assume "names_branch n m key" and "branch_at servers n m = Some b"
    and "\<forall>n' m'. branch_at servers' n' m' = (if n' = n \<and> m' = m then Some b' else branch_at servers n' m')"
    and "if mb_order b = 0 then order' = order + 1 \<and> mb_order b' = order' else order' = order \<and> mb_order b' = mb_order b"
  then show thesis
    by (rule branch)
next
  assume "order' = order" and "servers' = servers" and "\<forall>n m. names_branch n m key \<longrightarrow> branch_at servers n m = None"
  then show thesis
    by (rule other)
qed

text \<open>Positions are at most the counter, and no two branches share a position that was given.\<close>

definition orders_ok :: "nat \<Rightarrow> servers \<Rightarrow> bool" where
  "orders_ok order servers =
     (\<forall>n m b. branch_at servers n m = Some b \<longrightarrow> mb_order b \<le> order
        \<and> (\<forall>n' m' b'. branch_at servers n' m' = Some b' \<longrightarrow> 0 < mb_order b \<longrightarrow> mb_order b = mb_order b'
             \<longrightarrow> n = n' \<and> m = m'))"

lemma orders_ok_update:
  assumes ok: "orders_ok order servers" and b: "branch_at servers n m = Some b"
    and upd: "\<forall>n' m'. branch_at servers' n' m' = (if n' = n \<and> m' = m then Some b' else branch_at servers n' m')"
    and ord: "if mb_order b = 0 then order' = order + 1 \<and> mb_order b' = order' else order' = order \<and> mb_order b' = mb_order b"
  shows "orders_ok order' servers'"
proof (cases "mb_order b = 0")
  case True
  then have "order' = order + 1" "mb_order b' = order + 1"
    using ord by simp_all
  moreover have "mb_order c \<le> order" if "branch_at servers n' m' = Some c" for n' m' c
    using ok that unfolding orders_ok_def by blast
  ultimately show ?thesis
    using ok unfolding orders_ok_def upd[rule_format]
    by (auto split: if_splits) (metis Suc_n_not_le_n le_SucI)+
next
  case False
  then have "order' = order" "mb_order b' = mb_order b"
    using ord by simp_all
  then show ?thesis
    using ok b unfolding orders_ok_def upd[rule_format] by (auto split: if_splits)
qed

lemma metadata_step_orders_ok:
  assumes "orders_ok order servers" and "match_metadata_step defined (order, servers) key = (order', servers')"
  shows "orders_ok order' servers'"
  using assms(2)
proof (cases rule: metadata_step_cases)
  case (branch n m b b')
  show ?thesis
    by (rule orders_ok_update[OF assms(1) branch(2,3,4)])
next
  case other
  with assms(1) show ?thesis
    by simp
qed

lemma metadata_step_positive:
  assumes step: "match_metadata_step defined (order, servers) key = (order', servers')"
    and b: "branch_at servers' n m = Some b"
    and or: "names_branch n m key \<or> (\<exists>c. branch_at servers n m = Some c \<and> 0 < mb_order c)"
  shows "0 < mb_order b"
  using step
proof (cases rule: metadata_step_cases)
  case other
  with b or show ?thesis
    by auto
next
  case (branch k l c c')
  note names = branch(1) and upd = branch(3) and ord = branch(4)
  have "0 < mb_order c'"
    using ord by (auto split: if_splits)
  moreover have "names_branch n m key \<Longrightarrow> n = k \<and> m = l"
    using names by (simp add: names_branch_def)
  moreover have "branch_at servers' n m = (if n = k \<and> m = l then Some c' else branch_at servers n m)"
    using upd by blast
  ultimately show ?thesis
    using b or by (cases "n = k \<and> m = l") auto
qed

lemma metadata_foldl:
  assumes "orders_ok order servers" and "foldl (match_metadata_step defined) (order, servers) keys = (order', servers')"
  shows "orders_ok order' servers'
     \<and> (\<forall>n m b. branch_at servers' n m = Some b \<longrightarrow>
          (\<exists>key \<in> set keys. names_branch n m key) \<or> (\<exists>c. branch_at servers n m = Some c \<and> 0 < mb_order c)
          \<longrightarrow> 0 < mb_order b)"
  using assms
proof (induction keys arbitrary: order' servers' rule: rev_induct)
  case Nil
  then show ?case
    by auto
next
  case (snoc key keys)
  obtain o1 s1 where s1: "foldl (match_metadata_step defined) (order, servers) keys = (o1, s1)"
    by (rule prod.exhaust)
  have step: "match_metadata_step defined (o1, s1) key = (order', servers')"
    using snoc.prems(2) s1 by simp
  note IH = snoc.IH[OF snoc.prems(1) s1]
  have "0 < mb_order b" if b: "branch_at servers' n m = Some b"
    and or: "(\<exists>key \<in> set (keys @ [key]). names_branch n m key) \<or> (\<exists>c. branch_at servers n m = Some c \<and> 0 < mb_order c)" for n m b
  proof (rule metadata_step_positive[OF step b])
    have "branch_at s1 n m \<noteq> None"
      using step by (cases rule: metadata_step_cases) (use b in \<open>auto split: if_splits\<close>)
    then obtain c where c: "branch_at s1 n m = Some c"
      by auto
    show "names_branch n m key \<or> (\<exists>c. branch_at s1 n m = Some c \<and> 0 < mb_order c)"
    proof (cases "names_branch n m key")
      case False
      with or have "(\<exists>key \<in> set keys. names_branch n m key) \<or> (\<exists>c. branch_at servers n m = Some c \<and> 0 < mb_order c)"
        by auto
      with IH c show ?thesis
        by blast
    qed simp
  qed
  then show ?case
    using metadata_step_orders_ok[OF _ step] IH by blast
qed

text \<open>
  The positions taken from a TOML file are total: every branch a key of the file names has
  a position, and no other branch of any server has the same one. So the proviso of the
  property before holds for a decoded file, and the result does not depend on map iteration.
\<close>

theorem decoded_orders_distinct:
  assumes "\<forall>n m b. branch_at servers n m = Some b \<longrightarrow> mb_order b = 0"
    and "key \<in> set keys" and "names_branch n m key"
    and "branch_at (apply_match_metadata defined keys servers) n m = Some b"
    and "branch_at (apply_match_metadata defined keys servers) n' m' = Some b'"
  shows "0 < mb_order b \<and> (mb_order b = mb_order b' \<longrightarrow> n = n' \<and> m = m')"
proof -
  obtain order' servers' where r: "foldl (match_metadata_step defined) (0, servers) keys = (order', servers')"
    by (rule prod.exhaust)
  have "orders_ok 0 servers"
    using assms(1) unfolding orders_ok_def by (metis le_refl less_irrefl)
  note fold = metadata_foldl[OF this r]
  have servers': "apply_match_metadata defined keys servers = servers'"
    by (simp add: apply_match_metadata_def r)
  have pos: "0 < mb_order b"
    using fold assms(2,3,4) unfolding servers' by blast
  moreover have "mb_order b = mb_order b' \<Longrightarrow> n = n' \<and> m = m'"
    using fold pos assms(4,5) unfolding servers' orders_ok_def by blast
  ultimately show ?thesis
    by blast
qed

section \<open>Keys a branch cannot set\<close>

text \<open>
  The keys looked for in a branch are those of the server except two, so a branch never
  changes the connector of its server.
\<close>

lemma connector_name_never_overridden:
  assumes "\<forall>(n, b) \<in> set (sc_match s). set (mb_defined b) \<subseteq> set tracked_keys"
  shows "set server_keys = set tracked_keys \<union> {''connector_name'', ''match''}
     \<and> sc_values (resolve_server c s) ''connector_name'' = sc_values s ''connector_name''"
proof -
  have keys: "set server_keys = set tracked_keys \<union> {''connector_name'', ''match''}"
    and untracked: "''connector_name'' \<notin> set tracked_keys"
    by code_simp+
  have "\<not> is_defined b ''connector_name''" if "(n, b) \<in> set (sc_match s)" for n b
    using assms that untracked by (auto simp: is_defined_def)
  then have "filter (\<lambda>(n, b). when_matches (mb_when b) c \<and> is_defined b ''connector_name'') (sorted_matches (sc_match s)) = []"
    by (auto simp: filter_empty_conv)
  moreover have "''connector_name'' \<in> set server_keys"
    by (simp add: keys)
  ultimately show ?thesis
    using keys resolve_server_values[of "''connector_name''" c s] by (simp add: last_value_def)
qed

section \<open>Instances\<close>

text \<open>A server with an office branch, and a machine in the office network.\<close>

definition office_when :: match_when where
  "office_when = \<lparr>mw_local_ip_in = [''10.1.0.0/16''], mw_local_ip_not_in = [], mw_gateway_in = [],
     mw_gateway_not_in = [''10.9.0.1''], mw_username_in = [], mw_username_not_in = [], mw_hostname_in = [],
     mw_hostname_not_in = [], mw_os_in = [''linux''], mw_os_not_in = [], mw_term_in = [],
     mw_term_not_in = [], mw_env_in = [], mw_env_not_in = [], mw_env_value_in = [], mw_env_value_not_in = []\<rparr>"

definition office_branch :: match_branch where
  "office_branch = \<lparr>mb_values = (\<lambda>k. V_String ''inner''), mb_priority = 0, mb_when = office_when, mb_order = 0,
     mb_priority_defined = False, mb_defined = [''addr'']\<rparr>"

definition office_servers :: servers where
  "office_servers = [(''web'', \<lparr>sc_values = (\<lambda>k. V_String ''outer''), sc_match = [(''office'', office_branch)]\<rparr>)]"

definition office_host :: host_env where
  "office_host = \<lparr>he_interface_addrs = [''10.1.2.3/16''], he_gateway = None, he_username = ''me'',
     he_hostname = ''desk'', he_os = ''linux'', he_environ = []\<rparr>"

lemma office_validated:
  "validate_match_configs office_servers = Inr (add_requirements office_when no_requirements)"
  by code_simp

lemma when_matches_iff_witness:
  "when_matches office_when (local_context office_host) \<longleftrightarrow>
     clause (\<lambda>e. \<exists>a \<in> set (mx_local_ips (local_context office_host)). ip_matches e a) [''10.1.0.0/16''] []
   \<and> clause (\<lambda>e. \<exists>a \<in> set (mx_gateways (local_context office_host)). ip_matches e a) [] [''10.9.0.1'']
   \<and> mx_os (local_context office_host) = ''linux''"
proof -
  have "valid_patterns (mw_local_ip_in office_when)" "valid_patterns (mw_local_ip_not_in office_when)"
    "valid_patterns (mw_gateway_in office_when)" "valid_patterns (mw_gateway_not_in office_when)"
    by code_simp+
  note iff = when_matches_iff[OF this]
  show ?thesis
    unfolding iff by (simp add: office_when_def) (simp add: clause_def)
qed

lemma lookups_suffice_witness:
  "when_matches office_when (build_match_context office_host (add_requirements office_when no_requirements)) =
   when_matches office_when (build_match_context office_host all_requirements)"
  using lookups_suffice[OF office_validated, of "''web''"
      "\<lparr>sc_values = (\<lambda>k. V_String ''outer''), sc_match = [(''office'', office_branch)]\<rparr>" "''office''" office_branch office_host]
  by (simp add: office_servers_def office_branch_def)

text \<open>
  A server with two branches that both apply on that machine and set the address: the first in
  the file has the greater priority. The settings after the resolution.
\<close>

definition desk_branch :: match_branch where
  "desk_branch = office_branch\<lparr>mb_values := (\<lambda>k. V_String ''desk''), mb_priority := 200,
     mb_priority_defined := True, mb_order := 1, mb_defined := [''priority'', ''addr'']\<rparr>"

definition desk_servers :: servers where
  "desk_servers = [(''web'', \<lparr>sc_values = (\<lambda>k. V_String ''outer''),
     sc_match = [(''desk'', desk_branch), (''office'', office_branch\<lparr>mb_order := 2\<rparr>)]\<rparr>)]"

definition desk_requirements :: match_requirements where
  "desk_requirements = add_requirements office_when (add_requirements office_when no_requirements)"

definition desk_resolved :: servers where
  "desk_resolved = map (\<lambda>(name, s). (name, resolve_server
     (build_match_context office_host desk_requirements) s)) desk_servers"

lemma desk_resolved: "resolve_conditional_matches office_host desk_servers = Inr desk_resolved"
proof -
  have "\<not> need_nothing desk_requirements" "validate_match_configs desk_servers = Inr desk_requirements"
    by code_simp+
  then show ?thesis
    by (simp add: resolve_conditional_matches_def desk_resolved_def)
qed

lemma resolve_last_branch_wins_witness:
  "map fst desk_resolved = [''web'']
   \<and> sc_values (snd (desk_resolved ! 0)) ''addr'' = V_String ''desk''
   \<and> sc_values (snd (desk_resolved ! 0)) ''port'' = V_String ''outer''"
proof -
  note wins = resolve_last_branch_wins[OF desk_resolved]
  let ?b = "desk_branch" and ?c = "office_branch\<lparr>mb_order := 2\<rparr>"
  have size: "length desk_servers = 1" and names: "map fst desk_servers = [''web'']"
    and match: "sc_match (snd (desk_servers ! 0)) = [(''desk'', ?b), (''office'', ?c)]"
    and base: "sc_values (snd (desk_servers ! 0)) k = V_String ''outer''" for k
    by (simp_all add: desk_servers_def)
  have keys: "''addr'' \<in> set server_keys" "''port'' \<in> set server_keys"
    by code_simp+
  have applies: "when_matches (mb_when ?b) (local_context office_host)"
      "when_matches (mb_when ?c) (local_context office_host)"
    by code_simp+
  have sets: "is_defined ?b ''addr''" "is_defined ?c ''addr''" "\<not> is_defined ?b ''port''"
      "\<not> is_defined ?c ''port''" "weaker_branch ?c ?b" "\<not> weaker_branch ?b ?c"
      "override_config ?b ''addr'' = V_String ''desk''"
    unfolding weaker_branch_def by code_simp+
  have two: "j < length [(''desk'', ?b), (''office'', ?c)] \<longleftrightarrow> j = 0 \<or> j = 1" for j
    by auto
  let ?sets = "\<lambda>k b. when_matches (mb_when b) (local_context office_host) \<and> is_defined b k"
    and ?ms = "[(''desk'', ?b), (''office'', ?c)]"
  have won: "(\<forall>(n, b) \<in> set ?ms. \<not> ?sets k b) \<and> sc_values (snd (desk_resolved ! 0)) k = V_String ''outer''
      \<or> (\<exists>j. winning_branch (?sets k) ?ms j
           \<and> sc_values (snd (desk_resolved ! 0)) k = override_config (snd (?ms ! j)) k)"
    if "k \<in> set server_keys" for k
    using conjunct2[OF wins, rule_format, of 0, THEN conjunct2, rule_format, OF _ that] size
    unfolding match base Let_def by simp
  have first: "j = 0" if "winning_branch (?sets ''addr'') ?ms j" for j
    using that two[of j] sets(5,6) sets(1) applies(1) unfolding winning_branch_def by force
  from won[OF keys(1)] sets(1) applies(1) obtain j where "winning_branch (?sets ''addr'') ?ms j"
    and j: "sc_values (snd (desk_resolved ! 0)) ''addr'' = override_config (snd (?ms ! j)) ''addr''"
    by auto
  then have "j = 0"
    by (intro first)
  with j have "sc_values (snd (desk_resolved ! 0)) ''addr'' = V_String ''desk''"
    using sets(7) by simp
  moreover have "\<not> winning_branch (?sets ''port'') ?ms j" for j
    using two[of j] sets(3,4) unfolding winning_branch_def by force
  with won[OF keys(2)] have "sc_values (snd (desk_resolved ! 0)) ''port'' = V_String ''outer''"
    by blast
  moreover have "map fst desk_resolved = [''web'']"
    using wins names by simp
  ultimately show ?thesis
    by blast
qed

lemma resolve_iteration_order_witness:
  "let b = office_branch\<lparr>mb_order := 1\<rparr>; b' = office_branch\<lparr>mb_order := 2\<rparr>;
       c = local_context office_host; s = snd (office_servers ! 0)
   in resolve_server c (s\<lparr>sc_match := [(''a'', b), (''b'', b')]\<rparr>)
      = (resolve_server c (s\<lparr>sc_match := [(''b'', b'), (''a'', b)]\<rparr>))\<lparr>sc_match := [(''a'', b), (''b'', b')]\<rparr>"
  unfolding Let_def
  by (rule resolve_iteration_order) simp_all

lemma decoded_orders_distinct_witness:
  "let b = office_branch; s = \<lparr>sc_values = (\<lambda>k. V_Bool False), sc_match = [(''x'', b), (''y'', b)]\<rparr>;
       keys = [[''server'', ''web'', ''match'', ''y''], [''server'', ''web'', ''match'', ''x'', ''addr'']];
       result = apply_match_metadata (\<lambda>k. k = [''server'', ''web'', ''match'', ''x'', ''addr'']) keys [(''web'', s)]
   in map_option mb_order (branch_at result ''web'' ''x'') = Some 2
      \<and> map_option mb_order (branch_at result ''web'' ''y'') = Some 1
      \<and> (2 = (1 :: nat) \<longrightarrow> ''x'' = ''y'')"
proof -
  let ?b = office_branch
  let ?s = "\<lparr>sc_values = (\<lambda>k. V_Bool False), sc_match = [(''x'', ?b), (''y'', ?b)]\<rparr>"
  let ?keys = "[[''server'', ''web'', ''match'', ''y''], [''server'', ''web'', ''match'', ''x'', ''addr'']]"
  let ?result = "apply_match_metadata (\<lambda>k. k = [''server'', ''web'', ''match'', ''x'', ''addr'']) ?keys [(''web'', ?s)]"
  have x: "map_option mb_order (branch_at ?result ''web'' ''x'') = Some 2"
    and y: "map_option mb_order (branch_at ?result ''web'' ''y'') = Some 1"
    by code_simp+
  then obtain b b' where bs: "branch_at ?result ''web'' ''x'' = Some b" "mb_order b = 2"
      "branch_at ?result ''web'' ''y'' = Some b'" "mb_order b' = 1"
    by auto
  have fresh: "\<forall>n m b. branch_at [(''web'', ?s)] n m = Some b \<longrightarrow> mb_order b = 0"
    by (auto simp: branch_at_def office_branch_def split: if_splits)
  have "names_branch ''web'' ''x'' [''server'', ''web'', ''match'', ''x'', ''addr'']"
    by code_simp
  from decoded_orders_distinct[OF fresh _ this bs(1,3)] bs(2,4) x y show ?thesis
    by simp
qed

end
