(* ===== verification/Go_Bytes.thy ===== *)
theory Go_Bytes
  imports Go_Base "HOL-Library.Word"
begin

unbundle bit_operations_syntax

text \<open>
  Byte slices, the prelude of the network components: big-endian integers as
  \<^verbatim>\<open>encoding/binary\<close> reads and writes them, slice expressions with their bounds, the outcome
  of code that may return an error or panic, and the interface of a code whose words can be
  read off the front of a byte stream.
\<close>

type_synonym byte = "8 word"
type_synonym bytes = "byte list"

definition bytes_of :: "string \<Rightarrow> bytes" where
  "bytes_of s = map (\<lambda>c. word_of_int (of_char c)) s"

definition string_of :: "bytes \<Rightarrow> string" where
  "string_of bs = map (\<lambda>b. char_of (uint b)) bs"

lemma string_of_bytes_of [simp]: "string_of (bytes_of s) = s"
proof -
  have "(of_char c :: int) mod 256 = of_char c" for c
    by (cases c) (auto simp: of_char_def)
  then have "char_of (uint (word_of_int (of_char c) :: byte)) = c" for c
    by (simp add: uint_word_of_int)
  then show ?thesis
    by (simp add: string_of_def bytes_of_def comp_def)
qed

section \<open>Outcomes\<close>

text \<open>A call returns a value, returns an error, or panics.\<close>

datatype 'a outcome = Done 'a | Failed go_error | Panicked

definition and_then :: "'a outcome \<Rightarrow> ('a \<Rightarrow> 'b outcome) \<Rightarrow> 'b outcome" where
  "and_then r f = (case r of Done a \<Rightarrow> f a | Failed e \<Rightarrow> Failed e | Panicked \<Rightarrow> Panicked)"

lemma and_then_simps [simp]:
  "and_then (Done a) f = f a" "and_then (Failed e) f = Failed e" "and_then Panicked f = Panicked"
  by (simp_all add: and_then_def)

lemma and_then_Done: "and_then r f = Done b \<longleftrightarrow> (\<exists>a. r = Done a \<and> f a = Done b)"
  by (cases r) auto

text \<open>\<open>bs[a:b]\<close> panics when the bounds are out of range.\<close>

definition slice :: "nat \<Rightarrow> nat \<Rightarrow> bytes \<Rightarrow> bytes outcome" where
  "slice a b bs = (if a \<le> b \<and> b \<le> length bs then Done (take (b - a) (drop a bs)) else Panicked)"

lemma slice_Done: "a \<le> b \<Longrightarrow> b \<le> length bs \<Longrightarrow> slice a b bs = Done (take (b - a) (drop a bs))"
  by (simp add: slice_def)

section \<open>Big-endian integers\<close>

fun be_bytes :: "nat \<Rightarrow> int \<Rightarrow> bytes" where
  "be_bytes 0 v = []"
| "be_bytes (Suc n) v = be_bytes n (v div 256) @ [word_of_int v]"

definition be_value :: "bytes \<Rightarrow> int" where
  "be_value bs = foldl (\<lambda>v b. 256 * v + uint b) 0 bs"

lemma length_be_bytes [simp]: "length (be_bytes n v) = n"
  by (induction n arbitrary: v) auto

lemma be_value_snoc: "be_value (bs @ [b]) = 256 * be_value bs + uint b"
  by (simp add: be_value_def)

lemma uint_byte_of_int: "uint (word_of_int v :: byte) = v mod 256"
  by (simp add: uint_word_of_int)

lemma be_value_be_bytes: "be_value (be_bytes n v) = v mod 256 ^ n"
proof (induction n arbitrary: v)
  case (Suc n)
  have "v mod (256 * 256 ^ n) = 256 * (v div 256 mod 256 ^ n) + v mod 256"
    using zmod_zmult2_eq[of "256 ^ n" v 256] by simp
  then show ?case
    by (simp add: be_value_snoc Suc uint_byte_of_int)
qed (simp add: be_value_def)

lemma be_value_be_bytes_small: "0 \<le> v \<Longrightarrow> v < 256 ^ n \<Longrightarrow> be_value (be_bytes n v) = v"
  by (simp add: be_value_be_bytes)

lemma be_value_bounds: "0 \<le> be_value bs \<and> be_value bs < 256 ^ length bs"
proof (induction bs rule: rev_induct)
  case (snoc b bs)
  have "0 \<le> uint b" "uint b < 256"
    using uint_ge_0[of b] uint_lt2p[of b] by simp_all
  with snoc show ?case
    by (auto simp: be_value_snoc)
qed (simp add: be_value_def)

text \<open>A word of a width that is a number of bytes survives.\<close>

lemma word_of_be_bytes:
  fixes w :: "'a :: len word"
  assumes "LENGTH('a) = 8 * n"
  shows "word_of_int (be_value (be_bytes n (uint w))) = w"
proof -
  have "uint w < 256 ^ n" and "0 \<le> uint w"
    using uint_lt2p[of w] assms by (simp_all add: power_mult)
  then show ?thesis
    by (simp add: be_value_be_bytes)
qed

section \<open>Line endings\<close>

text \<open>Every line ending, a CR, an LF or the two together, becomes the given one.\<close>

function line_endings :: "bytes \<Rightarrow> bytes \<Rightarrow> bytes" where
  "line_endings eol bs =
     (case bs of [] \<Rightarrow> []
      | b # rest \<Rightarrow>
          if b = 0x0d then
            (case rest of c # rest' \<Rightarrow> eol @ line_endings eol (if c = 0x0a then rest' else rest)
             | [] \<Rightarrow> eol)
          else if b = 0x0a then eol @ line_endings eol rest
          else b # line_endings eol rest)"
  by pat_completeness auto
termination
  by (relation "measure (\<lambda>(eol, bs). length bs)") auto

declare line_endings.simps [simp del]

lemma line_endings_Nil [simp]: "line_endings eol [] = []"
  by (simp add: line_endings.simps)

lemma line_endings_plain [simp]:
  "b \<noteq> 0x0d \<Longrightarrow> b \<noteq> 0x0a \<Longrightarrow> line_endings eol (b # bs) = b # line_endings eol bs"
  by (simp add: line_endings.simps[of _ "b # bs"])

lemma line_endings_lf [simp]: "line_endings eol (0x0a # bs) = eol @ line_endings eol bs"
  by (simp add: line_endings.simps[of _ "0x0a # bs"])

lemma line_endings_crlf [simp]: "line_endings eol (0x0d # 0x0a # bs) = eol @ line_endings eol bs"
  by (simp add: line_endings.simps[of _ "0x0d # 0x0a # bs"])

lemma line_endings_cr [simp]: "bs = [] \<or> hd bs \<noteq> 0x0a \<Longrightarrow> line_endings eol (0x0d # bs) = eol @ line_endings eol bs"
  by (subst line_endings.simps) (auto split: list.split)

text \<open>Cutting the text changes the result only between a CR and an LF.\<close>

lemma line_endings_append:
  assumes "xs = [] \<or> ys = [] \<or> last xs \<noteq> 0x0d \<or> hd ys \<noteq> 0x0a"
  shows "line_endings eol (xs @ ys) = line_endings eol xs @ line_endings eol ys"
  using assms
proof (induction "length xs" arbitrary: xs rule: less_induct)
  case less
  show ?case
  proof (cases xs)
    case (Cons b rest)
    consider "b = 0x0d" "rest \<noteq> []" "hd rest = 0x0a" | "b = 0x0d" "rest = [] \<or> hd rest \<noteq> 0x0a"
      | "b = 0x0a" | "b \<noteq> 0x0d" "b \<noteq> 0x0a"
      by blast
    then show ?thesis
    proof cases
      case 1
      then obtain rest' where "rest = 0x0a # rest'"
        by (cases rest) auto
      then show ?thesis
        using less.hyps[of rest'] less.prems Cons 1 by (auto split: if_splits)
    next
      case 2
      then have "line_endings eol (rest @ ys) = line_endings eol rest @ line_endings eol ys"
        using less.hyps[of rest] less.prems Cons by (cases "rest = []") auto
      moreover have "rest @ ys = [] \<or> hd (rest @ ys) \<noteq> 0x0a"
        using 2 less.prems Cons by (cases "rest = []") auto
      ultimately show ?thesis
        using 2 Cons by simp
    qed (use less.hyps[of rest] less.prems Cons in \<open>auto split: if_splits\<close>)
  qed simp
qed

lemma line_endings_no_lf: "0x0a \<notin> set eol \<Longrightarrow> 0x0a \<notin> set (line_endings eol bs)"
proof (induction "length bs" arbitrary: bs rule: less_induct)
  case less
  then show ?case
    by (subst line_endings.simps) (auto split: list.splits)
qed

section \<open>Codes\<close>

text \<open>
  The interface of a framing: words with a key are written one after the other, and reading
  takes one word off the front of the stream, with a key of its own or none.
\<close>

fun read_many :: "(bytes \<Rightarrow> ('m \<times> bytes) option) \<Rightarrow> nat \<Rightarrow> bytes \<Rightarrow> ('m list \<times> bytes) option" where
  "read_many read 0 bs = Some ([], bs)"
| "read_many read (Suc n) bs =
     (case read bs of None \<Rightarrow> None
      | Some (m, rest) \<Rightarrow>
          (case read_many read n rest of None \<Rightarrow> None | Some (ms, rest') \<Rightarrow> Some (m # ms, rest')))"

locale framing =
  fixes frame :: "'k \<Rightarrow> 'm \<Rightarrow> bytes"
    and read :: "bytes \<Rightarrow> ('m \<times> bytes) option"
    and ok :: "'k \<Rightarrow> 'm \<Rightarrow> bool"
  assumes read_frame: "ok k m \<Longrightarrow> read (frame k m @ rest) = Some (m, rest)"
begin

lemma read_many_frames:
  assumes "\<forall>(k, m) \<in> set sent. ok k m"
  shows "read_many read (length sent) (concat (map (\<lambda>(k, m). frame k m) sent) @ rest) = Some (map snd sent, rest)"
  using assms by (induction sent) (auto simp: read_frame)

lemma frame_inj_prefix:
  assumes "ok k m" and "ok k' m'" and "frame k m @ rest = frame k' m' @ rest'"
  shows "m = m' \<and> rest = rest'"
  using read_frame[OF assms(1), of rest] read_frame[OF assms(2), of rest'] assms(3) by simp

end

end
