(* ===== verification/Ssm_Message.thy ===== *)
theory Ssm_Message
  imports Go_Bytes
begin

text \<open>
  The binary messages of an AWS Systems Manager session,
  \<^verbatim>\<open>provider-mixed-aws-ec2/ssmsession/session.go\<close>: a header of fixed fields, big-endian, and a
  payload. The digest \<^verbatim>\<open>sha256.Sum256\<close> is a parameter, a function to 32 bytes. A UUID is its 16
  bytes. The platform has 64-bit integers, so the offsets below do not overflow.
\<close>

record client_message =
  cm_type :: bytes
  cm_schema :: "32 word"
  cm_created :: "64 word"
  cm_sequence :: "64 word"          \<comment> \<open>a signed number\<close>
  cm_flags :: "64 word"
  cm_id :: bytes
  cm_payload_type :: "32 word"
  cm_payload :: bytes

section \<open>Encoding\<close>

definition fixed_message_type :: "bytes \<Rightarrow> bytes" where
  "fixed_message_type v = take 32 v @ replicate (32 - length v) 0x20"

text \<open>The two halves of a UUID are exchanged on the wire.\<close>

definition encode_uuid :: "bytes \<Rightarrow> bytes" where
  "encode_uuid raw = take 8 (drop 8 raw) @ take 8 raw"

definition decode_uuid :: "bytes \<Rightarrow> bytes" where
  "decode_uuid raw = take 8 (drop 8 raw) @ take 8 raw"

definition encode_client_message :: "(bytes \<Rightarrow> bytes) \<Rightarrow> client_message \<Rightarrow> bytes" where
  "encode_client_message sha256 m =
     be_bytes 4 116
     @ fixed_message_type (cm_type m)
     @ be_bytes 4 (uint (cm_schema m))
     @ be_bytes 8 (uint (cm_created m))
     @ be_bytes 8 (uint (cm_sequence m))
     @ be_bytes 8 (uint (cm_flags m))
     @ encode_uuid (cm_id m)
     @ sha256 (cm_payload m)
     @ be_bytes 4 (uint (cm_payload_type m))
     @ be_bytes 4 (int (length (cm_payload m)))
     @ cm_payload m"

section \<open>Decoding\<close>

definition trim_right_byte :: "byte \<Rightarrow> bytes \<Rightarrow> bytes" where
  "trim_right_byte b bs = rev (dropWhile ((=) b) (rev bs))"

definition trim_message_type :: "bytes \<Rightarrow> bytes" where
  "trim_message_type v = trim_right_byte 0x20 (trim_right_byte 0 v)"

text \<open>The big-endian number in a slice of the message.\<close>

definition number_at :: "nat \<Rightarrow> nat \<Rightarrow> bytes \<Rightarrow> int outcome" where
  "number_at a b raw = and_then (slice a b raw) (\<lambda>v. Done (be_value v))"

definition decode_client_message :: "bytes \<Rightarrow> client_message outcome" where
  "decode_client_message raw =
     (if length raw < 120 then Failed (Go_Error False ''invalid ssm client message length'')
      else and_then (number_at 0 4 raw) (\<lambda>header.
        if int (length raw) < header \<or> header < 116
        then Failed (Go_Error False ''invalid ssm header length'')
        else and_then (number_at 116 120 raw) (\<lambda>payload_len.
          let payload_offset = nat header + 4
          in if length raw < payload_offset + nat payload_len
             then Failed (Go_Error False ''invalid ssm payload length'')
             else
               and_then (slice 64 80 raw) (\<lambda>uuid.
               and_then (slice 4 36 raw) (\<lambda>message_type.
               and_then (number_at 36 40 raw) (\<lambda>schema.
               and_then (number_at 40 48 raw) (\<lambda>created.
               and_then (number_at 48 56 raw) (\<lambda>sequence.
               and_then (number_at 56 64 raw) (\<lambda>flags.
               and_then (number_at 112 116 raw) (\<lambda>payload_type.
               and_then (slice payload_offset (payload_offset + nat payload_len) raw) (\<lambda>payload.
                 Done \<lparr>cm_type = trim_message_type message_type, cm_schema = word_of_int schema,
                       cm_created = word_of_int created, cm_sequence = word_of_int sequence,
                       cm_flags = word_of_int flags, cm_id = decode_uuid uuid,
                       cm_payload_type = word_of_int payload_type, cm_payload = payload\<rparr>)))))))))))"

section \<open>Totality\<close>

lemma number_at_Done: "a \<le> b \<Longrightarrow> b \<le> length raw \<Longrightarrow> number_at a b raw = Done (be_value (take (b - a) (drop a raw)))"
  by (simp add: number_at_def slice_Done)

lemma decode_client_message_no_panic: "decode_client_message raw \<noteq> Panicked"
  by (auto simp: decode_client_message_def number_at_Done slice_Done Let_def)

section \<open>Round trip\<close>

text \<open>Slices of a concatenation of parts: skip whole parts, then take one.\<close>

lemma slice_skip:
  assumes "length p \<le> a"
  shows "slice a b (p @ rest) = (if a \<le> b then slice (a - length p) (b - length p) rest else Panicked)"
  using assms by (auto simp: slice_def)

lemma slice_take:
  assumes "length p = n"
  shows "slice 0 n (p @ rest) = Done p"
  using assms by (simp add: slice_def)

lemma slice_all: "length p = n \<Longrightarrow> slice 0 n p = Done p"
  by (simp add: slice_def)

text \<open>The names of message types that survive: at most 32 bytes, not ending in a space or NUL.\<close>

definition plain_type :: "bytes \<Rightarrow> bool" where
  "plain_type v = (length v \<le> 32 \<and> (v = [] \<or> last v \<noteq> 0x20 \<and> last v \<noteq> 0))"

lemma length_fixed_message_type [simp]: "length (fixed_message_type v) = 32"
  by (simp add: fixed_message_type_def)

lemma dropWhile_replicate: "dropWhile ((=) b) (replicate n b @ bs) = dropWhile ((=) b) bs"
  by (induction n) auto

lemma trim_right_byte_plain: "bs = [] \<or> last bs \<noteq> b \<Longrightarrow> trim_right_byte b bs = bs"
  by (cases bs rule: rev_cases) (auto simp: trim_right_byte_def)

lemma trim_right_byte_padded: "trim_right_byte b (bs @ replicate n b) = trim_right_byte b bs"
  by (simp add: trim_right_byte_def dropWhile_replicate)

lemma trim_fixed_message_type:
  assumes "plain_type v"
  shows "trim_message_type (fixed_message_type v) = v"
proof -
  have "fixed_message_type v = [] \<or> last (fixed_message_type v) \<noteq> 0"
    using assms by (cases "length v = 32") (auto simp: fixed_message_type_def plain_type_def last_append)
  then have "trim_message_type (fixed_message_type v) = trim_right_byte 0x20 (fixed_message_type v)"
    by (simp add: trim_message_type_def trim_right_byte_plain)
  also have "\<dots> = trim_right_byte 0x20 v"
    using assms by (simp add: fixed_message_type_def trim_right_byte_padded plain_type_def)
  also have "\<dots> = v"
    using assms by (intro trim_right_byte_plain) (auto simp: plain_type_def)
  finally show ?thesis .
qed

lemma decode_encode_uuid: "length raw = 16 \<Longrightarrow> decode_uuid (encode_uuid raw) = raw"
  by (simp add: decode_uuid_def encode_uuid_def)

lemma length_encode_uuid: "length raw = 16 \<Longrightarrow> length (encode_uuid raw) = 16"
  by (simp add: encode_uuid_def)

lemma word_of_be_value [simp]:
  "word_of_int (be_value (be_bytes 4 (uint (w :: 32 word)))) = w"
  "word_of_int (be_value (be_bytes 8 (uint (v :: 64 word)))) = v"
  by (simp_all add: word_of_be_bytes)

lemma decode_encode:
  assumes "\<forall>p. length (sha256 p) = 32" and "plain_type (cm_type m)" and "length (cm_id m) = 16"
    and "int (length (cm_payload m)) < 2 ^ 32"
  shows "decode_client_message (encode_client_message sha256 m) = Done m"
proof -
  let ?raw = "encode_client_message sha256 m"
  have [simp]: "length (sha256 p) = 32" for p
    using assms(1) by blast
  note raw = encode_client_message_def slice_skip slice_take slice_all number_at_def length_encode_uuid[OF assms(3)]
  have len: "length ?raw = 120 + length (cm_payload m)"
    by (simp add: encode_client_message_def length_encode_uuid[OF assms(3)])
  have "number_at 0 4 ?raw = Done 116"
    by (simp add: raw be_value_be_bytes)
  moreover have "number_at 116 120 ?raw = Done (int (length (cm_payload m)))"
    using assms(4) by (simp add: raw be_value_be_bytes)
  moreover have "slice 64 80 ?raw = Done (encode_uuid (cm_id m))"
    by (simp add: raw)
  moreover have "slice 4 36 ?raw = Done (fixed_message_type (cm_type m))"
    by (simp add: raw)
  moreover have "number_at 36 40 ?raw = Done (be_value (be_bytes 4 (uint (cm_schema m))))"
    by (simp add: raw)
  moreover have "number_at 40 48 ?raw = Done (be_value (be_bytes 8 (uint (cm_created m))))"
    by (simp add: raw)
  moreover have "number_at 48 56 ?raw = Done (be_value (be_bytes 8 (uint (cm_sequence m))))"
    by (simp add: raw)
  moreover have "number_at 56 64 ?raw = Done (be_value (be_bytes 8 (uint (cm_flags m))))"
    by (simp add: raw)
  moreover have "number_at 112 116 ?raw = Done (be_value (be_bytes 4 (uint (cm_payload_type m))))"
    by (simp add: raw)
  moreover have "slice 120 (120 + length (cm_payload m)) ?raw = Done (cm_payload m)"
    by (simp add: raw)
  ultimately show ?thesis
    using len
    by (simp add: decode_client_message_def Let_def trim_fixed_message_type[OF assms(2)] decode_encode_uuid[OF assms(3)])
qed

text \<open>
  C34. Decoding a message never panics, whatever bytes arrive; and what was encoded is decoded:
  every field of a message comes back, provided its type fits the 32 bytes of the header and
  does not end in the padding, its identifier has 16 bytes and its payload less than 2 to the 32.
\<close>

theorem ssm_message_roundtrip:
  assumes "\<forall>p. length (sha256 p) = 32" and "plain_type (cm_type m)" and "length (cm_id m) = 16"
    and "int (length (cm_payload m)) < 2 ^ 32"
  shows "decode_client_message (encode_client_message sha256 m) = Done m
     \<and> (\<forall>raw. decode_client_message raw \<noteq> Panicked)"
  using decode_encode[OF assms] decode_client_message_no_panic by blast

definition sample_message :: client_message where
  "sample_message = \<lparr>cm_type = bytes_of ''output_stream_data'', cm_schema = 1, cm_created = 1700000000000,
     cm_sequence = 7, cm_flags = 0, cm_id = map word_of_nat [0 ..< 16], cm_payload_type = 1,
     cm_payload = bytes_of ''hello''\<rparr>"

lemma ssm_message_roundtrip_witness:
  "decode_client_message (encode_client_message (\<lambda>p. replicate 32 0xab) sample_message) = Done sample_message"
proof -
  have "plain_type (cm_type sample_message)" "length (cm_id sample_message) = 16"
    "int (length (cm_payload sample_message)) < 2 ^ 32"
    by (simp_all add: sample_message_def bytes_of_def plain_type_def of_char_def)
  then show ?thesis
    by (intro ssm_message_roundtrip[of "\<lambda>p. replicate 32 0xab", THEN conjunct1]) simp_all
qed

end
