(* ===== verification/Ssm_Session.thy ===== *)
theory Ssm_Session
  imports Ssm_Message
begin

text \<open>
  The client of an AWS Systems Manager session,
  \<^verbatim>\<open>provider-mixed-aws-ec2/ssmsession/session.go\<close> and \<^verbatim>\<open>port.go\<close>: what the read loop does with
  each message, the acknowledgements, the handshake, and the suppression of the output before
  the startup marker. Parameters are the JSON library and the clock, in milliseconds; the
  creation time and the random identifier of the messages sent are not recorded.
\<close>

section \<open>State\<close>

record sent_message =
  sm_type :: bytes
  sm_sequence :: "64 word"
  sm_payload_type :: "32 word"
  sm_payload :: bytes

record ssm_session =
  ss_connected :: bool              \<comment> \<open>\<open>s.conn != nil\<close> and writing to it succeeds\<close>
  ss_sent :: "sent_message list"
  ss_stdout :: "bytes option"       \<comment> \<open>what was written, \<open>None\<close> for a nil writer\<close>
  ss_stderr :: "bytes option"
  ss_ready :: bool
  ss_startup_trigger :: bool
  ss_sequence :: "64 word"
  ss_last_output :: "64 word"
  ss_startup_suppress :: bool
  ss_startup_marker :: bytes
  ss_startup_buffer :: bytes
  ss_startup_since :: "int option"
  ss_session_type :: string

record processed_action =
  pa_type :: string
  pa_status :: nat
  pa_error :: string

text \<open>What the code uses of \<^verbatim>\<open>encoding/json\<close>: the acknowledgement of a message, the requested
  actions of a handshake with their parameters, the session type in the parameters, the response
  with its errors, and the text of a completed handshake;
  and the quoting of the \<open>%q\<close> verb.\<close>

record json_codec =
  js_ack :: "bytes \<Rightarrow> bytes \<Rightarrow> 64 word \<Rightarrow> bytes"
  js_request :: "bytes \<Rightarrow> (string \<times> bytes) list result"
  js_session_type :: "bytes \<Rightarrow> string result"
  js_response :: "processed_action list \<Rightarrow> string list \<Rightarrow> bytes"
  js_complete :: "bytes \<Rightarrow> string result"
  js_quote :: "string \<Rightarrow> string"

definition output_stream_data :: bytes where
  "output_stream_data = bytes_of ''output_stream_data''"

definition input_stream_data :: bytes where
  "input_stream_data = bytes_of ''input_stream_data''"

definition acknowledge :: bytes where
  "acknowledge = bytes_of ''acknowledge''"

definition channel_closed :: bytes where
  "channel_closed = bytes_of ''channel_closed''"

section \<open>Sending\<close>

text \<open>A step of the session: an error, or the next state; the state is kept on an error.\<close>

type_synonym ssm_step = "ssm_session \<Rightarrow> go_error option \<times> ssm_session"

definition closed_error :: go_error where
  "closed_error = Go_Error False ''ssm websocket is closed''"

definition send_message :: "sent_message \<Rightarrow> ssm_step" where
  "send_message m s =
     (if ss_connected s then (None, s\<lparr>ss_sent := ss_sent s @ [m]\<rparr>) else (Some closed_error, s))"

definition send_acknowledge :: "json_codec \<Rightarrow> client_message \<Rightarrow> ssm_step" where
  "send_acknowledge j m s =
     send_message \<lparr>sm_type = acknowledge, sm_sequence = 0, sm_payload_type = 0,
       sm_payload = js_ack j (cm_type m) (cm_id m) (cm_sequence m)\<rparr> s"

definition send_input_payload :: "32 word \<Rightarrow> bytes \<Rightarrow> ssm_step" where
  "send_input_payload payload_type payload s =
     (let s = s\<lparr>ss_sequence := ss_sequence s + 1\<rparr>
      in send_message \<lparr>sm_type = input_stream_data, sm_sequence = ss_sequence s - 1,
           sm_payload_type = payload_type, sm_payload = payload\<rparr> s)"

definition send_flag :: "32 word \<Rightarrow> ssm_step" where
  "send_flag flag = send_input_payload 10 (be_bytes 4 (uint flag))"

section \<open>Startup output\<close>

definition start_startup_suppress :: "int \<Rightarrow> ssm_session \<Rightarrow> ssm_session" where
  "start_startup_suppress now s =
     s\<lparr>ss_startup_suppress := True, ss_startup_buffer := [], ss_startup_since := Some now\<rparr>"

text \<open>The timer of \<open>startStartupSuppress\<close>.\<close>

definition startup_timer :: "ssm_session \<Rightarrow> ssm_session" where
  "startup_timer s =
     (if \<not> ss_startup_suppress s then s
      else s\<lparr>ss_startup_suppress := False, ss_startup_buffer := [], ss_startup_since := None\<rparr>)"

text \<open>\<open>strings.Index\<close> on bytes.\<close>

fun bytes_index :: "bytes \<Rightarrow> bytes \<Rightarrow> nat option" where
  "bytes_index needle [] = (if needle = [] then Some 0 else None)"
| "bytes_index needle (b # bs) =
     (if take (length needle) (b # bs) = needle then Some 0 else map_option Suc (bytes_index needle bs))"

definition filter_startup_output :: "int \<Rightarrow> bytes \<Rightarrow> ssm_session \<Rightarrow> bytes \<times> ssm_session" where
  "filter_startup_output now payload s =
     (if \<not> ss_startup_suppress s \<or> ss_startup_marker s = [] then (payload, s)
      else
        (let buffer = ss_startup_buffer s @ payload;
             shown = s\<lparr>ss_startup_buffer := [], ss_startup_suppress := False, ss_startup_since := None\<rparr>
         in if (case ss_startup_since s of None \<Rightarrow> False | Some t \<Rightarrow> 3000 < now - t) then (buffer, shown)
            else
              (case bytes_index (ss_startup_marker s) buffer of
                 None \<Rightarrow> ([], s\<lparr>ss_startup_buffer := buffer\<rparr>)
               | Some i \<Rightarrow>
                   (dropWhile (\<lambda>b. b = 0x0d \<or> b = 0x0a) (drop (i + length (ss_startup_marker s)) buffer), shown))))"

section \<open>Handshake\<close>

definition process_action ::
  "json_codec \<Rightarrow> string \<times> bytes \<Rightarrow> processed_action list \<times> string list \<times> ssm_session \<Rightarrow>
   processed_action list \<times> string list \<times> ssm_session" where
  "process_action j action st =
     (case (action, st) of ((action_type, parameters), (actions, errors, s)) \<Rightarrow>
        if action_type = ''SessionType'' then
          (case js_session_type j parameters of
             Inl e \<Rightarrow> (actions @ [\<lparr>pa_type = action_type, pa_status = 2, pa_error = err_message e\<rparr>],
                       errors @ [err_message e], s)
           | Inr t \<Rightarrow>
               if t \<noteq> ''Standard_Stream'' \<and> t \<noteq> ''Port'' \<and> t \<noteq> ''InteractiveCommands'' then
                 (let e = ''unsupported session type '' @ js_quote j t
                  in (actions @ [\<lparr>pa_type = action_type, pa_status = 3, pa_error = e\<rparr>], errors @ [e], s))
               else (actions @ [\<lparr>pa_type = action_type, pa_status = 1, pa_error = ''''\<rparr>], errors,
                     s\<lparr>ss_session_type := t\<rparr>))
        else
          (let e = ''unsupported action '' @ js_quote j action_type
           in (actions @ [\<lparr>pa_type = action_type, pa_status = 3, pa_error = e\<rparr>], errors @ [e], s)))"

definition handle_handshake_request :: "json_codec \<Rightarrow> bytes \<Rightarrow> ssm_step" where
  "handle_handshake_request j payload s =
     (case js_request j payload of
        Inl e \<Rightarrow> (Some (Go_Error False (''decode handshake request: '' @ err_message e)), s)
      | Inr actions \<Rightarrow>
          (case fold (process_action j) actions ([], [], s) of (processed, errors, s) \<Rightarrow>
             (case send_input_payload 6 (js_response j processed errors) s of
                (Some e, s) \<Rightarrow> (Some e, s)
              | (None, s) \<Rightarrow> (None, s\<lparr>ss_ready := True\<rparr>))))"

definition write_stdout :: "bytes \<Rightarrow> ssm_session \<Rightarrow> ssm_session" where
  "write_stdout bs s = s\<lparr>ss_stdout := map_option (\<lambda>out. out @ bs) (ss_stdout s)\<rparr>"

definition write_stderr :: "bytes \<Rightarrow> ssm_session \<Rightarrow> ssm_session" where
  "write_stderr bs s = s\<lparr>ss_stderr := map_option (\<lambda>out. out @ bs) (ss_stderr s)\<rparr>"

definition handle_handshake_complete :: "json_codec \<Rightarrow> bytes \<Rightarrow> ssm_step" where
  "handle_handshake_complete j payload s =
     (let s = (case js_complete j payload of
          Inl e \<Rightarrow> s
        | Inr message \<Rightarrow>
            if message \<noteq> '''' \<and> ss_session_type s \<noteq> ''Port'' then write_stdout (bytes_of message @ [0x0a]) s else s)
      in (None, s\<lparr>ss_ready := True\<rparr>))"

definition handle_flag_message :: "bytes \<Rightarrow> ssm_step" where
  "handle_flag_message payload s =
     (if length payload < 4 then (None, s)
      else if be_value (take 4 payload) = 3
      then (Some (Go_Error False ''aws ssm port session reported connect-to-port error''), s)
      else (None, s))"

section \<open>The read loop\<close>

definition handle_payload :: "json_codec \<Rightarrow> int \<Rightarrow> client_message \<Rightarrow> ssm_step" where
  "handle_payload j now m s =
     (if cm_payload_type m = 1 then
        (case filter_startup_output now (cm_payload m) (s\<lparr>ss_startup_trigger := True, ss_ready := True\<rparr>) of
           (payload, s) \<Rightarrow> (None, if payload = [] then s else write_stdout payload s))
      else if cm_payload_type m = 11 then
        (case filter_startup_output now (cm_payload m) (s\<lparr>ss_startup_trigger := True, ss_ready := True\<rparr>) of
           (payload, s) \<Rightarrow> (None, if payload = [] then s else write_stderr payload s))
      else if cm_payload_type m = 10 then handle_flag_message (cm_payload m) s
      else if cm_payload_type m = 5 then handle_handshake_request j (cm_payload m) s
      else if cm_payload_type m = 7 then handle_handshake_complete j (cm_payload m) s
      else (None, s))"

definition handle_output_message :: "json_codec \<Rightarrow> int \<Rightarrow> client_message \<Rightarrow> ssm_step" where
  "handle_output_message j now m s =
     (case send_acknowledge j m s of
        (Some e, s) \<Rightarrow> (Some e, s)
      | (None, s) \<Rightarrow>
          if sint (cm_sequence m) \<le> sint (ss_last_output s) then (None, s)
          else handle_payload j now m (s\<lparr>ss_last_output := cm_sequence m\<rparr>))"

text \<open>The loop goes on, or stops and reports an error or a normal end.\<close>

datatype loop_status = Reading | Stopped "go_error option"

definition read_step :: "json_codec \<Rightarrow> int \<Rightarrow> bytes \<Rightarrow> ssm_session \<Rightarrow> loop_status \<times> ssm_session" where
  "read_step j now raw s =
     (case decode_client_message raw of
        Panicked \<Rightarrow> (Stopped None, s)     \<comment> \<open>does not happen\<close>
      | Failed e \<Rightarrow> (Stopped (Some e), s)
      | Done m \<Rightarrow>
          if cm_type m = output_stream_data then
            (case handle_output_message j now m s of
               (Some e, s) \<Rightarrow> (Stopped (Some e), s)
             | (None, s) \<Rightarrow> (Reading, s))
          else if cm_type m = acknowledge then (Reading, s)
          else if cm_type m = channel_closed then (Stopped None, s)
          else (Reading, s))"

definition error_contains :: "string \<Rightarrow> go_error \<Rightarrow> bool" where
  "error_contains needle e = contains (err_message e) needle"

definition is_network_close :: "go_error \<Rightarrow> bool" where
  "is_network_close e =
     (error_contains ''use of closed network connection'' e \<or> error_contains ''EOF'' e)"

text \<open>The messages that arrive, with the time; the loop stops when receiving fails.\<close>

datatype received = Received int bytes | Receive_Failed go_error

fun read_loop :: "json_codec \<Rightarrow> received list \<Rightarrow> ssm_session \<Rightarrow> loop_status \<times> ssm_session" where
  "read_loop j [] s = (Reading, s)"
| "read_loop j (Receive_Failed e # rs) s =
     (Stopped (if is_network_close e then None else Some e), s)"
| "read_loop j (Received now raw # rs) s =
     (case read_step j now raw s of
        (Reading, s) \<Rightarrow> read_loop j rs s
      | (Stopped e, s) \<Rightarrow> (Stopped e, s))"

section \<open>Delivery\<close>

text \<open>The messages that arrive and can be decoded, and of a list of messages those whose sequence
  number is above all earlier ones.\<close>

definition arrived :: "received list \<Rightarrow> client_message list" where
  "arrived rs = List.map_filter (\<lambda>r. case r of
       Received now raw \<Rightarrow> (case decode_client_message raw of Done m \<Rightarrow> Some m | _ \<Rightarrow> None)
     | Receive_Failed e \<Rightarrow> None) rs"

definition output_messages :: "received list \<Rightarrow> client_message list" where
  "output_messages rs = filter (\<lambda>m. cm_type m = output_stream_data) (arrived rs)"

fun newest :: "64 word \<Rightarrow> client_message list \<Rightarrow> client_message list" where
  "newest n [] = []"
| "newest n (m # ms) =
     (if sint (cm_sequence m) \<le> sint n then newest n ms else m # newest (cm_sequence m) ms)"

definition text_of :: "client_message \<Rightarrow> bytes" where
  "text_of m = (if cm_payload_type m = 1 then cm_payload m else [])"

definition acks :: "ssm_session \<Rightarrow> bytes list" where
  "acks s = map sm_payload (filter (\<lambda>m. sm_type m = acknowledge) (ss_sent s))"

definition ack_payload :: "json_codec \<Rightarrow> client_message \<Rightarrow> bytes" where
  "ack_payload j m = js_ack j (cm_type m) (cm_id m) (cm_sequence m)"

text \<open>The parts of the state a step of the handshake leaves alone.\<close>

definition same_streams :: "ssm_session \<Rightarrow> ssm_session \<Rightarrow> bool" where
  "same_streams s s' = (ss_stdout s' = ss_stdout s \<and> acks s' = acks s \<and> ss_last_output s' = ss_last_output s
     \<and> ss_startup_suppress s' = ss_startup_suppress s)"

lemma input_is_no_ack [simp]: "input_stream_data \<noteq> acknowledge"
  by (simp add: input_stream_data_def acknowledge_def bytes_of_def of_char_def)

lemma process_actions_same:
  "fold (process_action j) actions (as, es, s) = (as', es', s') \<Longrightarrow> same_streams s s'"
proof (induction actions arbitrary: as es s)
  case Nil
  then show ?case
    by (simp add: same_streams_def)
next
  case (Cons a actions)
  obtain as1 es1 s1 where s1: "process_action j a (as, es, s) = (as1, es1, s1)"
    by (metis prod_cases3)
  then have "same_streams s s1"
    by (auto simp: process_action_def same_streams_def acks_def Let_def split: prod.splits sum.splits if_splits)
  moreover have "same_streams s1 s'"
    using Cons s1 by simp
  ultimately show ?case
    by (simp add: same_streams_def)
qed

lemma send_input_same: "send_input_payload t p s = (r, s') \<Longrightarrow> same_streams s s'"
  by (auto simp: send_input_payload_def send_message_def same_streams_def acks_def Let_def split: if_splits)

lemma handshake_request_same:
  assumes "handle_handshake_request j p s = (None, s')"
  shows "same_streams s s'"
proof -
  obtain actions where "js_request j p = Inr actions"
    using assms by (cases "js_request j p") (auto simp: handle_handshake_request_def)
  moreover obtain as es s1 where fold: "fold (process_action j) actions ([], [], s) = (as, es, s1)"
    by (metis prod_cases3)
  moreover obtain r s2 where send: "send_input_payload 6 (js_response j as es) s1 = (r, s2)"
    by (rule prod.exhaust)
  ultimately have "s' = s2\<lparr>ss_ready := True\<rparr>"
    using assms by (auto simp: handle_handshake_request_def split: option.splits)
  then show ?thesis
    using process_actions_same[OF fold] send_input_same[OF send] by (simp add: same_streams_def acks_def)
qed

lemma handle_payload_streams:
  assumes "handle_payload j now m s = (None, s')" and "\<not> ss_startup_suppress s" and "cm_payload_type m \<noteq> 7"
  shows "ss_stdout s' = map_option (\<lambda>out. out @ text_of m) (ss_stdout s) \<and> acks s' = acks s
     \<and> ss_last_output s' = ss_last_output s \<and> \<not> ss_startup_suppress s'"
proof (cases "cm_payload_type m = 5")
  case True
  then have "handle_handshake_request j (cm_payload m) s = (None, s')"
    using assms(1) by (simp add: handle_payload_def)
  from handshake_request_same[OF this] show ?thesis
    using assms(2) True by (simp add: same_streams_def text_of_def option.map_ident)
next
  case False
  then show ?thesis
    using assms
    by (auto simp: handle_payload_def filter_startup_output_def write_stdout_def write_stderr_def acks_def
        text_of_def handle_flag_message_def option.map_ident split: if_splits)
qed

lemma handle_output_streams:
  assumes "handle_output_message j now m s = (None, s')" and "\<not> ss_startup_suppress s" and "cm_payload_type m \<noteq> 7"
  shows "ss_stdout s' = map_option (\<lambda>out. out @ concat (map text_of (newest (ss_last_output s) [m]))) (ss_stdout s)
     \<and> acks s' = acks s @ [ack_payload j m]
     \<and> ss_last_output s' = (if sint (cm_sequence m) \<le> sint (ss_last_output s) then ss_last_output s else cm_sequence m)
     \<and> \<not> ss_startup_suppress s'"
proof -
  obtain s1 where s1: "send_acknowledge j m s = (None, s1)"
    using assms(1) by (cases "send_acknowledge j m s") (auto simp: handle_output_message_def split: option.splits)
  then have same: "ss_stdout s1 = ss_stdout s" "acks s1 = acks s @ [ack_payload j m]"
    "ss_last_output s1 = ss_last_output s" "\<not> ss_startup_suppress s1"
    using assms(2)
    by (auto simp: send_acknowledge_def send_message_def acks_def ack_payload_def split: if_splits)
  show ?thesis
  proof (cases "sint (cm_sequence m) \<le> sint (ss_last_output s)")
    case True
    then have "s' = s1"
      using assms(1) s1 same by (simp add: handle_output_message_def)
    with same True show ?thesis
      by (simp add: option.map_ident)
  next
    case False
    then have "handle_payload j now m (s1\<lparr>ss_last_output := cm_sequence m\<rparr>) = (None, s')"
      using assms(1) s1 same by (simp add: handle_output_message_def)
    from handle_payload_streams[OF this] same False assms(3) show ?thesis
      by (simp add: acks_def)
  qed
qed

text \<open>
  C35. As long as the loop goes on reading, the suppression of the startup output is off and no message has
  the payload type 7: every output message that arrives is acknowledged, in the order of arrival; and the text
  written to standard output is that of the messages whose sequence number is above all earlier
  ones, in order. So a message sent again is written once, and one that arrives after a later
  message is acknowledged without being written. (A message of type 7 completes the handshake, which may
  start the suppression; while that is on, text is held back. A loop that ends, by a closed channel or a failure,
  need not have written or acknowledged the message it ends with.)
\<close>

theorem ssm_output_delivery:
  assumes "read_loop j rs s = (Reading, s')" and "\<not> ss_startup_suppress s"
    and "\<forall>m \<in> set (output_messages rs). cm_payload_type m \<noteq> 7"
  shows "ss_stdout s' =
       map_option (\<lambda>out. out @ concat (map text_of (newest (ss_last_output s) (output_messages rs)))) (ss_stdout s)
     \<and> acks s' = acks s @ map (ack_payload j) (output_messages rs)"
  using assms
proof (induction rs arbitrary: s)
  case Nil
  then show ?case
    by (simp add: output_messages_def arrived_def List.map_filter_def option.map_ident)
next
  case (Cons r rs)
  obtain now raw where r: "r = Received now raw"
    using Cons.prems(1) by (cases r) auto
  then obtain s1 where step: "read_step j now raw s = (Reading, s1)" and loop: "read_loop j rs s1 = (Reading, s')"
    using Cons.prems(1) by (auto split: prod.splits loop_status.splits)
  then obtain m where m: "decode_client_message raw = Done m"
    by (auto simp: read_step_def split: outcome.splits)
  show ?case
  proof (cases "cm_type m = output_stream_data")
    case False
    then have "s1 = s" and "output_messages (r # rs) = output_messages rs"
      using step m r
      by (auto simp: read_step_def output_messages_def arrived_def List.map_filter_def split: if_splits)
    with Cons.IH[of s1] loop Cons.prems show ?thesis
      by simp
  next
    case True
    then have handle: "handle_output_message j now m s = (None, s1)"
      using step m by (auto simp: read_step_def split: prod.splits option.splits)
    have out: "output_messages (r # rs) = m # output_messages rs"
      using True m r by (simp add: output_messages_def arrived_def List.map_filter_def)
    note one = handle_output_streams[OF handle Cons.prems(2)]
    have "\<not> ss_startup_suppress s1" "\<forall>m \<in> set (output_messages rs). cm_payload_type m \<noteq> 7"
      using one Cons.prems(3) out by simp_all
    from Cons.IH[OF loop this] one Cons.prems(3) out show ?thesis
      by (cases "sint (cm_sequence m) \<le> sint (ss_last_output s)") (simp_all add: option.map_comp comp_def)
  qed
qed

section \<open>Instance\<close>

definition plain_json :: json_codec where
  "plain_json = \<lparr>js_ack = (\<lambda>t i n. be_bytes 8 (uint n)), js_request = (\<lambda>p. Inr []),
     js_session_type = (\<lambda>p. Inr ''Port''), js_response = (\<lambda>as es. []), js_complete = (\<lambda>p. Inr ''''),
     js_quote = (\<lambda>s. s)\<rparr>"

definition fresh_session :: ssm_session where
  "fresh_session = \<lparr>ss_connected = True, ss_sent = [], ss_stdout = Some [], ss_stderr = None, ss_ready = False,
     ss_startup_trigger = False, ss_sequence = 0, ss_last_output = -1, ss_startup_suppress = False,
     ss_startup_marker = [], ss_startup_buffer = [], ss_startup_since = None, ss_session_type = ''Port''\<rparr>"

definition output_message :: "64 word \<Rightarrow> string \<Rightarrow> client_message" where
  "output_message n text = \<lparr>cm_type = output_stream_data, cm_schema = 1, cm_created = 0, cm_sequence = n,
     cm_flags = 0, cm_id = replicate 16 0, cm_payload_type = 1, cm_payload = bytes_of text\<rparr>"

definition on_the_wire :: "client_message \<Rightarrow> received" where
  "on_the_wire m = Received 0 (encode_client_message (\<lambda>p. replicate 32 0) m)"

lemma decode_output_message:
  "length text < 1000 \<Longrightarrow>
   decode_client_message (encode_client_message (\<lambda>p. replicate 32 0) (output_message n text)) = Done (output_message n text)"
  by (rule decode_encode)
    (simp_all add: output_message_def plain_type_def output_stream_data_def bytes_of_def of_char_def)

text \<open>A message, the next but one, the same again, and the one between, which arrives too late.\<close>

lemma ssm_output_delivery_witness:
  "let rs = map on_the_wire [output_message 0 ''a'', output_message 2 ''c'', output_message 2 ''c'', output_message 1 ''b''];
       s' = snd (read_loop plain_json rs fresh_session)
   in ss_stdout s' = Some (bytes_of ''ac'') \<and> length (acks s') = 4"
proof -
  let ?ms = "[output_message 0 ''a'', output_message 2 ''c'', output_message 2 ''c'', output_message 1 ''b'']"
  let ?rs = "map on_the_wire ?ms"
  obtain st s' where loop: "read_loop plain_json ?rs fresh_session = (st, s')"
    by (rule prod.exhaust)
  have type: "cm_type (output_message n t) = output_stream_data" "cm_payload_type (output_message n t) = 1" for n t
    by (simp_all add: output_message_def)
  have outs: "output_messages ?rs = ?ms"
    by (simp add: output_messages_def arrived_def List.map_filter_def on_the_wire_def decode_output_message type)
  have "st = Reading"
    using loop
    by (auto simp: on_the_wire_def read_step_def decode_output_message type handle_output_message_def send_acknowledge_def
        send_message_def handle_payload_def filter_startup_output_def write_stdout_def fresh_session_def split: if_splits)
  from ssm_output_delivery[OF loop[unfolded this]] outs
  have "ss_stdout s' = map_option (\<lambda>out. out @ concat (map text_of (newest (-1) ?ms))) (Some [])" "acks s' = map (ack_payload plain_json) ?ms"
    by (simp_all add: type fresh_session_def acks_def del: newest.simps)
  moreover have "concat (map text_of (newest (-1) ?ms)) = bytes_of ''ac''"
    by (simp add: output_message_def text_of_def bytes_of_def)
  ultimately show ?thesis
    using loop by simp
qed

end
