(* ===== verification/Ssm_Streams.thy ===== *)
theory Ssm_Streams
  imports Go_Bytes
begin

text \<open>
  The text streams around a Systems Manager session,
  \<^verbatim>\<open>provider-mixed-aws-ec2/ssmsession/session.go\<close>: the line endings of the interactive input, the
  writer that takes the exit status of a command out of its standard error, and how
  \<^verbatim>\<open>RunStreamCommand\<close> puts two of these writers together.
\<close>

section \<open>Interactive input\<close>

text \<open>What the loop of \<open>normalizeInteractiveInputPayload\<close> appends for the byte at an index.\<close>

definition normalized_at :: "bool \<Rightarrow> bytes \<Rightarrow> nat \<Rightarrow> bytes" where
  "normalized_at expand p i =
     (let b = p ! i;
          before_lf = (i + 1 < length p \<and> p ! (i + 1) = 0x0a);
          after_cr = (0 < i \<and> p ! (i - 1) = 0x0d)
      in if expand \<and> b = 0x0d then (if before_lf then [0x0d] else [0x0d, 0x0a])
         else if expand \<and> b = 0x0a then (if after_cr then [0x0a] else [0x0d, 0x0a])
         else if b = 0x0d then [0x0d]
         else if b = 0x0a \<and> \<not> after_cr then [0x0d]
         else if b = 0x0a \<and> after_cr then []
         else [b])"

definition normalize_interactive_input_payload :: "bool \<Rightarrow> bytes \<Rightarrow> bytes" where
  "normalize_interactive_input_payload expand p = concat (map (normalized_at expand p) [0 ..< length p])"

section \<open>Exit status\<close>

definition exit_marker :: string where
  "exit_marker = ''__LSSH_EXIT__:''"

text \<open>\<open>fmt.Sscanf(value, "%d", &code)\<close>: a sign, as many digits as there are, in the range of \<open>int\<close>;
  what follows is ignored.\<close>

definition scan_int :: "string \<Rightarrow> int option" where
  "scan_int v =
     (let sign = (if has_prefix v ''-'' \<or> has_prefix v ''+'' then take 1 v else [])
      in atoi (sign @ takeWhile is_digit (drop (length sign) v)))"

definition parse_stream_exit_code :: "string \<Rightarrow> int option" where
  "parse_stream_exit_code line =
     (if \<not> has_prefix line exit_marker then None
      else (let v = trim_space (trim_prefix line exit_marker)
            in if v = '''' then None else scan_int v))"

text \<open>A writer: its destination (\<open>None\<close> for nil), the line begun, and the exit status. Writing to the
  destination may fail.\<close>

record 'd exit_writer =
  ew_dst :: "'d option"
  ew_buf :: string
  ew_exit :: int
  ew_has :: bool

type_synonym 'd put = "string \<Rightarrow> 'd \<Rightarrow> go_error option \<times> 'd"

definition new_exit_writer :: "'d option \<Rightarrow> 'd exit_writer" where
  "new_exit_writer dst = \<lparr>ew_dst = dst, ew_buf = '''', ew_exit = 0, ew_has = False\<rparr>"

definition flush_line :: "'d put \<Rightarrow> bool \<Rightarrow> 'd exit_writer \<Rightarrow> go_error option \<times> 'd exit_writer" where
  "flush_line put had_newline w =
     (if ew_buf w = '''' then (None, w)
      else
        (let line = ew_buf w; w = w\<lparr>ew_buf := ''''\<rparr>
         in case parse_stream_exit_code line of
              Some code \<Rightarrow> (None, w\<lparr>ew_exit := code, ew_has := True\<rparr>)
            | None \<Rightarrow>
                (case ew_dst w of
                   None \<Rightarrow> (None, w)
                 | Some d \<Rightarrow>
                     (case put (if had_newline then line @ [CHR 0x0a] else line) d of
                        (e, d') \<Rightarrow> (e, w\<lparr>ew_dst := Some d'\<rparr>)))))"

fun ew_write :: "'d put \<Rightarrow> string \<Rightarrow> 'd exit_writer \<Rightarrow> go_error option \<times> 'd exit_writer" where
  "ew_write put [] w = (None, w)"
| "ew_write put (b # p) w =
     (if b = CHR 0x0a then
        (case flush_line put True w of
           (Some e, w) \<Rightarrow> (Some e, w)
         | (None, w) \<Rightarrow> ew_write put p w)
      else ew_write put p (w\<lparr>ew_buf := ew_buf w @ [b]\<rparr>))"

definition ew_flush :: "'d put \<Rightarrow> 'd exit_writer \<Rightarrow> go_error option \<times> 'd exit_writer" where
  "ew_flush put w = flush_line put False w"

text \<open>The session ignores the errors of the writer it hands its chunks to.\<close>

definition write_chunks :: "'d put \<Rightarrow> string list \<Rightarrow> 'd exit_writer \<Rightarrow> 'd exit_writer" where
  "write_chunks put chunks w = foldl (\<lambda>w p. snd (ew_write put p w)) w chunks"

section \<open>Running a command\<close>

text \<open>\<open>RunStreamCommand\<close> hands a writer to \<open>Run\<close>, which wraps it into a writer of its own, writes the
  chunks of the standard error to that and flushes it; then the outer one is flushed and asked for
  the exit status. \<open>run_err\<close> is the error the read loop reports.\<close>

definition first_error :: "go_error option \<Rightarrow> go_error option \<Rightarrow> go_error option" where
  "first_error e flush_err = (if flush_err \<noteq> None \<and> e = None then flush_err else e)"

definition run_session_streams ::
  "'d put \<Rightarrow> string list \<Rightarrow> go_error option \<Rightarrow> 'd exit_writer \<Rightarrow> go_error option \<times> 'd exit_writer" where
  "run_session_streams put chunks run_err outer =
     (let inner = write_chunks (ew_write put) chunks (new_exit_writer (Some outer));
          (flush_err, inner) = ew_flush (ew_write put) inner
      in (first_error run_err flush_err, the (ew_dst inner)))"

definition run_stream_command :: "'d put \<Rightarrow> 'd \<Rightarrow> string list \<Rightarrow> go_error option \<Rightarrow> int \<times> go_error option" where
  "run_stream_command put stderr chunks run_err =
     (let (err, outer) = run_session_streams put chunks run_err (new_exit_writer (Some stderr));
          (flush_err, outer) = ew_flush put outer;
          err = first_error err flush_err
      in if ew_has outer then (ew_exit outer, err)
         else if err \<noteq> None then (1, err) else (0, None))"

section \<open>Input is a change of line endings\<close>

definition input_eol :: "bool \<Rightarrow> bytes" where
  "input_eol expand = (if expand then [0x0d, 0x0a] else [0x0d])"

text \<open>The bytes from an index on, when what precedes them is known to end in a CR or not.\<close>

lemma normalized_from:
  assumes "i \<le> length p" and "i < length p \<and> p ! i = 0x0a \<longrightarrow> i = 0 \<or> p ! (i - 1) \<noteq> 0x0d"
  shows "concat (map (normalized_at expand p) [i ..< length p]) = line_endings (input_eol expand) (drop i p)"
  using assms
proof (induction "length p - i" arbitrary: i rule: less_induct)
  case less
  show ?case
  proof (cases "i < length p")
    case True
    then have p: "[i ..< length p] = i # [Suc i ..< length p]" "drop i p = p ! i # drop (Suc i) p"
      by (simp_all add: upt_conv_Cons Cons_nth_drop_Suc)
    show ?thesis
    proof (cases "p ! i = 0x0d \<and> Suc i < length p \<and> p ! Suc i = 0x0a")
      case pair: True
      then have p': "[Suc i ..< length p] = Suc i # [Suc (Suc i) ..< length p]" "drop (Suc i) p = 0x0a # drop (Suc (Suc i)) p"
        by (simp_all add: upt_conv_Cons Cons_nth_drop_Suc[symmetric])
      have "normalized_at expand p i @ normalized_at expand p (Suc i) = input_eol expand"
        using pair by (simp add: normalized_at_def input_eol_def Let_def)
      moreover have "concat (map (normalized_at expand p) [Suc (Suc i) ..< length p]) = line_endings (input_eol expand) (drop (Suc (Suc i)) p)"
        using less.hyps[of "Suc (Suc i)"] pair by (elim conjE) (simp add: diff_less_mono2)
      ultimately show ?thesis
        using pair p p' by simp
    next
      case single: False
      have rest: "concat (map (normalized_at expand p) [Suc i ..< length p]) = line_endings (input_eol expand) (drop (Suc i) p)"
        using less.hyps[of "Suc i"] single True by auto
      have "p ! i = 0x0d \<Longrightarrow> drop (Suc i) p = [] \<or> hd (drop (Suc i) p) \<noteq> 0x0a"
        using single by (cases "Suc i < length p") (auto simp: hd_drop_conv_nth)
      then have "line_endings (input_eol expand) (drop i p) =
         normalized_at expand p i @ line_endings (input_eol expand) (drop (Suc i) p)"
        using single less.prems(2) True
        by (cases "p ! i = 0x0d"; cases "p ! i = 0x0a") (auto simp: p(2) normalized_at_def input_eol_def Let_def)
      then show ?thesis
        using rest p by simp
    qed
  next
    case False
    then show ?thesis
      using less.prems(1) by simp
  qed
qed

lemma normalize_is_line_endings:
  "normalize_interactive_input_payload expand p = line_endings (input_eol expand) p"
  using normalized_from[of 0 p expand] by (simp add: normalize_interactive_input_payload_def)

text \<open>
  C37. The index loop of \<open>normalizeInteractiveInputPayload\<close> is a change of line endings: every CR,
  LF or CR LF of a chunk becomes one CR, or one CR LF. The chunks of a longer text give the same as
  the text itself, unless one ends in a CR and the next begins with an LF: then the terminal gets
  two line endings for one.
\<close>

theorem normalize_input_spec:
  "normalize_interactive_input_payload expand p = line_endings (input_eol expand) p
   \<and> (\<forall>q. normalize_interactive_input_payload expand (p @ q) =
          normalize_interactive_input_payload expand p @ normalize_interactive_input_payload expand q
        \<longleftrightarrow> \<not> (p \<noteq> [] \<and> q \<noteq> [] \<and> last p = 0x0d \<and> hd q = 0x0a))"
proof -
  have "length (line_endings eol (p @ q)) < length (line_endings eol p @ line_endings eol q)"
    if cut: "p \<noteq> []" "q \<noteq> []" "last p = 0x0d" "hd q = 0x0a" and eol: "eol \<noteq> []" for q eol
  proof -
    obtain p' q' where p: "p = p' @ [0x0d]" and q: "q = 0x0a # q'"
      using cut by (cases p rule: rev_cases; cases q) auto
    have "line_endings eol (p @ q) = line_endings eol p' @ eol @ line_endings eol q'"
      using line_endings_append[of p' "[0x0d, 0x0a] @ q'" eol] by (simp add: p q)
    moreover have "line_endings eol p = line_endings eol p' @ eol"
      using line_endings_append[of p' "[0x0d]" eol] by (simp add: p)
    ultimately show ?thesis
      using eol q by simp
  qed
  moreover have "input_eol expand \<noteq> []"
    by (simp add: input_eol_def)
  ultimately show ?thesis
    unfolding normalize_is_line_endings using line_endings_append[of p] by (metis less_irrefl)
qed

section \<open>What the writer does with whole lines\<close>

text \<open>The lines of a text that are ended, and the rest.\<close>

fun ended_lines :: "string \<Rightarrow> string \<Rightarrow> string list" where
  "ended_lines buf [] = []"
| "ended_lines buf (b # p) =
     (if b = CHR 0x0a then buf # ended_lines [] p else ended_lines (buf @ [b]) p)"

fun open_line :: "string \<Rightarrow> string \<Rightarrow> string" where
  "open_line buf [] = buf"
| "open_line buf (b # p) = (if b = CHR 0x0a then open_line [] p else open_line (buf @ [b]) p)"

lemma ended_lines_append: "ended_lines buf (p @ q) = ended_lines buf p @ ended_lines (open_line buf p) q"
  by (induction p arbitrary: buf) auto

lemma open_line_append: "open_line buf (p @ q) = open_line (open_line buf p) q"
  by (induction p arbitrary: buf) auto

text \<open>A line the writer passes on: not empty and without an exit status.\<close>

definition passed :: "string \<Rightarrow> bool" where
  "passed l = (l \<noteq> '''' \<and> parse_stream_exit_code l = None)"

text \<open>A destination that collects what is written to it.\<close>

definition collect :: "string put" where
  "collect s out = (None, out @ s)"

definition with_newlines :: "string list \<Rightarrow> string" where
  "with_newlines ls = concat (map (\<lambda>l. l @ [CHR 0x0a]) ls)"

lemma flush_line_collect:
  "\<exists>w'. flush_line collect nl w = (None, w') \<and> ew_buf w' = ''''
     \<and> ew_dst w' = map_option (\<lambda>out. out @ (if passed (ew_buf w) then ew_buf w @ (if nl then [CHR 0x0a] else []) else [])) (ew_dst w)"
  by (auto simp: flush_line_def passed_def collect_def Let_def option.map_ident split: option.splits)

lemma ew_write_collect:
  "\<exists>w'. ew_write collect p w = (None, w') \<and> ew_buf w' = open_line (ew_buf w) p
     \<and> ew_dst w' = map_option (\<lambda>out. out @ with_newlines (filter passed (ended_lines (ew_buf w) p))) (ew_dst w)"
proof (induction p arbitrary: w)
  case Nil
  then show ?case
    by (simp add: with_newlines_def option.map_ident)
next
  case (Cons b p)
  show ?case
  proof (cases "b = CHR 0x0a")
    case True
    obtain w1 where w1: "flush_line collect True w = (None, w1)" "ew_buf w1 = ''''"
      "ew_dst w1 = map_option (\<lambda>out. out @ (if passed (ew_buf w) then ew_buf w @ [CHR 0x0a] else [])) (ew_dst w)"
      using flush_line_collect[of True w] by auto
    from Cons.IH[of w1] True w1 show ?thesis
      by (auto simp: with_newlines_def option.map_comp comp_def)
  next
    case False
    from Cons.IH[of "w\<lparr>ew_buf := ew_buf w @ [b]\<rparr>"] False show ?thesis
      by simp
  qed
qed

lemma write_chunks_collect:
  "ew_buf (write_chunks collect chunks w) = open_line (ew_buf w) (concat chunks)
   \<and> ew_dst (write_chunks collect chunks w) =
       map_option (\<lambda>out. out @ with_newlines (filter passed (ended_lines (ew_buf w) (concat chunks)))) (ew_dst w)"
proof (induction chunks arbitrary: w)
  case Nil
  then show ?case
    by (simp add: write_chunks_def with_newlines_def option.map_ident)
next
  case (Cons p chunks)
  obtain w1 where w1: "ew_write collect p w = (None, w1)" "ew_buf w1 = open_line (ew_buf w) p"
    "ew_dst w1 = map_option (\<lambda>out. out @ with_newlines (filter passed (ended_lines (ew_buf w) p))) (ew_dst w)"
    using ew_write_collect[of p w] by blast
  have "write_chunks collect (p # chunks) w = write_chunks collect chunks w1"
    by (simp add: write_chunks_def w1(1))
  with Cons.IH[of w1] w1(2,3) show ?case
    by (simp add: ended_lines_append open_line_append with_newlines_def option.map_comp comp_def)
qed

text \<open>
  The writer passes on the text line by line, whatever the chunks are: the lines that are
  neither empty nor an exit status, with their newline, and what is left at the flush. So empty
  lines of the command's standard error are lost.
\<close>

theorem exit_writer_passes_lines:
  "let text = concat chunks; w = write_chunks collect chunks (new_exit_writer (Some ''''))
   in ew_dst (snd (ew_flush collect w)) =
      Some (with_newlines (filter passed (ended_lines '''' text))
            @ (if passed (open_line '''' text) then open_line '''' text else ''''))"
proof -
  let ?w = "write_chunks collect chunks (new_exit_writer (Some ''''))"
  obtain w' where "flush_line collect False ?w = (None, w')"
    "ew_dst w' = map_option (\<lambda>out. out @ (if passed (ew_buf ?w) then ew_buf ?w else [])) (ew_dst ?w)"
    using flush_line_collect[of False ?w] by auto
  then show ?thesis
    using write_chunks_collect[of chunks "new_exit_writer (Some '''')"]
    by (simp add: ew_flush_def Let_def new_exit_writer_def)
qed

section \<open>Two writers, no exit status\<close>

lemma ew_write_plain:
  "CHR 0x0a \<notin> set l \<Longrightarrow> ew_write put (l @ p) w = ew_write put p (w\<lparr>ew_buf := ew_buf w @ l\<rparr>)"
  by (induction l arbitrary: w) auto

lemma ew_write_line:
  "CHR 0x0a \<notin> set l \<Longrightarrow> ew_write put (l @ [CHR 0x0a]) w = flush_line put True (w\<lparr>ew_buf := ew_buf w @ l\<rparr>)"
  by (auto simp: ew_write_plain split: prod.split option.split)

text \<open>The outer writer has seen whole lines without an exit status only.\<close>

definition no_status_yet :: "'d exit_writer exit_writer \<Rightarrow> bool" where
  "no_status_yet inner =
     (case ew_dst inner of None \<Rightarrow> False
      | Some outer \<Rightarrow> \<not> ew_has outer \<and> ew_buf outer = '''' \<and> CHR 0x0a \<notin> set (ew_buf inner))"

lemma flush_line_keeps_status:
  "parse_stream_exit_code (ew_buf w) = None \<Longrightarrow>
   ew_has (snd (flush_line put nl w)) = ew_has w \<and> ew_buf (snd (flush_line put nl w)) = ''''"
  by (auto simp: flush_line_def Let_def split: option.split prod.split)

lemma inner_flush_line:
  assumes "no_status_yet inner"
  shows "no_status_yet (snd (flush_line (ew_write put) True inner)) \<and> ew_buf (snd (flush_line (ew_write put) True inner)) = ''''"
proof -
  obtain outer where outer: "ew_dst inner = Some outer" "\<not> ew_has outer" "ew_buf outer = ''''" "CHR 0x0a \<notin> set (ew_buf inner)"
    using assms by (auto simp: no_status_yet_def split: option.splits)
  show ?thesis
  proof (cases "ew_buf inner = '''' \<or> parse_stream_exit_code (ew_buf inner) \<noteq> None")
    case True
    then show ?thesis
      using outer by (auto simp: flush_line_def no_status_yet_def)
  next
    case False
    obtain e outer' where put: "flush_line put True (outer\<lparr>ew_buf := ew_buf inner\<rparr>) = (e, outer')"
      by (rule prod.exhaust)
    then have "\<not> ew_has outer' \<and> ew_buf outer' = ''''"
      using flush_line_keeps_status[of "outer\<lparr>ew_buf := ew_buf inner\<rparr>" put True] False outer by auto
    then show ?thesis
      using False outer put ew_write_line[OF outer(4), of put outer]
      by (auto simp: flush_line_def[of "ew_write put"] Let_def no_status_yet_def)
  qed
qed

lemma inner_write:
  "no_status_yet inner \<Longrightarrow> no_status_yet (snd (ew_write (ew_write put) p inner))"
proof (induction p arbitrary: inner)
  case (Cons b p)
  show ?case
  proof (cases "b = CHR 0x0a")
    case True
    obtain e inner' where flush: "flush_line (ew_write put) True inner = (e, inner')"
      by (rule prod.exhaust)
    with inner_flush_line[OF Cons.prems, of put] have "no_status_yet inner'"
      by simp
    with Cons.IH[of inner'] flush True show ?thesis
      by (cases e) simp_all
  next
    case False
    with Cons.prems have "no_status_yet (inner\<lparr>ew_buf := ew_buf inner @ [b]\<rparr>)"
      by (auto simp: no_status_yet_def split: option.splits)
    from Cons.IH[OF this] False show ?thesis
      by simp
  qed
qed simp

lemma inner_write_chunks:
  "no_status_yet inner \<Longrightarrow> no_status_yet (write_chunks (ew_write put) chunks inner)"
  unfolding write_chunks_def by (rule foldl_inv) (simp_all add: inner_write)

lemma session_streams_no_status:
  assumes "run_session_streams put chunks run_err (new_exit_writer (Some d)) = (err, outer)"
  shows "\<not> ew_has (snd (ew_flush put outer)) \<and> (run_err = None \<or> err = run_err)"
proof -
  let ?inner = "write_chunks (ew_write put) chunks (new_exit_writer (Some (new_exit_writer (Some d))))"
  have "no_status_yet ?inner"
    by (rule inner_write_chunks) (simp add: no_status_yet_def new_exit_writer_def)
  then obtain w where w: "ew_dst ?inner = Some w" "\<not> ew_has w" "ew_buf w = ''''" "CHR 0x0a \<notin> set (ew_buf ?inner)"
    by (auto simp: no_status_yet_def split: option.splits)
  have outer: "outer = the (ew_dst (snd (ew_flush (ew_write put) ?inner)))"
    and err: "err = first_error run_err (fst (ew_flush (ew_write put) ?inner))"
    using assms by (simp_all add: run_session_streams_def Let_def case_prod_beta)
  have "\<not> ew_has outer \<and> parse_stream_exit_code (ew_buf outer) = None"
  proof (cases "passed (ew_buf ?inner)")
    case True
    then have "outer = w\<lparr>ew_buf := ew_buf ?inner\<rparr>"
      using w ew_write_plain[OF w(4), of put "[]" w]
      by (simp add: outer ew_flush_def flush_line_def passed_def Let_def)
    with True w show ?thesis
      by (simp add: passed_def)
  next
    case False
    then have "outer = w"
      using w by (auto simp: outer ew_flush_def flush_line_def passed_def Let_def split: option.split)
    with w show ?thesis
      by (simp add: parse_stream_exit_code_def exit_marker_def)
  qed
  then show ?thesis
    using flush_line_keeps_status[of outer put False] err by (simp add: ew_flush_def first_error_def)
qed

text \<open>
  The exit status of a command never reaches the caller of \<open>RunStreamCommand\<close>: the writer
  inside \<open>Run\<close> takes the status line away before the one that is asked for the status sees it.
  Whatever the command writes, the result is 0, or 1 when there is an error, though a single
  writer finds the status.
\<close>

theorem stream_command_loses_status:
  "(\<exists>flush_err. run_stream_command put stderr chunks run_err =
        (let err = (case run_err of Some e \<Rightarrow> Some e | None \<Rightarrow> flush_err)
         in (if err = None then 0 else 1, err)))
   \<and> (let w = write_chunks collect [exit_marker @ ''7'' @ [CHR 0x0a]] (new_exit_writer (Some ''''))
      in ew_has w \<and> ew_exit w = 7)"
proof
  obtain err outer where session: "run_session_streams put chunks run_err (new_exit_writer (Some stderr)) = (err, outer)"
    by (rule prod.exhaust)
  obtain flush_err outer' where "ew_flush put outer = (flush_err, outer')"
    by (rule prod.exhaust)
  then have "run_stream_command put stderr chunks run_err =
      (let err = (case run_err of Some e \<Rightarrow> Some e | None \<Rightarrow> first_error err flush_err)
       in (if err = None then 0 else 1, err))"
    using session_streams_no_status[OF session] session
    by (auto simp: run_stream_command_def Let_def first_error_def split: option.split)
  then show "\<exists>flush_err. run_stream_command put stderr chunks run_err =
      (let err = (case run_err of Some e \<Rightarrow> Some e | None \<Rightarrow> flush_err)
       in (if err = None then 0 else 1, err))" ..
  show "let w = write_chunks collect [exit_marker @ ''7'' @ [CHR 0x0a]] (new_exit_writer (Some ''''))
      in ew_has w \<and> ew_exit w = 7"
    by code_simp
qed

end
