(* ===== verification/Web_Socket.thy ===== *)
theory Web_Socket
  imports Go_Bytes
begin

text \<open>
  The client side of the WebSocket protocol as the AWS and GCP connectors implement it, the
  type \<^verbatim>\<open>wsConn\<close> of \<^verbatim>\<open>provider-mixed-aws-ec2/ssmsession/session.go\<close> and its copy in
  \<^verbatim>\<open>provider-mixed-gcp-compute/iapconnector/iapconnector.go\<close>. A connection is the bytes that
  still arrive, the bytes written, and the source of the masks. The platform has 64-bit integers;
  \<open>max_alloc\<close> is the largest slice its allocator can make.
\<close>

section \<open>Connections\<close>

record ws_conn =
  ws_in :: bytes                 \<comment> \<open>what the peer sends before it closes the stream\<close>
  ws_out :: bytes
  ws_open :: bool                \<comment> \<open>\<open>c.conn != nil\<close>\<close>
  ws_broken :: bool              \<comment> \<open>writing to the network connection fails\<close>
  ws_rand :: "nat \<Rightarrow> byte"       \<comment> \<open>\<open>rand.Reader\<close>\<close>
  ws_rand_pos :: nat

definition eof :: go_error where
  "eof = Go_Error False ''EOF''"

definition unexpected_eof :: go_error where
  "unexpected_eof = Go_Error False ''unexpected EOF''"

definition write_error :: go_error where
  "write_error = Go_Error False ''write: broken pipe''"

section \<open>Writing frames\<close>

text \<open>\<open>masked[i] ^= mask[i%4]\<close> for every index.\<close>

definition apply_mask :: "bytes \<Rightarrow> bytes \<Rightarrow> bytes" where
  "apply_mask key payload = map (\<lambda>i. payload ! i XOR key ! (i mod 4)) [0 ..< length payload]"

definition frame_header :: "byte \<Rightarrow> nat \<Rightarrow> bytes" where
  "frame_header opcode n =
     (0x80 OR opcode) #
       (if n < 126 then [0x80 OR word_of_int (int n)]
        else if n \<le> 65535 then (0x80 OR 126) # be_bytes 2 (int n)
        else (0x80 OR 127) # be_bytes 8 (int n))"

definition frame_bytes :: "byte \<Rightarrow> bytes \<Rightarrow> bytes \<Rightarrow> bytes" where
  "frame_bytes opcode key payload =
     frame_header opcode (length payload) @ key @ apply_mask key payload"

definition write_frame :: "byte \<Rightarrow> bytes \<Rightarrow> ws_conn \<Rightarrow> unit outcome \<times> ws_conn" where
  "write_frame opcode payload c =
     (if \<not> ws_open c then (Failed eof, c)
      else
        (let key = map (ws_rand c) [ws_rand_pos c ..< ws_rand_pos c + 4];
             c = c\<lparr>ws_rand_pos := ws_rand_pos c + 4\<rparr>
         in if ws_broken c then (Failed write_error, c)
            else (Done (), c\<lparr>ws_out := ws_out c @ frame_bytes opcode key payload\<rparr>)))"

section \<open>Reading messages\<close>

text \<open>\<open>ReadByte\<close> and \<open>io.ReadFull\<close>: an end of the stream in the middle is another error. After an
  error no caller reads again.\<close>

fun read_byte :: "bytes \<Rightarrow> (byte \<times> bytes) outcome" where
  "read_byte [] = Failed eof"
| "read_byte (b # bs) = Done (b, bs)"

definition read_full :: "nat \<Rightarrow> bytes \<Rightarrow> (bytes \<times> bytes) outcome" where
  "read_full n bs =
     (if n \<le> length bs then Done (take n bs, drop n bs)
      else Failed (if bs = [] then eof else unexpected_eof))"

definition read_uint :: "nat \<Rightarrow> bytes \<Rightarrow> (int \<times> bytes) outcome" where
  "read_uint n bs = and_then (read_full n bs) (\<lambda>(v, rest). Done (be_value v, rest))"

record ws_frame =
  fr_fin :: bool
  fr_opcode :: byte
  fr_payload :: bytes

text \<open>The length of the payload as a signed integer; a 64-bit length may become negative.\<close>

definition read_length :: "byte \<Rightarrow> bytes \<Rightarrow> (int \<times> bytes) outcome" where
  "read_length second bs =
     (let n = uint (second AND 0x7f)
      in if n = 126 then read_uint 2 bs
         else if n = 127 then
           and_then (read_uint 8 bs) (\<lambda>(size, rest). Done (sint (word_of_int size :: 64 word), rest))
         else Done (n, bs))"

definition read_mask :: "byte \<Rightarrow> bytes \<Rightarrow> (bytes option \<times> bytes) outcome" where
  "read_mask second bs =
     (if second AND 0x80 \<noteq> 0
      then and_then (read_full 4 bs) (\<lambda>(key, rest). Done (Some key, rest))
      else Done (None, bs))"

definition read_frame :: "int \<Rightarrow> bytes \<Rightarrow> (ws_frame \<times> bytes) outcome" where
  "read_frame max_alloc bs =
     and_then (read_byte bs) (\<lambda>(first, bs).
     and_then (read_byte bs) (\<lambda>(second, bs).
     and_then (read_length second bs) (\<lambda>(n, bs).
     and_then (read_mask second bs) (\<lambda>(key, bs).
       if n < 0 \<or> max_alloc < n then Panicked
       else
         and_then (read_full (nat n) bs) (\<lambda>(payload, bs).
           Done (\<lparr>fr_fin = first AND 0x80 \<noteq> 0, fr_opcode = first AND 0x0f,
                  fr_payload = (case key of None \<Rightarrow> payload | Some m \<Rightarrow> apply_mask m payload)\<rparr>, bs))))))"

lemma read_byte_shorter: "read_byte bs = Done (b, rest) \<Longrightarrow> length rest < length bs"
  by (cases bs) auto

lemma read_full_shorter: "read_full n bs = Done (v, rest) \<Longrightarrow> length rest \<le> length bs"
  by (auto simp: read_full_def split: if_splits)

lemma read_length_shorter: "read_length b bs = Done (n, rest) \<Longrightarrow> length rest \<le> length bs"
  by (auto simp: read_length_def read_uint_def Let_def and_then_Done split: if_splits dest: read_full_shorter)

lemma read_mask_shorter: "read_mask b bs = Done (m, rest) \<Longrightarrow> length rest \<le> length bs"
  by (auto simp: read_mask_def and_then_Done split: if_splits dest: read_full_shorter)

lemma read_frame_shorter: "read_frame max_alloc bs = Done (f, rest) \<Longrightarrow> length rest < length bs"
  unfolding read_frame_def and_then_Done
  by (auto simp: and_then_Done split: if_splits
      dest!: read_byte_shorter read_full_shorter read_length_shorter read_mask_shorter)

lemma write_frame_in [simp]: "ws_in (snd (write_frame opcode payload c)) = ws_in c"
  by (simp add: write_frame_def Let_def)

text \<open>\<open>ReadMessage\<close>: control frames are handled on the way, a ping is answered at once.\<close>

function read_message :: "int \<Rightarrow> ws_conn \<Rightarrow> bytes outcome \<times> ws_conn" where
  "read_message max_alloc c =
     (case read_frame max_alloc (ws_in c) of
        Failed e \<Rightarrow> (Failed e, c)
      | Panicked \<Rightarrow> (Panicked, c)
      | Done (f, rest) \<Rightarrow>
          (let c' = c\<lparr>ws_in := rest\<rparr>
           in if \<not> fr_fin f then
                (Failed (Go_Error False ''fragmented websocket frames are not supported''), c')
              else if fr_opcode f = 0x1 \<or> fr_opcode f = 0x2 then (Done (fr_payload f), c')
              else if fr_opcode f = 0x8 then (Failed eof, c')
              else if fr_opcode f = 0x9 then
                (case write_frame 0xA (fr_payload f) c' of
                   (Done _, _) \<Rightarrow> read_message max_alloc (snd (write_frame 0xA (fr_payload f) c'))
                 | (Failed e, c'') \<Rightarrow> (Failed e, c'')
                 | (Panicked, c'') \<Rightarrow> (Panicked, c''))
              else read_message max_alloc c'))"
  by pat_completeness auto
termination
  by (relation "measure (\<lambda>(m, c). length (ws_in c))") (auto dest: read_frame_shorter)

declare read_message.simps [simp del]

section \<open>Frames are read back\<close>

lemma length_apply_mask [simp]: "length (apply_mask key p) = length p"
  by (simp add: apply_mask_def)

lemma apply_mask_involution [simp]: "apply_mask key (apply_mask key p) = p"
  by (rule nth_equalityI) (simp_all add: apply_mask_def xor.assoc)

lemma second_length:
  assumes "n < 128"
  shows "uint ((0x80 OR word_of_int (int n) :: byte) AND 0x7f) = int n"
proof -
  have "(0x80 OR word_of_int (int n) :: byte) AND 0x7f = word_of_int (int n) AND 0x7f"
    by (simp add: bit.conj_disj_distrib2)
  also have "\<dots> = take_bit 7 (word_of_int (int n))"
    by (simp add: take_bit_eq_mask mask_eq_exp_minus_1)
  finally have "uint ((0x80 OR word_of_int (int n) :: byte) AND 0x7f) = take_bit 7 (int n)"
    by (simp add: unsigned_take_bit_eq unsigned_of_nat of_nat_take_bit)
  then show ?thesis
    using assms by (simp add: take_bit_eq_mod)
qed

lemma second_masked: "(0x80 OR b :: byte) AND 0x80 \<noteq> 0"
proof
  assume "(0x80 OR b :: byte) AND 0x80 = 0"
  moreover have "(0x80 OR b :: byte) AND 0x80 = 0x80"
    by (rule bit_word_eqI) (auto simp: bit_simps)
  ultimately show False
    by simp
qed

lemma read_full_append [simp]: "length v = n \<Longrightarrow> read_full n (v @ rest) = Done (v, rest)"
  by (simp add: read_full_def)

lemma read_uint_be_bytes:
  "0 \<le> v \<Longrightarrow> v < 256 ^ n \<Longrightarrow> read_uint n (be_bytes n v @ rest) = Done (v, rest)"
  by (simp add: read_uint_def be_value_be_bytes_small)

definition data_opcode :: "byte \<Rightarrow> bool" where
  "data_opcode opcode = (opcode = 0x1 \<or> opcode = 0x2)"

definition known_opcode :: "byte \<Rightarrow> bool" where
  "known_opcode opcode = (opcode \<in> {0x1, 0x2, 0x8, 0x9, 0xA})"

lemma first_byte:
  assumes "known_opcode opcode"
  shows "(0x80 OR opcode) AND 0x80 \<noteq> 0 \<and> (0x80 OR opcode) AND 0x0f = opcode"
  using assms by (auto simp: known_opcode_def)

text \<open>The lengths that fit: a signed 64-bit number the allocator accepts.\<close>

definition frame_ok :: "int \<Rightarrow> byte \<times> bytes \<Rightarrow> bytes \<Rightarrow> bool" where
  "frame_ok max_alloc ok p =
     (known_opcode (fst ok) \<and> length (snd ok) = 4 \<and> int (length p) \<le> max_alloc \<and> length p < 2 ^ 63)"

lemma read_length_header:
  assumes "n < 2 ^ 63"
  shows "\<exists>second tail. frame_header opcode n = (0x80 OR opcode) # second # tail
     \<and> second AND 0x80 \<noteq> 0 \<and> read_length second (tail @ rest) = Done (int n, rest)"
proof -
  have 126: "uint ((0x80 OR 126 :: byte) AND 0x7f) = 126" and 127: "uint ((0x80 OR 127 :: byte) AND 0x7f) = 127"
    by simp_all
  consider "n < 126" | "126 \<le> n" "n \<le> 65535" | "65535 < n"
    by linarith
  then show ?thesis
  proof cases
    case 1
    then show ?thesis
      using second_masked by (auto simp: frame_header_def read_length_def Let_def second_length[simplified])
  next
    case 2
    then have "read_uint 2 (be_bytes 2 (int n) @ rest) = Done (int n, rest)"
      by (intro read_uint_be_bytes) simp_all
    with 2 show ?thesis
      using second_masked[of 126] by (simp add: frame_header_def read_length_def Let_def)
  next
    case 3
    have "int n < 2 ^ 63"
      using assms by simp
    then have "read_uint 8 (be_bytes 8 (int n) @ rest) = Done (int n, rest)"
      by (intro read_uint_be_bytes) simp_all
    moreover have "sint (word_of_int (int n) :: 64 word) = int n"
      unfolding int_word_sint using \<open>int n < 2 ^ 63\<close> by (simp add: mod_pos_pos_trivial)
    ultimately show ?thesis
      using 3 second_masked[of 127] by (simp add: frame_header_def read_length_def Let_def)
  qed
qed

lemma read_frame_bytes:
  assumes "frame_ok max_alloc (opcode, key) p"
  shows "read_frame max_alloc (frame_bytes opcode key p @ rest) =
     Done (\<lparr>fr_fin = True, fr_opcode = opcode, fr_payload = p\<rparr>, rest)"
proof -
  have ok: "known_opcode opcode" "length key = 4" "int (length p) \<le> max_alloc" "length p < 2 ^ 63"
    using assms by (simp_all add: frame_ok_def)
  obtain second tail where h: "frame_header opcode (length p) = (0x80 OR opcode) # second # tail"
    "second AND 0x80 \<noteq> 0"
    "read_length second (tail @ key @ apply_mask key p @ rest) = Done (int (length p), key @ apply_mask key p @ rest)"
    using read_length_header[OF ok(4), of opcode "key @ apply_mask key p @ rest"] by auto
  have "read_mask second (key @ apply_mask key p @ rest) = Done (Some key, apply_mask key p @ rest)"
    using h(2) ok(2) by (simp add: read_mask_def)
  then show ?thesis
    using h first_byte[OF ok(1)] ok(3) by (simp add: read_frame_def frame_bytes_def)
qed

text \<open>What \<open>ReadMessage\<close> returns when the next frame carries data.\<close>

definition read_data :: "int \<Rightarrow> bytes \<Rightarrow> (bytes \<times> bytes) option" where
  "read_data max_alloc bs =
     (case read_frame max_alloc bs of
        Done (f, rest) \<Rightarrow> if fr_fin f \<and> data_opcode (fr_opcode f) then Some (fr_payload f, rest) else None
      | _ \<Rightarrow> None)"

interpretation data: framing "\<lambda>(opcode, key). frame_bytes opcode key" "read_data max_alloc"
    "\<lambda>ok p. frame_ok max_alloc ok p \<and> data_opcode (fst ok)" for max_alloc :: int
  by unfold_locales (auto simp: read_data_def read_frame_bytes)

section \<open>Message streams\<close>

fun send_all :: "(byte \<times> bytes) list \<Rightarrow> ws_conn \<Rightarrow> unit outcome \<times> ws_conn" where
  "send_all [] c = (Done (), c)"
| "send_all ((opcode, p) # ms) c =
     (case write_frame opcode p c of (Done _, c') \<Rightarrow> send_all ms c' | (r, c') \<Rightarrow> (r, c'))"

fun receive_many :: "int \<Rightarrow> nat \<Rightarrow> ws_conn \<Rightarrow> bytes list outcome \<times> ws_conn" where
  "receive_many max_alloc 0 c = (Done [], c)"
| "receive_many max_alloc (Suc n) c =
     (case read_message max_alloc c of
        (Done m, c') \<Rightarrow>
          (case receive_many max_alloc n c' of (Done ms, c'') \<Rightarrow> (Done (m # ms), c'') | (r, c'') \<Rightarrow> (r, c''))
      | (Failed e, c') \<Rightarrow> (Failed e, c')
      | (Panicked, c') \<Rightarrow> (Panicked, c'))"

lemma read_message_data:
  assumes "read_data max_alloc (ws_in c) = Some (p, rest)"
  shows "read_message max_alloc c = (Done p, c\<lparr>ws_in := rest\<rparr>)"
proof -
  obtain f where "read_frame max_alloc (ws_in c) = Done (f, rest)" "fr_fin f" "data_opcode (fr_opcode f)" "p = fr_payload f"
    using assms by (auto simp: read_data_def split: outcome.splits if_splits)
  then show ?thesis
    by (simp add: read_message.simps data_opcode_def)
qed

lemma receive_many_data:
  "read_many (read_data max_alloc) n (ws_in c) = Some (ms, rest) \<Longrightarrow>
   receive_many max_alloc n c = (Done ms, c\<lparr>ws_in := rest\<rparr>)"
proof (induction n arbitrary: c ms)
  case (Suc n)
  then obtain p bs ms' where p: "read_data max_alloc (ws_in c) = Some (p, bs)"
    and "read_many (read_data max_alloc) n bs = Some (ms', rest)" "ms = p # ms'"
    by (auto split: option.splits)
  then show ?case
    using Suc.IH[of "c\<lparr>ws_in := bs\<rparr>" ms'] read_message_data[OF p] by simp
qed simp

lemma write_frame_Done:
  assumes "ws_open c" and "\<not> ws_broken c"
  shows "\<exists>key. length key = 4 \<and> write_frame opcode p c =
     (Done (), c\<lparr>ws_rand_pos := ws_rand_pos c + 4, ws_out := ws_out c @ frame_bytes opcode key p\<rparr>)"
  using assms
  by (intro exI[of _ "map (ws_rand c) [ws_rand_pos c ..< ws_rand_pos c + 4]"]) (simp add: write_frame_def Let_def)

lemma send_all_bytes:
  assumes "ws_open c" and "\<not> ws_broken c"
  shows "\<exists>keys. length keys = length ms \<and> (\<forall>key \<in> set keys. length key = 4) \<and> fst (send_all ms c) = Done ()
     \<and> ws_out (snd (send_all ms c)) = ws_out c @ concat (map (\<lambda>((opcode, p), key). frame_bytes opcode key p) (zip ms keys))"
  using assms
proof (induction ms arbitrary: c)
  case (Cons m ms)
  obtain opcode p where m: "m = (opcode, p)"
    by (rule prod.exhaust)
  obtain key where key: "length key = 4" "write_frame opcode p c =
     (Done (), c\<lparr>ws_rand_pos := ws_rand_pos c + 4, ws_out := ws_out c @ frame_bytes opcode key p\<rparr>)"
    using write_frame_Done[OF Cons.prems] by blast
  obtain keys where keys: "length keys = length ms" "\<forall>key \<in> set keys. length key = 4"
    "fst (send_all ms (c\<lparr>ws_rand_pos := ws_rand_pos c + 4, ws_out := ws_out c @ frame_bytes opcode key p\<rparr>)) = Done ()"
    "ws_out (snd (send_all ms (c\<lparr>ws_rand_pos := ws_rand_pos c + 4, ws_out := ws_out c @ frame_bytes opcode key p\<rparr>)))
      = (ws_out c @ frame_bytes opcode key p) @ concat (map (\<lambda>((opcode, p), key). frame_bytes opcode key p) (zip ms keys))"
    using Cons.IH[of "c\<lparr>ws_rand_pos := ws_rand_pos c + 4, ws_out := ws_out c @ frame_bytes opcode key p\<rparr>"] Cons.prems
    by auto
  show ?case
    using m key keys by (intro exI[of _ "key # keys"]) simp
qed simp

lemma receive_frames:
  assumes "length keys = length ms" and "\<forall>key \<in> set keys. length key = 4"
    and "\<forall>(opcode, p) \<in> set ms. data_opcode opcode \<and> int (length p) \<le> max_alloc \<and> length p < 2 ^ 63"
    and "ws_in c = concat (map (\<lambda>((opcode, p), key). frame_bytes opcode key p) (zip ms keys)) @ rest"
  shows "receive_many max_alloc (length ms) c = (Done (map snd ms), c\<lparr>ws_in := rest\<rparr>)"
proof -
  let ?sent = "map (\<lambda>((opcode, p), key). ((opcode, key), p)) (zip ms keys)"
  have "\<forall>(k, m) \<in> set ?sent. frame_ok max_alloc k m \<and> data_opcode (fst k)"
  proof (rule ballI)
    fix x
    assume "x \<in> set ?sent"
    then obtain opcode p key where x: "x = ((opcode, key), p)" and "((opcode, p), key) \<in> set (zip ms keys)"
      by auto
    then have "(opcode, p) \<in> set ms" "key \<in> set keys"
      by (auto dest: set_zip_leftD set_zip_rightD)
    with assms(2,3) show "case x of (k, m) \<Rightarrow> frame_ok max_alloc k m \<and> data_opcode (fst k)"
      unfolding x by (auto simp: frame_ok_def data_opcode_def known_opcode_def)
  qed
  note read = data.read_many_frames[OF this, of rest]
  have "length ?sent = length ms"
    using assms(1) by simp
  moreover have "concat (map (\<lambda>(k, m). (\<lambda>(opcode, key). frame_bytes opcode key) k m) ?sent)
      = concat (map (\<lambda>((opcode, p), key). frame_bytes opcode key p) (zip ms keys))"
    unfolding map_map comp_def by (simp only: case_prod_unfold fst_conv snd_conv)
  moreover have "map snd ?sent = map snd (map fst (zip ms keys))"
    unfolding map_map comp_def by (simp only: case_prod_unfold snd_conv)
  ultimately have "read_many (read_data max_alloc) (length ms) (ws_in c) = Some (map snd ms, rest)"
    using read assms(1,4) by (simp only: map_fst_zip)
  then show ?thesis
    by (rule receive_many_data)
qed

text \<open>
  C32. What one connection writes another one reads: on an open connection writing text and
  binary messages succeeds, and a peer whose input starts with the bytes written reads exactly
  the payloads, in order, whatever the masks are, and keeps the bytes that follow.
\<close>

theorem ws_messages_roundtrip:
  assumes "ws_open a" and "\<not> ws_broken a" and "ws_out a = []"
    and "\<forall>(opcode, p) \<in> set ms. data_opcode opcode \<and> int (length p) \<le> max_alloc \<and> length p < 2 ^ 63"
    and "ws_in b = ws_out (snd (send_all ms a)) @ rest"
  shows "fst (send_all ms a) = Done ()
     \<and> receive_many max_alloc (length ms) b = (Done (map snd ms), b\<lparr>ws_in := rest\<rparr>)"
proof -
  obtain keys where keys: "length keys = length ms" "\<forall>key \<in> set keys. length key = 4"
    and sent: "fst (send_all ms a) = Done ()"
      "ws_out (snd (send_all ms a)) = concat (map (\<lambda>((opcode, p), key). frame_bytes opcode key p) (zip ms keys))"
    using send_all_bytes[OF assms(1,2), of ms] assms(3) by auto
  have "receive_many max_alloc (length ms) b = (Done (map snd ms), b\<lparr>ws_in := rest\<rparr>)"
    using assms(5) by (intro receive_frames[OF keys assms(4)]) (simp add: sent(2))
  with sent(1) show ?thesis ..
qed

text \<open>
  A frame header announcing a payload of at least 2 to the 63 bytes makes \<open>ReadMessage\<close>
  panic: the length becomes a negative integer, which is not checked before the slice is made.
  The peer needs to send ten bytes.
\<close>

theorem ws_length_panics:
  assumes "ws_in c = first # second # len8 @ rest" and "second AND 0x7f = 127" and "second AND 0x80 = 0"
    and "length len8 = 8" and "2 ^ 63 \<le> be_value len8"
  shows "fst (read_message max_alloc c) = Panicked"
proof -
  have "be_value len8 < 2 ^ 64"
    using be_value_bounds[of len8] assms(4) by simp
  then have "(be_value len8 + 2 ^ 63) mod 2 ^ 64 = be_value len8 - 2 ^ 63"
    using assms(5) mod_add_self2[of "be_value len8 - 2 ^ 63" "2 ^ 64"] by (simp add: mod_pos_pos_trivial add.commute)
  then have "sint (word_of_int (be_value len8) :: 64 word) < 0"
    using \<open>be_value len8 < 2 ^ 64\<close> by (simp add: int_word_sint)
  moreover have "read_length second (len8 @ rest) = Done (sint (word_of_int (be_value len8) :: 64 word), rest)"
    using assms(2,4) by (simp add: read_length_def read_uint_def Let_def)
  moreover have "read_mask second rest = Done (None, rest)"
    using assms(3) by (simp add: read_mask_def)
  ultimately have "read_frame max_alloc (ws_in c) = Panicked"
    by (simp add: read_frame_def assms(1))
  then show ?thesis
    by (simp add: read_message.simps)
qed

section \<open>Instances\<close>

definition sample_conn :: "bytes \<Rightarrow> ws_conn" where
  "sample_conn bs = \<lparr>ws_in = bs, ws_out = [], ws_open = True, ws_broken = False,
     ws_rand = (\<lambda>n. word_of_int (17 * int n + 3)), ws_rand_pos = 0\<rparr>"

lemma ws_messages_roundtrip_witness:
  "let ms = [(0x1, [0x48, 0x69]), (0x2, [])];
       wire = ws_out (snd (send_all ms (sample_conn [])))
   in receive_many 1000 2 (sample_conn (wire @ [0x88])) = (Done [[0x48, 0x69], []], sample_conn [0x88])"
proof -
  let ?ms = "[(0x1, [0x48, 0x69]), (0x2, [])] :: (byte \<times> bytes) list"
  let ?b = "sample_conn (ws_out (snd (send_all ?ms (sample_conn []))) @ [0x88])"
  have "receive_many 1000 (length ?ms) ?b = (Done (map snd ?ms), ?b\<lparr>ws_in := [0x88]\<rparr>)"
    by (rule ws_messages_roundtrip[of "sample_conn []", THEN conjunct2])
      (simp_all add: sample_conn_def data_opcode_def)
  then show ?thesis
    by (simp add: sample_conn_def numeral_2_eq_2)
qed

lemma ws_length_panics_witness:
  "fst (read_message (2 ^ 48) (sample_conn [0x82, 0x7f, 0x80, 0, 0, 0, 0, 0, 0, 0])) = Panicked"
  by (rule ws_length_panics[of _ "0x82" "0x7f" "[0x80, 0, 0, 0, 0, 0, 0, 0]" "[]"])
    (simp_all add: sample_conn_def be_value_def)

end
