(* ===== verification/Iap_Conn.thy ===== *)
theory Iap_Conn
  imports Web_Socket
begin

text \<open>
  The tunnel of GCP's identity-aware proxy, the type \<^verbatim>\<open>iapConn\<close> of
  \<^verbatim>\<open>provider-mixed-gcp-compute/iapconnector/iapconnector.go\<close>: a byte stream cut into data frames
  inside WebSocket messages, acknowledged by the receiver with running totals. The read loop runs in
  a goroutine of its own; here it is a step that other operations may come before or after.
\<close>

section \<open>Frames\<close>

definition create_iap_data_frame :: "bytes \<Rightarrow> bytes" where
  "create_iap_data_frame p = be_bytes 2 0x0004 @ be_bytes 4 (int (length p)) @ p"

definition create_iap_ack_frame :: "64 word \<Rightarrow> bytes" where
  "create_iap_ack_frame acc = be_bytes 2 0x0007 @ be_bytes 8 (uint acc)"

text \<open>The upper bound of the slice, \<open>4+size\<close>, is computed in 32 bits.\<close>

definition extract_iap_data :: "bytes \<Rightarrow> bytes outcome" where
  "extract_iap_data payload =
     (if length payload < 4 then Failed (Go_Error False ''gcp iap data frame is too short'')
      else
        (let n = be_value (take 4 payload)
         in if int (length (drop 4 payload)) < n
            then Failed (Go_Error False ''gcp iap data frame is truncated'')
            else slice 4 (nat ((4 + n) mod 2 ^ 32)) payload))"

section \<open>Connections\<close>

record iap_conn =
  ic_ws :: ws_conn
  ic_read_buf :: bytes
  ic_read_err :: "go_error option"
  ic_closed :: bool
  ic_connect :: "go_error option option"   \<comment> \<open>what is in the channel \<open>connectCh\<close>, with room for one\<close>
  ic_acked_read :: "64 word"

definition new_iap_conn :: "ws_conn \<Rightarrow> iap_conn" where
  "new_iap_conn ws = \<lparr>ic_ws = ws, ic_read_buf = [], ic_read_err = None, ic_closed = False,
     ic_connect = None, ic_acked_read = 0\<rparr>"

definition signal_connect :: "go_error option \<Rightarrow> iap_conn \<Rightarrow> iap_conn" where
  "signal_connect e c = (if ic_connect c = None then c\<lparr>ic_connect := Some e\<rparr> else c)"

definition push_read_data :: "bytes \<Rightarrow> iap_conn \<Rightarrow> iap_conn" where
  "push_read_data p c = c\<lparr>ic_read_buf := ic_read_buf c @ p\<rparr>"

definition signal_read_err :: "go_error \<Rightarrow> iap_conn \<Rightarrow> iap_conn" where
  "signal_read_err e c = (if ic_read_err c = None then c\<lparr>ic_read_err := Some e\<rparr> else c)"

definition send_ack :: "64 word \<Rightarrow> iap_conn \<Rightarrow> unit outcome \<times> iap_conn" where
  "send_ack delta c =
     (let acc = ic_acked_read c + delta;
          (r, ws) = write_frame 0x2 (create_iap_ack_frame acc) (ic_ws c)
      in (r, c\<lparr>ic_acked_read := acc, ic_ws := ws\<rparr>))"

text \<open>\<open>Read\<close> waits while the buffer is empty and there is no error (\<open>None\<close>).\<close>

definition iap_read :: "nat \<Rightarrow> iap_conn \<Rightarrow> ((bytes \<times> go_error option) \<times> iap_conn) option" where
  "iap_read n c =
     (if ic_read_buf c = [] then
        (case ic_read_err c of None \<Rightarrow> None | Some e \<Rightarrow> Some (([], Some e), c))
      else Some ((take n (ic_read_buf c), None), c\<lparr>ic_read_buf := drop n (ic_read_buf c)\<rparr>))"

text \<open>\<open>Write\<close> sends frames of at most 16384 bytes and counts what was sent.\<close>

function iap_write :: "bytes \<Rightarrow> nat \<Rightarrow> iap_conn \<Rightarrow> (nat \<times> go_error option) \<times> iap_conn" where
  "iap_write p acc c =
     (if p = [] then ((acc, None), c)
      else
        (let chunk_size = min (length p) 16384; chunk = take chunk_size p;
             (r, ws) = write_frame 0x2 (create_iap_data_frame chunk) (ic_ws c);
             c = c\<lparr>ic_ws := ws\<rparr>
         in case r of
              Failed e \<Rightarrow> ((acc, Some e), c)
            | _ \<Rightarrow> iap_write (drop chunk_size p) (acc + length chunk) c))"
  by pat_completeness auto
termination
  by (relation "measure (\<lambda>(p, n, c). length p)") auto

declare iap_write.simps [simp del]

definition iap_close :: "iap_conn \<Rightarrow> iap_conn" where
  "iap_close c =
     (if ic_closed c then c
      else c\<lparr>ic_closed := True, ic_read_err := (if ic_read_err c = None then Some eof else ic_read_err c),
             ic_ws := (ic_ws c)\<lparr>ws_open := False\<rparr>\<rparr>)"

section \<open>The read loop\<close>

datatype iap_status = Running | Ended | Crashed

definition iap_read_step :: "int \<Rightarrow> iap_conn \<Rightarrow> iap_status \<times> iap_conn" where
  "iap_read_step max_alloc c =
     (case read_message max_alloc (ic_ws c) of
        (Failed e, ws) \<Rightarrow> (Ended, signal_connect (Some e) (signal_read_err e (c\<lparr>ic_ws := ws\<rparr>)))
      | (Panicked, ws) \<Rightarrow> (Crashed, c\<lparr>ic_ws := ws\<rparr>)
      | (Done msg, ws) \<Rightarrow>
          (let c = c\<lparr>ic_ws := ws\<rparr>
           in if length msg < 2 then (Running, c)
              else
                (let tag = be_value (take 2 msg); payload = drop 2 msg
                 in if tag = 0x0001 \<or> tag = 0x0002 then (Running, signal_connect None c)
                    else if tag = 0x0004 then
                      (case extract_iap_data payload of
                         Failed e \<Rightarrow> (Ended, signal_connect (Some e) (signal_read_err e c))
                       | Panicked \<Rightarrow> (Crashed, c)
                       | Done p \<Rightarrow>
                           (case send_ack (word_of_int (int (length p))) (push_read_data p c) of
                              (Failed e, c) \<Rightarrow> (Ended, signal_read_err e c)
                            | (_, c) \<Rightarrow> (Running, c)))
                    else (Running, c))))"

lemma read_message_shorter:
  "read_message max_alloc c = (Done m, c') \<Longrightarrow> length (ws_in c') < length (ws_in c)"
proof (induction max_alloc c rule: read_message.induct)
  case (1 max_alloc c)
  obtain f rest where f: "read_frame max_alloc (ws_in c) = Done (f, rest)"
    using 1(3) by (cases "read_frame max_alloc (ws_in c)") (auto simp: read_message.simps[of _ c] Let_def)
  have less: "length rest < length (ws_in c)"
    using read_frame_shorter[OF f] .
  show ?case
  proof (cases "fr_fin f \<and> (fr_opcode f = 0x1 \<or> fr_opcode f = 0x2)")
    case True
    with 1(3) less f show ?thesis
      by (auto simp: read_message.simps[of _ c] Let_def)
  next
    case False
    then have fin: "fr_fin f" and op: "fr_opcode f \<noteq> 0x1" "fr_opcode f \<noteq> 0x2" "fr_opcode f \<noteq> 0x8"
      using 1(3) f by (auto simp: read_message.simps[of _ c] Let_def split: if_splits)
    show ?thesis
    proof (cases "fr_opcode f = 0x9")
      case True
      obtain u c1 where w: "write_frame 0xA (fr_payload f) (c\<lparr>ws_in := rest\<rparr>) = (Done u, c1)"
        using 1(3) f fin op True
        by (cases "write_frame 0xA (fr_payload f) (c\<lparr>ws_in := rest\<rparr>)"; cases "fst (write_frame 0xA (fr_payload f) (c\<lparr>ws_in := rest\<rparr>))")
          (auto simp: read_message.simps[of _ c] Let_def)
      have "ws_in c1 = rest"
        using write_frame_in[of "0xA" "fr_payload f" "c\<lparr>ws_in := rest\<rparr>"] w by simp
      moreover have "read_message max_alloc c1 = (Done m, c')"
        using 1(3) f fin op True w by (simp add: read_message.simps[of _ c] Let_def)
      ultimately show ?thesis
        using 1(1)[OF f refl refl] fin op True w less by fastforce
    next
      case other: False
      have "read_message max_alloc (c\<lparr>ws_in := rest\<rparr>) = (Done m, c')"
        using 1(3) f fin op other by (simp add: read_message.simps[of _ c] Let_def)
      then show ?thesis
        using 1(2)[OF f refl refl] fin op other less by fastforce
    qed
  qed
qed

lemma send_ack_in: "send_ack d c = (r, c') \<Longrightarrow> ws_in (ic_ws c') = ws_in (ic_ws c)"
  by (auto simp: send_ack_def Let_def case_prod_beta)

lemma iap_read_step_shorter:
  assumes "iap_read_step max_alloc c = (Running, c')"
  shows "length (ws_in (ic_ws c')) < length (ws_in (ic_ws c))"
proof -
  obtain m ws where m: "read_message max_alloc (ic_ws c) = (Done m, ws)"
    using assms by (auto simp: iap_read_step_def split: prod.splits outcome.splits)
  have "ws_in (ic_ws c') = ws_in ws"
    using assms m
    by (auto simp: iap_read_step_def signal_connect_def push_read_data_def Let_def
        split: prod.splits outcome.splits if_splits dest!: send_ack_in)
  then show ?thesis
    using read_message_shorter[OF m] by simp
qed

function iap_read_loop :: "int \<Rightarrow> iap_conn \<Rightarrow> iap_status \<times> iap_conn" where
  "iap_read_loop max_alloc c =
     (case iap_read_step max_alloc c of
        (Running, _) \<Rightarrow> iap_read_loop max_alloc (snd (iap_read_step max_alloc c))
      | (st, c') \<Rightarrow> (st, c'))"
  by pat_completeness auto
termination
  by (relation "measure (\<lambda>(m, c). length (ws_in (ic_ws c)))") (auto dest!: sym[of "(Running, _)"] intro: iap_read_step_shorter)

declare iap_read_loop.simps [simp del]

section \<open>A link\<close>

text \<open>
  Two connections, the bytes one writes arriving at the other, with what was written and read so
  far. Writing, a round of the receiver's read loop and reading happen in any order. The
  specification is a queue of bytes.
\<close>

record iap_link =
  lk_sender :: iap_conn
  lk_receiver :: iap_conn
  lk_written :: bytes
  lk_read :: bytes
  lk_crashed :: bool

datatype link_op = Write_Bytes bytes | Receive | Read_Bytes nat

definition add_input :: "bytes \<Rightarrow> iap_conn \<Rightarrow> iap_conn" where
  "add_input bs c = c\<lparr>ic_ws := (ic_ws c)\<lparr>ws_in := ws_in (ic_ws c) @ bs\<rparr>\<rparr>"

definition link_write :: "bytes \<Rightarrow> iap_link \<Rightarrow> iap_link" where
  "link_write p l =
     (let a = lk_sender l; ((n, err), a') = iap_write p 0 a;
          sent = drop (length (ws_out (ic_ws a))) (ws_out (ic_ws a'))
      in l\<lparr>lk_sender := a', lk_receiver := add_input sent (lk_receiver l), lk_written := lk_written l @ take n p\<rparr>)"

text \<open>While no byte has arrived the read loop waits.\<close>

definition link_receive :: "int \<Rightarrow> iap_link \<Rightarrow> iap_link" where
  "link_receive max_alloc l =
     (if ws_in (ic_ws (lk_receiver l)) = [] then l
      else (let (st, b) = iap_read_step max_alloc (lk_receiver l)
            in l\<lparr>lk_receiver := b, lk_crashed := (lk_crashed l \<or> st \<noteq> Running)\<rparr>))"

definition link_read :: "nat \<Rightarrow> iap_link \<Rightarrow> iap_link" where
  "link_read n l =
     (case iap_read n (lk_receiver l) of
        None \<Rightarrow> l
      | Some ((p, err), b) \<Rightarrow> l\<lparr>lk_receiver := b, lk_read := lk_read l @ p\<rparr>)"

fun link_exec :: "int \<Rightarrow> link_op \<Rightarrow> iap_link \<Rightarrow> iap_link" where
  "link_exec max_alloc (Write_Bytes p) = link_write p"
| "link_exec max_alloc Receive = link_receive max_alloc"
| "link_exec max_alloc (Read_Bytes n) = link_read n"

text \<open>The abstract queue: what a write adds, a read takes from the front at most what is there.\<close>

definition queue_step :: "link_op \<Rightarrow> bytes \<Rightarrow> bytes \<Rightarrow> bool" where
  "queue_step op q q' =
     (case op of
        Write_Bytes p \<Rightarrow> q' = q @ p
      | Receive \<Rightarrow> q' = q
      | Read_Bytes n \<Rightarrow> \<exists>m \<le> n. q' = drop m q)"

text \<open>The chunks on the wire that are still to be received, as the frames that carry them.\<close>

definition chunk_frames :: "(bytes \<times> bytes) list \<Rightarrow> bytes" where
  "chunk_frames chunks = concat (map (\<lambda>(key, p). frame_bytes 0x2 key (create_iap_data_frame p)) chunks)"

definition chunk_ok :: "bytes \<times> bytes \<Rightarrow> bool" where
  "chunk_ok kp = (length (fst kp) = 4 \<and> length (snd kp) \<le> 16384)"

definition usable :: "ws_conn \<Rightarrow> bool" where
  "usable ws = (ws_open ws \<and> \<not> ws_broken ws)"

definition link_rel :: "iap_link \<Rightarrow> bytes \<Rightarrow> bool" where
  "link_rel l q =
     (usable (ic_ws (lk_sender l)) \<and> usable (ic_ws (lk_receiver l)) \<and> \<not> lk_crashed l
      \<and> ic_read_err (lk_receiver l) = None
      \<and> (\<exists>chunks. (\<forall>c \<in> set chunks. chunk_ok c) \<and> ws_in (ic_ws (lk_receiver l)) = chunk_frames chunks
           \<and> q = ic_read_buf (lk_receiver l) @ concat (map snd chunks)
           \<and> lk_written l = lk_read l @ q
           \<and> ic_acked_read (lk_receiver l) =
               word_of_int (int (length (lk_read l) + length (ic_read_buf (lk_receiver l))))))"

subsection \<open>Writing\<close>

lemma length_create_iap_data_frame [simp]: "length (create_iap_data_frame p) = 6 + length p"
  by (simp add: create_iap_data_frame_def)

lemma chunk_frames_append: "chunk_frames (xs @ ys) = chunk_frames xs @ chunk_frames ys"
  by (simp add: chunk_frames_def)

lemma iap_write_frames:
  assumes "usable (ic_ws c)"
  shows "\<exists>c' chunks. iap_write p n c = ((n + length p, None), c') \<and> usable (ic_ws c')
     \<and> (\<forall>x \<in> set chunks. chunk_ok x) \<and> concat (map snd chunks) = p
     \<and> ws_out (ic_ws c') = ws_out (ic_ws c) @ chunk_frames chunks"
  using assms
proof (induction p n c rule: iap_write.induct)
  case (1 p n c)
  show ?case
  proof (cases "p = []")
    case True
    then show ?thesis
      using "1.prems" by (intro exI[of _ c] exI[of _ "[]"]) (simp add: iap_write.simps chunk_frames_def)
  next
    case False
    let ?k = "min (length p) 16384"
    let ?chunk = "take ?k p"
    obtain key where key: "length key = 4" "write_frame 0x2 (create_iap_data_frame ?chunk) (ic_ws c) =
       (Done (), (ic_ws c)\<lparr>ws_rand_pos := ws_rand_pos (ic_ws c) + 4,
          ws_out := ws_out (ic_ws c) @ frame_bytes 0x2 key (create_iap_data_frame ?chunk)\<rparr>)"
      using write_frame_Done[of "ic_ws c"] "1.prems" by (auto simp: usable_def)
    let ?ws = "(ic_ws c)\<lparr>ws_rand_pos := ws_rand_pos (ic_ws c) + 4,
          ws_out := ws_out (ic_ws c) @ frame_bytes 0x2 key (create_iap_data_frame ?chunk)\<rparr>"
    let ?c = "c\<lparr>ic_ws := ?ws\<rparr>"
    have "usable (ic_ws ?c)"
      using "1.prems" by (simp add: usable_def)
    from "1.IH"(1)[OF False refl refl key(2)[symmetric] refl refl _ this]
    obtain c' chunks where IH: "iap_write (drop ?k p) (n + length ?chunk) ?c = ((n + length ?chunk + length (drop ?k p), None), c')"
      "usable (ic_ws c')" "\<forall>x \<in> set chunks. chunk_ok x" "concat (map snd chunks) = drop ?k p"
      "ws_out (ic_ws c') = ws_out ?ws @ chunk_frames chunks"
      by auto
    have "iap_write p n c = iap_write (drop ?k p) (n + length ?chunk) ?c"
      using False key(2) by (subst iap_write.simps) (simp add: Let_def)
    moreover have "n + length ?chunk + length (drop ?k p) = n + length p"
      by simp
    ultimately show ?thesis
      using IH key(1)
      by (intro exI[of _ c'] exI[of _ "(key, ?chunk) # chunks"])
        (simp add: chunk_frames_def chunk_ok_def)
  qed
qed

lemma link_write_refines:
  assumes "link_rel l q"
  shows "link_rel (link_write p l) (q @ p)"
proof -
  obtain chunks where c: "\<forall>x \<in> set chunks. chunk_ok x" "ws_in (ic_ws (lk_receiver l)) = chunk_frames chunks"
    "q = ic_read_buf (lk_receiver l) @ concat (map snd chunks)" "lk_written l = lk_read l @ q"
    "ic_acked_read (lk_receiver l) = word_of_int (int (length (lk_read l) + length (ic_read_buf (lk_receiver l))))"
    and u: "usable (ic_ws (lk_sender l))"
    and r: "usable (ic_ws (lk_receiver l))" "\<not> lk_crashed l" "ic_read_err (lk_receiver l) = None"
    using assms by (auto simp: link_rel_def)
  obtain a' new where a': "iap_write p 0 (lk_sender l) = ((length p, None), a')" "usable (ic_ws a')"
    "\<forall>x \<in> set new. chunk_ok x" "concat (map snd new) = p"
    "ws_out (ic_ws a') = ws_out (ic_ws (lk_sender l)) @ chunk_frames new"
    using iap_write_frames[OF u, of p 0] by auto
  have l': "link_write p l = l\<lparr>lk_sender := a', lk_receiver := add_input (chunk_frames new) (lk_receiver l),
      lk_written := lk_written l @ p\<rparr>"
    by (simp add: link_write_def a' Let_def)
  have "\<forall>x \<in> set (chunks @ new). chunk_ok x" "concat (map snd (chunks @ new)) = concat (map snd chunks) @ p"
    using c(1) a'(3,4) by auto
  then show ?thesis
    using r c a'(2) unfolding link_rel_def l'
    by (intro conjI exI[of _ "chunks @ new"]) (simp_all add: add_input_def usable_def chunk_frames_append)
qed

subsection \<open>Receiving\<close>

lemma extract_data_frame:
  assumes "length p \<le> 16384"
  shows "2 \<le> length (create_iap_data_frame p) \<and> be_value (take 2 (create_iap_data_frame p)) = 0x0004
     \<and> extract_iap_data (drop 2 (create_iap_data_frame p)) = Done p"
proof -
  have n: "be_value (be_bytes 4 (int (length p))) = int (length p)"
    using assms by (intro be_value_be_bytes_small) simp_all
  have "nat (4 + int (length p)) = 4 + length p"
    by (simp add: nat_add_distrib)
  then show ?thesis
    using assms
    by (simp add: create_iap_data_frame_def extract_iap_data_def n slice_def be_value_be_bytes Let_def)
qed

lemma send_ack_Done:
  assumes "usable (ic_ws c)"
  shows "\<exists>ws. send_ack d c = (Done (), c\<lparr>ic_acked_read := ic_acked_read c + d, ic_ws := ws\<rparr>)
     \<and> ws_in ws = ws_in (ic_ws c) \<and> usable ws"
proof -
  obtain key where "write_frame 0x2 (create_iap_ack_frame (ic_acked_read c + d)) (ic_ws c) =
     (Done (), (ic_ws c)\<lparr>ws_rand_pos := ws_rand_pos (ic_ws c) + 4,
        ws_out := ws_out (ic_ws c) @ frame_bytes 0x2 key (create_iap_ack_frame (ic_acked_read c + d))\<rparr>)"
    using write_frame_Done[of "ic_ws c"] assms by (auto simp: usable_def)
  then show ?thesis
    using assms
    by (intro exI[of _ "(ic_ws c)\<lparr>ws_rand_pos := ws_rand_pos (ic_ws c) + 4,
        ws_out := ws_out (ic_ws c) @ frame_bytes 0x2 key (create_iap_ack_frame (ic_acked_read c + d))\<rparr>"])
      (simp add: send_ack_def Let_def usable_def)
qed

lemma read_step_chunk:
  assumes "usable (ic_ws c)" and "chunk_ok (key, p)" and "20000 \<le> max_alloc"
    and "ws_in (ic_ws c) = frame_bytes 0x2 key (create_iap_data_frame p) @ rest"
  shows "\<exists>ws. iap_read_step max_alloc c =
      (Running, c\<lparr>ic_ws := ws, ic_read_buf := ic_read_buf c @ p,
                  ic_acked_read := ic_acked_read c + word_of_int (int (length p))\<rparr>)
     \<and> ws_in ws = rest \<and> usable ws"
proof -
  let ?m = "create_iap_data_frame p"
  have len: "length p \<le> 16384" "length key = 4"
    using assms(2) by (simp_all add: chunk_ok_def)
  then have "frame_ok max_alloc (0x2, key) ?m" "data_opcode 0x2"
    using assms(3) by (simp_all add: frame_ok_def known_opcode_def data_opcode_def)
  then have "read_data max_alloc (ws_in (ic_ws c)) = Some (?m, rest)"
    using data.read_frame[of max_alloc "(0x2, key)" ?m rest] assms(4) by simp
  then have m: "read_message max_alloc (ic_ws c) = (Done ?m, (ic_ws c)\<lparr>ws_in := rest\<rparr>)"
    by (rule read_message_data)
  let ?c = "c\<lparr>ic_ws := (ic_ws c)\<lparr>ws_in := rest\<rparr>, ic_read_buf := ic_read_buf c @ p\<rparr>"
  obtain ws where ws: "send_ack (word_of_int (int (length p))) ?c =
      (Done (), ?c\<lparr>ic_acked_read := ic_acked_read c + word_of_int (int (length p)), ic_ws := ws\<rparr>)"
    "ws_in ws = rest" "usable ws"
    using send_ack_Done[of ?c "word_of_int (int (length p))"] assms(1) by (auto simp: usable_def)
  have "iap_read_step max_alloc c = (Running, ?c\<lparr>ic_acked_read := ic_acked_read c + word_of_int (int (length p)), ic_ws := ws\<rparr>)"
    using extract_data_frame[OF len(1)] ws(1) by (simp add: iap_read_step_def m Let_def push_read_data_def)
  then show ?thesis
    using ws(2,3) by (intro exI[of _ ws]) simp
qed

lemma link_receive_refines:
  assumes "link_rel l q" and "20000 \<le> max_alloc"
  shows "link_rel (link_receive max_alloc l) q"
proof (cases "ws_in (ic_ws (lk_receiver l)) = []")
  case True
  with assms(1) show ?thesis
    by (simp add: link_receive_def)
next
  case False
  obtain chunks where c: "\<forall>x \<in> set chunks. chunk_ok x" "ws_in (ic_ws (lk_receiver l)) = chunk_frames chunks"
    "q = ic_read_buf (lk_receiver l) @ concat (map snd chunks)" "lk_written l = lk_read l @ q"
    "ic_acked_read (lk_receiver l) = word_of_int (int (length (lk_read l) + length (ic_read_buf (lk_receiver l))))"
    and u: "usable (ic_ws (lk_receiver l))"
    and r: "usable (ic_ws (lk_sender l))" "\<not> lk_crashed l" "ic_read_err (lk_receiver l) = None"
    using assms(1) by (auto simp: link_rel_def)
  from False c(2) obtain key p rest where chunks: "chunks = (key, p) # rest"
    by (cases chunks) (auto simp: chunk_frames_def)
  obtain ws where ws: "iap_read_step max_alloc (lk_receiver l) =
      (Running, (lk_receiver l)\<lparr>ic_ws := ws, ic_read_buf := ic_read_buf (lk_receiver l) @ p,
          ic_acked_read := ic_acked_read (lk_receiver l) + word_of_int (int (length p))\<rparr>)"
    "ws_in ws = chunk_frames rest" "usable ws"
    using read_step_chunk[OF u _ assms(2), of key p "chunk_frames rest"] c(1,2) chunks
    by (auto simp: chunk_frames_def)
  have "link_receive max_alloc l = l\<lparr>lk_receiver := (lk_receiver l)\<lparr>ic_ws := ws,
          ic_read_buf := ic_read_buf (lk_receiver l) @ p,
          ic_acked_read := ic_acked_read (lk_receiver l) + word_of_int (int (length p))\<rparr>\<rparr>"
    using False r(2) ws(1) by (simp add: link_receive_def)
  then show ?thesis
    using r ws(2,3) c chunks unfolding link_rel_def
    by (intro conjI exI[of _ rest]) simp_all
qed

subsection \<open>Reading\<close>

lemma link_read_refines:
  assumes "link_rel l q"
  shows "\<exists>m \<le> n. link_rel (link_read n l) (drop m q)"
proof (cases "ic_read_buf (lk_receiver l) = []")
  case True
  then have "link_read n l = l"
    using assms by (simp add: link_read_def iap_read_def link_rel_def)
  with assms show ?thesis
    by (intro exI[of _ 0]) simp
next
  case False
  let ?buf = "ic_read_buf (lk_receiver l)"
  let ?m = "min n (length ?buf)"
  obtain chunks where c: "\<forall>x \<in> set chunks. chunk_ok x" "ws_in (ic_ws (lk_receiver l)) = chunk_frames chunks"
    "q = ?buf @ concat (map snd chunks)" "lk_written l = lk_read l @ q"
    "ic_acked_read (lk_receiver l) = word_of_int (int (length (lk_read l) + length ?buf))"
    and r: "usable (ic_ws (lk_sender l))" "usable (ic_ws (lk_receiver l))" "\<not> lk_crashed l"
      "ic_read_err (lk_receiver l) = None"
    using assms(1) by (auto simp: link_rel_def)
  have l': "link_read n l = l\<lparr>lk_receiver := (lk_receiver l)\<lparr>ic_read_buf := drop n ?buf\<rparr>, lk_read := lk_read l @ take n ?buf\<rparr>"
    using False by (simp add: link_read_def iap_read_def)
  have "drop ?m q = drop n ?buf @ concat (map snd chunks)" "q = take n ?buf @ drop ?m q"
    by (cases "n \<le> length ?buf"; simp add: c(3))+
  moreover have "length (take n ?buf) + length (drop n ?buf) = length ?buf"
    by simp
  ultimately have "link_rel (link_read n l) (drop ?m q)"
    using r c unfolding link_rel_def l'
    by (intro conjI exI[of _ chunks]) (simp_all add: add.assoc)
  then show ?thesis
    by (intro exI[of _ ?m]) simp
qed

subsection \<open>Runs\<close>

definition new_link :: "ws_conn \<Rightarrow> ws_conn \<Rightarrow> iap_link" where
  "new_link a b = \<lparr>lk_sender = new_iap_conn a, lk_receiver = new_iap_conn b,
     lk_written = [], lk_read = [], lk_crashed = False\<rparr>"

definition bytes_written :: "link_op list \<Rightarrow> bytes" where
  "bytes_written ops = concat (map (\<lambda>op. case op of Write_Bytes p \<Rightarrow> p | _ \<Rightarrow> []) ops)"

lemma link_exec_refines:
  assumes "link_rel l q" and "20000 \<le> max_alloc"
  shows "\<exists>q'. queue_step op q q' \<and> link_rel (link_exec max_alloc op l) q'"
proof (cases op)
  case (Write_Bytes p)
  then show ?thesis
    using link_write_refines[OF assms(1)] by (simp add: queue_step_def)
next
  case Receive
  then show ?thesis
    using link_receive_refines[OF assms] by (simp add: queue_step_def)
next
  case (Read_Bytes n)
  obtain m where "m \<le> n" "link_rel (link_read n l) (drop m q)"
    using link_read_refines[OF assms(1), of n] by blast
  then show ?thesis
    unfolding Read_Bytes by (intro exI[of _ "drop m q"]) (auto simp: queue_step_def)
qed

lemma link_exec_written:
  assumes "link_rel l q"
  shows "lk_written (link_exec max_alloc op l) = lk_written l @ bytes_written [op]"
proof (cases op)
  case (Write_Bytes p)
  have "usable (ic_ws (lk_sender l))"
    using assms by (simp add: link_rel_def)
  then obtain a' where "iap_write p 0 (lk_sender l) = ((length p, None), a')"
    using iap_write_frames[of "lk_sender l" p 0] by auto
  then show ?thesis
    by (simp add: Write_Bytes link_write_def bytes_written_def Let_def)
qed (auto simp: bytes_written_def link_receive_def link_read_def Let_def split: option.split prod.split)

lemma link_run:
  assumes "link_rel l q" and "20000 \<le> max_alloc"
  shows "(\<exists>q'. link_rel (fold (link_exec max_alloc) ops l) q')
     \<and> lk_written (fold (link_exec max_alloc) ops l) = lk_written l @ bytes_written ops"
  using assms(1)
proof (induction ops arbitrary: l q)
  case Nil
  then show ?case
    by (auto simp: bytes_written_def)
next
  case (Cons op ops)
  obtain q' where "link_rel (link_exec max_alloc op l) q'"
    using link_exec_refines[OF Cons.prems assms(2)] by blast
  from Cons.IH[OF this] link_exec_written[OF Cons.prems] show ?case
    by (simp add: bytes_written_def)
qed

lemma link_rel_new:
  assumes "usable a" and "usable b" and "ws_in b = []"
  shows "link_rel (new_link a b) []"
  using assms by (simp add: link_rel_def new_link_def new_iap_conn_def exI[of _ "[]"] chunk_frames_def)

lemma link_rel_prefix:
  "link_rel l q \<Longrightarrow> lk_written l = lk_read l @ q \<and> \<not> lk_crashed l \<and> ic_read_err (lk_receiver l) = None"
  by (auto simp: link_rel_def)

text \<open>
  C39. The tunnel refines a queue of bytes. Writing, the rounds of the read loop and reading may
  come in any order: every operation on two connections does on their content, the bytes buffered
  and on the wire, what the queue does; so along every run all bytes written are accepted, what has
  been read is a prefix of what was written, and nothing crashes.
\<close>

theorem iap_tunnel_refines_queue:
  assumes "usable a" and "usable b" and "ws_in b = []" and "20000 \<le> max_alloc"
  shows "link_rel (new_link a b) []
     \<and> (\<forall>op l q. link_rel l q \<longrightarrow> (\<exists>q'. queue_step op q q' \<and> link_rel (link_exec max_alloc op l) q'))
     \<and> (\<forall>ops. let l = fold (link_exec max_alloc) ops (new_link a b)
              in lk_written l = bytes_written ops \<and> (\<exists>rest. lk_written l = lk_read l @ rest) \<and> \<not> lk_crashed l)"
proof (intro conjI allI impI)
  show new: "link_rel (new_link a b) []"
    by (rule link_rel_new[OF assms(1,2,3)])
  show "\<exists>q'. queue_step op q q' \<and> link_rel (link_exec max_alloc op l) q'" if "link_rel l q" for op l q
    by (rule link_exec_refines[OF that assms(4)])
  show "let l = fold (link_exec max_alloc) ops (new_link a b)
        in lk_written l = bytes_written ops \<and> (\<exists>rest. lk_written l = lk_read l @ rest) \<and> \<not> lk_crashed l" for ops
  proof -
    obtain q' where "link_rel (fold (link_exec max_alloc) ops (new_link a b)) q'"
      and "lk_written (fold (link_exec max_alloc) ops (new_link a b)) = bytes_written ops"
      using link_run[OF new assms(4), of ops] by (auto simp: new_link_def)
    then show ?thesis
      unfolding Let_def using link_rel_prefix by blast
  qed
qed

section \<open>Instance\<close>

definition open_ws :: ws_conn where
  "open_ws = \<lparr>ws_in = [], ws_out = [], ws_open = True, ws_broken = False, ws_rand = (\<lambda>n. 7), ws_rand_pos = 0\<rparr>"

lemma iap_tunnel_refines_queue_witness:
  "let l = fold (link_exec 20000) [Write_Bytes [1, 2, 3], Receive, Read_Bytes 2] (new_link open_ws open_ws)
   in lk_written l = [1, 2, 3] \<and> (\<exists>rest. lk_written l = lk_read l @ rest) \<and> \<not> lk_crashed l"
proof -
  have "usable open_ws" "ws_in open_ws = []" "(20000 :: int) \<le> 20000"
    by (simp_all add: usable_def open_ws_def)
  note run = iap_tunnel_refines_queue[OF this(1,1,2,3), THEN conjunct2, THEN conjunct2, rule_format,
      of "[Write_Bytes [1, 2, 3], Receive, Read_Bytes 2]"]
  have "bytes_written [Write_Bytes [1, 2, 3], Receive, Read_Bytes 2] = [1, 2, 3]"
    by (simp add: bytes_written_def)
  with run show ?thesis
    unfolding Let_def by (elim conjE) (intro conjI; simp)
qed

end
