(* ===== verification/Telnet.thy ===== *)
theory Telnet
  imports Go_Bytes
begin

text \<open>
  The telnet connector, \<^verbatim>\<open>provider-connector-telnet/telnetlib/protocol.go\<close>: how input is escaped, how
  commands are taken out of the output, the buffered reader and the login dialogue. The connection
  is the list of chunks the network returns, at most 1024 bytes each; when it is used up, the stream
  has ended or nothing arrives in time.
\<close>

section \<open>Writing\<close>

text \<open>What \<open>appendTelnetByte\<close> appends.\<close>

definition telnet_byte :: "byte \<Rightarrow> bytes" where
  "telnet_byte b = (if b = 255 then [b, 255] else [b])"

text \<open>What the loop of \<open>escapedWriter.Write\<close> appends for the input that is left.\<close>

function escaped :: "bytes \<Rightarrow> bytes" where
  "escaped p =
     (case p of [] \<Rightarrow> []
      | b # rest \<Rightarrow>
          if b = 0x0d then
            telnet_byte 0x0d @
              escaped (case rest of c # rest' \<Rightarrow> if c = 0x0a then rest' else rest | [] \<Rightarrow> rest)
          else if b = 0x0a then telnet_byte 0x0d @ escaped rest
          else telnet_byte b @ escaped rest)"
  by pat_completeness auto
termination
  by (relation "measure length") (auto split: list.split)

declare escaped.simps [simp del]

section \<open>Reading\<close>

text \<open>The scan for the end of a subnegotiation: the position of \<open>se\<close>, or the last byte.\<close>

fun skip_subnegotiation :: "bytes \<Rightarrow> bytes" where
  "skip_subnegotiation (a # b # bs) =
     (if a = 255 \<and> b = 240 then b # bs else skip_subnegotiation (b # bs))"
| "skip_subnegotiation bs = bs"

lemma skip_subnegotiation_length: "length (skip_subnegotiation bs) \<le> length bs"
  by (induction bs rule: skip_subnegotiation.induct) auto

text \<open>What the loop of \<open>filterTelnetCommands\<close> appends for the input that is left.\<close>

function filter_telnet_commands :: "bytes \<Rightarrow> bytes" where
  "filter_telnet_commands bs =
     (case bs of [] \<Rightarrow> []
      | b # rest \<Rightarrow>
          if b \<noteq> 255 then b # filter_telnet_commands rest
          else
            (case rest of [] \<Rightarrow> []
             | n # rest \<Rightarrow>
                 if n = 255 then 255 # filter_telnet_commands rest
                 else if n = 251 \<or> n = 252 \<or> n = 253 \<or> n = 254 then filter_telnet_commands (drop 1 rest)
                 else if n = 250 then filter_telnet_commands (drop 1 (skip_subnegotiation rest))
                 else filter_telnet_commands rest))"
  by pat_completeness auto
termination
  by (relation "measure length")
    (auto simp: less_Suc_eq_le le_SucI le_diff_conv skip_subnegotiation_length)

declare filter_telnet_commands.simps [simp del]

text \<open>\<open>dataReader.Read\<close>: the buffer, the chunks that still arrive; \<open>None\<close> when they are used up.\<close>

fun data_read :: "nat \<Rightarrow> bytes \<Rightarrow> bytes list \<Rightarrow> (bytes \<times> bytes \<times> bytes list) option" where
  "data_read n buf chunks =
     (if buf \<noteq> [] then Some (take n buf, drop n buf, chunks)
      else (case chunks of [] \<Rightarrow> None | c # cs \<Rightarrow> data_read n (filter_telnet_commands c) cs))"

declare data_read.simps [simp del]

text \<open>Reading to the end, as \<open>Terminal.copyOutput\<close> does.\<close>

definition unread :: "bytes \<Rightarrow> bytes list \<Rightarrow> nat" where
  "unread buf chunks = length buf + sum_list (map (\<lambda>c. Suc (length (filter_telnet_commands c))) chunks)"

lemma data_read_unread:
  "0 < n \<Longrightarrow> data_read n buf chunks = Some (p, buf', chunks') \<Longrightarrow> unread buf' chunks' < unread buf chunks"
proof (induction chunks arbitrary: buf)
  case Nil
  then show ?case
    by (auto simp: data_read.simps[of n buf] unread_def split: if_splits)
next
  case (Cons c chunks)
  show ?case
  proof (cases buf)
    case Nil
    with Cons.prems have "data_read n (filter_telnet_commands c) chunks = Some (p, buf', chunks')"
      by (simp add: data_read.simps[of n "[]" "c # chunks"])
    from Cons.IH[OF Cons.prems(1) this] Nil show ?thesis
      by (simp add: unread_def)
  next
    case (Cons b bs)
    with Cons.prems show ?thesis
      by (auto simp: data_read.simps[of n "b # bs"] unread_def)
  qed
qed

function copy_output :: "bytes \<Rightarrow> bytes list \<Rightarrow> bytes" where
  "copy_output buf chunks =
     (case data_read 4096 buf chunks of
        None \<Rightarrow> []
      | Some (p, buf', chunks') \<Rightarrow> p @ copy_output buf' chunks')"
  by pat_completeness auto
termination
  by (relation "measure (\<lambda>(buf, chunks). unread buf chunks)") (auto intro: data_read_unread[of 4096])

declare copy_output.simps [simp del]

section \<open>What a peer sends\<close>

text \<open>A telnet peer sends data bytes, option negotiations, subnegotiations and other commands.\<close>

datatype telnet_token =
  Data byte | Negotiation byte byte | Subnegotiation bytes | Command byte

fun encode_token :: "telnet_token \<Rightarrow> bytes" where
  "encode_token (Data b) = (if b = 255 then [255, 255] else [b])"
| "encode_token (Negotiation c option) = [255, c, option]"
| "encode_token (Subnegotiation body) = [255, 250] @ body @ [255, 240]"
| "encode_token (Command c) = [255, c]"

fun token_data :: "telnet_token \<Rightarrow> bytes" where
  "token_data (Data b) = [b]"
| "token_data _ = []"

text \<open>The body of a subnegotiation does not contain the two bytes that end it.\<close>

fun no_end :: "bytes \<Rightarrow> bool" where
  "no_end (a # b # bs) = (\<not> (a = 255 \<and> b = 240) \<and> no_end (b # bs))"
| "no_end bs = True"

fun token_ok :: "telnet_token \<Rightarrow> bool" where
  "token_ok (Data b) = True"
| "token_ok (Negotiation c option) = (c = 251 \<or> c = 252 \<or> c = 253 \<or> c = 254)"
| "token_ok (Subnegotiation body) = no_end body"
| "token_ok (Command c) = (c \<notin> {250, 251, 252, 253, 254, 255})"

lemma skip_subnegotiation_end:
  "no_end body \<Longrightarrow> skip_subnegotiation (body @ 255 # 240 # rest) = 240 # rest"
  by (induction body rule: no_end.induct) auto

lemma filter_token:
  assumes "token_ok t"
  shows "filter_telnet_commands (encode_token t @ rest) = token_data t @ filter_telnet_commands rest"
  using assms
  by (cases t) (auto simp: filter_telnet_commands.simps[of "_ # _"] skip_subnegotiation_end)

lemma filter_tokens:
  assumes "\<forall>t \<in> set ts. token_ok t"
  shows "filter_telnet_commands (concat (map encode_token ts) @ rest) =
     concat (map token_data ts) @ filter_telnet_commands rest"
  using assms by (induction ts) (simp_all add: filter_token)

lemma filter_Nil [simp]: "filter_telnet_commands [] = []"
  by (simp add: filter_telnet_commands.simps)

lemma telnet_byte_token: "telnet_byte b = encode_token (Data b)"
  by (simp add: telnet_byte_def)

lemma escaped_tokens: "escaped p = concat (map (\<lambda>b. encode_token (Data b)) (line_endings [0x0d] p))"
proof (induction p rule: escaped.induct)
  case (1 p)
  show ?case
    by (subst escaped.simps, subst line_endings.simps)
      (auto simp: 1 telnet_byte_def split: list.split)
qed

lemma concat_token_data [simp]: "concat (map (\<lambda>b. token_data (Data b)) bs) = bs"
  by (induction bs) auto

lemma filter_escaped: "filter_telnet_commands (escaped p) = line_endings [0x0d] p"
  using filter_tokens[of "map Data (line_endings [0x0d] p)" "[]"]
  by (simp add: escaped_tokens comp_def)

lemma copy_output_all: "copy_output buf chunks = buf @ concat (map filter_telnet_commands chunks)"
proof (induction buf chunks rule: copy_output.induct)
  case (1 buf chunks)
  have read: "data_read 4096 buf chunks = None \<Longrightarrow> buf = [] \<and> concat (map filter_telnet_commands chunks) = []"
    "data_read 4096 buf chunks = Some (p, buf', chunks') \<Longrightarrow>
       p @ buf' @ concat (map filter_telnet_commands chunks') = buf @ concat (map filter_telnet_commands chunks)"
    for p buf' chunks'
    by (induction "4096 :: nat" buf chunks rule: data_read.induct; subst (asm) data_read.simps;
        auto split: if_splits list.splits)+
  show ?case
  proof (cases "data_read 4096 buf chunks")
    case None
    with read(1) show ?thesis
      by (simp add: copy_output.simps)
  next
    case (Some r)
    obtain p buf' chunks' where r: "r = (p, buf', chunks')"
      by (metis prod_cases3)
    have "copy_output buf' chunks' = buf' @ concat (map filter_telnet_commands chunks')"
      by (rule 1[OF Some[unfolded r] refl refl])
    with read(2)[OF Some[unfolded r]] Some r show ?thesis
      by (simp add: copy_output.simps[of buf])
  qed
qed

text \<open>
  C40. Taking the commands out of a telnet stream leaves the data bytes, whatever negotiations,
  subnegotiations and commands come between; escaped input is read back as the input with its line
  endings as CR; and the terminal shows the data of a stream that the network cuts between two
  tokens. A cut inside a token is not handled: a data byte 255 disappears when its two bytes arrive
  in different chunks, and the rest of a negotiation is shown as text.
\<close>

theorem telnet_filter_exact:
  assumes "\<forall>ts \<in> set chunks. \<forall>t \<in> set ts. token_ok t"
  shows "copy_output [] (map (\<lambda>ts. concat (map encode_token ts)) chunks) = concat (map token_data (concat chunks))
     \<and> filter_telnet_commands (escaped p) = line_endings [0x0d] p
     \<and> copy_output [] [[255], [255]] = [] \<and> copy_output [] [[255], [251, 1]] = [251, 1]"
proof (intro conjI)
  have "filter_telnet_commands (concat (map encode_token ts)) = concat (map token_data ts)" if "ts \<in> set chunks" for ts
    using filter_tokens[of ts "[]"] assms that by simp
  then show "copy_output [] (map (\<lambda>ts. concat (map encode_token ts)) chunks) = concat (map token_data (concat chunks))"
    unfolding copy_output_all by (induction chunks) simp_all
  show "filter_telnet_commands (escaped p) = line_endings [0x0d] p"
    by (rule filter_escaped)
  show "copy_output [] [[255], [255]] = []" "copy_output [] [[255], [251, 1]] = [251, 1]"
    by (simp_all add: copy_output_all filter_telnet_commands.simps)
qed

lemma telnet_filter_exact_witness:
  "copy_output [] (map (\<lambda>ts. concat (map encode_token ts))
     [[Data 0x68, Negotiation 251 1, Data 255], [Subnegotiation [24, 1], Data 0x69]]) = [0x68, 255, 0x69]"
  by (rule telnet_filter_exact[THEN conjunct1, THEN trans]) auto

end
