(* ===== verification/Ssh_Config.thy ===== *)
theory Ssh_Config
  imports Go_Base
begin

text \<open>
  OpenSSH client configurations, \<^verbatim>\<open>internal/ssh_config/config.go\<close>: patterns, \<open>Host\<close> and \<open>Match\<close>
  blocks, included files, and looking up the settings of an alias. A rune is a character here; the
  regular expressions the code builds from patterns use literals, \<open>.*\<close> and \<open>.?\<close> only, and their
  matching is written out.
\<close>

section \<open>Patterns\<close>

record pattern =
  pt_str :: string        \<comment> \<open>without the exclamation mark\<close>
  pt_not :: bool

definition new_pattern :: "string \<Rightarrow> pattern result" where
  "new_pattern s =
     (if s = '''' then errorf ''ssh_config: empty pattern''
      else if has_prefix s ''!'' then Inr \<lparr>pt_str = tl s, pt_not = True\<rparr>
      else Inr \<lparr>pt_str = s, pt_not = False\<rparr>)"

text \<open>The regular expression of a pattern, between \<open>^\<close> and \<open>$\<close>.\<close>

datatype regex_part = Any_Text | Any_Char_Opt | Literal char

definition compile_char :: "char \<Rightarrow> regex_part" where
  "compile_char b =
     (if b = CHR ''*'' then Any_Text else if b = CHR ''?'' then Any_Char_Opt else Literal b)"

definition compile_pattern :: "string \<Rightarrow> regex_part list" where
  "compile_pattern s = map compile_char s"

text \<open>Matching a whole text; the dot stands for any character but a newline.\<close>

fun regex_match :: "regex_part list \<Rightarrow> string \<Rightarrow> bool" where
  "regex_match [] t = (t = [])"
| "regex_match (Any_Text # r) [] = regex_match r []"
| "regex_match (Any_Text # r) (c # t) =
     (regex_match r (c # t) \<or> c \<noteq> CHR 0x0a \<and> regex_match (Any_Text # r) t)"
| "regex_match (Any_Char_Opt # r) [] = regex_match r []"
| "regex_match (Any_Char_Opt # r) (c # t) =
     (regex_match r (c # t) \<or> c \<noteq> CHR 0x0a \<and> regex_match r t)"
| "regex_match (Literal b # r) [] = False"
| "regex_match (Literal b # r) (c # t) = (b = c \<and> regex_match r t)"

definition pattern_regex_match :: "pattern \<Rightarrow> string \<Rightarrow> bool" where
  "pattern_regex_match p t = regex_match (compile_pattern (pt_str p)) t"

definition match_all :: pattern where
  "match_all = \<lparr>pt_str = ''*'', pt_not = False\<rparr>"

section \<open>Configurations\<close>

record host_info =
  hi_patterns :: "pattern list"
  hi_eol_comment :: string
  hi_space_before_comment :: string
  hi_has_equals :: bool
  hi_leading_space :: nat
  hi_implicit :: bool
  hi_is_match :: bool
  hi_match_keyword :: string
  hi_match_raw :: string

record kv =
  kv_key :: string
  kv_value :: string
  kv_space_after_value :: string
  kv_comment :: string
  kv_has_equals :: bool
  kv_leading_space :: nat
  kv_position :: "nat \<times> nat"
  kv_raw_value :: string

record empty_line =
  el_comment :: string
  el_leading_space :: int
  el_position :: "nat \<times> nat"

record include_info =
  in_comment :: string
  in_directives :: "string list"
  in_leading_space :: nat
  in_position :: "nat \<times> nat"
  in_depth :: nat
  in_has_equals :: bool

text \<open>A host with its lines; an include with the files that matched, in order, and their hosts.\<close>

datatype node =
    KV kv
  | Empty empty_line
  | Include include_info "(string \<times> host list) list"
and host = Host host_info "node list"

type_synonym ssh_config = "host list"

fun host_head :: "host \<Rightarrow> host_info" where
  "host_head (Host i ns) = i"

fun host_nodes :: "host \<Rightarrow> node list" where
  "host_nodes (Host i ns) = ns"

definition implicit_host :: host_info where
  "implicit_host = \<lparr>hi_patterns = [match_all], hi_eol_comment = '''', hi_space_before_comment = '''',
     hi_has_equals = False, hi_leading_space = 0, hi_implicit = True, hi_is_match = False,
     hi_match_keyword = '''', hi_match_raw = ''''\<rparr>"

definition new_config :: ssh_config where
  "new_config = [Host implicit_host []]"

section \<open>Matching\<close>

text \<open>\<open>Host.Matches\<close>: the loop over the patterns.\<close>

fun patterns_match :: "pattern list \<Rightarrow> bool \<Rightarrow> string \<Rightarrow> bool" where
  "patterns_match [] found alias = found"
| "patterns_match (p # ps) found alias =
     (if pattern_regex_match p alias then
        (if pt_not p then False else patterns_match ps True alias)
      else patterns_match ps found alias)"

definition host_matches :: "host_info \<Rightarrow> string \<Rightarrow> bool" where
  "host_matches h alias = patterns_match (hi_patterns h) False alias"

record ssh_match_context =
  sx_alias :: string
  sx_original_host :: string
  sx_host :: string
  sx_user :: string
  sx_local_user :: string
  sx_canonical :: bool
  sx_final :: bool

definition new_match_context :: "string \<Rightarrow> string \<Rightarrow> ssh_match_context" where
  "new_match_context local_user alias = \<lparr>sx_alias = alias, sx_original_host = alias, sx_host = alias,
     sx_user = '''', sx_local_user = local_user, sx_canonical = False, sx_final = False\<rparr>"

definition apply_kv :: "string \<Rightarrow> string \<Rightarrow> ssh_match_context \<Rightarrow> ssh_match_context" where
  "apply_kv key v x =
     (if to_lower key = ''hostname'' then (if v \<noteq> '''' then x\<lparr>sx_host := v\<rparr> else x)
      else if to_lower key = ''user'' then (if v \<noteq> '''' then x\<lparr>sx_user := v\<rparr> else x)
      else x)"

definition match_criteria :: "string list" where
  "match_criteria = [''all'', ''canonical'', ''final'', ''host'', ''originalhost'', ''user'', ''localuser'']"

text \<open>The first pattern that matches decides.\<close>

fun criterion_patterns :: "string list \<Rightarrow> string \<Rightarrow> bool" where
  "criterion_patterns [] target = False"
| "criterion_patterns (raw # ps) target =
     (case new_pattern raw of Inl e \<Rightarrow> criterion_patterns ps target
      | Inr p \<Rightarrow> if pattern_regex_match p target then \<not> pt_not p else criterion_patterns ps target)"

definition match_criterion_value :: "string \<Rightarrow> string list \<Rightarrow> ssh_match_context \<Rightarrow> bool" where
  "match_criterion_value criterion patterns x =
     (if criterion = ''host'' then criterion_patterns patterns (sx_host x)
      else if criterion = ''originalhost'' then criterion_patterns patterns (sx_original_host x)
      else if criterion = ''user'' then criterion_patterns patterns (sx_user x)
      else if criterion = ''localuser'' then criterion_patterns patterns (sx_local_user x)
      else False)"

text \<open>The loop of \<open>evaluateMatch\<close> over the fields that are left.\<close>

function match_fields :: "string list \<Rightarrow> bool \<Rightarrow> ssh_match_context \<Rightarrow> bool" where
  "match_fields [] matched_any x = matched_any"
| "match_fields (f # fs) matched_any x =
     (let criterion = to_lower f
      in if criterion = ''all'' then match_fields fs True x
         else if criterion = ''canonical'' then (if \<not> sx_canonical x then False else match_fields fs True x)
         else if criterion = ''final'' then (if \<not> sx_final x then False else match_fields fs True x)
         else if criterion = ''host'' \<or> criterion = ''originalhost'' \<or> criterion = ''user'' \<or> criterion = ''localuser'' then
           (let vs = takeWhile (\<lambda>n. to_lower n \<notin> set match_criteria) fs
            in if vs = [] then False
               else if \<not> match_criterion_value criterion vs x then False
               else match_fields (drop (length vs) fs) True x)
         else False)"
  by pat_completeness auto
termination
  by (relation "measure (\<lambda>(fs, m, x). length fs)") auto

definition evaluate_match :: "string \<Rightarrow> ssh_match_context \<Rightarrow> bool" where
  "evaluate_match raw x = (if Go_Base.fields raw = [] then False else match_fields (Go_Base.fields raw) False x)"

definition matches_context :: "host_info \<Rightarrow> ssh_match_context \<Rightarrow> bool" where
  "matches_context h x = (if \<not> hi_is_match h then host_matches h (sx_alias x) else evaluate_match (hi_match_raw h) x)"

section \<open>Looking up\<close>

text \<open>\<open>Config.Get\<close> on the hosts and the lines that are left: the value when one is found, and the
  context after the lines. An include starts with a context of its own.\<close>

fun get_hosts :: "string \<Rightarrow> string \<Rightarrow> string \<Rightarrow> host list \<Rightarrow> ssh_match_context \<Rightarrow> string"
  and get_nodes :: "string \<Rightarrow> string \<Rightarrow> string \<Rightarrow> node list \<Rightarrow> ssh_match_context \<Rightarrow> string option \<times> ssh_match_context"
  and get_files :: "string \<Rightarrow> string \<Rightarrow> string \<Rightarrow> (string \<times> host list) list \<Rightarrow> string" where
  "get_hosts lu alias key [] x = ''''"
| "get_hosts lu alias key (Host h ns # hs) x =
     (if \<not> matches_context h x then get_hosts lu alias key hs x
      else (case get_nodes lu alias key ns x of
              (Some v, x') \<Rightarrow> v
            | (None, x') \<Rightarrow> get_hosts lu alias key hs x'))"
| "get_nodes lu alias key [] x = (None, x)"
| "get_nodes lu alias key (Empty e # ns) x = get_nodes lu alias key ns x"
| "get_nodes lu alias key (KV k # ns) x =
     (let x' = apply_kv (to_lower (kv_key k)) (kv_value k) x
      in if to_lower (kv_key k) = to_lower key then (Some (kv_value k), x')
         else get_nodes lu alias key ns x')"
| "get_nodes lu alias key (Include i files # ns) x =
     (let v = get_files lu alias key files
      in if v \<noteq> '''' then (Some v, x) else get_nodes lu alias key ns x)"
| "get_files lu alias key [] = ''''"
| "get_files lu alias key ((name, hs) # files) =
     (let v = get_hosts lu alias key hs (new_match_context lu alias)
      in if v \<noteq> '''' then v else get_files lu alias key files)"

definition config_get :: "string \<Rightarrow> ssh_config \<Rightarrow> string \<Rightarrow> string \<Rightarrow> string" where
  "config_get lu c alias key = get_hosts lu alias key c (new_match_context lu alias)"

fun get_all_hosts :: "string \<Rightarrow> string \<Rightarrow> string \<Rightarrow> host list \<Rightarrow> ssh_match_context \<Rightarrow> string list"
  and get_all_nodes :: "string \<Rightarrow> string \<Rightarrow> string \<Rightarrow> node list \<Rightarrow> ssh_match_context \<Rightarrow> string list \<times> ssh_match_context"
  and get_all_files :: "string \<Rightarrow> string \<Rightarrow> string \<Rightarrow> (string \<times> host list) list \<Rightarrow> string list" where
  "get_all_hosts lu alias key [] x = []"
| "get_all_hosts lu alias key (Host h ns # hs) x =
     (if \<not> matches_context h x then get_all_hosts lu alias key hs x
      else (case get_all_nodes lu alias key ns x of
              (vs, x') \<Rightarrow> vs @ get_all_hosts lu alias key hs x'))"
| "get_all_nodes lu alias key [] x = ([], x)"
| "get_all_nodes lu alias key (Empty e # ns) x = get_all_nodes lu alias key ns x"
| "get_all_nodes lu alias key (KV k # ns) x =
     (let (vs, x') = get_all_nodes lu alias key ns (apply_kv (to_lower (kv_key k)) (kv_value k) x)
      in (if to_lower (kv_key k) = to_lower key then kv_value k # vs else vs, x'))"
| "get_all_nodes lu alias key (Include i files # ns) x =
     (let (vs, x') = get_all_nodes lu alias key ns x in (get_all_files lu alias key files @ vs, x'))"
| "get_all_files lu alias key [] = []"
| "get_all_files lu alias key ((name, hs) # files) =
     get_all_hosts lu alias key hs (new_match_context lu alias) @ get_all_files lu alias key files"

definition config_get_all :: "string \<Rightarrow> ssh_config \<Rightarrow> string \<Rightarrow> string \<Rightarrow> string list" where
  "config_get_all lu c alias key = get_all_hosts lu alias key c (new_match_context lu alias)"

section \<open>What patterns match\<close>

text \<open>The texts a part of a pattern stands for.\<close>

fun stands_for :: "regex_part \<Rightarrow> string \<Rightarrow> bool" where
  "stands_for Any_Text t = (CHR 0x0a \<notin> set t)"
| "stands_for Any_Char_Opt t = (length t \<le> 1 \<and> CHR 0x0a \<notin> set t)"
| "stands_for (Literal b) t = (t = [b])"

lemma split_first:
  "(\<exists>u v. c # t = u @ v \<and> P u v) \<longleftrightarrow> P [] (c # t) \<or> (\<exists>u v. t = u @ v \<and> P (c # u) v)"
proof
  assume "\<exists>u v. c # t = u @ v \<and> P u v"
  then obtain u v where uv: "c # t = u @ v" "P u v"
    by blast
  then show "P [] (c # t) \<or> (\<exists>u v. t = u @ v \<and> P (c # u) v)"
    by (cases u) auto
qed (metis append_Cons append_Nil)

lemma regex_match_any_text:
  "regex_match (Any_Text # r) t \<longleftrightarrow> (\<exists>u v. t = u @ v \<and> CHR 0x0a \<notin> set u \<and> regex_match r v)"
proof (induction t)
  case (Cons c t)
  have "(\<exists>u v. c # t = u @ v \<and> CHR 0x0a \<notin> set u \<and> regex_match r v) \<longleftrightarrow>
      regex_match r (c # t) \<or> c \<noteq> CHR 0x0a \<and> (\<exists>u v. t = u @ v \<and> CHR 0x0a \<notin> set u \<and> regex_match r v)"
    unfolding split_first[where P = "\<lambda>u v. CHR 0x0a \<notin> set u \<and> regex_match r v"] by auto
  with Cons show ?case
    by simp
qed simp

lemma regex_match_parts:
  "regex_match ps t \<longleftrightarrow> (\<exists>ts. list_all2 stands_for ps ts \<and> t = concat ts)"
proof (induction ps arbitrary: t)
  case (Cons p ps)
  have split: "(\<exists>ts. list_all2 stands_for (p # ps) ts \<and> t = concat ts) \<longleftrightarrow>
      (\<exists>u v. t = u @ v \<and> stands_for p u \<and> regex_match ps v)"
    unfolding Cons.IH list_all2_Cons1 by (metis concat.simps(2))
  show ?case
  proof (cases p)
    case Any_Text
    then show ?thesis
      unfolding split by (simp add: regex_match_any_text)
  next
    case Any_Char_Opt
    have "regex_match (Any_Char_Opt # ps) t \<longleftrightarrow>
        (\<exists>u v. t = u @ v \<and> (length u \<le> 1 \<and> CHR 0x0a \<notin> set u) \<and> regex_match ps v)"
    proof (cases t)
      case (Cons c t')
      have "(\<exists>u v. c # t' = u @ v \<and> (length u \<le> 1 \<and> CHR 0x0a \<notin> set u) \<and> regex_match ps v) \<longleftrightarrow>
          regex_match ps (c # t') \<or> c \<noteq> CHR 0x0a \<and> regex_match ps t'"
        unfolding split_first[where P = "\<lambda>u v. (length u \<le> 1 \<and> CHR 0x0a \<notin> set u) \<and> regex_match ps v"] by auto
      with Cons show ?thesis
        by simp
    qed simp
    with Any_Char_Opt show ?thesis
      unfolding split by simp
  next
    case (Literal b)
    then show ?thesis
      unfolding split by (cases t) auto
  qed
qed auto

lemma patterns_match_iff:
  "patterns_match ps found alias \<longleftrightarrow>
     (found \<or> (\<exists>p \<in> set ps. \<not> pt_not p \<and> pattern_regex_match p alias))
     \<and> \<not> (\<exists>p \<in> set ps. pt_not p \<and> pattern_regex_match p alias)"
  by (induction ps found "alias" rule: patterns_match.induct) auto

text \<open>
  C18. A pattern matches an alias exactly when the alias is a concatenation of texts its characters
  stand for: a star for any text, a question mark for one character or none, others for themselves.
  A host block applies when a pattern matches that is not negated and no negated one does. So a
  question mark may stand for nothing, where the manual says exactly one character; and in a \<open>Match\<close>
  block a negated pattern after one that matches is not looked at, where a \<open>Host\<close> block heeds it.
\<close>

theorem host_matches_spec:
  "(pattern_regex_match p alias \<longleftrightarrow>
      (\<exists>ts. list_all2 stands_for (map compile_char (pt_str p)) ts \<and> alias = concat ts))
   \<and> (host_matches h alias \<longleftrightarrow>
        (\<exists>p \<in> set (hi_patterns h). \<not> pt_not p \<and> pattern_regex_match p alias)
        \<and> \<not> (\<exists>p \<in> set (hi_patterns h). pt_not p \<and> pattern_regex_match p alias))
   \<and> pattern_regex_match \<lparr>pt_str = ''10.0.0.?'', pt_not = False\<rparr> ''10.0.0.''
   \<and> criterion_patterns [''*.com'', ''!bad.com''] ''bad.com''
   \<and> \<not> patterns_match [\<lparr>pt_str = ''*.com'', pt_not = False\<rparr>, \<lparr>pt_str = ''bad.com'', pt_not = True\<rparr>] False ''bad.com''"
proof (intro conjI)
  show "pattern_regex_match p alias \<longleftrightarrow>
      (\<exists>ts. list_all2 stands_for (map compile_char (pt_str p)) ts \<and> alias = concat ts)"
    by (simp add: pattern_regex_match_def compile_pattern_def regex_match_parts)
  show "host_matches h alias \<longleftrightarrow>
        (\<exists>p \<in> set (hi_patterns h). \<not> pt_not p \<and> pattern_regex_match p alias)
        \<and> \<not> (\<exists>p \<in> set (hi_patterns h). pt_not p \<and> pattern_regex_match p alias)"
    by (simp add: host_matches_def patterns_match_iff)
  show "pattern_regex_match \<lparr>pt_str = ''10.0.0.?'', pt_not = False\<rparr> ''10.0.0.''"
    by code_simp
  show "criterion_patterns [''*.com'', ''!bad.com''] ''bad.com''"
    by code_simp
  show "\<not> patterns_match [\<lparr>pt_str = ''*.com'', pt_not = False\<rparr>, \<lparr>pt_str = ''bad.com'', pt_not = True\<rparr>] False ''bad.com''"
    by code_simp
qed

section \<open>Get and GetAll\<close>

text \<open>No line of a keyword has an empty value, here or in an included file.\<close>

fun hosts_valued :: "string \<Rightarrow> host list \<Rightarrow> bool"
  and nodes_valued :: "string \<Rightarrow> node list \<Rightarrow> bool"
  and files_valued :: "string \<Rightarrow> (string \<times> host list) list \<Rightarrow> bool" where
  "hosts_valued key [] = True"
| "hosts_valued key (Host h ns # hs) = (nodes_valued key ns \<and> hosts_valued key hs)"
| "nodes_valued key [] = True"
| "nodes_valued key (Empty e # ns) = nodes_valued key ns"
| "nodes_valued key (KV k # ns) =
     ((to_lower (kv_key k) = to_lower key \<longrightarrow> kv_value k \<noteq> '''') \<and> nodes_valued key ns)"
| "nodes_valued key (Include i files # ns) = (files_valued key files \<and> nodes_valued key ns)"
| "files_valued key [] = True"
| "files_valued key ((name, hs) # files) = (hosts_valued key hs \<and> files_valued key files)"

text \<open>The same of the included files only; the lines of the configuration itself may be empty.\<close>

fun node_includes_valued :: "string \<Rightarrow> node \<Rightarrow> bool" where
  "node_includes_valued key (Include i files) = files_valued key files"
| "node_includes_valued key n = True"

fun includes_valued :: "string \<Rightarrow> host list \<Rightarrow> bool" where
  "includes_valued key [] = True"
| "includes_valued key (Host h ns # hs) = (list_all (node_includes_valued key) ns \<and> includes_valued key hs)"

definition head_or_empty :: "string list \<Rightarrow> string" where
  "head_or_empty vs = (case vs of [] \<Rightarrow> '''' | v # _ \<Rightarrow> v)"

lemma head_or_empty_append:
  "'''' \<notin> set vs \<Longrightarrow> head_or_empty (vs @ ws) = (if head_or_empty vs \<noteq> '''' then head_or_empty vs else head_or_empty ws)"
  by (cases vs) (auto simp: head_or_empty_def)

lemma head_or_empty_nonempty: "'''' \<notin> set vs \<Longrightarrow> head_or_empty vs = '''' \<longleftrightarrow> vs = []"
  by (cases vs) (auto simp: head_or_empty_def)

lemma get_all_valued:
  shows "hosts_valued key hs \<Longrightarrow> '''' \<notin> set (get_all_hosts lu alias key hs x)"
    and "nodes_valued key ns \<Longrightarrow> '''' \<notin> set (fst (get_all_nodes lu alias key ns x))"
    and "files_valued key files \<Longrightarrow> '''' \<notin> set (get_all_files lu alias key files)"
proof (induction lu "alias" key hs x and lu "alias" key ns x and lu "alias" key files
    rule: get_all_hosts_get_all_nodes_get_all_files.induct)
  case (2 lu "alias" key h ns hs x)
  then show ?case
    by (cases "get_all_nodes lu alias key ns x") auto
next
  case (6 lu "alias" key i files ns x)
  obtain vs x' where "get_all_nodes lu alias key ns x = (vs, x')"
    by (rule prod.exhaust)
  with 6 show ?case
    by simp
qed (auto simp: Let_def case_prod_beta)

text \<open>What \<open>Get\<close> finds in the lines of a block, from what \<open>GetAll\<close> finds.\<close>

definition first_of :: "string list \<times> ssh_match_context \<Rightarrow> string option \<times> ssh_match_context \<Rightarrow> bool" where
  "first_of a g =
     (case fst g of None \<Rightarrow> a = ([], snd g) | Some v \<Rightarrow> v \<noteq> '''' \<and> head_or_empty (fst a) = v)"

lemma get_is_first:
  shows "hosts_valued key hs \<Longrightarrow> get_hosts lu alias key hs x = head_or_empty (get_all_hosts lu alias key hs x)"
    and "nodes_valued key ns \<Longrightarrow> first_of (get_all_nodes lu alias key ns x) (get_nodes lu alias key ns x)"
    and "files_valued key files \<Longrightarrow> get_files lu alias key files = head_or_empty (get_all_files lu alias key files)"
proof (induction lu "alias" key hs x and lu "alias" key ns x and lu "alias" key files
    rule: get_hosts_get_nodes_get_files.induct)
  case (1 lu "alias" key x)
  then show ?case
    by (simp add: head_or_empty_def)
next
  case (2 lu "alias" key h ns hs x)
  show ?case
  proof (cases "matches_context h x")
    case False
    with 2 show ?thesis
      by simp
  next
    case True
    have nodes: "first_of (get_all_nodes lu alias key ns x) (get_nodes lu alias key ns x)"
      and valued: "'''' \<notin> set (fst (get_all_nodes lu alias key ns x))"
      using 2 True get_all_valued(2) by auto
    obtain r x' where get: "get_nodes lu alias key ns x = (r, x')"
      by (rule prod.exhaust)
    obtain vs x2 where all: "get_all_nodes lu alias key ns x = (vs, x2)"
      by (rule prod.exhaust)
    show ?thesis
    proof (cases r)
      case None
      with nodes get all have "vs = []" "x2 = x'"
        by (simp_all add: first_of_def)
      with 2 True get all None show ?thesis
        by simp
    next
      case (Some v)
      with nodes get all have "v \<noteq> ''''" "head_or_empty vs = v"
        by (simp_all add: first_of_def)
      with True get all Some valued show ?thesis
        by (simp add: head_or_empty_append)
    qed
  qed
next
  case (5 lu "alias" key k ns x)
  let ?x = "apply_kv (to_lower (kv_key k)) (kv_value k) x"
  obtain vs x2 where "get_all_nodes lu alias key ns ?x = (vs, x2)"
    by (rule prod.exhaust)
  with 5 show ?case
    by (auto simp: first_of_def head_or_empty_def Let_def)
next
  case (6 lu "alias" key i files ns x)
  obtain vs x2 where all: "get_all_nodes lu alias key ns x = (vs, x2)"
    by (rule prod.exhaust)
  have files: "get_files lu alias key files = head_or_empty (get_all_files lu alias key files)"
    "'''' \<notin> set (get_all_files lu alias key files)"
    using 6 get_all_valued(3) by auto
  show ?case
  proof (cases "get_files lu alias key files = ''''")
    case True
    then have "get_all_files lu alias key files = []"
      using files head_or_empty_nonempty by metis
    with 6 all True show ?thesis
      by (simp add: Let_def)
  next
    case False
    with files all show ?thesis
      by (simp add: Let_def first_of_def head_or_empty_append)
  qed
next
  case (8 lu "alias" key name hs files)
  have "'''' \<notin> set (get_all_hosts lu alias key hs (new_match_context lu alias))"
    using 8 get_all_valued(1) by simp
  with 8 show ?case
    by (simp add: Let_def head_or_empty_append)
qed (simp_all add: first_of_def head_or_empty_def)

text \<open>The configuration itself: a line of it ends the search also when its value is empty.\<close>

lemma get_nodes_first:
  assumes "list_all (node_includes_valued key) ns"
  shows "case fst (get_nodes lu alias key ns x) of
           None \<Rightarrow> get_all_nodes lu alias key ns x = ([], snd (get_nodes lu alias key ns x))
         | Some v \<Rightarrow> \<exists>vs. fst (get_all_nodes lu alias key ns x) = v # vs"
  using assms
proof (induction ns arbitrary: x)
  case (Cons n ns)
  show ?case
  proof (cases n)
    case (Empty e)
    then show ?thesis
      using Cons.IH[of x] Cons.prems by (auto split: option.splits)
  next
    case (KV k)
    then show ?thesis
      using Cons.IH[of "apply_kv (to_lower (kv_key k)) (kv_value k) x"] Cons.prems
      by (auto simp: Let_def case_prod_beta split: option.splits)
  next
    case (Include i files)
    with Cons.prems have valued: "files_valued key files"
      by simp
    note first = get_is_first(3)[OF valued, of lu "alias"]
      and empty = head_or_empty_nonempty[OF get_all_valued(3)[OF valued, of lu "alias"]]
    show ?thesis
    proof (cases "get_all_files lu alias key files")
      case Nil
      with first have "get_files lu alias key files = ''''"
        by (simp add: head_or_empty_def)
      with Nil Include show ?thesis
        using Cons.IH[of x] Cons.prems by (auto simp: Let_def case_prod_beta split: option.splits)
    next
      case (Cons v vs)
      with first empty have "get_files lu alias key files = v" "v \<noteq> ''''"
        by (simp_all add: head_or_empty_def)
      with Cons Include show ?thesis
        by (simp add: Let_def case_prod_beta)
    qed
  qed
qed simp

lemma get_hosts_first:
  "includes_valued key hs \<Longrightarrow> get_hosts lu alias key hs x = head_or_empty (get_all_hosts lu alias key hs x)"
proof (induction key hs arbitrary: x rule: includes_valued.induct)
  case (2 key h ns hs)
  obtain r x' where "get_nodes lu alias key ns x = (r, x')"
    by (rule prod.exhaust)
  then show ?case
    using 2 get_nodes_first[of key ns lu "alias" x]
    by (cases r) (auto simp: head_or_empty_def case_prod_beta split: prod.splits)
qed (simp add: head_or_empty_def)

text \<open>
  C9. When no included file has a line of the asked keyword without a value, \<open>Get\<close> answers with the
  first of the values \<open>GetAll\<close> collects, through all blocks and included files, although it stops
  at the first value and the context of the later \<open>Match\<close> blocks depends on the lines before; and
  with the empty text when there is none. Lines without a value in the configuration itself do no
  harm: both stop at them. In an included file they do: \<open>Get\<close> takes the empty answer of the file for none
  and goes on, \<open>GetAll\<close> has it as a value.
\<close>

theorem get_is_first_of_get_all:
  assumes "includes_valued key c"
  shows "config_get lu c alias key = (case config_get_all lu c alias key of [] \<Rightarrow> '''' | v # vs \<Rightarrow> v)"
  using get_hosts_first[OF assms] unfolding config_get_def config_get_all_def head_or_empty_def .

definition line :: "string \<Rightarrow> string \<Rightarrow> node" where
  "line key v = KV \<lparr>kv_key = key, kv_value = v, kv_space_after_value = '''', kv_comment = '''', kv_has_equals = False,
     kv_leading_space = 0, kv_position = (1, 1), kv_raw_value = v\<rparr>"

definition match_block :: host_info where
  "match_block = implicit_host\<lparr>hi_implicit := False, hi_is_match := True, hi_match_raw := ''host *.lan''\<rparr>"

lemma get_is_first_of_get_all_witness:
  "let c = [Host implicit_host [line ''User'' '''', Include \<lparr>in_comment = '''', in_directives = [''lan''],
               in_leading_space = 0, in_position = (1, 1), in_depth = 1, in_has_equals = False\<rparr>
               [(''lan'', [Host implicit_host [line ''User'' '''']])], line ''HostName'' ''db.lan''],
            Host match_block [line ''Port'' ''22'', line ''port'' ''23'']]
   in config_get ''me'' c ''db'' ''Port'' = ''22'' \<and> config_get_all ''me'' c ''db'' ''Port'' = [''22'', ''23'']"
proof -
  let ?c = "[Host implicit_host [line ''User'' '''', Include \<lparr>in_comment = '''', in_directives = [''lan''],
               in_leading_space = 0, in_position = (1, 1), in_depth = 1, in_has_equals = False\<rparr>
               [(''lan'', [Host implicit_host [line ''User'' '''']])], line ''HostName'' ''db.lan''],
            Host match_block [line ''Port'' ''22'', line ''port'' ''23'']]"
  have "includes_valued ''Port'' ?c"
    by code_simp
  note first = get_is_first_of_get_all[OF this, of "''me''" "''db''"]
  have "config_get_all ''me'' ?c ''db'' ''Port'' = [''22'', ''23'']"
    by code_simp
  with first show ?thesis
    by simp
qed

text \<open>The two do not agree on a keyword without a value in an included file.\<close>

lemma get_differs_from_get_all:
  "let c = [Host implicit_host [Include i [(''lan'', [Host implicit_host [line ''User'' '''']])], line ''User'' ''root'']]
   in config_get ''me'' c ''db'' ''User'' = ''root'' \<and> config_get_all ''me'' c ''db'' ''User'' = ['''', ''root'']"
  by code_simp

end
