(* ===== verification/Ssh_Settings.thy ===== *)
theory Ssh_Settings
  imports Ssh_Config
begin

text \<open>
  The settings of a user, \<^verbatim>\<open>internal/ssh_config/validators.go\<close> and the type \<open>UserSettings\<close> of
  \<^verbatim>\<open>internal/ssh_config/config.go\<close>: the tables of keywords with their defaults, the check of a value,
  and the order in which the configuration files are asked. Parsing a file is a parameter.
\<close>

section \<open>Keywords\<close>

text \<open>The keys of the tables are the lower-case names.\<close>

definition yesnos :: "string list" where
  "yesnos = map to_lower [
    ''BatchMode'', ''CanonicalizeFallbackLocal'', ''ChallengeResponseAuthentication'',
    ''CheckHostIP'', ''ClearAllForwardings'', ''Compression'', ''EnableSSHKeysign'',
    ''ExitOnForwardFailure'', ''ForwardAgent'', ''ForwardX11'', ''ForwardX11Trusted'',
    ''GatewayPorts'', ''GSSAPIAuthentication'', ''GSSAPIDelegateCredentials'',
    ''HostbasedAuthentication'', ''IdentitiesOnly'', ''KbdInteractiveAuthentication'',
    ''NoHostAuthenticationForLocalhost'', ''PasswordAuthentication'', ''PermitLocalCommand'',
    ''PubkeyAuthentication'', ''RhostsRSAAuthentication'', ''RSAAuthentication'',
    ''StreamLocalBindUnlink'', ''TCPKeepAlive'', ''UseKeychain'', ''UsePrivilegedPort'',
    ''VisualHostKey'']"

definition uints :: "string list" where
  "uints = map to_lower [
    ''CanonicalizeMaxDots'', ''CompressionLevel'', ''ConnectionAttempts'', ''ConnectTimeout'',
    ''NumberOfPasswordPrompts'', ''Port'', ''ServerAliveCountMax'', ''ServerAliveInterval'']"

definition defaults :: "(string \<times> string) list" where
  "defaults = map (\<lambda>(k, v). (to_lower k, v)) [
    (''AddKeysToAgent'', ''no''), (''AddressFamily'', ''any''), (''BatchMode'', ''no''),
    (''CanonicalizeFallbackLocal'', ''yes''), (''CanonicalizeHostname'', ''no''),
    (''CanonicalizeMaxDots'', ''1''), (''ChallengeResponseAuthentication'', ''yes''),
    (''CheckHostIP'', ''yes''), (''Cipher'', ''3des''),
    (''Ciphers'', ''chacha20-poly1305@openssh.com,aes128-ctr,aes192-ctr,aes256-ctr,aes128-gcm@openssh.com,aes256-gcm@openssh.com,aes128-cbc,aes192-cbc,aes256-cbc''),
    (''ClearAllForwardings'', ''no''), (''Compression'', ''no''), (''CompressionLevel'', ''6''),
    (''ConnectionAttempts'', ''1''), (''ControlMaster'', ''no''), (''EnableSSHKeysign'', ''no''),
    (''EscapeChar'', ''~''), (''ExitOnForwardFailure'', ''no''), (''FingerprintHash'', ''sha256''),
    (''ForwardAgent'', ''no''), (''ForwardX11'', ''no''), (''ForwardX11Timeout'', ''20m''),
    (''ForwardX11Trusted'', ''no''), (''GatewayPorts'', ''no''),
    (''GlobalKnownHostsFile'', ''/etc/ssh/ssh_known_hosts /etc/ssh/ssh_known_hosts2''),
    (''GSSAPIAuthentication'', ''no''), (''GSSAPIDelegateCredentials'', ''no''),
    (''HashKnownHosts'', ''no''), (''HostbasedAuthentication'', ''no''),
    (''HostbasedKeyTypes'', ''ecdsa-sha2-nistp256-cert-v01@openssh.com,ecdsa-sha2-nistp384-cert-v01@openssh.com,ecdsa-sha2-nistp521-cert-v01@openssh.com,ssh-ed25519-cert-v01@openssh.com,ssh-rsa-cert-v01@openssh.com,ecdsa-sha2-nistp256,ecdsa-sha2-nistp384,ecdsa-sha2-nistp521,ssh-ed25519,ssh-rsa''),
    (''HostKeyAlgorithms'', ''ecdsa-sha2-nistp256-cert-v01@openssh.com,ecdsa-sha2-nistp384-cert-v01@openssh.com,ecdsa-sha2-nistp521-cert-v01@openssh.com,ssh-ed25519-cert-v01@openssh.com,ssh-rsa-cert-v01@openssh.com,ecdsa-sha2-nistp256,ecdsa-sha2-nistp384,ecdsa-sha2-nistp521,ssh-ed25519,ssh-rsa''),
    (''IdentitiesOnly'', ''no''), (''IdentityFile'', ''~/.ssh/identity''),
    (''KbdInteractiveAuthentication'', ''yes''),
    (''KexAlgorithms'', ''curve25519-sha256,curve25519-sha256@libssh.org,ecdh-sha2-nistp256,ecdh-sha2-nistp384,ecdh-sha2-nistp521,diffie-hellman-group-exchange-sha256,diffie-hellman-group-exchange-sha1,diffie-hellman-group14-sha1''),
    (''LogLevel'', ''INFO''),
    (''MACs'', ''umac-64-etm@openssh.com,umac-128-etm@openssh.com,hmac-sha2-256-etm@openssh.com,hmac-sha2-512-etm@openssh.com,hmac-sha1-etm@openssh.com,umac-64@openssh.com,umac-128@openssh.com,hmac-sha2-256,hmac-sha2-512,hmac-sha1''),
    (''NoHostAuthenticationForLocalhost'', ''no''), (''NumberOfPasswordPrompts'', ''3''),
    (''PasswordAuthentication'', ''yes''), (''PermitLocalCommand'', ''no''), (''Port'', ''22''),
    (''PreferredAuthentications'', ''gssapi-with-mic,hostbased,publickey,keyboard-interactive,password''),
    (''Protocol'', ''2''), (''ProxyUseFdpass'', ''no''),
    (''PubkeyAcceptedKeyTypes'', ''ecdsa-sha2-nistp256-cert-v01@openssh.com,ecdsa-sha2-nistp384-cert-v01@openssh.com,ecdsa-sha2-nistp521-cert-v01@openssh.com,ssh-ed25519-cert-v01@openssh.com,ssh-rsa-cert-v01@openssh.com,ecdsa-sha2-nistp256,ecdsa-sha2-nistp384,ecdsa-sha2-nistp521,ssh-ed25519,ssh-rsa''),
    (''PubkeyAuthentication'', ''yes''), (''RekeyLimit'', ''default none''),
    (''RhostsRSAAuthentication'', ''no''), (''RSAAuthentication'', ''yes''),
    (''ServerAliveCountMax'', ''3''), (''ServerAliveInterval'', ''0''),
    (''StreamLocalBindMask'', ''0177''), (''StreamLocalBindUnlink'', ''no''),
    (''StrictHostKeyChecking'', ''ask''), (''TCPKeepAlive'', ''yes''), (''Tunnel'', ''no''),
    (''TunnelDevice'', ''any:any''), (''UpdateHostKeys'', ''no''), (''UseKeychain'', ''no''),
    (''UsePrivilegedPort'', ''no''),
    (''UserKnownHostsFile'', ''~/.ssh/known_hosts ~/.ssh/known_hosts2''),
    (''VerifyHostKeyDNS'', ''no''), (''VisualHostKey'', ''no''),
    (''XAuthLocation'', ''/usr/X11R6/bin/xauth'')]"

text \<open>The names in the table of directives that may be repeated are not in lower case.\<close>

definition plural_directives :: "string list" where
  "plural_directives = [
    ''CertificateFile'', ''IdentityFile'', ''DynamicForward'', ''RemoteForward'', ''SendEnv'',
    ''SetEnv'']"

definition default_value :: "string \<Rightarrow> string" where
  "default_value keyword = (case map_of defaults (to_lower keyword) of None \<Rightarrow> '''' | Some v \<Rightarrow> v)"

definition must_be_yes_or_no :: "string \<Rightarrow> bool" where
  "must_be_yes_or_no lkey = (lkey \<in> set yesnos)"

definition must_be_uint :: "string \<Rightarrow> bool" where
  "must_be_uint lkey = (lkey \<in> set uints)"

text \<open>\<open>strconv.ParseUint(val, 10, 64)\<close> succeeds.\<close>

definition parses_as_uint :: "string \<Rightarrow> bool" where
  "parses_as_uint v = (v \<noteq> '''' \<and> list_all is_digit v \<and> digits_value v < 2 ^ 64)"

definition validate :: "string \<Rightarrow> string \<Rightarrow> go_error option" where
  "validate key v =
     (let lkey = to_lower key
      in if must_be_yes_or_no lkey \<and> v \<noteq> ''yes'' \<and> v \<noteq> ''no''
         then Some (Go_Error False (''ssh_config: value for key '' @ key @ '' must be yes or no, got '' @ v))
         else if must_be_uint lkey \<and> \<not> parses_as_uint v
         then Some (Go_Error False (''ssh_config: strconv.ParseUint: parsing '' @ v))
         else None)"

definition supports_multiple :: "string \<Rightarrow> bool" where
  "supports_multiple key = (to_lower key \<in> set plural_directives)"

section \<open>Settings\<close>

record user_settings =
  us_ignore_errors :: bool
  us_custom_finder :: "string option"      \<comment> \<open>what the finder answers, when there is one\<close>
  us_user_file :: string
  us_system_file :: string
  us_custom :: "ssh_config option"
  us_user :: "ssh_config option"
  us_system :: "ssh_config option"
  us_once_err :: "go_error option"

definition parsed :: "ssh_config result \<Rightarrow> ssh_config option" where
  "parsed r = (case r of Inl e \<Rightarrow> None | Inr c \<Rightarrow> Some c)"

text \<open>The error of a file that need not exist.\<close>

definition real_error :: "ssh_config result \<Rightarrow> go_error option" where
  "real_error r = (case r of Inl e \<Rightarrow> if err_not_exist e then None else Some e | Inr c \<Rightarrow> None)"

definition do_load_configs :: "(string \<Rightarrow> ssh_config result) \<Rightarrow> user_settings \<Rightarrow> user_settings" where
  "do_load_configs parse_file u =
     (case us_custom_finder u of
        Some name \<Rightarrow>
          (let r = parse_file name
           in u\<lparr>us_custom := parsed r, us_once_err := (case r of Inl e \<Rightarrow> Some e | Inr c \<Rightarrow> us_once_err u)\<rparr>)
      | None \<Rightarrow>
          (let r = parse_file (us_user_file u); u = u\<lparr>us_user := parsed r\<rparr>
           in case real_error r of
                Some e \<Rightarrow> u\<lparr>us_once_err := Some e\<rparr>
              | None \<Rightarrow>
                  (let r = parse_file (us_system_file u); u = u\<lparr>us_system := parsed r\<rparr>
                   in case real_error r of Some e \<Rightarrow> u\<lparr>us_once_err := Some e\<rparr> | None \<Rightarrow> u)))"

definition find_val :: "string \<Rightarrow> ssh_config option \<Rightarrow> string \<Rightarrow> string \<Rightarrow> string result" where
  "find_val lu c alias key =
     (case c of None \<Rightarrow> Inr ''''
      | Some c \<Rightarrow>
          (let v = config_get lu c alias key
           in if v = '''' then Inr '''' else (case validate key v of Some e \<Rightarrow> Inl e | None \<Rightarrow> Inr v)))"

definition find_all :: "string \<Rightarrow> ssh_config option \<Rightarrow> string \<Rightarrow> string \<Rightarrow> string list" where
  "find_all lu c alias key = (case c of None \<Rightarrow> [] | Some c \<Rightarrow> config_get_all lu c alias key)"

text \<open>After \<open>doLoadConfigs\<close>: the files in order, then the default.\<close>

fun first_value :: "string \<Rightarrow> ssh_config option list \<Rightarrow> string \<Rightarrow> string \<Rightarrow> string result" where
  "first_value lu [] alias key = Inr (default_value key)"
| "first_value lu (c # cs) alias key =
     (case find_val lu c alias key of
        Inl e \<Rightarrow> Inl e
      | Inr v \<Rightarrow> if v \<noteq> '''' then Inr v else first_value lu cs alias key)"

definition get_strict :: "string \<Rightarrow> user_settings \<Rightarrow> string \<Rightarrow> string \<Rightarrow> string result" where
  "get_strict lu u alias key =
     (case us_once_err u of
        Some e \<Rightarrow> if \<not> us_ignore_errors u then Inl e
                   else first_value lu [us_custom u, us_user u, us_system u] alias key
      | None \<Rightarrow> first_value lu [us_custom u, us_user u, us_system u] alias key)"

fun first_values :: "string \<Rightarrow> ssh_config option list \<Rightarrow> string \<Rightarrow> string \<Rightarrow> string list" where
  "first_values lu [] alias key = (if default_value key \<noteq> '''' then [default_value key] else [])"
| "first_values lu (c # cs) alias key =
     (let vs = find_all lu c alias key in if vs \<noteq> [] then vs else first_values lu cs alias key)"

definition get_all_strict :: "string \<Rightarrow> user_settings \<Rightarrow> string \<Rightarrow> string \<Rightarrow> string list result" where
  "get_all_strict lu u alias key =
     (case us_once_err u of
        Some e \<Rightarrow> if \<not> us_ignore_errors u then Inl e
                   else Inr (first_values lu [us_custom u, us_user u, us_system u] alias key)
      | None \<Rightarrow> Inr (first_values lu [us_custom u, us_user u, us_system u] alias key))"

section \<open>The tables\<close>

text \<open>The tables as they are after the conversion to lower case, for evaluation; a character is
  converted by its number as an integer.\<close>

lemma lower_char_int [code]:
  "lower_char c = (let n = of_char c :: int in if 65 \<le> n \<and> n \<le> 90 then char_of (n + 32) else c)"
proof -
  have n: "(of_char c :: int) = int (of_char c)"
    by (cases c) (auto simp: of_char_def)
  have "(char_of (int (of_char c) + 32) :: char) = char_of ((of_char c :: nat) + 32)"
    using char_of_nat[of "of_char c + 32", where 'a = int] by simp
  then show ?thesis
    unfolding lower_char_def Let_def n by auto
qed

lemma yesnos_lower [code]: "yesnos = [
    ''batchmode'', ''canonicalizefallbacklocal'', ''challengeresponseauthentication'',
    ''checkhostip'', ''clearallforwardings'', ''compression'', ''enablesshkeysign'',
    ''exitonforwardfailure'', ''forwardagent'', ''forwardx11'', ''forwardx11trusted'',
    ''gatewayports'', ''gssapiauthentication'', ''gssapidelegatecredentials'',
    ''hostbasedauthentication'', ''identitiesonly'', ''kbdinteractiveauthentication'',
    ''nohostauthenticationforlocalhost'', ''passwordauthentication'', ''permitlocalcommand'',
    ''pubkeyauthentication'', ''rhostsrsaauthentication'', ''rsaauthentication'',
    ''streamlocalbindunlink'', ''tcpkeepalive'', ''usekeychain'', ''useprivilegedport'',
    ''visualhostkey'']"
  by code_simp

lemma uints_lower [code]: "uints = [
    ''canonicalizemaxdots'', ''compressionlevel'', ''connectionattempts'', ''connecttimeout'',
    ''numberofpasswordprompts'', ''port'', ''serveralivecountmax'', ''serveraliveinterval'']"
  by code_simp

lemma defaults_lower [code]: "defaults = [
    (''addkeystoagent'', ''no''), (''addressfamily'', ''any''), (''batchmode'', ''no''),
    (''canonicalizefallbacklocal'', ''yes''), (''canonicalizehostname'', ''no''),
    (''canonicalizemaxdots'', ''1''), (''challengeresponseauthentication'', ''yes''),
    (''checkhostip'', ''yes''), (''cipher'', ''3des''),
    (''ciphers'', ''chacha20-poly1305@openssh.com,aes128-ctr,aes192-ctr,aes256-ctr,aes128-gcm@openssh.com,aes256-gcm@openssh.com,aes128-cbc,aes192-cbc,aes256-cbc''),
    (''clearallforwardings'', ''no''), (''compression'', ''no''), (''compressionlevel'', ''6''),
    (''connectionattempts'', ''1''), (''controlmaster'', ''no''), (''enablesshkeysign'', ''no''),
    (''escapechar'', ''~''), (''exitonforwardfailure'', ''no''), (''fingerprinthash'', ''sha256''),
    (''forwardagent'', ''no''), (''forwardx11'', ''no''), (''forwardx11timeout'', ''20m''),
    (''forwardx11trusted'', ''no''), (''gatewayports'', ''no''),
    (''globalknownhostsfile'', ''/etc/ssh/ssh_known_hosts /etc/ssh/ssh_known_hosts2''),
    (''gssapiauthentication'', ''no''), (''gssapidelegatecredentials'', ''no''),
    (''hashknownhosts'', ''no''), (''hostbasedauthentication'', ''no''),
    (''hostbasedkeytypes'', ''ecdsa-sha2-nistp256-cert-v01@openssh.com,ecdsa-sha2-nistp384-cert-v01@openssh.com,ecdsa-sha2-nistp521-cert-v01@openssh.com,ssh-ed25519-cert-v01@openssh.com,ssh-rsa-cert-v01@openssh.com,ecdsa-sha2-nistp256,ecdsa-sha2-nistp384,ecdsa-sha2-nistp521,ssh-ed25519,ssh-rsa''),
    (''hostkeyalgorithms'', ''ecdsa-sha2-nistp256-cert-v01@openssh.com,ecdsa-sha2-nistp384-cert-v01@openssh.com,ecdsa-sha2-nistp521-cert-v01@openssh.com,ssh-ed25519-cert-v01@openssh.com,ssh-rsa-cert-v01@openssh.com,ecdsa-sha2-nistp256,ecdsa-sha2-nistp384,ecdsa-sha2-nistp521,ssh-ed25519,ssh-rsa''),
    (''identitiesonly'', ''no''), (''identityfile'', ''~/.ssh/identity''),
    (''kbdinteractiveauthentication'', ''yes''),
    (''kexalgorithms'', ''curve25519-sha256,curve25519-sha256@libssh.org,ecdh-sha2-nistp256,ecdh-sha2-nistp384,ecdh-sha2-nistp521,diffie-hellman-group-exchange-sha256,diffie-hellman-group-exchange-sha1,diffie-hellman-group14-sha1''),
    (''loglevel'', ''INFO''),
    (''macs'', ''umac-64-etm@openssh.com,umac-128-etm@openssh.com,hmac-sha2-256-etm@openssh.com,hmac-sha2-512-etm@openssh.com,hmac-sha1-etm@openssh.com,umac-64@openssh.com,umac-128@openssh.com,hmac-sha2-256,hmac-sha2-512,hmac-sha1''),
    (''nohostauthenticationforlocalhost'', ''no''), (''numberofpasswordprompts'', ''3''),
    (''passwordauthentication'', ''yes''), (''permitlocalcommand'', ''no''), (''port'', ''22''),
    (''preferredauthentications'', ''gssapi-with-mic,hostbased,publickey,keyboard-interactive,password''),
    (''protocol'', ''2''), (''proxyusefdpass'', ''no''),
    (''pubkeyacceptedkeytypes'', ''ecdsa-sha2-nistp256-cert-v01@openssh.com,ecdsa-sha2-nistp384-cert-v01@openssh.com,ecdsa-sha2-nistp521-cert-v01@openssh.com,ssh-ed25519-cert-v01@openssh.com,ssh-rsa-cert-v01@openssh.com,ecdsa-sha2-nistp256,ecdsa-sha2-nistp384,ecdsa-sha2-nistp521,ssh-ed25519,ssh-rsa''),
    (''pubkeyauthentication'', ''yes''), (''rekeylimit'', ''default none''),
    (''rhostsrsaauthentication'', ''no''), (''rsaauthentication'', ''yes''),
    (''serveralivecountmax'', ''3''), (''serveraliveinterval'', ''0''),
    (''streamlocalbindmask'', ''0177''), (''streamlocalbindunlink'', ''no''),
    (''stricthostkeychecking'', ''ask''), (''tcpkeepalive'', ''yes''), (''tunnel'', ''no''),
    (''tunneldevice'', ''any:any''), (''updatehostkeys'', ''no''), (''usekeychain'', ''no''),
    (''useprivilegedport'', ''no''),
    (''userknownhostsfile'', ''~/.ssh/known_hosts ~/.ssh/known_hosts2''),
    (''verifyhostkeydns'', ''no''), (''visualhostkey'', ''no''),
    (''xauthlocation'', ''/usr/X11R6/bin/xauth'')]"
  by code_simp

text \<open>Every default of a checked keyword passes the check.\<close>

lemma defaults_valid: "list_all (\<lambda>(k, v). validate k v = None) defaults"
  by code_simp

lemma to_lower_lower: "to_lower (to_lower s) = to_lower s"
proof -
  have "lower_char (lower_char c) = lower_char c" for c
    by (simp add: lower_char_def)
  then show ?thesis
    by (simp add: to_lower_def)
qed

lemma validate_lower: "validate (to_lower k) v = None \<longleftrightarrow> validate k v = None"
  by (auto simp: validate_def to_lower_lower Let_def)

lemma default_valid: "default_value key = '''' \<or> validate key (default_value key) = None"
proof (cases "map_of defaults (to_lower key)")
  case None
  then show ?thesis
    by (simp add: default_value_def)
next
  case (Some v)
  then have "(to_lower key, v) \<in> set defaults"
    by (rule map_of_SomeD)
  then have "validate (to_lower key) v = None"
    using defaults_valid unfolding list_all_iff by blast
  then show ?thesis
    using Some validate_lower by (simp add: default_value_def)
qed

lemma first_value_valid:
  "first_value lu cs alias key = Inr v \<Longrightarrow> v = '''' \<or> validate key v = None"
proof (induction cs)
  case Nil
  then show ?case
    using default_valid[of key] by auto
next
  case (Cons c cs)
  then show ?case
    by (auto simp: find_val_def Let_def split: option.splits if_splits)
qed

lemma lower_char_not_upper: "\<not> (65 \<le> (of_char (lower_char c) :: nat) \<and> (of_char (lower_char c) :: nat) \<le> 90)"
  by (auto simp: lower_char_def)

lemma to_lower_no_upper: "c \<in> set (to_lower s) \<Longrightarrow> \<not> (65 \<le> (of_char c :: nat) \<and> (of_char c :: nat) \<le> 90)"
  using lower_char_not_upper by (auto simp: to_lower_def)

lemma plural_directives_upper:
  "list_all (\<lambda>d. list_ex (\<lambda>c. 65 \<le> (of_char c :: nat) \<and> (of_char c :: nat) \<le> 90) d) plural_directives"
  by code_simp

text \<open>
  A value that \<open>GetStrict\<close> returns without an error is empty or passes the check of its
  keyword, whether it comes from a file or is the default; the default of every checked keyword
  passes. But no directive is reported as repeatable: the table's names have capital letters, and
  the keyword is looked up in lower case.
\<close>

theorem get_strict_valid:
  assumes "get_strict lu u alias key = Inr v"
  shows "(v = '''' \<or> validate key v = None)
     \<and> list_all (\<lambda>(k, v). validate k v = None) defaults
     \<and> \<not> supports_multiple key"
proof -
  have "first_value lu [us_custom u, us_user u, us_system u] alias key = Inr v"
    using assms by (auto simp: get_strict_def split: option.splits if_splits)
  then have "v = '''' \<or> validate key v = None"
    by (rule first_value_valid)
  moreover have "\<not> supports_multiple key"
    using plural_directives_upper to_lower_no_upper[of _ key]
    by (auto simp: supports_multiple_def list_all_iff list_ex_iff)
  ultimately show ?thesis
    using defaults_valid by blast
qed

definition port_settings :: user_settings where
  "port_settings = \<lparr>us_ignore_errors = False, us_custom_finder = None, us_user_file = ''u'', us_system_file = ''s'',
     us_custom = None,
     us_user = Some [Host implicit_host [KV \<lparr>kv_key = ''PORT'', kv_value = ''2222'', kv_space_after_value = '''',
       kv_comment = '''', kv_has_equals = False, kv_leading_space = 0, kv_position = (1, 1), kv_raw_value = ''2222''\<rparr>]],
     us_system = None, us_once_err = None\<rparr>"

lemma get_strict_valid_witness:
  "get_strict ''me'' port_settings ''web'' ''Port'' = Inr ''2222'' \<and> validate ''Port'' ''2222'' = None"
proof -
  have r: "get_strict ''me'' port_settings ''web'' ''Port'' = Inr ''2222''"
    by code_simp
  from get_strict_valid[OF r] r show ?thesis
    by simp
qed

end
