(* ===== verification/Ssh_Lexer.thy ===== *)
theory Ssh_Lexer
  imports Go_Base
begin

text \<open>
  The lexer of OpenSSH configurations, \<^verbatim>\<open>internal/ssh_config/lexer.go\<close>, \<^verbatim>\<open>token.go\<close> and
  \<^verbatim>\<open>position.go\<close>: its state, the state functions, and the stream of tokens they send. A rune is a
  character here; the end of the input is no rune. The tokens the goroutine sends on the channel are
  kept in the order they are sent.
\<close>

section \<open>Tokens\<close>

type_synonym position = "nat \<times> nat"    \<comment> \<open>line and column\<close>

datatype token_type =
  Token_Error | Token_EOF | Token_Empty_Line | Token_Comment | Token_Key | Token_Equals | Token_String

record token =
  tk_position :: position
  tk_typ :: token_type
  tk_val :: string

definition invalid_position :: "position \<Rightarrow> bool" where
  "invalid_position p = (fst p \<le> 0 \<or> snd p \<le> 0)"

abbreviation LF :: char where "LF \<equiv> CHR 0x0A"
abbreviation CR :: char where "CR \<equiv> CHR 0x0D"
abbreviation TAB :: char where "TAB \<equiv> CHR 0x09"

definition is_space :: "char \<Rightarrow> bool" where
  "is_space r = (r = CHR '' '' \<or> r = TAB)"

definition is_key_start_char :: "char option \<Rightarrow> bool" where
  "is_key_start_char r = (case r of None \<Rightarrow> False | Some r \<Rightarrow> \<not> (is_space r \<or> r = CR \<or> r = LF))"

definition is_key_char :: "char option \<Rightarrow> bool" where
  "is_key_char r = (case r of None \<Rightarrow> False | Some r \<Rightarrow> \<not> (r = CR \<or> r = LF \<or> r = CHR ''=''))"

section \<open>The state\<close>

record ssh_lexer =
  lx_input :: string           \<comment> \<open>from \<open>inputIdx\<close> on\<close>
  lx_buffer :: string
  lx_tokens :: "token list"
  lx_line :: nat
  lx_col :: nat
  lx_end_line :: nat
  lx_end_col :: nat

definition lx_peek :: "ssh_lexer \<Rightarrow> char option" where
  "lx_peek s = (case lx_input s of [] \<Rightarrow> None | r # _ \<Rightarrow> Some r)"

definition lx_follow :: "string \<Rightarrow> ssh_lexer \<Rightarrow> bool" where
  "lx_follow next s = has_prefix (lx_input s) next"

definition lx_read :: "ssh_lexer \<Rightarrow> ssh_lexer" where
  "lx_read s =
     (let s' = (if lx_peek s = Some LF then s\<lparr>lx_end_line := lx_end_line s + 1, lx_end_col := 1\<rparr>
                else s\<lparr>lx_end_col := lx_end_col s + 1\<rparr>)
      in s'\<lparr>lx_input := tl (lx_input s)\<rparr>)"

definition lx_next :: "ssh_lexer \<Rightarrow> ssh_lexer" where
  "lx_next s =
     (case lx_peek s of None \<Rightarrow> lx_read s
      | Some r \<Rightarrow> (lx_read s)\<lparr>lx_buffer := lx_buffer s @ [r]\<rparr>)"

definition lx_ignore :: "ssh_lexer \<Rightarrow> ssh_lexer" where
  "lx_ignore s = s\<lparr>lx_buffer := '''', lx_line := lx_end_line s, lx_col := lx_end_col s\<rparr>"

definition lx_skip :: "ssh_lexer \<Rightarrow> ssh_lexer" where
  "lx_skip s = lx_ignore (lx_next s)"

definition emit_with_value :: "token_type \<Rightarrow> string \<Rightarrow> ssh_lexer \<Rightarrow> ssh_lexer" where
  "emit_with_value t v s =
     lx_ignore (s\<lparr>lx_tokens := lx_tokens s @ [\<lparr>tk_position = (lx_line s, lx_col s), tk_typ = t, tk_val = v\<rparr>]\<rparr>)"

definition lx_emit :: "token_type \<Rightarrow> ssh_lexer \<Rightarrow> ssh_lexer" where
  "lx_emit t s = emit_with_value t (lx_buffer s) s"

text \<open>Only \<open>next\<close> takes from the input.\<close>

lemma lx_input_simps [simp]:
  "lx_input (lx_read s) = tl (lx_input s)"
  "lx_input (lx_next s) = tl (lx_input s)"
  "lx_input (lx_ignore s) = lx_input s"
  "lx_input (lx_skip s) = tl (lx_input s)"
  "lx_input (emit_with_value t v s) = lx_input s"
  "lx_input (lx_emit t s) = lx_input s"
  by (auto simp: lx_read_def lx_next_def lx_ignore_def lx_skip_def emit_with_value_def lx_emit_def Let_def
      split: option.splits)

lemma lx_peek_None [simp]: "lx_peek s = None \<longleftrightarrow> lx_input s = []"
  by (auto simp: lx_peek_def split: list.splits)

lemma lx_peek_Some: "lx_peek s = Some r \<Longrightarrow> lx_input s = r # tl (lx_input s)"
  by (auto simp: lx_peek_def split: list.splits)

lemma lx_peek_less: "lx_peek s = Some r \<Longrightarrow> length (lx_input s) - Suc 0 < length (lx_input s)"
  by (auto simp: lx_peek_def split: list.splits)

section \<open>The state functions\<close>

datatype lex_state = Lex_Comment | Lex_Void | Lex_Key | Lex_Equals | Lex_Rspace | Lex_Rvalue

text \<open>The loop of \<open>lexComment\<close>, which is always followed by \<open>lexVoid\<close>.\<close>

function comment_loop :: "string \<Rightarrow> ssh_lexer \<Rightarrow> string \<times> ssh_lexer" where
  "comment_loop growing s =
     (case lx_peek s of
        None \<Rightarrow> (growing, s)
      | Some r \<Rightarrow>
          if r = LF then (growing, s)
          else if r = CR \<and> lx_follow [CR, LF] s then (growing, s)
          else comment_loop (growing @ [r]) (lx_next s))"
  by pat_completeness auto
termination
  by (relation "measure (\<lambda>(g, s). length (lx_input s))") (auto dest: lx_peek_less)

declare comment_loop.simps [simp del]

definition lex_comment :: "ssh_lexer \<Rightarrow> ssh_lexer \<times> lex_state option" where
  "lex_comment s = (let (growing, s) = comment_loop '''' s in (lx_skip (emit_with_value Token_Comment growing s), Some Lex_Void))"

function lex_rspace :: "ssh_lexer \<Rightarrow> ssh_lexer \<times> lex_state option" where
  "lex_rspace s =
     (case lx_peek s of
        None \<Rightarrow> (s, Some Lex_Rvalue)
      | Some r \<Rightarrow> if \<not> is_space r then (s, Some Lex_Rvalue) else lex_rspace (lx_skip s))"
  by pat_completeness auto
termination
  by (relation "measure (\<lambda>s. length (lx_input s))") (auto dest: lx_peek_less)

declare lex_rspace.simps [simp del]

function lex_equals :: "ssh_lexer \<Rightarrow> ssh_lexer \<times> lex_state option" where
  "lex_equals s =
     (case lx_peek s of
        None \<Rightarrow> (s, Some Lex_Rvalue)
      | Some r \<Rightarrow>
          if r = CHR ''='' then (lx_skip (lx_emit Token_Equals s), Some Lex_Rspace)
          else if \<not> is_space r then (s, Some Lex_Rvalue)
          else lex_equals (lx_skip s))"
  by pat_completeness auto
termination
  by (relation "measure (\<lambda>s. length (lx_input s))") (auto dest: lx_peek_less)

declare lex_equals.simps [simp del]

function key_loop :: "string \<Rightarrow> ssh_lexer \<Rightarrow> ssh_lexer \<times> lex_state option" where
  "key_loop growing s =
     (case lx_peek s of
        None \<Rightarrow> (emit_with_value Token_Key growing s, Some Lex_Equals)
      | Some r \<Rightarrow>
          if \<not> is_key_char (Some r) then (emit_with_value Token_Key growing s, Some Lex_Equals)
          else if is_space r \<or> r = CHR ''='' then (lx_skip (emit_with_value Token_Key growing s), Some Lex_Equals)
          else key_loop (growing @ [r]) (lx_next s))"
  by pat_completeness auto
termination
  by (relation "measure (\<lambda>(g, s). length (lx_input s))") (auto dest: lx_peek_less)

declare key_loop.simps [simp del]

definition lex_key :: "ssh_lexer \<Rightarrow> ssh_lexer \<times> lex_state option" where
  "lex_key s = key_loop '''' s"

function rvalue_loop :: "string \<Rightarrow> ssh_lexer \<Rightarrow> ssh_lexer \<times> lex_state option" where
  "rvalue_loop growing s =
     (case lx_peek s of
        None \<Rightarrow> (lx_emit Token_EOF (lx_next s), None)
      | Some r \<Rightarrow>
          if r = CR \<and> lx_follow [CR, LF] s then (lx_skip (emit_with_value Token_String growing s), Some Lex_Void)
          else if r = LF then (lx_skip (emit_with_value Token_String growing s), Some Lex_Void)
          else if r = CHR ''#'' then (lx_skip (emit_with_value Token_String growing s), Some Lex_Comment)
          else rvalue_loop (growing @ [r]) (lx_next s))"
  by pat_completeness auto
termination
  by (relation "measure (\<lambda>(g, s). length (lx_input s))") (auto dest: lx_peek_less)

declare rvalue_loop.simps [simp del]

definition lex_rvalue :: "ssh_lexer \<Rightarrow> ssh_lexer \<times> lex_state option" where
  "lex_rvalue s = rvalue_loop '''' s"

function lex_void :: "ssh_lexer \<Rightarrow> ssh_lexer \<times> lex_state option" where
  "lex_void s =
     (case lx_peek s of
        None \<Rightarrow> (lx_emit Token_EOF (lx_next s), None)
      | Some r \<Rightarrow>
          if r = CHR ''#'' then (lx_skip s, Some Lex_Comment)
          else if r = CR \<or> r = LF then lex_void (lx_skip (lx_emit Token_Empty_Line s))
          else (let s' = (if is_space r then lx_skip s else s)
                in if is_key_start_char (Some r) then (s', Some Lex_Key) else lex_void s'))"
  by pat_completeness auto
termination
  by (relation "measure (\<lambda>s. length (lx_input s))")
     (auto dest: lx_peek_less simp: is_key_start_char_def)

declare lex_void.simps [simp del]

definition lex_step :: "lex_state \<Rightarrow> ssh_lexer \<Rightarrow> ssh_lexer \<times> lex_state option" where
  "lex_step st =
     (case st of Lex_Comment \<Rightarrow> lex_comment | Lex_Void \<Rightarrow> lex_void | Lex_Key \<Rightarrow> lex_key
      | Lex_Equals \<Rightarrow> lex_equals | Lex_Rspace \<Rightarrow> lex_rspace | Lex_Rvalue \<Rightarrow> lex_rvalue)"

text \<open>A state function takes from the input or moves on to a state of a lower rank.\<close>

fun lex_rank :: "lex_state \<Rightarrow> nat" where
  "lex_rank Lex_Comment = 5"
| "lex_rank Lex_Void = 4"
| "lex_rank Lex_Key = 3"
| "lex_rank Lex_Equals = 2"
| "lex_rank Lex_Rspace = 1"
| "lex_rank Lex_Rvalue = 0"

definition lex_less :: "ssh_lexer \<Rightarrow> lex_state \<Rightarrow> ssh_lexer \<Rightarrow> lex_state \<Rightarrow> bool" where
  "lex_less s' st' s st =
     (length (lx_input s') < length (lx_input s)
      \<or> length (lx_input s') = length (lx_input s) \<and> lex_rank st' < lex_rank st)"

lemma comment_loop_le: "comment_loop g s = (g', s') \<Longrightarrow> length (lx_input s') \<le> length (lx_input s)"
proof (induction g s rule: comment_loop.induct)
  case (1 g s)
  from 1(2) show ?case
    by (subst (asm) comment_loop.simps) (auto split: option.splits if_splits dest!: 1(1))
qed

lemma lex_comment_less: "lex_comment s = (s', Some st) \<Longrightarrow> lex_less s' st s Lex_Comment"
  using comment_loop_le by (auto simp: lex_comment_def lex_less_def split: prod.splits dest!: comment_loop_le)

lemma lex_rspace_less: "lex_rspace s = (s', Some st) \<Longrightarrow> lex_less s' st s Lex_Rspace"
proof (induction s rule: lex_rspace.induct)
  case (1 s)
  from 1(2,1) show ?case
    by (subst (asm) lex_rspace.simps, cases "lx_input s") (auto split: if_splits simp: lex_less_def lx_peek_def)
qed

lemma lex_equals_less: "lex_equals s = (s', Some st) \<Longrightarrow> lex_less s' st s Lex_Equals"
proof (induction s rule: lex_equals.induct)
  case (1 s)
  from 1(2,1) show ?case
    by (subst (asm) lex_equals.simps, cases "lx_input s") (auto split: if_splits simp: lex_less_def lx_peek_def)
qed

lemma key_loop_less: "key_loop g s = (s', Some st) \<Longrightarrow> lex_less s' st s Lex_Key"
proof (induction g s rule: key_loop.induct)
  case (1 g s)
  from 1(2,1) show ?case
    by (subst (asm) key_loop.simps, cases "lx_input s") (auto split: if_splits simp: lex_less_def lx_peek_def)
qed

lemma rvalue_loop_less: "rvalue_loop g s = (s', Some st) \<Longrightarrow> lex_less s' st s Lex_Rvalue"
proof (induction g s rule: rvalue_loop.induct)
  case (1 g s)
  from 1(2,1) show ?case
    by (subst (asm) rvalue_loop.simps, cases "lx_input s") (auto split: if_splits simp: lex_less_def lx_peek_def)
qed

lemma lex_less_consumed:
  "lex_less s'' st' s' st \<Longrightarrow> length (lx_input s') < length (lx_input s) \<Longrightarrow> lex_less s'' st' s st"
  by (auto simp: lex_less_def)

lemma lex_void_less: "lex_void s = (s', Some st) \<Longrightarrow> lex_less s' st s Lex_Void"
proof (induction s rule: lex_void.induct)
  case (1 s)
  show ?case
  proof (cases "lx_input s")
    case Nil
    with 1(3) show ?thesis
      by (subst (asm) lex_void.simps) (simp add: lx_peek_def)
  next
    case (Cons r t)
    then have peek: "lx_peek s = Some r"
      by (simp add: lx_peek_def)
    consider "r = CHR ''#''" | "r \<noteq> CHR ''#''" "r = CR \<or> r = LF" | "r \<noteq> CHR ''#''" "\<not> (r = CR \<or> r = LF)" "is_space r"
      | "r \<noteq> CHR ''#''" "\<not> (r = CR \<or> r = LF)" "\<not> is_space r"
      by blast
    then show ?thesis
    proof cases
      case 1
      with 1 \<open>lex_void s = (s', Some st)\<close> peek Cons show ?thesis
        by (subst (asm) lex_void.simps) (auto simp: lex_less_def)
    next
      case 2
      with \<open>lex_void s = (s', Some st)\<close> peek have "lex_void (lx_skip (lx_emit Token_Empty_Line s)) = (s', Some st)"
        by (subst (asm) lex_void.simps) auto
      from lex_less_consumed[OF 1(1)[OF peek 2 this]] Cons show ?thesis
        by simp
    next
      case 3
      then have start: "\<not> is_key_start_char (Some r)"
        by (simp add: is_key_start_char_def)
      with 3 \<open>lex_void s = (s', Some st)\<close> peek have "lex_void (lx_skip s) = (s', Some st)"
        by (subst (asm) lex_void.simps) auto
      with 1(2)[OF peek 3(1,2) refl start] 3 have "lex_less s' st (lx_skip s) Lex_Void"
        by simp
      from lex_less_consumed[OF this] Cons show ?thesis
        by simp
    next
      case 4
      with \<open>lex_void s = (s', Some st)\<close> peek show ?thesis
        by (subst (asm) lex_void.simps) (auto simp: is_key_start_char_def lex_less_def)
    qed
  qed
qed

lemma lex_step_less: "lex_step st s = (s', Some st') \<Longrightarrow> lex_less s' st' s st"
  by (auto simp: lex_step_def lex_key_def lex_rvalue_def lex_comment_less lex_void_less key_loop_less
      lex_equals_less lex_rspace_less rvalue_loop_less split: lex_state.splits)

function lex_run :: "lex_state \<Rightarrow> ssh_lexer \<Rightarrow> ssh_lexer" where
  "lex_run st s = (case lex_step st s of (s', None) \<Rightarrow> s' | (s', Some st') \<Rightarrow> lex_run st' s')"
  by pat_completeness auto
termination
  by (relation "measures [\<lambda>(st, s). length (lx_input s), \<lambda>(st, s). lex_rank st]")
     (auto dest!: lex_step_less[OF sym] simp: lex_less_def)

declare lex_run.simps [simp del]

definition init_lexer :: "string \<Rightarrow> ssh_lexer" where
  "init_lexer input = \<lparr>lx_input = input, lx_buffer = '''', lx_tokens = [], lx_line = 1, lx_col = 1,
     lx_end_line = 1, lx_end_col = 1\<rparr>"

definition lex_ssh :: "string \<Rightarrow> token list" where
  "lex_ssh input = lx_tokens (lex_run Lex_Void (init_lexer input))"

end
