(* ===== verification/Ssh_Parser.thy ===== *)
theory Ssh_Parser
  imports Ssh_Lexer Ssh_Config Go_Path Go_Bytes
begin

text \<open>
  The parser of OpenSSH configurations, \<^verbatim>\<open>internal/ssh_config/parser.go\<close>, and from
  \<^verbatim>\<open>internal/ssh_config/config.go\<close> the included files and the printing of a configuration. The
  home directory, \<open>filepath.Glob\<close> and \<open>os.ReadFile\<close> are parameters.
\<close>

section \<open>Errors\<close>

definition position_string :: "position \<Rightarrow> string" where
  "position_string p = ''('' @ decimal (fst p) @ '', '' @ decimal (snd p) @ '')''"

definition err_depth_exceeded :: go_error where
  "err_depth_exceeded = Go_Error False ''ssh_config: max recurse depth exceeded''"

text \<open>\<open>raiseErrorf\<close> and \<open>raiseError\<close> panic with a text, which \<open>decodeBytes\<close> turns into an error.\<close>

definition raise_errorf :: "token \<Rightarrow> string \<Rightarrow> 'a outcome" where
  "raise_errorf tok msg = Failed (Go_Error False (position_string (tk_position tok) @ '': '' @ msg))"

definition raise_error :: "token \<Rightarrow> go_error \<Rightarrow> 'a outcome" where
  "raise_error tok e =
     (if e = err_depth_exceeded then Failed e
      else Failed (Go_Error False (position_string (tk_position tok) @ '': '' @ err_message e)))"

text \<open>\<open>%q\<close> on the texts that get into messages: quotes and backslashes are escaped.\<close>

definition go_quote :: "string \<Rightarrow> string" where
  "go_quote s = [CHR 0x22] @ concat (map (\<lambda>c. if c = CHR 0x22 \<or> c = CHR 0x5C then [CHR 0x5C, c] else [c]) s) @ [CHR 0x22]"

definition token_string :: "token \<Rightarrow> string" where
  "token_string t = (if tk_typ t = Token_EOF then ''EOF'' else go_quote (tk_val t))"

section \<open>Lines\<close>

definition add_node :: "node \<Rightarrow> host \<Rightarrow> host" where
  "add_node n h = Host (host_head h) (host_nodes h @ [n])"

text \<open>\<open>lastHost.Nodes = append(lastHost.Nodes, n)\<close>.\<close>

definition append_node :: "node \<Rightarrow> ssh_config \<Rightarrow> ssh_config outcome" where
  "append_node n cfg = (if cfg = [] then Panicked else Done (butlast cfg @ [add_node n (last cfg)]))"

definition parse_comment :: "token list \<Rightarrow> ssh_config \<Rightarrow> (token list \<times> ssh_config) outcome" where
  "parse_comment toks cfg =
     (case toks of [] \<Rightarrow> Panicked
      | comment # toks \<Rightarrow>
          and_then (append_node (Empty \<lparr>el_comment = tk_val comment,
              el_leading_space = int (snd (tk_position comment)) - 2,
              el_position = tk_position comment\<rparr>) cfg)
            (\<lambda>cfg. Done (toks, cfg)))"

section \<open>Blocks\<close>

definition skipped_match_words :: "string list" where
  "skipped_match_words = [''all'', ''canonical'', ''final'', ''host'', ''originalhost'', ''user'', ''localuser'']"

text \<open>\<open>parseMatchPatterns\<close>: the loop over the words after the keyword.\<close>

fun match_patterns_loop :: "string list \<Rightarrow> pattern list result" where
  "match_patterns_loop [] = Inr []"
| "match_patterns_loop (s # ss) =
     (if s = '''' then match_patterns_loop ss
      else if to_lower s \<in> set skipped_match_words then match_patterns_loop ss
      else (case new_pattern s of
              Inl e \<Rightarrow> errorf (''Invalid match pattern: '' @ err_message e)
            | Inr pat \<Rightarrow>
                (case match_patterns_loop ss of Inl e \<Rightarrow> Inl e | Inr pats \<Rightarrow> Inr (pat # pats))))"

definition parse_match_patterns :: "string \<Rightarrow> string list \<Rightarrow> pattern list result" where
  "parse_match_patterns criterion fs =
     (if criterion = ''canonical'' \<or> criterion = ''final'' then Inr [match_all]
      else (case match_patterns_loop (tl fs) of
              Inl e \<Rightarrow> Inl e
            | Inr [] \<Rightarrow> errorf (''ssh_config: Match '' @ hd fs @ '' requires at least one pattern'')
            | Inr pats \<Rightarrow> Inr pats))"

definition match_host :: "pattern list \<Rightarrow> string \<Rightarrow> string \<Rightarrow> bool \<Rightarrow> string \<Rightarrow> string \<Rightarrow> host" where
  "match_host pats comment space has_equals keyword raw =
     Host \<lparr>hi_patterns = pats, hi_eol_comment = comment, hi_space_before_comment = space,
       hi_has_equals = has_equals, hi_leading_space = 0, hi_implicit = False, hi_is_match = True,
       hi_match_keyword = keyword, hi_match_raw = raw\<rparr> []"

definition parse_match :: "token \<Rightarrow> bool \<Rightarrow> string \<Rightarrow> ssh_config \<Rightarrow> ssh_config outcome" where
  "parse_match v has_equals comment cfg =
     (let trimmed = trim_right (tk_val v);
          space = drop (length trimmed) (tk_val v);
          fs = Go_Base.fields trimmed
      in if fs = [] then raise_errorf v ''ssh_config: Match directive requires at least one criterion''
         else (let criterion = to_lower (hd fs)
               in if criterion = ''all''
                  then Done (cfg @ [match_host [match_all] comment space has_equals (hd fs) trimmed])
                  else if criterion \<in> {''host'', ''originalhost'', ''user'', ''localuser'', ''canonical'', ''final''}
                  then (case parse_match_patterns criterion fs of
                          Inl e \<Rightarrow> raise_errorf v (err_message e)
                        | Inr pats \<Rightarrow> Done (cfg @ [match_host pats comment space has_equals (hd fs) trimmed]))
                  else if criterion = ''exec'' then raise_errorf v ''ssh_config: Match Exec is not supported''
                  else raise_errorf v (''ssh_config: unsupported Match criterion '' @ go_quote criterion)))"

text \<open>The patterns of a \<open>Host\<close> line.\<close>

fun host_patterns :: "string list \<Rightarrow> pattern list result" where
  "host_patterns [] = Inr []"
| "host_patterns (s # ss) =
     (if s = '''' then host_patterns ss
      else (case new_pattern s of
              Inl e \<Rightarrow> Inl e
            | Inr pat \<Rightarrow> (case host_patterns ss of Inl e \<Rightarrow> Inl e | Inr pats \<Rightarrow> Inr (pat # pats))))"

definition parse_host :: "token \<Rightarrow> bool \<Rightarrow> string \<Rightarrow> ssh_config \<Rightarrow> ssh_config outcome" where
  "parse_host v has_equals comment cfg =
     (case host_patterns (split_on CHR '' '' (tk_val v)) of
        Inl e \<Rightarrow> raise_errorf v (''Invalid host pattern: '' @ err_message e)
      | Inr pats \<Rightarrow>
          (let hostval = trim_right (tk_val v)
           in Done (cfg @ [Host \<lparr>hi_patterns = pats, hi_eol_comment = comment,
                hi_space_before_comment = drop (length hostval) (tk_val v), hi_has_equals = has_equals,
                hi_leading_space = 0, hi_implicit = False, hi_is_match = False,
                hi_match_keyword = '''', hi_match_raw = ''''\<rparr> []])))"

section \<open>The parser\<close>

text \<open>What the parser does with an \<open>Include\<close> line: directives, equals sign, position, comment.\<close>

type_synonym include_fun = "string list \<Rightarrow> bool \<Rightarrow> position \<Rightarrow> string \<Rightarrow> node outcome"

definition unquoted :: "string \<Rightarrow> string" where
  "unquoted v =
     (if length v \<ge> 2 \<and> hd v = CHR 0x22 \<and> last v = CHR 0x22 then butlast (tl v) else v)"

definition make_kv :: "token \<Rightarrow> token \<Rightarrow> bool \<Rightarrow> string \<Rightarrow> kv" where
  "make_kv ky v has_equals comment =
     (let shortval = trim_right (tk_val v)
      in \<lparr>kv_key = tk_val ky, kv_value = unquoted shortval,
          kv_space_after_value = drop (length shortval) (tk_val v), kv_comment = comment,
          kv_has_equals = has_equals, kv_leading_space = snd (tk_position ky) - 1,
          kv_position = tk_position ky, kv_raw_value = shortval\<rparr>)"

text \<open>After the key: the equals sign and the value; then a comment on the same line.\<close>

definition value_token :: "token list \<Rightarrow> (bool \<times> token \<times> token list) outcome" where
  "value_token toks =
     (case toks of [] \<Rightarrow> Panicked
      | t # ts \<Rightarrow>
          if tk_typ t = Token_Equals then (case ts of [] \<Rightarrow> Panicked | t' # ts' \<Rightarrow> Done (True, t', ts'))
          else Done (False, t, ts))"

definition eol_comment :: "token \<Rightarrow> token list \<Rightarrow> string \<times> token list" where
  "eol_comment v toks =
     (case toks of [] \<Rightarrow> ('''', [])
      | c # ts \<Rightarrow>
          if tk_typ c = Token_Comment \<and> fst (tk_position c) = fst (tk_position v) then (tk_val c, ts)
          else ('''', toks))"

definition parse_line :: "include_fun \<Rightarrow> token \<Rightarrow> bool \<Rightarrow> token \<Rightarrow> string \<Rightarrow> ssh_config \<Rightarrow> ssh_config outcome" where
  "parse_line inc ky has_equals v comment cfg =
     (if to_lower (tk_val ky) = ''match'' then parse_match v has_equals comment cfg
      else if to_lower (tk_val ky) = ''host'' then parse_host v has_equals comment cfg
      else if cfg = [] then Panicked
      else if to_lower (tk_val ky) = ''include'' then
        (case inc (split_on CHR '' '' (tk_val v)) has_equals (tk_position ky) comment of
           Done n \<Rightarrow> append_node n cfg
         | Failed e \<Rightarrow>
             if e = err_depth_exceeded then raise_error v e
             else raise_errorf v (''Error parsing Include directive: '' @ err_message e)
         | Panicked \<Rightarrow> Panicked)
      else append_node (KV (make_kv ky v has_equals comment)) cfg)"

definition parse_kv :: "include_fun \<Rightarrow> token list \<Rightarrow> ssh_config \<Rightarrow> (token list \<times> ssh_config) outcome" where
  "parse_kv inc toks cfg =
     (case toks of [] \<Rightarrow> Panicked
      | ky # toks \<Rightarrow>
          and_then (value_token toks)
            (\<lambda>(has_equals, v, toks).
               let (comment, toks) = eol_comment v toks
               in and_then (parse_line inc ky has_equals v comment cfg) (\<lambda>cfg. Done (toks, cfg))))"

lemma value_token_less: "value_token toks = Done (he, v, toks') \<Longrightarrow> length toks' < length toks"
  by (auto simp: value_token_def split: list.splits if_splits)

lemma eol_comment_le: "length (snd (eol_comment v toks)) \<le> length toks"
  by (auto simp: eol_comment_def split: list.splits)

lemma parse_kv_less: "parse_kv inc toks cfg = Done (toks', cfg') \<Longrightarrow> length toks' < length toks"
  by (auto simp: parse_kv_def and_then_Done Let_def case_prod_beta split: list.splits
      dest!: value_token_less intro!: less_SucI order.strict_trans1[OF eol_comment_le])

lemma parse_comment_less: "parse_comment toks cfg = Done (toks', cfg') \<Longrightarrow> length toks' < length toks"
  by (auto simp: parse_comment_def and_then_Done split: list.splits)

text \<open>\<open>parseStart\<close> on the tokens that are left, and the states that return to it.\<close>

function parse_start :: "include_fun \<Rightarrow> token list \<Rightarrow> ssh_config \<Rightarrow> ssh_config outcome" where
  "parse_start inc toks cfg =
     (case toks of [] \<Rightarrow> Done cfg
      | tok # _ \<Rightarrow>
          (case tk_typ tok of
             Token_EOF \<Rightarrow> Done cfg
           | Token_Comment \<Rightarrow>
               (case parse_comment toks cfg of
                  Done (toks', cfg') \<Rightarrow> parse_start inc toks' cfg' | Failed e \<Rightarrow> Failed e | Panicked \<Rightarrow> Panicked)
           | Token_Empty_Line \<Rightarrow>
               (case parse_comment toks cfg of
                  Done (toks', cfg') \<Rightarrow> parse_start inc toks' cfg' | Failed e \<Rightarrow> Failed e | Panicked \<Rightarrow> Panicked)
           | Token_Key \<Rightarrow>
               (case parse_kv inc toks cfg of
                  Done (toks', cfg') \<Rightarrow> parse_start inc toks' cfg' | Failed e \<Rightarrow> Failed e | Panicked \<Rightarrow> Panicked)
           | _ \<Rightarrow> raise_errorf tok (''unexpected token '' @ go_quote (token_string tok) @ [LF])))"
  by pat_completeness auto
termination
  by (relation "measure (\<lambda>(inc, toks, cfg). length toks)")
     (auto dest!: parse_kv_less parse_comment_less)

declare parse_start.simps [simp del]

definition parse_ssh :: "include_fun \<Rightarrow> token list \<Rightarrow> ssh_config outcome" where
  "parse_ssh inc flow = parse_start inc flow new_config"

section \<open>Included files\<close>

record parse_env =
  pe_home :: string
  pe_glob :: "string \<Rightarrow> string list result"
  pe_read :: "string \<Rightarrow> string result"

definition max_recurse_depth :: nat where
  "max_recurse_depth = 5"

definition remove_dups_step :: "string list \<Rightarrow> string \<Rightarrow> string list" where
  "remove_dups_step result v = (if v \<in> set result then result else result @ [v])"

definition remove_dups :: "string list \<Rightarrow> string list" where
  "remove_dups arr = foldl remove_dups_step [] arr"

definition directive_path :: "parse_env \<Rightarrow> bool \<Rightarrow> string \<Rightarrow> string" where
  "directive_path env system d =
     (if is_abs d then d
      else if system then path_join [''/etc/ssh'', d]
      else if has_prefix d ''~/'' then path_join [pe_home env, drop 2 d]
      else path_join [pe_home env, ''.ssh'', d])"

fun glob_directives :: "parse_env \<Rightarrow> bool \<Rightarrow> string list \<Rightarrow> string list result" where
  "glob_directives env system [] = Inr []"
| "glob_directives env system (d # ds) =
     (case pe_glob env (directive_path env system d) of
        Inl e \<Rightarrow> Inl e
      | Inr these \<Rightarrow>
          (case glob_directives env system ds of Inl e \<Rightarrow> Inl e | Inr ms \<Rightarrow> Inr (these @ ms)))"

fun parse_matches :: "(string \<Rightarrow> ssh_config outcome) \<Rightarrow> string list \<Rightarrow> (string \<times> host list) list outcome" where
  "parse_matches parse [] = Done []"
| "parse_matches parse (m # ms) =
     and_then (parse m) (\<lambda>c. and_then (parse_matches parse ms) (\<lambda>files. Done ((m, c) # files)))"

text \<open>\<open>NewInclude\<close> below the check of the depth; \<open>parse\<close> is \<open>parseWithDepth\<close> at that depth.\<close>

definition new_include ::
    "parse_env \<Rightarrow> (string \<Rightarrow> ssh_config outcome) \<Rightarrow> bool \<Rightarrow> nat \<Rightarrow> include_fun" where
  "new_include env parse system depth directives has_equals pos comment =
     (case glob_directives env system directives of
        Inl e \<Rightarrow> Failed e
      | Inr matches \<Rightarrow>
          and_then (parse_matches parse (remove_dups matches))
            (\<lambda>files. Done (Include \<lparr>in_comment = comment, in_directives = directives,
               in_leading_space = snd pos - 1, in_position = pos, in_depth = depth,
               in_has_equals = has_equals\<rparr> files)))"

definition is_system :: "string \<Rightarrow> bool" where
  "is_system filename = has_prefix (path_clean filename) ''/etc/ssh''"

text \<open>An \<open>Include\<close> line in a file at depth \<open>d\<close> reads its files at depth \<open>d + 1\<close>, unless that
  exceeds the limit, which \<open>NewInclude\<close> checks first.\<close>

definition at_depth :: "nat \<Rightarrow> include_fun \<Rightarrow> include_fun" where
  "at_depth depth inc directives has_equals pos comment =
     (if depth > max_recurse_depth then Failed err_depth_exceeded else inc directives has_equals pos comment)"

lemma at_depth_cong [fundef_cong]:
  "depth = depth' \<Longrightarrow> (depth' \<le> max_recurse_depth \<Longrightarrow> inc = inc') \<Longrightarrow> at_depth depth inc = at_depth depth' inc'"
  by (intro ext) (auto simp: at_depth_def)

lemma new_include_cong [fundef_cong]:
  assumes "env = env'" and parse: "\<And>f. parse f = parse' f" and "system = system'" "depth = depth'"
  shows "new_include env parse system depth = new_include env' parse' system' depth'"
proof -
  from parse have "parse = parse'"
    by (rule ext)
  with assms show ?thesis
    by simp
qed

function parse_with_depth :: "parse_env \<Rightarrow> nat \<Rightarrow> string \<Rightarrow> ssh_config outcome" where
  "parse_with_depth env depth filename =
     (case pe_read env filename of
        Inl e \<Rightarrow> Failed e
      | Inr b \<Rightarrow>
          parse_ssh
            (at_depth (depth + 1)
              (new_include env (\<lambda>f. parse_with_depth env (depth + 1) f) (is_system filename) (depth + 1)))
            (lex_ssh b))"
  by pat_completeness auto
termination
  by (relation "measure (\<lambda>(env, depth, f). Suc max_recurse_depth - depth)") auto

declare parse_with_depth.simps [simp del]

definition parse_file :: "parse_env \<Rightarrow> string \<Rightarrow> ssh_config outcome" where
  "parse_file env filename = parse_with_depth env 0 filename"

text \<open>\<open>DecodeBytes\<close>: a configuration that is not read from a file of the system.\<close>

definition decode_bytes :: "parse_env \<Rightarrow> string \<Rightarrow> ssh_config outcome" where
  "decode_bytes env b =
     parse_ssh (at_depth 1 (new_include env (parse_with_depth env 1) False 1)) (lex_ssh b)"

section \<open>Printing\<close>

definition equals_sign :: "bool \<Rightarrow> string" where
  "equals_sign has_equals = (if has_equals then '' = '' else '' '')"

definition kv_string :: "kv \<Rightarrow> string" where
  "kv_string k =
     (let v = (if kv_raw_value k \<noteq> '''' then kv_raw_value k else kv_value k);
          line = replicate (kv_leading_space k) CHR '' '' @ kv_key k @ equals_sign (kv_has_equals k) @ v
      in if kv_comment k \<noteq> ''''
         then line @ (if kv_space_after_value k \<noteq> '''' then kv_space_after_value k else '' '') @ ''#'' @ kv_comment k
         else line @ kv_space_after_value k)"

definition empty_string :: "empty_line \<Rightarrow> string" where
  "empty_string e =
     (if el_comment e = '''' then ''''
      else replicate (nat (el_leading_space e)) CHR '' '' @ ''#'' @ el_comment e)"

definition include_string :: "include_info \<Rightarrow> string" where
  "include_string i =
     (let line = replicate (in_leading_space i) CHR '' '' @ ''Include'' @ equals_sign (in_has_equals i)
                 @ join_with '' '' (in_directives i)
      in if in_comment i \<noteq> '''' then line @ '' #'' @ in_comment i else line)"

fun node_string :: "node \<Rightarrow> string" where
  "node_string (KV k) = kv_string k"
| "node_string (Empty e) = empty_string e"
| "node_string (Include i files) = include_string i"

definition pattern_string :: "pattern \<Rightarrow> string" where
  "pattern_string p = (if pt_not p then ''!'' @ pt_str p else pt_str p)"

definition head_string :: "host_info \<Rightarrow> string" where
  "head_string h =
     replicate (hi_leading_space h) CHR '' ''
     @ (if hi_is_match h then
          ''Match'' @ equals_sign (hi_has_equals h) @ hi_match_keyword h
          @ (if to_lower (hi_match_keyword h) \<noteq> ''all''
             then '' '' @ join_with '' '' (map pattern_string (hi_patterns h)) else '''')
        else ''Host'' @ equals_sign (hi_has_equals h) @ join_with '' '' (map pattern_string (hi_patterns h)))
     @ (if hi_eol_comment h \<noteq> ''''
        then (if hi_space_before_comment h \<noteq> '''' then hi_space_before_comment h else '' '') @ ''#'' @ hi_eol_comment h
        else '''')
     @ [LF]"

definition host_string :: "host \<Rightarrow> string" where
  "host_string h =
     (if hi_implicit (host_head h) then '''' else head_string (host_head h))
     @ concat (map (\<lambda>n. node_string n @ [LF]) (host_nodes h))"

definition config_string :: "ssh_config \<Rightarrow> string" where
  "config_string c = concat (map host_string c)"

end
