(* ===== verification/Ssh_Lines.thy ===== *)
theory Ssh_Lines
  imports Ssh_Parser
begin

text \<open>
  OpenSSH configurations line by line: what the lexer and the parser of \<open>Ssh_Lexer\<close> and
  \<open>Ssh_Parser\<close> make of a text of printable ASCII characters whose lines end in a newline.
\<close>

section \<open>Characters\<close>

definition plain :: "char \<Rightarrow> bool" where
  "plain c = (32 \<le> (of_char c :: nat) \<and> (of_char c :: nat) < 127)"

definition plain_text :: "string \<Rightarrow> bool" where
  "plain_text s = list_all plain s"

abbreviation spaces :: "nat \<Rightarrow> string" where
  "spaces k \<equiv> replicate k CHR '' ''"

lemma not_plain [simp]: "\<not> plain LF" "\<not> plain CR" "\<not> plain TAB"
  by (simp_all add: plain_def)

lemma plain_not_LF: "plain c \<Longrightarrow> c \<noteq> LF \<and> c \<noteq> CR \<and> c \<noteq> TAB"
  using not_plain by blast

lemma plain_text_simps [simp]:
  "plain_text []" "plain_text (c # s) \<longleftrightarrow> plain c \<and> plain_text s" "plain_text (s @ t) \<longleftrightarrow> plain_text s \<and> plain_text t"
  by (simp_all add: plain_text_def)

lemma plain_text_set: "plain_text s \<Longrightarrow> c \<in> set s \<Longrightarrow> plain c"
  by (simp add: plain_text_def list_all_iff)

lemma plain_text_LF: "plain_text s \<Longrightarrow> LF \<notin> set s"
  using plain_text_set not_plain by blast

lemma plain_space [simp]: "plain CHR '' ''"
  by (simp add: plain_def)

lemma plain_spaces [simp]: "plain_text (spaces k)"
  by (simp add: plain_text_def list_all_iff)

lemma is_space_plain: "plain c \<Longrightarrow> is_space c \<longleftrightarrow> c = CHR '' ''"
  using not_plain by (auto simp: is_space_def)

section \<open>Moving through a line\<close>

text \<open>The lexer after the runes of \<open>w\<close>, none of them a newline.\<close>

definition advance :: "string \<Rightarrow> ssh_lexer \<Rightarrow> ssh_lexer" where
  "advance w s = s\<lparr>lx_input := drop (length w) (lx_input s), lx_buffer := lx_buffer s @ w,
     lx_end_col := lx_end_col s + length w\<rparr>"

lemma advance_Nil [simp]: "advance [] s = s"
  by (simp add: advance_def)

lemma lx_next_advance: "lx_input s = r # t \<Longrightarrow> r \<noteq> LF \<Longrightarrow> lx_next s = advance [r] s"
  by (simp add: lx_next_def lx_read_def lx_peek_def advance_def)

lemma advance_append: "advance (v @ w) s = advance w (advance v s)"
  by (simp add: advance_def ac_simps)

lemma lx_peek_Cons [simp]: "lx_input s = r # t \<Longrightarrow> lx_peek s = Some r"
  by (simp add: lx_peek_def)

lemma input_advance [simp]: "lx_input s = w @ t \<Longrightarrow> lx_input (advance w s) = t"
  by (simp add: advance_def)

lemma comment_loop_run:
  "lx_input s = w @ LF # t \<Longrightarrow> plain_text w \<Longrightarrow> comment_loop g s = (g @ w, advance w s)"
proof (induction w arbitrary: g s)
  case Nil
  then show ?case
    by (subst comment_loop.simps) simp
next
  case (Cons r w)
  then have "r \<noteq> LF" "r \<noteq> CR"
    using plain_not_LF by auto
  with Cons show ?case
    using advance_append[of "[r]" w s]
    by (subst comment_loop.simps) (simp add: lx_next_advance)
qed

lemma rvalue_loop_run:
  "lx_input s = w @ t \<Longrightarrow> plain_text w \<Longrightarrow> CHR ''#'' \<notin> set w \<Longrightarrow>
     rvalue_loop g s = rvalue_loop (g @ w) (advance w s)"
proof (induction w arbitrary: g s)
  case (Cons r w)
  then have "r \<noteq> LF" "r \<noteq> CR" "r \<noteq> CHR ''#''"
    using plain_not_LF by auto
  with Cons show ?case
    using advance_append[of "[r]" w s]
    by (subst rvalue_loop.simps) (simp add: lx_next_advance)
qed simp

lemma key_loop_run:
  "lx_input s = w @ t \<Longrightarrow> plain_text w \<Longrightarrow> CHR '' '' \<notin> set w \<Longrightarrow> CHR ''='' \<notin> set w \<Longrightarrow>
     key_loop g s = key_loop (g @ w) (advance w s)"
proof (induction w arbitrary: g s)
  case (Cons r w)
  then have "r \<noteq> LF" "r \<noteq> CR" "\<not> is_space r" "r \<noteq> CHR ''=''"
    using plain_not_LF is_space_plain by auto
  with Cons show ?case
    using advance_append[of "[r]" w s]
    by (subst key_loop.simps) (simp add: lx_next_advance is_key_char_def)
qed simp

section \<open>Lexers inside a line\<close>

text \<open>A lexer with an empty buffer at line \<open>n\<close> and column \<open>c\<close>.\<close>

definition at :: "nat \<Rightarrow> nat \<Rightarrow> token list \<Rightarrow> string \<Rightarrow> ssh_lexer" where
  "at n c toks input = \<lparr>lx_input = input, lx_buffer = '''', lx_tokens = toks, lx_line = n, lx_col = c,
     lx_end_line = n, lx_end_col = c\<rparr>"

definition tok :: "nat \<Rightarrow> nat \<Rightarrow> token_type \<Rightarrow> string \<Rightarrow> token" where
  "tok n c t v = \<lparr>tk_position = (n, c), tk_typ = t, tk_val = v\<rparr>"

lemma tok_sel [simp]: "tk_position (tok n c t v) = (n, c)" "tk_typ (tok n c t v) = t" "tk_val (tok n c t v) = v"
  by (simp_all add: tok_def)

lemma lx_input_at [simp]: "lx_input (at n c toks input) = input"
  by (simp add: at_def)

lemma peek_at [simp]: "lx_peek (at n c toks []) = None" "lx_peek (at n c toks (r # t)) = Some r"
  by (simp_all add: at_def lx_peek_def)

lemma skip_at [simp]:
  "r \<noteq> LF \<Longrightarrow> lx_skip (at n c toks (r # t)) = at n (Suc c) toks t"
  "lx_skip (at n c toks (LF # t)) = at (Suc n) 1 toks t"
  by (simp_all add: at_def lx_skip_def lx_next_def lx_read_def lx_peek_def lx_ignore_def Let_def)

lemma emit_at [simp]:
  "emit_with_value ty v (at n c toks input) = at n c (toks @ [tok n c ty v]) input"
  "lx_emit ty (at n c toks input) = at n c (toks @ [tok n c ty '''']) input"
  by (simp_all add: at_def emit_with_value_def lx_emit_def lx_ignore_def tok_def)

lemma emit_advance_at [simp]:
  "emit_with_value ty v (advance w (at n c toks (w @ t))) = at n (c + length w) (toks @ [tok n c ty v]) t"
  by (simp add: at_def emit_with_value_def advance_def lx_ignore_def tok_def)

lemma skip_spaces_void: "lex_void (at n c toks (spaces k @ t)) = lex_void (at n (c + k) toks t)"
proof (induction k arbitrary: c)
  case (Suc k)
  show ?case
    by (subst lex_void.simps) (simp add: is_space_def is_key_start_char_def Suc)
qed simp

lemma skip_spaces_equals: "lex_equals (at n c toks (spaces k @ t)) = lex_equals (at n (c + k) toks t)"
proof (induction k arbitrary: c)
  case (Suc k)
  show ?case
    by (subst lex_equals.simps) (simp add: is_space_def Suc)
qed simp

lemma skip_spaces_rspace: "lex_rspace (at n c toks (spaces k @ t)) = lex_rspace (at n (c + k) toks t)"
proof (induction k arbitrary: c)
  case (Suc k)
  show ?case
    by (subst lex_rspace.simps) (simp add: is_space_def Suc)
qed simp

section \<open>Lines\<close>

datatype separator = Equals_Sep nat nat | Space_Sep nat

datatype line =
    Blank nat
  | Comment_Line nat string
  | Value_Line nat string separator string "string option"

fun sep_text :: "separator \<Rightarrow> string" where
  "sep_text (Equals_Sep a b) = spaces a @ ''='' @ spaces b"
| "sep_text (Space_Sep m) = spaces m"

fun comment_text :: "string option \<Rightarrow> string" where
  "comment_text None = ''''"
| "comment_text (Some c) = ''#'' @ c"

fun line_text :: "line \<Rightarrow> string" where
  "line_text (Blank k) = spaces k"
| "line_text (Comment_Line k c) = spaces k @ ''#'' @ c"
| "line_text (Value_Line k ky sep v c) = spaces k @ ky @ sep_text sep @ v @ comment_text c"

definition wf_key :: "string \<Rightarrow> bool" where
  "wf_key ky \<longleftrightarrow> ky \<noteq> '''' \<and> plain_text ky \<and> CHR '' '' \<notin> set ky \<and> CHR ''='' \<notin> set ky \<and> hd ky \<noteq> CHR ''#''"

definition wf_value :: "string \<Rightarrow> bool" where
  "wf_value v \<longleftrightarrow> plain_text v \<and> CHR ''#'' \<notin> set v \<and> (v \<noteq> '''' \<longrightarrow> hd v \<noteq> CHR '' '')"

fun wf_sep :: "separator \<Rightarrow> string \<Rightarrow> string option \<Rightarrow> bool" where
  "wf_sep (Equals_Sep a b) v c = True"
| "wf_sep (Space_Sep m) v c = ((v \<noteq> '''' \<longrightarrow> hd v \<noteq> CHR ''='') \<and> (m = 0 \<longrightarrow> v = '''' \<and> c = None))"

fun wf_line :: "line \<Rightarrow> bool" where
  "wf_line (Blank k) = True"
| "wf_line (Comment_Line k c) = plain_text c"
| "wf_line (Value_Line k ky sep v c) =
     (wf_key ky \<and> wf_value v \<and> wf_sep sep v c \<and> (case c of None \<Rightarrow> True | Some c \<Rightarrow> plain_text c))"

fun sep_tokens :: "nat \<Rightarrow> nat \<Rightarrow> separator \<Rightarrow> token list" where
  "sep_tokens n c (Equals_Sep a b) = [tok n (c + a) Token_Equals '''']"
| "sep_tokens n c (Space_Sep m) = []"

fun line_tokens :: "nat \<Rightarrow> line \<Rightarrow> token list" where
  "line_tokens n (Blank k) = [tok n (Suc k) Token_Empty_Line '''']"
| "line_tokens n (Comment_Line k c) = [tok n (k + 2) Token_Comment c]"
| "line_tokens n (Value_Line k ky sep v c) =
     (let e = Suc k + length ky; vc = e + length (sep_text sep)
      in [tok n (Suc k) Token_Key ky] @ sep_tokens n e sep @ [tok n vc Token_String v]
         @ (case c of None \<Rightarrow> [] | Some c \<Rightarrow> [tok n (vc + length v + 1) Token_Comment c]))"

lemma lex_run_void_comment:
  assumes "plain_text w"
  shows "lex_run Lex_Comment (at n c toks (w @ LF # t)) = lex_run Lex_Void (at (Suc n) 1 (toks @ [tok n c Token_Comment w]) t)"
proof -
  have "lex_comment (at n c toks (w @ LF # t)) = (at (Suc n) 1 (toks @ [tok n c Token_Comment w]) t, Some Lex_Void)"
    using assms by (simp add: lex_comment_def comment_loop_run)
  then show ?thesis
    by (subst lex_run.simps) (simp add: lex_step_def)
qed

lemma lex_run_key:
  assumes ky: "wf_key ky" and t: "t \<noteq> []" "hd t \<in> {CHR '' '', CHR ''='', LF}"
  shows "lex_run Lex_Key (at n c toks (ky @ t)) = lex_run Lex_Equals (at n (c + length ky) (toks @ [tok n c Token_Key ky]) t)"
proof -
  obtain r t' where r: "t = r # t'" "r \<in> {CHR '' '', CHR ''='', LF}"
    using t by (cases t) auto
  have peek: "lx_peek (advance ky (at n c toks (ky @ t))) = Some r"
    using r by (simp add: lx_peek_def advance_def)
  have "lex_key (at n c toks (ky @ t)) = key_loop ky (advance ky (at n c toks (ky @ t)))"
    using ky key_loop_run[of "at n c toks (ky @ t)" ky t "''''"] by (simp add: lex_key_def wf_key_def)
  also have "\<dots> = (if r = CHR '' '' then (at n (Suc (c + length ky)) (toks @ [tok n c Token_Key ky]) t', Some Lex_Equals)
      else (at n (c + length ky) (toks @ [tok n c Token_Key ky]) t, Some Lex_Equals))"
    using r peek by (subst key_loop.simps) (auto simp: is_key_char_def is_space_def)
  finally have step: "lex_step Lex_Key (at n c toks (ky @ t)) = \<dots>"
    by (simp add: lex_step_def)
  have skip: "lex_equals (at n c' toks' (CHR '' '' # t')) = lex_equals (at n (Suc c') toks' t')" for c' toks'
    using skip_spaces_equals[of n c' toks' 1 t'] by simp
  show ?thesis
  proof (cases "r = CHR '' ''")
    case True
    have "lex_run Lex_Key (at n c toks (ky @ t)) = lex_run Lex_Equals (at n (Suc (c + length ky)) (toks @ [tok n c Token_Key ky]) t')"
      by (subst lex_run.simps) (simp add: step True)
    also have "\<dots> = lex_run Lex_Equals (at n (c + length ky) (toks @ [tok n c Token_Key ky]) t)"
      unfolding r(1) True by (subst (1 2) lex_run.simps) (simp add: lex_step_def skip)
    finally show ?thesis .
  next
    case False
    then show ?thesis
      by (subst lex_run.simps) (simp add: step)
  qed
qed

lemma lex_run_rvalue:
  assumes "wf_value v"
  shows "lex_run Lex_Rvalue (at n c toks (v @ LF # t)) = lex_run Lex_Void (at (Suc n) 1 (toks @ [tok n c Token_String v]) t)"
    and "lex_run Lex_Rvalue (at n c toks (v @ CHR ''#'' # t))
         = lex_run Lex_Comment (at n (Suc (c + length v)) (toks @ [tok n c Token_String v]) t)"
proof -
  have step: "lex_rvalue (at n c toks (v @ r # t)) = rvalue_loop v (advance v (at n c toks (v @ r # t)))" for r
    using assms rvalue_loop_run[of "at n c toks (v @ r # t)" v "r # t" "''''"] by (simp add: lex_rvalue_def wf_value_def)
  have peek: "lx_peek (advance v (at n c toks (v @ r # t))) = Some r" for r
    by (simp add: lx_peek_def advance_def)
  show "lex_run Lex_Rvalue (at n c toks (v @ LF # t)) = lex_run Lex_Void (at (Suc n) 1 (toks @ [tok n c Token_String v]) t)"
    by (subst lex_run.simps) (simp add: lex_step_def step peek rvalue_loop.simps[of v])
  show "lex_run Lex_Rvalue (at n c toks (v @ CHR ''#'' # t))
      = lex_run Lex_Comment (at n (Suc (c + length v)) (toks @ [tok n c Token_String v]) t)"
    by (subst lex_run.simps) (simp add: lex_step_def step peek rvalue_loop.simps[of v])
qed

lemma lex_run_equals:
  assumes sep: "wf_sep sep v c" and v: "wf_value v" and t: "t \<noteq> []" "hd t \<in> {CHR ''#'', LF}"
  shows "lex_run Lex_Equals (at n p toks (sep_text sep @ v @ t))
         = lex_run Lex_Rvalue (at n (p + length (sep_text sep)) (toks @ sep_tokens n p sep) (v @ t))"
proof -
  obtain r t' where r: "v @ t = r # t'" "\<not> is_space r"
    using t v is_space_plain by (cases v; cases t) (auto simp: wf_value_def is_space_def)
  have rspace: "lex_run Lex_Rspace (at n p toks (spaces b @ v @ t)) = lex_run Lex_Rvalue (at n (p + b) toks (v @ t))" for p b toks
    unfolding r(1) by (subst lex_run.simps) (simp add: lex_step_def skip_spaces_rspace lex_rspace.simps[of "at _ _ _ (_ # _)"] r(2))
  show ?thesis
  proof (cases sep)
    case (Equals_Sep a b)
    have "lex_step Lex_Equals (at n p toks (sep_text sep @ v @ t))
        = (at n (Suc (p + a)) (toks @ [tok n (p + a) Token_Equals '''']) (spaces b @ v @ t), Some Lex_Rspace)"
      by (simp add: Equals_Sep lex_step_def skip_spaces_equals lex_equals.simps[of "at _ _ _ (_ # _)"])
    then show ?thesis
      by (subst lex_run.simps) (simp add: rspace Equals_Sep ac_simps)
  next
    case (Space_Sep m)
    have "r \<noteq> CHR ''=''"
      using sep Space_Sep r(1) t by (cases v; cases t) auto
    then have "lex_step Lex_Equals (at n p toks (sep_text sep @ v @ t)) = (at n (p + m) toks (v @ t), Some Lex_Rvalue)"
      using r by (simp add: Space_Sep lex_step_def skip_spaces_equals lex_equals.simps[of "at _ _ _ (_ # _)"])
    then show ?thesis
      by (subst lex_run.simps) (simp add: Space_Sep)
  qed
qed

lemma lex_run_line:
  assumes "wf_line l"
  shows "lex_run Lex_Void (at n 1 toks (line_text l @ LF # t)) = lex_run Lex_Void (at (Suc n) 1 (toks @ line_tokens n l) t)"
proof (cases l)
  case (Blank k)
  have "lex_void (at n 1 toks (spaces k @ LF # t)) = lex_void (at (Suc n) 1 (toks @ [tok n (Suc k) Token_Empty_Line '''']) t)"
    unfolding skip_spaces_void by (subst lex_void.simps) simp
  then show ?thesis
    unfolding Blank by (subst (1 2) lex_run.simps) (simp add: lex_step_def)
next
  case (Comment_Line k c)
  have "lex_void (at n 1 toks (spaces k @ CHR ''#'' # c @ LF # t)) = (at n (k + 2) toks (c @ LF # t), Some Lex_Comment)"
    unfolding skip_spaces_void by (subst lex_void.simps) simp
  then show ?thesis
    using assms lex_run_void_comment[of c n "k + 2" toks t]
    by (subst lex_run.simps) (simp add: lex_step_def Comment_Line)
next
  case (Value_Line k ky sep v c)
  with assms have wf: "wf_key ky" "wf_value v" "wf_sep sep v c" "case c of None \<Rightarrow> True | Some c \<Rightarrow> plain_text c"
    by auto
  let ?rest = "comment_text c @ LF # t"
  have rest: "?rest \<noteq> []" "hd ?rest \<in> {CHR ''#'', LF}"
    by (cases c; simp)+
  obtain r ky' where ky: "ky = r # ky'"
    using wf(1) by (cases ky) (auto simp: wf_key_def)
  have "r \<noteq> CHR ''#''" "r \<noteq> CR" "r \<noteq> LF" "\<not> is_space r"
    using wf(1) is_space_plain plain_not_LF by (auto simp: ky wf_key_def)
  then have void: "lex_step Lex_Void (at n (Suc 0) toks (spaces k @ ky @ u)) = (at n (Suc k) toks (ky @ u), Some Lex_Key)" for u
    by (simp add: lex_step_def skip_spaces_void ky lex_void.simps[of "at _ _ _ (_ # _)"] is_key_start_char_def)
  have after: "sep_text sep @ v @ ?rest \<noteq> []" "hd (sep_text sep @ v @ ?rest) \<in> {CHR '' '', CHR ''='', LF}"
  proof -
    show "sep_text sep @ v @ ?rest \<noteq> []"
      using rest by simp
    show "hd (sep_text sep @ v @ ?rest) \<in> {CHR '' '', CHR ''='', LF}"
    proof (cases sep)
      case (Equals_Sep a b)
      then show ?thesis
        by (cases a) auto
    next
      case (Space_Sep m)
      then show ?thesis
        using wf(3) by (cases m) auto
    qed
  qed
  let ?p = "Suc k + length ky"
  have "lex_run Lex_Void (at n 1 toks (line_text l @ LF # t))
      = lex_run Lex_Key (at n (Suc k) toks (ky @ sep_text sep @ v @ ?rest))"
    by (subst lex_run.simps) (simp add: void Value_Line)
  also have "\<dots> = lex_run Lex_Equals (at n ?p (toks @ [tok n (Suc k) Token_Key ky]) (sep_text sep @ v @ ?rest))"
    by (rule lex_run_key[OF wf(1) after])
  also have "\<dots> = lex_run Lex_Rvalue (at n (?p + length (sep_text sep)) ((toks @ [tok n (Suc k) Token_Key ky]) @ sep_tokens n ?p sep) (v @ ?rest))"
    by (rule lex_run_equals[OF wf(3,2) rest])
  also have "\<dots> = lex_run Lex_Void (at (Suc n) 1 (toks @ line_tokens n l) t)"
    using wf(2,4) by (cases c) (simp_all add: Value_Line lex_run_rvalue lex_run_void_comment Let_def)
  finally show ?thesis .
qed

definition unlines :: "string list \<Rightarrow> string" where
  "unlines ws = concat (map (\<lambda>w. w @ [LF]) ws)"

lemma unlines_simps [simp]:
  "unlines [] = ''''" "unlines (w # ws) = w @ [LF] @ unlines ws" "unlines (vs @ ws) = unlines vs @ unlines ws"
  by (simp_all add: unlines_def)

fun lines_tokens :: "nat \<Rightarrow> line list \<Rightarrow> token list" where
  "lines_tokens n [] = [tok n 1 Token_EOF '''']"
| "lines_tokens n (l # ls) = line_tokens n l @ lines_tokens (Suc n) ls"

lemma lex_run_lines:
  "list_all wf_line ls \<Longrightarrow>
     lx_tokens (lex_run Lex_Void (at n 1 toks (unlines (map line_text ls)))) = toks @ lines_tokens n ls"
proof (induction ls arbitrary: n toks)
  case Nil
  have "lx_tokens (lex_run Lex_Void (at n 1 toks '''')) = toks @ [tok n 1 Token_EOF '''']"
    by (subst lex_run.simps)
      (simp add: lex_step_def lex_void.simps[of "at _ _ _ []"], simp add: at_def lx_emit_def lx_next_def lx_read_def emit_with_value_def lx_ignore_def tok_def lx_peek_def)
  then show ?case
    by (simp add: unlines_def)
next
  case (Cons l ls)
  then show ?case
    using lex_run_line[of l n toks "unlines (map line_text ls)"] by (simp add: unlines_def)
qed

text \<open>The tokens of a text are those of its lines.\<close>

lemma lex_ssh_lines:
  assumes "list_all wf_line ls"
  shows "lex_ssh (unlines (map line_text ls)) = lines_tokens 1 ls"
proof -
  have "init_lexer i = at 1 1 [] i" for i
    by (simp add: init_lexer_def at_def)
  then show ?thesis
    using lex_run_lines[OF assms, of 1 "[]"] by (simp add: lex_ssh_def)
qed

section \<open>Every line of a text\<close>

lemma spaces_split: obtains k w' where "w = spaces k @ w'" "w' \<noteq> '''' \<longrightarrow> hd w' \<noteq> CHR '' ''"
proof
  show "w = spaces (length (takeWhile (\<lambda>c. c = CHR '' '') w)) @ dropWhile (\<lambda>c. c = CHR '' '') w"
    by (induction w) auto
  show "dropWhile (\<lambda>c. c = CHR '' '') w \<noteq> '''' \<longrightarrow> hd (dropWhile (\<lambda>c. c = CHR '' '') w) \<noteq> CHR '' ''"
    using hd_dropWhile by blast
qed

lemma comment_split:
  assumes "plain_text w" "w \<noteq> '''' \<longrightarrow> hd w \<noteq> CHR '' ''"
  obtains v c where "w = v @ comment_text c" "wf_value v" "case c of None \<Rightarrow> True | Some c \<Rightarrow> plain_text c"
    "v = '''' \<longrightarrow> c = None \<longrightarrow> w = ''''"
proof (cases "CHR ''#'' \<in> set w")
  case True
  then obtain v c where w: "w = v @ CHR ''#'' # c" "CHR ''#'' \<notin> set v"
    using split_list_first by metis
  with assms have "wf_value v" "plain_text c"
    by (auto simp: wf_value_def)
  with w show ?thesis
    by (intro that[of v "Some c"]) simp_all
next
  case False
  with assms show ?thesis
    by (intro that[of w None]) (simp_all add: wf_value_def)
qed

text \<open>The first rune of the key of a line is not an equals sign.\<close>

definition keyed :: "string \<Rightarrow> bool" where
  "keyed w = (case dropWhile (\<lambda>c. c = CHR '' '') w of [] \<Rightarrow> True | c # _ \<Rightarrow> c \<noteq> CHR ''='')"

lemma keyed_spaces [simp]: "keyed (spaces k @ w) = keyed w"
  by (induction k) (auto simp: keyed_def)

lemma line_exists:
  assumes w: "plain_text w" "keyed w"
  shows "\<exists>l. wf_line l \<and> line_text l = w"
proof -
  obtain k w' where k: "w = spaces k @ w'" "w' \<noteq> '''' \<longrightarrow> hd w' \<noteq> CHR '' ''"
    by (rule spaces_split)
  have w': "plain_text w'" "keyed w'"
    using w k by simp_all
  consider "w' = ''''" | c where "w' = CHR ''#'' # c" | r u where "w' = r # u" "r \<noteq> CHR ''#''"
    by (cases w') auto
  then show ?thesis
  proof cases
    case 1
    then have "wf_line (Blank k) \<and> line_text (Blank k) = w"
      using k by simp
    then show ?thesis
      by blast
  next
    case (2 c)
    then have "wf_line (Comment_Line k c) \<and> line_text (Comment_Line k c) = w"
      using k w' by simp
    then show ?thesis
      by blast
  next
    case (3 r u)
    let ?stop = "\<lambda>c. c \<noteq> CHR '' '' \<and> c \<noteq> CHR ''=''"
    let ?ky = "takeWhile ?stop w'"
    have r: "r \<noteq> CHR '' ''" "r \<noteq> CHR ''=''"
      using k w' 3 by (auto simp: keyed_def)
    have ky: "wf_key ?ky"
      using r 3 w'(1) by (auto simp: wf_key_def plain_text_def list_all_iff dest: set_takeWhileD)
    let ?rest = "dropWhile ?stop w'"
    have rest: "plain_text ?rest" "?rest \<noteq> '''' \<longrightarrow> hd ?rest = CHR '' '' \<or> hd ?rest = CHR ''=''"
      using w'(1) hd_dropWhile[of ?stop w'] by (auto simp: plain_text_def list_all_iff dest: set_dropWhileD)
    obtain a t where a: "?rest = spaces a @ t" "t \<noteq> '''' \<longrightarrow> hd t \<noteq> CHR '' ''"
      by (rule spaces_split)
    have t: "plain_text t"
      using rest(1) a by simp
    have "\<exists>sep v c. ?rest = sep_text sep @ v @ comment_text c \<and> wf_value v \<and> wf_sep sep v c
        \<and> (case c of None \<Rightarrow> True | Some c \<Rightarrow> plain_text c)"
    proof (cases "t \<noteq> '''' \<and> hd t = CHR ''=''")
      case True
      then obtain t' where t': "t = CHR ''='' # t'"
        by (cases t) auto
      obtain b v' where b: "t' = spaces b @ v'" "v' \<noteq> '''' \<longrightarrow> hd v' \<noteq> CHR '' ''"
        by (rule spaces_split)
      moreover have "plain_text v'"
        using t t' b by simp
      ultimately obtain v c where "v' = v @ comment_text c" "wf_value v" "case c of None \<Rightarrow> True | Some c \<Rightarrow> plain_text c"
        using comment_split by metis
      with a t' b show ?thesis
        by (intro exI[of _ "Equals_Sep a b"] exI[of _ v] exI[of _ c]) simp
    next
      case False
      obtain v c where c: "t = v @ comment_text c" "wf_value v" "case c of None \<Rightarrow> True | Some c \<Rightarrow> plain_text c"
        "v = '''' \<longrightarrow> c = None \<longrightarrow> t = ''''"
        using comment_split[OF t a(2)] by metis
      have "t = ''''" if "a = 0"
        using a rest(2) that False by auto
      then have "wf_sep (Space_Sep a) v c"
        using c False by (cases c; cases v) auto
      with a c show ?thesis
        by (intro exI[of _ "Space_Sep a"] exI[of _ v] exI[of _ c]) simp
    qed
    then obtain sep v c where l: "?rest = sep_text sep @ v @ comment_text c"
      and wf: "wf_value v \<and> wf_sep sep v c \<and> (case c of None \<Rightarrow> True | Some c \<Rightarrow> plain_text c)"
      by blast
    have "line_text (Value_Line k ?ky sep v c) = spaces k @ ?ky @ ?rest"
      unfolding l by simp
    also have "\<dots> = w"
      unfolding takeWhile_dropWhile_id k(1) ..
    finally show ?thesis
      using wf ky by (intro exI[of _ "Value_Line k ?ky sep v c"]) simp
  qed
qed

lemma lines_exist:
  "list_all plain_text ws \<Longrightarrow> list_all keyed ws \<Longrightarrow> \<exists>ls. list_all wf_line ls \<and> map line_text ls = ws"
proof (induction ws)
  case (Cons w ws)
  then obtain l ls where "wf_line l" "line_text l = w" "list_all wf_line ls" "map line_text ls = ws"
    using line_exists[of w] by auto
  then have "list_all wf_line (l # ls) \<and> map line_text (l # ls) = w # ws"
    by simp
  then show ?case
    by (rule exI[of _ "l # ls"])
qed simp

section \<open>Parsing lines\<close>

fun sep_equals :: "separator \<Rightarrow> bool" where
  "sep_equals (Equals_Sep a b) = True"
| "sep_equals (Space_Sep m) = False"

fun value_tok :: "nat \<Rightarrow> line \<Rightarrow> token" where
  "value_tok n (Value_Line k ky sep v c) = tok n (Suc k + length ky + length (sep_text sep)) Token_String v"
| "value_tok n l = tok n 1 Token_EOF ''''"

text \<open>What a line adds to the configuration.\<close>

fun line_config :: "include_fun \<Rightarrow> nat \<Rightarrow> line \<Rightarrow> ssh_config \<Rightarrow> ssh_config outcome" where
  "line_config inc n (Blank k) cfg =
     append_node (Empty \<lparr>el_comment = '''', el_leading_space = int k - 1, el_position = (n, Suc k)\<rparr>) cfg"
| "line_config inc n (Comment_Line k c) cfg =
     append_node (Empty \<lparr>el_comment = c, el_leading_space = int k, el_position = (n, k + 2)\<rparr>) cfg"
| "line_config inc n (Value_Line k ky sep v c) cfg =
     parse_line inc (tok n (Suc k) Token_Key ky) (sep_equals sep) (value_tok n (Value_Line k ky sep v c))
       (case c of None \<Rightarrow> '''' | Some c \<Rightarrow> c) cfg"

fun lines_config :: "include_fun \<Rightarrow> nat \<Rightarrow> line list \<Rightarrow> ssh_config \<Rightarrow> ssh_config outcome" where
  "lines_config inc n [] cfg = Done cfg"
| "lines_config inc n (l # ls) cfg = and_then (line_config inc n l cfg) (lines_config inc (Suc n) ls)"

lemma lines_tokens_later:
  "\<exists>t ts. lines_tokens n ls = t # ts \<and> n \<le> fst (tk_position t)"
proof (cases ls)
  case (Cons l ls')
  then show ?thesis
    by (cases l) (auto simp: Let_def)
qed simp

lemma eol_comment_next_line:
  "fst (tk_position v) < n \<Longrightarrow> eol_comment v (lines_tokens n ls) = ('''', lines_tokens n ls)"
  using lines_tokens_later[of n ls] by (auto simp: eol_comment_def)

lemma and_then_cases:
  "and_then (and_then r (\<lambda>x. Done (t, x))) f = (case r of Done x \<Rightarrow> f (t, x) | Failed e \<Rightarrow> Failed e | Panicked \<Rightarrow> Panicked)"
  by (cases r) auto

lemma parse_start_lines:
  "parse_start inc (lines_tokens n ls) cfg = lines_config inc n ls cfg"
proof (induction ls arbitrary: n cfg)
  case Nil
  then show ?case
    by (subst parse_start.simps) simp
next
  case (Cons l ls)
  show ?case
  proof (cases l)
    case (Blank k)
    then show ?thesis
      by (subst parse_start.simps) (simp add: parse_comment_def append_node_def Cons.IH)
  next
    case (Comment_Line k c)
    then show ?thesis
      by (subst parse_start.simps) (simp add: parse_comment_def append_node_def Cons.IH)
  next
    case (Value_Line k ky sep v c)
    let ?v = "value_tok n l"
    let ?c = "case c of None \<Rightarrow> '''' | Some c \<Rightarrow> c"
    let ?line = "parse_line inc (tok n (Suc k) Token_Key ky) (sep_equals sep) ?v ?c cfg"
    obtain ts where ts: "lines_tokens n (l # ls) = tok n (Suc k) Token_Key ky # ts"
      "value_token ts = Done (sep_equals sep, ?v, (case c of None \<Rightarrow> [] | Some c' \<Rightarrow>
         [tok n (Suc k + length ky + length (sep_text sep) + length v + 1) Token_Comment c']) @ lines_tokens (Suc n) ls)"
      by (cases sep; cases c) (simp_all add: Value_Line Let_def value_token_def)
    have eol: "eol_comment ?v ((case c of None \<Rightarrow> [] | Some c' \<Rightarrow>
         [tok n (Suc k + length ky + length (sep_text sep) + length v + 1) Token_Comment c']) @ lines_tokens (Suc n) ls)
         = (?c, lines_tokens (Suc n) ls)"
      by (cases c) (simp_all add: Value_Line eol_comment_next_line, simp add: eol_comment_def)
    have "parse_kv inc (lines_tokens n (l # ls)) cfg = and_then ?line (\<lambda>cfg. Done (lines_tokens (Suc n) ls, cfg))"
      unfolding ts(1) parse_kv_def by (simp add: ts(2) eol)
    then show ?thesis
      using ts(1) Cons.IH by (subst parse_start.simps) (cases ?line, simp_all add: Value_Line)
  qed
qed

end
