(* ===== verification/Ssh_Roundtrip.thy ===== *)
theory Ssh_Roundtrip
  imports Ssh_Lines
begin

text \<open>
  Printing a configuration and reading it back: the lines a configuration is printed as, what the
  parser makes of them, and that the configurations the parser yields are of the printable form.
\<close>

section \<open>White space in plain texts\<close>

lemma space_len_plain:
  assumes "plain c" "\<forall>w \<in> set ws. w \<noteq> [] \<and> \<not> plain (hd w)"
  shows "space_len ws (c # t) = (if c = CHR '' '' then 1 else 0)"
proof -
  have "\<not> has_prefix (c # t) w" if "w \<in> set ws" for w
  proof -
    have "w \<noteq> []" "\<not> plain (hd w)"
      using that assms(2) by auto
    then show ?thesis
      using assms(1) by (cases w) (auto simp: has_prefix_iff)
  qed
  then have "find (has_prefix (c # t)) ws = None"
    by (simp add: find_None_iff)
  moreover have "ascii_space c \<longleftrightarrow> c = CHR '' ''"
    using assms(1) by (auto simp: ascii_space_def plain_def)
  ultimately show ?thesis
    by (simp add: space_len_def)
qed

lemma wide_spaces_not_plain:
  "\<forall>w \<in> set wide_spaces. w \<noteq> [] \<and> \<not> plain (hd w)"
  "\<forall>w \<in> set (map rev wide_spaces). w \<noteq> [] \<and> \<not> plain (hd w)"
  by (simp_all add: wide_spaces_def plain_def)

lemma trim_left_spaces:
  assumes "\<forall>w \<in> set ws. w \<noteq> [] \<and> \<not> plain (hd w)" "plain_text v" "v \<noteq> '''' \<longrightarrow> hd v \<noteq> CHR '' ''"
  shows "trim_left_with ws (spaces m @ v) = v"
proof (induction m)
  case 0
  have "space_len ws v = 0"
    using assms space_len_plain[of "hd v" ws "tl v"] by (cases v) (auto simp: space_len_def)
  then show ?case
    by (subst trim_left_with.simps) simp
next
  case (Suc m)
  then show ?case
    using assms(1) by (subst trim_left_with.simps) (simp add: space_len_plain)
qed

lemma trim_right_spaces:
  assumes "plain_text v" "v \<noteq> '''' \<longrightarrow> last v \<noteq> CHR '' ''"
  shows "trim_right (v @ spaces m) = v"
proof -
  have "plain_text (rev v)"
    using assms by (simp add: plain_text_def)
  then show ?thesis
    using assms trim_left_spaces[OF wide_spaces_not_plain(2), of "rev v" m] by (simp add: trim_right_def hd_rev)
qed

definition word :: "string \<Rightarrow> bool" where
  "word w \<longleftrightarrow> w \<noteq> '''' \<and> plain_text w \<and> CHR '' '' \<notin> set w"

lemma fields_from_word:
  "plain_text w \<Longrightarrow> CHR '' '' \<notin> set w \<Longrightarrow> fields_from cur (w @ t) = fields_from (rev w @ cur) t"
proof (induction w arbitrary: cur)
  case (Cons c w)
  then show ?case
    by (subst fields_from.simps) (auto simp: space_len_plain[OF _ wide_spaces_not_plain(1)])
qed simp

lemma fields_from_space: "fields_from cur (CHR '' '' # t) = (if cur = [] then [] else [rev cur]) @ fields_from [] t"
  by (subst fields_from.simps) (simp add: space_len_plain[OF _ wide_spaces_not_plain(1)])

lemma fields_join: "list_all word ws \<Longrightarrow> Go_Base.fields (join_with '' '' ws) = ws"
proof (induction ws)
  case Nil
  then show ?case
    by (simp add: Go_Base.fields_def fields_from.simps[of "''''"])
next
  case (Cons w ws)
  then have w: "word w" "w \<noteq> []"
    by (auto simp: word_def)
  then have from_w: "fields_from [] (w @ t) = fields_from (rev w) t" for t
    by (simp add: word_def fields_from_word)
  show ?case
  proof (cases ws)
    case Nil
    have "fields_from (rev w) [] = [w]"
      using w by (subst fields_from.simps) simp
    with Nil from_w[of "[]"] show ?thesis
      by (simp add: Go_Base.fields_def)
  next
    case (Cons w' ws')
    have "Go_Base.fields (join_with '' '' (w # ws)) = fields_from (rev w) (CHR '' '' # join_with '' '' ws)"
      using Cons by (simp add: Go_Base.fields_def from_w join_with_Cons)
    also have "\<dots> = w # Go_Base.fields (join_with '' '' ws)"
      using w by (simp add: fields_from_space Go_Base.fields_def)
    finally show ?thesis
      using Cons.IH Cons.prems by simp
  qed
qed

section \<open>The lines of a configuration\<close>

fun wider :: "nat \<Rightarrow> separator \<Rightarrow> separator" where
  "wider m (Equals_Sep a b) = Equals_Sep a (b + m)"
| "wider m (Space_Sep a) = Space_Sep (a + m)"

definition printed_sep :: "bool \<Rightarrow> separator" where
  "printed_sep he = (if he then Equals_Sep 1 1 else Space_Sep 1)"

definition padding :: "string \<Rightarrow> string \<Rightarrow> string" where
  "padding space c = (if c \<noteq> '''' then (if space \<noteq> '''' then space else '' '') else space)"

definition text_line :: "nat \<Rightarrow> string \<Rightarrow> bool \<Rightarrow> string \<Rightarrow> string \<Rightarrow> string \<Rightarrow> line" where
  "text_line lead ky he v space c =
     (let cm = (if c = '''' then None else Some c)
      in if v = '''' then Value_Line lead ky (wider (length (padding space c)) (printed_sep he)) '''' cm
         else Value_Line lead ky (printed_sep he) (v @ padding space c) cm)"

definition blanks :: "string \<Rightarrow> bool" where
  "blanks s \<longleftrightarrow> s = spaces (length s)"

lemma blanks_spaces [simp]: "blanks (spaces m)" "blanks ''''" "blanks '' ''"
  by (simp_all add: blanks_def)

lemma blanks_padding: "blanks space \<Longrightarrow> blanks (padding space c)"
  by (simp add: padding_def)

lemma sep_text_printed [simp]:
  "sep_text (printed_sep he) = equals_sign he"
  "sep_text (wider m (printed_sep he)) = equals_sign he @ spaces m"
proof -
  show "sep_text (printed_sep he) = equals_sign he"
    by (simp add: printed_sep_def equals_sign_def)
  have "CHR '' '' # spaces m = spaces m @ '' ''"
    using replicate_append_same[of m "CHR '' ''"] by simp
  then show "sep_text (wider m (printed_sep he)) = equals_sign he @ spaces m"
    by (simp add: printed_sep_def equals_sign_def)
qed

lemma line_text_text_line:
  assumes "blanks space"
  shows "line_text (text_line lead ky he v space c)
         = spaces lead @ ky @ equals_sign he @ v @ padding space c @ (if c \<noteq> '''' then ''#'' @ c else '''')"
proof -
  have "spaces (length (padding space c)) = padding space c"
    using blanks_padding[OF assms] by (simp add: blanks_def)
  then show ?thesis
    by (simp add: text_line_def Let_def)
qed

definition wf_text :: "bool \<Rightarrow> string \<Rightarrow> bool" where
  "wf_text he v \<longleftrightarrow> wf_value v \<and> (he \<or> v = '''' \<or> hd v \<noteq> CHR ''='')"

lemma wf_text_line:
  assumes "wf_key ky" "wf_text he v" "blanks space" "plain_text c"
  shows "wf_line (text_line lead ky he v space c)"
proof -
  obtain m where m: "padding space c = spaces m"
    using blanks_padding[OF assms(3)] unfolding blanks_def by blast
  have "wf_value (v @ spaces m)" if "v \<noteq> ''''"
    using assms(2) that by (auto simp: wf_text_def wf_value_def)
  then show ?thesis
    using assms by (cases he) (auto simp: text_line_def Let_def m wf_text_def printed_sep_def wf_value_def)
qed

text \<open>What the parser reads from such a line.\<close>

definition read_value :: "string \<Rightarrow> string \<Rightarrow> string \<Rightarrow> string" where
  "read_value v space c = (if v = '''' then '''' else v @ padding space c)"

lemma line_config_text_line:
  "\<exists>col. line_config inc n (text_line lead ky he v space c) cfg =
     parse_line inc (tok n (Suc lead) Token_Key ky) he (tok n col Token_String (read_value v space c)) c cfg"
  by (cases he) (auto simp: text_line_def Let_def read_value_def printed_sep_def)

section \<open>Printable configurations\<close>

definition block_words :: "string list" where
  "block_words = [''match'', ''host'', ''include'']"

definition wf_kv :: "kv \<Rightarrow> bool" where
  "wf_kv k \<longleftrightarrow> wf_key (kv_key k) \<and> to_lower (kv_key k) \<notin> set block_words
     \<and> wf_text (kv_has_equals k) (kv_raw_value k) \<and> (kv_raw_value k \<noteq> '''' \<longrightarrow> last (kv_raw_value k) \<noteq> CHR '' '')
     \<and> kv_value k = unquoted (kv_raw_value k) \<and> blanks (kv_space_after_value k) \<and> plain_text (kv_comment k)
     \<and> (kv_raw_value k = '''' \<longrightarrow> kv_space_after_value k = '''')"

definition wf_empty :: "empty_line \<Rightarrow> bool" where
  "wf_empty e \<longleftrightarrow> plain_text (el_comment e) \<and> (el_comment e \<noteq> '''' \<longrightarrow> 0 \<le> el_leading_space e)"

text \<open>An included line without a comment whose files are those the directives name.\<close>

definition wf_include :: "include_fun \<Rightarrow> include_info \<Rightarrow> (string \<times> host list) list \<Rightarrow> bool" where
  "wf_include inc i files \<longleftrightarrow> in_comment i = '''' \<and> in_directives i \<noteq> []
     \<and> (\<forall>d \<in> set (in_directives i). CHR '' '' \<notin> set d)
     \<and> wf_text (in_has_equals i) (join_with '' '' (in_directives i))
     \<and> inc (in_directives i) (in_has_equals i) (in_position i) '''' = Done (Include i files)"

fun wf_node :: "include_fun \<Rightarrow> node \<Rightarrow> bool" where
  "wf_node inc (KV k) = wf_kv k"
| "wf_node inc (Empty e) = wf_empty e"
| "wf_node inc (Include i files) = wf_include inc i files"

definition wf_pattern :: "pattern \<Rightarrow> bool" where
  "wf_pattern p \<longleftrightarrow> word (pattern_string p) \<and> CHR ''#'' \<notin> set (pattern_string p)
     \<and> (pt_not p \<or> hd (pt_str p) \<noteq> CHR ''!'')"

definition patterns_text :: "host_info \<Rightarrow> string" where
  "patterns_text h = join_with '' '' (map pattern_string (hi_patterns h))"

definition wf_host_head :: "host_info \<Rightarrow> bool" where
  "wf_host_head h \<longleftrightarrow> list_all wf_pattern (hi_patterns h) \<and> wf_text (hi_has_equals h) (patterns_text h)
     \<and> hi_match_keyword h = '''' \<and> hi_match_raw h = ''''
     \<and> (hi_patterns h = [] \<longrightarrow> hi_space_before_comment h = '''')"

text \<open>A \<open>Match\<close> line with one criterion: \<open>all\<close>, or a keyword and patterns.\<close>

definition wf_match_head :: "host_info \<Rightarrow> bool" where
  "wf_match_head h \<longleftrightarrow> word (hi_match_keyword h)
     \<and> (if to_lower (hi_match_keyword h) = ''all''
        then hi_patterns h = [match_all] \<and> Go_Base.fields (hi_match_raw h) = [hi_match_keyword h]
        else to_lower (hi_match_keyword h) \<in> {''host'', ''originalhost'', ''user'', ''localuser''}
             \<and> hi_patterns h \<noteq> [] \<and> list_all wf_pattern (hi_patterns h)
             \<and> (\<forall>p \<in> set (hi_patterns h). to_lower (pattern_string p) \<notin> set skipped_match_words)
             \<and> Go_Base.fields (hi_match_raw h) = hi_match_keyword h # map pattern_string (hi_patterns h))"

definition wf_head :: "host_info \<Rightarrow> bool" where
  "wf_head h \<longleftrightarrow> \<not> hi_implicit h \<and> hi_leading_space h = 0 \<and> plain_text (hi_eol_comment h)
     \<and> blanks (hi_space_before_comment h)
     \<and> (if hi_is_match h then wf_match_head h else wf_host_head h)"

definition wf_host :: "include_fun \<Rightarrow> host \<Rightarrow> bool" where
  "wf_host inc h \<longleftrightarrow> wf_head (host_head h) \<and> list_all (wf_node inc) (host_nodes h)"

definition wf_config :: "include_fun \<Rightarrow> ssh_config \<Rightarrow> bool" where
  "wf_config inc c \<longleftrightarrow> c \<noteq> [] \<and> host_head (hd c) = implicit_host \<and> list_all (wf_node inc) (host_nodes (hd c))
     \<and> list_all (wf_host inc) (tl c)"

section \<open>Equal up to positions and spacing\<close>

text \<open>Equal fields but for the position, and the same printed text.\<close>

definition same_kv :: "kv \<Rightarrow> kv \<Rightarrow> bool" where
  "same_kv k k' \<longleftrightarrow> kv_key k' = kv_key k \<and> kv_value k' = kv_value k \<and> kv_raw_value k' = kv_raw_value k
     \<and> kv_comment k' = kv_comment k \<and> kv_has_equals k' = kv_has_equals k \<and> kv_leading_space k' = kv_leading_space k
     \<and> kv_string k' = kv_string k"

definition same_empty :: "empty_line \<Rightarrow> empty_line \<Rightarrow> bool" where
  "same_empty e e' \<longleftrightarrow> el_comment e' = el_comment e \<and> empty_string e' = empty_string e"

fun same_node :: "node \<Rightarrow> node \<Rightarrow> bool" where
  "same_node (KV k) n = (\<exists>k'. n = KV k' \<and> same_kv k k')"
| "same_node (Empty e) n = (\<exists>e'. n = Empty e' \<and> same_empty e e')"
| "same_node (Include i files) n = (\<exists>p. n = Include (i\<lparr>in_position := p\<rparr>) files)"

definition same_head :: "host_info \<Rightarrow> host_info \<Rightarrow> bool" where
  "same_head h h' \<longleftrightarrow> hi_patterns h' = hi_patterns h \<and> hi_eol_comment h' = hi_eol_comment h
     \<and> hi_has_equals h' = hi_has_equals h \<and> hi_implicit h' = hi_implicit h \<and> hi_is_match h' = hi_is_match h
     \<and> hi_match_keyword h' = hi_match_keyword h \<and> Go_Base.fields (hi_match_raw h') = Go_Base.fields (hi_match_raw h)
     \<and> head_string h' = head_string h"

definition same_host :: "host \<Rightarrow> host \<Rightarrow> bool" where
  "same_host h h' \<longleftrightarrow> same_head (host_head h) (host_head h') \<and> list_all2 same_node (host_nodes h) (host_nodes h')"

abbreviation same_config :: "ssh_config \<Rightarrow> ssh_config \<Rightarrow> bool" where
  "same_config \<equiv> list_all2 same_host"

lemma same_node_string: "same_node n n' \<Longrightarrow> node_string n' = node_string n"
  by (cases n) (auto simp: same_kv_def same_empty_def include_string_def Let_def)

lemma same_config_string: "same_config c c' \<Longrightarrow> config_string c' = config_string c"
proof (induction rule: list_all2_induct)
  case (Cons h hs h' hs')
  have "concat (map (\<lambda>n. node_string n @ [LF]) ns') = concat (map (\<lambda>n. node_string n @ [LF]) ns)"
    if "list_all2 same_node ns ns'" for ns ns'
    using that by (induction rule: list_all2_induct) (simp_all add: same_node_string)
  with Cons show ?case
    by (simp add: config_string_def host_string_def same_host_def same_head_def)
qed simp

text \<open>The lookups of both are the same.\<close>

lemma same_head_matches: "same_head h h' \<Longrightarrow> matches_context h' x = matches_context h x"
  by (simp add: same_head_def matches_context_def host_matches_def evaluate_match_def)

lemma same_get_nodes: "list_all2 same_node ns ns' \<Longrightarrow> get_nodes lu alias key ns' x = get_nodes lu alias key ns x"
proof (induction arbitrary: x rule: list_all2_induct)
  case (Cons n ns n' ns')
  then show ?case
    by (cases n) (auto simp: same_kv_def Let_def)
qed simp

lemma same_get_all_nodes:
  "list_all2 same_node ns ns' \<Longrightarrow> get_all_nodes lu alias key ns' x = get_all_nodes lu alias key ns x"
proof (induction arbitrary: x rule: list_all2_induct)
  case (Cons n ns n' ns')
  then show ?case
    by (cases n) (auto simp: same_kv_def Let_def case_prod_beta)
qed simp

lemma same_host_cases:
  assumes "same_host h h'"
  obtains i ns i' ns' where "h = Host i ns" "h' = Host i' ns'" "same_head i i'" "list_all2 same_node ns ns'"
  using assms by (cases h; cases h') (auto simp: same_host_def)

lemma same_get_hosts: "same_config c c' \<Longrightarrow> get_hosts lu alias key c' x = get_hosts lu alias key c x"
proof (induction arbitrary: x rule: list_all2_induct)
  case (Cons h hs h' hs')
  from Cons(1) show ?case
    by (rule same_host_cases) (simp add: same_head_matches same_get_nodes Cons.IH cong: option.case_cong prod.case_cong)
qed simp

lemma same_get_all_hosts: "same_config c c' \<Longrightarrow> get_all_hosts lu alias key c' x = get_all_hosts lu alias key c x"
proof (induction arbitrary: x rule: list_all2_induct)
  case (Cons h hs h' hs')
  from Cons(1) show ?case
    by (rule same_host_cases) (simp add: same_head_matches same_get_all_nodes Cons.IH)
qed simp

lemma same_config_lookups:
  "same_config c c' \<Longrightarrow> config_get lu c' alias key = config_get lu c alias key
     \<and> config_get_all lu c' alias key = config_get_all lu c alias key"
  by (simp add: config_get_def config_get_all_def same_get_hosts same_get_all_hosts)

section \<open>The lines it is printed as\<close>

fun node_line :: "node \<Rightarrow> line" where
  "node_line (KV k) = text_line (kv_leading_space k) (kv_key k) (kv_has_equals k) (kv_raw_value k)
     (kv_space_after_value k) (kv_comment k)"
| "node_line (Empty e) = (if el_comment e = '''' then Blank 0 else Comment_Line (nat (el_leading_space e)) (el_comment e))"
| "node_line (Include i files) = text_line (in_leading_space i) ''Include'' (in_has_equals i)
     (join_with '' '' (in_directives i)) '''' ''''"

definition head_words :: "host_info \<Rightarrow> string list" where
  "head_words h =
     (if hi_is_match h \<and> to_lower (hi_match_keyword h) = ''all'' then [hi_match_keyword h]
      else if hi_is_match h then hi_match_keyword h # map pattern_string (hi_patterns h)
      else map pattern_string (hi_patterns h))"

definition head_line :: "host_info \<Rightarrow> line" where
  "head_line h = text_line 0 (if hi_is_match h then ''Match'' else ''Host'') (hi_has_equals h)
     (join_with '' '' (head_words h)) (if hi_eol_comment h = '''' then '''' else hi_space_before_comment h) (hi_eol_comment h)"

definition host_lines :: "host \<Rightarrow> line list" where
  "host_lines h = (if hi_implicit (host_head h) then [] else [head_line (host_head h)]) @ map node_line (host_nodes h)"

definition config_lines :: "ssh_config \<Rightarrow> line list" where
  "config_lines c = concat (map host_lines c)"

lemma wf_key_words [simp]: "wf_key ''Include''" "wf_key ''Host''" "wf_key ''Match''"
  by (simp_all add: wf_key_def plain_def)

lemma wf_node_line:
  assumes "wf_node inc n"
  shows "wf_line (node_line n)" "line_text (node_line n) = node_string n"
proof -
  show "wf_line (node_line n)"
    using assms by (cases n) (auto simp: wf_kv_def wf_empty_def wf_include_def intro!: wf_text_line)
  show "line_text (node_line n) = node_string n"
  proof (cases n)
    case (KV k)
    with assms have "blanks (kv_space_after_value k)" "kv_raw_value k = '''' \<longrightarrow> kv_value k = ''''"
      by (auto simp: wf_kv_def unquoted_def)
    then show ?thesis
      using KV by (simp add: line_text_text_line kv_string_def padding_def Let_def)
  next
    case (Empty e)
    then show ?thesis
      by (simp add: empty_string_def)
  next
    case (Include i files)
    then show ?thesis
      using assms by (simp add: line_text_text_line include_string_def wf_include_def padding_def Let_def)
  qed
qed

lemma wf_value_join:
  assumes "list_all word ws" "\<forall>w \<in> set ws. CHR ''#'' \<notin> set w"
  shows "wf_value (join_with '' '' ws)" "join_with '' '' ws \<noteq> '''' \<longrightarrow> last (join_with '' '' ws) \<noteq> CHR '' ''"
    "join_with '' '' ws = '''' \<longleftrightarrow> ws = []"
    "ws \<noteq> [] \<longrightarrow> hd (join_with '' '' ws) = hd (hd ws)"
proof -
  have "wf_value (join_with '' '' ws) \<and> (ws \<noteq> [] \<longrightarrow> join_with '' '' ws \<noteq> ''''
      \<and> last (join_with '' '' ws) \<noteq> CHR '' '' \<and> hd (join_with '' '' ws) = hd (hd ws))"
    using assms
  proof (induction ws)
    case Nil
    then show ?case
      by (simp add: wf_value_def)
  next
    case (Cons w ws)
    then have w: "w \<noteq> ''''" "plain_text w" "CHR '' '' \<notin> set w" "CHR ''#'' \<notin> set w"
      by (simp_all add: word_def)
    then have ends: "last w \<noteq> CHR '' ''" "hd w \<noteq> CHR '' ''"
      using last_in_set[of w] list.set_sel(1)[of w] by metis+
    show ?case
    proof (cases ws)
      case Nil
      then show ?thesis
        using w ends by (simp add: wf_value_def)
    next
      case (Cons w' ws')
      have "wf_value (join_with '' '' ws) \<and> join_with '' '' ws \<noteq> '''' \<and> last (join_with '' '' ws) \<noteq> CHR '' ''"
        using Cons.IH Cons.prems Cons by simp
      then show ?thesis
        using w ends Cons by (simp add: join_with_Cons wf_value_def)
    qed
  qed
  then show "wf_value (join_with '' '' ws)" "join_with '' '' ws \<noteq> '''' \<longrightarrow> last (join_with '' '' ws) \<noteq> CHR '' ''"
    "join_with '' '' ws = '''' \<longleftrightarrow> ws = []" "ws \<noteq> [] \<longrightarrow> hd (join_with '' '' ws) = hd (hd ws)"
    by (cases ws; auto)+
qed

lemma wf_head_words:
  assumes "wf_head h"
  shows "list_all word (head_words h)" "\<forall>w \<in> set (head_words h). CHR ''#'' \<notin> set w"
    "wf_text (hi_has_equals h) (join_with '' '' (head_words h))"
proof -
  have keyword: "CHR ''#'' \<notin> set (hi_match_keyword h) \<and> hd (hi_match_keyword h) \<noteq> CHR ''=''" if m: "hi_is_match h"
  proof -
    have low: "to_lower (hi_match_keyword h) \<in> {''all'', ''host'', ''originalhost'', ''user'', ''localuser''}"
      using assms m by (auto simp: wf_head_def wf_match_head_def split: if_splits)
    have lower: "lower_char c = c" if "c = CHR ''#'' \<or> c = CHR ''=''" for c
      using that by (auto simp: lower_char_def)
    have "c \<notin> set (hi_match_keyword h)" if "c = CHR ''#'' \<or> c = CHR ''=''" for c
    proof
      assume "c \<in> set (hi_match_keyword h)"
      then have "lower_char c \<in> set (to_lower (hi_match_keyword h))"
        by (simp add: to_lower_def)
      then show False
        using low that lower[OF that] by auto
    qed
    moreover have "hi_match_keyword h \<noteq> ''''"
      using low by (auto simp: to_lower_def)
    ultimately show ?thesis
      by (metis list.set_sel(1))
  qed
  have pats: "list_all wf_pattern ps \<Longrightarrow> list_all word (map pattern_string ps) \<and> (\<forall>p \<in> set ps. CHR ''#'' \<notin> set (pattern_string p))" for ps
    by (auto simp: list_all_iff wf_pattern_def)
  show words: "list_all word (head_words h)" "\<forall>w \<in> set (head_words h). CHR ''#'' \<notin> set w"
    using assms keyword pats[of "hi_patterns h"]
    by (auto simp: wf_head_def wf_match_head_def wf_host_head_def head_words_def split: if_splits)
  show "wf_text (hi_has_equals h) (join_with '' '' (head_words h))"
  proof (cases "hi_is_match h")
    case True
    then show ?thesis
      using wf_value_join[OF words] keyword by (auto simp: wf_text_def head_words_def)
  next
    case False
    then show ?thesis
      using assms by (simp add: head_words_def wf_head_def wf_host_head_def patterns_text_def)
  qed
qed

lemma wf_head_line:
  assumes "wf_head h"
  shows "wf_line (head_line h)" "line_text (head_line h) @ [LF] = head_string h"
proof -
  show "wf_line (head_line h)"
    unfolding head_line_def using assms wf_head_words(3)[OF assms]
    by (intro wf_text_line) (auto simp: wf_head_def)
  have joined: "join_with '' '' (head_words h) =
     (if hi_is_match h then hi_match_keyword h @ (if to_lower (hi_match_keyword h) \<noteq> ''all''
        then '' '' @ join_with '' '' (map pattern_string (hi_patterns h)) else '''')
      else join_with '' '' (map pattern_string (hi_patterns h)))"
    using assms by (auto simp: head_words_def wf_head_def wf_match_head_def join_with_Cons)
  have "blanks (if hi_eol_comment h = '''' then '''' else hi_space_before_comment h)"
    using assms by (simp add: wf_head_def)
  then show "line_text (head_line h) @ [LF] = head_string h"
    using assms by (simp add: head_line_def line_text_text_line joined head_string_def padding_def wf_head_def)
qed

lemma wf_host_lines:
  assumes "wf_host inc h \<or> host_head h = implicit_host \<and> list_all (wf_node inc) (host_nodes h)"
  shows "list_all wf_line (host_lines h)" "unlines (map line_text (host_lines h)) = host_string h"
proof -
  have nodes: "list_all (wf_node inc) (host_nodes h)"
    using assms by (auto simp: wf_host_def)
  then have "list_all wf_line (map node_line (host_nodes h))"
    by (auto simp: list_all_iff wf_node_line)
  moreover have "unlines (map line_text (map node_line ns)) = concat (map (\<lambda>n. node_string n @ [LF]) ns)"
    if "list_all (wf_node inc) ns" for ns
    using that by (induction ns) (auto simp: wf_node_line)
  ultimately show "list_all wf_line (host_lines h)" "unlines (map line_text (host_lines h)) = host_string h"
    using assms nodes wf_head_line[of "host_head h"]
    by (auto simp: host_lines_def host_string_def wf_host_def wf_head_def implicit_host_def)
qed

lemma wf_config_lines:
  assumes "wf_config inc c"
  shows "list_all wf_line (config_lines c)" "unlines (map line_text (config_lines c)) = config_string c"
proof -
  have hosts: "\<forall>h \<in> set c. wf_host inc h \<or> host_head h = implicit_host \<and> list_all (wf_node inc) (host_nodes h)"
    using assms by (cases c) (auto simp: wf_config_def list_all_iff)
  show "list_all wf_line (config_lines c)"
    using hosts wf_host_lines(1)[unfolded list_all_iff] unfolding config_lines_def list_all_iff by auto blast
  have "unlines (map line_text (concat (map host_lines hs))) = concat (map host_string hs)"
    if "\<forall>h \<in> set hs. wf_host inc h \<or> host_head h = implicit_host \<and> list_all (wf_node inc) (host_nodes h)" for hs
    using that
  proof (induction hs)
    case (Cons h hs)
    then have "unlines (map line_text (host_lines h)) = host_string h"
      by (intro wf_host_lines(2)[of inc]) simp
    with Cons show ?case
      by simp
  qed simp
  with hosts show "unlines (map line_text (config_lines c)) = config_string c"
    by (simp add: config_lines_def config_string_def)
qed

section \<open>Reading the lines back\<close>

text \<open>An include answers with the same files wherever the line stands.\<close>

definition movable :: "include_fun \<Rightarrow> bool" where
  "movable inc \<longleftrightarrow> (\<forall>ds he p p' c i files. inc ds he p c = Done (Include i files) \<longrightarrow>
     in_directives i = ds \<and> in_has_equals i = he \<and> in_comment i = c \<and> in_position i = p \<and> in_leading_space i = snd p - 1
     \<and> inc ds he p' c = Done (Include (i\<lparr>in_position := p', in_leading_space := snd p' - 1\<rparr>) files))"

lemma movableD:
  assumes "movable inc" "inc ds he p c = Done (Include i files)"
  shows "in_directives i = ds \<and> in_has_equals i = he \<and> in_comment i = c \<and> in_position i = p \<and> in_leading_space i = snd p - 1"
    "inc ds he p' c = Done (Include (i\<lparr>in_position := p', in_leading_space := snd p' - 1\<rparr>) files)"
  using assms unfolding movable_def by blast+

lemma movable_new_include: "movable (at_depth d (new_include env parse system depth))"
  by (auto simp: movable_def at_depth_def new_include_def and_then_Done split: sum.splits if_splits)

lemma read_value_trim:
  assumes "plain_text v" "v \<noteq> '''' \<longrightarrow> last v \<noteq> CHR '' ''" "blanks space"
  shows "trim_right (read_value v space c) = v"
    "drop (length v) (read_value v space c) = (if v = '''' then '''' else padding space c)"
proof -
  obtain m where m: "padding space c = spaces m"
    using blanks_padding[OF assms(3)] unfolding blanks_def by blast
  show "trim_right (read_value v space c) = v"
    using trim_right_spaces[OF assms(1,2), of m] trim_right_spaces[OF assms(1,2), of 0] by (auto simp: read_value_def m)
  show "drop (length v) (read_value v space c) = (if v = '''' then '''' else padding space c)"
    by (simp add: read_value_def)
qed

lemma reread_node:
  assumes n: "wf_node inc n" and inc: "movable inc" and cfg: "cfg \<noteq> []"
  shows "\<exists>n'. same_node n n' \<and> line_config inc ln (node_line n) cfg = append_node n' cfg"
proof (cases n)
  case (KV k)
  with n have wf: "wf_kv k"
    by simp
  obtain col where line: "line_config inc ln (node_line n) cfg =
     parse_line inc (tok ln (Suc (kv_leading_space k)) Token_Key (kv_key k)) (kv_has_equals k)
       (tok ln col Token_String (read_value (kv_raw_value k) (kv_space_after_value k) (kv_comment k))) (kv_comment k) cfg"
    using line_config_text_line KV by fastforce
  let ?k = "make_kv (tok ln (Suc (kv_leading_space k)) Token_Key (kv_key k))
    (tok ln col Token_String (read_value (kv_raw_value k) (kv_space_after_value k) (kv_comment k))) (kv_has_equals k) (kv_comment k)"
  have raw: "plain_text (kv_raw_value k)" "kv_raw_value k \<noteq> '''' \<longrightarrow> last (kv_raw_value k) \<noteq> CHR '' ''"
    "blanks (kv_space_after_value k)" "kv_value k = unquoted (kv_raw_value k)"
    "kv_raw_value k = '''' \<longrightarrow> kv_space_after_value k = ''''"
    using wf by (auto simp: wf_kv_def wf_text_def wf_value_def)
  have "same_kv k ?k"
    using raw by (auto simp: same_kv_def make_kv_def Let_def read_value_trim kv_string_def padding_def)
  moreover have "line_config inc ln (node_line n) cfg = append_node (KV ?k) cfg"
    using wf cfg by (auto simp: line parse_line_def wf_kv_def block_words_def)
  ultimately show ?thesis
    using KV by auto
next
  case (Empty e)
  define e' where "e' = (if el_comment e = ''''
    then \<lparr>el_comment = '''', el_leading_space = -1, el_position = (ln, 1)\<rparr>
    else \<lparr>el_comment = el_comment e, el_leading_space = el_leading_space e, el_position = (ln, nat (el_leading_space e) + 2)\<rparr>)"
  have "same_node n (Empty e')"
    using Empty by (auto simp: e'_def same_empty_def empty_string_def)
  moreover have "line_config inc ln (node_line n) cfg = append_node (Empty e') cfg"
    using n Empty by (auto simp: e'_def wf_empty_def)
  ultimately show ?thesis
    by blast
next
  case (Include i files)
  let ?d = "join_with '' '' (in_directives i)"
  have wf: "wf_include inc i files"
    using n Include by simp
  have split: "split_on CHR '' '' ?d = in_directives i"
    using wf split_on_join[of "in_directives i" "CHR '' ''"] by (simp add: wf_include_def list_all_iff)
  obtain col where line: "line_config inc ln (node_line n) cfg =
     parse_line inc (tok ln (Suc (in_leading_space i)) Token_Key ''Include'') (in_has_equals i)
       (tok ln col Token_String (read_value ?d '''' '''')) '''' cfg"
    using line_config_text_line Include by fastforce
  have "read_value ?d '''' '''' = ?d"
    by (simp add: read_value_def padding_def)
  moreover have "inc (in_directives i) (in_has_equals i) (ln, Suc (in_leading_space i)) ''''
      = Done (Include (i\<lparr>in_position := (ln, Suc (in_leading_space i))\<rparr>) files)"
  proof -
    have "inc (in_directives i) (in_has_equals i) (in_position i) '''' = Done (Include i files)"
      using wf by (simp add: wf_include_def)
    with inc have "inc (in_directives i) (in_has_equals i) (ln, Suc (in_leading_space i)) ''''
      = Done (Include (i\<lparr>in_position := (ln, Suc (in_leading_space i)), in_leading_space := in_leading_space i\<rparr>) files)"
      using movableD(2)[of inc _ _ _ _ i files "(ln, Suc (in_leading_space i))"] by simp
    moreover have "i\<lparr>in_position := p, in_leading_space := in_leading_space i\<rparr> = i\<lparr>in_position := p\<rparr>" for p
      by simp
    ultimately show ?thesis
      by simp
  qed
  moreover have "to_lower ''Include'' = ''include''"
    by code_simp
  ultimately have "line_config inc ln (node_line n) cfg = append_node (Include (i\<lparr>in_position := (ln, Suc (in_leading_space i))\<rparr>) files) cfg"
    using cfg split by (simp add: line parse_line_def)
  then show ?thesis
    using Include by auto
qed

lemma new_pattern_string: "wf_pattern p \<Longrightarrow> new_pattern (pattern_string p) = Inr p"
  by (cases p; cases "pt_str p") (auto simp: wf_pattern_def pattern_string_def new_pattern_def word_def)

lemma wf_pattern_nonempty: "wf_pattern p \<Longrightarrow> pattern_string p \<noteq> ''''"
  by (simp add: wf_pattern_def word_def)

lemma host_patterns_strings:
  "list_all wf_pattern ps \<Longrightarrow> host_patterns (map pattern_string ps @ replicate m '''') = Inr ps"
proof (induction ps)
  case Nil
  show ?case
    by (induction m) simp_all
qed (simp add: new_pattern_string wf_pattern_nonempty)

lemma match_patterns_strings:
  "list_all wf_pattern ps \<Longrightarrow> \<forall>p \<in> set ps. to_lower (pattern_string p) \<notin> set skipped_match_words \<Longrightarrow>
     match_patterns_loop (map pattern_string ps) = Inr ps"
  by (induction ps) (simp_all add: new_pattern_string wf_pattern_nonempty)

lemma split_on_padded:
  assumes "list_all word ws" "ws \<noteq> []"
  shows "split_on CHR '' '' (join_with '' '' ws @ spaces m) = ws @ replicate m ''''"
proof -
  have "join_with '' '' ws @ spaces m = join_with '' '' (ws @ replicate m '''')"
  proof (induction m)
    case (Suc m)
    have "join_with '' '' ((ws @ replicate m '''') @ ['''']) = join_with '' '' (ws @ replicate m '''') @ '' ''"
      using assms(2) by (subst join_with_append) simp_all
    then show ?case
      unfolding replicate_append_same[symmetric] replicate_Suc using Suc by simp
  qed simp
  moreover have "list_all (\<lambda>w. CHR '' '' \<notin> set w) (ws @ replicate m '''')"
    using assms(1) by (auto simp: list_all_iff word_def)
  ultimately show ?thesis
    using assms(2) split_on_join[of "ws @ replicate m ''''" "CHR '' ''"] by (simp add: list_all_iff)
qed

lemma read_value_words:
  assumes ws: "list_all word ws" "\<forall>w \<in> set ws. CHR ''#'' \<notin> set w" and space: "blanks space"
  shows "trim_right (read_value (join_with '' '' ws) space c) = join_with '' '' ws"
    "drop (length (join_with '' '' ws)) (read_value (join_with '' '' ws) space c)
     = (if ws = [] then '''' else padding space c)"
    "\<exists>m. split_on CHR '' '' (read_value (join_with '' '' ws) space c) = ws @ replicate m ''''"
proof -
  have v: "plain_text (join_with '' '' ws)" "join_with '' '' ws \<noteq> '''' \<longrightarrow> last (join_with '' '' ws) \<noteq> CHR '' ''"
    "join_with '' '' ws = '''' \<longleftrightarrow> ws = []"
    using wf_value_join[OF ws] by (auto simp: wf_value_def)
  show "trim_right (read_value (join_with '' '' ws) space c) = join_with '' '' ws"
    "drop (length (join_with '' '' ws)) (read_value (join_with '' '' ws) space c) = (if ws = [] then '''' else padding space c)"
    using read_value_trim[OF v(1,2) space, of c] v(3) by simp_all
  obtain m where m: "padding space c = spaces m"
    using blanks_padding[OF space] unfolding blanks_def by blast
  show "\<exists>m. split_on CHR '' '' (read_value (join_with '' '' ws) space c) = ws @ replicate m ''''"
  proof (cases "ws = []")
    case True
    then have "split_on CHR '' '' (read_value (join_with '' '' ws) space c) = ws @ replicate 1 ''''"
      by (simp add: read_value_def split_on_no_sep)
    then show ?thesis
      by blast
  next
    case False
    with v(3) show ?thesis
      using split_on_padded[OF ws(1), of m] by (auto simp: read_value_def m)
  qed
qed

lemma parse_host_words:
  assumes "split_on CHR '' '' (tk_val v) = map pattern_string ps @ replicate m ''''" "list_all wf_pattern ps"
  shows "parse_host v he c cfg = Done (cfg @ [Host \<lparr>hi_patterns = ps, hi_eol_comment = c,
     hi_space_before_comment = drop (length (trim_right (tk_val v))) (tk_val v), hi_has_equals = he,
     hi_leading_space = 0, hi_implicit = False, hi_is_match = False, hi_match_keyword = '''', hi_match_raw = ''''\<rparr> []])"
  unfolding parse_host_def assms(1) host_patterns_strings[OF assms(2)] by (simp add: Let_def)

lemma reread_head:
  assumes h: "wf_head h" and cfg: "cfg \<noteq> []"
  shows "\<exists>h'. same_head h h' \<and> line_config inc ln (head_line h) cfg = Done (cfg @ [Host h' []])"
proof -
  let ?c = "hi_eol_comment h"
  let ?space = "if ?c = '''' then '''' else hi_space_before_comment h"
  let ?v = "join_with '' '' (head_words h)"
  let ?ky = "if hi_is_match h then ''Match'' else ''Host''"
  obtain col where line: "line_config inc ln (head_line h) cfg =
     parse_line inc (tok ln (Suc 0) Token_Key ?ky) (hi_has_equals h) (tok ln col Token_String (read_value ?v ?space ?c)) ?c cfg"
    using line_config_text_line unfolding head_line_def by blast
  have "blanks ?space"
    using h by (simp add: wf_head_def)
  note read = read_value_words[OF wf_head_words(1,2)[OF h] this, of ?c]
  have low: "to_lower ''Match'' = ''match''" "to_lower ''Host'' = ''host''"
    by code_simp+
  show ?thesis
  proof (cases "hi_is_match h")
    case False
    then have wf: "wf_host_head h"
      using h by (simp add: wf_head_def)
    have words: "head_words h = map pattern_string (hi_patterns h)"
      using False by (simp add: head_words_def)
    obtain m where m: "split_on CHR '' '' (read_value ?v ?space ?c) = head_words h @ replicate m ''''"
      using read(3) by blast
    let ?h = "\<lparr>hi_patterns = hi_patterns h, hi_eol_comment = ?c,
       hi_space_before_comment = (if head_words h = [] then '''' else padding ?space ?c), hi_has_equals = hi_has_equals h,
       hi_leading_space = 0, hi_implicit = False, hi_is_match = False, hi_match_keyword = '''', hi_match_raw = ''''\<rparr>"
    have split: "split_on CHR '' '' (tk_val (tok ln col Token_String (read_value ?v ?space ?c)))
        = map pattern_string (hi_patterns h) @ replicate m ''''"
      using m words by simp
    have "list_all wf_pattern (hi_patterns h)"
      using wf by (simp add: wf_host_head_def)
    note host = parse_host_words[OF split this, of "hi_has_equals h" ?c cfg]
    have "parse_line inc (tok ln (Suc 0) Token_Key ?ky) (hi_has_equals h) (tok ln col Token_String (read_value ?v ?space ?c)) ?c cfg
        = Done (cfg @ [Host ?h []])"
      using False unfolding parse_line_def by (simp only: tok_sel low if_False simp_thms host read(1,2)) simp
    moreover have "same_head h ?h"
      using h wf False words by (auto simp: same_head_def head_string_def wf_head_def wf_host_head_def padding_def)
    ultimately show ?thesis
      using line by (intro exI[of _ ?h]) simp
  next
    case True
    then have wf: "wf_match_head h"
      using h by (simp add: wf_head_def)
    have fs: "Go_Base.fields ?v = head_words h" "head_words h \<noteq> []" "hd (head_words h) = hi_match_keyword h"
      using True fields_join[OF wf_head_words(1)[OF h]] by (auto simp: head_words_def)
    let ?h = "\<lparr>hi_patterns = hi_patterns h, hi_eol_comment = ?c,
       hi_space_before_comment = padding ?space ?c, hi_has_equals = hi_has_equals h,
       hi_leading_space = 0, hi_implicit = False, hi_is_match = True, hi_match_keyword = hi_match_keyword h, hi_match_raw = ?v\<rparr>"
    have "parse_match (tok ln col Token_String (read_value ?v ?space ?c)) (hi_has_equals h) ?c cfg = Done (cfg @ [Host ?h []])"
    proof (cases "to_lower (hi_match_keyword h) = ''all''")
      case all: True
      with wf show ?thesis
        using fs read(1,2) by (simp add: parse_match_def Let_def match_host_def wf_match_head_def)
    next
      case other: False
      have "match_patterns_loop (map pattern_string (hi_patterns h)) = Inr (hi_patterns h)" "hi_patterns h \<noteq> []"
        using wf other by (simp_all add: wf_match_head_def match_patterns_strings)
      moreover have "tl (head_words h) = map pattern_string (hi_patterns h)"
        using True other by (simp add: head_words_def)
      ultimately have pats: "parse_match_patterns (to_lower (hi_match_keyword h)) (head_words h) = Inr (hi_patterns h)"
        using wf other by (cases "hi_patterns h") (auto simp: parse_match_patterns_def wf_match_head_def)
      have "to_lower (hi_match_keyword h) \<in> {''host'', ''originalhost'', ''user'', ''localuser'', ''canonical'', ''final''}"
        using wf other by (auto simp: wf_match_head_def)
      then show ?thesis
        using fs read(1,2) pats other by (simp add: parse_match_def Let_def match_host_def)
    qed
    moreover have "same_head h ?h"
      using h wf True fs by (auto simp: same_head_def head_string_def wf_head_def wf_match_head_def padding_def head_words_def)
    ultimately show ?thesis
      using line True by (intro exI[of _ ?h]) (simp add: parse_line_def low)
  qed
qed

lemma reread_nodes:
  assumes "list_all (wf_node inc) ns" "movable inc"
  shows "\<exists>ns'. list_all2 same_node ns ns' \<and>
     lines_config inc n (map node_line ns @ ls) (cfg @ [Host h ms]) = lines_config inc (n + length ns) ls (cfg @ [Host h (ms @ ns')])"
  using assms
proof (induction ns arbitrary: n ms)
  case (Cons x ns)
  then obtain x' where x': "same_node x x'"
    "line_config inc n (node_line x) (cfg @ [Host h ms]) = append_node x' (cfg @ [Host h ms])"
    using reread_node[of inc x "cfg @ [Host h ms]" n] by auto
  have "append_node x' (cfg @ [Host h ms]) = Done (cfg @ [Host h (ms @ [x'])])"
    by (simp add: append_node_def add_node_def)
  moreover obtain ns' where ns': "list_all2 same_node ns ns'"
    "lines_config inc (Suc n) (map node_line ns @ ls) (cfg @ [Host h (ms @ [x'])])
      = lines_config inc (Suc n + length ns) ls (cfg @ [Host h ((ms @ [x']) @ ns')])"
    using Cons by fastforce
  ultimately have "lines_config inc n (map node_line (x # ns) @ ls) (cfg @ [Host h ms])
      = lines_config inc (n + length (x # ns)) ls (cfg @ [Host h (ms @ x' # ns')])"
    using x' by simp
  with x' ns' show ?case
    by (intro exI[of _ "x' # ns'"]) simp
qed simp

lemma reread_hosts:
  assumes "list_all (wf_host inc) hs" "movable inc" "cfg \<noteq> []"
  shows "\<exists>hs'. same_config hs hs' \<and> lines_config inc n (concat (map host_lines hs)) cfg = Done (cfg @ hs')"
  using assms
proof (induction hs arbitrary: n cfg)
  case (Cons h hs)
  then have wf: "wf_head (host_head h)" "list_all (wf_node inc) (host_nodes h)"
    by (auto simp: wf_host_def)
  obtain i where i: "same_head (host_head h) i" "line_config inc n (head_line (host_head h)) cfg = Done (cfg @ [Host i []])"
    using reread_head[OF wf(1) Cons.prems(3)] by blast
  obtain ns where ns: "list_all2 same_node (host_nodes h) ns"
    "lines_config inc (Suc n) (map node_line (host_nodes h) @ concat (map host_lines hs)) (cfg @ [Host i []])
     = lines_config inc (Suc n + length (host_nodes h)) (concat (map host_lines hs)) (cfg @ [Host i ([] @ ns)])"
    using reread_nodes[OF wf(2) Cons.prems(2)] by blast
  obtain hs' where hs': "same_config hs hs'" "lines_config inc (Suc n + length (host_nodes h)) (concat (map host_lines hs)) (cfg @ [Host i ns])
      = Done ((cfg @ [Host i ns]) @ hs')"
    using Cons.IH[of "cfg @ [Host i ns]"] Cons.prems by fastforce
  have "lines_config inc n (concat (map host_lines (h # hs))) cfg = Done (cfg @ Host i ns # hs')"
    using wf(1) i(2) ns(2) hs'(2) by (simp add: host_lines_def wf_head_def)
  moreover have "same_host h (Host i ns)"
    using i ns by (simp add: same_host_def)
  ultimately show ?case
    using hs' by (intro exI[of _ "Host i ns # hs'"]) simp
qed simp

text \<open>A printable configuration is read back, up to positions and spacing.\<close>

lemma parse_printed:
  assumes c: "wf_config inc c" and inc: "movable inc"
  shows "\<exists>c'. parse_ssh inc (lex_ssh (config_string c)) = Done c' \<and> same_config c c'"
proof -
  have c_eq: "c = Host implicit_host (host_nodes (hd c)) # tl c"
    using c by (cases c; cases "hd c") (auto simp: wf_config_def)
  have nodes: "list_all (wf_node inc) (host_nodes (hd c))" and hosts: "list_all (wf_host inc) (tl c)"
    using c by (auto simp: wf_config_def)
  have "parse_ssh inc (lex_ssh (config_string c)) = lines_config inc 1 (config_lines c) new_config"
    using wf_config_lines[OF c] lex_ssh_lines[OF wf_config_lines(1)[OF c]] by (simp add: parse_ssh_def parse_start_lines)
  also have "config_lines c = map node_line (host_nodes (hd c)) @ concat (map host_lines (tl c))"
    by (subst c_eq) (simp add: config_lines_def host_lines_def implicit_host_def)
  finally have parse: "parse_ssh inc (lex_ssh (config_string c))
    = lines_config inc 1 (map node_line (host_nodes (hd c)) @ concat (map host_lines (tl c))) new_config" .
  obtain ns where ns: "list_all2 same_node (host_nodes (hd c)) ns"
    "lines_config inc 1 (map node_line (host_nodes (hd c)) @ concat (map host_lines (tl c))) ([] @ [Host implicit_host []])
     = lines_config inc (1 + length (host_nodes (hd c))) (concat (map host_lines (tl c))) ([] @ [Host implicit_host ([] @ ns)])"
    using reread_nodes[OF nodes inc] by blast
  obtain hs where hs: "same_config (tl c) hs"
    "lines_config inc (1 + length (host_nodes (hd c))) (concat (map host_lines (tl c))) [Host implicit_host ns]
     = Done ([Host implicit_host ns] @ hs)"
    using reread_hosts[OF hosts inc, of "[Host implicit_host ns]"] by blast
  have "lines_config inc 1 (map node_line (host_nodes (hd c)) @ concat (map host_lines (tl c))) new_config = Done (Host implicit_host ns # hs)"
    using ns(2) hs(2) by (simp add: new_config_def)
  moreover have "same_config c (Host implicit_host ns # hs)"
    by (subst c_eq) (use ns hs in \<open>simp add: same_host_def same_head_def\<close>)
  ultimately show ?thesis
    using parse by auto
qed

section \<open>What the parser yields is printable\<close>

text \<open>Lines the printer cannot give back as they were read: an included line with a comment,
  and a \<open>Match\<close> line with several criteria, since only the patterns are printed.\<close>

fun simple_node :: "node \<Rightarrow> bool" where
  "simple_node (Include i files) = (in_comment i = '''')"
| "simple_node n = True"

definition simple_head :: "host_info \<Rightarrow> bool" where
  "simple_head h \<longleftrightarrow> (hi_is_match h \<longrightarrow> to_lower (hi_match_keyword h) \<notin> {''canonical'', ''final''}
     \<and> Go_Base.fields (hi_match_raw h) = head_words h)"

definition simple_host :: "host \<Rightarrow> bool" where
  "simple_host h \<longleftrightarrow> simple_head (host_head h) \<and> list_all simple_node (host_nodes h)"

abbreviation simple_config :: "ssh_config \<Rightarrow> bool" where
  "simple_config \<equiv> list_all simple_host"

lemma trailing_spaces:
  assumes "plain_text v"
  obtains m where "v = trim_right v @ spaces m" "trim_right v \<noteq> '''' \<longrightarrow> last (trim_right v) \<noteq> CHR '' ''"
proof -
  obtain m w where w: "rev v = spaces m @ w" "w \<noteq> '''' \<longrightarrow> hd w \<noteq> CHR '' ''"
    by (rule spaces_split)
  then have v: "v = rev w @ spaces m"
    by (metis rev_append rev_replicate rev_rev_ident)
  have "plain_text (rev w)" "rev w \<noteq> '''' \<longrightarrow> last (rev w) \<noteq> CHR '' ''"
    using assms w v by (auto simp: last_rev)
  with v trim_right_spaces[OF this, of m] show ?thesis
    by (intro that) simp_all
qed

lemma fields_from_words:
  "plain_text s \<Longrightarrow> plain_text cur \<Longrightarrow> CHR '' '' \<notin> set cur \<Longrightarrow> x \<in> set (fields_from cur s) \<Longrightarrow>
     word x \<and> set x \<subseteq> set cur \<union> set s"
proof (induction s arbitrary: cur)
  case Nil
  then show ?case
    by (auto simp: fields_from.simps[of cur "''''"] word_def plain_text_def split: if_splits)
next
  case (Cons c s)
  show ?case
  proof (cases "c = CHR '' ''")
    case True
    with Cons.prems have "cur \<noteq> [] \<and> x = rev cur \<or> x \<in> set (fields_from [] s)"
      by (auto simp: fields_from_space split: if_splits)
    then show ?thesis
      using Cons.IH[of "[]"] Cons.prems by (auto simp: word_def plain_text_def)
  next
    case False
    with Cons.prems have "x \<in> set (fields_from (c # cur) s)"
      using fields_from_word[of "[c]" cur s] by simp
    then show ?thesis
      using Cons.IH[of "c # cur"] Cons.prems False by auto
  qed
qed

lemma fields_words: "plain_text s \<Longrightarrow> x \<in> set (Go_Base.fields s) \<Longrightarrow> word x \<and> set x \<subseteq> set s"
  using fields_from_words[of s "[]" x] by (simp add: Go_Base.fields_def)

lemma new_pattern_word:
  assumes "new_pattern s = Inr p" "word s" "CHR ''#'' \<notin> set s"
  shows "wf_pattern p" "pattern_string p = s"
proof -
  obtain c t where s: "s = c # t"
    using assms(2) by (cases s) (auto simp: word_def)
  show "pattern_string p = s"
    using assms(1) by (auto simp: s new_pattern_def pattern_string_def errorf_def split: if_splits)
  with assms s show "wf_pattern p"
    by (auto simp: new_pattern_def wf_pattern_def errorf_def split: if_splits)
qed

lemma host_patterns_wf:
  "host_patterns ss = Inr ps \<Longrightarrow> \<forall>s \<in> set ss. s \<noteq> '''' \<longrightarrow> word s \<and> CHR ''#'' \<notin> set s \<Longrightarrow>
     list_all wf_pattern ps \<and> map pattern_string ps = filter (\<lambda>s. s \<noteq> '''') ss"
proof (induction ss arbitrary: ps)
  case (Cons s ss)
  then show ?case
    by (auto split: if_splits sum.splits dest: new_pattern_word)
qed simp

lemma match_patterns_wf:
  "match_patterns_loop ss = Inr ps \<Longrightarrow> \<forall>s \<in> set ss. word s \<and> CHR ''#'' \<notin> set s \<Longrightarrow>
     list_all wf_pattern ps \<and> (\<forall>p \<in> set ps. to_lower (pattern_string p) \<notin> set skipped_match_words)"
proof (induction ss arbitrary: ps)
  case (Cons s ss)
  then show ?case
    by (auto split: if_splits sum.splits dest: new_pattern_word simp: errorf_def)
qed simp

lemma hd_split_words:
  "v \<noteq> '''' \<Longrightarrow> hd v \<noteq> CHR '' '' \<Longrightarrow>
     \<exists>w ws. filter (\<lambda>s. s \<noteq> '''') (split_on CHR '' '' v) = w # ws \<and> hd w = hd v"
  by (cases v) (auto split: list.splits)

lemma split_words: "plain_text v \<Longrightarrow> s \<in> set (split_on c v) \<Longrightarrow> plain_text s \<and> set s \<subseteq> set v"
proof (induction v arbitrary: s)
  case (Cons a v)
  obtain y ys where y: "split_on c v = y # ys"
    by (cases "split_on c v") simp_all
  then have "plain_text y \<and> set y \<subseteq> set v" "\<And>z. z \<in> set ys \<Longrightarrow> plain_text z \<and> set z \<subseteq> set v"
    using Cons by auto
  then show ?case
    using Cons.prems y by (auto split: if_splits)
qed simp

text \<open>Everything read so far is printable, where it is simple.\<close>

definition printable :: "include_fun \<Rightarrow> ssh_config \<Rightarrow> bool" where
  "printable inc c \<longleftrightarrow> c \<noteq> [] \<and> host_head (hd c) = implicit_host
     \<and> (\<forall>h \<in> set c. \<forall>n \<in> set (host_nodes h). simple_node n \<longrightarrow> wf_node inc n)
     \<and> (\<forall>h \<in> set (tl c). simple_head (host_head h) \<longrightarrow> wf_head (host_head h))"

lemma printable_simple: "printable inc c \<Longrightarrow> simple_config c \<Longrightarrow> wf_config inc c"
  by (cases c) (auto simp: printable_def wf_config_def wf_host_def simple_host_def list_all_iff)

lemma printable_append_node:
  assumes "printable inc c" "simple_node n \<longrightarrow> wf_node inc n" "append_node n c = Done c'"
  shows "printable inc c'"
proof -
  obtain hs h where c: "c = hs @ [h]" "c' = hs @ [add_node n h]"
    using assms by (cases c rule: rev_cases) (auto simp: append_node_def split: if_splits)
  with assms(1,2) show ?thesis
    by (cases hs) (auto simp: printable_def add_node_def)
qed

lemma printable_append_host:
  "printable inc c \<Longrightarrow> (simple_head h \<longrightarrow> wf_head h) \<Longrightarrow> printable inc (c @ [Host h []])"
  by (cases c) (auto simp: printable_def)

lemma wf_read_kv:
  assumes "wf_key ky" "to_lower ky \<notin> set block_words" "wf_text he v" "plain_text c"
  shows "wf_kv (make_kv (tok n p Token_Key ky) (tok n q Token_String v) he c)"
proof -
  have v: "plain_text v" "CHR ''#'' \<notin> set v" "v \<noteq> '''' \<longrightarrow> hd v \<noteq> CHR '' ''" "he \<or> v = '''' \<or> hd v \<noteq> CHR ''=''"
    using assms(3) by (auto simp: wf_text_def wf_value_def)
  obtain m where m: "v = trim_right v @ spaces m" "trim_right v \<noteq> '''' \<longrightarrow> last (trim_right v) \<noteq> CHR '' ''"
    using trailing_spaces[OF v(1)] .
  have drop: "drop (length (trim_right v)) v = spaces m"
    by (subst (2) m(1)) simp
  have empty: "m = 0" if "trim_right v = ''''"
    using m(1) v(3) that by (cases m) auto
  have plain: "plain_text (trim_right v)" "CHR ''#'' \<notin> set (trim_right v)"
    using v m(1) by (metis plain_text_simps(3), metis UnCI set_append)
  have hd: "trim_right v \<noteq> '''' \<Longrightarrow> hd (trim_right v) = hd v \<and> v \<noteq> ''''"
    by (metis append_is_Nil_conv hd_append2 m(1))
  show ?thesis
    using assms v m(2) drop empty plain hd by (auto simp: wf_kv_def make_kv_def Let_def wf_text_def wf_value_def)
qed

lemma wf_read_host:
  assumes v: "wf_text he (tk_val v)" and c: "plain_text c" and r: "parse_host v he c cfg = Done cfg'"
  shows "\<exists>h. cfg' = cfg @ [Host h []] \<and> wf_head h"
proof -
  have val: "plain_text (tk_val v)" "CHR ''#'' \<notin> set (tk_val v)" "tk_val v \<noteq> '''' \<longrightarrow> hd (tk_val v) \<noteq> CHR '' ''"
    "he \<or> tk_val v = '''' \<or> hd (tk_val v) \<noteq> CHR ''=''"
    using v by (auto simp: wf_text_def wf_value_def)
  obtain ps where ps: "host_patterns (split_on CHR '' '' (tk_val v)) = Inr ps"
    using r by (auto simp: parse_host_def raise_errorf_def split: sum.splits)
  have "\<forall>s \<in> set (split_on CHR '' '' (tk_val v)). s \<noteq> '''' \<longrightarrow> word s \<and> CHR ''#'' \<notin> set s"
    using split_words[OF val(1)] split_on_sep_free[of _ "CHR '' ''" "tk_val v"] val(2) by (auto simp: word_def)
  note wf = host_patterns_wf[OF ps this]
  obtain m where m: "tk_val v = trim_right (tk_val v) @ spaces m"
    using trailing_spaces[OF val(1)] by metis
  have drop: "drop (length (trim_right (tk_val v))) (tk_val v) = spaces m"
    by (subst (2) m) simp
  let ?h = "\<lparr>hi_patterns = ps, hi_eol_comment = c, hi_space_before_comment = spaces m, hi_has_equals = he,
     hi_leading_space = 0, hi_implicit = False, hi_is_match = False, hi_match_keyword = '''', hi_match_raw = ''''\<rparr>"
  have words: "list_all word (map pattern_string ps)" "\<forall>w \<in> set (map pattern_string ps). CHR ''#'' \<notin> set w"
    using conjunct1[OF wf] by (auto simp: list_all_iff wf_pattern_def)
  have first: "tk_val v \<noteq> '''' \<Longrightarrow> ps \<noteq> [] \<and> hd (map pattern_string ps) = hd (tk_val v) # tl (hd (map pattern_string ps))"
  proof -
    assume ne: "tk_val v \<noteq> ''''"
    then obtain w ws where w: "filter (\<lambda>s. s \<noteq> '''') (split_on CHR '' '' (tk_val v)) = w # ws" "hd w = hd (tk_val v)"
      using hd_split_words val(3) by blast
    then have "w \<noteq> ''''"
      by (metis (mono_tags, lifting) filter_eq_ConsD)
    then show ?thesis
      using w wf by (cases ps; cases w) auto
  qed
  have none: "tk_val v = '''' \<Longrightarrow> ps = [] \<and> m = 0"
    using wf m by auto
  have "wf_text he (patterns_text ?h)"
  proof (cases "tk_val v = ''''")
    case True
    with none show ?thesis
      by (simp add: patterns_text_def wf_text_def wf_value_def)
  next
    case False
    with first have "ps \<noteq> []" "hd (hd (map pattern_string ps)) = hd (tk_val v)"
      by (auto, metis list.sel(1))
    with False val(4) show ?thesis
      using wf_value_join[OF words] by (auto simp: patterns_text_def wf_text_def)
  qed
  moreover have "ps = [] \<longrightarrow> m = 0"
    using first none by blast
  ultimately have "wf_head ?h"
    using wf c by (auto simp: wf_head_def wf_host_head_def)
  moreover have "cfg' = cfg @ [Host ?h []]"
    using r by (simp add: parse_host_def ps Let_def drop)
  ultimately show ?thesis
    by blast
qed

lemma wf_read_match:
  assumes v: "wf_text he (tk_val v)" and c: "plain_text c" and r: "parse_match v he c cfg = Done cfg'"
  shows "\<exists>h. cfg' = cfg @ [Host h []] \<and> (simple_head h \<longrightarrow> wf_head h)"
proof -
  let ?raw = "trim_right (tk_val v)"
  have val: "plain_text (tk_val v)" "CHR ''#'' \<notin> set (tk_val v)"
    using v by (auto simp: wf_text_def wf_value_def)
  obtain m where m: "tk_val v = ?raw @ spaces m"
    using trailing_spaces[OF val(1)] by metis
  have drop: "drop (length ?raw) (tk_val v) = spaces m"
    by (subst (2) m) simp
  have raw: "plain_text ?raw" "CHR ''#'' \<notin> set ?raw"
    using val m by (metis plain_text_simps(3), metis UnCI set_append)
  have words: "\<forall>s \<in> set (Go_Base.fields ?raw). word s \<and> CHR ''#'' \<notin> set s"
    using fields_words[OF raw(1)] raw(2) by auto
  obtain w ws where fs: "Go_Base.fields ?raw = w # ws"
    using r by (cases "Go_Base.fields ?raw") (auto simp: parse_match_def Let_def raise_errorf_def)
  let ?h = "\<lambda>ps. \<lparr>hi_patterns = ps, hi_eol_comment = c, hi_space_before_comment = spaces m, hi_has_equals = he,
     hi_leading_space = 0, hi_implicit = False, hi_is_match = True, hi_match_keyword = w, hi_match_raw = ?raw\<rparr>"
  show ?thesis
  proof (cases "to_lower w = ''all''")
    case True
    then have "cfg' = cfg @ [Host (?h [match_all]) []]"
      using r fs by (simp add: parse_match_def Let_def match_host_def drop)
    moreover have "simple_head (?h [match_all]) \<longrightarrow> wf_head (?h [match_all])"
      using True words fs c by (simp add: simple_head_def wf_head_def wf_match_head_def head_words_def)
    ultimately show ?thesis
      by blast
  next
    case False
    then have crit: "to_lower w \<in> {''host'', ''originalhost'', ''user'', ''localuser'', ''canonical'', ''final''}"
      using r fs by (auto simp: parse_match_def Let_def raise_errorf_def split: if_splits)
    then obtain ps where ps: "parse_match_patterns (to_lower w) (w # ws) = Inr ps"
      using r fs False by (auto simp: parse_match_def Let_def raise_errorf_def split: sum.splits)
    have cfg': "cfg' = cfg @ [Host (?h ps) []]"
      using r fs ps crit False by (simp add: parse_match_def Let_def match_host_def drop)
    have "wf_head (?h ps)" if "simple_head (?h ps)"
    proof -
      have not: "to_lower w \<noteq> ''canonical''" "to_lower w \<noteq> ''final''" "Go_Base.fields ?raw = w # map pattern_string ps"
        using that False by (auto simp: simple_head_def head_words_def)
      have loop: "match_patterns_loop ws = Inr ps" "ps \<noteq> []"
        using ps not by (auto simp: parse_match_patterns_def errorf_def split: sum.splits list.splits)
      have "\<forall>s \<in> set ws. word s \<and> CHR ''#'' \<notin> set s"
        using words fs by simp
      note wf = match_patterns_wf[OF loop(1) this]
      show ?thesis
        using wf words fs c crit not loop(2) False by (simp add: wf_head_def wf_match_head_def)
    qed
    with cfg' show ?thesis
      by blast
  qed
qed

lemma printable_line:
  assumes c: "printable inc cfg" and l: "wf_line l" and inc: "movable inc"
    and only: "\<And>ds he p c n. inc ds he p c = Done n \<Longrightarrow> \<exists>i files. n = Include i files"
    and r: "line_config inc n l cfg = Done cfg'"
  shows "printable inc cfg'"
proof (cases l)
  case (Blank k)
  then show ?thesis
    using r by (intro printable_append_node[OF c]) (auto simp: wf_empty_def)
next
  case (Comment_Line k w)
  then show ?thesis
    using r l by (intro printable_append_node[OF c]) (auto simp: wf_empty_def)
next
  case (Value_Line k ky sep v w)
  let ?c = "case w of None \<Rightarrow> '''' | Some c \<Rightarrow> c"
  let ?he = "sep_equals sep"
  have wf: "wf_key ky" "wf_text ?he v" "plain_text ?c"
    using l Value_Line by (cases sep; auto simp: wf_text_def split: option.splits)+
  obtain col where col: "value_tok n l = tok n col Token_String v"
    using Value_Line by simp
  have line: "parse_line inc (tok n (Suc k) Token_Key ky) ?he (tok n col Token_String v) ?c cfg = Done cfg'"
    using r col Value_Line by simp
  consider "to_lower ky = ''match''" | "to_lower ky = ''host''" | "to_lower ky = ''include''" | "to_lower ky \<notin> set block_words"
    by (auto simp: block_words_def)
  then show ?thesis
  proof cases
    case 1
    then show ?thesis
      using line wf_read_match[of ?he "tok n col Token_String v" ?c cfg cfg'] wf printable_append_host[OF c]
      by (auto simp: parse_line_def)
  next
    case 2
    then show ?thesis
      using line wf_read_host[of ?he "tok n col Token_String v" ?c cfg cfg'] wf printable_append_host[OF c]
      by (auto simp: parse_line_def)
  next
    case 3
    let ?ds = "split_on CHR '' '' v"
    have "cfg \<noteq> []"
      using c by (simp add: printable_def)
    with 3 line obtain nd where nd: "inc ?ds ?he (n, Suc k) ?c = Done nd" "append_node nd cfg = Done cfg'"
      by (auto simp: parse_line_def raise_errorf_def raise_error_def split: outcome.splits if_splits)
    then obtain i files where i: "nd = Include i files"
      using only by blast
    note m = movableD(1)[OF inc nd(1)[unfolded i]]
    have "wf_node inc nd" if "simple_node nd"
      using that i m nd(1) wf(2) split_on_sep_free[of _ "CHR '' ''" v]
      by (auto simp: wf_include_def join_split_on[of "CHR '' ''" v])
    then show ?thesis
      using nd(2) by (intro printable_append_node[OF c]) auto
  next
    case 4
    then show ?thesis
      using line wf_read_kv[OF wf(1) 4 wf(2,3)] c
      by (intro printable_append_node[OF c]) (auto simp: parse_line_def block_words_def printable_def)
  qed
qed

lemma printable_lines:
  assumes "list_all wf_line ls" "movable inc" "\<And>ds he p c n. inc ds he p c = Done n \<Longrightarrow> \<exists>i files. n = Include i files"
  shows "printable inc cfg \<Longrightarrow> lines_config inc n ls cfg = Done c \<Longrightarrow> printable inc c"
  using assms(1)
proof (induction ls arbitrary: n cfg)
  case (Cons l ls)
  then obtain cfg' where "line_config inc n l cfg = Done cfg'" "lines_config inc (Suc n) ls cfg' = Done c"
    by (auto simp: and_then_Done)
  with Cons show ?case
    using printable_line[OF Cons.prems(1) _ assms(2,3)] by fastforce
qed simp

lemma includes_new_include:
  "at_depth d (new_include env parse system depth) ds he p c = Done n \<Longrightarrow> \<exists>i files. n = Include i files"
  by (auto simp: at_depth_def new_include_def and_then_Done split: sum.splits if_splits)

lemma printable_new: "printable inc new_config"
  by (simp add: printable_def new_config_def)


definition no_files :: parse_env where
  "no_files = \<lparr>pe_home = ''/home/me'', pe_glob = (\<lambda>p. Inr []), pe_read = (\<lambda>p. errorf ''no such file'')\<rparr>"

definition sample_lines :: "string list" where
  "sample_lines = [''# mine'', ''Host web !db #eol'', ''  Port=22  # p'', '''', ''Match user me'', ''Include work'']"

definition sample_config :: ssh_config where
  "sample_config = (case decode_bytes no_files (unlines sample_lines) of Done c \<Rightarrow> c | _ \<Rightarrow> [])"


end
