(* ===== verification/Ssh_Grammar.thy ===== *)
theory Ssh_Grammar
  imports Ssh_Parser
begin

text \<open>
  The token streams the lexer can send, for every text, and what that means for the parser: it
  never meets a token it does not expect, and neither a missing token nor a missing host.
\<close>

section \<open>The grammar of the tokens\<close>

fun stream :: "token_type list \<Rightarrow> bool"
  and after_key :: "token_type list \<Rightarrow> bool"
  and after_equals :: "token_type list \<Rightarrow> bool" where
  "stream [] = False"
| "stream (t # ts) =
     (if t = Token_Comment \<or> t = Token_Empty_Line then stream ts
      else if t = Token_Key then after_key ts else t = Token_EOF \<and> ts = [])"
| "after_key [] = False"
| "after_key (t # ts) = (if t = Token_Equals then after_equals ts else after_equals (t # ts))"
| "after_equals [] = False"
| "after_equals (t # ts) = (if t = Token_String then stream ts else t = Token_EOF \<and> ts = [])"

text \<open>The tokens that follow in a state.\<close>

fun follows :: "lex_state \<Rightarrow> token_type list \<Rightarrow> bool" where
  "follows Lex_Comment ts = (case ts of [] \<Rightarrow> False | t # ts \<Rightarrow> t = Token_Comment \<and> stream ts)"
| "follows Lex_Void ts = stream ts"
| "follows Lex_Key ts = (case ts of [] \<Rightarrow> False | t # ts \<Rightarrow> t = Token_Key \<and> after_key ts)"
| "follows Lex_Equals ts = after_key ts"
| "follows Lex_Rspace ts = after_equals ts"
| "follows Lex_Rvalue ts = after_equals ts"

definition typs :: "ssh_lexer \<Rightarrow> token_type list" where
  "typs s = map tk_typ (lx_tokens s)"

lemma typs_simps [simp]:
  "typs (lx_read s) = typs s" "typs (lx_next s) = typs s" "typs (lx_ignore s) = typs s" "typs (lx_skip s) = typs s"
  "typs (emit_with_value t v s) = typs s @ [t]" "typs (lx_emit t s) = typs s @ [t]"
  by (auto simp: typs_def lx_read_def lx_next_def lx_ignore_def lx_skip_def emit_with_value_def lx_emit_def Let_def
      split: option.splits)

text \<open>A step sends tokens that lead to the next state.\<close>

definition leads :: "lex_state \<Rightarrow> ssh_lexer \<Rightarrow> ssh_lexer \<times> lex_state option \<Rightarrow> bool" where
  "leads st s r \<longleftrightarrow> (\<exists>ts. typs (fst r) = typs s @ ts
     \<and> (\<forall>us. (case snd r of None \<Rightarrow> us = [] | Some st' \<Rightarrow> follows st' us) \<longrightarrow> follows st (ts @ us)))"

lemma leads_emitted:
  "typs (fst r) = typs s @ ts \<Longrightarrow>
     (\<And>us. (case snd r of None \<Rightarrow> us = [] | Some st' \<Rightarrow> follows st' us) \<Longrightarrow> follows st (ts @ us)) \<Longrightarrow> leads st s r"
  unfolding leads_def by blast

lemma after_equals_key: "after_equals us \<Longrightarrow> after_key us"
  by (cases us) (auto split: if_splits)

lemma leads_same: "typs s' = typs s \<Longrightarrow> leads st s' r \<Longrightarrow> leads st s r"
  by (simp add: leads_def)

lemma comment_loop_typs: "typs (snd (comment_loop g s)) = typs s"
proof (induction g s rule: comment_loop.induct)
  case (1 g s)
  then show ?case
    by (subst comment_loop.simps) (auto split: option.splits)
qed

lemma lex_comment_leads: "leads Lex_Comment s (lex_comment s)"
proof -
  obtain g s' where r: "comment_loop '''' s = (g, s')"
    by (rule prod.exhaust)
  then have "typs s' = typs s"
    using comment_loop_typs[of "''''" s] by simp
  then show ?thesis
    by (intro leads_emitted[where ts = "[Token_Comment]"]) (auto simp: lex_comment_def r)
qed

lemma lex_rspace_leads: "leads Lex_Rspace s (lex_rspace s)"
proof (induction s rule: lex_rspace.induct)
  case (1 s)
  show ?case
  proof (cases "\<exists>r. lx_peek s = Some r \<and> is_space r")
    case True
    then show ?thesis
      using 1 by (subst lex_rspace.simps) (auto intro: leads_same[of "lx_skip s"])
  next
    case False
    then show ?thesis
      by (subst lex_rspace.simps) (auto intro!: leads_emitted[where ts = "[]"] split: option.splits)
  qed
qed

lemma lex_equals_leads: "leads Lex_Equals s (lex_equals s)"
proof (induction s rule: lex_equals.induct)
  case (1 s)
  consider r where "lx_peek s = Some r" "r \<noteq> CHR ''=''" "is_space r" | "lx_peek s = Some CHR ''=''"
    | "lx_peek s = None" | r where "lx_peek s = Some r" "r \<noteq> CHR ''=''" "\<not> is_space r"
    by (cases "lx_peek s") auto
  then show ?case
  proof cases
    case (1 r)
    then show ?thesis
      using "1.IH" by (subst lex_equals.simps) (auto intro: leads_same[of "lx_skip s"])
  next
    case 2
    then show ?thesis
      by (subst lex_equals.simps) (auto intro!: leads_emitted[where ts = "[Token_Equals]"])
  next
    case 3
    then show ?thesis
      by (subst lex_equals.simps) (auto simp del: lx_peek_None intro!: leads_emitted[where ts = "[]"] after_equals_key)
  next
    case (4 r)
    then show ?thesis
      by (subst lex_equals.simps) (auto intro!: leads_emitted[where ts = "[]"] after_equals_key)
  qed
qed

lemma key_loop_leads: "leads Lex_Key s (key_loop g s)"
proof (induction g s rule: key_loop.induct)
  case (1 g s)
  show ?case
  proof (cases "\<exists>r. lx_peek s = Some r \<and> is_key_char (Some r) \<and> \<not> (is_space r \<or> r = CHR ''='')")
    case True
    then show ?thesis
      using 1 by (subst key_loop.simps) (auto intro: leads_same[of "lx_next s"])
  next
    case False
    then show ?thesis
      by (subst key_loop.simps) (auto intro!: leads_emitted[where ts = "[Token_Key]"] split: option.splits)
  qed
qed

lemma rvalue_loop_leads: "leads Lex_Rvalue s (rvalue_loop g s)"
proof (induction g s rule: rvalue_loop.induct)
  case (1 g s)
  consider "lx_peek s = None" | r where "lx_peek s = Some r" "r = CR \<and> lx_follow [CR, LF] s \<or> r = LF \<or> r = CHR ''#''"
    | r where "lx_peek s = Some r" "\<not> (r = CR \<and> lx_follow [CR, LF] s)" "r \<noteq> LF" "r \<noteq> CHR ''#''"
    by (cases "lx_peek s") auto
  then show ?case
  proof cases
    case 1
    then show ?thesis
      by (subst rvalue_loop.simps) (auto simp del: lx_peek_None intro!: leads_emitted[where ts = "[Token_EOF]"])
  next
    case (2 r)
    then show ?thesis
      by (subst rvalue_loop.simps) (auto intro!: leads_emitted[where ts = "[Token_String]"] split: list.splits)
  next
    case (3 r)
    then show ?thesis
      using "1.IH" by (subst rvalue_loop.simps) (auto intro: leads_same[of "lx_next s"])
  qed
qed

lemma lex_void_leads: "leads Lex_Void s (lex_void s)"
proof (induction s rule: lex_void.induct)
  case (1 s)
  consider "lx_peek s = None" | "lx_peek s = Some CHR ''#''"
    | r where "lx_peek s = Some r" "r \<noteq> CHR ''#''" "r = CR \<or> r = LF"
    | r where "lx_peek s = Some r" "r \<noteq> CHR ''#''" "\<not> (r = CR \<or> r = LF)" "is_space r"
    | r where "lx_peek s = Some r" "r \<noteq> CHR ''#''" "\<not> (r = CR \<or> r = LF)" "\<not> is_space r"
    by (cases "lx_peek s") auto
  then show ?case
  proof cases
    case 1
    then show ?thesis
      by (subst lex_void.simps) (auto simp del: lx_peek_None intro!: leads_emitted[where ts = "[Token_EOF]"])
  next
    case 2
    then show ?thesis
      by (subst lex_void.simps) (auto intro!: leads_emitted[where ts = "[]"] split: list.splits)
  next
    case (3 r)
    then have "leads Lex_Void (lx_skip (lx_emit Token_Empty_Line s)) (lex_void (lx_skip (lx_emit Token_Empty_Line s)))"
      using "1.IH"(1) by blast
    then obtain ts where "typs (fst (lex_void (lx_skip (lx_emit Token_Empty_Line s)))) = typs s @ Token_Empty_Line # ts"
      "\<And>us. (case snd (lex_void (lx_skip (lx_emit Token_Empty_Line s))) of None \<Rightarrow> us = [] | Some st' \<Rightarrow> follows st' us)
         \<Longrightarrow> follows Lex_Void (ts @ us)"
      unfolding leads_def by auto
    then have "leads Lex_Void s (lex_void (lx_skip (lx_emit Token_Empty_Line s)))"
      by (intro leads_emitted[where ts = "Token_Empty_Line # ts"]) auto
    then show ?thesis
      using 3 by (subst lex_void.simps) auto
  next
    case (4 r)
    then have "\<not> is_key_start_char (Some r)"
      by (simp add: is_key_start_char_def)
    then show ?thesis
      using 4 "1.IH"(2)[OF 4(1-3) refl] by (subst lex_void.simps) (auto intro: leads_same[of "lx_skip s"])
  next
    case (5 r)
    then show ?thesis
      by (subst lex_void.simps)
        (auto simp: is_key_start_char_def intro!: leads_emitted[where ts = "[]"] split: list.splits)
  qed
qed

lemma lex_step_leads: "leads st s (lex_step st s)"
  by (cases st) (simp_all add: lex_step_def lex_comment_leads lex_void_leads lex_key_def key_loop_leads
      lex_equals_leads lex_rspace_leads lex_rvalue_def rvalue_loop_leads)

lemma lex_run_stream: "\<exists>ts. typs (lex_run st s) = typs s @ ts \<and> follows st ts"
proof (induction st s rule: lex_run.induct)
  case (1 st s)
  obtain s' r where step: "lex_step st s = (s', r)"
    by (rule prod.exhaust)
  obtain ts where ts: "typs s' = typs s @ ts"
    "\<And>us. (case r of None \<Rightarrow> us = [] | Some st' \<Rightarrow> follows st' us) \<Longrightarrow> follows st (ts @ us)"
    using lex_step_leads[of st s] unfolding leads_def step by auto
  show ?case
  proof (cases r)
    case None
    then show ?thesis
      using ts(1) ts(2)[of "[]"] step by (subst lex_run.simps) auto
  next
    case (Some st')
    then obtain us where "typs (lex_run st' s') = typs s' @ us" "follows st' us"
      using 1[OF step[symmetric] Some] by auto
    then show ?thesis
      using ts(1) ts(2)[of us] step Some by (subst lex_run.simps) auto
  qed
qed

text \<open>The tokens of every text follow the grammar.\<close>

lemma lex_ssh_stream: "stream (map tk_typ (lex_ssh b))"
  using lex_run_stream[of Lex_Void "init_lexer b"] by (simp add: lex_ssh_def typs_def init_lexer_def)


section \<open>The parser on such tokens\<close>

definition quiet :: "include_fun \<Rightarrow> bool" where
  "quiet inc \<longleftrightarrow> (\<forall>ds he p c. inc ds he p c \<noteq> Panicked)"

lemma append_node_cases:
  "cfg \<noteq> [] \<Longrightarrow> append_node n cfg = Done (butlast cfg @ [add_node n (last cfg)])"
  by (simp add: append_node_def)

lemma parse_line_quiet:
  assumes "quiet inc" "cfg \<noteq> []"
  shows "parse_line inc ky he v c cfg \<noteq> Panicked \<and> (\<forall>cfg'. parse_line inc ky he v c cfg = Done cfg' \<longrightarrow> cfg' \<noteq> [])"
proof -
  have "parse_match v he c cfg \<noteq> Panicked \<and> (\<forall>cfg'. parse_match v he c cfg = Done cfg' \<longrightarrow> cfg' \<noteq> [])"
    by (auto simp: parse_match_def Let_def raise_errorf_def split: sum.splits)
  moreover have "parse_host v he c cfg \<noteq> Panicked \<and> (\<forall>cfg'. parse_host v he c cfg = Done cfg' \<longrightarrow> cfg' \<noteq> [])"
    by (auto simp: parse_host_def Let_def raise_errorf_def split: sum.splits)
  moreover have "inc ds he (tk_position ky) c \<noteq> Panicked" for ds
    using assms(1) unfolding quiet_def by blast
  ultimately show ?thesis
    using assms(2) by (auto simp: parse_line_def append_node_cases raise_error_def raise_errorf_def split: outcome.splits)
qed

lemma value_token_stream:
  assumes "after_key (map tk_typ toks)"
  shows "\<exists>he v ts. value_token toks = Done (he, v, ts) \<and> (stream (map tk_typ ts) \<or> ts = [])"
proof (cases toks)
  case (Cons t ts)
  with assms show ?thesis
    by (cases ts) (auto simp: value_token_def split: if_splits)
qed (use assms in simp)

lemma eol_comment_stream:
  "stream (map tk_typ ts) \<or> ts = [] \<Longrightarrow> eol_comment v ts = (c, ts') \<Longrightarrow> stream (map tk_typ ts') \<or> ts' = []"
  by (auto simp: eol_comment_def split: list.splits if_splits)

lemma parse_start_quiet:
  assumes "quiet inc"
  shows "stream (map tk_typ toks) \<or> toks = [] \<Longrightarrow> cfg \<noteq> [] \<Longrightarrow>
     parse_start inc toks cfg \<noteq> Panicked \<and> (\<forall>cfg'. parse_start inc toks cfg = Done cfg' \<longrightarrow> cfg' \<noteq> [])"
  using assms
proof (induction inc toks cfg rule: parse_start.induct)
  case (1 inc toks cfg)
  show ?case
  proof (cases toks)
    case Nil
    with 1 show ?thesis
      by (subst (1 2) parse_start.simps) simp
  next
    case (Cons t ts)
    with 1 have str: "stream (map tk_typ (t # ts))"
      by simp
    then consider "tk_typ t = Token_EOF" | "tk_typ t = Token_Comment \<or> tk_typ t = Token_Empty_Line" | "tk_typ t = Token_Key"
      by (auto split: if_splits)
    then show ?thesis
    proof cases
      case 1
      with \<open>cfg \<noteq> []\<close> Cons show ?thesis
        by (subst (1 2) parse_start.simps) simp
    next
      case 2
      obtain cfg' where c: "parse_comment toks cfg = Done (ts, cfg')" "cfg' \<noteq> []"
        using Cons \<open>cfg \<noteq> []\<close> by (auto simp: parse_comment_def append_node_cases)
      have "parse_start inc toks cfg = parse_start inc ts cfg'"
        using 2 c Cons by (subst parse_start.simps) auto
      moreover have "stream (map tk_typ ts)"
        using 2 str by auto
      ultimately show ?thesis
        using 2 "1.IH" "1.prems"(3) c Cons by metis
    next
      case 3
      with str have "after_key (map tk_typ ts)"
        by auto
      then obtain he v ts1 where v: "value_token ts = Done (he, v, ts1)" "stream (map tk_typ ts1) \<or> ts1 = []"
        using value_token_stream by blast
      obtain c ts2 where c: "eol_comment v ts1 = (c, ts2)"
        by (rule prod.exhaust)
      note ts2 = eol_comment_stream[OF v(2) c]
      note line = parse_line_quiet[OF \<open>quiet inc\<close> \<open>cfg \<noteq> []\<close>, of t he v c]
      have kv: "parse_kv inc toks cfg = and_then (parse_line inc t he v c cfg) (\<lambda>cfg. Done (ts2, cfg))"
        using Cons v c by (simp add: parse_kv_def)
      show ?thesis
      proof (cases "parse_line inc t he v c cfg")
        case (Done cfg')
        then have "parse_start inc toks cfg = parse_start inc ts2 cfg'"
          using 3 kv Cons by (subst parse_start.simps) simp
        moreover have "parse_kv inc toks cfg = Done (ts2, cfg')" "cfg' \<noteq> []"
          using kv line Done by auto
        ultimately show ?thesis
          using 3 "1.IH"(3) "1.prems"(3) Cons ts2 by metis
      next
        case (Failed e)
        then show ?thesis
          using 3 kv Cons by (subst (1 2) parse_start.simps) simp
      next
        case Panicked
        with line show ?thesis
          by simp
      qed
    qed
  qed
qed

lemma parse_ssh_quiet:
  "quiet inc \<Longrightarrow> parse_ssh inc (lex_ssh b) \<noteq> Panicked \<and> (\<forall>c. parse_ssh inc (lex_ssh b) = Done c \<longrightarrow> c \<noteq> [])"
  using parse_start_quiet[of inc "lex_ssh b" new_config] lex_ssh_stream[of b] by (simp add: parse_ssh_def new_config_def)

lemma parse_matches_quiet: "(\<And>m. parse m \<noteq> Panicked) \<Longrightarrow> parse_matches parse ms \<noteq> Panicked"
  by (induction ms) (auto simp: and_then_def split: outcome.splits)

lemma new_include_quiet:
  "(\<And>f. parse f \<noteq> Panicked) \<Longrightarrow> quiet (new_include env parse system depth)"
  using parse_matches_quiet[of parse] by (auto simp: quiet_def new_include_def and_then_def split: sum.splits outcome.splits)

lemma at_depth_quiet: "(depth \<le> max_recurse_depth \<Longrightarrow> quiet inc) \<Longrightarrow> quiet (at_depth depth inc)"
  by (auto simp: quiet_def at_depth_def)

lemma parse_with_depth_quiet: "parse_with_depth env depth filename \<noteq> Panicked"
proof (induction env depth filename rule: parse_with_depth.induct)
  case (1 env depth filename)
  show ?case
  proof (cases "pe_read env filename")
    case (Inr b)
    have "quiet (at_depth (depth + 1) (new_include env (\<lambda>f. parse_with_depth env (depth + 1) f) (is_system filename) (depth + 1)))"
      using 1 Inr by (intro at_depth_quiet new_include_quiet) auto
    then show ?thesis
      using Inr parse_ssh_quiet by (subst parse_with_depth.simps) simp
  next
    case (Inl e)
    then show ?thesis
      by (subst parse_with_depth.simps) simp
  qed
qed

text \<open>
  C24. Every text is decoded without a panic, and so is every file with all it includes: the lexer
  sends only tokens the parser expects in their place, so that it never reads past the end of the
  channel, and there always is a host to append a line to; what is decoded has a host.
\<close>

theorem decode_never_panics:
  "(case decode_bytes env b of Done c \<Rightarrow> c \<noteq> [] | Failed e \<Rightarrow> True | Panicked \<Rightarrow> False)
   \<and> (case parse_file env filename of Done c \<Rightarrow> c \<noteq> [] | Failed e \<Rightarrow> True | Panicked \<Rightarrow> False)
   \<and> stream (map tk_typ (lex_ssh b))"
proof -
  have "quiet (at_depth 1 (new_include env (parse_with_depth env 1) False 1))"
    by (intro at_depth_quiet new_include_quiet parse_with_depth_quiet)
  then have "decode_bytes env b \<noteq> Panicked \<and> (\<forall>c. decode_bytes env b = Done c \<longrightarrow> c \<noteq> [])"
    unfolding decode_bytes_def by (rule parse_ssh_quiet)
  moreover have "parse_file env filename \<noteq> Panicked \<and> (\<forall>c. parse_file env filename = Done c \<longrightarrow> c \<noteq> [])"
  proof (cases "pe_read env filename")
    case (Inl e)
    then show ?thesis
      unfolding parse_file_def by (subst (1 2) parse_with_depth.simps) simp
  next
    case (Inr t)
    have "quiet (at_depth (0 + 1) (new_include env (\<lambda>f. parse_with_depth env (0 + 1) f) (is_system filename) (0 + 1)))"
      by (intro at_depth_quiet new_include_quiet parse_with_depth_quiet)
    from parse_ssh_quiet[OF this, of t] Inr show ?thesis
      unfolding parse_file_def by (subst (1 2) parse_with_depth.simps) simp
  qed
  ultimately show ?thesis
    using lex_ssh_stream by (auto split: outcome.splits)
qed

end
