(* ===== verification/Ssh_Include.thy ===== *)
theory Ssh_Include
  imports Ssh_Roundtrip Ssh_Grammar
begin

text \<open>
  Included files of OpenSSH configurations: files that include each other in a circle, and comments
  behind an \<open>Include\<close> line.
\<close>

definition include_line :: "string \<Rightarrow> string option \<Rightarrow> line" where
  "include_line d c = Value_Line 0 ''Include'' (Space_Sep 1) (if c = None then d else d @ '' '') c"

lemma include_line_text:
  "line_text (include_line d c) = ''Include '' @ d @ (case c of None \<Rightarrow> '''' | Some c \<Rightarrow> '' #'' @ c)"
  by (cases c) (simp_all add: include_line_def)

definition file_word :: "string \<Rightarrow> bool" where
  "file_word d \<longleftrightarrow> word d \<and> CHR ''#'' \<notin> set d \<and> hd d \<noteq> CHR ''=''"

lemma wf_include_line:
  "file_word d \<Longrightarrow> (case c of None \<Rightarrow> True | Some c \<Rightarrow> plain_text c) \<Longrightarrow> wf_line (include_line d c)"
  by (cases d) (auto simp: include_line_def file_word_def word_def wf_value_def split: option.splits)

lemma parse_include_line:
  assumes "cfg \<noteq> []"
  shows "\<exists>col. line_config inc n (include_line d c) cfg =
     (case inc (split_on CHR '' '' (if c = None then d else d @ '' '')) False (n, 1) (case c of None \<Rightarrow> '''' | Some c \<Rightarrow> c) of
        Done nd \<Rightarrow> append_node nd cfg
      | Failed e \<Rightarrow> if e = err_depth_exceeded then Failed e
          else raise_errorf (tok n col Token_String (if c = None then d else d @ '' '')) (''Error parsing Include directive: '' @ err_message e)
      | Panicked \<Rightarrow> Panicked)"
proof -
  have "to_lower ''Include'' = ''include''"
    by code_simp
  then show ?thesis
    using assms by (auto simp: include_line_def parse_line_def raise_error_def split: outcome.splits)
qed

lemma split_file_word: "file_word d \<Longrightarrow> split_on CHR '' '' d = [d] \<and> split_on CHR '' '' (d @ '' '') = [d, '''']"
  using split_on_append[of "CHR '' ''" d "''''"] by (auto simp: file_word_def word_def split_on_no_sep)

lemma decode_first_line:
  assumes "wf_line l" "list_all plain_text ws" "list_all keyed ws"
  shows "\<exists>ls. parse_ssh inc (lex_ssh (unlines (line_text l # ws)))
     = and_then (line_config inc 1 l new_config) (lines_config inc 2 ls)"
proof -
  obtain ls where ls: "list_all wf_line ls" "map line_text ls = ws"
    using lines_exist[OF assms(2,3)] by blast
  then have "list_all wf_line (l # ls)" "unlines (line_text l # ws) = unlines (map line_text (l # ls))"
    using assms(1) by auto
  then have "parse_ssh inc (lex_ssh (unlines (line_text l # ws))) = lines_config inc 1 (l # ls) new_config"
    using lex_ssh_lines by (simp only: parse_ssh_def parse_start_lines)
  then show ?thesis
    by (auto simp: numeral_2_eq_2)
qed

lemma decode_one_line:
  assumes "wf_line l"
  shows "parse_ssh inc (lex_ssh (unlines [line_text l])) = line_config inc 1 l new_config"
proof -
  have "lex_ssh (unlines (map line_text [l])) = lines_tokens 1 [l]"
    using assms by (intro lex_ssh_lines) simp
  then have "parse_ssh inc (lex_ssh (unlines [line_text l])) = lines_config inc 1 [l] new_config"
    by (simp only: parse_ssh_def parse_start_lines list.map)
  then show ?thesis
    by (cases "line_config inc 1 l new_config") simp_all
qed

section \<open>Circles\<close>

text \<open>Every file of \<open>F\<close> begins with a line that includes a file of \<open>F\<close>.\<close>

definition include_circle :: "parse_env \<Rightarrow> string set \<Rightarrow> bool" where
  "include_circle env F \<longleftrightarrow> (\<forall>f \<in> F. \<exists>g \<in> F. \<exists>ws. pe_read env f = Inr (unlines ((''Include '' @ g) # ws))
     \<and> list_all plain_text ws \<and> list_all keyed ws \<and> file_word g \<and> is_abs g \<and> pe_glob env g = Inr [g])"

lemma circle_step:
  assumes "include_circle env F" and f: "f \<in> F"
    and deeper: "\<And>g. g \<in> F \<Longrightarrow> depth + 1 > max_recurse_depth \<or> parse_with_depth env (depth + 1) g = Failed err_depth_exceeded"
  shows "parse_with_depth env depth f = Failed err_depth_exceeded"
proof -
  let ?inc = "at_depth (depth + 1) (new_include env (\<lambda>f. parse_with_depth env (depth + 1) f) (is_system f) (depth + 1))"
  obtain g ws where g: "g \<in> F" "pe_read env f = Inr (unlines ((''Include '' @ g) # ws))"
    "list_all plain_text ws" "list_all keyed ws" "file_word g" "is_abs g" "pe_glob env g = Inr [g]"
    using assms(1) f unfolding include_circle_def by blast
  obtain ls where ls: "parse_ssh ?inc (lex_ssh (unlines (line_text (include_line g None) # ws)))
      = and_then (line_config ?inc 1 (include_line g None) new_config) (lines_config ?inc 2 ls)"
    using decode_first_line[OF wf_include_line[OF g(5), of None] g(3,4)] by auto
  have "?inc [g] False p '''' = Failed err_depth_exceeded" for p
    using g(6,7) deeper[OF g(1)]
    by (auto simp: at_depth_def new_include_def directive_path_def remove_dups_def remove_dups_step_def)
  moreover obtain col where "line_config ?inc 1 (include_line g None) new_config =
     (case ?inc (split_on CHR '' '' g) False (1, 1) '''' of
        Done nd \<Rightarrow> append_node nd new_config
      | Failed e \<Rightarrow> if e = err_depth_exceeded then Failed e
          else raise_errorf (tok 1 col Token_String g) (''Error parsing Include directive: '' @ err_message e)
      | Panicked \<Rightarrow> Panicked)"
    using parse_include_line[of new_config ?inc 1 g None] by (auto simp: new_config_def)
  ultimately have "line_config ?inc 1 (include_line g None) new_config = Failed err_depth_exceeded"
    using split_file_word[OF g(5)] by simp
  then show ?thesis
    using ls g(2) by (subst parse_with_depth.simps) (simp add: include_line_text)
qed

text \<open>
  Files that include each other in a circle are not read for ever: reading any of them ends with
  the error of the exceeded depth, whatever else the files contain.
\<close>

theorem include_circle_ends:
  assumes "include_circle env F" "f \<in> F"
  shows "parse_file env f = Failed err_depth_exceeded"
proof -
  have "g \<in> F \<Longrightarrow> depth + k = max_recurse_depth \<Longrightarrow> parse_with_depth env depth g = Failed err_depth_exceeded" for k g depth
  proof (induction k arbitrary: g depth)
    case 0
    then show ?case
      by (intro circle_step[OF assms(1)]) auto
  next
    case (Suc k)
    then show ?case
      by (intro circle_step[OF assms(1)]) auto
  qed
  then show ?thesis
    using assms(2) by (simp add: parse_file_def)
qed

definition two_files :: parse_env where
  "two_files = \<lparr>pe_home = ''/h'', pe_glob = (\<lambda>p. Inr [p]),
     pe_read = (\<lambda>p. if p = ''/a'' then Inr (unlines [''Include /b'']) else Inr (unlines [''Include /a'', ''Port 22'']))\<rparr>"

lemma include_circle_ends_witness:
  "parse_file two_files ''/a'' = Failed err_depth_exceeded"
proof (rule include_circle_ends)
  have word: "file_word ''/a''" "file_word ''/b''" "is_abs ''/a''" "is_abs ''/b''"
    by code_simp+
  have plain: "list_all plain_text [''Port 22'']" "list_all keyed [''Port 22'']"
    by code_simp+
  have "pe_read two_files ''/a'' = Inr (unlines ((''Include '' @ ''/b'') # []))"
    "pe_read two_files ''/b'' = Inr (unlines ((''Include '' @ ''/a'') # [''Port 22'']))"
    "pe_glob two_files p = Inr [p]" for p
    by (simp_all add: two_files_def)
  with word plain show "include_circle two_files {''/a'', ''/b''}"
    unfolding include_circle_def by (metis (no_types, lifting) insertCI insertE list.pred_inject(1) singletonD)
qed simp

section \<open>A comment behind an include\<close>

lemma parse_matches_fails:
  "m \<in> set ms \<Longrightarrow> parse m = Failed e \<Longrightarrow> parse_matches parse ms = Done files \<Longrightarrow> False"
  by (induction ms arbitrary: files) (auto simp: and_then_Done)

lemma remove_dups_set: "set (remove_dups xs) = set xs"
proof -
  have "set (foldl remove_dups_step ys xs) = set ys \<union> set xs" for ys
    by (induction xs arbitrary: ys) (auto simp: remove_dups_step_def)
  then show ?thesis
    by (simp add: remove_dups_def)
qed

text \<open>
  An \<open>Include\<close> line is read with the files its pattern names. With a comment behind it the
  same line is refused as soon as the directory \<open>.ssh\<close> exists: the space before the comment adds an
  empty pattern, which names that directory, and a directory cannot be read.
\<close>

theorem include_comment_refused:
  assumes d: "file_word d" and c: "plain_text c"
    and files: "pe_glob env (directive_path env False d) = Inr ms"
      "parse_matches (parse_with_depth env 1) (remove_dups ms) = Done fs"
    and home: "pe_glob env (path_join [pe_home env, ''.ssh'', '''']) = Inr [dir]" "pe_read env dir = Inl e"
  shows "(\<exists>i. decode_bytes env (unlines [''Include '' @ d]) = Done [Host implicit_host [Include i fs]])
     \<and> (\<exists>e'. decode_bytes env (unlines [''Include '' @ d @ '' #'' @ c]) = Failed e')"
proof -
  let ?inc = "at_depth 1 (new_include env (parse_with_depth env 1) False 1)"
  have decode: "decode_bytes env (unlines [line_text (include_line d c)]) = line_config ?inc 1 (include_line d c) new_config"
    if "case c of None \<Rightarrow> True | Some c \<Rightarrow> plain_text c" for c
    unfolding decode_bytes_def by (intro decode_one_line wf_include_line d that)
  have inc: "?inc [d] False (1, 1) '''' = Done (Include \<lparr>in_comment = '''', in_directives = [d], in_leading_space = 0,
      in_position = (1, 1), in_depth = 1, in_has_equals = False\<rparr> fs)"
    using files by (simp add: at_depth_def new_include_def max_recurse_depth_def)
  have read: "\<exists>i. decode_bytes env (unlines [''Include '' @ d]) = Done [Host implicit_host [Include i fs]]"
    using decode[of None] parse_include_line[of new_config ?inc 1 d None] split_file_word[OF d] inc
    by (auto simp: include_line_text new_config_def append_node_def add_node_def)
  have empty: "directive_path env False '''' = path_join [pe_home env, ''.ssh'', '''']"
    by (simp add: directive_path_def is_abs_def)
  have "parse_with_depth env 1 dir = Failed e"
    using home(2) by (subst parse_with_depth.simps) simp
  then have "\<nexists>nd. ?inc [d, ''''] False (1, 1) c = Done nd"
    using files(1) home(1) empty parse_matches_fails[of dir "remove_dups (ms @ [dir])" "parse_with_depth env 1" e]
    by (auto simp: at_depth_def new_include_def and_then_Done remove_dups_set)
  moreover obtain col where "decode_bytes env (unlines [''Include '' @ d @ '' #'' @ c]) =
     (case ?inc [d, ''''] False (1, 1) c of
        Done nd \<Rightarrow> append_node nd new_config
      | Failed e \<Rightarrow> if e = err_depth_exceeded then Failed e
          else raise_errorf (tok 1 col Token_String (d @ '' '')) (''Error parsing Include directive: '' @ err_message e)
      | Panicked \<Rightarrow> Panicked)"
    using decode[of "Some c"] c parse_include_line[of new_config ?inc 1 d "Some c"] split_file_word[OF d]
    by (auto simp: include_line_text new_config_def)
  ultimately have "decode_bytes env (unlines [''Include '' @ d @ '' #'' @ c]) \<noteq> Done c'" for c'
    by (cases "?inc [d, ''''] False (1, 1) c") (auto simp: raise_errorf_def)
  moreover have "decode_bytes env (unlines [''Include '' @ d @ '' #'' @ c]) \<noteq> Panicked"
    unfolding decode_bytes_def
    by (intro conjunct1[OF parse_ssh_quiet] at_depth_quiet new_include_quiet parse_with_depth_quiet)
  ultimately have "\<exists>e'. decode_bytes env (unlines [''Include '' @ d @ '' #'' @ c]) = Failed e'"
    by (metis outcome.exhaust)
  with read show ?thesis ..
qed

definition home_dir :: parse_env where
  "home_dir = \<lparr>pe_home = ''/h'', pe_glob = (\<lambda>p. if p = ''/h/.ssh/work'' then Inr [''/h/.ssh/work''] else Inr [''/h/.ssh'']),
     pe_read = (\<lambda>p. if p = ''/h/.ssh/work'' then Inr '''' else errorf ''is a directory'')\<rparr>"

lemma include_comment_refused_witness:
  "(\<exists>i. decode_bytes home_dir (unlines [''Include work'']) = Done [Host implicit_host [Include i [(''/h/.ssh/work'', new_config)]]])
   \<and> (\<exists>e. decode_bytes home_dir (unlines [''Include work # jobs'']) = Failed e)"
proof -
  have "file_word ''work''" "plain_text '' jobs''"
    "pe_glob home_dir (directive_path home_dir False ''work'') = Inr [''/h/.ssh/work'']"
    "parse_matches (parse_with_depth home_dir 1) (remove_dups [''/h/.ssh/work'']) = Done [(''/h/.ssh/work'', new_config)]"
    "pe_glob home_dir (path_join [pe_home home_dir, ''.ssh'', '''']) = Inr [''/h/.ssh'']"
    "pe_read home_dir ''/h/.ssh'' = Inl (Go_Error False ''is a directory'')"
    by code_simp+
  from include_comment_refused[OF this] show ?thesis
    by simp
qed

end
