(* ===== verification/Pshell_Line.thy ===== *)
theory Pshell_Line
  imports Cli_Spec Go_Bytes "HOL-Library.Sublist"
begin

text \<open>
  Command lines of the parallel shell, \<^verbatim>\<open>internal/pshell\<close>: from the syntax tree of the shell
  library to stages (\<^verbatim>\<open>parse.go\<close>), the aliases (\<^verbatim>\<open>alias.go\<close>), which commands are
  built in or local (\<^verbatim>\<open>cmd.go\<close>), the joining of remote stages and the pipes between stages
  (\<^verbatim>\<open>executor.go\<close>). Parsing a text into the tree is the library's and a parameter.
\<close>

section \<open>The syntax tree\<close>

record redirect =
  rd_n :: "string option"
  rd_op :: string
  rd_parts :: "string list"        \<comment> \<open>as printed\<close>

text \<open>A call holds its words as printed; any other command of the library is \<open>Other_Cmd\<close>.\<close>

datatype sh_command =
    Call_Expr "string list"
  | Binary_Cmd sh_stmt string sh_stmt
  | Other_Cmd
and sh_stmt = Stmt "sh_command option" "redirect list"

record pipe_line =
  pl_args :: "string list"
  pl_op :: string

definition pipe_line_string :: "pipe_line \<Rightarrow> string" where
  "pipe_line_string p = join_with '' '' (pl_args p) @ '' '' @ pl_op p"

definition join_pipe_line_slice :: "pipe_line list \<Rightarrow> string" where
  "join_pipe_line_slice ps = concat (map pipe_line_string ps)"

definition parse_redirect :: "redirect list \<Rightarrow> string list" where
  "parse_redirect rs =
     map (\<lambda>r. (case rd_n r of None \<Rightarrow> '''' | Some n \<Rightarrow> n) @ rd_op r @ concat (rd_parts r)) rs"

text \<open>The loop of \<open>parsePipeLine\<close> over one statement; \<open>None\<close> is a loop that does not return.\<close>

partial_function (option) stmt_loop ::
  "sh_command option \<Rightarrow> redirect list \<Rightarrow> pipe_line list \<Rightarrow> pipe_line list option"
where
  "stmt_loop stmt_cmd stmt_redirs cmd_line =
     (case stmt_cmd of
        Some (Call_Expr args) \<Rightarrow>
          Some (cmd_line @ [\<lparr>pl_args = args @ parse_redirect stmt_redirs, pl_op = ''''\<rparr>])
      | Some (Binary_Cmd (Stmt xc xr) op (Stmt yc yr)) \<Rightarrow>
          (case xc of
             Some (Call_Expr args) \<Rightarrow>
               stmt_loop yc yr (cmd_line @ [\<lparr>pl_args = args @ parse_redirect xr, pl_op = op\<rparr>])
           | Some (Binary_Cmd x o' y) \<Rightarrow> stmt_loop xc xr cmd_line
           | _ \<Rightarrow> stmt_loop stmt_cmd stmt_redirs cmd_line)
      | _ \<Rightarrow> stmt_loop stmt_cmd stmt_redirs cmd_line)"

declare stmt_loop.simps [code]

fun parse_stmts :: "sh_stmt list \<Rightarrow> pipe_line list list option" where
  "parse_stmts [] = Some []"
| "parse_stmts (Stmt c r # ss) =
     (case stmt_loop c r [] of None \<Rightarrow> None
      | Some l \<Rightarrow> (case parse_stmts ss of None \<Rightarrow> None | Some ls \<Rightarrow> Some (l # ls)))"

text \<open>\<open>parsePipeLine\<close>, where \<open>parse\<close> is the library's parser.\<close>

definition parse_pipe_line :: "(string \<Rightarrow> sh_stmt list result) \<Rightarrow> string \<Rightarrow> pipe_line list list result option" where
  "parse_pipe_line parse command =
     (case parse command of Inl e \<Rightarrow> Some (Inl e) | Inr stmts \<Rightarrow> map_option Inr (parse_stmts stmts))"

section \<open>Kinds of commands\<close>

definition check_build_in_command :: "string \<Rightarrow> bool" where
  "check_build_in_command cmd =
     (cmd \<in> set [''exit'', ''quit'', ''clear'']
      \<or> cmd \<in> set [''%history'', ''%out'', ''%outlist'', ''%outexec'', ''%get'', ''%put'', ''%sync'', ''%diff'',
           ''%status'', ''%reconnect'', ''%save'', ''%set''])"

definition check_local_command :: "string \<Rightarrow> bool" where
  "check_local_command cmd = has_prefix cmd ''+''"

definition check_local_build_in_command :: "string \<Rightarrow> bool" where
  "check_local_build_in_command cmd = (check_build_in_command cmd \<or> check_local_command cmd)"

definition normalize_local_command :: "string \<Rightarrow> string" where
  "normalize_local_command cmd =
     (if has_prefix cmd ''++'' then trim_prefix cmd ''++'' else trim_prefix cmd ''+'')"

text \<open>What \<open>run\<close> calls for the words of a stage; \<open>cnt\<close> is the number of the next history entry.\<close>

datatype run_call =
    Run_Exit | Run_Clear | Run_Out int | Run_Out_Help | Run_Out_Invalid string
  | Run_Build_In string | Run_Local | Run_Remote

definition run_dispatch :: "int \<Rightarrow> string list \<Rightarrow> run_call outcome" where
  "run_dispatch cnt args =
     (case args of [] \<Rightarrow> Panicked
      | command # rest \<Rightarrow> Done
         (if command = ''exit'' \<or> command = ''quit'' then Run_Exit
          else if command = ''clear'' then Run_Clear
          else if command = ''%out'' then
            (case rest of [] \<Rightarrow> Run_Out (cnt - 1)
             | num # _ \<Rightarrow>
                 if num = ''--help'' \<or> num = ''-h'' then Run_Out_Help
                 else (case atoi num of None \<Rightarrow> Run_Out_Invalid num | Some n \<Rightarrow> Run_Out n))
          else if command \<in> set [''%history'', ''%outlist'', ''%outexec'', ''%get'', ''%put'', ''%sync'',
                 ''%diff'', ''%status'', ''%reconnect''] then Run_Build_In command
          else if check_local_command command then Run_Local
          else Run_Remote))"

section \<open>Joining remote stages\<close>

record join_state =
  js_before_local :: bool
  js_before_targeted :: bool
  js_bpline :: pipe_line
  js_result :: "pipe_line list"

definition empty_pipe_line :: pipe_line where
  "empty_pipe_line = \<lparr>pl_args = [], pl_op = ''''\<rparr>"

definition flush_bpline :: "join_state \<Rightarrow> pipe_line list" where
  "flush_bpline s = (if pl_args (js_bpline s) \<noteq> [] then js_result s @ [js_bpline s] else js_result s)"

text \<open>One round of the loop; \<open>pline.Args[0]\<close> panics when a stage has no words.\<close>

definition join_step :: "join_state \<Rightarrow> pipe_line \<Rightarrow> join_state outcome" where
  "join_step s pline =
     (case pl_args pline of [] \<Rightarrow> Panicked
      | cmd # _ \<Rightarrow>
          (let is_local = check_local_build_in_command cmd;
               is_targeted = is_targeted_remote_command cmd
           in if is_local \<or> is_targeted
              then Done \<lparr>js_before_local = is_local, js_before_targeted = is_targeted, js_bpline = pline,
                     js_result = flush_bpline s\<rparr>
              else if js_before_local s \<or> js_before_targeted s
              then Done \<lparr>js_before_local = False, js_before_targeted = False, js_bpline = pline,
                     js_result = flush_bpline s\<rparr>
              else Done (s\<lparr>js_bpline := \<lparr>pl_args = pl_args (js_bpline s) @ [pl_op (js_bpline s)] @ pl_args pline,
                     pl_op = pl_op pline\<rparr>\<rparr>)))"

fun join_loop :: "join_state \<Rightarrow> pipe_line list \<Rightarrow> join_state outcome" where
  "join_loop s [] = Done s"
| "join_loop s (p # ps) = and_then (join_step s p) (\<lambda>s. join_loop s ps)"

definition join_pipe_line :: "pipe_line list \<Rightarrow> pipe_line list outcome" where
  "join_pipe_line ps =
     and_then (join_loop \<lparr>js_before_local = False, js_before_targeted = False, js_bpline = empty_pipe_line, js_result = []\<rparr> ps)
       (\<lambda>s. Done (js_result s @ [js_bpline s]))"

section \<open>Aliases\<close>

record shell_config =
  sc_alias :: "(string \<times> string) list"     \<comment> \<open>name and command\<close>

definition alias_args ::
    "(string \<Rightarrow> sh_stmt list result) \<Rightarrow> shell_config \<Rightarrow> string \<Rightarrow> string list option option" where
  "alias_args parse cfg name =
     (case map_of (sc_alias cfg) name of
        None \<Rightarrow> Some None
      | Some command \<Rightarrow>
          if trim_space command = '''' then Some None
          else (case parse_pipe_line parse command of
                  None \<Rightarrow> None
                | Some (Inr [[p]]) \<Rightarrow>
                    (case pl_args p of [] \<Rightarrow> Some None
                     | a # as \<Rightarrow> if check_local_build_in_command a \<or> is_targeted_remote_command a then Some None
                                else Some (Some (a # as)))
                | Some r \<Rightarrow> Some None))"

text \<open>\<open>parseLeadingTargetSelector\<close>: targets, command, token, and whether the selector is unfinished.\<close>

definition parse_leading_target_selector ::
    "string \<Rightarrow> string list \<Rightarrow> string list \<times> string \<times> string \<times> bool" where
  "parse_leading_target_selector line known_hosts =
     (let line = dropWhile (\<lambda>c. c = CHR '' '') line
      in if line = '''' \<or> hd line \<noteq> CHR ''@'' then ([], '''', '''', False)
         else (let token = takeWhile (\<lambda>c. c \<noteq> CHR '' '' \<and> c \<noteq> CHR ''|'') line
               in if \<not> has_prefix token ''@'' then ([], '''', '''', False)
                  else (case parse_targeted_command token known_hosts of
                          Inr (targets, head) \<Rightarrow> (targets, head @ trim_prefix line token, token, False)
                        | Inl e \<Rightarrow>
                            (filter (\<lambda>h. h \<noteq> '''') (map trim_space (split_on CHR '','' (trim_prefix token ''@''))),
                             '''', token, True))))"

definition expand_stage ::
    "(string \<Rightarrow> sh_stmt list result) \<Rightarrow> shell_config \<Rightarrow> string list \<Rightarrow> pipe_line \<Rightarrow> pipe_line option" where
  "expand_stage parse cfg known_hosts p =
     (case pl_args p of [] \<Rightarrow> Some p
      | command # rest \<Rightarrow>
          if check_local_build_in_command command then Some p
          else (let (targets, cmd, token, in_selector) =
                      (if is_targeted_remote_command command then parse_leading_target_selector command known_hosts
                       else ([], command, '''', False));
                    prefix = (if is_targeted_remote_command command then ''@'' @ join_with '','' targets @ '':'' else '''')
                in if is_targeted_remote_command command \<and> (in_selector \<or> cmd = '''') then Some p
                   else (case alias_args parse cfg cmd of
                           None \<Rightarrow> None
                         | Some None \<Rightarrow> Some p
                         | Some (Some []) \<Rightarrow> Some p
                         | Some (Some (a # as)) \<Rightarrow> Some (p\<lparr>pl_args := (prefix @ a) # as @ rest\<rparr>))))"

fun expand_pipe_line_aliases ::
    "(string \<Rightarrow> sh_stmt list result) \<Rightarrow> shell_config \<Rightarrow> string list \<Rightarrow> pipe_line list \<Rightarrow> pipe_line list option" where
  "expand_pipe_line_aliases parse cfg known_hosts [] = Some []"
| "expand_pipe_line_aliases parse cfg known_hosts (p # ps) =
     (case expand_stage parse cfg known_hosts p of None \<Rightarrow> None
      | Some p' \<Rightarrow>
          (case expand_pipe_line_aliases parse cfg known_hosts ps of None \<Rightarrow> None
           | Some ps' \<Rightarrow> Some (p' # ps')))"

fun expand_aliases ::
    "(string \<Rightarrow> sh_stmt list result) \<Rightarrow> shell_config \<Rightarrow> string list \<Rightarrow> pipe_line list list \<Rightarrow> pipe_line list list option" where
  "expand_aliases parse cfg known_hosts [] = Some []"
| "expand_aliases parse cfg known_hosts (l # ls) =
     (if sc_alias cfg = [] then Some (l # ls)
      else (case expand_pipe_line_aliases parse cfg known_hosts l of None \<Rightarrow> None
            | Some l' \<Rightarrow> (case expand_aliases parse cfg known_hosts ls of None \<Rightarrow> None | Some ls' \<Rightarrow> Some (l' # ls'))))"

section \<open>What the loop over a statement returns\<close>

text \<open>The stages of a command by recursion on the tree.\<close>

fun stages :: "sh_command option \<Rightarrow> redirect list \<Rightarrow> pipe_line list option" where
  "stages (Some (Call_Expr args)) r = Some [\<lparr>pl_args = args @ parse_redirect r, pl_op = ''''\<rparr>]"
| "stages (Some (Binary_Cmd (Stmt (Some (Call_Expr args)) xr) op (Stmt yc yr))) r =
     map_option ((#) \<lparr>pl_args = args @ parse_redirect xr, pl_op = op\<rparr>) (stages yc yr)"
| "stages (Some (Binary_Cmd (Stmt (Some (Binary_Cmd x o' y)) xr) op (Stmt yc yr))) r = stages (Some (Binary_Cmd x o' y)) xr"
| "stages (Some (Binary_Cmd (Stmt (Some Other_Cmd) xr) op (Stmt yc yr))) r = None"
| "stages (Some (Binary_Cmd (Stmt None xr) op (Stmt yc yr))) r = None"
| "stages (Some Other_Cmd) r = None"
| "stages None r = None"

lemma stmt_loop_stages_Some:
  "stages c r = Some ls \<Longrightarrow> stmt_loop c r acc = Some (acc @ ls)"
proof (induction c r arbitrary: acc ls rule: stages.induct)
  case (2 args xr op yc yr r)
  then show ?case
    by (subst stmt_loop.simps) auto
qed (subst stmt_loop.simps; simp)+

lemma stmt_loop_returns:
  assumes "stmt_loop c r acc = Some ls"
  shows "stages c r \<noteq> None"
proof (rule stmt_loop.raw_induct[OF _ assms, where P = "\<lambda>c r acc ls. stages c r \<noteq> None"])
  fix loop c r acc ls
  assume IH: "\<And>c r acc ls. loop c r acc = Some ls \<Longrightarrow> stages c r \<noteq> None"
    and "(case c of
        Some (Call_Expr args) \<Rightarrow> Some (acc @ [\<lparr>pl_args = args @ parse_redirect r, pl_op = ''''\<rparr>])
      | Some (Binary_Cmd (Stmt xc xr) op (Stmt yc yr)) \<Rightarrow>
          (case xc of
             Some (Call_Expr args) \<Rightarrow> loop yc yr (acc @ [\<lparr>pl_args = args @ parse_redirect xr, pl_op = op\<rparr>])
           | Some (Binary_Cmd x o' y) \<Rightarrow> loop xc xr acc
           | _ \<Rightarrow> loop c r acc)
      | _ \<Rightarrow> loop c r acc) = Some ls"
  then show "stages c r \<noteq> None"
    by (auto split: option.splits sh_command.splits sh_stmt.splits dest!: IH)
qed

lemma stmt_loop_stages: "stmt_loop c r acc = map_option (\<lambda>ls. acc @ ls) (stages c r)"
  using stmt_loop_stages_Some[of c r _ acc] stmt_loop_returns[of c r acc]
  by (cases "stmt_loop c r acc"; cases "stages c r") auto

text \<open>The tree of calls joined by operators that nest to the right, as the library does for pipes.\<close>

fun pipe_stmt :: "string list \<Rightarrow> redirect list \<Rightarrow> (string \<times> string list \<times> redirect list) list \<Rightarrow> sh_stmt" where
  "pipe_stmt a r [] = Stmt (Some (Call_Expr a)) r"
| "pipe_stmt a r ((op, a', r') # cs) = Stmt (Some (Binary_Cmd (Stmt (Some (Call_Expr a)) r) op (pipe_stmt a' r' cs))) []"

fun pipe_stages :: "string list \<Rightarrow> redirect list \<Rightarrow> (string \<times> string list \<times> redirect list) list \<Rightarrow> pipe_line list" where
  "pipe_stages a r [] = [\<lparr>pl_args = a @ parse_redirect r, pl_op = ''''\<rparr>]"
| "pipe_stages a r ((op, a', r') # cs) = \<lparr>pl_args = a @ parse_redirect r, pl_op = op\<rparr> # pipe_stages a' r' cs"

lemma stages_pipe_stmt: "(case pipe_stmt a r cs of Stmt c r' \<Rightarrow> stages c r') = Some (pipe_stages a r cs)"
proof (induction a r cs rule: pipe_stmt.induct)
  case (2 a r op a' r' cs)
  then show ?case
    by (cases "pipe_stmt a' r' cs") auto
qed simp

text \<open>
  C33. A pipe of calls is parsed into all its stages, in order and with their operators. When the
  operators nest to the left, as those of a list with two \<open>&&\<close> do, the last operand is dropped,
  whatever it is; and a subshell, a block, or a redirection without a command keeps the loop going
  for ever.
\<close>

theorem parse_stmts_spec:
  "parse_stmts [pipe_stmt a r cs] = Some [pipe_stages a r cs]
   \<and> parse_stmts [Stmt (Some (Binary_Cmd (pipe_stmt a r ((op, a', r') # cs)) op' y)) rs]
       = Some [pipe_stages a r ((op, a', r') # cs)]
   \<and> parse_stmts [Stmt (Some Other_Cmd) rs] = None
   \<and> parse_stmts [Stmt None rs] = None"
proof -
  have 1: "parse_stmts [pipe_stmt a r cs] = Some [pipe_stages a r cs]" for a r cs
    using stages_pipe_stmt[of a r cs] by (cases "pipe_stmt a r cs") (simp add: stmt_loop_stages)
  have 2: "parse_stmts [Stmt (Some (Binary_Cmd (pipe_stmt a r ((op, a', r') # cs)) op' y)) rs]
      = Some [pipe_stages a r ((op, a', r') # cs)]"
    using stages_pipe_stmt[of a r "(op, a', r') # cs"] by (cases y; cases "pipe_stmt a' r' cs") (auto simp: stmt_loop_stages)
  show ?thesis
    using 1[of a r cs] 2 by (simp add: stmt_loop_stages)
qed

section \<open>What joining does\<close>

definition solo :: "pipe_line \<Rightarrow> bool" where
  "solo p \<longleftrightarrow> check_local_build_in_command (hd (pl_args p)) \<or> is_targeted_remote_command (hd (pl_args p))"

definition merge_two :: "pipe_line \<Rightarrow> pipe_line \<Rightarrow> pipe_line" where
  "merge_two b p = \<lparr>pl_args = pl_args b @ [pl_op b] @ pl_args p, pl_op = pl_op p\<rparr>"

text \<open>Solo stages stay as they are, each maximal run of other stages becomes one.\<close>

function join_spec :: "pipe_line list \<Rightarrow> pipe_line list" where
  "join_spec [] = []"
| "join_spec (p # ps) =
     (if solo p then p # join_spec ps
      else foldl merge_two p (takeWhile (\<lambda>q. \<not> solo q) ps) # join_spec (dropWhile (\<lambda>q. \<not> solo q) ps))"
  by pat_completeness auto
termination
  by (relation "measure length") (auto simp: le_imp_less_Suc length_dropWhile_le)

lemma check_local_empty [simp]: "\<not> check_local_build_in_command ''''" "\<not> is_targeted_remote_command ''''"
  by (simp_all add: check_local_build_in_command_def check_build_in_command_def check_local_command_def is_targeted_remote_command_def)

definition before_solo :: "join_state \<Rightarrow> bool" where
  "before_solo s \<longleftrightarrow> js_before_local s \<or> js_before_targeted s"

lemma join_step_cases:
  assumes "pl_args p \<noteq> []"
  shows "\<exists>s'. join_step s p = Done s' \<and>
     (if solo p then before_solo s' \<and> js_bpline s' = p \<and> js_result s' = flush_bpline s
      else \<not> before_solo s' \<and> (if before_solo s then js_bpline s' = p \<and> js_result s' = flush_bpline s
                               else js_bpline s' = merge_two (js_bpline s) p \<and> js_result s' = js_result s))"
  using assms by (cases "pl_args p") (auto simp: join_step_def solo_def before_solo_def merge_two_def Let_def)

lemma join_loop_spec:
  assumes "\<forall>p \<in> set ps. pl_args p \<noteq> []" "pl_args (js_bpline s) \<noteq> []"
  shows "\<exists>s'. join_loop s ps = Done s' \<and> js_result s' @ [js_bpline s'] = js_result s @
     (if before_solo s then js_bpline s # join_spec ps
      else foldl merge_two (js_bpline s) (takeWhile (\<lambda>q. \<not> solo q) ps) # join_spec (dropWhile (\<lambda>q. \<not> solo q) ps))"
  using assms
proof (induction ps arbitrary: s)
  case (Cons p ps)
  obtain s1 where s1: "join_step s p = Done s1"
    "if solo p then before_solo s1 \<and> js_bpline s1 = p \<and> js_result s1 = flush_bpline s
      else \<not> before_solo s1 \<and> (if before_solo s then js_bpline s1 = p \<and> js_result s1 = flush_bpline s
                               else js_bpline s1 = merge_two (js_bpline s) p \<and> js_result s1 = js_result s)"
    using join_step_cases[of p s] Cons.prems by auto
  have flush: "flush_bpline s = js_result s @ [js_bpline s]"
    using Cons.prems by (simp add: flush_bpline_def)
  have "pl_args (js_bpline s1) \<noteq> []"
    using s1(2) Cons.prems by (auto simp: merge_two_def split: if_splits)
  then obtain s' where s': "join_loop s1 ps = Done s'" "js_result s' @ [js_bpline s'] = js_result s1 @
     (if before_solo s1 then js_bpline s1 # join_spec ps
      else foldl merge_two (js_bpline s1) (takeWhile (\<lambda>q. \<not> solo q) ps) # join_spec (dropWhile (\<lambda>q. \<not> solo q) ps))"
    using Cons.IH[of s1] Cons.prems by auto
  then show ?case
    using s1 flush by (auto split: if_splits)
qed auto

text \<open>The words and operators of stages, in order.\<close>

definition words :: "pipe_line list \<Rightarrow> string list" where
  "words ps = concat (map (\<lambda>p. pl_args p @ [pl_op p]) ps)"

lemma words_simps [simp]: "words [] = []" "words (p # ps) = pl_args p @ [pl_op p] @ words ps" "words (ps @ qs) = words ps @ words qs"
  by (simp_all add: words_def)

lemma words_merge: "words [foldl merge_two b ps] = words (b # ps)"
  by (induction ps arbitrary: b) (simp_all add: merge_two_def)

lemma words_join_spec: "words (join_spec ps) = words ps"
proof (induction ps rule: join_spec.induct)
  case (2 p ps)
  show ?case
  proof (cases "solo p")
    case False
    have "words (join_spec (p # ps)) = words [foldl merge_two p (takeWhile (\<lambda>q. \<not> solo q) ps)] @ words (dropWhile (\<lambda>q. \<not> solo q) ps)"
      using False 2 by simp
    also have "\<dots> = words ((p # takeWhile (\<lambda>q. \<not> solo q) ps) @ dropWhile (\<lambda>q. \<not> solo q) ps)"
      unfolding words_merge words_simps(3) ..
    finally show ?thesis
      by (simp only: append_Cons takeWhile_dropWhile_id)
  qed (use 2 in simp)
qed simp

text \<open>The stage the joining starts from.\<close>

definition with_start :: "pipe_line list \<Rightarrow> pipe_line list" where
  "with_start ps = (if ps \<noteq> [] \<and> \<not> solo (hd ps) then merge_two empty_pipe_line (hd ps) # tl ps else ps)"

text \<open>
  C10. Joining yields the local, built-in and targeted stages as they are, in their places, and one stage
  for each maximal run of remote stages between them; no word and no operator is lost or moved.
  When the line starts with a remote stage the first word is an empty one. A stage without words,
  which the parser yields for an assignment, makes it panic.
\<close>

theorem join_pipe_line_spec:
  assumes "ps \<noteq> []"
  shows "join_pipe_line ps =
     (if list_all (\<lambda>p. pl_args p \<noteq> []) ps then Done (join_spec (with_start ps)) else Panicked)
   \<and> words (join_spec (with_start ps)) = (if solo (hd ps) then words ps else '''' # words ps)"
proof -
  obtain p qs where ps: "ps = p # qs"
    using assms by (cases ps) auto
  let ?s0 = "\<lparr>js_before_local = False, js_before_targeted = False, js_bpline = empty_pipe_line, js_result = []\<rparr>"
  have words: "words (join_spec (with_start ps)) = (if solo (hd ps) then words ps else '''' # words ps)"
    unfolding words_join_spec by (simp add: ps with_start_def merge_two_def empty_pipe_line_def)
  have "join_pipe_line ps =
     (if list_all (\<lambda>p. pl_args p \<noteq> []) ps then Done (join_spec (with_start ps)) else Panicked)"
  proof (cases "list_all (\<lambda>p. pl_args p \<noteq> []) ps")
    case True
    then have "pl_args p \<noteq> []" "\<forall>p \<in> set qs. pl_args p \<noteq> []"
      by (auto simp: ps list_all_iff)
    then obtain s1 where s1: "join_step ?s0 p = Done s1"
      "if solo p then before_solo s1 \<and> js_bpline s1 = p \<and> js_result s1 = flush_bpline ?s0
      else \<not> before_solo s1 \<and> js_bpline s1 = merge_two empty_pipe_line p \<and> js_result s1 = []"
      using join_step_cases[of p ?s0] by (auto simp: before_solo_def split: if_splits)
    have "flush_bpline ?s0 = []"
      by (simp add: flush_bpline_def empty_pipe_line_def)
    moreover have "pl_args (js_bpline s1) \<noteq> []"
      using s1(2) \<open>pl_args p \<noteq> []\<close> by (auto simp: merge_two_def split: if_splits)
    moreover have "\<not> solo (merge_two empty_pipe_line p)"
      by (simp add: merge_two_def empty_pipe_line_def solo_def)
    ultimately show ?thesis
      using join_loop_spec[of qs s1] \<open>\<forall>p \<in> set qs. pl_args p \<noteq> []\<close> s1 True
      by (auto simp: join_pipe_line_def ps with_start_def split: if_splits)
  next
    case False
    have "\<exists>p \<in> set ps. pl_args p = [] \<Longrightarrow> join_loop s ps = Panicked" for s
    proof (induction ps arbitrary: s)
      case (Cons p ps)
      show ?case
      proof (cases "pl_args p = []")
        case True
        then show ?thesis
          by (simp add: join_step_def)
      next
        case False
        with Cons show ?thesis
          using join_step_cases[of p s] by auto
      qed
    qed simp
    with False show ?thesis
      by (auto simp: join_pipe_line_def list_all_iff)
  qed
  with words show ?thesis
    by blast
qed

text \<open>\<open>a | +b | c\<close>: the local stage stays alone.\<close>

theorem join_pipe_line_spec_witness:
  "join_pipe_line [\<lparr>pl_args = [''a''], pl_op = ''|''\<rparr>, \<lparr>pl_args = [''+b''], pl_op = ''|''\<rparr>, \<lparr>pl_args = [''c''], pl_op = ''''\<rparr>]
     = Done (join_spec (with_start [\<lparr>pl_args = [''a''], pl_op = ''|''\<rparr>, \<lparr>pl_args = [''+b''], pl_op = ''|''\<rparr>,
         \<lparr>pl_args = [''c''], pl_op = ''''\<rparr>]))"
  using join_pipe_line_spec[of "[\<lparr>pl_args = [''a''], pl_op = ''|''\<rparr>, \<lparr>pl_args = [''+b''], pl_op = ''|''\<rparr>,
         \<lparr>pl_args = [''c''], pl_op = ''''\<rparr>]"] by simp

section \<open>What aliases do\<close>

definition expanded_from :: "pipe_line \<Rightarrow> pipe_line \<Rightarrow> bool" where
  "expanded_from p p' \<longleftrightarrow> pl_op p' = pl_op p \<and> suffix (tl (pl_args p)) (pl_args p')
     \<and> (pl_args p' = [] \<longleftrightarrow> pl_args p = [])
     \<and> (pl_args p \<noteq> [] \<longrightarrow>
          check_local_build_in_command (hd (pl_args p')) = check_local_build_in_command (hd (pl_args p))
          \<and> (\<not> is_targeted_remote_command (hd (pl_args p)) \<longrightarrow> \<not> is_targeted_remote_command (hd (pl_args p'))))"

lemma expanded_from_refl: "expanded_from p p"
  by (cases "pl_args p") (simp_all add: expanded_from_def suffix_ConsI)

lemma at_not_local: "\<not> check_local_build_in_command (CHR ''@'' # s)"
  by (simp add: check_local_build_in_command_def check_build_in_command_def check_local_command_def)

lemma alias_args_remote:
  assumes "alias_args parse cfg name = Some (Some as)"
  shows "as \<noteq> [] \<and> \<not> check_local_build_in_command (hd as) \<and> \<not> is_targeted_remote_command (hd as)"
proof -
  obtain a as' where "as = a # as'" "\<not> check_local_build_in_command a" "\<not> is_targeted_remote_command a"
    using assms by (auto simp: alias_args_def split: option.splits if_splits sum.splits list.splits) metis
  then show ?thesis
    by simp
qed

lemma expand_stage_from:
  assumes "expand_stage parse cfg known_hosts p = Some p'"
  shows "expanded_from p p'"
proof (cases "pl_args p")
  case Nil
  with assms show ?thesis
    by (simp add: expand_stage_def expanded_from_refl)
next
  case (Cons command rest)
  show ?thesis
  proof (cases "p' = p")
    case False
    let ?t = "is_targeted_remote_command command"
    obtain targets cmd token in_sel where sel: "(if ?t then parse_leading_target_selector command known_hosts
        else ([], command, '''', False)) = (targets, cmd, token, in_sel)"
      by (metis prod_cases4)
    have not_local: "\<not> check_local_build_in_command command"
      using assms False Cons by (auto simp: expand_stage_def)
    then obtain a as where a: "alias_args parse cfg cmd = Some (Some (a # as))"
      "p' = p\<lparr>pl_args := ((if ?t then ''@'' @ join_with '','' targets @ '':'' else '''') @ a) # as @ rest\<rparr>"
      using assms False Cons by (auto simp: expand_stage_def sel Let_def split: option.splits list.splits if_splits)
    have "\<not> check_local_build_in_command (hd (pl_args p'))"
      using alias_args_remote[OF a(1)] a(2) at_not_local by auto
    moreover have "\<not> ?t \<longrightarrow> \<not> is_targeted_remote_command (hd (pl_args p'))"
      using alias_args_remote[OF a(1)] a(2) by auto
    moreover have "suffix rest (pl_args p')"
      using a(2) by (auto simp: suffix_def)
    ultimately show ?thesis
      using Cons not_local a(2) by (auto simp: expanded_from_def)
  qed (simp add: expanded_from_refl)
qed

text \<open>
  Expanding aliases never turns a remote command into a local or built-in one, nor one without
  targets into one with targets, nor the other way round; the operators and the arguments of every
  stage stay.
\<close>

theorem aliases_stay_remote:
  assumes "expand_pipe_line_aliases parse cfg known_hosts ps = Some ps'"
  shows "list_all2 expanded_from ps ps'"
  using assms
proof (induction ps arbitrary: ps')
  case (Cons p ps)
  then show ?case
    using expand_stage_from by (auto split: option.splits)
qed simp

section \<open>What runs where\<close>

lemma build_in_iff:
  "check_build_in_command c \<longleftrightarrow> c \<in> set [''exit'', ''quit'', ''clear'', ''%history'', ''%out'', ''%outlist'', ''%outexec'', ''%get'',
      ''%put'', ''%sync'', ''%diff'', ''%status'', ''%reconnect'', ''%save'', ''%set'']"
  unfolding check_build_in_command_def set_simps insert_iff empty_iff by argo

text \<open>The built-in commands the shell runs itself.\<close>

definition own_names :: "string list" where
  "own_names = [''exit'', ''quit'', ''clear'', ''%out'', ''%history'', ''%outlist'', ''%outexec'', ''%get'', ''%put'', ''%sync'',
     ''%diff'', ''%status'', ''%reconnect'']"

lemma dispatch_own:
  assumes "c \<in> set own_names"
  shows "run_dispatch cnt (c # rest) \<noteq> Done Run_Remote"
proof -
  have "x \<noteq> Run_Remote \<Longrightarrow> y \<noteq> Run_Remote \<Longrightarrow> (if P then x else y) \<noteq> Run_Remote" for x y P
    by simp
  moreover have "(case rest of [] \<Rightarrow> Run_Out (cnt - 1)
             | num # _ \<Rightarrow>
                 if num = ''--help'' \<or> num = ''-h'' then Run_Out_Help
                 else (case atoi num of None \<Rightarrow> Run_Out_Invalid num | Some n \<Rightarrow> Run_Out n)) \<noteq> Run_Remote"
    by (simp split: list.split option.split)
  ultimately show ?thesis
    using assms unfolding run_dispatch_def own_names_def set_simps insert_iff empty_iff list.case outcome.inject
    by (metis run_call.distinct)
qed

lemma dispatch_other:
  "c \<notin> set own_names \<Longrightarrow> run_dispatch cnt (c # rest) = Done (if check_local_command c then Run_Local else Run_Remote)"
  by (simp only: run_dispatch_def list.case if_False own_names_def set_simps insert_iff empty_iff de_Morgan_disj simp_thms)

lemma own_names_built_in: "check_build_in_command c \<longleftrightarrow> c \<in> set own_names \<or> c = ''%save'' \<or> c = ''%set''"
  unfolding build_in_iff own_names_def set_simps insert_iff empty_iff by argo

lemma not_own: "''%save'' \<notin> set own_names" "''%set'' \<notin> set own_names"
  by (simp_all add: own_names_def)

text \<open>
  A word without a local prefix that is not the name of a built-in command runs on the remote hosts;
  of the words that count as built in, only \<open>%save\<close> and \<open>%set\<close> do so too.
\<close>

theorem run_dispatch_remote:
  "run_dispatch cnt (command # rest) = Done Run_Remote
     \<longleftrightarrow> \<not> check_local_build_in_command command \<or> command = ''%save'' \<or> command = ''%set''"
proof (cases "command \<in> set own_names")
  case True
  then show ?thesis
    using dispatch_own not_own by (auto simp: check_local_build_in_command_def own_names_built_in)
next
  case False
  then show ?thesis
    by (auto simp: dispatch_other check_local_build_in_command_def own_names_built_in check_local_command_def)
qed

end
