(* ===== verification/Pshell_Exec.thy ===== *)
theory Pshell_Exec
  imports Pshell_Line
begin

text \<open>
  Running a command line of the parallel shell, \<^verbatim>\<open>internal/pshell/executor.go\<close>: which pipes join
  the stages, which hosts a stage runs on, lines that run once per host, and the counter of the
  history; the targets of \<open>%diff\<close> (\<^verbatim>\<open>diff.go\<close>).
\<close>

section \<open>Hosts\<close>

record s_connect =
  sn_name :: string
  sn_connector :: bool
  sn_connected :: bool

text \<open>A list of pointers, some of which may be nil.\<close>

type_synonym connects = "s_connect option list"

record pshell =
  ps_connects :: connects
  ps_current :: connects
  ps_count :: nat

definition active_connects :: "pshell \<Rightarrow> connects" where
  "active_connects s = (if ps_current s \<noteq> [] then ps_current s else ps_connects s)"

definition known_hosts_from_connects :: "connects \<Rightarrow> string list" where
  "known_hosts_from_connects cs =
     concat (map (\<lambda>c. case c of None \<Rightarrow> [] | Some c \<Rightarrow> if trim_space (sn_name c) = '''' then [] else [sn_name c]) cs)"

definition is_named :: "string list \<Rightarrow> s_connect option \<Rightarrow> bool" where
  "is_named names c = (case c of None \<Rightarrow> False | Some c \<Rightarrow> sn_name c \<in> set names)"

text \<open>\<open>resolveTargetedConnects\<close>; the set of targets has no duplicates.\<close>

definition resolve_targeted_connects :: "pshell \<Rightarrow> string list \<Rightarrow> (connects \<times> string list) result" where
  "resolve_targeted_connects s args =
     (case args of [] \<Rightarrow> Inr (active_connects s, args)
      | command # rest \<Rightarrow>
          if \<not> is_targeted_remote_command command then Inr (active_connects s, args)
          else (case parse_targeted_command command (known_hosts_from_connects (active_connects s)) of
                  Inl e \<Rightarrow> Inl e
                | Inr (targets, head) \<Rightarrow>
                    (let found = filter (is_named targets) (active_connects s);
                         missing = filter (\<lambda>t. \<not> list_ex (is_named [t]) found) (remdups targets)
                     in if found = [] then errorf (''target server not found: '' @ join_with '','' targets)
                        else if length found \<noteq> card (set targets)
                        then errorf (''target server not found: '' @ join_with '','' missing)
                        else Inr (found, head # rest))))"

text \<open>\<open>pipelineScopedConnects\<close>: the hosts that every targeted stage names.\<close>

fun scope_loop :: "pipe_line list \<Rightarrow> connects \<Rightarrow> bool \<Rightarrow> (connects \<times> bool) option" where
  "scope_loop [] cs targeted = Some (cs, targeted)"
| "scope_loop (p # ps) cs targeted =
     (case pl_args p of [] \<Rightarrow> scope_loop ps cs targeted
      | a # _ \<Rightarrow>
          if check_local_build_in_command a \<or> \<not> is_targeted_remote_command a then scope_loop ps cs targeted
          else (case parse_targeted_command a (known_hosts_from_connects cs) of
                  Inl e \<Rightarrow> None
                | Inr (names, _) \<Rightarrow>
                    (let cs' = filter (is_named names) cs
                     in if cs' = [] then None else scope_loop ps cs' True)))"

definition pipeline_scoped_connects :: "pshell \<Rightarrow> pipe_line list \<Rightarrow> connects" where
  "pipeline_scoped_connects s pline =
     (if active_connects s = [] then []
      else (case scope_loop pline (active_connects s) False of
              None \<Rightarrow> []
            | Some (cs, targeted) \<Rightarrow> if targeted then cs else active_connects s))"

definition has_per_host_local_command :: "pipe_line list \<Rightarrow> bool" where
  "has_per_host_local_command pline = list_ex (\<lambda>p. pl_args p \<noteq> [] \<and> has_prefix (hd (pl_args p)) ''++'') pline"

definition normalize_per_host_stage :: "pipe_line \<Rightarrow> pipe_line" where
  "normalize_per_host_stage p =
     (if pl_args p \<noteq> [] \<and> has_prefix (hd (pl_args p)) ''++''
      then p\<lparr>pl_args := (''+'' @ trim_prefix (hd (pl_args p)) ''++'') # tl (pl_args p)\<rparr> else p)"

definition normalize_per_host_pipe_line :: "pipe_line list \<Rightarrow> pipe_line list" where
  "normalize_per_host_pipe_line pline = map normalize_per_host_stage pline"

section \<open>Pipes\<close>

definition count_pipe_set :: "pipe_line list \<Rightarrow> string \<Rightarrow> nat" where
  "count_pipe_set pline del = length (filter (\<lambda>p. pl_op p = del) pline)"

text \<open>The loop of \<open>executeJoinedPipeLine\<close>: the pipe a stage reads from and the one it writes to, by
  their index; \<open>n\<close> pipes have been used before. An index out of range panics.\<close>

definition pipe_at :: "nat \<Rightarrow> nat \<Rightarrow> nat outcome" where
  "pipe_at pnum k = (if k < pnum then Done k else Panicked)"

fun wire_loop :: "nat \<Rightarrow> string \<Rightarrow> nat \<Rightarrow> pipe_line list \<Rightarrow> (pipe_line \<times> nat option \<times> nat option) list outcome" where
  "wire_loop pnum before n [] = Done []"
| "wire_loop pnum before n (p # ps) =
     and_then (if before = ''|'' then (if n = 0 then Panicked else and_then (pipe_at pnum (n - 1)) (\<lambda>k. Done (Some k)))
               else Done None)
       (\<lambda>inp. and_then (if pl_op p = ''|'' then and_then (pipe_at pnum n) (\<lambda>k. Done (Some k)) else Done None)
         (\<lambda>out. and_then (wire_loop pnum (pl_op p) (if pl_op p = ''|'' then n + 1 else n) ps)
           (\<lambda>rest. Done ((p, inp, out) # rest))))"

definition wire_pipe_line :: "pipe_line list \<Rightarrow> (pipe_line \<times> nat option \<times> nat option) list outcome" where
  "wire_pipe_line pline = wire_loop (count_pipe_set pline ''|'') '''' 0 pline"

text \<open>The runs of several hosts; the first panic ends the program.\<close>

fun collect :: "'a list outcome list \<Rightarrow> 'a list outcome" where
  "collect [] = Done []"
| "collect (r # rs) = and_then r (\<lambda>xs. and_then (collect rs) (\<lambda>ys. Done (xs @ ys)))"

definition first_lengths :: "pipe_line list \<Rightarrow> nat" where
  "first_lengths pline = sum_list (map (\<lambda>p. case pl_args p of [] \<Rightarrow> 0 | a # _ \<Rightarrow> length a) pline)"

lemma normalize_per_host_less:
  assumes "has_per_host_local_command pline"
  shows "first_lengths (normalize_per_host_pipe_line pline) < first_lengths pline"
proof -
  let ?len = "\<lambda>p. case pl_args p of [] \<Rightarrow> 0 | a # _ \<Rightarrow> length a"
  let ?plus = "\<lambda>p. pl_args p \<noteq> [] \<and> has_prefix (hd (pl_args p)) ''++''"
  have plus: "?len (normalize_per_host_stage p) < ?len p" if "?plus p" for p
    using that by (cases "pl_args p") (auto simp: normalize_per_host_stage_def trim_prefix_def has_prefix_iff prefix_def)
  have le: "?len (normalize_per_host_stage p) \<le> ?len p" for p
    using plus[of p] by (cases "?plus p") (simp_all only: normalize_per_host_stage_def if_False simp_thms order.refl order.strict_implies_order)
  have all_le: "first_lengths (normalize_per_host_pipe_line ps) \<le> first_lengths ps" for ps
    using le by (induction ps) (simp_all add: first_lengths_def normalize_per_host_pipe_line_def add_mono)
  show ?thesis
    using assms
  proof (induction pline)
    case (Cons p ps)
    show ?case
    proof (cases "?plus p")
      case True
      then show ?thesis
        using plus[OF True] all_le[of ps] by (simp add: first_lengths_def normalize_per_host_pipe_line_def add_less_le_mono)
    next
      case False
      then have "has_per_host_local_command ps"
        using Cons.prems by (auto simp: has_per_host_local_command_def)
      then show ?thesis
        using Cons.IH le[of p] by (simp add: first_lengths_def normalize_per_host_pipe_line_def add_le_less_mono)
    qed
  qed (simp add: has_per_host_local_command_def)
qed

text \<open>What \<open>executeJoinedPipeLine\<close> and \<open>executePerHostPipeLine\<close> start: for a line with \<open>++\<close> commands
  one line for each host, else the stages with their pipes, all at once. The list holds, for each
  line, the hosts its remote stages run on and its stages.\<close>

function execute_joined_pipe_line ::
    "pshell \<Rightarrow> pipe_line list \<Rightarrow> (connects \<times> (pipe_line \<times> nat option \<times> nat option) list) list outcome" where
  "execute_joined_pipe_line s pline =
     (if has_per_host_local_command pline
      then collect (map (\<lambda>c. execute_joined_pipe_line (s\<lparr>ps_current := [c]\<rparr>) (normalize_per_host_pipe_line pline))
             (filter (\<lambda>c. c \<noteq> None) (pipeline_scoped_connects s pline)))
      else and_then (wire_pipe_line pline) (\<lambda>w. Done [(active_connects s, w)]))"
  by pat_completeness auto
termination
  by (relation "measure (\<lambda>(s, pline). first_lengths pline)") (auto simp: normalize_per_host_less)

declare execute_joined_pipe_line.simps [simp del]

text \<open>\<open>parseExecuter\<close>: the runs of all lines and the counter; a line is not counted when it only has
  one built-in command.\<close>

definition only_build_in :: "pipe_line list \<Rightarrow> bool" where
  "only_build_in pline \<longleftrightarrow> length pline \<le> 1 \<and> check_build_in_command (hd (pl_args (hd pline)))"

fun parse_executer ::
    "pshell \<Rightarrow> pipe_line list list \<Rightarrow> (connects \<times> (pipe_line \<times> nat option \<times> nat option) list) list list outcome" where
  "parse_executer s [] = Done []"
| "parse_executer s (pline # ls) =
     and_then (join_pipe_line pline)
       (\<lambda>joined. and_then (execute_joined_pipe_line s joined)
         (\<lambda>run. and_then (parse_executer s ls) (\<lambda>runs. Done (run # runs))))"

definition count_after :: "pshell \<Rightarrow> pipe_line list list \<Rightarrow> pshell" where
  "count_after s ls = (if list_all only_build_in ls then s else s\<lparr>ps_count := ps_count s + 1\<rparr>)"

text \<open>\<open>Executor\<close>: a line that does not parse or holds no command does nothing. \<open>None\<close> is a parser that
  hangs.\<close>

definition executor ::
    "(string \<Rightarrow> sh_stmt list result) \<Rightarrow> shell_config \<Rightarrow> pshell \<Rightarrow> string
      \<Rightarrow> ((connects \<times> (pipe_line \<times> nat option \<times> nat option) list) list list \<times> pshell) outcome option" where
  "executor parse cfg s command =
     (let command = trim_space command
      in if command = '''' then Some (Done ([], s))
         else (case parse_pipe_line parse command of
                 None \<Rightarrow> None
               | Some (Inl e) \<Rightarrow> Some (Done ([], s))
               | Some (Inr ls) \<Rightarrow>
                   if ls = [] then Some (Done ([], s))
                   else (case expand_aliases parse cfg (known_hosts_from_connects (ps_connects s)) ls of
                           None \<Rightarrow> None
                         | Some ls' \<Rightarrow>
                             Some (and_then (parse_executer s ls') (\<lambda>runs. Done (runs, count_after s ls'))))))"

section \<open>What the pipes join\<close>

lemma pipe_at_Done [simp]: "pipe_at pnum k = Done j \<longleftrightarrow> k < pnum \<and> j = k"
  by (auto simp: pipe_at_def)

lemma count_pipe_set_Cons: "count_pipe_set (p # ps) del = (if pl_op p = del then 1 else 0) + count_pipe_set ps del"
  by (simp add: count_pipe_set_def)

lemma wire_loop_spec:
  assumes "before = ''|'' \<longrightarrow> 0 < n \<and> n \<le> pnum" "n + count_pipe_set ps ''|'' \<le> pnum"
  shows "\<exists>ws. wire_loop pnum before n ps = Done ws \<and> map fst ws = ps
     \<and> map (\<lambda>w. snd (snd w) \<noteq> None) ws = map (\<lambda>p. pl_op p = ''|'') ps
     \<and> List.map_filter (\<lambda>w. snd (snd w)) ws = [n..<n + count_pipe_set ps ''|'']
     \<and> map (\<lambda>w. fst (snd w)) ws
         = take (length ps) ((if before = ''|'' then Some (n - 1) else None) # map (\<lambda>w. snd (snd w)) ws)"
  using assms
proof (induction ps arbitrary: before n)
  case (Cons p ps)
  let ?n = "if pl_op p = ''|'' then n + 1 else n"
  have "pl_op p = ''|'' \<longrightarrow> 0 < ?n \<and> ?n \<le> pnum" "?n + count_pipe_set ps ''|'' \<le> pnum"
    using Cons.prems by (auto simp: count_pipe_set_Cons)
  from Cons.IH[OF this] obtain ws where ws: "wire_loop pnum (pl_op p) ?n ps = Done ws" "map fst ws = ps"
     "map (\<lambda>w. snd (snd w) \<noteq> None) ws = map (\<lambda>p. pl_op p = ''|'') ps"
     "List.map_filter (\<lambda>w. snd (snd w)) ws = [?n..<?n + count_pipe_set ps ''|'']"
     "map (\<lambda>w. fst (snd w)) ws
         = take (length ps) ((if pl_op p = ''|'' then Some (?n - 1) else None) # map (\<lambda>w. snd (snd w)) ws)"
    by blast
  let ?in = "if before = ''|'' then Some (n - 1) else None"
  let ?out = "if pl_op p = ''|'' then Some n else None"
  have run: "wire_loop pnum before n (p # ps) = Done ((p, ?in, ?out) # ws)"
    using Cons.prems ws(1) by (auto simp: pipe_at_def count_pipe_set_Cons)
  have "[n..<n + count_pipe_set (p # ps) ''|''] = (if pl_op p = ''|'' then [n] else []) @ [?n..<?n + count_pipe_set ps ''|'']"
    by (simp add: count_pipe_set_Cons upt_conv_Cons)
  then show ?case
    using run ws(2-5) by (simp add: List.map_filter_simps)
qed (simp add: count_pipe_set_def List.map_filter_simps)

text \<open>
  C3. A line is started with all its stages, in order, and no pipe out of range. A stage writes to a
  pipe iff its operator is a pipe, every pipe has exactly one writer, in the order of the stages, and
  each stage reads what the stage before it writes: the first reads no pipe.
\<close>

theorem wire_pipe_line_spec:
  "\<exists>ws. wire_pipe_line ps = Done ws \<and> map fst ws = ps
     \<and> map (\<lambda>w. snd (snd w) \<noteq> None) ws = map (\<lambda>p. pl_op p = ''|'') ps
     \<and> List.map_filter (\<lambda>w. snd (snd w)) ws = [0..<count_pipe_set ps ''|'']
     \<and> map (\<lambda>w. fst (snd w)) ws = take (length ps) (None # map (\<lambda>w. snd (snd w)) ws)"
  using wire_loop_spec[of "''''" 0 "count_pipe_set ps ''|''" ps] by (simp add: wire_pipe_line_def)

section \<open>Lines that run once for each host\<close>

lemma collect_singletons: "collect (map (\<lambda>c. Done [f c]) cs) = Done (map f cs)"
  by (induction cs) simp_all

text \<open>
  A line with a \<open>++\<close> command runs once for each host that all its targeted stages name, in the order
  of the hosts, with only that host current; every other line runs once, on the active hosts.
\<close>

theorem execute_joined_spec:
  assumes "\<not> has_per_host_local_command (normalize_per_host_pipe_line ps)"
  shows "\<exists>ws. wire_pipe_line (if has_per_host_local_command ps then normalize_per_host_pipe_line ps else ps) = Done ws
     \<and> execute_joined_pipe_line s ps = Done (if has_per_host_local_command ps
          then map (\<lambda>c. ([c], ws)) (filter (\<lambda>c. c \<noteq> None) (pipeline_scoped_connects s ps))
          else [(active_connects s, ws)])"
proof -
  let ?ps = "normalize_per_host_pipe_line ps"
  obtain ws where ws: "wire_pipe_line (if has_per_host_local_command ps then ?ps else ps) = Done ws"
    using wire_pipe_line_spec by blast
  show ?thesis
  proof (cases "has_per_host_local_command ps")
    case True
    then have "execute_joined_pipe_line (s\<lparr>ps_current := [c]\<rparr>) ?ps = Done [([c], ws)]" for c
      using ws assms by (subst execute_joined_pipe_line.simps) (simp add: active_connects_def)
    then show ?thesis
      using True ws collect_singletons[of "\<lambda>c. ([c], ws)"]
      by (subst execute_joined_pipe_line.simps) (simp add: if_True)
  next
    case False
    then show ?thesis
      using ws by (subst execute_joined_pipe_line.simps) simp
  qed
qed

section \<open>Targets\<close>

lemma scope_loop_filter:
  assumes "scope_loop ps cs t = Some (cs', t')"
  shows "\<exists>P. cs' = filter P cs"
  using assms
proof (induction ps cs t arbitrary: rule: scope_loop.induct)
  case (1 cs t)
  then show ?case
    by (intro exI[of _ "\<lambda>_. True"]) simp
next
  case (2 p ps cs t)
  show ?case
  proof (cases "pl_args p")
    case Nil
    with 2 show ?thesis
      by simp
  next
    case (Cons a as)
    show ?thesis
    proof (cases "check_local_build_in_command a \<or> \<not> is_targeted_remote_command a")
      case True
      with 2 Cons show ?thesis
        by auto
    next
      case False
      then obtain names h where "parse_targeted_command a (known_hosts_from_connects cs) = Inr (names, h)"
        "scope_loop ps (filter (is_named names) cs) True = Some (cs', t')"
        using 2(4) Cons by (auto simp: Let_def split: sum.splits if_splits)
      then obtain P where "cs' = filter P (filter (is_named names) cs)"
        using 2(3)[OF Cons _ _ refl refl] False 2(4) Cons by (auto simp: Let_def split: sum.splits if_splits)
      then show ?thesis
        by auto
    qed
  qed
qed

lemma is_named_iff: "is_named names c \<longleftrightarrow> (\<exists>h. c = Some h \<and> sn_name h \<in> set names)"
  by (simp add: is_named_def split: option.splits)

text \<open>
  Where the hosts are connected under distinct names, a targeted stage runs on exactly the hosts it
  names, in the order of the hosts and with the selector gone from the command; when one of the names
  is no connected host, it is refused.
\<close>

theorem resolve_targeted_spec:
  assumes "is_targeted_remote_command command" "active_connects s = map Some hs" "distinct (map sn_name hs)"
    and "parse_targeted_command command (known_hosts_from_connects (active_connects s)) = Inr (targets, cmd)" "targets \<noteq> []"
  shows "resolve_targeted_connects s (command # rest) =
     (if set targets \<subseteq> sn_name ` set hs
      then Inr (map Some (filter (\<lambda>h. sn_name h \<in> set targets) hs), cmd # rest)
      else errorf (''target server not found: ''
             @ join_with '','' (if set targets \<inter> sn_name ` set hs = {} then targets
                              else filter (\<lambda>t. t \<notin> sn_name ` set hs) (remdups targets))))"
proof -
  let ?found = "filter (is_named targets) (active_connects s)"
  let ?hs = "filter (\<lambda>h. sn_name h \<in> set targets) hs"
  have found: "?found = map Some ?hs"
    by (simp add: assms(2) filter_map comp_def is_named_def)
  have len: "length ?found = card (set targets \<inter> sn_name ` set hs)"
  proof -
    have "length ?hs = card (set (map sn_name ?hs))"
      using assms(3) by (metis distinct_card distinct_map_filter length_map)
    moreover have "set (map sn_name ?hs) = set targets \<inter> sn_name ` set hs"
      by auto
    ultimately show ?thesis
      by (simp add: found)
  qed
  have all: "card (set targets \<inter> sn_name ` set hs) = card (set targets) \<longleftrightarrow> set targets \<subseteq> sn_name ` set hs"
    by (metis List.finite_set card_subset_eq inf.orderI inf_le1 le_iff_inf)
  have none: "?found = [] \<longleftrightarrow> set targets \<inter> sn_name ` set hs = {}"
    by (auto simp: found filter_empty_conv)
  have missing: "filter (\<lambda>t. \<not> list_ex (is_named [t]) ?found) (remdups targets)
      = filter (\<lambda>t. t \<notin> sn_name ` set hs) (remdups targets)"
    by (rule filter_cong) (auto simp: found list_ex_iff is_named_def)
  have "resolve_targeted_connects s (command # rest) =
     (if ?found = [] then errorf (''target server not found: '' @ join_with '','' targets)
      else if length ?found \<noteq> card (set targets)
      then errorf (''target server not found: '' @ join_with '','' (filter (\<lambda>t. \<not> list_ex (is_named [t]) ?found) (remdups targets)))
      else Inr (?found, cmd # rest))"
    by (simp add: resolve_targeted_connects_def assms(1,4) Let_def)
  moreover have "set targets \<subseteq> sn_name ` set hs \<Longrightarrow> set targets \<inter> sn_name ` set hs \<noteq> {}"
    using assms(5) by (simp add: inf.absorb1)
  ultimately show ?thesis
    unfolding none len all missing by (auto simp: found)
qed

end
