(* ===== verification/Pshell_Subst.thy ===== *)
theory Pshell_Subst
  imports Pshell_Exec Go_Path
begin

text \<open>
  Process substitutions of local commands in the parallel shell,
  \<^verbatim>\<open>internal/pshell/local_process_subst.go\<close>: \<open><(command)\<close> stands for a file with the output of a remote
  command on all hosts, \<open>+<(command)\<close> for one file for each host. Running a remote command and the
  file system are parameters.
\<close>

section \<open>Finding the substitutions\<close>

record process_subst =
  su_raw :: string
  su_command :: string
  su_split :: bool

text \<open>The text in front of a result.\<close>

definition keep_char :: "char \<Rightarrow> (string \<times> string) result \<Rightarrow> (string \<times> string) result" where
  "keep_char ch r = (case r of Inl e \<Rightarrow> Inl e | Inr (body, rest) \<Rightarrow> Inr (ch # body, rest))"

text \<open>\<open>readBalancedCommand\<close>: the text up to the closing parenthesis and what follows it.\<close>

fun read_balanced_command :: "nat \<Rightarrow> bool \<Rightarrow> bool \<Rightarrow> bool \<Rightarrow> string \<Rightarrow> (string \<times> string) result" where
  "read_balanced_command depth in_single in_double escaped [] = errorf ''unterminated process substitution''"
| "read_balanced_command depth in_single in_double escaped (ch # cs) =
     (if escaped then keep_char ch (read_balanced_command depth in_single in_double False cs)
      else if in_single then keep_char ch (read_balanced_command depth (ch \<noteq> CHR 0x27) in_double False cs)
      else if in_double then
        (if ch = CHR 0x5C then keep_char ch (read_balanced_command depth in_single in_double True cs)
         else keep_char ch (read_balanced_command depth in_single (ch \<noteq> CHR 0x22) False cs))
      else if ch = CHR 0x5C then keep_char ch (read_balanced_command depth in_single in_double True cs)
      else if ch = CHR 0x27 then keep_char ch (read_balanced_command depth True in_double False cs)
      else if ch = CHR 0x22 then keep_char ch (read_balanced_command depth in_single True False cs)
      else if ch = CHR ''('' then keep_char ch (read_balanced_command (depth + 1) in_single in_double False cs)
      else if ch = CHR '')'' then
        (if depth - 1 = 0 then Inr ([], cs)
         else keep_char ch (read_balanced_command (depth - 1) in_single in_double False cs))
      else keep_char ch (read_balanced_command depth in_single in_double False cs))"

text \<open>\<open>readLocalProcessSubstitution\<close>: \<open>None\<close> when none starts here.\<close>

definition read_local_process_substitution :: "string \<Rightarrow> (process_subst \<times> string) option result" where
  "read_local_process_substitution command =
     (let found = (if has_prefix command ''+<('' then Some (True, ''+<('')
                   else if has_prefix command ''<('' then Some (False, ''<('') else None)
      in case found of None \<Rightarrow> Inr None
         | Some (split, open) \<Rightarrow>
             (case read_balanced_command 1 False False False (trim_prefix command open) of
                Inl e \<Rightarrow> Inl e
              | Inr (body, rest) \<Rightarrow>
                  Inr (Some (\<lparr>su_raw = open @ body @ '')'', su_command = trim_space body, su_split = split\<rparr>, rest))))"

lemma read_balanced_command_step:
  "read_balanced_command d s q e (ch # cs) = r \<Longrightarrow>
     (\<exists>d' s' q' e'. r = keep_char ch (read_balanced_command d' s' q' e' cs)) \<or> ch = CHR '')'' \<and> r = Inr ([], cs)"
  by (simp only: read_balanced_command.simps(2) split: if_splits) blast+

declare read_balanced_command.simps(2) [simp del]

lemma read_balanced_command_text:
  "read_balanced_command d s q e cs = Inr (body, rest) \<Longrightarrow> cs = body @ '')'' @ rest"
proof (induction cs arbitrary: d s q e body)
  case (Cons ch cs)
  consider d' s' q' e' where "Inr (body, rest) = keep_char ch (read_balanced_command d' s' q' e' cs)"
    | "ch = CHR '')''" "body = []" "rest = cs"
    using read_balanced_command_step[OF Cons.prems] by auto
  then show ?case
  proof cases
    case 1
    then obtain b where "read_balanced_command d' s' q' e' cs = Inr (b, rest)" "body = ch # b"
      by (auto simp: keep_char_def split: sum.splits)
    then show ?thesis
      using Cons.IH by simp
  qed simp
qed (simp add: errorf_def)

lemma read_local_process_substitution_text:
  assumes "read_local_process_substitution command = Inr (Some (spec, rest))"
  shows "command = su_raw spec @ rest \<and>
     (\<exists>body. su_raw spec = (if su_split spec then ''+<('' else ''<('') @ body @ '')'' \<and> su_command spec = trim_space body)"
proof -
  have found: ?thesis
    if o: "has_prefix command open" "open = (if split then ''+<('' else ''<('')"
    "(case read_balanced_command 1 False False False (trim_prefix command open) of
        Inl e \<Rightarrow> Inl e
      | Inr (body, rest) \<Rightarrow>
          Inr (Some (\<lparr>su_raw = open @ body @ '')'', su_command = trim_space body, su_split = split\<rparr>, rest)))
       = (Inr (Some (spec, rest)) :: (process_subst \<times> string) option result)" for split "open"
  proof -
    obtain body where b: "read_balanced_command 1 False False False (trim_prefix command open) = Inr (body, rest)"
      "spec = \<lparr>su_raw = open @ body @ '')'', su_command = trim_space body, su_split = split\<rparr>"
      using o(3) by (auto split: sum.splits)
    have "command = open @ trim_prefix command open"
      using o(1) by (auto simp: has_prefix_iff prefix_def)
    then have "command = open @ body @ '')'' @ rest"
      using read_balanced_command_text[OF b(1)] by simp
    then show ?thesis
      using b(2) o(2) by (auto intro!: exI[of _ body])
  qed
  show ?thesis
    using assms found[of "''+<(''" True] found[of "''<(''" False]
    unfolding read_local_process_substitution_def Let_def
    by (cases "has_prefix command ''+<(''"; cases "has_prefix command ''<(''") simp_all
qed

text \<open>\<open>parseLocalProcessSubstitutions\<close>, on what is left of the command.\<close>

function parse_substs :: "bool \<Rightarrow> bool \<Rightarrow> bool \<Rightarrow> string \<Rightarrow> process_subst list result" where
  "parse_substs in_single in_double escaped [] = Inr []"
| "parse_substs in_single in_double escaped (ch # cs) =
     (if escaped then parse_substs in_single in_double False cs
      else if in_single then parse_substs (ch \<noteq> CHR 0x27) in_double False cs
      else if in_double then
        (if ch = CHR 0x5C then parse_substs in_single in_double True cs
         else parse_substs in_single (ch \<noteq> CHR 0x22) False cs)
      else if ch = CHR 0x5C then parse_substs in_single in_double True cs
      else if ch = CHR 0x27 then parse_substs True in_double False cs
      else if ch = CHR 0x22 then parse_substs in_single True False cs
      else (case read_local_process_substitution (ch # cs) of
              Inl e \<Rightarrow> Inl e
            | Inr None \<Rightarrow> parse_substs in_single in_double False cs
            | Inr (Some (spec, rest)) \<Rightarrow>
                (case parse_substs in_single in_double False rest of Inl e \<Rightarrow> Inl e
                 | Inr specs \<Rightarrow> Inr (spec # specs))))"
  by pat_completeness auto
termination
  by (relation "measure (\<lambda>(s, q, e, cs). length cs)")
     (auto dest!: read_local_process_substitution_text arg_cong[where f = length] split: if_splits)

definition parse_local_process_substitutions :: "string \<Rightarrow> process_subst list result" where
  "parse_local_process_substitutions command = parse_substs False False False command"

section \<open>Quoting\<close>

text \<open>\<open>strings.ReplaceAll\<close> of one character, and \<open>strings.Replace\<close> of the first occurrence.\<close>

definition replace_char :: "char \<Rightarrow> string \<Rightarrow> string \<Rightarrow> string" where
  "replace_char c new s = concat (map (\<lambda>x. if x = c then new else [x]) s)"

definition replace_first :: "string \<Rightarrow> string \<Rightarrow> string \<Rightarrow> string" where
  "replace_first s old new =
     (case index_of s old of None \<Rightarrow> s | Some i \<Rightarrow> take i s @ new @ drop (i + length old) s)"

definition shell_quote :: "string \<Rightarrow> string" where
  "shell_quote s =
     (if s = '''' then [CHR 0x27, CHR 0x27]
      else [CHR 0x27] @ replace_char (CHR 0x27) [CHR 0x27, CHR 0x22, CHR 0x27, CHR 0x22, CHR 0x27] s @ [CHR 0x27])"

definition join_shell_words :: "string list \<Rightarrow> string" where
  "join_shell_words ws = join_with '' '' (map shell_quote ws)"

definition sanitize_name :: "string \<Rightarrow> string" where
  "sanitize_name s =
     (let name = map (\<lambda>c. if c \<in> set [CHR ''/'', CHR 0x5C, CHR '':'', CHR '' '', CHR 0x09] then CHR ''_'' else c) s;
          name = dropWhile (\<lambda>c. c = CHR ''.'' \<or> c = CHR ''_'') name;
          name = rev (dropWhile (\<lambda>c. c = CHR ''.'' \<or> c = CHR ''_'') (rev name))
      in if name = '''' then ''unknown'' else name)"

section \<open>Running and replacing\<close>

definition two_digits :: "nat \<Rightarrow> string" where
  "two_digits n = (if n < 10 then ''0'' @ decimal n else decimal n)"

text \<open>\<open>runLocalProcessSubstitutionCommand\<close>: \<open>None\<close> when the parser hangs. Of several errors the
  first to arrive counts, which \<open>arrives\<close> picks. A nil connection panics.\<close>

definition run_on_hosts ::
    "(s_connect \<Rightarrow> string \<Rightarrow> string result) \<Rightarrow> (go_error list \<Rightarrow> go_error) \<Rightarrow> connects \<Rightarrow> string \<Rightarrow> (string \<times> string) list outcome" where
  "run_on_hosts run arrives connects command =
     (if None \<in> set connects then Panicked
      else (let rs = map (\<lambda>c. (sn_name (the c), run (the c) command)) connects;
                errs = concat (map (\<lambda>r. case snd r of Inl e \<Rightarrow> [Go_Error (err_not_exist e) (fst r @ '': '' @ err_message e)]
                                         | Inr _ \<Rightarrow> []) rs)
            in if errs \<noteq> [] then Failed (arrives errs)
               else Done (map (\<lambda>r. (fst r, projr (snd r))) rs)))"

definition of_result :: "'a result \<Rightarrow> 'a outcome" where
  "of_result r = (case r of Inl e \<Rightarrow> Failed e | Inr a \<Rightarrow> Done a)"

definition run_local_process_substitution_command ::
    "(string \<Rightarrow> sh_stmt list result) \<Rightarrow> (s_connect \<Rightarrow> string \<Rightarrow> string result) \<Rightarrow> (go_error list \<Rightarrow> go_error)
      \<Rightarrow> pshell \<Rightarrow> string \<Rightarrow> (string \<times> string) list outcome option" where
  "run_local_process_substitution_command parse run arrives s command =
     (case parse_pipe_line parse command of
        None \<Rightarrow> None
      | Some (Inl e) \<Rightarrow> Some (Failed e)
      | Some (Inr [pline]) \<Rightarrow>
          Some (and_then (join_pipe_line pline)
            (\<lambda>joined. if length joined \<noteq> 1 \<or> pl_args (hd joined) = []
                      then of_result (errorf ''process substitution supports a single remote command'')
                      else if check_local_build_in_command (hd (pl_args (hd joined)))
                      then of_result (errorf ''process substitution does not support local commands'')
                      else and_then (of_result (resolve_targeted_connects s (pl_args (hd joined))))
                             (\<lambda>(connects, args). run_on_hosts run arrives connects (join_with '' '' args))))
      | Some (Inr _) \<Rightarrow> Some (of_result (errorf ''process substitution supports a single remote command'')))"

text \<open>\<open>materializeLocalProcessSubstitution\<close>: the files it writes, with their contents, and the paths it
  returns. \<open>refuses\<close> is the error of the file system for a path.\<close>

type_synonym files = "(string \<times> string) list"

definition merged_output :: "(string \<times> string) list \<Rightarrow> string" where
  "merged_output results = join_with [CHR 0x0A]
     (map (\<lambda>(server, out). ''===== '' @ server @ '' ====='' @ [CHR 0x0A] @ out
             @ (if out \<noteq> '''' \<and> \<not> has_suffix out [CHR 0x0A] then [CHR 0x0A] else '''')) results)"

definition split_file :: "string \<Rightarrow> nat \<Rightarrow> string \<times> string \<Rightarrow> string \<times> string" where
  "split_file dir i r = (path_join [dir, two_digits i @ ''_'' @ sanitize_name (fst r) @ ''.out''], snd r)"

fun write_files :: "(string \<Rightarrow> go_error option) \<Rightarrow> files \<Rightarrow> files result" where
  "write_files refuses [] = Inr []"
| "write_files refuses (f # fs) =
     (case refuses (fst f) of Some e \<Rightarrow> Inl e
      | None \<Rightarrow> (case write_files refuses fs of Inl e \<Rightarrow> Inl e | Inr fs' \<Rightarrow> Inr (f # fs')))"

definition subst_files :: "string \<Rightarrow> nat \<Rightarrow> process_subst \<Rightarrow> (string \<times> string) list \<Rightarrow> files" where
  "subst_files base_dir index spec results =
     (let dir = path_join [base_dir, ''subst-'' @ two_digits index]
      in if su_split spec then map (\<lambda>(i, r). split_file dir i r) (enumerate 0 results)
         else [(path_join [dir, ''merged.out''], merged_output results)])"

definition materialize_local_process_substitution ::
    "(string \<Rightarrow> go_error option) \<Rightarrow> string \<Rightarrow> nat \<Rightarrow> process_subst \<Rightarrow> (string \<times> string) list \<Rightarrow> files result" where
  "materialize_local_process_substitution refuses base_dir index spec results =
     (case refuses (path_join [base_dir, ''subst-'' @ two_digits index]) of Some e \<Rightarrow> Inl e
      | None \<Rightarrow> write_files refuses (subst_files base_dir index spec results))"

text \<open>The loop of \<open>expandLocalProcessSubstitutions\<close>; \<open>output\<close> is what running the command gives. The
  first path is read before the kind of the substitution is looked at, so that no path at all panics.\<close>

definition replacement :: "process_subst \<Rightarrow> string list \<Rightarrow> string" where
  "replacement spec paths = (if su_split spec then join_shell_words paths else shell_quote (hd paths))"

fun expand_loop ::
    "(string \<Rightarrow> (string \<times> string) list outcome option) \<Rightarrow> (string \<Rightarrow> go_error option) \<Rightarrow> string
      \<Rightarrow> nat \<Rightarrow> process_subst list \<Rightarrow> string \<Rightarrow> (string \<times> files) outcome option" where
  "expand_loop output refuses base_dir i [] expanded = Some (Done (expanded, []))"
| "expand_loop output refuses base_dir i (spec # specs) expanded =
     (case output (su_command spec) of
        None \<Rightarrow> None
      | Some Panicked \<Rightarrow> Some Panicked
      | Some (Failed e) \<Rightarrow> Some (Failed e)
      | Some (Done results) \<Rightarrow>
          (case materialize_local_process_substitution refuses base_dir i spec results of
             Inl e \<Rightarrow> Some (Failed e)
           | Inr files \<Rightarrow>
               if files = [] then Some Panicked
               else (case expand_loop output refuses base_dir (i + 1) specs
                       (replace_first expanded (su_raw spec) (replacement spec (map fst files))) of
                  Some (Done (s, fs)) \<Rightarrow> Some (Done (s, files @ fs))
                | r \<Rightarrow> r)))"

definition expand_local_process_substitutions ::
    "(string \<Rightarrow> (string \<times> string) list outcome option) \<Rightarrow> (string \<Rightarrow> go_error option) \<Rightarrow> string result
      \<Rightarrow> string \<Rightarrow> (string \<times> files) outcome option" where
  "expand_local_process_substitutions output refuses temp_dir command =
     (case parse_local_process_substitutions command of
        Inl e \<Rightarrow> Some (Failed e)
      | Inr [] \<Rightarrow> Some (Done (command, []))
      | Inr specs \<Rightarrow>
          (case temp_dir of Inl e \<Rightarrow> Some (Failed e)
           | Inr base_dir \<Rightarrow> expand_loop output refuses base_dir 0 specs command))"

section \<open>Quoted words\<close>

text \<open>How a POSIX shell reads words of plain characters, single quotes and double quotes; \<open>None\<close> where
  other rules would apply.\<close>

datatype quoting = Plain | Single | Double

definition plain_char :: "char \<Rightarrow> bool" where
  "plain_char c \<longleftrightarrow> c \<notin> set (''|&;<>()$`*?[]#~=%!{}'' @ [CHR 0x5C, CHR 0x09, CHR 0x0A])"

fun sh_read :: "quoting \<Rightarrow> string option \<Rightarrow> string \<Rightarrow> string list option" where
  "sh_read m cur [] = (if m \<noteq> Plain then None else Some (case cur of None \<Rightarrow> [] | Some w \<Rightarrow> [w]))"
| "sh_read Single cur (c # cs) =
     (if c = CHR 0x27 then sh_read Plain cur cs else sh_read Single (Some (the cur @ [c])) cs)"
| "sh_read Double cur (c # cs) =
     (if c = CHR 0x22 then sh_read Plain cur cs
      else if c \<in> set [CHR ''$'', CHR 0x60, CHR 0x5C] then None
      else sh_read Double (Some (the cur @ [c])) cs)"
| "sh_read Plain cur (c # cs) =
     (let w = (case cur of None \<Rightarrow> '''' | Some w \<Rightarrow> w)
      in if c = CHR 0x27 then sh_read Single (Some w) cs
         else if c = CHR 0x22 then sh_read Double (Some w) cs
         else if c = CHR '' '' then
           (case cur of None \<Rightarrow> sh_read Plain None cs | Some w \<Rightarrow> map_option ((#) w) (sh_read Plain None cs))
         else if plain_char c then sh_read Plain (Some (w @ [c])) cs
         else None)"

lemma replace_char_simps [simp]:
  "replace_char c new [] = []"
  "replace_char c new (x # s) = (if x = c then new else [x]) @ replace_char c new s"
  by (simp_all add: replace_char_def)

abbreviation quote_quote :: string where
  "quote_quote \<equiv> [CHR 0x27, CHR 0x22, CHR 0x27, CHR 0x22, CHR 0x27]"

lemma sh_read_quoted:
  "sh_read Single (Some w) (replace_char (CHR 0x27) quote_quote s @ CHR 0x27 # cs) = sh_read Plain (Some (w @ s)) cs"
  by (induction s arbitrary: w) simp_all

lemma shell_quote_eq: "shell_quote s = CHR 0x27 # replace_char (CHR 0x27) quote_quote s @ [CHR 0x27]"
  by (simp add: shell_quote_def)

lemma sh_read_shell_quote: "sh_read Plain None (shell_quote s @ cs) = sh_read Plain (Some s) cs"
  using sh_read_quoted[of "''''" s cs] by (simp add: shell_quote_eq)

lemma parse_substs_quoted:
  "parse_substs True False False (replace_char (CHR 0x27) quote_quote s @ CHR 0x27 # cs) = parse_substs False False False cs"
  by (induction s) simp_all

lemma parse_substs_shell_quote: "parse_substs False False False (shell_quote s @ cs) = parse_substs False False False cs"
  using parse_substs_quoted[of s cs] by (simp add: shell_quote_eq)

lemma parse_substs_space [simp]: "parse_substs False False False (CHR '' '' # cs) = parse_substs False False False cs"
  by (simp add: read_local_process_substitution_def)

lemma join_shell_words_simps:
  "join_shell_words [] = []" "join_shell_words [w] = shell_quote w"
  "join_shell_words (w # v # ws) = shell_quote w @ CHR '' '' # join_shell_words (v # ws)"
  by (simp_all add: join_shell_words_def)

declare parse_substs.simps(2) [simp del]

text \<open>
  C36. A shell reads quoted words back as exactly these words, whatever characters they have; and the
  shell finds no further substitution in them, so the names of files and hosts start none.
\<close>

theorem shell_words_roundtrip:
  "sh_read Plain None (join_shell_words ws) = Some ws \<and> parse_local_process_substitutions (join_shell_words ws) = Inr []"
proof (induction ws rule: induct_list012)
  case (2 w)
  show ?case
    using sh_read_shell_quote[of w "[]"] parse_substs_shell_quote[of w "[]"]
    by (simp add: join_shell_words_simps parse_local_process_substitutions_def)
next
  case (3 w v ws)
  then show ?case
    by (simp add: join_shell_words_simps(3) sh_read_shell_quote parse_substs_shell_quote
        parse_local_process_substitutions_def)
qed (simp_all add: join_shell_words_simps parse_local_process_substitutions_def)

section \<open>Where the replacements go\<close>

fun weave :: "string list \<Rightarrow> string list \<Rightarrow> string" where
  "weave (g # gs) (r # rs) = g @ r @ weave gs rs"
| "weave gs rs = concat gs"

lemma parse_substs_step:
  "(\<exists>s' q' e'. parse_substs s q e (ch # cs) = parse_substs s' q' e' cs)
   \<or> (\<exists>err. parse_substs s q e (ch # cs) = Inl err)
   \<or> (\<exists>spec rest. read_local_process_substitution (ch # cs) = Inr (Some (spec, rest))
        \<and> parse_substs s q e (ch # cs) =
            (case parse_substs False False False rest of Inl e \<Rightarrow> Inl e | Inr specs \<Rightarrow> Inr (spec # specs)))"
proof (cases "e \<or> s \<or> q \<or> ch = CHR 0x5C \<or> ch = CHR 0x27 \<or> ch = CHR 0x22")
  case True
  have "\<exists>s' q' e'. parse_substs s q e (ch # cs) = parse_substs s' q' e' cs"
    unfolding parse_substs.simps(2)
    using True by (cases e; cases s; cases q; cases "ch = CHR 0x5C"; cases "ch = CHR 0x27"; cases "ch = CHR 0x22";
        simp only: if_True if_False simp_thms not_False_eq_True char.inject; blast)
  then show ?thesis
    by blast
next
  case False
  then have eq: "parse_substs s q e (ch # cs) = (case read_local_process_substitution (ch # cs) of
              Inl e \<Rightarrow> Inl e
            | Inr None \<Rightarrow> parse_substs False False False cs
            | Inr (Some (spec, rest)) \<Rightarrow>
                (case parse_substs False False False rest of Inl e \<Rightarrow> Inl e
                 | Inr specs \<Rightarrow> Inr (spec # specs)))"
    by (simp add: parse_substs.simps(2))
  show ?thesis
  proof (cases "read_local_process_substitution (ch # cs)")
    case (Inr o')
    then show ?thesis
      unfolding eq by (cases o') auto
  qed (auto simp: eq)
qed

lemma parse_substs_Inr:
  assumes "parse_substs s q e (ch # cs) = Inr specs"
  shows "(\<exists>s' q' e'. parse_substs s' q' e' cs = Inr specs)
   \<or> (\<exists>spec rest specs'. read_local_process_substitution (ch # cs) = Inr (Some (spec, rest))
        \<and> parse_substs False False False rest = Inr specs' \<and> specs = spec # specs')"
  using parse_substs_step[of s q e ch cs] unfolding assms
proof (elim disjE exE conjE)
  fix spec rest
  assume "read_local_process_substitution (ch # cs) = Inr (Some (spec, rest))"
    "Inr specs = (case parse_substs False False False rest of Inl e \<Rightarrow> Inl e | Inr specs \<Rightarrow> Inr (spec # specs))"
  then show ?thesis
    by (cases "parse_substs False False False rest") auto
qed auto

lemma weave_Nil: "weave ([] # gs) (r # rs) = r @ weave gs rs"
  by simp

lemma weave_char: "weave ((ch # g) # gs) rs = ch # weave (g # gs) rs"
  by (cases rs) simp_all

lemma parse_substs_weave:
  "parse_substs s q e cs = Inr specs \<Longrightarrow> \<exists>gaps. length gaps = Suc (length specs) \<and> cs = weave gaps (map su_raw specs)"
proof (induction cs arbitrary: s q e specs rule: length_induct)
  case (1 cs)
  show ?case
  proof (cases cs)
    case Nil
    then show ?thesis
      using "1.prems" by (auto intro: exI[of _ "[[]]"])
  next
    case (Cons ch cs')
    consider s' q' e' where "parse_substs s' q' e' cs' = Inr specs"
      | spec rest specs' where "read_local_process_substitution cs = Inr (Some (spec, rest))"
        "parse_substs False False False rest = Inr specs'" "specs = spec # specs'"
      using parse_substs_Inr "1.prems" Cons by blast
    then show ?thesis
    proof cases
      case 1
      then obtain gaps where g: "length gaps = Suc (length specs)" "cs' = weave gaps (map su_raw specs)"
        using "1.IH" Cons by (metis length_Cons lessI)
      then obtain g gs where "gaps = g # gs"
        by (cases gaps) auto
      with g have "length ((ch # g) # gs) = Suc (length specs) \<and> cs = weave ((ch # g) # gs) (map su_raw specs)"
        unfolding weave_char Cons by simp
      then show ?thesis
        by blast
    next
      case 2
      have txt': "cs = su_raw spec @ rest" "su_raw spec \<noteq> []"
        using read_local_process_substitution_text[OF 2(1)] by (auto split: if_splits)
      then have "length rest < length cs"
        by simp
      then obtain gaps where g: "length gaps = Suc (length specs')" "rest = weave gaps (map su_raw specs')"
        using "1.IH" 2(2) by metis
      then have "length ([] # gaps) = Suc (length specs) \<and> cs = weave ([] # gaps) (map su_raw specs)"
        unfolding 2(3) list.map weave_Nil using txt'(1) by simp
      then show ?thesis
        by blast
    qed
  qed
qed

definition opens_none :: "string \<Rightarrow> bool" where
  "opens_none s \<longleftrightarrow> successively (\<lambda>c d. \<not> (c = CHR ''<'' \<and> d = CHR ''('')) s"

definition subst_raw :: "process_subst \<Rightarrow> bool" where
  "subst_raw spec \<longleftrightarrow> prefix (if su_split spec then ''+<('' else ''<('') (su_raw spec)"

lemma index_of_subst:
  assumes "opens_none p" "subst_raw spec"
  shows "index_of (p @ su_raw spec @ r) (su_raw spec) = Some (length p)"
  using assms
proof (induction p)
  case Nil
  then obtain t where "su_raw spec = (if su_split spec then ''+<('' else ''<('') @ t"
    by (auto simp: subst_raw_def prefix_def split: if_splits)
  then show ?case
    by (cases "su_split spec") (simp_all add: has_prefix_iff)
next
  case (Cons c p)
  obtain t where t: "su_raw spec = (if su_split spec then ''+<('' else ''<('') @ t"
    using Cons.prems(2) by (auto simp: subst_raw_def prefix_def)
  have "\<not> prefix (su_raw spec) (c # p @ su_raw spec @ r)"
    using Cons.prems(1) t
    by (cases p; cases "tl p"; cases "su_split spec") (auto simp: opens_none_def)
  moreover have "opens_none p"
    using Cons.prems(1) by (cases p) (simp_all add: opens_none_def)
  ultimately show ?case
    using Cons.IH Cons.prems(2) by (simp add: has_prefix_iff)
qed

lemma replace_first_subst:
  "opens_none p \<Longrightarrow> subst_raw spec \<Longrightarrow> replace_first (p @ su_raw spec @ r) (su_raw spec) new = p @ new @ r"
  by (simp add: replace_first_def index_of_subst)

text \<open>The files of each substitution, which are those of its own results.\<close>

fun subst_runs ::
    "(string \<Rightarrow> (string \<times> string) list outcome option) \<Rightarrow> string \<Rightarrow> nat \<Rightarrow> process_subst list \<Rightarrow> files list \<Rightarrow> bool" where
  "subst_runs output base_dir i [] fss \<longleftrightarrow> fss = []"
| "subst_runs output base_dir i (spec # specs) [] \<longleftrightarrow> False"
| "subst_runs output base_dir i (spec # specs) (fs # fss) \<longleftrightarrow>
     (case output (su_command spec) of
        Some (Done results) \<Rightarrow> fs = subst_files base_dir i spec results
      | _ \<Rightarrow> False) \<and> subst_runs output base_dir (i + 1) specs fss"

definition replacements :: "process_subst list \<Rightarrow> files list \<Rightarrow> string list" where
  "replacements specs fss = map2 (\<lambda>spec fs. replacement spec (map fst fs)) specs fss"

lemma write_files_Inr: "write_files refuses fs = Inr fs' \<Longrightarrow> fs' = fs"
  by (induction fs arbitrary: fs') (auto split: option.splits sum.splits)

lemma expand_loop_Cons:
  assumes "expand_loop output refuses base_dir i (spec # specs) expanded = Some (Done (s, files))"
  shows "\<exists>results fs. output (su_command spec) = Some (Done results)
     \<and> expand_loop output refuses base_dir (i + 1) specs
         (replace_first expanded (su_raw spec) (replacement spec (map fst (subst_files base_dir i spec results))))
         = Some (Done (s, fs))
     \<and> files = subst_files base_dir i spec results @ fs"
  using assms
  by (auto simp: materialize_local_process_substitution_def dest!: write_files_Inr
      split: option.splits outcome.splits sum.splits prod.splits if_splits)

lemma expand_loop_runs:
  "expand_loop output refuses base_dir i specs t = Some (Done (s, files)) \<Longrightarrow>
     \<exists>fss. files = concat fss \<and> subst_runs output base_dir i specs fss"
proof (induction specs arbitrary: i t files)
  case (Cons spec specs)
  obtain results fs where r: "output (su_command spec) = Some (Done results)"
    "expand_loop output refuses base_dir (i + 1) specs
         (replace_first t (su_raw spec) (replacement spec (map fst (subst_files base_dir i spec results)))) = Some (Done (s, fs))"
    "files = subst_files base_dir i spec results @ fs"
    using expand_loop_Cons[OF Cons.prems] by blast
  then obtain fss where "fs = concat fss" "subst_runs output base_dir (i + 1) specs fss"
    using Cons.IH by blast
  with r show ?case
    by (intro exI[of _ "subst_files base_dir i spec results # fss"]) simp
qed simp

lemma subst_runs_unique:
  "subst_runs output base_dir i specs fss \<Longrightarrow> subst_runs output base_dir i specs fss' \<Longrightarrow> fss = fss'"
proof (induction specs arbitrary: i fss fss')
  case (Cons spec specs)
  then show ?case
    by (cases fss; cases fss') (auto split: option.splits outcome.splits)
qed simp

lemma expand_loop_weave:
  assumes "expand_loop output refuses base_dir i specs (p @ weave gaps (map su_raw specs)) = Some (Done (s, files))"
    and "length gaps = Suc (length specs)" "list_all subst_raw specs" "subst_runs output base_dir i specs fss"
    and "opens_none (p @ weave gaps (replacements specs fss))"
  shows "s = p @ weave gaps (replacements specs fss)"
  using assms
proof (induction specs arbitrary: i p gaps files fss)
  case Nil
  then obtain g where "gaps = [g]"
    by (cases gaps) auto
  then show ?case
    using Nil by (simp add: replacements_def)
next
  case (Cons spec specs)
  obtain g gs where gaps: "gaps = g # gs" "length gs = Suc (length specs)"
    using Cons.prems(2) by (cases gaps) auto
  obtain f fss' where fss: "fss = f # fss'" "subst_runs output base_dir (i + 1) specs fss'"
    using Cons.prems(4) by (cases fss) auto
  let ?r = "replacement spec (map fst f)"
  have weave: "weave gaps (replacements (spec # specs) fss) = g @ ?r @ weave gs (replacements specs fss')"
    by (simp add: gaps fss replacements_def)
  have none: "opens_none ((p @ g @ ?r) @ weave gs (replacements specs fss'))" "opens_none (p @ g)"
    using Cons.prems(5) unfolding weave by (auto simp: opens_none_def successively_append_iff)
  obtain results fs where r: "output (su_command spec) = Some (Done results)"
    "expand_loop output refuses base_dir (i + 1) specs
         (replace_first (p @ weave gaps (map su_raw (spec # specs))) (su_raw spec)
            (replacement spec (map fst (subst_files base_dir i spec results)))) = Some (Done (s, fs))"
    using expand_loop_Cons[OF Cons.prems(1)] by blast
  have "f = subst_files base_dir i spec results"
    using Cons.prems(4) r(1) by (simp add: fss)
  moreover have "replace_first ((p @ g) @ su_raw spec @ weave gs (map su_raw specs)) (su_raw spec) ?r
      = (p @ g) @ ?r @ weave gs (map su_raw specs)"
    using none(2) Cons.prems(3) by (intro replace_first_subst) auto
  ultimately have "expand_loop output refuses base_dir (i + 1) specs ((p @ g @ ?r) @ weave gs (map su_raw specs)) = Some (Done (s, fs))"
    using r(2) by (simp add: gaps)
  from Cons.IH[OF this gaps(2) _ fss(2) none(1)] show ?case
    using Cons.prems(3) by (simp add: weave)
qed

lemma parse_substs_raw: "parse_substs s q e cs = Inr specs \<Longrightarrow> list_all subst_raw specs"
proof (induction cs arbitrary: s q e specs rule: length_induct)
  case (1 cs)
  show ?case
  proof (cases cs)
    case Nil
    then show ?thesis
      using "1.prems" by simp
  next
    case (Cons ch cs')
    consider s' q' e' where "parse_substs s' q' e' cs' = Inr specs"
      | spec rest specs' where "read_local_process_substitution cs = Inr (Some (spec, rest))"
        "parse_substs False False False rest = Inr specs'" "specs = spec # specs'"
      using parse_substs_Inr "1.prems" Cons by blast
    then show ?thesis
    proof cases
      case 1
      then show ?thesis
        using "1.IH" Cons by (metis length_Cons lessI)
    next
      case 2
      then have "length rest < length cs" "subst_raw spec"
        using read_local_process_substitution_text[OF 2(1)] by (auto simp: subst_raw_def split: if_splits)
      then show ?thesis
        using "1.IH" 2 by simp
    qed
  qed
qed

text \<open>
  An expansion that succeeds has run every substitution found, with files of its own results; and
  when no \<open><(\<close> is left in the text, each substitution has been replaced in its own place by its quoted
  files and the text around them is unchanged.
\<close>

theorem expansion_in_place:
  assumes "expand_local_process_substitutions output refuses temp_dir command = Some (Done (expanded, files))"
  shows "\<exists>specs gaps base_dir fss. parse_local_process_substitutions command = Inr specs
     \<and> length gaps = Suc (length specs) \<and> command = weave gaps (map su_raw specs)
     \<and> files = concat fss \<and> subst_runs output base_dir 0 specs fss
     \<and> (opens_none (weave gaps (replacements specs fss)) \<longrightarrow> expanded = weave gaps (replacements specs fss))"
proof -
  obtain specs where specs: "parse_local_process_substitutions command = Inr specs"
    using assms by (auto simp: expand_local_process_substitutions_def split: sum.splits)
  then obtain gaps where gaps: "length gaps = Suc (length specs)" "command = weave gaps (map su_raw specs)"
    using parse_substs_weave[of False False False command specs] by (auto simp: parse_local_process_substitutions_def)
  show ?thesis
  proof (cases specs)
    case Nil
    then have "expanded = command" "files = []"
      using assms specs by (auto simp: expand_local_process_substitutions_def)
    then show ?thesis
      using specs gaps Nil by (auto simp: replacements_def intro!: exI[of _ "[]"] exI[of _ gaps])
  next
    case (Cons spec specs')
    then obtain base_dir where run: "expand_loop output refuses base_dir 0 specs command = Some (Done (expanded, files))"
      using assms specs by (auto simp: expand_local_process_substitutions_def split: sum.splits)
    then obtain fss where fss: "files = concat fss" "subst_runs output base_dir 0 specs fss"
      using expand_loop_runs by blast
    have "list_all subst_raw specs"
      using specs parse_substs_raw by (simp add: parse_local_process_substitutions_def)
    then have "opens_none (weave gaps (replacements specs fss)) \<longrightarrow> expanded = weave gaps (replacements specs fss)"
      using expand_loop_weave[where p = "[]" and s = expanded and gaps = gaps and fss = fss and specs = specs and i = 0] run gaps fss(2)
      by simp
    with specs gaps fss show ?thesis
      by blast
  qed
qed

text \<open>The first occurrence of the text of a substitution is replaced, also one inside quotes.\<close>

lemma quoted_occurrence_replaced:
  "expand_local_process_substitutions (\<lambda>_. Some (Done [(''h'', ''out'')])) (\<lambda>_. None) (Inr ''/t'') ''echo \"<(a)\" <(a)''
     = Some (Done (''echo \"'' @ shell_quote ''/t/subst-00/merged.out'' @ ''\" <(a)'',
                   [(''/t/subst-00/merged.out'', merged_output [(''h'', ''out'')])]))"
  by code_simp

text \<open>The quoted host name and the other text stay in their places.\<close>

theorem expansion_in_place_witness:
  "\<exists>specs gaps base_dir fss. parse_local_process_substitutions ''diff <(id) x'' = Inr specs
     \<and> length gaps = Suc (length specs) \<and> ''diff <(id) x'' = weave gaps (map su_raw specs)
     \<and> [(''/t/subst-00/merged.out'', merged_output [(''h'', ''u'')])] = concat fss
     \<and> subst_runs (\<lambda>_. Some (Done [(''h'', ''u'')])) base_dir 0 specs fss
     \<and> (opens_none (weave gaps (replacements specs fss)) \<longrightarrow>
          ''diff '' @ shell_quote ''/t/subst-00/merged.out'' @ '' x'' = weave gaps (replacements specs fss))"
  by (rule expansion_in_place[where refuses = "\<lambda>_. None" and temp_dir = "Inr ''/t''"]) code_simp

end
