(* ===== verification/Prov_Data.thy ===== *)
theory Prov_Data
  imports Conf_Match Go_Path "HOL-Library.List_Lexorder" "HOL-Library.Char_ord"
begin

text \<open>
  Provider settings, \<^verbatim>\<open>internal/config/provider.go\<close>: the accessors of the untyped tables a provider
  is configured with, the reserved keys, the merging of settings, references to secrets, and the
  search for the executable of a provider. A Go map is a list of pairs with distinct keys.
\<close>

section \<open>Untyped values\<close>

text \<open>The values of a decoded table. A floating point number has its truncation and its printed form.\<close>

datatype dyn =
    D_Nil
  | D_Bool bool
  | D_Int int
  | D_Float int string
  | D_String string
  | D_Strings "string list"
  | D_List "dyn list"
  | D_Map "(string \<times> dyn) list"

type_synonym table = "(string \<times> dyn) list"

definition itoa :: "int \<Rightarrow> string" where
  "itoa n = (if n < 0 then ''-'' @ decimal (nat (- n)) else decimal (nat n))"

text \<open>\<open>fmt.Sprint\<close>; the keys of a map are printed in order.\<close>

fun sprint :: "dyn \<Rightarrow> string" where
  "sprint D_Nil = ''<nil>''"
| "sprint (D_Bool b) = (if b then ''true'' else ''false'')"
| "sprint (D_Int n) = itoa n"
| "sprint (D_Float n s) = s"
| "sprint (D_String s) = s"
| "sprint (D_Strings ss) = ''['' @ join_with '' '' ss @ '']''"
| "sprint (D_List vs) = ''['' @ join_with '' '' (map sprint vs) @ '']''"
| "sprint (D_Map kvs) =
     ''map['' @ join_with '' '' (map (\<lambda>(k, s). k @ '':'' @ s) (sort_key fst (map (\<lambda>(k, v). (k, sprint v)) kvs))) @ '']''"

definition provider_string :: "table \<Rightarrow> string \<Rightarrow> string" where
  "provider_string raw key = (case map_of raw key of None \<Rightarrow> '''' | Some v \<Rightarrow> sprint v)"

definition provider_string_slice :: "table \<Rightarrow> string \<Rightarrow> string list" where
  "provider_string_slice raw key =
     (case map_of raw key of
        Some (D_Strings ss) \<Rightarrow> ss
      | Some (D_List vs) \<Rightarrow> map sprint vs
      | _ \<Rightarrow> [])"

definition as_bool :: "dyn \<Rightarrow> bool option" where
  "as_bool v =
     (case v of
        D_Bool b \<Rightarrow> Some b
      | D_String s \<Rightarrow>
          (let t = to_lower (trim_space s)
           in if t \<in> set [''true'', ''yes'', ''1''] then Some True
              else if t \<in> set [''false'', ''no'', ''0''] then Some False else None)
      | _ \<Rightarrow> None)"

definition as_int64 :: "dyn \<Rightarrow> int option" where
  "as_int64 v = (case v of D_Int n \<Rightarrow> Some n | D_Float n _ \<Rightarrow> Some n | _ \<Rightarrow> None)"

text \<open>\<open>%q\<close> of printable text.\<close>

definition quoted_text :: "string \<Rightarrow> string" where
  "quoted_text s = [CHR 0x22] @ s @ [CHR 0x22]"

section \<open>Settings of a provider\<close>

record providers_config =
  pv_paths :: "string list"
  pv_timeout :: string
  pv_max_parallel :: int
  pv_inventory_cache_ttl :: string
  pv_fail_open :: bool
  pv_debug_log :: string

definition merge_providers_config :: "providers_config \<Rightarrow> providers_config \<Rightarrow> providers_config" where
  "merge_providers_config base override =
     base\<lparr>pv_paths := (if pv_paths override \<noteq> [] then pv_paths base @ pv_paths override else pv_paths base),
       pv_timeout := (if pv_timeout override \<noteq> '''' then pv_timeout override else pv_timeout base),
       pv_max_parallel := (if 0 < pv_max_parallel override then pv_max_parallel override else pv_max_parallel base),
       pv_inventory_cache_ttl :=
         (if pv_inventory_cache_ttl override \<noteq> '''' then pv_inventory_cache_ttl override else pv_inventory_cache_ttl base),
       pv_fail_open := (if pv_fail_open override then True else pv_fail_open base),
       pv_debug_log := (if pv_debug_log override \<noteq> '''' then pv_debug_log override else pv_debug_log base)\<rparr>"

definition provider_enabled :: "table \<Rightarrow> bool" where
  "provider_enabled raw = (case map_of raw ''enabled'' of None \<Rightarrow> True | Some v \<Rightarrow> as_bool v = Some True)"

definition provider_has_capability :: "table \<Rightarrow> string \<Rightarrow> bool" where
  "provider_has_capability raw capability = list_ex (\<lambda>v. v = capability) (provider_string_slice raw ''capabilities'')"

definition provider_fail_open :: "providers_config \<Rightarrow> table \<Rightarrow> bool" where
  "provider_fail_open global raw =
     (case map_of raw ''fail_open'' of
        Some v \<Rightarrow> (case as_bool v of Some b \<Rightarrow> b | None \<Rightarrow> pv_fail_open global)
      | None \<Rightarrow> pv_fail_open global)"

text \<open>In nanoseconds; \<open>parse_duration\<close> is the library's parser.\<close>

definition provider_timeout :: "(string \<Rightarrow> int option) \<Rightarrow> providers_config \<Rightarrow> table \<Rightarrow> int" where
  "provider_timeout parse_duration global raw =
     (let v = provider_string raw ''timeout''; v = (if v = '''' then pv_timeout global else v)
      in if v = '''' then 5000000000 else (case parse_duration v of None \<Rightarrow> 5000000000 | Some d \<Rightarrow> d))"

definition parse_secret_ref :: "string \<Rightarrow> (string \<times> string) result" where
  "parse_secret_ref ref =
     (case split_at CHR '':'' ref of
        Some (a, b) \<Rightarrow> if a = '''' \<or> b = '''' then errorf (''invalid provider secret ref '' @ quoted_text ref) else Inr (a, b)
      | None \<Rightarrow> errorf (''invalid provider secret ref '' @ quoted_text ref))"

text \<open>\<open>ResolveSecretRef\<close>; \<open>get\<close> is the call of the provider.\<close>

definition resolve_secret_ref ::
    "(string \<Rightarrow> table \<Rightarrow> string \<Rightarrow> string result) \<Rightarrow> (string \<times> table) list \<Rightarrow> string \<Rightarrow> string result" where
  "resolve_secret_ref get providers ref =
     (case parse_secret_ref ref of Inl e \<Rightarrow> Inl e
      | Inr (name, secret_ref) \<Rightarrow>
          (case map_of providers name of
             None \<Rightarrow> errorf (''provider '' @ quoted_text name @ '' is not configured'')
           | Some raw \<Rightarrow>
               if \<not> provider_enabled raw then errorf (''provider '' @ quoted_text name @ '' is disabled'')
               else if \<not> provider_has_capability raw ''secret''
               then errorf (''provider '' @ quoted_text name @ '' does not support secret capability'')
               else get name raw secret_ref))"

section \<open>Reserved keys\<close>

definition control_keys :: "string list" where
  "control_keys = [''plugin'', ''capabilities'', ''default_connector_name'', ''enabled'', ''fail_open'', ''timeout'',
     ''debug_log'', ''match'']"

definition provider_reserved_keys :: "table \<Rightarrow> string list" where
  "provider_reserved_keys raw = sort (remdups (control_keys @ provider_string_slice raw ''reserved_keys''))"

definition provider_server_default_map :: "table \<Rightarrow> table" where
  "provider_server_default_map raw = filter (\<lambda>(k, v). k \<notin> set (provider_reserved_keys raw)) raw"

definition merge_provider_describe_metadata :: "table \<Rightarrow> string list \<Rightarrow> table" where
  "merge_provider_describe_metadata raw reserved =
     (if reserved \<noteq> [] then AList.update ''reserved_keys'' (D_List (map D_String reserved)) raw else raw)"

definition provider_needs_describe_reserved_keys :: "table \<Rightarrow> bool" where
  "provider_needs_describe_reserved_keys raw =
     (if provider_string_slice raw ''reserved_keys'' \<noteq> [] then False
      else list_ex (\<lambda>(k, v). k \<notin> set control_keys) raw)"

section \<open>Executables\<close>

fun unique_paths_from :: "string list \<Rightarrow> string list \<Rightarrow> string list" where
  "unique_paths_from seen [] = []"
| "unique_paths_from seen (p # ps) =
     (if p = '''' \<or> p \<in> set seen then unique_paths_from seen ps else p # unique_paths_from (p # seen) ps)"

definition unique_paths :: "string list \<Rightarrow> string list" where
  "unique_paths ps = unique_paths_from [] ps"

definition replace_prefix :: "string \<Rightarrow> string \<Rightarrow> string \<Rightarrow> string" where
  "replace_prefix s old new = new @ drop (length old) s"

definition provider_executable_candidates :: "string \<Rightarrow> string list" where
  "provider_executable_candidates plugin =
     (let names = plugin #
            (if has_prefix plugin ''provider-mixed-'' then [replace_prefix plugin ''provider-mixed-'' ''provider-inventory-'']
             else if has_prefix plugin ''provider-inventory-'' then [replace_prefix plugin ''provider-inventory-'' ''provider-mixed-'']
             else [])
      in unique_paths (concat (map (\<lambda>n. if n = '''' then [] else [n, ''lssh-provider-'' @ n]) names)))"

text \<open>The home and working directories; \<open>None\<close> is an error.\<close>

record dirs =
  dr_home :: "string option"
  dr_cwd :: "string option"

definition expand_provider_path :: "dirs \<Rightarrow> string \<Rightarrow> string" where
  "expand_provider_path d p =
     (if p = '''' then ''''
      else (let p = (case dr_home d of
                       Some home \<Rightarrow> if home = '''' then p
                                    else if p = ''~'' then home
                                    else if has_prefix p ''~/'' then path_join [home, trim_prefix p ''~/''] else p
                     | None \<Rightarrow> p)
            in if is_abs p then path_clean p
               else (case dr_cwd d of None \<Rightarrow> path_clean p | Some cwd \<Rightarrow> path_clean (path_join [cwd, p]))))"

definition provider_search_paths :: "dirs \<Rightarrow> providers_config \<Rightarrow> string list" where
  "provider_search_paths d global =
     unique_paths (map (expand_provider_path d) (pv_paths global)
       @ (case dr_home d of
            Some home \<Rightarrow> if home = '''' then []
              else [path_join [home, ''.config'', ''lssh'', ''providers''],
                    path_join [home, ''.local'', ''share'', ''lssh'', ''providers'']]
          | None \<Rightarrow> []))"

definition path_within :: "string \<Rightarrow> string \<Rightarrow> bool" where
  "path_within p base =
     (case filepath_rel base p of None \<Rightarrow> False
      | Some rel \<Rightarrow> rel = ''.'' \<or> (rel \<noteq> ''..'' \<and> \<not> has_prefix rel ''../''))"

definition same_file_or_within :: "(string \<Rightarrow> bool) \<Rightarrow> string \<Rightarrow> string \<Rightarrow> bool" where
  "same_file_or_within executable p base =
     (if p = base then True else if executable base then False else path_within p base)"

text \<open>\<open>filepath.Base\<close>.\<close>

definition path_base :: "string \<Rightarrow> string" where
  "path_base p =
     (if p = '''' then ''.''
      else (let q = rev (dropWhile (\<lambda>c. c = CHR ''/'') (rev p))
            in if q = '''' then ''/'' else rev (takeWhile (\<lambda>c. c \<noteq> CHR ''/'') (rev q))))"

fun search_entries :: "(string \<Rightarrow> bool) \<Rightarrow> string list \<Rightarrow> string list \<Rightarrow> string option" where
  "search_entries executable candidates [] = None"
| "search_entries executable candidates (entry # es) =
     (if executable entry then
        (if path_base entry \<in> set candidates then Some entry else search_entries executable candidates es)
      else (case find executable (map (\<lambda>c. path_join [entry, c]) candidates) of
              Some full \<Rightarrow> Some full
            | None \<Rightarrow> search_entries executable candidates es))"

text \<open>\<open>resolveProviderExecutable\<close>; \<open>executable\<close> says whether a path is an executable file.\<close>

definition resolve_provider_executable ::
    "(string \<Rightarrow> bool) \<Rightarrow> dirs \<Rightarrow> providers_config \<Rightarrow> string \<Rightarrow> string result" where
  "resolve_provider_executable executable d global plugin =
     (let paths = provider_search_paths d global
      in if CHR ''/'' \<in> set plugin then
           (let full = expand_provider_path d plugin
            in if list_ex (\<lambda>base. same_file_or_within executable full base \<and> executable full) paths then Inr full
               else errorf (''provider executable '' @ quoted_text plugin @ '' is outside configured provider paths''))
         else (case search_entries executable (provider_executable_candidates plugin) paths of
                 Some full \<Rightarrow> Inr full
               | None \<Rightarrow> errorf (''provider executable '' @ quoted_text plugin @ '' was not found in configured provider paths'')))"

section \<open>Where executables are found\<close>

lemma join_with_dotdot: "has_prefix (join_with ''/'' (''..'' # es)) ''../'' \<or> join_with ''/'' (''..'' # es) = ''..''"
  by (cases es) auto

lemma path_within_abs:
  assumes "is_abs base" "is_abs p"
  shows "path_within p base \<longleftrightarrow> prefix (clean_elems base) (clean_elems p)"
proof -
  obtain bs ps where s: "strip_common (clean_elems base) (clean_elems p) = (bs, ps)"
    by fastforce
  obtain cs where cs: "clean_elems base = cs @ bs" "clean_elems p = cs @ ps" "bs \<noteq> [] \<and> ps \<noteq> [] \<longrightarrow> hd bs \<noteq> hd ps"
    using strip_common_spec[OF s] by blast
  have proper: "list_all proper_elem bs" "list_all proper_elem ps"
    using clean_elems_proper[OF assms(1)] clean_elems_proper[OF assms(2)] by (simp_all add: cs)
  then have nodots: "''..'' \<notin> set bs"
    by (auto simp: list_all_iff proper_elem_def)
  show ?thesis
  proof (cases bs)
    case Nil
    show ?thesis
    proof (cases ps)
      case (Cons e es)
      then have e: "e \<noteq> ''''" "e \<noteq> ''..''" "CHR ''/'' \<notin> set e"
        using proper by (auto simp: proper_elem_def)
      have "join_with ''/'' (e # es) \<noteq> ''..''"
        using e proper Cons by (cases es) (auto simp: append_eq_Cons_conv Cons_eq_append_conv)
      moreover have "\<not> has_prefix (join_with ''/'' (e # es)) ''../''"
      proof
        assume "has_prefix (join_with ''/'' (e # es)) ''../''"
        then obtain t where t: "join_with ''/'' (e # es) = ''..'' @ CHR ''/'' # t"
          by (auto simp: has_prefix_iff prefix_def)
        have "takeWhile (\<lambda>c. c \<noteq> CHR ''/'') (join_with ''/'' (e # es)) = e"
        proof -
          have "\<forall>c \<in> set e. c \<noteq> CHR ''/''"
            using e(3) by blast
          then show ?thesis
            by (cases es) (auto simp: takeWhile_eq_all_conv takeWhile_append2)
        qed
        with t e(2) show False
          by simp
      qed
      ultimately show ?thesis
        using assms s Nil Cons cs by (simp add: path_within_def filepath_rel_def)
    qed (use assms s Nil cs in \<open>simp add: path_within_def filepath_rel_def\<close>)
  next
    case (Cons b bs')
    have "\<not> prefix (clean_elems base) (clean_elems p)"
      using cs Cons by (cases ps) auto
    moreover have "\<not> path_within p base"
      using assms s Cons nodots join_with_dotdot[of "map (\<lambda>_. ''..'') bs' @ ps"]
      by (auto simp: path_within_def filepath_rel_def)
    ultimately show ?thesis
      by simp
  qed
qed

lemma unique_paths_from_subset: "set (unique_paths_from seen ps) \<subseteq> set ps"
  by (induction seen ps rule: unique_paths_from.induct) auto

lemma abs_clean_is_abs: "abs_clean p \<Longrightarrow> is_abs p"
  by (simp add: abs_clean_def)

lemma path_join_abs_clean:
  assumes "is_abs a" "b \<noteq> ''''"
  shows "abs_clean (path_join [a, b])"
proof -
  have "a \<noteq> []" "is_abs (a @ CHR ''/'' # b)"
    using assms by (cases a; auto simp: is_abs_def)+
  then show ?thesis
    using assms abs_clean_clean by (simp add: path_join_def)
qed

text \<open>With absolute home and working directories every path searched is absolute and clean.\<close>

definition absolute_dirs :: "dirs \<Rightarrow> bool" where
  "absolute_dirs d = (case (dr_home d, dr_cwd d) of (Some h, Some c) \<Rightarrow> is_abs h \<and> is_abs c | _ \<Rightarrow> False)"

lemma expand_provider_path_abs:
  assumes "absolute_dirs d" "p \<noteq> ''''"
  shows "abs_clean (expand_provider_path d p)"
proof -
  obtain home cwd where d: "dr_home d = Some home" "dr_cwd d = Some cwd" "is_abs home" "is_abs cwd"
    using assms(1) by (auto simp: absolute_dirs_def split: option.splits)
  let ?p = "if p = ''~'' then home else if has_prefix p ''~/'' then path_join [home, trim_prefix p ''~/''] else p"
  have home: "home \<noteq> ''''"
    using d(3) by (auto simp: is_abs_def)
  have eq: "expand_provider_path d p = (if is_abs ?p then path_clean ?p else path_clean (path_join [cwd, ?p]))"
    using assms(2) d(1,2) home by (simp add: expand_provider_path_def Let_def)
  have "is_abs (path_join [cwd, ?p])" if "\<not> is_abs ?p"
  proof (cases "?p = ''''")
    case True
    have "cwd \<noteq> []"
      using d(4) by (auto simp: is_abs_def)
    then show ?thesis
      using d(4) True by (simp add: path_join_def)
  qed (use path_join_abs_clean[OF d(4)] abs_clean_is_abs in blast)
  then show ?thesis
    unfolding eq by (auto intro: abs_clean_clean)
qed

lemma provider_search_paths_abs:
  assumes "absolute_dirs d" "base \<in> set (provider_search_paths d global)"
  shows "abs_clean base"
proof -
  have ne: "base \<noteq> ''''"
  proof -
    have "'''' \<notin> set (unique_paths_from seen ps)" for seen ps
      by (induction seen ps rule: unique_paths_from.induct) auto
    then show ?thesis
      using assms(2) by (auto simp: provider_search_paths_def unique_paths_def)
  qed
  obtain home where h: "dr_home d = Some home" "is_abs home"
    using assms(1) by (auto simp: absolute_dirs_def split: option.splits)
  have join3: "abs_clean (path_join (home # a # b # cs))" if "a \<noteq> ''''" for a b cs
  proof -
    have "is_abs (join_with ''/'' (filter (\<lambda>e. e \<noteq> []) (home # a # b # cs)))"
      using h(2) that by (cases home) (auto simp: is_abs_def)
    then show ?thesis
      using h(2) that by (auto simp: path_join_def Let_def intro!: abs_clean_clean)
  qed
  have "base \<in> set (map (expand_provider_path d) (pv_paths global) @
      (if home = '''' then [] else [path_join [home, ''.config'', ''lssh'', ''providers''],
         path_join [home, ''.local'', ''share'', ''lssh'', ''providers'']]))"
    using assms(2) unique_paths_from_subset unfolding provider_search_paths_def unique_paths_def h(1) option.case by blast
  then consider
    p where "base = expand_provider_path d p" "p \<in> set (pv_paths global)"
    | "base = path_join [home, ''.config'', ''lssh'', ''providers'']"
    | "base = path_join [home, ''.local'', ''share'', ''lssh'', ''providers'']"
    by (auto split: if_splits)
  then show ?thesis
  proof cases
    case 1
    then have "p \<noteq> ''''"
      using ne by (auto simp: expand_provider_path_def)
    then show ?thesis
      using 1 expand_provider_path_abs[OF assms(1)] by simp
  qed (use join3 in auto)
qed

lemma path_join_dots:
  assumes "list_all proper_elem es"
  shows "path_join [abs_path es, ''.''] = abs_path es" "path_join [abs_path es, ''..''] = abs_path (butlast es)"
proof -
  have split: "split_on CHR ''/'' (abs_path es @ ''/'' @ e) = [[]] @ (if es = [] then [[]] else es) @ [e]"
    if "CHR ''/'' \<notin> set e" for e
  proof -
    have "abs_path es @ ''/'' @ e = join_with ''/'' ([[]] @ (if es = [] then [[]] else es) @ [e])"
      by (auto simp: abs_path_def join_with_append join_with_Cons)
    then show ?thesis
      using list_all_proper_no_slash[OF assms] that
        split_on_join[of "[[]] @ (if es = [] then [[]] else es) @ [e]" "CHR ''/''"] by auto
  qed
  have "''..'' \<notin> set es"
    using assms by (auto simp: list_all_iff proper_elem_def)
  then have top: "rev es = x # xs \<Longrightarrow> x \<noteq> ''..''" for x xs
    by (metis list.set_intros(1) set_rev)
  have abs: "is_abs (abs_path es @ ''/'' @ e)" for e
    by (simp add: is_abs_def abs_path_def)
  have fold: "foldl (clean_step True) [] ([[]] @ (if es = [] then [[]] else es) @ [e]) = clean_step True (rev es) e" for e
    using assms by (simp add: foldl_clean_step_proper clean_step_def[of _ _ "[]"])
  have clean: "path_clean (abs_path es @ ''/'' @ e) = abs_path (rev (clean_step True (rev es) e))"
    if "CHR ''/'' \<notin> set e" for e
    using abs[of e] by (simp only: path_clean_abs clean_elems_def split[OF that] fold)
  have "path_join [abs_path es, e] = path_clean (abs_path es @ ''/'' @ e)" if "e \<noteq> []" for e
    using that by (simp add: path_join_def abs_path_def)
  then show "path_join [abs_path es, ''.''] = abs_path es" "path_join [abs_path es, ''..''] = abs_path (butlast es)"
    using clean[of "''.''"] clean[of "''..''"] top
    by (auto simp: clean_step_def butlast_conv_take rev_take split: list.split)
qed

lemma candidates_no_slash:
  assumes "c \<in> set (provider_executable_candidates plugin)" "CHR ''/'' \<notin> set plugin"
  shows "proper_elem c \<or> c = ''.'' \<or> c = ''..'' \<and> plugin = ''..''"
proof -
  let ?names = "plugin #
            (if has_prefix plugin ''provider-mixed-'' then [replace_prefix plugin ''provider-mixed-'' ''provider-inventory-'']
             else if has_prefix plugin ''provider-inventory-'' then [replace_prefix plugin ''provider-inventory-'' ''provider-mixed-'']
             else [])"
  have "\<exists>n \<in> set ?names. n \<noteq> '''' \<and> (c = n \<or> c = ''lssh-provider-'' @ n)"
    using assms(1) unique_paths_from_subset[of "[]" "concat (map (\<lambda>n. if n = '''' then [] else [n, ''lssh-provider-'' @ n]) ?names)"]
    unfolding provider_executable_candidates_def Let_def unique_paths_def
    by (auto split: if_splits)
  then obtain n where n: "n \<in> set ?names" "n \<noteq> ''''" "c = n \<or> c = ''lssh-provider-'' @ n"
    by blast
  have "CHR ''/'' \<notin> set n \<and> (n = ''.'' \<longrightarrow> plugin = ''.'') \<and> (n = ''..'' \<longrightarrow> plugin = ''..'')"
    using n(1) assms(2) by (auto simp: replace_prefix_def dest: in_set_dropD split: if_splits)
  then show ?thesis
    using n(2,3) by (auto simp: proper_elem_def)
qed

lemma search_entries_Some:
  "search_entries executable cs es = Some p \<Longrightarrow>
     executable p \<and> (\<exists>entry \<in> set es. p = entry \<or> (\<exists>c \<in> set cs. p = path_join [entry, c]))"
  by (induction executable cs es rule: search_entries.induct)
     (auto simp: find_Some_iff in_set_conv_nth split: if_splits option.splits, metis length_map nth_map nth_mem)

text \<open>
  C19. When the home and the working directory are absolute, and whatever the plugin is called in the
  configuration, the file that is run is an executable one at or below one of the directories that are
  searched, also when its name has slashes or dots in it. The one exception is a plugin called \<open>..\<close>: then it may also be
  the parent of such a directory, when that is an executable file.
\<close>

theorem provider_executable_confined:
  assumes "resolve_provider_executable executable d global plugin = Inr p"
    and "absolute_dirs d"
  shows "executable p \<and> abs_clean p \<and>
     (\<exists>base \<in> set (provider_search_paths d global).
        prefix (clean_elems base) (clean_elems p)
        \<or> plugin = ''..'' \<and> clean_elems p = butlast (clean_elems base))"
proof (cases "CHR ''/'' \<in> set plugin")
  case True
  let ?full = "expand_provider_path d plugin"
  have "list_ex (\<lambda>base. same_file_or_within executable ?full base \<and> executable ?full) (provider_search_paths d global)" "p = ?full"
    using assms(1) True unfolding resolve_provider_executable_def Let_def errorf_def
    by (simp_all split: if_splits)
  then obtain base where b: "base \<in> set (provider_search_paths d global)" "same_file_or_within executable p base" "executable p"
    by (auto simp: list_ex_iff)
  have "plugin \<noteq> ''''"
    using True by auto
  then have p: "abs_clean p"
    using expand_provider_path_abs[OF assms(2)] \<open>p = ?full\<close> by simp
  have base: "is_abs base"
    using provider_search_paths_abs[OF assms(2) b(1)] by (rule abs_clean_is_abs)
  have "p = base \<or> path_within p base"
    using b(2) by (simp add: same_file_or_within_def split: if_splits)
  then have "prefix (clean_elems base) (clean_elems p)"
    using path_within_abs[OF base abs_clean_is_abs[OF p]] by blast
  with b p show ?thesis
    by blast
next
  case False
  then have "search_entries executable (provider_executable_candidates plugin) (provider_search_paths d global) = Some p"
    using assms(1) False unfolding resolve_provider_executable_def Let_def errorf_def
    by (simp split: option.splits)
  then obtain entry where e: "executable p" "entry \<in> set (provider_search_paths d global)"
      "p = entry \<or> (\<exists>c \<in> set (provider_executable_candidates plugin). p = path_join [entry, c])"
    using search_entries_Some by blast
  have entry: "abs_clean entry"
    using provider_search_paths_abs[OF assms(2) e(2)] .
  then obtain es where es: "entry = abs_path es" "list_all proper_elem es"
    by (metis abs_cleanE)
  have "abs_clean p \<and> (prefix (clean_elems entry) (clean_elems p)
      \<or> plugin = ''..'' \<and> clean_elems p = butlast (clean_elems entry))"
  proof (cases "p = entry")
    case False
    then obtain c where c: "c \<in> set (provider_executable_candidates plugin)" "p = path_join [entry, c]"
      using e(3) by blast
    from candidates_no_slash[OF c(1) \<open>CHR ''/'' \<notin> set plugin\<close>] consider
        "proper_elem c" | "c = ''.''" | "c = ''..''" "plugin = ''..''"
      by blast
    then show ?thesis
    proof cases
      case 1
      then have "p = abs_path (es @ [c])" "list_all proper_elem (es @ [c])"
        using path_join_abs_path[of es "[c]"] es c(2) by simp_all
      then show ?thesis
        using es by simp
    next
      case 2
      then show ?thesis
        using False c(2) es path_join_dots(1) by simp
    next
      case 3
      have "list_all proper_elem (butlast es)"
        using es(2) by (auto simp: list_all_iff dest: in_set_butlastD)
      with 3 show ?thesis
        using c(2) es path_join_dots(2)[OF es(2)] by simp
    qed
  qed (use entry in simp)
  with e show ?thesis
    by blast
qed

lemma provider_executable_confined_witness:
  "abs_clean ''/home/u/providers/tool''
    \<and> (\<exists>base \<in> set (provider_search_paths \<lparr>dr_home = Some ''/home/u'', dr_cwd = Some ''/''\<rparr>
          \<lparr>pv_paths = [''~/providers''], pv_timeout = '''', pv_max_parallel = 0, pv_inventory_cache_ttl = '''',
            pv_fail_open = False, pv_debug_log = ''''\<rparr>).
        prefix (clean_elems base) (clean_elems ''/home/u/providers/tool''))"
proof -
  let ?d = "\<lparr>dr_home = Some ''/home/u'', dr_cwd = Some ''/''\<rparr>"
  let ?g = "\<lparr>pv_paths = [''~/providers''], pv_timeout = '''', pv_max_parallel = 0, pv_inventory_cache_ttl = '''',
     pv_fail_open = False, pv_debug_log = ''''\<rparr>"
  have "resolve_provider_executable (\<lambda>p. p = ''/home/u/providers/tool'') ?d ?g ''tool'' = Inr ''/home/u/providers/tool''"
    by code_simp
  moreover have "absolute_dirs ?d"
    by code_simp
  ultimately show ?thesis
    using provider_executable_confined[of "\<lambda>p. p = ''/home/u/providers/tool''" ?d ?g "''tool''"] by simp
qed

text \<open>The exception: a plugin called \<open>..\<close> is the file above a configured directory.\<close>

lemma provider_executable_parent:
  "resolve_provider_executable (\<lambda>p. p = ''/opt/tool'') \<lparr>dr_home = None, dr_cwd = Some ''/''\<rparr>
     \<lparr>pv_paths = [''/opt/tool/p''], pv_timeout = '''', pv_max_parallel = 0, pv_inventory_cache_ttl = '''',
       pv_fail_open = False, pv_debug_log = ''''\<rparr> ''..'' = Inr ''/opt/tool''"
  by code_simp

end
