(* ===== verification/Prov_Redact.thy ===== *)
theory Prov_Redact
  imports Prov_Data
begin

text \<open>
  Calling a provider, and what is kept out of its log and its errors,
  \<^verbatim>\<open>internal/config/provider.go\<close>: \<open>callProvider\<close>, the fields that are redacted, the sensitive values that
  are collected from the request and the response, and their replacement. The JSON library, running
  a process and the names of files are parameters.
\<close>

section \<open>Sensitive fields\<close>

definition sensitive_names :: "string list" where
  "sensitive_names = [''token'', ''token_secret'', ''password'', ''pass'', ''passes'', ''passphrase'', ''secret'',
     ''client_secret'', ''access_key'', ''secret_access_key'', ''session_token'', ''keypass'', ''keycmdpass'',
     ''certkeypass'', ''pin'']"

definition should_redact :: "string \<Rightarrow> string list \<Rightarrow> bool \<Rightarrow> bool" where
  "should_redact method path is_request =
     (if path = [] then False
      else if last path \<in> set sensitive_names then True
      else method = ''secret.get'' \<and> \<not> is_request \<and> 2 \<le> length path \<and> hd path = ''result'' \<and> last path = ''value'')"

definition redacted :: string where
  "redacted = ''<redacted>''"

definition redacted_value :: "dyn \<Rightarrow> dyn" where
  "redacted_value v =
     (case v of
        D_List vs \<Rightarrow> D_List (map (\<lambda>_. D_String redacted) vs)
      | D_Map kvs \<Rightarrow> D_Map (map (\<lambda>(k, v). (k, D_String redacted)) kvs)
      | _ \<Rightarrow> D_String redacted)"

fun sanitize_value :: "string \<Rightarrow> bool \<Rightarrow> string list \<Rightarrow> dyn \<Rightarrow> dyn"
and sanitize_fields :: "string \<Rightarrow> bool \<Rightarrow> string list \<Rightarrow> (string \<times> dyn) list \<Rightarrow> (string \<times> dyn) list"
and sanitize_items :: "string \<Rightarrow> bool \<Rightarrow> string list \<Rightarrow> dyn list \<Rightarrow> dyn list" where
  "sanitize_value method is_request path (D_Map kvs) = D_Map (sanitize_fields method is_request path kvs)"
| "sanitize_value method is_request path (D_List vs) = D_List (sanitize_items method is_request path vs)"
| "sanitize_value method is_request path v = v"
| "sanitize_fields method is_request path [] = []"
| "sanitize_fields method is_request path ((k, v) # kvs) =
     (k, if should_redact method (path @ [k]) is_request then redacted_value v
         else sanitize_value method is_request (path @ [k]) v) # sanitize_fields method is_request path kvs"
| "sanitize_items method is_request path [] = []"
| "sanitize_items method is_request path (v # vs) =
     sanitize_value method is_request path v # sanitize_items method is_request path vs"

text \<open>The texts below a value, and those below its sensitive fields.\<close>

fun leaf_strings :: "dyn \<Rightarrow> string list"
and leaf_fields :: "(string \<times> dyn) list \<Rightarrow> string list"
and leaf_items :: "dyn list \<Rightarrow> string list" where
  "leaf_strings (D_String s) = [s]"
| "leaf_strings (D_List vs) = leaf_items vs"
| "leaf_strings (D_Map kvs) = leaf_fields kvs"
| "leaf_strings v = []"
| "leaf_fields [] = []"
| "leaf_fields ((k, v) # kvs) = leaf_strings v @ leaf_fields kvs"
| "leaf_items [] = []"
| "leaf_items (v # vs) = leaf_strings v @ leaf_items vs"

fun collect_value :: "string \<Rightarrow> bool \<Rightarrow> string list \<Rightarrow> dyn \<Rightarrow> string list"
and collect_fields :: "string \<Rightarrow> bool \<Rightarrow> string list \<Rightarrow> (string \<times> dyn) list \<Rightarrow> string list"
and collect_items :: "string \<Rightarrow> bool \<Rightarrow> string list \<Rightarrow> dyn list \<Rightarrow> string list" where
  "collect_value method is_request path (D_Map kvs) = collect_fields method is_request path kvs"
| "collect_value method is_request path (D_List vs) = collect_items method is_request path vs"
| "collect_value method is_request path v = []"
| "collect_fields method is_request path [] = []"
| "collect_fields method is_request path ((k, v) # kvs) =
     (if should_redact method (path @ [k]) is_request then leaf_strings v
      else collect_value method is_request (path @ [k]) v) @ collect_fields method is_request path kvs"
| "collect_items method is_request path [] = []"
| "collect_items method is_request path (v # vs) =
     collect_value method is_request path v @ collect_items method is_request path vs"

definition collect_from_json :: "(string \<Rightarrow> dyn option) \<Rightarrow> string \<Rightarrow> string \<Rightarrow> bool \<Rightarrow> string list" where
  "collect_from_json parse_json method data is_request =
     (if trim_space data = '''' then []
      else (case parse_json data of None \<Rightarrow> [] | Some v \<Rightarrow> collect_value method is_request [] v))"

text \<open>The longest values come first.\<close>

definition sensitive_values :: "(string \<Rightarrow> dyn option) \<Rightarrow> string \<Rightarrow> string \<Rightarrow> string \<Rightarrow> string list" where
  "sensitive_values parse_json method input stdout =
     sort_key (\<lambda>s. - int (length s))
       (sort (remdups (filter (\<lambda>s. s \<noteq> '''')
          (collect_from_json parse_json method input True @ collect_from_json parse_json method stdout False))))"

section \<open>Replacing them in a text\<close>

definition sanitize_string :: "string \<Rightarrow> string list \<Rightarrow> string" where
  "sanitize_string value secrets =
     (if value = '''' then value else foldl (\<lambda>s v. if v = '''' then s else replace_all s v redacted) value secrets)"

definition sanitize_json :: "(string \<Rightarrow> dyn option) \<Rightarrow> (dyn \<Rightarrow> string option) \<Rightarrow> string \<Rightarrow> string \<Rightarrow> bool \<Rightarrow> string" where
  "sanitize_json parse_json marshal method data is_request =
     (if trim_space data = '''' then data
      else (case parse_json data of None \<Rightarrow> data
            | Some v \<Rightarrow> (case marshal (sanitize_value method is_request [] v) of None \<Rightarrow> data | Some s \<Rightarrow> s)))"

text \<open>Where the log of a provider is; no text where there is none.\<close>

definition log_expand_path :: "dirs \<Rightarrow> string \<Rightarrow> string" where
  "log_expand_path d value =
     (if value = '''' then ''''
      else (let value = (case dr_home d of
                           Some home \<Rightarrow> if value = ''~'' then home
                                        else if has_prefix value ''~/'' then path_join [home, trim_prefix value ''~/''] else value
                         | None \<Rightarrow> value)
            in if is_abs value then path_clean value
               else (case dr_cwd d of Some cwd \<Rightarrow> path_join [cwd, value] | None \<Rightarrow> value)))"

definition provider_debug_log_path :: "dirs \<Rightarrow> providers_config \<Rightarrow> table \<Rightarrow> string" where
  "provider_debug_log_path d global raw =
     (let value = provider_string raw ''debug_log''; value = (if value = '''' then pv_debug_log global else value)
      in if value = '''' then '''' else log_expand_path d value)"

text \<open>
  The lines \<open>writeProviderDebugLog\<close> adds to the log, each as its label and what stands after
  it: a header of the time, the provider, the method and the executable, which is written as it is,
  the sanitised texts, and an empty line. Nothing is written when no log is asked for, or when its directory
  or the file cannot be opened.
\<close>

definition debug_log_header :: "string \<Rightarrow> string \<Rightarrow> string \<Rightarrow> string \<Rightarrow> string \<times> string" where
  "debug_log_header now name method executable =
     (''['', now @ ''] provider='' @ name @ '' method='' @ method @ '' executable='' @ executable)"

definition debug_log_lines ::
    "(string \<Rightarrow> dyn option) \<Rightarrow> (dyn \<Rightarrow> string option) \<Rightarrow> (string \<Rightarrow> bool) \<Rightarrow> string \<Rightarrow> string \<Rightarrow> string \<Rightarrow> string
      \<Rightarrow> string \<Rightarrow> string \<Rightarrow> string \<Rightarrow> string \<Rightarrow> string option \<Rightarrow> (string \<times> string) list" where
  "debug_log_lines parse_json marshal can_open now log_path name method executable input stdout stderr run_err =
     (if log_path = '''' \<or> \<not> can_open log_path then []
      else (let values = sensitive_values parse_json method input stdout;
                san_input = sanitize_string (sanitize_json parse_json marshal method input True) values;
                san_stdout = sanitize_string (sanitize_json parse_json marshal method stdout False) values;
                san_stderr = sanitize_string stderr values
            in [debug_log_header now name method executable, (''request='', trim_space san_input)]
               @ (if san_stdout \<noteq> '''' then [(''stdout='', trim_space san_stdout)] else [])
               @ (if san_stderr \<noteq> '''' then [(''stderr='', trim_space san_stderr)] else [])
               @ (case run_err of None \<Rightarrow> [] | Some e \<Rightarrow> [(''error='', sanitize_string e values)])
               @ [('''', '''')]))"

section \<open>The call\<close>

datatype provider_failure = Provider_Error string string string | Call_Error string

record response =
  rs_error :: "(string \<times> string) option"     \<comment> \<open>code and message\<close>
  rs_result :: string

record process_run =
  pr_err :: "string option"
  pr_stdout :: string
  pr_stderr :: string

definition provider_error_string :: "provider_failure \<Rightarrow> string" where
  "provider_error_string f =
     (case f of Provider_Error provider code msg \<Rightarrow> ''provider '' @ quoted_text provider @ '': '' @ msg | Call_Error msg \<Rightarrow> msg)"

definition is_provider_error_code :: "provider_failure \<Rightarrow> string \<Rightarrow> bool" where
  "is_provider_error_code f code = (case f of Provider_Error _ c _ \<Rightarrow> c = code | Call_Error _ \<Rightarrow> False)"

text \<open>\<open>callProvider\<close>: \<open>find_executable\<close> is \<open>resolveProviderExecutable\<close>, \<open>encode\<close> makes the request and \<open>exec\<close>
  runs a file on it. The result is the raw result, empty when there is none.\<close>

definition call_provider ::
    "(string \<Rightarrow> dyn option) \<Rightarrow> (string \<Rightarrow> response result) \<Rightarrow> (string \<Rightarrow> string result) \<Rightarrow> (string \<Rightarrow> string result)
      \<Rightarrow> (string \<Rightarrow> string \<Rightarrow> process_run) \<Rightarrow> (string \<times> table) list \<Rightarrow> string \<Rightarrow> string \<Rightarrow> provider_failure + string" where
  "call_provider parse_json parse_response find_executable encode exec providers name method =
     (case map_of providers name of
        None \<Rightarrow> Inl (Call_Error (''provider '' @ quoted_text name @ '' is not configured''))
      | Some raw \<Rightarrow>
          (let plugin = provider_string raw ''plugin''; plugin = (if plugin = '''' then name else plugin)
           in case find_executable plugin of
                Inl e \<Rightarrow> Inl (Call_Error (''provider '' @ quoted_text name @ '': '' @ err_message e))
              | Inr path \<Rightarrow>
                  (case encode method of
                     Inl e \<Rightarrow> Inl (Call_Error (err_message e))
                   | Inr input \<Rightarrow>
                       (let run = exec path input;
                            values = sensitive_values parse_json method input (pr_stdout run)
                        in case pr_err run of
                             Some err \<Rightarrow>
                               (case (if pr_stdout run = '''' then None
                                      else case parse_response (pr_stdout run) of Inl e \<Rightarrow> None | Inr r \<Rightarrow> rs_error r) of
                                  Some (code, msg) \<Rightarrow>
                                    Inl (Provider_Error name code (sanitize_string msg values))
                                | None \<Rightarrow>
                                    if pr_stderr run \<noteq> ''''
                                    then Inl (Call_Error (''provider '' @ quoted_text name @ '': '' @ err @ '': ''
                                           @ sanitize_string (trim_space (pr_stderr run)) values))
                                    else Inl (Call_Error (''provider '' @ quoted_text name @ '': '' @ err)))
                           | None \<Rightarrow>
                               (case parse_response (pr_stdout run) of
                                  Inl e \<Rightarrow> Inl (Call_Error (''provider '' @ quoted_text name @ '' decode response from ''
                                            @ quoted_text path @ '': '' @ err_message e))
                                | Inr r \<Rightarrow>
                                    (case rs_error r of
                                       Some (code, msg) \<Rightarrow> Inl (Provider_Error name code (sanitize_string msg values))
                                     | None \<Rightarrow> Inr (rs_result r)))))))"

section \<open>Sensitive fields are gone\<close>

lemma leaf_redacted: "set (leaf_strings (redacted_value v)) \<subseteq> {redacted}"
proof (cases v)
  case (D_List vs)
  have "set (leaf_items (map (\<lambda>_. D_String redacted) vs)) \<subseteq> {redacted}"
    by (induction vs) auto
  with D_List show ?thesis
    by (simp add: redacted_value_def)
next
  case (D_Map kvs)
  have "set (leaf_fields (map (\<lambda>(k, v). (k, D_String redacted)) kvs)) \<subseteq> {redacted}"
    by (induction kvs) auto
  with D_Map show ?thesis
    by (simp add: redacted_value_def)
qed (simp_all add: redacted_value_def)

text \<open>Looking for sensitive values in what is logged finds only the mark that replaces them.\<close>

theorem sanitized_json_has_no_secrets:
  "set (collect_value name request path (sanitize_value name request path v)) \<subseteq> {redacted}"
proof -
  have "set (collect_value name request path (sanitize_value name request path v)) \<subseteq> {redacted}"
    and "set (collect_fields name request path (sanitize_fields name request path kvs)) \<subseteq> {redacted}"
    and "set (collect_items name request path (sanitize_items name request path vs)) \<subseteq> {redacted}"
    for kvs vs
  by (induction name request path v and name request path kvs and name request path vs
      rule: sanitize_value_sanitize_fields_sanitize_items.induct)
     (use leaf_redacted in auto)
  then show ?thesis
    by blast
qed

section \<open>Secrets do not survive in a text\<close>

lemma index_of_first: "index_of s p = Some i \<Longrightarrow> j < i \<Longrightarrow> \<not> prefix p (drop j s)"
proof (induction s p arbitrary: i j rule: index_of.induct)
  case (2 c s p)
  then show ?case
    by (cases j) (auto simp: has_prefix_iff split: if_splits)
qed (auto split: if_splits)

lemma index_of_None_sublist: "index_of s p = None \<longleftrightarrow> \<not> sublist p s"
  by (induction s p rule: index_of.induct) (auto simp: has_prefix_iff sublist_Cons_right)

lemma index_of_take:
  assumes "index_of s p = Some i" "p \<noteq> []"
  shows "\<not> sublist p (take i s)"
proof
  assume "sublist p (take i s)"
  then obtain a b where ab: "take i s = a @ p @ b"
    by (auto simp: sublist_def)
  have "s = take i s @ drop i s"
    by simp
  then have "s = a @ p @ b @ drop i s"
    using ab by simp
  then have "prefix p (drop (length a) s)"
    by (metis append_eq_conv_conj prefixI)
  moreover have "length a + length p \<le> length (take i s)"
    by (simp add: ab)
  then have "length a < i"
    using assms(2) by (cases p) auto
  ultimately show False
    using index_of_first[OF assms(1)] by blast
qed

lemma sublist_separator: "c \<notin> set w \<Longrightarrow> sublist w (a @ c # b) \<longleftrightarrow> sublist w a \<or> sublist w b"
  by (auto simp: sublist_append sublist_Cons_right prefix_Cons intro: suffix_imp_sublist)

text \<open>A value that neither has an angle bracket nor is part of the word \<open>redacted\<close>.\<close>

definition plain_secret :: "string \<Rightarrow> bool" where
  "plain_secret w \<longleftrightarrow> w \<noteq> '''' \<and> CHR ''<'' \<notin> set w \<and> CHR ''>'' \<notin> set w \<and> \<not> sublist w ''redacted''"

lemma sublist_around_redacted:
  assumes "plain_secret w"
  shows "sublist w (a @ redacted @ b) \<longleftrightarrow> sublist w a \<or> sublist w b"
proof -
  have "a @ redacted @ b = a @ CHR ''<'' # (''redacted'' @ CHR ''>'' # b)"
    by (simp add: redacted_def)
  moreover have "sublist w (a @ CHR ''<'' # (''redacted'' @ CHR ''>'' # b))
      \<longleftrightarrow> sublist w a \<or> sublist w (''redacted'' @ CHR ''>'' # b)"
    by (rule sublist_separator) (use assms in \<open>simp add: plain_secret_def\<close>)
  moreover have "sublist w (''redacted'' @ CHR ''>'' # b) \<longleftrightarrow> sublist w ''redacted'' \<or> sublist w b"
    by (rule sublist_separator) (use assms in \<open>simp add: plain_secret_def\<close>)
  moreover have "\<not> sublist w ''redacted''"
    using assms unfolding plain_secret_def by blast
  ultimately show ?thesis
    by (metis append.assoc append_Cons append_Nil)
qed

lemma replace_all_new:
  assumes "plain_secret w" "sublist w (replace_all s v redacted)" "v \<noteq> []"
  shows "sublist w s \<and> w \<noteq> v"
  using assms(2,3)
proof (induction s v redacted rule: replace_all.induct)
  case (1 s v)
  show ?case
  proof (cases "index_of s v")
    case None
    then show ?thesis
      using 1(2) index_of_None_sublist[of s v] by (subst (asm) replace_all.simps) (auto split: if_splits)
  next
    case (Some i)
    have eq: "replace_all s v redacted = take i s @ redacted @ replace_all (drop (i + length v) s) v redacted"
      by (subst replace_all.simps) (simp only: Some 1(3) if_False option.case)
    have "sublist w (take i s) \<or> sublist w (replace_all (drop (i + length v) s) v redacted)"
      using 1(2) unfolding eq sublist_around_redacted[OF assms(1)] .
    then show ?thesis
    proof
      assume w: "sublist w (take i s)"
      then have "w \<noteq> v"
        using index_of_take[OF Some 1(3)] by blast
      with w show ?thesis
        using sublist_take sublist_order.order_trans by blast
    next
      assume "sublist w (replace_all (drop (i + length v) s) v redacted)"
      then have "sublist w (drop (i + length v) s) \<and> w \<noteq> v"
        using 1(1)[OF 1(3) Some _ 1(3)] by blast
      then show ?thesis
        using sublist_drop sublist_order.order_trans by blast
    qed
  qed
qed

lemma sanitize_string_clean:
  assumes "w \<in> set secrets" "plain_secret w"
  shows "\<not> sublist w (sanitize_string value secrets)"
proof -
  have ne: "w \<noteq> ''''"
    using assms(2) unfolding plain_secret_def by blast
  define step where "step s v = (if v = '''' then s else replace_all s v redacted)" for s v
  have keep: "sublist w (foldl step s vs) \<Longrightarrow> sublist w s \<and> w \<notin> set vs" for s vs
  proof (induction vs arbitrary: s)
    case (Cons v vs)
    have IH: "sublist w (step s v)" "w \<notin> set vs"
      using Cons.IH[of "step s v"] Cons.prems unfolding foldl_Cons by blast+
    have "sublist w s \<and> w \<noteq> v"
    proof (cases "v = ''''")
      case True
      with IH(1) ne show ?thesis
        by (simp only: step_def if_True simp_thms)
    next
      case False
      with IH(1) have "sublist w (replace_all s v redacted)"
        by (simp only: step_def if_False simp_thms)
      from replace_all_new[OF assms(2) this False] show ?thesis .
    qed
    with IH(2) show ?case
      by auto
  qed simp
  have "\<not> sublist w (foldl step value secrets)"
    using keep assms(1) by blast
  moreover have "\<not> sublist w ''''"
    using ne by simp
  ultimately show ?thesis
    unfolding sanitize_string_def step_def by (simp split: if_split)
qed

lemma sensitive_values_set:
  "set (sensitive_values parse_json method input stdout) =
     {s. s \<noteq> '''' \<and> (s \<in> set (collect_from_json parse_json method input True)
          \<or> s \<in> set (collect_from_json parse_json method stdout False))}"
  by (auto simp: sensitive_values_def)

lemma sublist_trim_space: "sublist w (trim_space s) \<Longrightarrow> sublist w s"
proof -
  have left: "suffix (trim_left_with ws s) s" for ws s
  proof (induction ws s rule: trim_left_with.induct)
    case (1 ws s)
    show ?case
      using 1 by (subst trim_left_with.simps) (auto intro: suffix_order.order_trans[OF _ suffix_drop])
  qed
  have "prefix (trim_right t) t" for t
    using left[of "map rev wide_spaces" "rev t"] by (simp add: trim_right_def suffix_to_prefix)
  then have "sublist (trim_space s) s"
    using left[of wide_spaces s] unfolding trim_space_def trim_left_def
    by (metis prefix_imp_sublist suffix_imp_sublist sublist_order.order_trans)
  then show "sublist w (trim_space s) \<Longrightarrow> sublist w s"
    using sublist_order.order_trans by blast
qed



end
