(* ===== verification/Conf_Reduct.thy ===== *)
theory Conf_Reduct
  imports Prov_Data
begin

text \<open>
  Settings of a server in layers, \<^verbatim>\<open>internal/config/main.go\<close> (\<open>serverConfigReduct\<close>),
  \<^verbatim>\<open>internal/common/common.go\<close> (\<open>MapReduce\<close>) and the reading of a table into the fields of a server,
  \<^verbatim>\<open>internal/config/provider.go\<close> (\<open>decodeTaggedMap\<close>) and \<^verbatim>\<open>control_persist.go\<close>.
\<close>

section \<open>Kinds of fields\<close>

datatype value_kind = K_String | K_Bool | K_Int | K_Strings | K_Duration | K_Branches

definition kind_of :: "string \<Rightarrow> value_kind" where
  "kind_of key =
     (if key \<in> set [''certpkcs11'', ''agentauth'', ''ssh_agent'', ''pkcs11'', ''local_rc_compress'', ''x11'',
          ''x11_trusted'', ''check_known_hosts'', ''control_master'', ''ignore''] then K_Bool
      else if key \<in> set [''connect_timeout'', ''alive_max'', ''alive_interval''] then K_Int
      else if key \<in> set [''passes'', ''keys'', ''certs'', ''ssh_agent_key'', ''local_rc_file'', ''port_forwards'',
          ''known_hosts_files''] then K_Strings
      else if key = ''control_persist'' then K_Duration
      else if key = ''match'' then K_Branches
      else K_String)"

definition zero_value :: "value_kind \<Rightarrow> conf_value" where
  "zero_value k =
     (case k of K_String \<Rightarrow> V_String '''' | K_Bool \<Rightarrow> V_Bool False | K_Int \<Rightarrow> V_Int 0 | K_Strings \<Rightarrow> V_Strings []
      | K_Duration \<Rightarrow> V_Int 0 | K_Branches \<Rightarrow> V_Branches)"

fun has_kind :: "conf_value \<Rightarrow> value_kind \<Rightarrow> bool" where
  "has_kind (V_String _) k = (k = K_String)"
| "has_kind (V_Bool _) k = (k = K_Bool)"
| "has_kind (V_Int _) k = (k = K_Int \<or> k = K_Duration)"
| "has_kind (V_Strings _) k = (k = K_Strings)"
| "has_kind V_Branches k = (k = K_Branches)"

lemma has_kind_zero [simp]: "has_kind (zero_value k) k"
  by (cases k) (simp_all add: zero_value_def)

section \<open>Reading a table\<close>

text \<open>\<open>%T\<close>.\<close>

definition type_name :: "dyn \<Rightarrow> string" where
  "type_name v =
     (case v of D_Nil \<Rightarrow> ''<nil>'' | D_Bool _ \<Rightarrow> ''bool'' | D_Int _ \<Rightarrow> ''int64'' | D_Float _ _ \<Rightarrow> ''float64''
      | D_String _ \<Rightarrow> ''string'' | D_Strings _ \<Rightarrow> ''[]string'' | D_List _ \<Rightarrow> ''[]interface {}''
      | D_Map _ \<Rightarrow> ''map[string]interface {}'')"

text \<open>\<open>parseControlPersist\<close>; \<open>parse_duration\<close> gives whole nanoseconds.\<close>

definition parse_control_persist :: "(string \<Rightarrow> int option) \<Rightarrow> dyn \<Rightarrow> int result" where
  "parse_control_persist parse_duration v =
     (case v of
        D_Int n \<Rightarrow> Inr n
      | D_String s \<Rightarrow>
          if s = '''' then Inr 0
          else (case atoi s of Some n \<Rightarrow> Inr n
                | None \<Rightarrow>
                    (case parse_duration s of
                       None \<Rightarrow> errorf (''invalid control_persist value '' @ quoted_text s)
                     | Some d \<Rightarrow> Inr (if 0 \<le> d then d div 1000000000 else - ((- d) div 1000000000))))
      | _ \<Rightarrow> errorf (''invalid control_persist type '' @ type_name v))"

text \<open>\<open>setTaggedValue\<close>: the new value of a field.\<close>

definition set_tagged_value :: "(string \<Rightarrow> int option) \<Rightarrow> value_kind \<Rightarrow> conf_value \<Rightarrow> dyn \<Rightarrow> conf_value result" where
  "set_tagged_value parse_duration kind old raw =
     (case kind of
        K_Duration \<Rightarrow> (case parse_control_persist parse_duration raw of Inl e \<Rightarrow> Inl e | Inr n \<Rightarrow> Inr (V_Int n))
      | K_String \<Rightarrow> Inr (V_String (sprint raw))
      | K_Bool \<Rightarrow> (case as_bool raw of None \<Rightarrow> errorf (''expected bool, got '' @ type_name raw) | Some b \<Rightarrow> Inr (V_Bool b))
      | K_Int \<Rightarrow> (case as_int64 raw of None \<Rightarrow> errorf (''expected integer, got '' @ type_name raw) | Some n \<Rightarrow> Inr (V_Int n))
      | K_Strings \<Rightarrow> Inr (V_Strings (provider_string_slice [(''_'', raw)] ''_''))
      | K_Branches \<Rightarrow> Inr old)"

text \<open>\<open>decodeTaggedMap\<close> into the fields of a server, in their order.\<close>

definition decode_field :: "(string \<Rightarrow> int option) \<Rightarrow> table \<Rightarrow> string \<Rightarrow> (string \<Rightarrow> conf_value) \<Rightarrow> (string \<Rightarrow> conf_value) result" where
  "decode_field parse_duration raw tag vals =
     (case map_of raw tag of None \<Rightarrow> Inr vals
      | Some v \<Rightarrow>
          (case set_tagged_value parse_duration (kind_of tag) (vals tag) v of
             Inl e \<Rightarrow> Inl (Go_Error (err_not_exist e) (''set '' @ tag @ '': '' @ err_message e))
           | Inr x \<Rightarrow> Inr (vals(tag := x))))"

definition zero_values :: "string \<Rightarrow> conf_value" where
  "zero_values key = zero_value (kind_of key)"

definition decode_tagged_map :: "(string \<Rightarrow> int option) \<Rightarrow> table \<Rightarrow> (string \<Rightarrow> conf_value) result" where
  "decode_tagged_map parse_duration raw = fold_result (decode_field parse_duration raw) server_keys zero_values"

section \<open>Layers\<close>

record port_forward =
  pf_mode :: string
  pf_local_network :: string
  pf_local :: string
  pf_remote_network :: string
  pf_remote :: string

text \<open>\<open>ServerConfig\<close>: the fields with a key, and those without.\<close>

record full_config =
  fc_values :: "string \<Rightarrow> conf_value"
  fc_match :: "(string \<times> match_branch) list"
  fc_forwards :: "port_forward option list"
  fc_provider_name :: string
  fc_provider_plugin :: string
  fc_provider_meta :: "(string \<times> string) list"
  fc_provider_config :: table

definition zero_config :: full_config where
  "zero_config = \<lparr>fc_values = zero_values, fc_match = [], fc_forwards = [], fc_provider_name = '''', fc_provider_plugin = '''',
     fc_provider_meta = [], fc_provider_config = []\<rparr>"

definition conf_string :: "full_config \<Rightarrow> string \<Rightarrow> string" where
  "conf_string c key = (case fc_values c key of V_String s \<Rightarrow> s | _ \<Rightarrow> '''')"

text \<open>One key of \<open>MapReduce\<close>: an empty value of the child is filled from the parent.\<close>

fun reduce_value :: "conf_value \<Rightarrow> conf_value \<Rightarrow> conf_value" where
  "reduce_value (V_String p) (V_String c) = V_String (if p \<noteq> '''' \<and> c = '''' then p else c)"
| "reduce_value (V_Strings p) (V_Strings c) = V_Strings (if p \<noteq> [] \<and> c = [] then p else c)"
| "reduce_value (V_Bool p) (V_Bool c) = V_Bool (if p \<and> \<not> c then p else c)"
| "reduce_value (V_Int p) (V_Int c) = V_Int (if p \<noteq> 0 \<and> c = 0 then p else c)"
| "reduce_value p c = c"

definition merge_provider_config_maps :: "table \<Rightarrow> table \<Rightarrow> table" where
  "merge_provider_config_maps base override = foldl (\<lambda>m (k, v). AList.update k v m) base override"

definition server_config_reduct :: "full_config \<Rightarrow> full_config \<Rightarrow> full_config" where
  "server_config_reduct per child =
     \<lparr>fc_values = (\<lambda>key. reduce_value (fc_values per key) (fc_values child key)),
      fc_match = fc_match child,
      fc_forwards = (if fc_forwards per \<noteq> [] \<and> fc_forwards child = [] then fc_forwards per else fc_forwards child),
      fc_provider_name = (if fc_provider_name per \<noteq> '''' \<and> fc_provider_name child = '''' then fc_provider_name per
                          else fc_provider_name child),
      fc_provider_plugin = (if fc_provider_plugin per \<noteq> '''' \<and> fc_provider_plugin child = '''' then fc_provider_plugin per
                            else fc_provider_plugin child),
      fc_provider_meta = fc_provider_meta child,
      fc_provider_config = merge_provider_config_maps (fc_provider_config per) (fc_provider_config child)\<rparr>"

section \<open>Laws of layers\<close>

definition typed_config :: "full_config \<Rightarrow> bool" where
  "typed_config c \<longleftrightarrow> (\<forall>key. has_kind (fc_values c key) (kind_of key))"

lemma reduce_value_kind: "has_kind p k \<Longrightarrow> has_kind c k \<Longrightarrow> has_kind (reduce_value p c) k"
  by (cases p; cases c) auto

lemma reduce_value_assoc:
  "has_kind a k \<Longrightarrow> has_kind b k \<Longrightarrow> has_kind c k \<Longrightarrow>
     reduce_value a (reduce_value b c) = reduce_value (reduce_value a b) c"
  by (cases a; cases b; cases c) auto

text \<open>A value of the child that is not empty wins.\<close>

lemma reduce_value_zero:
  "has_kind p k \<Longrightarrow> has_kind c k \<Longrightarrow> reduce_value p c = (if c = zero_value k then p else c)"
  by (cases p; cases c; cases k) (auto simp: zero_value_def)

lemma update_override: "map_of (merge_provider_config_maps base override) = map_of base ++ map_of (rev override)"
  unfolding merge_provider_config_maps_def
  by (induction override arbitrary: base) (auto simp: update_conv' map_add_def fun_eq_iff split: option.splits)

lemma merge_empty [simp]: "merge_provider_config_maps base [] = base"
  by (simp add: merge_provider_config_maps_def)

lemma update_distinct: "distinct (map fst m) \<Longrightarrow> distinct (map fst (AList.update k v m))"
  by (rule distinct_update)

lemma merge_distinct: "distinct (map fst base) \<Longrightarrow> distinct (map fst (merge_provider_config_maps base override))"
  unfolding merge_provider_config_maps_def
  by (induction override arbitrary: base) (auto intro: distinct_update)

lemma map_of_rev_distinct: "distinct (map fst m) \<Longrightarrow> map_of (rev m) = map_of m"
proof
  fix k
  assume m: "distinct (map fst m)"
  then have "distinct (map fst (rev m))"
    by (simp add: rev_map[symmetric])
  then have "map_of (rev m) k = Some v \<longleftrightarrow> map_of m k = Some v" for v
    using m by (simp add: map_of_eq_Some_iff)
  then show "map_of (rev m) k = map_of m k"
    by (metis option.exhaust)
qed

text \<open>Two configurations are the same when their tables are the same maps.\<close>

definition same_config :: "full_config \<Rightarrow> full_config \<Rightarrow> bool" where
  "same_config a b \<longleftrightarrow> a\<lparr>fc_provider_config := []\<rparr> = b\<lparr>fc_provider_config := []\<rparr>
     \<and> map_of (fc_provider_config a) = map_of (fc_provider_config b)"

text \<open>
  Layers can be put together in any grouping, and the empty layer below another adds nothing; what a
  layer sets wins over the layers below it, but a flag once set cannot be cleared and an empty text or
  list never hides one.
\<close>

theorem server_config_reduct_layers:
  assumes "typed_config a" "typed_config b" "typed_config c" "distinct (map fst (fc_provider_config c))"
    and "distinct (map fst (fc_provider_config b))"
  shows "same_config (server_config_reduct a (server_config_reduct b c)) (server_config_reduct (server_config_reduct a b) c)
    \<and> same_config (server_config_reduct zero_config c) c
    \<and> (\<forall>key. fc_values (server_config_reduct b c) key =
          (if fc_values c key = zero_value (kind_of key) then fc_values b key else fc_values c key))"
proof (intro conjI allI)
  have "reduce_value (fc_values a key) (reduce_value (fc_values b key) (fc_values c key))
      = reduce_value (reduce_value (fc_values a key) (fc_values b key)) (fc_values c key)" for key
    using assms(1-3) reduce_value_assoc[of "fc_values a key" "kind_of key"] by (auto simp: typed_config_def)
  moreover have "map_of (rev (merge_provider_config_maps (fc_provider_config b) (fc_provider_config c)))
      = map_of (merge_provider_config_maps (fc_provider_config b) (fc_provider_config c))"
    using assms(5) by (intro map_of_rev_distinct merge_distinct)
  ultimately show "same_config (server_config_reduct a (server_config_reduct b c)) (server_config_reduct (server_config_reduct a b) c)"
    using assms(4,5) by (auto simp: same_config_def server_config_reduct_def update_override map_of_rev_distinct)
  show "same_config (server_config_reduct zero_config c) c"
  proof -
    have "reduce_value (zero_values key) (fc_values c key) = fc_values c key" for key
      using assms(3) reduce_value_zero[of "zero_values key" "kind_of key" "fc_values c key"]
      by (auto simp: typed_config_def zero_values_def)
    then show ?thesis
      using assms(4) by (simp add: same_config_def server_config_reduct_def zero_config_def update_override map_of_rev_distinct)
  qed
  show "fc_values (server_config_reduct b c) key =
          (if fc_values c key = zero_value (kind_of key) then fc_values b key else fc_values c key)" for key
    using assms(2,3) by (simp add: server_config_reduct_def typed_config_def reduce_value_zero)
qed

lemma decode_field_kind:
  assumes "decode_field parse_duration raw tag vals = Inr vals'" "\<And>key. has_kind (vals key) (kind_of key)"
  shows "has_kind (vals' key) (kind_of key)"
proof -
  have "has_kind x k" if "set_tagged_value parse_duration k old v = Inr x" "has_kind old k" for k old v x
    using that by (cases k) (auto simp: set_tagged_value_def errorf_def split: sum.splits option.splits)
  with assms show ?thesis
    by (auto simp: decode_field_def split: option.splits sum.splits)
qed

lemma decode_tagged_map_kind:
  assumes "decode_tagged_map parse_duration raw = Inr vals"
  shows "has_kind (vals key) (kind_of key)"
proof -
  have "\<forall>key. has_kind (vals key) (kind_of key)"
    by (rule fold_result_inv[OF assms[unfolded decode_tagged_map_def], where I = "\<lambda>v. \<forall>key. has_kind (v key) (kind_of key)"])
      (auto simp: zero_values_def intro: decode_field_kind)
  then show ?thesis
    by blast
qed

lemma server_config_reduct_layers_witness:
  "\<exists>a b c. fc_values (server_config_reduct (server_config_reduct a b) c) ''user'' = V_String ''root''
    \<and> fc_values (server_config_reduct b c) ''port'' = V_String ''22''
    \<and> same_config (server_config_reduct a (server_config_reduct b c)) (server_config_reduct (server_config_reduct a b) c)"
proof -
  define layer where "layer = (\<lambda>key v. zero_config\<lparr>fc_values := zero_values(key := V_String v)\<rparr>)"
  have typed: "typed_config (layer ''user'' v)" "typed_config (layer ''port'' v)" for v
    by (simp_all add: layer_def typed_config_def zero_values_def kind_of_def)
  have tables: "distinct (map fst (fc_provider_config (layer key v)))" for key v
    by (simp add: layer_def zero_config_def)
  note laws = server_config_reduct_layers[OF typed(1) typed(2) typed(1) tables tables, of "''admin''" "''22''" "''root''"]
  have "fc_values (server_config_reduct (server_config_reduct (layer ''user'' ''admin'') (layer ''port'' ''22'')) (layer ''user'' ''root'')) ''user''
      = V_String ''root''"
    by (simp add: server_config_reduct_def layer_def zero_values_def zero_value_def kind_of_def)
  moreover have "fc_values (server_config_reduct (layer ''port'' ''22'') (layer ''user'' ''root'')) ''port'' = V_String ''22''"
    by (simp add: server_config_reduct_def layer_def zero_values_def zero_value_def kind_of_def)
  ultimately show ?thesis
    using laws by blast
qed

end
