(* ===== verification/Go_Match.thy ===== *)
theory Go_Match
  imports Go_Base "HOL-Library.Char_ord"
begin

text \<open>
  \<open>path.Match\<close> of Go: the pattern is read in chunks, each behind a star or not, and a chunk behind a
  star is tried at every position the star may reach. \<open>None\<close> is a malformed pattern. A character is
  a byte here, so that \<open>?\<close> and classes are exact on ASCII names.
\<close>

section \<open>Classes\<close>

fun get_esc :: "string \<Rightarrow> (char \<times> string) option" where
  "get_esc [] = None"
| "get_esc (c # cs) =
     (if c = CHR ''-'' \<or> c = CHR '']'' then None
      else if c = CHR 0x5C then (case cs of [] \<Rightarrow> None | d # ds \<Rightarrow> if ds = [] then None else Some (d, ds))
      else if cs = [] then None else Some (c, cs))"

lemma get_esc_length: "get_esc cs = Some (c, r) \<Longrightarrow> length r < length cs \<and> r \<noteq> []"
  by (cases cs) (auto split: if_splits list.splits)

text \<open>The ranges of a class up to its bracket: whether \<open>r\<close> is in one of them, and the rest.\<close>

function class_loop :: "char \<Rightarrow> bool \<Rightarrow> nat \<Rightarrow> string \<Rightarrow> (bool \<times> string) option" where
  "class_loop r matched nrange chunk =
     (if chunk \<noteq> [] \<and> hd chunk = CHR '']'' \<and> 0 < nrange then Some (matched, tl chunk)
      else (case get_esc chunk of None \<Rightarrow> None
            | Some (lo, chunk') \<Rightarrow>
                if hd chunk' = CHR ''-''
                then (case get_esc (tl chunk') of None \<Rightarrow> None
                      | Some (hi, chunk'') \<Rightarrow> class_loop r (matched \<or> (lo \<le> r \<and> r \<le> hi)) (nrange + 1) chunk'')
                else class_loop r (matched \<or> r = lo) (nrange + 1) chunk'))"
  by pat_completeness auto
termination
  by (relation "measure (\<lambda>(r, m, n, chunk). length chunk)") (auto dest!: get_esc_length)

declare class_loop.simps [simp del]

lemma class_loop_length: "class_loop r m n chunk = Some (b, rest) \<Longrightarrow> length rest < length chunk"
proof (induction r m n chunk rule: class_loop.induct)
  case (1 r m n chunk)
  show ?case
  proof (cases "chunk \<noteq> [] \<and> hd chunk = CHR '']'' \<and> 0 < n")
    case True
    with 1(3) show ?thesis
      by (subst (asm) class_loop.simps) auto
  next
    case False
    then obtain lo c1 where e: "get_esc chunk = Some (lo, c1)"
      using 1(3) by (subst (asm) class_loop.simps) (auto split: option.splits if_splits)
    show ?thesis
    proof (cases "hd c1 = CHR ''-''")
      case True
      then obtain hi c2 where e2: "get_esc (tl c1) = Some (hi, c2)"
        using 1(3) False e by (subst (asm) class_loop.simps) (auto split: option.splits if_splits)
      have "length rest < length c2"
        using 1(1)[OF False e refl True e2 refl] 1(3) False True e e2 by (subst (asm) (2) class_loop.simps) auto
      then show ?thesis
        using get_esc_length[OF e] get_esc_length[OF e2] by auto
    next
      case False': False
      have "length rest < length c1"
        using 1(2)[OF False e refl False'] 1(3) False False' e by (subst (asm) (2) class_loop.simps) auto
      then show ?thesis
        using get_esc_length[OF e] by auto
    qed
  qed
qed

section \<open>Chunks\<close>

text \<open>\<open>matchChunk\<close>: \<open>Some None\<close> when the chunk does not match, else what is left of the name.\<close>

function match_chunk :: "bool \<Rightarrow> string \<Rightarrow> string \<Rightarrow> string option option" where
  "match_chunk failed [] s = Some (if failed then None else Some s)"
| "match_chunk failed (c # chunk) s =
     (let failed = (failed \<or> s = []);
          s' = (if failed then s else tl s)
      in if c = CHR ''['' then
           (let r = (if failed then CHR 0x00 else hd s);
                negated = has_prefix chunk ''^'';
                chunk' = trim_prefix chunk ''^''
            in case class_loop r False 0 chunk' of None \<Rightarrow> None
               | Some (matched, rest) \<Rightarrow> match_chunk (failed \<or> matched = negated) rest s')
         else if c = CHR ''?'' then match_chunk (failed \<or> hd s = CHR ''/'') chunk s'
         else if c = CHR 0x5C then
           (case chunk of [] \<Rightarrow> None | d # rest \<Rightarrow> match_chunk (failed \<or> hd s \<noteq> d) rest s')
         else match_chunk (failed \<or> hd s \<noteq> c) chunk s')"
  by pat_completeness auto
termination
proof (relation "measure (\<lambda>(f, chunk, s). length chunk)", goal_cases)
  case (2 f c chunk s failed s' r negated chunk' a matched rest)
  have "length chunk' \<le> length chunk"
    using 2(6) by (simp add: trim_prefix_def)
  moreover have "length rest < length chunk'"
    using 2 class_loop_length by auto
  ultimately show ?case
    by simp
qed auto

text \<open>\<open>scanChunk\<close>: whether stars lead, the chunk up to the next star outside a class, and the rest.\<close>

fun scan_loop :: "bool \<Rightarrow> string \<Rightarrow> string \<times> string" where
  "scan_loop inrange [] = ([], [])"
| "scan_loop inrange (c # cs) =
     (if c = CHR 0x5C then
        (case cs of [] \<Rightarrow> ([c], []) | d # ds \<Rightarrow> (let (a, b) = scan_loop inrange ds in (c # d # a, b)))
      else if c = CHR ''*'' \<and> \<not> inrange then ([], c # cs)
      else (let (a, b) = scan_loop (if c = CHR ''['' then True else if c = CHR '']'' then False else inrange) cs
            in (c # a, b)))"

definition scan_chunk :: "string \<Rightarrow> bool \<times> string \<times> string" where
  "scan_chunk pattern =
     (has_prefix pattern ''*'', scan_loop False (dropWhile (\<lambda>c. c = CHR ''*'') pattern))"

lemma scan_loop_append: "scan_loop r cs = (a, b) \<Longrightarrow> cs = a @ b"
  by (induction r cs arbitrary: a rule: scan_loop.induct) (auto split: if_splits list.splits prod.splits)

lemma scan_loop_less: "cs \<noteq> [] \<Longrightarrow> hd cs \<noteq> CHR ''*'' \<Longrightarrow> scan_loop False cs = (a, b) \<Longrightarrow> length b < length cs"
  using scan_loop_append[of False cs a b] by (cases cs) (auto split: if_splits list.splits prod.splits)

lemma scan_chunk_less:
  assumes "scan_chunk p = (star, chunk, rest)" "p \<noteq> []"
  shows "length rest < length p"
proof -
  let ?q = "dropWhile (\<lambda>c. c = CHR ''*'') p"
  have s: "scan_loop False ?q = (chunk, rest)" "star = has_prefix p ''*''"
    using assms(1) by (auto simp: scan_chunk_def)
  have le: "length rest \<le> length ?q"
    using scan_loop_append[OF s(1)] by simp
  have dw: "length ?q \<le> length p"
    by (rule length_dropWhile_le)
  show ?thesis
  proof (cases "?q = []")
    case True
    then have "rest = []"
      using le by (metis le_zero_eq length_0_conv)
    then show ?thesis
      using assms(2) by simp
  next
    case False
    have "hd ?q \<noteq> CHR ''*''"
      using hd_dropWhile[OF False] by simp
    with False dw scan_loop_less[OF False _ s(1)] show ?thesis
      by linarith
  qed
qed

section \<open>Matching\<close>

text \<open>The tries of a chunk behind a star, at the positions before the next slash: an error, no match,
  or what is left of the name.\<close>

fun star_tries :: "bool \<Rightarrow> string \<Rightarrow> string \<Rightarrow> string option option" where
  "star_tries is_last chunk [] = Some None"
| "star_tries is_last chunk (c # name) =
     (if c = CHR ''/'' then Some None
      else (case match_chunk False chunk name of None \<Rightarrow> None
            | Some (Some t) \<Rightarrow> if is_last \<and> t \<noteq> [] then star_tries is_last chunk name else Some (Some t)
            | Some None \<Rightarrow> star_tries is_last chunk name))"

function check_rest :: "string \<Rightarrow> bool" where
  "check_rest pattern =
     (if pattern = [] then True
      else (case scan_chunk pattern of (_, chunk, rest) \<Rightarrow> match_chunk False chunk [] \<noteq> None \<and> check_rest rest))"
  by pat_completeness auto
termination
  by (relation "measure length") (auto dest: scan_chunk_less[OF sym])

declare check_rest.simps [simp del]

text \<open>What a chunk leaves of the name: tried at its start first, then behind the star. The last chunk has
  to use up the name.\<close>

definition try_chunk :: "bool \<Rightarrow> string \<Rightarrow> string \<Rightarrow> string \<Rightarrow> string option option" where
  "try_chunk star chunk rest name =
     (let tries = (if star then star_tries (rest = []) chunk name else Some None)
      in case match_chunk False chunk name of
           None \<Rightarrow> None
         | Some (Some t) \<Rightarrow> if t = [] \<or> rest \<noteq> [] then Some (Some t) else tries
         | Some None \<Rightarrow> tries)"

text \<open>\<open>path.Match\<close>.\<close>

function path_match :: "string \<Rightarrow> string \<Rightarrow> bool option" where
  "path_match pattern name =
     (if pattern = [] then Some (name = [])
      else (case scan_chunk pattern of (star, chunk, rest) \<Rightarrow>
        if star \<and> chunk = [] then Some (CHR ''/'' \<notin> set name)
        else (case try_chunk star chunk rest name of
                None \<Rightarrow> None
              | Some (Some t) \<Rightarrow> path_match rest t
              | Some None \<Rightarrow> if check_rest rest then Some False else None)))"
  by pat_completeness auto
termination
  by (relation "measure (\<lambda>(p, n). length p)") (auto dest: scan_chunk_less[OF sym])

declare path_match.simps [simp del]

text \<open>Whether a value matches; a malformed pattern does not.\<close>

definition pattern_ok :: "string \<Rightarrow> string \<Rightarrow> bool" where
  "pattern_ok pattern value = (path_match pattern value = Some True)"

section \<open>Facts\<close>

definition plain_pattern :: "string \<Rightarrow> bool" where
  "plain_pattern p \<longleftrightarrow> set p \<inter> {CHR ''*'', CHR ''?'', CHR ''['', CHR 0x5C} = {}"

lemma scan_loop_plain: "plain_pattern p \<Longrightarrow> scan_loop r (p @ q) = (case scan_loop (r \<and> CHR '']'' \<notin> set p) q of (a, b) \<Rightarrow> (p @ a, b))"
  by (induction p arbitrary: r) (auto simp: plain_pattern_def split: prod.splits)

lemma match_chunk_plain:
  "plain_pattern p \<Longrightarrow> match_chunk f p s = Some (if \<not> f \<and> prefix p s then Some (drop (length p) s) else None)"
proof (induction p arbitrary: f s)
  case (Cons c p)
  then have c: "c \<notin> {CHR ''*'', CHR ''?'', CHR ''['', CHR 0x5C}" "plain_pattern p"
    by (auto simp: plain_pattern_def)
  then show ?case
    using Cons.IH[OF c(2)] by (cases s) (auto simp: Let_def)
qed simp

text \<open>A pattern without special characters matches itself only, and followed by a star the names that
  go on without a slash.\<close>

lemma path_match_plain: "plain_pattern p \<Longrightarrow> path_match p name = Some (name = p)"
proof (cases "p = []")
  case True
  then show ?thesis
    by (simp add: path_match.simps)
next
  case False
  assume p: "plain_pattern p"
  then have "scan_chunk p = (False, p, [])"
    using False scan_loop_plain[OF p, of False "[]"] by (cases p) (auto simp: scan_chunk_def plain_pattern_def)
  moreover have "check_rest []"
    by (simp add: check_rest.simps)
  ultimately show ?thesis
    using False match_chunk_plain[OF p, of False name]
    by (subst path_match.simps) (auto simp: try_chunk_def prefix_def path_match.simps)
qed

lemma path_match_star:
  assumes "plain_pattern p"
  shows "path_match (p @ ''*'') name = Some (prefix p name \<and> CHR ''/'' \<notin> set (drop (length p) name))"
proof -
  have star: "path_match ''*'' t = Some (CHR ''/'' \<notin> set t)" for t
    by (subst path_match.simps) (simp add: scan_chunk_def)
  show ?thesis
  proof (cases "p = []")
    case True
    then show ?thesis
      by (simp add: star)
  next
    case False
    then have "scan_chunk (p @ ''*'') = (False, p, ''*'')"
      using scan_loop_plain[OF assms, of False "''*''"] assms by (cases p) (auto simp: scan_chunk_def plain_pattern_def)
    moreover have "check_rest ''*''"
      by (subst check_rest.simps) (simp add: scan_chunk_def check_rest.simps)
    ultimately show ?thesis
      using False match_chunk_plain[OF assms, of False name] star
      by (subst path_match.simps) (auto simp: try_chunk_def)
  qed
qed

end
