(* ===== verification/Prov_Match.thy ===== *)
theory Prov_Match
  imports Conf_Reduct Go_Match
begin

text \<open>
  What a provider's \<open>match\<close> branches do to the servers of its inventory, \<^verbatim>\<open>internal/config/provider.go\<close>:
  reading the branches, their order, their conditions on names and metadata, and the notes.
\<close>

section \<open>Branches\<close>

record inv_when =
  iw_name_in :: "string list"
  iw_name_not_in :: "string list"
  iw_provider_in :: "string list"
  iw_provider_not_in :: "string list"
  iw_meta_in :: "string list"
  iw_meta_not_in :: "string list"
  iw_meta_all_in :: "string list"
  iw_meta_all_not_in :: "string list"

record inv_match =
  im_name :: string
  im_priority :: int
  im_config :: full_config
  im_extra :: table
  im_when :: inv_when
  im_note_template :: string
  im_note_append :: string
  im_order :: int

definition no_inv_when :: inv_when where
  "no_inv_when = \<lparr>iw_name_in = [], iw_name_not_in = [], iw_provider_in = [], iw_provider_not_in = [], iw_meta_in = [],
     iw_meta_not_in = [], iw_meta_all_in = [], iw_meta_all_not_in = []\<rparr>"

definition slices_of :: "table \<Rightarrow> inv_when" where
  "slices_of t =
     \<lparr>iw_name_in = provider_string_slice t ''name_in'', iw_name_not_in = provider_string_slice t ''name_not_in'',
      iw_provider_in = provider_string_slice t ''provider_in'', iw_provider_not_in = provider_string_slice t ''provider_not_in'',
      iw_meta_in = provider_string_slice t ''meta_in'', iw_meta_not_in = provider_string_slice t ''meta_not_in'',
      iw_meta_all_in = provider_string_slice t ''meta_all_in'', iw_meta_all_not_in = provider_string_slice t ''meta_all_not_in''\<rparr>"

definition fill_when :: "inv_when \<Rightarrow> inv_when \<Rightarrow> inv_when" where
  "fill_when w n =
     (let pick = (\<lambda>a b. if a = [] then b else a)
      in \<lparr>iw_name_in = pick (iw_name_in w) (iw_name_in n), iw_name_not_in = pick (iw_name_not_in w) (iw_name_not_in n),
          iw_provider_in = pick (iw_provider_in w) (iw_provider_in n),
          iw_provider_not_in = pick (iw_provider_not_in w) (iw_provider_not_in n),
          iw_meta_in = pick (iw_meta_in w) (iw_meta_in n), iw_meta_not_in = pick (iw_meta_not_in w) (iw_meta_not_in n),
          iw_meta_all_in = pick (iw_meta_all_in w) (iw_meta_all_in n),
          iw_meta_all_not_in = pick (iw_meta_all_not_in w) (iw_meta_all_not_in n)\<rparr>)"

lemma size_map_of: "map_of t k = Some v \<Longrightarrow> size v < size (D_Map t)"
  by (induction t) (auto split: if_splits)

text \<open>\<open>decodeProviderInventoryWhen\<close>: a nested table \<open>when\<close> fills what is empty.\<close>

function decode_inventory_when :: "dyn \<Rightarrow> inv_when result" where
  "decode_inventory_when v =
     (case v of
        D_Nil \<Rightarrow> Inr no_inv_when
      | D_Map t \<Rightarrow>
          (case map_of t ''when'' of
             None \<Rightarrow> Inr (slices_of t)
           | Some nested \<Rightarrow>
               (case decode_inventory_when nested of Inl e \<Rightarrow> Inl e
                | Inr w \<Rightarrow> Inr (fill_when (slices_of t) w)))
      | _ \<Rightarrow> errorf ''must be a table'')"
  by pat_completeness auto
termination
  by (relation "measure size") (auto dest: size_map_of)

declare decode_inventory_when.simps [simp del]

definition match_order_key :: string where
  "match_order_key = ''__lssh_match_order''"

definition provider_match_order :: "table \<Rightarrow> int" where
  "provider_match_order branch =
     (case map_of branch match_order_key of
        Some v \<Rightarrow> (case as_int64 v of Some n \<Rightarrow> n | None \<Rightarrow> 0)
      | None \<Rightarrow> 0)"

definition branch_control_keys :: "string list" where
  "branch_control_keys =
     [''name_in'', ''name_not_in'', ''provider_in'', ''provider_not_in'', ''meta_in'', ''meta_not_in'', ''meta_all_in'',
      ''meta_all_not_in'', ''note_template'', ''note_append'', ''priority'', ''when''] @ server_keys"

definition match_extra_config :: "table \<Rightarrow> table" where
  "match_extra_config branch = filter (\<lambda>(k, v). k \<notin> set branch_control_keys) branch"

definition read_branch :: "(string \<Rightarrow> int option) \<Rightarrow> string \<times> dyn \<Rightarrow> inv_match result" where
  "read_branch parse_duration nb =
     (case nb of (name, branch) \<Rightarrow>
       (case branch of
          D_Map t \<Rightarrow>
            (case decode_tagged_map parse_duration t of Inl e \<Rightarrow> Inl e
             | Inr vals \<Rightarrow>
                 (case decode_inventory_when (D_Map t) of
                    Inl e \<Rightarrow> Inl (Go_Error (err_not_exist e) (''match.'' @ name @ '': '' @ err_message e))
                  | Inr w \<Rightarrow>
                      (case (case map_of t ''priority'' of None \<Rightarrow> Some 100 | Some p \<Rightarrow> as_int64 p) of
                         None \<Rightarrow> errorf (''match.'' @ name @ ''.priority must be an integer'')
                       | Some priority \<Rightarrow>
                           Inr \<lparr>im_name = name, im_priority = priority, im_config = zero_config\<lparr>fc_values := vals\<rparr>,
                                im_extra = match_extra_config t, im_when = w,
                                im_note_template = provider_string t ''note_template'',
                                im_note_append = provider_string t ''note_append'', im_order = provider_match_order t\<rparr>)))
        | _ \<Rightarrow> errorf (''match.'' @ name @ '' must be a table'')))"

text \<open>The branches in an order of iteration.\<close>

fun read_branches :: "(string \<Rightarrow> int option) \<Rightarrow> table \<Rightarrow> inv_match list result" where
  "read_branches parse_duration [] = Inr []"
| "read_branches parse_duration (b # bs) =
     (case read_branch parse_duration b of Inl e \<Rightarrow> Inl e
      | Inr m \<Rightarrow> (case read_branches parse_duration bs of Inl e \<Rightarrow> Inl e | Inr ms \<Rightarrow> Inr (m # ms)))"

definition match_key :: "inv_match \<Rightarrow> int \<times> int \<times> string" where
  "match_key m = (im_priority m, im_order m, im_name m)"

definition provider_inventory_matches :: "(string \<Rightarrow> int option) \<Rightarrow> table \<Rightarrow> inv_match list result" where
  "provider_inventory_matches parse_duration raw =
     (case map_of raw ''match'' of
        None \<Rightarrow> Inr []
      | Some (D_Map branches) \<Rightarrow>
          (case read_branches parse_duration branches of Inl e \<Rightarrow> Inl e | Inr ms \<Rightarrow> Inr (sort_key match_key ms))
      | Some _ \<Rightarrow> errorf ''match must be a table'')"

section \<open>Conditions\<close>

definition match_pattern_list :: "string \<Rightarrow> string list \<Rightarrow> bool \<Rightarrow> bool" where
  "match_pattern_list value patterns negative =
     (if patterns = [] then True
      else (let matched = list_ex (\<lambda>p. pattern_ok p value) patterns in if negative then \<not> matched else matched))"

definition meta_value :: "(string \<times> string) list \<Rightarrow> string \<Rightarrow> string" where
  "meta_value meta key = (case map_of meta key of None \<Rightarrow> '''' | Some v \<Rightarrow> v)"

definition meta_rule_ok :: "(string \<times> string) list \<Rightarrow> string \<Rightarrow> bool" where
  "meta_rule_ok meta rule =
     (case split_at CHR ''='' rule of None \<Rightarrow> False | Some (key, pattern) \<Rightarrow> pattern_ok pattern (meta_value meta key))"

definition match_meta_rules :: "(string \<times> string) list \<Rightarrow> string list \<Rightarrow> bool \<Rightarrow> bool" where
  "match_meta_rules meta rules negative =
     (if rules = [] then True
      else (let matched = list_ex (meta_rule_ok meta) rules in if negative then \<not> matched else matched))"

definition match_meta_rules_all :: "(string \<times> string) list \<Rightarrow> string list \<Rightarrow> bool \<Rightarrow> bool" where
  "match_meta_rules_all meta rules negative =
     (if rules = [] then True
      else (let matched_all = list_all (meta_rule_ok meta) rules in if negative then \<not> matched_all else matched_all))"

definition inventory_match_applies :: "inv_when \<Rightarrow> string \<Rightarrow> string \<Rightarrow> (string \<times> string) list \<Rightarrow> bool" where
  "inventory_match_applies w provider server meta =
     (if \<not> match_pattern_list server (iw_name_in w) False then False
      else if \<not> match_pattern_list server (iw_name_not_in w) True then False
      else if \<not> match_pattern_list provider (iw_provider_in w) False then False
      else if \<not> match_pattern_list provider (iw_provider_not_in w) True then False
      else if \<not> match_meta_rules meta (iw_meta_in w) False then False
      else if \<not> match_meta_rules meta (iw_meta_not_in w) True then False
      else if \<not> match_meta_rules_all meta (iw_meta_all_in w) False then False
      else if \<not> match_meta_rules_all meta (iw_meta_all_not_in w) True then False
      else True)"

section \<open>Notes\<close>

text \<open>The metadata in an order of iteration.\<close>

definition note_pairs :: "string \<Rightarrow> string \<Rightarrow> string \<Rightarrow> (string \<times> string) list \<Rightarrow> (string \<times> string) list" where
  "note_pairs note provider server meta =
     [(''${note}'', note), (''${provider}'', provider), (''${server}'', server)]
     @ map (\<lambda>(k, v). (''${meta:'' @ k @ ''}'', v)) meta"

definition render_note_template :: "string \<Rightarrow> string \<Rightarrow> string \<Rightarrow> string \<Rightarrow> (string \<times> string) list \<Rightarrow> string" where
  "render_note_template template note provider server meta =
     (if template = '''' then '''' else new_replacer (note_pairs note provider server meta) template)"

definition apply_note_template :: "string \<Rightarrow> string \<Rightarrow> string \<Rightarrow> (string \<times> string) list \<Rightarrow> inv_match \<Rightarrow> string" where
  "apply_note_template note provider server meta m =
     (let note = (if im_note_template m \<noteq> '''' then render_note_template (im_note_template m) note provider server meta else note)
      in if im_note_append m \<noteq> '''' then note @ render_note_template (im_note_append m) note provider server meta else note)"

definition set_note :: "string \<Rightarrow> full_config \<Rightarrow> full_config" where
  "set_note note c = c\<lparr>fc_values := (fc_values c)(''note'' := V_String note)\<rparr>"

definition apply_match :: "string \<Rightarrow> string \<Rightarrow> (string \<times> string) list \<Rightarrow> full_config \<Rightarrow> inv_match \<Rightarrow> full_config" where
  "apply_match provider server meta current m =
     (if inventory_match_applies (im_when m) provider server meta
      then (let current = server_config_reduct current (im_config m);
                current = current\<lparr>fc_provider_config := merge_provider_config_maps (fc_provider_config current) (im_extra m)\<rparr>
            in set_note (apply_note_template (conf_string current ''note'') provider server meta m) current)
      else current)"

definition apply_inventory_matches ::
    "string \<Rightarrow> string \<Rightarrow> (string \<times> string) list \<Rightarrow> full_config \<Rightarrow> inv_match list \<Rightarrow> full_config" where
  "apply_inventory_matches provider server meta base ms = foldl (apply_match provider server meta) base ms"

section \<open>Iteration order\<close>

lemma read_branches_map:
  "read_branches pd bs = Inr ms \<longleftrightarrow> list_all2 (\<lambda>b m. read_branch pd b = Inr m) bs ms"
proof (induction bs arbitrary: ms)
  case (Cons b bs)
  show ?case
  proof (cases "read_branch pd b")
    case (Inr m)
    show ?thesis
    proof (cases "read_branches pd bs")
      case (Inl e)
      then have "\<not> list_all2 (\<lambda>b m. read_branch pd b = Inr m) bs ms'" for ms'
        using Cons.IH[of ms'] by simp
      then show ?thesis
        using Inl Inr by (auto simp: list_all2_Cons1)
    next
      case (Inr ms')
      then have "list_all2 (\<lambda>b m. read_branch pd b = Inr m) bs xs \<longleftrightarrow> xs = ms'" for xs
        using Cons.IH[of xs] by auto
      then show ?thesis
        using Inr \<open>read_branch pd b = Inr m\<close> by (auto simp: list_all2_Cons1)
    qed
  qed (auto simp: list_all2_Cons1)
qed auto

lemma read_branch_name: "read_branch pd b = Inr m \<Longrightarrow> im_name m = fst b"
  by (auto simp: read_branch_def errorf_def split: prod.splits dyn.splits sum.splits option.splits)

lemma read_branches_names: "read_branches pd bs = Inr ms \<Longrightarrow> map im_name ms = map fst bs"
  unfolding read_branches_map by (induction rule: list_all2_induct) (auto dest: read_branch_name)

lemma read_branches_mset:
  assumes "mset bs = mset bs'" "read_branches pd bs = Inr ms"
  shows "\<exists>ms'. read_branches pd bs' = Inr ms' \<and> mset ms' = mset ms"
proof -
  let ?f = "\<lambda>b. projr (read_branch pd b)"
  have all: "\<forall>b \<in> set bs. read_branch pd b = Inr (?f b)" and ms: "ms = map ?f bs"
    using assms(2) unfolding read_branches_map
    by (auto simp: list_all2_conv_all_nth in_set_conv_nth intro!: nth_equalityI) (metis sum.sel(2))+
  have "set bs' = set bs"
    using mset_eq_setD[OF assms(1)] ..
  then have "list_all2 (\<lambda>b m. read_branch pd b = Inr m) bs' (map ?f bs')"
    using all by (auto simp: list_all2_conv_all_nth)
  moreover have "mset (map ?f bs') = mset (map ?f bs)"
    using assms(1) by simp
  ultimately show ?thesis
    unfolding read_branches_map ms by blast
qed

lemma sort_key_inj_mset:
  assumes "mset xs = mset ys" "inj_on f (set xs)"
  shows "sort_key f xs = sort_key f ys"
proof -
  have "map f (sort_key f zs) = sort (map f zs)" for zs
    by (rule properties_for_sort[symmetric]) simp_all
  moreover have "sort (map f xs) = sort (map f ys)"
    using assms(1) by (intro properties_for_sort) simp_all
  ultimately have "map f (sort_key f xs) = map f (sort_key f ys)"
    by simp
  moreover have "set xs = set ys"
    using assms(1) by (rule mset_eq_setD)
  ultimately show ?thesis
    using assms(2) by (intro map_inj_on[of f]) auto
qed

text \<open>
  The branches are applied in an order that does not depend on the iteration over their table: by
  priority, then position in the file, then name. An accepted table is accepted in every order.
\<close>

theorem inventory_matches_order:
  assumes "mset branches = mset branches'" "distinct (map fst branches)"
    and "provider_inventory_matches pd [(''match'', D_Map branches)] = Inr ms"
  shows "provider_inventory_matches pd [(''match'', D_Map branches')] = Inr ms
    \<and> sorted (map match_key ms) \<and> mset (map im_name ms) = mset (map fst branches)"
proof -
  obtain rs where rs: "read_branches pd branches = Inr rs" "ms = sort_key match_key rs"
    using assms(3) by (auto simp: provider_inventory_matches_def split: sum.splits)
  obtain rs' where rs': "read_branches pd branches' = Inr rs'" "mset rs' = mset rs"
    using read_branches_mset[OF assms(1) rs(1)] by blast
  have names: "map im_name rs = map fst branches"
    using read_branches_names[OF rs(1)] .
  then have "inj_on match_key (set rs)"
    using assms(2) by (auto simp: match_key_def inj_on_def)
      (metis distinct_map inj_on_contraD)
  then have "sort_key match_key rs' = ms"
    using rs(2) rs'(2) sort_key_inj_mset[of rs rs' match_key] by simp
  moreover have "mset (map im_name ms) = mset (map fst branches)"
    using names rs(2) by (metis mset_map mset_sort)
  ultimately show ?thesis
    using rs'(1) rs(2) by (simp add: provider_inventory_matches_def)
qed

section \<open>Which branch decides\<close>

lemma apply_match_value:
  assumes "key \<noteq> ''note''" "typed_config current" "typed_config (im_config m)"
  shows "fc_values (apply_match provider server meta current m) key =
     (if inventory_match_applies (im_when m) provider server meta \<and> fc_values (im_config m) key \<noteq> zero_value (kind_of key)
      then fc_values (im_config m) key else fc_values current key)"
proof -
  have "reduce_value (fc_values current key) (fc_values (im_config m) key)
      = (if fc_values (im_config m) key = zero_value (kind_of key) then fc_values current key else fc_values (im_config m) key)"
    using assms(2,3) by (intro reduce_value_zero) (auto simp: typed_config_def)
  then show ?thesis
    using assms(1) by (auto simp: apply_match_def Let_def set_note_def server_config_reduct_def split: if_splits)
qed

lemma kind_of_note [simp]: "kind_of ''note'' = K_String"
  by (simp add: kind_of_def)

lemma apply_match_typed:
  assumes "typed_config current" "typed_config (im_config m)"
  shows "typed_config (apply_match provider server meta current m)"
  using assms
  by (auto simp: typed_config_def apply_match_def Let_def set_note_def server_config_reduct_def intro: reduce_value_kind)

text \<open>
  For every setting but the note, the server of an inventory gets the value of the last branch that
  applies to it and sets it to something, and keeps its own value when there is none.
\<close>

theorem inventory_last_branch_wins:
  assumes "key \<noteq> ''note''" "typed_config base" "\<forall>m \<in> set ms. typed_config (im_config m)"
  shows "fc_values (apply_inventory_matches provider server meta base ms) key =
     (case filter (\<lambda>m. inventory_match_applies (im_when m) provider server meta
                \<and> fc_values (im_config m) key \<noteq> zero_value (kind_of key)) ms of
        [] \<Rightarrow> fc_values base key
      | m # rest \<Rightarrow> fc_values (im_config (last (m # rest))) key)"
proof -
  let ?sets = "\<lambda>m. inventory_match_applies (im_when m) provider server meta \<and> fc_values (im_config m) key \<noteq> zero_value (kind_of key)"
  have "fc_values (foldl (apply_match provider server meta) base ms) key =
      (if filter ?sets ms = [] then fc_values base key else fc_values (im_config (last (filter ?sets ms))) key)
      \<and> typed_config (foldl (apply_match provider server meta) base ms)"
    using assms(3)
  proof (induction ms rule: rev_induct)
    case (snoc m ms)
    then show ?case
      using apply_match_value[OF assms(1), of "foldl (apply_match provider server meta) base ms" m provider server meta]
        apply_match_typed[of "foldl (apply_match provider server meta) base ms" m provider server meta]
      by auto
  qed (use assms(2) in simp)
  then show ?thesis
    by (auto simp: apply_inventory_matches_def split: list.split)
qed

text \<open>The branches a table is read into have fields of the right kinds.\<close>

lemma read_branch_typed: "read_branch pd b = Inr m \<Longrightarrow> typed_config (im_config m)"
  by (auto simp: read_branch_def errorf_def typed_config_def dest: decode_tagged_map_kind
      split: prod.splits dyn.splits sum.splits option.splits)

text \<open>The position the reader of the file adds to a branch is not among the control keys, so that it
  becomes a setting that is handed to the provider.\<close>

lemma order_key_leaks:
  assumes "read_branch pd (name, D_Map t) = Inr m" "(match_order_key, v) \<in> set t"
  shows "(match_order_key, v) \<in> set (im_extra m)"
proof -
  have "match_order_key \<notin> set branch_control_keys"
    by (simp add: match_order_key_def branch_control_keys_def server_keys_def)
  then show ?thesis
    using assms by (auto simp: read_branch_def match_extra_config_def errorf_def split: sum.splits option.splits)
qed

lemma inventory_last_branch_wins_witness:
  "\<exists>base m1 m2. inventory_match_applies (im_when m2) ''aws'' ''web1'' [] \<and>
     fc_values (apply_inventory_matches ''aws'' ''web1'' [] base [m1, m2]) ''user'' = V_String ''root''"
proof -
  let ?layer = "\<lambda>v. zero_config\<lparr>fc_values := zero_values(''user'' := V_String v)\<rparr>"
  define branch where "branch = (\<lambda>v. \<lparr>im_name = v, im_priority = 100, im_config = ?layer v, im_extra = [],
      im_when = no_inv_when\<lparr>iw_provider_in := [''aws'']\<rparr>, im_note_template = '''', im_note_append = '''', im_order = 0\<rparr>)"
  have typed: "typed_config (?layer v)" "typed_config (im_config (branch v))" for v
    by (simp_all add: branch_def typed_config_def zero_values_def kind_of_def)
  have applies: "inventory_match_applies (im_when (branch v)) ''aws'' ''web1'' []" for v
    unfolding branch_def by code_simp
  have set_user: "fc_values (im_config (branch v)) ''user'' = V_String v" for v
    by (simp add: branch_def)
  have "fc_values (apply_inventory_matches ''aws'' ''web1'' [] (?layer ''admin'') [branch ''guest'', branch ''root'']) ''user''
      = V_String ''root''"
    using inventory_last_branch_wins[of "''user''" "?layer ''admin''" "[branch ''guest'', branch ''root'']" "''aws''" "''web1''" "[]"]
      typed applies by (simp add: set_user kind_of_def zero_value_def)
  with applies show ?thesis
    by blast
qed

end
