(* ===== verification/Conf_OpenSSH.thy ===== *)
theory Conf_OpenSSH
  imports Prov_Match Ssh_Parser
begin

text \<open>
  Servers taken from OpenSSH configurations, \<^verbatim>\<open>internal/config/openssh.go\<close>: the hosts of a parsed
  configuration, the settings each one gets, and the branches that change them. Looking up a setting is
  \<open>config_get\<close> of the parser's own package.
\<close>

section \<open>Paths of keys\<close>

definition expand_openssh_path :: "dirs \<Rightarrow> string \<Rightarrow> string" where
  "expand_openssh_path d p =
     (let p = (case dr_home d of
                 Some home \<Rightarrow> if has_prefix p ''~'' then home @ tl p else p
               | None \<Rightarrow> p)
      in if is_abs p then path_clean p
         else (case dr_cwd d of None \<Rightarrow> p | Some cwd \<Rightarrow> path_join [cwd, p]))"

definition default_identities :: "string list" where
  "default_identities = [''identity'', ''id_rsa'', ''id_dsa'', ''id_ecdsa'', ''id_ecdsa_sk'', ''id_ed25519'',
     ''id_ed25519_sk'', ''id_xmss'']"

text \<open>\<open>exists\<close> says whether a file is there.\<close>

definition normalize_identity_file :: "(string \<Rightarrow> bool) \<Rightarrow> dirs \<Rightarrow> string \<Rightarrow> string" where
  "normalize_identity_file exists d p =
     (let p = trim_space p
      in if p = '''' then ''''
         else (let full = expand_openssh_path d p
               in if full = '''' then p
                  else if exists full then p
                  else if path_base full \<in> set default_identities then '''' else p))"

section \<open>Looking up\<close>

definition openssh_value :: "string \<Rightarrow> ssh_config \<Rightarrow> string \<Rightarrow> string \<Rightarrow> string" where
  "openssh_value lu cfg host key = trim_space (config_get lu cfg host key)"

definition openssh_values :: "string \<Rightarrow> ssh_config \<Rightarrow> string \<Rightarrow> string \<Rightarrow> string list" where
  "openssh_values lu cfg host key = filter (\<lambda>v. v \<noteq> '''') (map trim_space (config_get_all lu cfg host key))"

definition openssh_identity_files :: "(string \<Rightarrow> bool) \<Rightarrow> dirs \<Rightarrow> string \<Rightarrow> ssh_config \<Rightarrow> string \<Rightarrow> string list" where
  "openssh_identity_files exists d lu cfg host =
     filter (\<lambda>k. k \<noteq> '''') (map (normalize_identity_file exists d) (openssh_values lu cfg host ''IdentityFile''))"

definition is_match_block :: "host \<Rightarrow> bool" where
  "is_match_block h =
     (let line = trim_space (takeWhile (\<lambda>c. c \<noteq> LF) (host_string h)) in has_prefix (to_lower line) ''match '')"

definition plain_host_pattern :: "string \<Rightarrow> bool" where
  "plain_host_pattern s = (\<not> has_prefix s ''!'' \<and> CHR ''*'' \<notin> set s \<and> CHR ''?'' \<notin> set s)"

fun dedup_from :: "string list \<Rightarrow> string list \<Rightarrow> string list" where
  "dedup_from seen [] = []"
| "dedup_from seen (v # vs) = (if v \<in> set seen then dedup_from seen vs else v # dedup_from (v # seen) vs)"

definition host_list :: "ssh_config \<Rightarrow> string list" where
  "host_list cfg =
     dedup_from [] (concat (map (\<lambda>h. if is_match_block h then []
        else filter plain_host_pattern (map pattern_string (hi_patterns (host_head h)))) cfg))"

section \<open>The settings of a host\<close>

type_synonym vals = "string \<Rightarrow> conf_value"

definition put :: "string \<Rightarrow> string \<Rightarrow> vals \<Rightarrow> vals" where
  "put key s vals = vals(key := V_String s)"

definition put_list :: "string \<Rightarrow> string list \<Rightarrow> vals \<Rightarrow> vals" where
  "put_list key ss vals = vals(key := V_Strings ss)"

definition put_true :: "string \<Rightarrow> vals \<Rightarrow> vals" where
  "put_true key vals = vals(key := V_Bool True)"

text \<open>The certificates behind the first, each with its key.\<close>

definition cert_pairs :: "string list \<Rightarrow> string list \<Rightarrow> string list" where
  "cert_pairs certs keys =
     concat (map (\<lambda>(i, cert).
        let key = (if i < length keys then keys ! i else if keys \<noteq> [] then hd keys else '''')
        in if key = '''' \<or> i = 0 then [] else [cert @ ''::'' @ key]) (enumerate 0 certs))"

definition put_keys :: "string list \<Rightarrow> string list \<Rightarrow> vals \<Rightarrow> vals" where
  "put_keys certs keys vals =
     (let vals = (if certs \<noteq> []
                  then (let vals = put ''cert'' (hd certs) vals;
                            vals = (if keys \<noteq> [] then put ''certkey'' (hd keys) vals else vals)
                        in put_list ''certs'' (cert_pairs certs keys) vals)
                  else if keys \<noteq> [] then put ''key'' (hd keys) vals else vals)
      in if 1 < length keys then put_list ''keys'' (tl keys) vals else vals)"

definition forward_end :: "string \<Rightarrow> string" where
  "forward_end s = (case atoi s of None \<Rightarrow> s | Some n \<Rightarrow> ''localhost:'' @ s)"

definition put_forward :: "string \<Rightarrow> vals \<Rightarrow> vals" where
  "put_forward v vals =
     (if v = '''' then vals
      else (case split_at CHR '' '' v of
              None \<Rightarrow> vals
            | Some (a, b) \<Rightarrow> put ''port_forward_remote'' (forward_end b) (put ''port_forward_local'' (forward_end a) vals)))"

definition put_nonempty :: "string \<Rightarrow> string \<Rightarrow> vals \<Rightarrow> vals" where
  "put_nonempty key v vals = (if v \<noteq> '''' then put key v vals else vals)"

definition put_pkcs11 :: "string \<Rightarrow> vals \<Rightarrow> vals" where
  "put_pkcs11 v vals = (if v \<noteq> '''' then put ''pkcs11provider'' v (put_true ''pkcs11'' vals) else vals)"

definition put_when :: "bool \<Rightarrow> string \<Rightarrow> vals \<Rightarrow> vals" where
  "put_when b key vals = (if b then put_true key vals else vals)"

definition put_persist :: "(string \<Rightarrow> int option) \<Rightarrow> string \<Rightarrow> vals \<Rightarrow> vals" where
  "put_persist parse_duration v vals =
     (if v \<noteq> ''''
      then (case parse_control_persist parse_duration (D_String v) of
              Inl e \<Rightarrow> vals | Inr n \<Rightarrow> vals(''control_persist'' := V_Int n))
      else vals)"

text \<open>The body of the loop of \<open>loadOpenSSHConfigEntries\<close>, innermost first. \<open>username\<close> is the current user.\<close>

definition openssh_entry ::
    "(string \<Rightarrow> int option) \<Rightarrow> (string \<Rightarrow> bool) \<Rightarrow> dirs \<Rightarrow> string \<Rightarrow> ssh_config \<Rightarrow> string \<Rightarrow> string \<Rightarrow> vals" where
  "openssh_entry parse_duration exists d lu cfg username host =
     (let get = openssh_value lu cfg host
      in put_nonempty ''dynamic_port_forward'' (get ''DynamicForward'')
         (put_forward (get ''RemoteForward'')
         (put_forward (get ''LocalForward'')
         (put_persist parse_duration (get ''ControlPersist'')
         (put_nonempty ''control_path'' (get ''ControlPath'')
         (put_when (get ''ControlMaster'' \<noteq> '''' \<and> get ''ControlMaster'' \<noteq> ''no'') ''control_master''
         (put_when (get ''ForwardX11'' = ''yes'') ''x11''
         (put_pkcs11 (get ''PKCS11Provider'')
         (put_keys (openssh_values lu cfg host ''CertificateFile'') (openssh_identity_files exists d lu cfg host)
         (put ''user'' (if get ''User'' = '''' then username else get ''User'')
         (put ''addr'' (if get ''HostName'' = '''' then host else get ''HostName'')
         (put ''port'' (get ''Port'') (put ''proxy_cmd'' (get ''ProxyCommand'')
         (put ''pre_cmd'' (get ''LocalCommand'') zero_values))))))))))))))"

definition load_openssh_entries ::
    "(string \<Rightarrow> int option) \<Rightarrow> (string \<Rightarrow> bool) \<Rightarrow> dirs \<Rightarrow> string \<Rightarrow> string \<Rightarrow> ssh_config \<Rightarrow> (string \<times> vals) list" where
  "load_openssh_entries parse_duration exists d lu username cfg =
     map (\<lambda>host. (host, openssh_entry parse_duration exists d lu cfg username host)) (host_list cfg)"

section \<open>Branches\<close>

record import_match =
  om_name :: string
  om_priority :: int
  om_name_in :: "string list"
  om_name_not_in :: "string list"
  om_user_in :: "string list"
  om_user_not_in :: "string list"
  om_addr_in :: "string list"
  om_addr_not_in :: "string list"
  om_port_in :: "string list"
  om_port_not_in :: "string list"
  om_config :: full_config
  om_order :: int

definition decode_import_branch :: "(string \<Rightarrow> int option) \<Rightarrow> nat \<times> string \<times> table \<Rightarrow> import_match result" where
  "decode_import_branch parse_duration b =
     (case b of (idx, name, t) \<Rightarrow>
        (case decode_tagged_map parse_duration t of
           Inl e \<Rightarrow> Inl (Go_Error (err_not_exist e) (''match.'' @ name @ '': '' @ err_message e))
         | Inr vals \<Rightarrow>
             (case (case map_of t ''priority'' of None \<Rightarrow> Some 100 | Some p \<Rightarrow> as_int64 p) of
                None \<Rightarrow> errorf (''match.'' @ name @ ''.priority must be an integer'')
              | Some priority \<Rightarrow>
                  Inr \<lparr>om_name = name, om_priority = priority,
                       om_name_in = provider_string_slice t ''name_in'', om_name_not_in = provider_string_slice t ''name_not_in'',
                       om_user_in = provider_string_slice t ''user_in'', om_user_not_in = provider_string_slice t ''user_not_in'',
                       om_addr_in = provider_string_slice t ''addr_in'', om_addr_not_in = provider_string_slice t ''addr_not_in'',
                       om_port_in = provider_string_slice t ''port_in'', om_port_not_in = provider_string_slice t ''port_not_in'',
                       om_config = zero_config\<lparr>fc_values := vals\<rparr>, om_order = int idx + 1\<rparr>)))"

fun decode_branches :: "(string \<Rightarrow> int option) \<Rightarrow> (nat \<times> string \<times> table) list \<Rightarrow> import_match list result" where
  "decode_branches parse_duration [] = Inr []"
| "decode_branches parse_duration (b # bs) =
     (case decode_import_branch parse_duration b of Inl e \<Rightarrow> Inl e
      | Inr m \<Rightarrow> (case decode_branches parse_duration bs of Inl e \<Rightarrow> Inl e | Inr ms \<Rightarrow> Inr (m # ms)))"

definition decode_import_matches :: "(string \<Rightarrow> int option) \<Rightarrow> (string \<times> table) list \<Rightarrow> import_match list result" where
  "decode_import_matches parse_duration raw =
     (case decode_branches parse_duration (enumerate 0 (sort_key fst raw)) of
        Inl e \<Rightarrow> Inl e
      | Inr ms \<Rightarrow> Inr (sort_key (\<lambda>m. (om_priority m, om_order m)) ms))"

definition import_match_applies :: "string \<Rightarrow> full_config \<Rightarrow> import_match \<Rightarrow> bool" where
  "import_match_applies host current m =
     (if \<not> match_pattern_list host (om_name_in m) False then False
      else if \<not> match_pattern_list host (om_name_not_in m) True then False
      else if \<not> match_pattern_list (conf_string current ''user'') (om_user_in m) False then False
      else if \<not> match_pattern_list (conf_string current ''user'') (om_user_not_in m) True then False
      else if \<not> match_pattern_list (conf_string current ''addr'') (om_addr_in m) False then False
      else if \<not> match_pattern_list (conf_string current ''addr'') (om_addr_not_in m) True then False
      else if \<not> match_pattern_list (conf_string current ''port'') (om_port_in m) False then False
      else if \<not> match_pattern_list (conf_string current ''port'') (om_port_not_in m) True then False
      else True)"

definition apply_import_matches :: "string \<Rightarrow> full_config \<Rightarrow> import_match list \<Rightarrow> full_config" where
  "apply_import_matches host base ms =
     foldl (\<lambda>current m. if import_match_applies host current m then server_config_reduct current (om_config m) else current) base ms"

section \<open>The servers of one configuration\<close>

text \<open>\<open>getOpenSSHConfig\<close> and \<open>readConfiguredOpenSSHConfig\<close>: the names and settings of the servers.\<close>

definition source_name :: "string \<Rightarrow> string" where
  "source_name path = (if path = '''' then ''generate_sshconfig'' else path)"

definition get_openssh_config :: "string \<Rightarrow> (string \<times> vals) list \<Rightarrow> (string \<times> full_config) list" where
  "get_openssh_config path entries =
     map (\<lambda>(host, vals). (source_name path @ '':'' @ host,
            zero_config\<lparr>fc_values := put ''note'' (''from:'' @ source_name path) vals\<rparr>)) entries"

definition read_configured_openssh ::
    "(string \<Rightarrow> int option) \<Rightarrow> full_config \<Rightarrow> string \<Rightarrow> full_config \<Rightarrow> (string \<times> table) list \<Rightarrow> (string \<times> vals) list
      \<Rightarrow> (string \<times> full_config) list result" where
  "read_configured_openssh parse_duration common path own branches entries =
     (case decode_import_matches parse_duration branches of Inl e \<Rightarrow> Inl e
      | Inr ms \<Rightarrow>
          (let base = server_config_reduct common own
           in Inr (map (\<lambda>(host, vals).
                (source_name path @ '':'' @ host,
                 apply_import_matches host
                   (server_config_reduct base (zero_config\<lparr>fc_values := put ''note'' (''from:'' @ source_name path) vals\<rparr>)) ms))
                entries)))"

section \<open>The hosts that become servers\<close>

lemma set_dedup_from: "set (dedup_from seen vs) = set vs - set seen"
  by (induction seen vs rule: dedup_from.induct) auto

lemma distinct_dedup_from: "distinct (dedup_from seen vs)"
  by (induction seen vs rule: dedup_from.induct) (auto simp: set_dedup_from)

lemma put_same: "put key v vals key = V_String v"
  by (simp add: put_def)

lemma put_other:
  "key' \<noteq> key \<Longrightarrow> put key v vals key' = vals key'"
  "key' \<noteq> key \<Longrightarrow> put_nonempty key v vals key' = vals key'"
  "key' \<noteq> key \<Longrightarrow> put_when b key vals key' = vals key'"
  "key' \<noteq> ''control_persist'' \<Longrightarrow> put_persist pd v vals key' = vals key'"
  "key' \<noteq> ''pkcs11provider'' \<Longrightarrow> key' \<noteq> ''pkcs11'' \<Longrightarrow> put_pkcs11 v vals key' = vals key'"
  "key' \<noteq> ''port_forward_local'' \<Longrightarrow> key' \<noteq> ''port_forward_remote'' \<Longrightarrow> put_forward v vals key' = vals key'"
  by (simp_all add: put_def put_nonempty_def put_when_def put_true_def put_persist_def put_pkcs11_def put_forward_def
      split: option.split sum.split)

lemma put_keys_other:
  "key' \<notin> {''cert'', ''certkey'', ''certs'', ''key'', ''keys''} \<Longrightarrow> put_keys certs keys vals key' = vals key'"
  by (simp add: put_keys_def put_def put_list_def Let_def)

text \<open>
  The servers of a configuration are the names without wildcards of its own \<open>Host\<close> blocks, each once
  and each with the address the configuration gives it, or its name; hosts of included files do not
  become servers.
\<close>

theorem openssh_servers:
  "distinct (host_list cfg)
   \<and> set (host_list cfg) = {s. \<exists>h \<in> set cfg. \<not> is_match_block h
        \<and> (\<exists>p \<in> set (hi_patterns (host_head h)). s = pattern_string p \<and> plain_host_pattern s)}
   \<and> map fst (load_openssh_entries pd exists d lu username cfg) = host_list cfg
   \<and> openssh_entry pd exists d lu cfg username host ''addr'' =
        V_String (if openssh_value lu cfg host ''HostName'' = '''' then host else openssh_value lu cfg host ''HostName'')"
proof (intro conjI)
  show "openssh_entry pd exists d lu cfg username host ''addr'' =
        V_String (if openssh_value lu cfg host ''HostName'' = '''' then host else openssh_value lu cfg host ''HostName'')"
    unfolding openssh_entry_def Let_def by (simp add: put_other put_keys_other put_same del: if_split)
  show "set (host_list cfg) = {s. \<exists>h \<in> set cfg. \<not> is_match_block h
        \<and> (\<exists>p \<in> set (hi_patterns (host_head h)). s = pattern_string p \<and> plain_host_pattern s)}"
    by (auto simp: host_list_def set_dedup_from split: if_splits)
qed (simp_all add: host_list_def distinct_dedup_from load_openssh_entries_def comp_def)

section \<open>Forwards\<close>

lemma put_forward_ends:
  assumes "v \<noteq> ''''" "split_at CHR '' '' v = Some (a, b)"
  shows "put_forward v vals ''port_forward_local'' = V_String (forward_end a)"
    "put_forward v vals ''port_forward_remote'' = V_String (forward_end b)"
  using assms by (simp_all add: put_forward_def put_def)

text \<open>
  A remote forward is read into the fields of the local one, and no mode is set: the two ends are
  those of the remote forward even when there is a local one.
\<close>

theorem remote_forward_becomes_local:
  assumes "split_at CHR '' '' (openssh_value lu cfg host ''RemoteForward'') = Some (a, b)"
  shows "openssh_entry pd exists d lu cfg username host ''port_forward_local'' = V_String (forward_end a)
    \<and> openssh_entry pd exists d lu cfg username host ''port_forward_remote'' = V_String (forward_end b)
    \<and> openssh_entry pd exists d lu cfg username host ''port_forward'' = V_String ''''"
proof -
  have "openssh_value lu cfg host ''RemoteForward'' \<noteq> ''''"
    using assms by auto
  note ends = put_forward_ends[OF this assms]
  have "zero_values ''port_forward'' = V_String ''''"
    by (simp add: zero_values_def kind_of_def zero_value_def)
  with ends show ?thesis
    unfolding openssh_entry_def Let_def by (simp add: put_other put_keys_other del: if_split)
qed

lemma remote_forward_becomes_local_witness:
  "\<exists>cfg. decode_bytes \<lparr>pe_home = '''', pe_glob = (\<lambda>p. Inr []), pe_read = (\<lambda>p. errorf '''')\<rparr>
            (''Host web'' @ LF # ''RemoteForward 8080 db:5432'' @ [LF]) = Done cfg
     \<and> (\<forall>pd exists d username. openssh_entry pd exists d '''' cfg username ''web'' ''port_forward_local'' = V_String ''localhost:8080'')"
proof -
  define cfg where "cfg = (case decode_bytes \<lparr>pe_home = '''', pe_glob = (\<lambda>p. Inr []), pe_read = (\<lambda>p. errorf '''')\<rparr>
       (''Host web'' @ LF # ''RemoteForward 8080 db:5432'' @ [LF]) of Done c \<Rightarrow> c | _ \<Rightarrow> [])"
  have "decode_bytes \<lparr>pe_home = '''', pe_glob = (\<lambda>p. Inr []), pe_read = (\<lambda>p. errorf '''')\<rparr>
       (''Host web'' @ LF # ''RemoteForward 8080 db:5432'' @ [LF]) = Done cfg
     \<and> split_at CHR '' '' (openssh_value '''' cfg ''web'' ''RemoteForward'') = Some (''8080'', ''db:5432'')"
    unfolding cfg_def by code_simp
  moreover have "forward_end ''8080'' = ''localhost:8080''"
    by code_simp
  ultimately show ?thesis
    using remote_forward_becomes_local[of "''''" cfg "''web''" "''8080''" "''db:5432''"] by simp
qed

end
