(* ===== verification/Conf_Connector.thy ===== *)
theory Conf_Connector
  imports Conf_Reduct
begin

text \<open>
  Connectors, \<^verbatim>\<open>internal/config/connector.go\<close> and \<^verbatim>\<open>connector_runtime.go\<close>: which connector a server
  uses, which provider offers it, and what the plan of the provider becomes. The calls of the
  providers are parameters.
\<close>

section \<open>Configuration and providers\<close>

text \<open>The maps of the configuration that connectors need, in an order of iteration.\<close>

record site =
  st_server :: "(string \<times> full_config) list"
  st_provider :: "(string \<times> table) list"

record connector_operation =
  co_name :: string
  co_command :: "string list"
  co_options :: table

record connector_plan =
  pl_kind :: string
  pl_program :: string
  pl_args :: "string list"
  pl_env :: "(string \<times> string) list"
  pl_details :: table

record prepare_result =
  pr_supported :: bool
  pr_plan :: connector_plan

record connector_target =
  ct_name :: string
  ct_config :: table
  ct_meta :: "(string \<times> string) list"

text \<open>The methods \<open>plugin.describe\<close> (the names of the connectors), \<open>connector.describe\<close> (what each
  operation supports) and \<open>connector.prepare\<close>, each called with the name of the provider.\<close>

record provider_calls =
  pc_describe :: "string \<Rightarrow> string list result"
  pc_connector_describe :: "string \<Rightarrow> table \<Rightarrow> connector_target \<Rightarrow> (string \<times> bool) list result"
  pc_prepare :: "string \<Rightarrow> table \<Rightarrow> connector_target \<Rightarrow> connector_operation \<Rightarrow> prepare_result result"

section \<open>A configuration as a table\<close>

fun dyn_of :: "conf_value \<Rightarrow> dyn" where
  "dyn_of (V_String s) = D_String s"
| "dyn_of (V_Bool b) = D_Bool b"
| "dyn_of (V_Int n) = D_Int n"
| "dyn_of (V_Strings ss) = D_Strings ss"
| "dyn_of V_Branches = D_Map []"

text \<open>\<open>serverConfigToTOMLMap\<close>: the fields with a key that are not zero, then the provider's own settings.\<close>

definition server_config_to_toml_map :: "full_config \<Rightarrow> table" where
  "server_config_to_toml_map c =
     (let own = map (\<lambda>k. (k, dyn_of (fc_values c k)))
            (filter (\<lambda>k. k \<noteq> ''match'' \<and> fc_values c k \<noteq> zero_value (kind_of k)) server_keys)
      in own @ filter (\<lambda>(k, v). k \<notin> fst ` set own) (fc_provider_config c))"

section \<open>The connector of a server\<close>

definition string_slice_contains :: "string list \<Rightarrow> string \<Rightarrow> bool" where
  "string_slice_contains vs needle = list_ex (\<lambda>v. trim_space v = needle) vs"

definition describe_provider :: "provider_calls \<Rightarrow> site \<Rightarrow> string \<Rightarrow> string list result" where
  "describe_provider p c name =
     (case map_of (st_provider c) name of
        None \<Rightarrow> errorf (''provider '' @ quoted_text name @ '' is not configured'')
      | Some raw \<Rightarrow> pc_describe p name)"

definition offers_connectors :: "table \<Rightarrow> bool" where
  "offers_connectors raw = (provider_enabled raw \<and> provider_has_capability raw ''connector'')"

definition server_connector_name :: "provider_calls \<Rightarrow> site \<Rightarrow> full_config \<Rightarrow> string" where
  "server_connector_name p c s =
     (let own = trim_space (conf_string s ''connector_name'')
      in if own \<noteq> '''' then own
         else if fc_provider_name s = '''' then ''''
         else (case map_of (st_provider c) (fc_provider_name s) of
                 None \<Rightarrow> ''''
               | Some raw \<Rightarrow>
                   if \<not> offers_connectors raw then ''''
                   else (let d = trim_space (provider_string raw ''default_connector_name'')
                         in if d \<noteq> '''' then d
                            else (case describe_provider p c (fc_provider_name s) of
                                    Inr [n] \<Rightarrow> trim_space n | _ \<Rightarrow> ''''))))"

definition connector_name_of :: "provider_calls \<Rightarrow> site \<Rightarrow> string \<Rightarrow> string" where
  "connector_name_of p c server =
     (case map_of (st_server c) server of None \<Rightarrow> '''' | Some s \<Rightarrow> server_connector_name p c s)"

definition built_in_name :: "string \<Rightarrow> bool" where
  "built_in_name n = (n = '''' \<or> n = ''ssh'')"

definition server_uses_connector :: "provider_calls \<Rightarrow> site \<Rightarrow> string \<Rightarrow> bool" where
  "server_uses_connector p c server = (\<not> built_in_name (trim_space (connector_name_of p c server)))"

definition server_uses_built_in_ssh :: "provider_calls \<Rightarrow> site \<Rightarrow> string \<Rightarrow> bool" where
  "server_uses_built_in_ssh p c server = built_in_name (trim_space (connector_name_of p c server))"

section \<open>The provider of a connector\<close>

text \<open>The loop over the sorted names, with the provider found so far; an empty name stands for none.\<close>

fun connector_loop ::
    "provider_calls \<Rightarrow> site \<Rightarrow> string \<Rightarrow> (string \<times> table) list \<Rightarrow> string \<times> table \<Rightarrow> (string \<times> table) result" where
  "connector_loop p c connector [] found = Inr found"
| "connector_loop p c connector ((name, raw) # ps) found =
     (if \<not> offers_connectors raw then connector_loop p c connector ps found
      else (case describe_provider p c name of
              Inl e \<Rightarrow> Inl e
            | Inr names \<Rightarrow>
                if \<not> string_slice_contains names connector then connector_loop p c connector ps found
                else if fst found \<noteq> ''''
                then errorf (''connector '' @ quoted_text connector @ '' is provided by multiple providers: ''
                       @ quoted_text (fst found) @ '' and '' @ quoted_text name)
                else connector_loop p c connector ps (name, raw)))"

definition resolve_configured_connector_provider :: "provider_calls \<Rightarrow> site \<Rightarrow> string \<Rightarrow> (string \<times> table) result" where
  "resolve_configured_connector_provider p c connector =
     (case connector_loop p c connector (sort_key fst (st_provider c)) ('''', []) of
        Inl e \<Rightarrow> Inl e
      | Inr (name, raw) \<Rightarrow>
          if name = '''' then errorf (''connector '' @ quoted_text connector @ '' is not configured'') else Inr (name, raw))"

definition resolve_connector_provider :: "provider_calls \<Rightarrow> site \<Rightarrow> full_config \<Rightarrow> string \<Rightarrow> (string \<times> table) result" where
  "resolve_connector_provider p c s connector =
     (let others = resolve_configured_connector_provider p c connector
      in if fc_provider_name s = '''' then others
         else (case map_of (st_provider c) (fc_provider_name s) of
                 None \<Rightarrow> others
               | Some raw \<Rightarrow>
                   if \<not> offers_connectors raw then others
                   else (case describe_provider p c (fc_provider_name s) of
                           Inl e \<Rightarrow> others
                         | Inr names \<Rightarrow>
                             if string_slice_contains names connector then Inr (fc_provider_name s, raw) else others)))"

section \<open>Asking it\<close>

definition target_of :: "string \<Rightarrow> full_config \<Rightarrow> connector_target" where
  "target_of server s = \<lparr>ct_name = server, ct_config = server_config_to_toml_map s, ct_meta = fc_provider_meta s\<rparr>"

text \<open>The part \<open>PrepareConnector\<close> and \<open>DescribeConnector\<close> share: the provider and the target.\<close>

definition with_connector ::
    "provider_calls \<Rightarrow> site \<Rightarrow> string \<Rightarrow> (string \<Rightarrow> table \<Rightarrow> connector_target \<Rightarrow> 'a result) \<Rightarrow> 'a result" where
  "with_connector p c server call =
     (case map_of (st_server c) server of
        None \<Rightarrow> errorf (''server '' @ quoted_text server @ '' is not configured'')
      | Some s \<Rightarrow>
          (let connector = trim_space (server_connector_name p c s)
           in if built_in_name connector
              then errorf (''server '' @ quoted_text server @ '' does not use an external connector'')
              else (case resolve_connector_provider p c s connector of
                      Inl e \<Rightarrow> Inl e
                    | Inr (name, raw) \<Rightarrow> call name raw (target_of server s))))"

definition prepare_connector :: "provider_calls \<Rightarrow> site \<Rightarrow> string \<Rightarrow> connector_operation \<Rightarrow> prepare_result result" where
  "prepare_connector p c server op = with_connector p c server (\<lambda>name raw target. pc_prepare p name raw target op)"

definition describe_connector :: "provider_calls \<Rightarrow> site \<Rightarrow> string \<Rightarrow> (string \<times> bool) list result" where
  "describe_connector p c server = with_connector p c server (pc_connector_describe p)"

definition server_supports_operation :: "provider_calls \<Rightarrow> site \<Rightarrow> string \<Rightarrow> string \<Rightarrow> bool result" where
  "server_supports_operation p c server operation =
     (if \<not> server_uses_connector p c server then Inr True
      else (case describe_connector p c server of
              Inl e \<Rightarrow> Inl e
            | Inr capabilities \<Rightarrow>
                (case map_of capabilities operation of None \<Rightarrow> Inr False | Some supported \<Rightarrow> Inr supported)))"

fun filter_servers_by_operation :: "provider_calls \<Rightarrow> site \<Rightarrow> string list \<Rightarrow> string \<Rightarrow> string list result" where
  "filter_servers_by_operation p c [] operation = Inr []"
| "filter_servers_by_operation p c (s # ss) operation =
     (case server_supports_operation p c s operation of
        Inl e \<Rightarrow> Inl e
      | Inr supported \<Rightarrow>
          (case filter_servers_by_operation p c ss operation of
             Inl e \<Rightarrow> Inl e
           | Inr rest \<Rightarrow> Inr (if supported then s # rest else rest)))"

section \<open>Plans\<close>

record command_plan =
  cp_program :: string
  cp_args :: "string list"
  cp_env :: "(string \<times> string) list"

text \<open>The plan of a managed SSH connection has no fields; \<open>pd_managed_ssh\<close> says whether there is one.\<close>

record prepared =
  pd_supported :: bool
  pd_connector :: string
  pd_reason :: string
  pd_kind :: string
  pd_command :: "command_plan option"
  pd_managed_ssh :: bool
  pd_provider_plan :: "connector_plan option"
  pd_local_rc :: bool
  pd_shared_forward :: bool

definition detail_string :: "table \<Rightarrow> string \<Rightarrow> string" where
  "detail_string details key = (case map_of details key of None \<Rightarrow> '''' | Some D_Nil \<Rightarrow> '''' | Some v \<Rightarrow> sprint v)"

definition connector_name_from_plan :: "connector_plan \<Rightarrow> string \<Rightarrow> string" where
  "connector_name_from_plan plan fallback =
     (if detail_string (pl_details plan) ''connector'' \<noteq> '''' then detail_string (pl_details plan) ''connector'' else fallback)"

definition managed_ssh_plan :: "connector_plan \<Rightarrow> connector_operation \<Rightarrow> bool" where
  "managed_ssh_plan plan op =
     (if pl_kind plan \<noteq> ''provider-managed'' then False
      else detail_string (pl_details plan) ''transport'' = ''ssh_transport''
           \<and> detail_string (pl_details plan) ''ssh_runtime'' = ''sdk'' \<and> co_name op \<noteq> ''tcp_dial_transport'')"

definition supports_local_rc :: "connector_plan \<Rightarrow> connector_operation \<Rightarrow> bool" where
  "supports_local_rc plan op =
     (pl_kind plan = ''provider-managed'' \<and> co_name op = ''shell''
      \<and> detail_string (pl_details plan) ''shell_runtime'' = ''native''
      \<and> detail_string (pl_details plan) ''session_action'' = ''start'')"

definition shares_shell_forward :: "connector_plan \<Rightarrow> connector_operation \<Rightarrow> bool" where
  "shares_shell_forward plan op =
     (if pl_kind plan \<noteq> ''provider-managed'' then False
      else if co_name op = ''shell'' \<and> detail_string (pl_details plan) ''shell_runtime'' = ''native''
              \<and> detail_string (pl_details plan) ''session_action'' = ''start'' then True
      else False)"

definition prepared_connector_from_provider :: "prepare_result \<Rightarrow> string \<Rightarrow> connector_operation \<Rightarrow> prepared" where
  "prepared_connector_from_provider r fallback op =
     (let plan = pr_plan r;
          base = \<lparr>pd_supported = pr_supported r, pd_connector = connector_name_from_plan plan fallback,
                  pd_reason = detail_string (pl_details plan) ''reason'', pd_kind = pl_kind plan, pd_command = None,
                  pd_managed_ssh = False, pd_provider_plan = None, pd_local_rc = False, pd_shared_forward = False\<rparr>
      in if pl_kind plan = ''command''
         then base\<lparr>pd_command := Some \<lparr>cp_program = pl_program plan, cp_args = pl_args plan, cp_env = pl_env plan\<rparr>\<rparr>
         else if pl_kind plan = ''provider-managed''
         then base\<lparr>pd_provider_plan := Some plan, pd_local_rc := supports_local_rc plan op,
                   pd_shared_forward := shares_shell_forward plan op, pd_managed_ssh := managed_ssh_plan plan op\<rparr>
         else base)"

definition prepare_connector_runtime :: "provider_calls \<Rightarrow> site \<Rightarrow> string \<Rightarrow> connector_operation \<Rightarrow> prepared result" where
  "prepare_connector_runtime p c server op =
     (case map_of (st_server c) server of
        None \<Rightarrow> errorf (''server '' @ quoted_text server @ '' is not configured'')
      | Some s \<Rightarrow>
          (let connector = trim_space (server_connector_name p c s)
           in if built_in_name connector
              then errorf (''server '' @ quoted_text server @ '' does not use an external connector'')
              else (case prepare_connector p c server op of
                      Inl e \<Rightarrow> Inl e
                    | Inr r \<Rightarrow> Inr (prepared_connector_from_provider r connector op))))"

section \<open>Exactly one provider\<close>

definition described :: "provider_calls \<Rightarrow> site \<Rightarrow> string \<times> table \<Rightarrow> bool" where
  "described p c = (\<lambda>(m, r). \<not> offers_connectors r \<or> (case describe_provider p c m of Inl e \<Rightarrow> False | Inr ns \<Rightarrow> True))"

definition provides :: "provider_calls \<Rightarrow> site \<Rightarrow> string \<Rightarrow> string \<times> table \<Rightarrow> bool" where
  "provides p c k = (\<lambda>(m, r). offers_connectors r
     \<and> (case describe_provider p c m of Inl e \<Rightarrow> False | Inr ns \<Rightarrow> string_slice_contains ns k))"

lemma connector_loop_found:
  assumes "fst found \<noteq> ''''"
  shows "connector_loop p c k ps found = Inr x \<longleftrightarrow>
    x = found \<and> list_all (described p c) ps \<and> \<not> list_ex (provides p c k) ps"
  using assms
proof (induction p c k ps found rule: connector_loop.induct)
  case (2 p c k name raw ps found)
  show ?case
  proof (cases "offers_connectors raw")
    case True
    then show ?thesis
    proof (cases "describe_provider p c name")
      case (Inr names)
      with True 2 show ?thesis
        by (auto simp: described_def provides_def errorf_def)
    qed (simp add: described_def)
  qed (use 2 in \<open>auto simp: described_def provides_def\<close>)
qed auto

lemma connector_loop_none:
  assumes "'''' \<notin> fst ` set ps"
  shows "connector_loop p c k ps ('''', r) = Inr x \<longleftrightarrow> list_all (described p c) ps \<and>
    (filter (provides p c k) ps = [] \<and> x = ('''', r) \<or> filter (provides p c k) ps = [x])"
  using assms
proof (induction ps)
  case (Cons q ps)
  obtain name raw where q: "q = (name, raw)"
    by (cases q)
  show ?case
  proof (cases "offers_connectors raw")
    case True
    show ?thesis
    proof (cases "describe_provider p c name")
      case (Inr names)
      have "filter (provides p c k) ps = [] \<longleftrightarrow> \<not> list_ex (provides p c k) ps"
        by (induction ps) auto
      with True Inr Cons q show ?thesis
        by (auto simp: described_def provides_def connector_loop_found)
    qed (use True q in \<open>simp add: described_def\<close>)
  qed (use Cons q in \<open>simp add: described_def provides_def\<close>)
qed auto

text \<open>
  The provider of a connector is found exactly when every provider of connectors answers and one and
  only one of them offers the connector; the order of the map is of no account.
\<close>

theorem connector_provider_unique:
  assumes "distinct (map fst (st_provider c))" "'''' \<notin> fst ` set (st_provider c)"
  shows "resolve_configured_connector_provider p c k = Inr (n, raw) \<longleftrightarrow>
    list_all (described p c) (st_provider c) \<and> filter (provides p c k) (st_provider c) = [(n, raw)]"
proof -
  let ?ps = "sort_key fst (st_provider c)"
  have names: "'''' \<notin> fst ` set ?ps"
    using assms(2) by simp
  have single: "filter (provides p c k) ?ps = [x] \<longleftrightarrow> filter (provides p c k) (st_provider c) = [x]" for x
  proof -
    have "filter (provides p c k) xs = [x] \<longleftrightarrow> filter_mset (provides p c k) (mset xs) = {#x#}" for xs
      by (simp only: mset_filter[symmetric] mset_single_iff)
    from this[of ?ps] this[of "st_provider c"] show ?thesis
      by simp
  qed
  have "resolve_configured_connector_provider p c k = Inr (n, raw) \<longleftrightarrow>
      connector_loop p c k ?ps ('''', []) = Inr (n, raw) \<and> n \<noteq> ''''"
  proof (cases "connector_loop p c k ?ps ('''', [])")
    case (Inr x)
    then show ?thesis
      by (cases x) (auto simp: resolve_configured_connector_provider_def errorf_def)
  qed (simp add: resolve_configured_connector_provider_def)
  also have "\<dots> \<longleftrightarrow> list_all (described p c) ?ps \<and> filter (provides p c k) ?ps = [(n, raw)]"
  proof -
    have "n \<noteq> ''''" if "filter (provides p c k) ?ps = [(n, raw)]"
    proof -
      have "(n, raw) \<in> set ?ps"
        using arg_cong[OF that, of set] by auto
      then have "n \<in> fst ` set ?ps"
        by (rule image_eqI[rotated]) simp
      with names show ?thesis
        by blast
    qed
    then show ?thesis
      unfolding connector_loop_none[OF names] by auto
  qed
  also have "list_all (described p c) ?ps \<longleftrightarrow> list_all (described p c) (st_provider c)"
    by (simp add: list_all_iff)
  finally show ?thesis
    unfolding single .
qed

lemma connector_provider_unique_witness:
  "resolve_configured_connector_provider
     \<lparr>pc_describe = (\<lambda>m. Inr (if m = ''aws'' then ['' ssm''] else [])), pc_connector_describe = (\<lambda>n r t. Inr []),
      pc_prepare = (\<lambda>n r t q. errorf '''')\<rparr>
     \<lparr>st_server = [], st_provider = [(''gcp'', [(''capabilities'', D_Strings [''connector''])]),
        (''aws'', [(''capabilities'', D_Strings [''connector''])])]\<rparr> ''ssm''
   = Inr (''aws'', [(''capabilities'', D_Strings [''connector''])])"
  by (subst connector_provider_unique) code_simp+

section \<open>What a plan becomes\<close>

text \<open>
  A plan is run as a command, or by the provider, or not at all; only a plan of the provider can be a
  managed SSH connection or share its shell, and no connection is managed when it is dialled for
  another connection.
\<close>

theorem prepared_plan_kinds:
  "(let q = prepared_connector_from_provider r name op in
     (pd_command q \<noteq> None \<longleftrightarrow> pd_kind q = ''command'')
     \<and> (pd_provider_plan q = (if pd_kind q = ''provider-managed'' then Some (pr_plan r) else None))
     \<and> (pd_managed_ssh q \<longrightarrow> pd_provider_plan q = Some (pr_plan r) \<and> co_name op \<noteq> ''tcp_dial_transport'')
     \<and> (pd_local_rc q \<longrightarrow> pd_provider_plan q = Some (pr_plan r) \<and> co_name op = ''shell'')
     \<and> pd_shared_forward q = pd_local_rc q \<and> pd_supported q = pr_supported r \<and> (name \<noteq> '''' \<longrightarrow> pd_connector q \<noteq> ''''))"
  by (simp add: prepared_connector_from_provider_def Let_def managed_ssh_plan_def supports_local_rc_def shares_shell_forward_def
      connector_name_from_plan_def)

lemma prepared_runtime:
  assumes "prepare_connector_runtime p c server op = Inr q"
  shows "\<exists>r name. q = prepared_connector_from_provider r name op \<and> \<not> built_in_name name"
  using assms by (auto simp: prepare_connector_runtime_def errorf_def Let_def split: option.splits if_splits sum.splits)

section \<open>Filtering by an operation\<close>

text \<open>
  The servers that remain are those without a connector and those whose connector supports the
  operation, in order; one provider that cannot be asked makes the whole list fail.
\<close>

theorem filter_servers_spec:
  "filter_servers_by_operation p c servers operation =
     (case find (\<lambda>s. \<exists>e. server_supports_operation p c s operation = Inl e) servers of
        Some s \<Rightarrow> Inl (projl (server_supports_operation p c s operation))
      | None \<Rightarrow> Inr (filter (\<lambda>s. server_supports_operation p c s operation = Inr True) servers))"
proof (induction servers)
  case (Cons s servers)
  then show ?case
    by (cases "server_supports_operation p c s operation") (auto split: option.splits)
qed simp

end
