(* ===== verification/Conf_Read.thy ===== *)
theory Conf_Read
  imports Conf_OpenSSH Conf_Connector Conf_Match_Props
begin

text \<open>
  Reading the configuration, \<^verbatim>\<open>internal/config/main.go\<close> with the OpenSSH sources of \<^verbatim>\<open>match.go\<close> and the
  inventories of \<^verbatim>\<open>provider.go\<close>: the file, the defaults, the OpenSSH configurations, the included files,
  the inventories, the conditional branches and the final check, in this order. The decoding of a
  file, the file system and the providers are parameters.
\<close>

section \<open>The configuration\<close>

record openssh_source =
  os_path :: string
  os_command :: string
  os_when :: match_when
  os_match :: "(string \<times> table) list"
  os_config :: full_config

text \<open>The maps are lists in an order of iteration; \<open>cg_include\<close> are the paths of the map of included files.\<close>

record config =
  cg_common :: full_config
  cg_server :: "(string \<times> full_config) list"
  cg_provider :: "(string \<times> table) list"
  cg_providers :: providers_config
  cg_sshconfig :: "(string \<times> openssh_source) list"
  cg_include :: "string list"
  cg_includes :: "string list"

record inv_server =
  is_name :: string
  is_config :: table
  is_meta :: "(string \<times> string) list"

text \<open>What is outside: \<open>re_decode\<close> decodes a file into a configuration, \<open>re_full_path\<close> expands a path,
  \<open>re_open\<close> and \<open>re_command\<close> give the text of an OpenSSH configuration, \<open>re_describe\<close> the reserved keys a
  provider names, \<open>re_inventory\<close> its servers.\<close>

record read_env =
  re_decode :: "string \<Rightarrow> config result"
  re_exists :: "string \<Rightarrow> bool"
  re_full_path :: "string \<Rightarrow> string"
  re_open :: "string \<Rightarrow> string result"
  re_command :: "string \<Rightarrow> string result"
  re_parse :: parse_env
  re_dirs :: dirs
  re_username :: string
  re_local_user :: string
  re_host :: host_env
  re_duration :: "string \<Rightarrow> int option"
  re_describe :: "string \<Rightarrow> string list"
  re_inventory :: "string \<Rightarrow> table \<Rightarrow> inv_server list result"

definition put_server :: "string \<Rightarrow> full_config \<Rightarrow> config \<Rightarrow> config" where
  "put_server name s c = c\<lparr>cg_server := AList.update name s (cg_server c)\<rparr>"

definition put_servers :: "(string \<times> full_config) list \<Rightarrow> config \<Rightarrow> config" where
  "put_servers ss c = foldl (\<lambda>c (name, s). put_server name s c) c ss"

fun lift_result :: "'a result \<Rightarrow> 'a outcome" where
  "lift_result (Inl e) = Failed e"
| "lift_result (Inr x) = Done x"

section \<open>Common settings and OpenSSH\<close>

definition reduce_common :: "config \<Rightarrow> config" where
  "reduce_common c = c\<lparr>cg_server := map (\<lambda>(name, s). (name, server_config_reduct (cg_common c) s)) (cg_server c)\<rparr>"

text \<open>Without a path and a command the reader is nil, and reading it panics.\<close>

definition read_openssh_config :: "read_env \<Rightarrow> string \<Rightarrow> string \<Rightarrow> ssh_config outcome" where
  "read_openssh_config env path command =
     (if path \<noteq> '''' then and_then (lift_result (re_open env (re_full_path env path))) (decode_bytes (re_parse env))
      else if command \<noteq> '''' then and_then (lift_result (re_command env command)) (decode_bytes (re_parse env))
      else Panicked)"

definition load_entries :: "read_env \<Rightarrow> string \<Rightarrow> string \<Rightarrow> (string \<times> vals) list outcome" where
  "load_entries env path command =
     and_then (read_openssh_config env path command)
       (\<lambda>cfg. Done (load_openssh_entries (re_duration env) (re_exists env) (re_dirs env) (re_local_user env) (re_username env) cfg))"

definition default_openssh_path :: "dirs \<Rightarrow> string" where
  "default_openssh_path d =
     (case dr_home d of Some home \<Rightarrow> if home \<noteq> '''' then path_join [home, ''.ssh'', ''config''] else ''~/.ssh/config''
      | None \<Rightarrow> ''~/.ssh/config'')"

text \<open>The checks of the conditions of a source or a provider; \<open>kind\<close> and \<open>name\<close> are for the message.\<close>

definition check_when :: "string \<Rightarrow> string \<Rightarrow> match_when \<Rightarrow> match_requirements \<Rightarrow> match_requirements result" where
  "check_when kind name w r =
     (if when_empty w then Inr r
      else (case List.map_filter id
              [validate_network_list (mw_local_ip_in w) ''local_ip_in'' kind name,
               validate_network_list (mw_local_ip_not_in w) ''local_ip_not_in'' kind name,
               validate_network_list (mw_gateway_in w) ''gateway_in'' kind name,
               validate_network_list (mw_gateway_not_in w) ''gateway_not_in'' kind name] of
              e # _ \<Rightarrow> Inl e
            | [] \<Rightarrow> Inr (add_requirements w r)))"

definition when_context :: "read_env \<Rightarrow> match_requirements \<Rightarrow> match_context" where
  "when_context env r = build_match_context (re_host env) r"

definition active_openssh_configs :: "read_env \<Rightarrow> config \<Rightarrow> openssh_source list result" where
  "active_openssh_configs env c =
     (case fold_result (\<lambda>(name, sc). check_when ''sshconfig'' name (os_when sc)) (cg_sshconfig c) no_requirements of
        Inl e \<Rightarrow> Inl e
      | Inr r \<Rightarrow>
          Inr (map snd (filter (\<lambda>(name, sc). when_empty (os_when sc) \<or> when_matches (os_when sc) (when_context env r))
                 (sort_key fst (cg_sshconfig c)))))"

definition read_source :: "read_env \<Rightarrow> openssh_source \<Rightarrow> config \<Rightarrow> config outcome" where
  "read_source env sc c =
     and_then (load_entries env (os_path sc) (os_command sc))
       (\<lambda>entries. and_then (lift_result (read_configured_openssh (re_duration env) (cg_common c) (os_path sc) (os_config sc)
                                          (os_match sc) entries))
          (\<lambda>servers. Done (put_servers servers c)))"

fun read_sources :: "read_env \<Rightarrow> openssh_source list \<Rightarrow> config \<Rightarrow> config outcome" where
  "read_sources env [] c = Done c"
| "read_sources env (sc # scs) c = and_then (read_source env sc c) (read_sources env scs)"

definition read_openssh :: "read_env \<Rightarrow> config \<Rightarrow> config outcome" where
  "read_openssh env c =
     (if cg_sshconfig c = []
      then (let path = default_openssh_path (re_dirs env)
            in if \<not> re_exists env path then Done c
               else and_then (load_entries env path '''')
                 (\<lambda>entries. Done (put_servers
                    (map (\<lambda>(name, s). (name, server_config_reduct (cg_common c) s)) (get_openssh_config path entries)) c)))
      else and_then (lift_result (active_openssh_configs env c)) (\<lambda>scs. read_sources env scs c))"

section \<open>Included files\<close>

definition read_include :: "read_env \<Rightarrow> string \<Rightarrow> config \<Rightarrow> config outcome" where
  "read_include env path c =
     and_then (lift_result (re_decode env (re_full_path env path)))
       (\<lambda>inc. let common = server_config_reduct (cg_common c) (cg_common inc);
                  c = put_servers (map (\<lambda>(name, s). (name, server_config_reduct common s)) (cg_server inc)) c;
                  c = c\<lparr>cg_provider := foldl (\<lambda>ps (name, raw). AList.update name raw ps) (cg_provider c) (cg_provider inc)\<rparr>
              in Done (c\<lparr>cg_providers := merge_providers_config (cg_providers c) (cg_providers inc)\<rparr>))"

fun read_includes :: "read_env \<Rightarrow> string list \<Rightarrow> config \<Rightarrow> config outcome" where
  "read_includes env [] c = Done c"
| "read_includes env (p # ps) c = and_then (read_include env p c) (read_includes env ps)"

text \<open>The paths of \<open>includes\<close> join the map under new keys; \<open>order\<close> is the order in which the map is iterated.\<close>

definition read_include_files :: "read_env \<Rightarrow> (string list \<Rightarrow> string list) \<Rightarrow> config \<Rightarrow> config outcome" where
  "read_include_files env order c =
     read_includes env (order (cg_include c @ remdups (map (re_full_path env) (cg_includes c)))) c"

section \<open>Inventories\<close>

definition when_of_table :: "table \<Rightarrow> match_when" where
  "when_of_table t =
     (let get = provider_string_slice t
      in \<lparr>mw_local_ip_in = get ''local_ip_in'', mw_local_ip_not_in = get ''local_ip_not_in'', mw_gateway_in = get ''gateway_in'',
          mw_gateway_not_in = get ''gateway_not_in'', mw_username_in = get ''username_in'', mw_username_not_in = get ''username_not_in'',
          mw_hostname_in = get ''hostname_in'', mw_hostname_not_in = get ''hostname_not_in'', mw_os_in = get ''os_in'',
          mw_os_not_in = get ''os_not_in'', mw_term_in = get ''term_in'', mw_term_not_in = get ''term_not_in'',
          mw_env_in = get ''env_in'', mw_env_not_in = get ''env_not_in'', mw_env_value_in = get ''env_value_in'',
          mw_env_value_not_in = get ''env_value_not_in''\<rparr>)"

definition provider_when :: "table \<Rightarrow> match_when result" where
  "provider_when raw =
     (case map_of raw ''when'' of
        None \<Rightarrow> Inr (when_of_table [])
      | Some D_Nil \<Rightarrow> Inr (when_of_table [])
      | Some (D_Map t) \<Rightarrow> Inr (when_of_table t)
      | Some _ \<Rightarrow> errorf ''must be a table'')"

definition check_provider_when :: "string \<times> table \<Rightarrow> match_requirements \<Rightarrow> match_requirements result" where
  "check_provider_when = (\<lambda>(name, raw) r.
     case provider_when raw of
       Inl e \<Rightarrow> Inl (Go_Error (err_not_exist e) (''provider.'' @ name @ ''.when: '' @ err_message e))
     | Inr w \<Rightarrow> check_when ''provider'' name w r)"

definition active_providers :: "read_env \<Rightarrow> config \<Rightarrow> (string \<times> table) list result" where
  "active_providers env c =
     (case fold_result check_provider_when (cg_provider c) no_requirements of
        Inl e \<Rightarrow> Inl e
      | Inr r \<Rightarrow>
          Inr (filter (\<lambda>(name, raw). case provider_when raw of
                  Inl e \<Rightarrow> False
                | Inr w \<Rightarrow> when_empty w \<or> when_matches w (when_context env r)) (sort_key fst (cg_provider c))))"

definition provider_server_defaults :: "(string \<Rightarrow> int option) \<Rightarrow> table \<Rightarrow> full_config result" where
  "provider_server_defaults parse_duration raw =
     (case decode_tagged_map parse_duration (provider_server_default_map raw) of
        Inl e \<Rightarrow> Inl e | Inr vals \<Rightarrow> Inr (zero_config\<lparr>fc_values := vals\<rparr>))"

definition generated_server ::
    "read_env \<Rightarrow> string \<Rightarrow> table \<Rightarrow> full_config \<Rightarrow> inv_match list \<Rightarrow> inv_server \<Rightarrow> config \<Rightarrow> config result" where
  "generated_server env provider raw base ms s c =
     (if is_name s = '''' then errorf (''provider '' @ quoted_text provider @ '' returned an empty server name'')
      else (case decode_tagged_map (re_duration env) (is_config s) of
              Inl e \<Rightarrow> Inl (Go_Error (err_not_exist e)
                (''provider '' @ quoted_text provider @ '' server '' @ quoted_text (is_name s) @ '': '' @ err_message e))
            | Inr vals \<Rightarrow>
                (let merged = server_config_reduct base (zero_config\<lparr>fc_values := vals\<rparr>);
                     merged = apply_inventory_matches provider (is_name s) (is_meta s) merged ms
                 in Inr (put_server (is_name s)
                      (merged\<lparr>fc_provider_name := provider, fc_provider_plugin := provider_string raw ''plugin'',
                              fc_provider_meta := is_meta s\<rparr>) c))))"

text \<open>One provider of the loop of \<open>ReadInventoryProviders\<close>.\<close>

definition read_inventory_provider :: "read_env \<Rightarrow> string \<times> table \<Rightarrow> config \<Rightarrow> config result" where
  "read_inventory_provider env p c =
     (case p of (name, raw) \<Rightarrow>
        if \<not> provider_enabled raw \<or> \<not> provider_has_capability raw ''inventory'' then Inr c
        else (case re_inventory env name raw of
                Inl e \<Rightarrow> if provider_fail_open (cg_providers c) raw then Inr c else Inl e
              | Inr servers \<Rightarrow>
                  (let reserved = (if provider_needs_describe_reserved_keys raw then re_describe env name else []);
                       full = merge_provider_describe_metadata raw reserved
                   in case provider_server_defaults (re_duration env) full of
                        Inl e \<Rightarrow> Inl (Go_Error (err_not_exist e) (''provider '' @ quoted_text name @ '' defaults: '' @ err_message e))
                      | Inr defaults \<Rightarrow>
                          (case provider_inventory_matches (re_duration env) full of
                             Inl e \<Rightarrow> Inl (Go_Error (err_not_exist e) (''provider '' @ quoted_text name @ '' matches: '' @ err_message e))
                           | Inr ms \<Rightarrow>
                               fold_result (generated_server env name raw (server_config_reduct (cg_common c) defaults) ms) servers c))))"

definition read_inventory_providers :: "read_env \<Rightarrow> config \<Rightarrow> config result" where
  "read_inventory_providers env c =
     (if cg_provider c = [] then Inr c
      else (case active_providers env c of Inl e \<Rightarrow> Inl e
            | Inr ps \<Rightarrow> fold_result (read_inventory_provider env) ps c))"

section \<open>Branches and the final check\<close>

definition as_branches :: "full_config \<Rightarrow> server_config" where
  "as_branches s = \<lparr>sc_values = fc_values s, sc_match = fc_match s\<rparr>"

definition resolve_branches :: "read_env \<Rightarrow> config \<Rightarrow> config result" where
  "resolve_branches env c =
     (case resolve_conditional_matches (re_host env) (map (\<lambda>(name, s). (name, as_branches s)) (cg_server c)) of
        Inl e \<Rightarrow> Inl e
      | Inr resolved \<Rightarrow>
          Inr (c\<lparr>cg_server := map (\<lambda>((name, s), (_, r)). (name, s\<lparr>fc_values := sc_values r, fc_match := sc_match r\<rparr>))
                   (zip (cg_server c) resolved)\<rparr>))"

definition has_value :: "full_config \<Rightarrow> string \<Rightarrow> bool" where
  "has_value s key = (fc_values s key \<noteq> zero_value (kind_of key))"

definition check_format_auth :: "(string \<Rightarrow> bool) \<Rightarrow> full_config \<Rightarrow> bool" where
  "check_format_auth exists s =
     (list_ex (has_value s) [''pass'', ''pass_ref'', ''key'', ''key_ref'', ''cert'', ''cert_ref'', ''agentauth'']
      \<or> has_value s ''pkcs11'' \<and> exists (conf_string s ''pkcs11provider'')
      \<or> list_ex (has_value s) [''keys'', ''passes'', ''certkey_ref'', ''pkcs11pin_ref''])"

definition check_format_server :: "(string \<Rightarrow> bool) \<Rightarrow> full_config \<Rightarrow> bool" where
  "check_format_server exists s =
     (conf_string s ''addr'' \<noteq> '''' \<and> conf_string s ''user'' \<noteq> '''' \<and> check_format_auth exists s)"

definition site_of :: "config \<Rightarrow> site" where
  "site_of c = \<lparr>st_server = cg_server c, st_provider = cg_provider c\<rparr>"

definition check_format :: "provider_calls \<Rightarrow> (string \<Rightarrow> bool) \<Rightarrow> config \<Rightarrow> bool" where
  "check_format p exists c =
     list_all (\<lambda>(name, s). has_value s ''ignore'' \<or> server_uses_connector p (site_of c) name \<or> check_format_server exists s)
       (cg_server c)"

definition default_layer :: full_config where
  "default_layer = zero_config\<lparr>fc_values := zero_values(''port'' := V_String ''22'',
     ''control_path'' := V_String ''/tmp/lssh-control-%h-%p-%r'', ''control_persist'' := V_Int 10)\<rparr>"

definition empty_config :: config where
  "empty_config = \<lparr>cg_common = zero_config, cg_server = [], cg_provider = [],
     cg_providers = \<lparr>pv_paths = [], pv_timeout = '''', pv_max_parallel = 0, pv_inventory_cache_ttl = '''', pv_fail_open = False,
       pv_debug_log = ''''\<rparr>, cg_sshconfig = [], cg_include = [], cg_includes = []\<rparr>"

text \<open>\<open>Read\<close>; every failure ends the program.\<close>

definition read_config ::
    "read_env \<Rightarrow> provider_calls \<Rightarrow> (string list \<Rightarrow> string list) \<Rightarrow> string \<Rightarrow> config outcome" where
  "read_config env p order path =
     and_then (if re_exists env path then lift_result (re_decode env path) else Done empty_config) (\<lambda>c.
     let c = reduce_common (c\<lparr>cg_common := server_config_reduct default_layer (cg_common c)\<rparr>)
     in and_then (read_openssh env c) (\<lambda>c.
        and_then (read_include_files env order c) (\<lambda>c.
        and_then (lift_result (read_inventory_providers env c)) (\<lambda>c.
        and_then (lift_result (resolve_branches env c)) (\<lambda>c.
        if check_format p (re_exists env) c then Done c else Failed (Go_Error False ''exit''))))))"

text \<open>\<open>GetNameList\<close>.\<close>

definition get_name_list :: "config \<Rightarrow> string list" where
  "get_name_list c = map fst (filter (\<lambda>(name, s). \<not> has_value s ''ignore'') (cg_server c))"

section \<open>What is read is well formed\<close>

text \<open>The branches of a server hold values of the kinds of their fields too.\<close>

definition typed_branches :: "full_config \<Rightarrow> bool" where
  "typed_branches s \<longleftrightarrow> (\<forall>nb \<in> set (fc_match s). \<forall>key. has_kind (override_config (snd nb) key) (kind_of key))"

definition sound_layer :: "full_config \<Rightarrow> bool" where
  "sound_layer s \<longleftrightarrow> typed_config s \<and> typed_branches s"

definition has_port :: "full_config \<Rightarrow> bool" where
  "has_port s \<longleftrightarrow> conf_string s ''port'' \<noteq> ''''"

definition sound_server :: "full_config \<Rightarrow> bool" where
  "sound_server s \<longleftrightarrow> sound_layer s \<and> has_port s"

definition sound_decoded :: "config \<Rightarrow> bool" where
  "sound_decoded c \<longleftrightarrow> sound_layer (cg_common c) \<and> list_all sound_layer (map snd (cg_server c))
     \<and> list_all (\<lambda>sc. sound_layer (os_config sc)) (map snd (cg_sshconfig c))"

definition sound_config :: "config \<Rightarrow> bool" where
  "sound_config c \<longleftrightarrow> sound_server (cg_common c) \<and> list_all sound_server (map snd (cg_server c))
     \<and> list_all (\<lambda>sc. sound_layer (os_config sc)) (map snd (cg_sshconfig c))"

lemma kind_of_port [simp]: "kind_of ''port'' = K_String"
  by code_simp

lemma has_kind_string: "has_kind v K_String \<Longrightarrow> \<exists>t. v = V_String t"
  by (cases v) auto

lemma typed_port: "typed_config s \<Longrightarrow> \<exists>t. fc_values s ''port'' = V_String t"
  using has_kind_string[of "fc_values s ''port''"] unfolding typed_config_def by (metis kind_of_port)

lemma reduct_typed: "typed_config p \<Longrightarrow> typed_config c \<Longrightarrow> typed_config (server_config_reduct p c)"
  by (auto simp: typed_config_def server_config_reduct_def intro: reduce_value_kind)

lemma reduct_port:
  assumes "typed_config p" "typed_config c" "has_port p \<or> has_port c"
  shows "has_port (server_config_reduct p c)"
proof -
  obtain a b where "fc_values p ''port'' = V_String a" "fc_values c ''port'' = V_String b"
    using assms(1,2) typed_port by blast
  with assms(3) show ?thesis
    by (auto simp: has_port_def conf_string_def server_config_reduct_def)
qed

lemma reduct_layer: "typed_config p \<Longrightarrow> sound_layer c \<Longrightarrow> sound_layer (server_config_reduct p c)"
  using reduct_typed[of p c] by (simp add: sound_layer_def typed_branches_def) (simp add: server_config_reduct_def)

lemma reduct_sound:
  assumes "typed_config p" "sound_layer c" "has_port p \<or> has_port c"
  shows "sound_server (server_config_reduct p c)"
  using assms reduct_layer reduct_port unfolding sound_server_def sound_layer_def by blast

lemma values_layer: "(\<And>key. has_kind (vals key) (kind_of key)) \<Longrightarrow> sound_layer (zero_config\<lparr>fc_values := vals\<rparr>)"
  by (simp add: sound_layer_def typed_config_def typed_branches_def zero_config_def)

lemma sound_serverD: "sound_server s \<Longrightarrow> typed_config s" "sound_server s \<Longrightarrow> has_port s" "sound_server s \<Longrightarrow> sound_layer s"
  by (auto simp: sound_server_def sound_layer_def)

lemma set_update: "set (AList.update k v xs) \<subseteq> insert (k, v) (set xs)"
  by (induction xs) auto

lemma put_server_sound: "sound_config c \<Longrightarrow> sound_server s \<Longrightarrow> sound_config (put_server name s c)"
  using set_update[of name s "cg_server c"] by (fastforce simp: sound_config_def put_server_def list_all_iff)

lemma put_servers_sound: "sound_config c \<Longrightarrow> list_all sound_server (map snd ss) \<Longrightarrow> sound_config (put_servers ss c)"
  unfolding put_servers_def by (induction ss arbitrary: c) (auto simp: put_server_sound)

text \<open>Settings an OpenSSH configuration gives.\<close>

lemma put_kind:
  assumes "\<And>key. has_kind (vals key) (kind_of key)"
  shows "kind_of k = K_String \<Longrightarrow> has_kind (put k v vals key) (kind_of key)"
    and "kind_of k = K_Strings \<Longrightarrow> has_kind (put_list k vs vals key) (kind_of key)"
    and "kind_of k = K_Bool \<Longrightarrow> has_kind (put_true k vals key) (kind_of key)"
  using assms by (auto simp: put_def put_list_def put_true_def)

lemma kinds:
  "kind_of ''dynamic_port_forward'' = K_String" "kind_of ''port_forward_local'' = K_String" "kind_of ''port_forward_remote'' = K_String"
  "kind_of ''control_path'' = K_String" "kind_of ''control_master'' = K_Bool" "kind_of ''x11'' = K_Bool" "kind_of ''pkcs11'' = K_Bool"
  "kind_of ''pkcs11provider'' = K_String" "kind_of ''cert'' = K_String" "kind_of ''certkey'' = K_String" "kind_of ''key'' = K_String"
  "kind_of ''certs'' = K_Strings" "kind_of ''keys'' = K_Strings" "kind_of ''user'' = K_String" "kind_of ''addr'' = K_String"
  "kind_of ''proxy_cmd'' = K_String" "kind_of ''pre_cmd'' = K_String" "kind_of ''note'' = K_String" "kind_of ''control_persist'' = K_Duration"
  by code_simp+

lemma openssh_entry_kind: "has_kind (openssh_entry pd exists d lu cfg username host key) (kind_of key)"
proof -
  have zero: "has_kind (zero_values key) (kind_of key)" for key
    by (simp add: zero_values_def)
  have forward: "has_kind (put_forward v vals key) (kind_of key)" if "\<And>key. has_kind (vals key) (kind_of key)" for v vals key
    unfolding put_forward_def using that by (auto simp: kinds intro!: put_kind split: option.split)
  have nonempty: "has_kind (put_nonempty k v vals key) (kind_of key)"
    if "\<And>key. has_kind (vals key) (kind_of key)" "kind_of k = K_String" for k v vals key
    unfolding put_nonempty_def using that by (auto intro: put_kind)
  have persist: "has_kind (put_persist pd v vals key) (kind_of key)" if "\<And>key. has_kind (vals key) (kind_of key)" for v vals key
    unfolding put_persist_def using that by (auto simp: kinds split: sum.split)
  have flag: "has_kind (put_when b k vals key) (kind_of key)"
    if "\<And>key. has_kind (vals key) (kind_of key)" "kind_of k = K_Bool" for b k vals key
    unfolding put_when_def using that by (auto intro: put_kind)
  have pkcs: "has_kind (put_pkcs11 v vals key) (kind_of key)" if "\<And>key. has_kind (vals key) (kind_of key)" for v vals key
    unfolding put_pkcs11_def using that by (auto simp: kinds intro!: put_kind)
  have keys: "has_kind (put_keys certs ks vals key) (kind_of key)" if "\<And>key. has_kind (vals key) (kind_of key)" for certs ks vals key
    unfolding put_keys_def Let_def using that by (auto simp: kinds intro!: put_kind)
  show ?thesis
    unfolding openssh_entry_def Let_def
    by (intro nonempty forward persist flag pkcs keys put_kind zero kinds kind_of_port)
qed



lemma sound_server_parts: "sound_server s \<longleftrightarrow> (\<forall>key. has_kind (fc_values s key) (kind_of key))
    \<and> (\<forall>nb \<in> set (fc_match s). \<forall>key. has_kind (override_config (snd nb) key) (kind_of key)) \<and> conf_string s ''port'' \<noteq> ''''"
  by (simp add: sound_server_def sound_layer_def typed_config_def typed_branches_def has_port_def)

lemma note_layer:
  assumes "\<And>key. has_kind (vals key) (kind_of key)"
  shows "sound_layer (zero_config\<lparr>fc_values := put ''note'' note vals\<rparr>)"
  by (intro values_layer put_kind assms kinds)

lemma load_entries_layer:
  assumes "load_entries env path command = Done entries" "(host, vals) \<in> set entries"
  shows "sound_layer (zero_config\<lparr>fc_values := put ''note'' note vals\<rparr>)"
  using assms
  by (auto simp: load_entries_def and_then_Done load_openssh_entries_def intro!: note_layer openssh_entry_kind)

lemma default_openssh_sound:
  assumes "sound_config c" "load_entries env path command = Done entries"
  shows "sound_config (put_servers (map (\<lambda>(name, s). (name, server_config_reduct (cg_common c) s))
            (get_openssh_config source entries)) c)"
proof (rule put_servers_sound[OF assms(1)])
  have common: "sound_server (cg_common c)"
    using assms(1) by (simp add: sound_config_def)
  show "list_all sound_server (map snd (map (\<lambda>(name, s). (name, server_config_reduct (cg_common c) s))
            (get_openssh_config source entries)))"
    using load_entries_layer[OF assms(2)] sound_serverD(1,2)[OF common]
    by (auto simp: list_all_iff get_openssh_config_def intro!: reduct_sound)
qed

lemma decoded_layer: "decode_tagged_map pd t = Inr vals \<Longrightarrow> sound_layer (zero_config\<lparr>fc_values := vals\<rparr>)"
  by (intro values_layer decode_tagged_map_kind)

lemma import_branch_layer: "decode_import_branch pd b = Inr m \<Longrightarrow> sound_layer (om_config m)"
  by (auto simp: decode_import_branch_def errorf_def intro: decoded_layer
      split: prod.splits sum.splits option.splits)

lemma decode_branches_layer: "decode_branches pd bs = Inr ms \<Longrightarrow> m \<in> set ms \<Longrightarrow> sound_layer (om_config m)"
  by (induction pd bs arbitrary: ms rule: decode_branches.induct) (auto split: sum.splits dest: import_branch_layer)

lemma import_matches_layer: "decode_import_matches pd raw = Inr ms \<Longrightarrow> m \<in> set ms \<Longrightarrow> sound_layer (om_config m)"
  by (auto simp: decode_import_matches_def split: sum.splits dest: decode_branches_layer)

text \<open>A layer over a sound server leaves it sound.\<close>

lemma reduct_over: "sound_server s \<Longrightarrow> sound_layer l \<Longrightarrow> sound_server (server_config_reduct s l)"
  by (intro reduct_sound) (auto dest: sound_serverD)

lemma apply_import_sound:
  "sound_server s \<Longrightarrow> (\<And>m. m \<in> set ms \<Longrightarrow> sound_layer (om_config m)) \<Longrightarrow> sound_server (apply_import_matches host s ms)"
  unfolding apply_import_matches_def by (induction ms arbitrary: s) (auto intro: reduct_over)

lemma configured_openssh_sound:
  assumes "sound_server common" "sound_layer own" "load_entries env path command = Done entries"
    "read_configured_openssh pd common source own branches entries = Inr servers"
  shows "list_all sound_server (map snd servers)"
proof -
  obtain ms where ms: "decode_import_matches pd branches = Inr ms"
    using assms(4) by (auto simp: read_configured_openssh_def split: sum.splits)
  have "sound_server (apply_import_matches host (server_config_reduct (server_config_reduct common own)
      (zero_config\<lparr>fc_values := put ''note'' src vals\<rparr>)) ms)" if "(host, vals) \<in> set entries" for host vals src
    using load_entries_layer[OF assms(3) that] import_matches_layer[OF ms] assms(1,2)
    by (intro apply_import_sound reduct_over)
  with assms(4) ms show ?thesis
    by (auto simp: read_configured_openssh_def Let_def list_all_iff)
qed

lemma lift_result_Done: "lift_result r = Done x \<longleftrightarrow> r = Inr x"
  by (cases r) auto

lemma read_source_sound:
  assumes "sound_config c" "sound_layer (os_config sc)" "read_source env sc c = Done c'"
  shows "sound_config c'"
  using assms configured_openssh_sound[of "cg_common c" "os_config sc" env "os_path sc" "os_command sc"]
  by (auto simp: read_source_def and_then_Done lift_result_Done sound_config_def[of c] intro!: put_servers_sound)

lemma read_sources_sound:
  "sound_config c \<Longrightarrow> (\<And>sc. sc \<in> set scs \<Longrightarrow> sound_layer (os_config sc)) \<Longrightarrow> read_sources env scs c = Done c' \<Longrightarrow> sound_config c'"
  by (induction env scs c rule: read_sources.induct) (auto simp: and_then_Done dest: read_source_sound)

lemma active_openssh_subset: "active_openssh_configs env c = Inr scs \<Longrightarrow> set scs \<subseteq> set (map snd (cg_sshconfig c))"
  by (auto simp: active_openssh_configs_def split: sum.splits)

lemma read_openssh_sound:
  assumes "sound_config c" "read_openssh env c = Done c'"
  shows "sound_config c'"
proof (cases "cg_sshconfig c = []")
  case True
  with assms default_openssh_sound[OF assms(1)] show ?thesis
    by (auto simp: read_openssh_def Let_def and_then_Done split: if_splits)
next
  case False
  with assms(2) obtain scs where scs: "active_openssh_configs env c = Inr scs" "read_sources env scs c = Done c'"
    by (auto simp: read_openssh_def and_then_Done lift_result_Done)
  have "sound_layer (os_config sc)" if "sc \<in> set scs" for sc
    using active_openssh_subset[OF scs(1)] that assms(1) by (auto simp: sound_config_def list_all_iff)
  then show ?thesis
    by (rule read_sources_sound[OF assms(1) _ scs(2)])
qed

lemma sound_config_other:
  "sound_config (c\<lparr>cg_provider := ps\<rparr>) = sound_config c" "sound_config (c\<lparr>cg_providers := pc\<rparr>) = sound_config c"
  by (simp_all add: sound_config_def)

text \<open>Included files, inventories and branches.\<close>

definition sound_decoder :: "(string \<Rightarrow> config result) \<Rightarrow> bool" where
  "sound_decoder decode \<longleftrightarrow> (\<forall>path c. decode path = Inr c \<longrightarrow> sound_decoded c)"

lemma read_include_sound:
  assumes "sound_decoder (re_decode env)" "sound_config c" "read_include env path c = Done c'"
  shows "sound_config c'"
proof -
  obtain inc where inc: "re_decode env (re_full_path env path) = Inr inc"
    using assms(3) by (auto simp: read_include_def and_then_Done lift_result_Done)
  then have decoded: "sound_decoded inc"
    using assms(1) unfolding sound_decoder_def by blast
  have "sound_server (cg_common c)" "sound_layer (cg_common inc)" "\<And>n s. (n, s) \<in> set (cg_server inc) \<Longrightarrow> sound_layer s"
    using assms(2) decoded by (auto simp: sound_config_def sound_decoded_def list_all_iff)
  then have "sound_config (put_servers (map (\<lambda>(name, s). (name, server_config_reduct (server_config_reduct (cg_common c) (cg_common inc)) s))
      (cg_server inc)) c)"
    by (intro put_servers_sound assms(2)) (auto simp: list_all_iff intro!: reduct_over)
  with assms(3) inc show ?thesis
    by (auto simp: read_include_def Let_def sound_config_other)
qed

lemma read_includes_sound:
  "sound_decoder (re_decode env) \<Longrightarrow> sound_config c \<Longrightarrow> read_includes env ps c = Done c' \<Longrightarrow> sound_config c'"
  by (induction env ps c rule: read_includes.induct) (auto simp: and_then_Done dest: read_include_sound)

lemma read_branch_layer: "read_branch pd b = Inr m \<Longrightarrow> sound_layer (im_config m)"
  by (auto simp: read_branch_def errorf_def intro: decoded_layer split: prod.splits dyn.splits sum.splits option.splits)

lemma apply_match_sound: "sound_server s \<Longrightarrow> sound_layer (im_config m) \<Longrightarrow> sound_server (apply_match provider server meta s m)"
  using reduct_over[of s "im_config m"]
  by (auto simp: apply_match_def Let_def set_note_def sound_server_parts conf_string_def kinds)

lemma apply_inventory_sound:
  "sound_server s \<Longrightarrow> (\<And>m. m \<in> set ms \<Longrightarrow> sound_layer (im_config m)) \<Longrightarrow>
     sound_server (apply_inventory_matches provider server meta s ms)"
  unfolding apply_inventory_matches_def by (induction ms arbitrary: s) (auto intro: apply_match_sound)

lemma generated_server_sound:
  assumes "sound_config c" "sound_server base" "\<And>m. m \<in> set ms \<Longrightarrow> sound_layer (im_config m)"
    "generated_server env provider raw base ms s c = Inr c'"
  shows "sound_config c'"
proof -
  obtain vals where vals: "decode_tagged_map (re_duration env) (is_config s) = Inr vals"
    using assms(4) by (auto simp: generated_server_def errorf_def split: if_splits sum.splits)
  define merged where
    "merged = apply_inventory_matches provider (is_name s) (is_meta s) (server_config_reduct base (zero_config\<lparr>fc_values := vals\<rparr>)) ms"
  have "sound_server merged"
    unfolding merged_def by (intro apply_inventory_sound reduct_over assms(2,3) decoded_layer[OF vals])
  then have "sound_server (merged\<lparr>fc_provider_name := a, fc_provider_plugin := b, fc_provider_meta := m\<rparr>)" for a b m
    by (simp add: sound_server_parts conf_string_def)
  then show ?thesis
    using assms(1,4) vals
    by (auto simp: generated_server_def errorf_def Let_def merged_def intro!: put_server_sound split: if_splits)
qed

lemma provider_defaults_layer: "provider_server_defaults pd raw = Inr d \<Longrightarrow> sound_layer d"
  by (auto simp: provider_server_defaults_def intro: decoded_layer split: sum.splits)

lemma read_branches_layer: "read_branches pd bs = Inr ms \<Longrightarrow> m \<in> set ms \<Longrightarrow> sound_layer (im_config m)"
  by (induction pd bs arbitrary: ms rule: read_branches.induct) (auto split: sum.splits dest: read_branch_layer)

lemma inventory_matches_layer: "provider_inventory_matches pd raw = Inr ms \<Longrightarrow> m \<in> set ms \<Longrightarrow> sound_layer (im_config m)"
  by (auto simp: provider_inventory_matches_def errorf_def split: option.splits dyn.splits sum.splits dest: read_branches_layer)

lemma generated_servers_sound:
  assumes "sound_server base" "\<And>m. m \<in> set ms \<Longrightarrow> sound_layer (im_config m)"
    "fold_result (generated_server env provider raw base ms) ss c = Inr c'" "sound_config c"
  shows "sound_config c'"
  by (rule fold_result_inv[OF assms(3), where I = sound_config]) (use assms in \<open>auto intro: generated_server_sound\<close>)

lemma read_inventory_provider_sound:
  assumes "sound_config c" "read_inventory_provider env p c = Inr c'"
  shows "sound_config c'"
proof (cases "c' = c")
  case False
  obtain name raw where p: "p = (name, raw)"
    by (cases p)
  obtain servers defaults ms where ok:
    "provider_server_defaults (re_duration env) (merge_provider_describe_metadata raw
        (if provider_needs_describe_reserved_keys raw then re_describe env name else [])) = Inr defaults"
    "provider_inventory_matches (re_duration env) (merge_provider_describe_metadata raw
        (if provider_needs_describe_reserved_keys raw then re_describe env name else [])) = Inr ms"
    "fold_result (generated_server env name raw (server_config_reduct (cg_common c) defaults) ms) servers c = Inr c'"
    using assms(2) False by (auto simp: read_inventory_provider_def p Let_def split: if_split_asm sum.splits)
  show ?thesis
    by (rule generated_servers_sound[OF _ inventory_matches_layer[OF ok(2)] ok(3) assms(1)])
      (use assms(1) provider_defaults_layer[OF ok(1)] in \<open>auto simp: sound_config_def intro: reduct_over\<close>)
qed (simp add: assms)

lemma read_inventory_providers_sound:
  assumes "sound_config c" "read_inventory_providers env c = Inr c'"
  shows "sound_config c'"
proof (cases "cg_provider c = []")
  case True
  with assms show ?thesis
    by (simp add: read_inventory_providers_def)
next
  case False
  with assms(2) obtain ps where "fold_result (read_inventory_provider env) ps c = Inr c'"
    by (auto simp: read_inventory_providers_def split: sum.splits)
  from fold_result_inv[OF this, where I = sound_config] assms(1) show ?thesis
    using read_inventory_provider_sound by blast
qed

text \<open>The branches put values of the right kinds, and a server without branches keeps its settings.\<close>

lemma merge_server_match_kind:
  assumes "\<And>key. has_kind (sc_values s key) (kind_of key)" "\<And>key. has_kind (override_config b key) (kind_of key)"
  shows "has_kind (sc_values (merge_server_match s b) key) (kind_of key)"
proof -
  have "\<forall>key. has_kind (sc_values (foldl (\<lambda>r tag. if tag = '''' \<or> \<not> is_defined b tag then r
      else r\<lparr>sc_values := (sc_values r)(tag := override_config b tag)\<rparr>) s tags) key) (kind_of key)" for tags
    using assms(1) by (induction tags arbitrary: s) (auto simp: assms(2))
  then show ?thesis
    by (simp add: merge_server_match_def)
qed

lemma resolve_server_kind:
  assumes "\<And>key. has_kind (sc_values s key) (kind_of key)"
    "\<And>nb key. nb \<in> set (sc_match s) \<Longrightarrow> has_kind (override_config (snd nb) key) (kind_of key)"
  shows "has_kind (sc_values (resolve_server cx s) key) (kind_of key)"
proof -
  have "\<forall>key. has_kind (sc_values (foldl (\<lambda>m (n, b). if when_matches (mb_when b) cx then merge_server_match m b else m) s
      (sorted_matches (sc_match s))) key) (kind_of key)"
    by (rule foldl_inv) (use assms merge_server_match_kind in \<open>force simp: sorted_matches_def\<close>)+
  with assms(1) show ?thesis
    by (simp add: resolve_server_def)
qed

definition settled_server :: "full_config \<Rightarrow> bool" where
  "settled_server s \<longleftrightarrow> typed_config s \<and> (fc_match s = [] \<longrightarrow> has_port s)"

lemma resolve_branches_settled:
  assumes "sound_config c" "resolve_branches env c = Inr c'"
  shows "list_all settled_server (map snd (cg_server c'))"
proof -
  obtain resolved where r: "resolve_conditional_matches (re_host env) (map (\<lambda>(name, s). (name, as_branches s)) (cg_server c)) = Inr resolved"
    and c': "cg_server c' = map (\<lambda>((name, s), (_, r)). (name, s\<lparr>fc_values := sc_values r, fc_match := sc_match r\<rparr>))
                   (zip (cg_server c) resolved)"
    using assms(2) by (auto simp: resolve_branches_def split: sum.splits)
  obtain cx where resolved: "resolved = map (\<lambda>(name, s). (name, resolve_server cx (as_branches s))) (cg_server c)"
    using resolve_is_map[OF r] by (fastforce simp: case_prod_beta comp_def)
  have "settled_server (s\<lparr>fc_values := sc_values (resolve_server cx (as_branches s)),
      fc_match := sc_match (resolve_server cx (as_branches s))\<rparr>)" if "(name, s) \<in> set (cg_server c)" for name s
  proof -
    have s: "sound_server s"
      using that assms(1) by (auto simp: sound_config_def list_all_iff)
    then have "has_kind (sc_values (resolve_server cx (as_branches s)) key) (kind_of key)" for key
      by (intro resolve_server_kind) (auto simp: sound_server_parts as_branches_def)
    moreover have "sc_match (resolve_server cx (as_branches s)) = fc_match s"
      by (simp add: resolve_server_def as_branches_def)
    moreover have "fc_match s = [] \<Longrightarrow> sc_values (resolve_server cx (as_branches s)) = fc_values s"
      by (simp add: resolve_server_def as_branches_def)
    ultimately show ?thesis
      using s by (simp add: settled_server_def typed_config_def has_port_def conf_string_def sound_server_parts)
  qed
  then show ?thesis
    unfolding c' resolved by (auto simp: list_all_iff zip_map2 zip_same_conv_map)
qed

lemma default_layer_sound: "sound_server default_layer"
  by (auto simp: sound_server_parts default_layer_def zero_config_def zero_values_def conf_string_def kinds)

lemma reduce_common_sound:
  assumes "sound_decoded c"
  shows "sound_config (reduce_common (c\<lparr>cg_common := server_config_reduct default_layer (cg_common c)\<rparr>))"
proof -
  have common: "sound_server (server_config_reduct default_layer (cg_common c))"
    using assms by (intro reduct_over default_layer_sound) (simp add: sound_decoded_def)
  with assms show ?thesis
    by (auto simp: sound_decoded_def sound_config_def reduce_common_def list_all_iff intro!: reduct_over)
qed

lemma empty_config_decoded: "sound_decoded empty_config"
  by (simp add: sound_decoded_def empty_config_def sound_layer_def typed_config_def typed_branches_def zero_config_def zero_values_def)

section \<open>The whole configuration\<close>

text \<open>
  C4. When reading succeeds, every setting of every server has the type of its field, and every server has
  what a connection needs: it is ignored, or has a connector, or has an address, a user and a way to
  authenticate, and, without conditional branches, a port.
\<close>

theorem read_config_settled:
  assumes "sound_decoder (re_decode env)" "read_config env p order path = Done c" "(name, s) \<in> set (cg_server c)"
  shows "typed_config s \<and> (fc_match s = [] \<longrightarrow> conf_string s ''port'' \<noteq> '''')
    \<and> (has_value s ''ignore'' \<or> server_uses_connector p (site_of c) name
       \<or> conf_string s ''addr'' \<noteq> '''' \<and> conf_string s ''user'' \<noteq> '''' \<and> check_format_auth (re_exists env) s)"
proof -
  define decoded_file where "decoded_file = (if re_exists env path then lift_result (re_decode env path) else Done empty_config)"
  obtain c0 c1 c2 c3 where steps: "decoded_file = Done c0"
      "read_openssh env (reduce_common (c0\<lparr>cg_common := server_config_reduct default_layer (cg_common c0)\<rparr>)) = Done c1"
      "read_include_files env order c1 = Done c2" "read_inventory_providers env c2 = Inr c3" "resolve_branches env c3 = Inr c"
    and format: "check_format p (re_exists env) c"
    using assms(2) unfolding read_config_def Let_def decoded_file_def[symmetric]
    by (auto simp: and_then_Done lift_result_Done split: if_splits)
  have "sound_decoded c0"
    using steps(1) assms(1) empty_config_decoded
    by (auto simp: decoded_file_def sound_decoder_def lift_result_Done split: if_splits)
  then have "sound_config c3"
    using read_openssh_sound[OF reduce_common_sound steps(2)] read_includes_sound[OF assms(1)] read_inventory_providers_sound steps(3,4)
    unfolding read_include_files_def by blast
  from resolve_branches_settled[OF this steps(5)] assms(3) have "settled_server s"
    by (auto simp: list_all_iff)
  moreover have "has_value s ''ignore'' \<or> server_uses_connector p (site_of c) name \<or> check_format_server (re_exists env) s"
    using format assms(3) by (auto simp: check_format_def list_all_iff)
  ultimately show ?thesis
    by (simp add: settled_server_def has_port_def check_format_server_def)
qed


text \<open>A file with one server and no other source.\<close>

definition one_server :: config where
  "one_server = empty_config\<lparr>cg_server := [(''web'', zero_config\<lparr>fc_values :=
     zero_values(''addr'' := V_String ''h'', ''user'' := V_String ''u'', ''pass'' := V_String ''p'')\<rparr>)]\<rparr>"

definition one_file :: read_env where
  "one_file = \<lparr>re_decode = (\<lambda>_. Inr one_server), re_exists = (\<lambda>path. path = ''f''), re_full_path = id,
     re_open = (\<lambda>_. Inr ''''), re_command = (\<lambda>_. Inr ''''), re_parse = \<lparr>pe_home = '''', pe_glob = (\<lambda>_. Inr []), pe_read = (\<lambda>_. Inr '''')\<rparr>,
     re_dirs = \<lparr>dr_home = None, dr_cwd = None\<rparr>, re_username = ''u'', re_local_user = ''u'',
     re_host = \<lparr>he_interface_addrs = [], he_gateway = None, he_username = ''u'', he_hostname = ''h'', he_os = ''linux'', he_environ = []\<rparr>,
     re_duration = (\<lambda>_. None), re_describe = (\<lambda>_. []), re_inventory = (\<lambda>_ _. Inr [])\<rparr>"

definition no_providers :: provider_calls where
  "no_providers = \<lparr>pc_describe = (\<lambda>_. Inr []), pc_connector_describe = (\<lambda>_ _ _. Inr []), pc_prepare = (\<lambda>_ _ _ _. errorf ''none'')\<rparr>"

lemma kind_of_pass: "kind_of ''pass'' = K_String"
  by code_simp

lemma one_server_sound: "sound_decoder (re_decode one_file)"
  by (auto simp: sound_decoder_def one_file_def one_server_def empty_config_def sound_decoded_def sound_layer_def typed_config_def
      typed_branches_def zero_config_def zero_values_def kinds kind_of_pass)

lemma read_one_file:
  "case read_config one_file no_providers id ''f'' of
     Done c \<Rightarrow> map fst (cg_server c) = [''web''] \<and> length (fc_match (snd (hd (cg_server c)))) = 0
       \<and> \<not> has_value (snd (hd (cg_server c))) ''ignore'' \<and> \<not> server_uses_connector no_providers (site_of c) ''web''
   | _ \<Rightarrow> False"
  by code_simp

lemma read_config_settled_witness:
  "\<exists>c s. read_config one_file no_providers id ''f'' = Done c \<and> cg_server c = [(''web'', s)]
     \<and> conf_string s ''port'' \<noteq> '''' \<and> conf_string s ''addr'' \<noteq> '''' \<and> check_format_auth (re_exists one_file) s"
proof -
  obtain c where c: "read_config one_file no_providers id ''f'' = Done c"
      "map fst (cg_server c) = [''web'']" "fc_match (snd (hd (cg_server c))) = []"
      "\<not> has_value (snd (hd (cg_server c))) ''ignore''" "\<not> server_uses_connector no_providers (site_of c) ''web''"
    using read_one_file by (auto split: outcome.splits)
  then obtain s where s: "cg_server c = [(''web'', s)]"
    by auto
  with read_config_settled[OF one_server_sound c(1), of "''web''" s] c show ?thesis
    by auto
qed

end
