(* ===== verification/Proxy_Route.thy ===== *)
theory Proxy_Route
  imports Conf_Reduct
begin

text \<open>
  The way to a server, \<^verbatim>\<open>internal/ssh/connect.go\<close> and \<^verbatim>\<open>provider_bridge_dialer.go\<close>: the proxies a
  connection goes through, the dialers that are built for them, and the settings of the connection.
  The SSH library's dialers are parameters.
\<close>

section \<open>The route\<close>

record proxy_config =
  px_addr :: string
  px_port :: string
  px_user :: string
  px_pass :: string
  px_proxy :: string
  px_proxy_type :: string

definition no_proxy_config :: proxy_config where
  "no_proxy_config = \<lparr>px_addr = '''', px_port = '''', px_user = '''', px_pass = '''', px_proxy = '''', px_proxy_type = ''''\<rparr>"

record network =
  nw_server :: "(string \<times> full_config) list"
  nw_proxy :: "(string \<times> proxy_config) list"

record proxy_hop =
  hop_name :: string
  hop_type :: string
  hop_port :: string

text \<open>Looking up a name that is not there gives the zero value.\<close>

definition server_conf :: "network \<Rightarrow> string \<Rightarrow> full_config" where
  "server_conf w name = (case map_of (nw_server w) name of None \<Rightarrow> zero_config | Some s \<Rightarrow> s)"

definition proxy_conf :: "network \<Rightarrow> string \<Rightarrow> proxy_config" where
  "proxy_conf w name = (case map_of (nw_proxy w) name of None \<Rightarrow> no_proxy_config | Some p \<Rightarrow> p)"

definition web_proxy :: "string \<Rightarrow> bool" where
  "web_proxy t = (t \<in> set [''http'', ''https'', ''socks'', ''socks5''])"

definition expansion_proxy_command :: "string \<Rightarrow> full_config \<Rightarrow> string" where
  "expansion_proxy_command command s =
     replace_all (replace_all (replace_all command ''%h'' (conf_string s ''addr'')) ''%p'' (conf_string s ''port''))
       ''%r'' (conf_string s ''user'')"

text \<open>The first switch of the loop: name, type and port of the proxy of \<open>name\<close>, and whether \<open>name\<close> is known.\<close>

definition proxy_of :: "network \<Rightarrow> string \<Rightarrow> string \<Rightarrow> string \<times> string \<times> string \<times> bool" where
  "proxy_of w name typ =
     (if web_proxy typ
      then (let c = proxy_conf w name in (px_proxy c, px_proxy_type c, px_port c, map_of (nw_proxy w) name \<noteq> None))
      else (let c = server_conf w name; ok = map_of (nw_server w) name \<noteq> None
            in if conf_string c ''proxy_cmd'' \<noteq> '''' \<and> conf_string c ''proxy_cmd'' \<noteq> ''none''
               then (expansion_proxy_command (conf_string c ''proxy_cmd'') c, ''command'', '''', ok)
               else (conf_string c ''proxy'', conf_string c ''proxy_type'', conf_string c ''port'', ok)))"

text \<open>The second switch.\<close>

definition new_hop :: "network \<Rightarrow> string \<Rightarrow> string \<Rightarrow> string \<Rightarrow> proxy_hop" where
  "new_hop w name typ port =
     (if web_proxy typ
      then \<lparr>hop_name = name, hop_type = typ,
             hop_port = (case map_of (nw_proxy w) name of Some c \<Rightarrow> px_port c | None \<Rightarrow> port)\<rparr>
      else if typ = ''command'' then \<lparr>hop_name = name, hop_type = typ, hop_port = ''''\<rparr>
      else \<lparr>hop_name = name, hop_type = ''ssh'',
             hop_port = (case map_of (nw_server w) name of Some c \<Rightarrow> conf_string c ''port'' | None \<Rightarrow> port)\<rparr>)"

text \<open>The loop of \<open>getProxyRoute\<close>; \<open>None\<close> when it never ends.\<close>

partial_function (option) route_loop ::
    "network \<Rightarrow> string \<Rightarrow> string \<Rightarrow> string \<Rightarrow> proxy_hop list \<Rightarrow> proxy_hop list result option" where
  "route_loop w server name typ route =
     (if typ = ''command'' then Some (Inr (rev route))
      else (case proxy_of w name typ of (proxy_name, proxy_type, proxy_port, ok) \<Rightarrow>
        if proxy_name = '''' then Some (Inr (rev route))
        else if \<not> ok then Some (errorf (''Not Found proxy : '' @ server))
        else route_loop w server proxy_name proxy_type (route @ [new_hop w proxy_name proxy_type proxy_port])))"

definition get_proxy_route :: "network \<Rightarrow> string \<Rightarrow> proxy_hop list result option" where
  "get_proxy_route w server = route_loop w server server ''ssh'' []"

section \<open>Dialers\<close>

text \<open>
  The dialers of the SSH library: \<open>dl_direct\<close> is \<open>proxy.Direct\<close>, \<open>dl_web\<close> and \<open>dl_command\<close> are
  \<open>CreateProxyDialer\<close> for the two kinds of proxies, which return a dialer and an error, and \<open>dl_client\<close> is
  \<open>CreateClient\<close> with the address, the port and the user.
\<close>

record 'd dialers =
  dl_direct :: 'd
  dl_web :: "string \<Rightarrow> 'd \<Rightarrow> proxy_config \<Rightarrow> 'd \<times> go_error option"
  dl_command :: "string \<Rightarrow> 'd \<times> go_error option"
  dl_client :: "string \<Rightarrow> 'd \<Rightarrow> string \<Rightarrow> string \<Rightarrow> string \<Rightarrow> 'd result"

text \<open>One hop of the loop of \<open>createSshConnect\<close>, which keeps the dialer of a proxy and not its error.\<close>

definition connect_hop :: "'d dialers \<Rightarrow> network \<Rightarrow> proxy_hop \<Rightarrow> 'd \<Rightarrow> 'd result" where
  "connect_hop l w p d =
     (if web_proxy (hop_type p) then Inr (fst (dl_web l (hop_type p) d (proxy_conf w (hop_name p))))
      else if hop_type p = ''command'' then Inr (fst (dl_command l (hop_name p)))
      else (let c = server_conf w (hop_name p)
            in dl_client l (hop_name p) d (conf_string c ''addr'') (conf_string c ''port'') (conf_string c ''user'')))"

definition connect_route :: "'d dialers \<Rightarrow> network \<Rightarrow> proxy_hop list \<Rightarrow> 'd result" where
  "connect_route l w route = fold_result (connect_hop l w) route (dl_direct l)"

text \<open>The same in \<open>dialServerViaProxyChain\<close>, which stops at the error.\<close>

definition bridge_hop :: "'d dialers \<Rightarrow> network \<Rightarrow> proxy_hop \<Rightarrow> 'd \<Rightarrow> 'd result" where
  "bridge_hop l w p d =
     (let checked = (\<lambda>(d', e). case e of None \<Rightarrow> Inr d' | Some e \<Rightarrow> Inl e)
      in if web_proxy (hop_type p) then checked (dl_web l (hop_type p) d (proxy_conf w (hop_name p)))
         else if hop_type p = ''command'' then checked (dl_command l (hop_name p))
         else (let c = server_conf w (hop_name p)
               in dl_client l (hop_name p) d (conf_string c ''addr'') (conf_string c ''port'') (conf_string c ''user'')))"

definition bridge_route :: "'d dialers \<Rightarrow> network \<Rightarrow> proxy_hop list \<Rightarrow> 'd result" where
  "bridge_route l w route = fold_result (bridge_hop l w) route (dl_direct l)"

section \<open>The connection\<close>

definition conf_bool :: "full_config \<Rightarrow> string \<Rightarrow> bool" where
  "conf_bool c key = (case fc_values c key of V_Bool b \<Rightarrow> b | _ \<Rightarrow> False)"

definition conf_int :: "full_config \<Rightarrow> string \<Rightarrow> int" where
  "conf_int c key = (case fc_values c key of V_Int n \<Rightarrow> n | _ \<Rightarrow> 0)"

definition set_master :: "bool \<Rightarrow> full_config \<Rightarrow> full_config" where
  "set_master b c = c\<lparr>fc_values := (fc_values c)(''control_master'' := V_Bool b)\<rparr>"

definition no_persist :: "full_config \<Rightarrow> full_config" where
  "no_persist c = c\<lparr>fc_values := (fc_values c)(''control_persist'' := V_Int 0)\<rparr>"

text \<open>\<open>master\<close> is the override of the command line.\<close>

definition effective_server_config :: "network \<Rightarrow> bool option \<Rightarrow> string \<Rightarrow> bool \<Rightarrow> full_config" where
  "effective_server_config w master server force_direct =
     (let s = server_conf w server;
          s = (case master of None \<Rightarrow> s | Some b \<Rightarrow> let s = set_master b s in if b then s else no_persist s)
      in if force_direct then no_persist (set_master False s) else s)"

text \<open>What \<open>expandControlPath\<close> learns of the machine; \<open>lm_hash\<close> is the hexadecimal SHA-1 digest.\<close>

record local_machine =
  lm_host :: string
  lm_user :: string
  lm_home :: string
  lm_hash :: "string \<Rightarrow> string"

definition expand_control_path :: "local_machine \<Rightarrow> string \<Rightarrow> string \<Rightarrow> full_config \<Rightarrow> string" where
  "expand_control_path m path server c =
     (let addr = conf_string c ''addr''; port = conf_string c ''port''; user = conf_string c ''user'';
          host = lm_host m; short = takeWhile (\<lambda>x. x \<noteq> CHR ''.'') host
      in new_replacer
           [(''%%'', ''%''), (''%C'', lm_hash m (host @ addr @ port @ user)), (''%d'', lm_home m), (''%h'', addr),
            (''%L'', short), (''%l'', host), (''%n'', server), (''%p'', port), (''%r'', user), (''%u'', lm_user m)] path)"

text \<open>\<open>time.ParseDuration\<close> of a number of seconds, in nanoseconds.\<close>

definition seconds_duration :: "int \<Rightarrow> int option" where
  "seconds_duration n = (if \<bar>n\<bar> * 1000000000 < 2 ^ 63 then Some (n * 1000000000) else None)"

record connect_plan =
  cn_master :: string
  cn_path :: string
  cn_persist :: int
  cn_reuse :: bool    \<comment> \<open>whether \<open>createSshConnectWithControlPersist\<close> builds the connection\<close>

definition connect_plan_of :: "local_machine \<Rightarrow> network \<Rightarrow> bool option \<Rightarrow> string \<Rightarrow> bool \<Rightarrow> connect_plan" where
  "connect_plan_of m w master server force_direct =
     (let s = effective_server_config w master server force_direct; n = conf_int s ''control_persist''
      in if conf_bool s ''control_master'' \<and> 0 < n
         then (let s = effective_server_config w master server False; n = conf_int s ''control_persist''
               in \<lparr>cn_master = (if conf_bool s ''control_master'' then ''auto'' else ''no''),
                   cn_path = expand_control_path m (conf_string s ''control_path'') server s,
                   cn_persist = (if 0 < n then (case seconds_duration n of None \<Rightarrow> 0 | Some d \<Rightarrow> d) else 0), cn_reuse = True\<rparr>)
         else \<lparr>cn_master = (if conf_bool s ''control_master'' then ''auto'' else ''no''),
               cn_path = expand_control_path m (conf_string s ''control_path'') server s,
               cn_persist = (case seconds_duration n of None \<Rightarrow> 600000000000
                             | Some d \<Rightarrow> if d \<le> 0 then 600000000000 else d), cn_reuse = False\<rparr>)"

section \<open>Where the route ends\<close>

text \<open>The next proxy behind a name and a type, and the proxies of at most so many steps.\<close>

definition next_hop :: "network \<Rightarrow> string \<times> string \<Rightarrow> (proxy_hop \<times> string \<times> string) option" where
  "next_hop w s =
     (case s of (name, typ) \<Rightarrow>
        if typ = ''command'' then None
        else (case proxy_of w name typ of (pn, pt, pp, ok) \<Rightarrow> if pn = '''' then None else Some (new_hop w pn pt pp, pn, pt)))"

fun proxy_chain :: "network \<Rightarrow> nat \<Rightarrow> string \<times> string \<Rightarrow> proxy_hop list option" where
  "proxy_chain w 0 s = (case next_hop w s of None \<Rightarrow> Some [] | Some _ \<Rightarrow> None)"
| "proxy_chain w (Suc n) s =
     (case next_hop w s of None \<Rightarrow> Some [] | Some (h, s') \<Rightarrow> map_option (Cons h) (proxy_chain w n s'))"

fun hop_state :: "network \<Rightarrow> nat \<Rightarrow> string \<times> string \<Rightarrow> (string \<times> string) option" where
  "hop_state w 0 s = Some s"
| "hop_state w (Suc n) s = (case next_hop w s of None \<Rightarrow> None | Some (h, s') \<Rightarrow> hop_state w n s')"

lemma unknown_name_no_proxy: "proxy_of w name typ = (pn, pt, pp, False) \<Longrightarrow> pn = ''''"
  by (auto simp: proxy_of_def proxy_conf_def server_conf_def no_proxy_config_def zero_config_def conf_string_def zero_values_def
      kind_of_def zero_value_def Let_def split: if_splits)

lemma route_loop_next:
  "route_loop w server name typ route =
     (case next_hop w (name, typ) of None \<Rightarrow> Some (Inr (rev route))
      | Some (h, n, t) \<Rightarrow> route_loop w server n t (route @ [h]))"
  using unknown_name_no_proxy[of w name "typ"]
  by (subst route_loop.simps) (auto simp: next_hop_def split: prod.split)

lemma route_loop_chain:
  "proxy_chain w n (name, typ) = Some hs \<Longrightarrow> route_loop w server name typ route = Some (Inr (rev (route @ hs)))"
proof (induction n arbitrary: name "typ" route hs)
  case 0
  then show ?case
    by (subst route_loop_next) (simp split: option.splits)
next
  case (Suc n)
  then show ?case
    by (subst route_loop_next) (auto split: option.splits)
qed

lemma route_loop_returns:
  assumes "route_loop w server name typ route = Some y"
  shows "\<exists>n hs. proxy_chain w n (name, typ) = Some hs"
proof (rule route_loop.raw_induct[OF _ assms, where P = "\<lambda>w server name typ route y. \<exists>n hs. proxy_chain w n (name, typ) = Some hs"])
  fix loop and w :: network and server name "typ" :: string and route y
  assume IH: "\<And>w server name typ route y. loop w server name typ route = Some y \<Longrightarrow> \<exists>n hs. proxy_chain w n (name, typ) = Some hs"
    and run: "(if typ = ''command'' then Some (Inr (rev route))
      else (case proxy_of w name typ of (proxy_name, proxy_type, proxy_port, ok) \<Rightarrow>
        if proxy_name = '''' then Some (Inr (rev route))
        else if \<not> ok then Some (errorf (''Not Found proxy : '' @ server))
        else loop w server proxy_name proxy_type (route @ [new_hop w proxy_name proxy_type proxy_port]))) = Some y"
  show "\<exists>n hs. proxy_chain w n (name, typ) = Some hs"
  proof (cases "next_hop w (name, typ)")
    case None
    then have "proxy_chain w 0 (name, typ) = Some []"
      by simp
    then show ?thesis
      by blast
  next
    case (Some x)
    then obtain pn pt pp where x: "x = (new_hop w pn pt pp, pn, pt)" "typ \<noteq> ''command''" "pn \<noteq> ''''" "proxy_of w name typ = (pn, pt, pp, True)"
      using unknown_name_no_proxy[of w name "typ"] by (auto simp: next_hop_def split: if_splits prod.splits)
    then have "loop w server pn pt (route @ [new_hop w pn pt pp]) = Some y"
      using run by simp
    then obtain n hs where "proxy_chain w n (pn, pt) = Some hs"
      using IH by blast
    then have "proxy_chain w (Suc n) (name, typ) = Some (new_hop w pn pt pp # hs)"
      using Some x by simp
    then show ?thesis
      by blast
  qed
qed

lemma chain_None_state: "proxy_chain w n s = None \<longleftrightarrow> hop_state w (Suc n) s \<noteq> None"
proof (induction n arbitrary: s)
  case 0
  then show ?case
    by (cases "next_hop w s") auto
next
  case (Suc n)
  then show ?case
    by (cases "next_hop w s") auto
qed

lemma hop_state_add:
  "hop_state w (m + n) s = (case hop_state w m s of None \<Rightarrow> None | Some t \<Rightarrow> hop_state w n t)"
  by (induction m arbitrary: s) (auto split: option.split)

text \<open>The next proxy depends on the name and on which of the two maps it is looked up in.\<close>

definition hop_key :: "string \<times> string \<Rightarrow> bool \<times> string" where
  "hop_key s = (web_proxy (snd s), fst s)"

lemma next_hop_key:
  assumes "next_hop w s \<noteq> None" "next_hop w t \<noteq> None" "hop_key s = hop_key t"
  shows "next_hop w s = next_hop w t"
proof -
  have "proxy_of w (fst s) (snd s) = proxy_of w (fst t) (snd t)"
    using assms(3) by (simp add: proxy_of_def hop_key_def)
  moreover have "snd s \<noteq> ''command''" "snd t \<noteq> ''command''"
    using assms(1,2) by (auto simp: next_hop_def split: prod.splits)
  ultimately show ?thesis
    by (cases s; cases t) (simp add: next_hop_def)
qed

lemma hop_key_known:
  assumes "next_hop w s \<noteq> None"
  shows "hop_key s \<in> Pair False ` fst ` set (nw_server w) \<union> Pair True ` fst ` set (nw_proxy w)"
proof -
  obtain name "typ" where s: "s = (name, typ)"
    by (cases s)
  obtain pn pt pp ok where p: "proxy_of w name typ = (pn, pt, pp, ok)"
    by (metis prod_cases4)
  have "pn \<noteq> ''''"
    using assms s p by (auto simp: next_hop_def split: if_splits)
  then have "ok"
    using p unknown_name_no_proxy[of w name "typ" pn pt pp] by (cases ok) auto
  with p have "if web_proxy typ then name \<in> fst ` set (nw_proxy w) else name \<in> fst ` set (nw_server w)"
    by (auto simp: proxy_of_def Let_def map_of_eq_None_iff split: if_splits)
  then show ?thesis
    using s by (auto simp: hop_key_def split: if_splits)
qed

lemma state_defined_below:
  assumes "hop_state w n s \<noteq> None" "i < n"
  shows "\<exists>t. hop_state w i s = Some t \<and> next_hop w t \<noteq> None"
proof -
  obtain k where n: "n = i + Suc k"
    using assms(2) by (metis add_Suc_right less_iff_Suc_add)
  from assms(1) show ?thesis
    unfolding n hop_state_add by (auto split: option.splits)
qed

lemma card_tagged_names: "card (Pair False ` fst ` set xs \<union> Pair True ` fst ` set ys) \<le> length xs + length ys"
proof -
  have "card (Pair b ` fst ` set zs) \<le> length zs" for b :: bool and zs :: "('a \<times> 'b) list"
    using card_image_le[of "fst ` set zs" "Pair b"] card_image_le[of "set zs" fst] card_length[of zs] by simp
  moreover have "card (Pair b ` fst ` set zs) \<le> length zs" for b :: bool and zs :: "('a \<times> 'c) list"
    using card_image_le[of "fst ` set zs" "Pair b"] card_image_le[of "set zs" fst] card_length[of zs] by simp
  ultimately show ?thesis
    using card_Un_le[of "Pair False ` fst ` set xs" "Pair True ` fst ` set ys"] add_mono order.trans by blast
qed

lemma not_inj_on_less:
  assumes "\<not> inj_on f {..n :: nat}"
  shows "\<exists>i j. i < j \<and> j \<le> n \<and> f i = f j"
proof -
  obtain i j where "i \<le> n" "j \<le> n" "f i = f j" "i \<noteq> j"
    using assms by (auto simp: inj_on_def)
  then show ?thesis
    by (metis linorder_neqE_nat)
qed

text \<open>More steps than there are names come back to a name, and then go on for ever.\<close>

lemma long_chain_endless:
  assumes "hop_state w (Suc (length (nw_server w) + length (nw_proxy w))) s \<noteq> None"
  shows "hop_state w n s \<noteq> None"
proof -
  let ?N = "length (nw_server w) + length (nw_proxy w)"
  let ?K = "Pair False ` fst ` set (nw_server w) \<union> Pair True ` fst ` set (nw_proxy w)"
  let ?at = "\<lambda>i. the (hop_state w i s)"
  have at: "hop_state w i s = Some (?at i)" "next_hop w (?at i) \<noteq> None" if "i \<le> ?N" for i
    using state_defined_below[OF assms, of i] that by auto
  have "card ?K \<le> ?N"
    by (rule card_tagged_names)
  moreover have "(\<lambda>i. hop_key (?at i)) ` {..?N} \<subseteq> ?K"
    using hop_key_known at(2) by (intro image_subsetI) simp
  ultimately have "card ((\<lambda>i. hop_key (?at i)) ` {..?N}) \<le> ?N"
    using card_mono[of ?K "(\<lambda>i. hop_key (?at i)) ` {..?N}"] by simp
  then have "\<not> inj_on (\<lambda>i. hop_key (?at i)) {..?N}"
    by (intro pigeonhole) simp
  then obtain i j where ij: "i < j" "j \<le> ?N" "hop_key (?at i) = hop_key (?at j)"
    using not_inj_on_less by blast
  then have same: "next_hop w (?at i) = next_hop w (?at j)"
    using at next_hop_key by simp
  have again: "hop_state w (Suc j + k) s = hop_state w (Suc i + k) s" for k
  proof -
    obtain a b where ab: "hop_state w i s = Some a" "hop_state w j s = Some b" "next_hop w a = next_hop w b"
      using at(1)[of i] at(1)[of j] ij same by (metis less_imp_le order.trans)
    have "hop_state w (i + Suc k) s = hop_state w (Suc k) a" "hop_state w (j + Suc k) s = hop_state w (Suc k) b"
      by (simp_all only: hop_state_add ab option.case)
    with ab(3) show ?thesis
      by simp
  qed
  show ?thesis
  proof (induction n rule: less_induct)
    case (less n)
    show ?case
    proof (cases "n \<le> ?N")
      case True
      then show ?thesis
        using at(1) by (metis option.distinct(1))
    next
      case False
      then obtain k where n: "n = Suc j + k"
        using ij(2) less_imp_Suc_add[of j n] by auto
      with again[of k] less[of "Suc i + k"] ij(1) show ?thesis
        by simp
    qed
  qed
qed

lemma hop_state_mono: "hop_state w n s = None \<Longrightarrow> n \<le> m \<Longrightarrow> hop_state w m s = None"
  using hop_state_add[of w n "m - n" s] by simp

text \<open>
  C16. The route is the chain of proxies, the one next to this machine first. The loop ends exactly when
  the chain has no more proxies than there are servers and proxies, so a circle of proxies makes it
  run for ever, and it never reports a proxy that is not configured.
\<close>

theorem proxy_route_is_chain:
  "get_proxy_route w server =
     map_option (\<lambda>hops. Inr (rev hops)) (proxy_chain w (length (nw_server w) + length (nw_proxy w)) (server, ''ssh''))"
proof (cases "proxy_chain w (length (nw_server w) + length (nw_proxy w)) (server, ''ssh'')")
  case (Some hops)
  then show ?thesis
    using route_loop_chain[OF Some, of server "[]"] by (simp add: get_proxy_route_def)
next
  case None
  then have "proxy_chain w n (server, ''ssh'') = None" for n
    using long_chain_endless unfolding chain_None_state by blast
  then have "get_proxy_route w server = None"
    using route_loop_returns[of w server server "''ssh''" "[]"] unfolding get_proxy_route_def
    by (metis option.exhaust option.distinct(1))
  with None show ?thesis
    by simp
qed

text \<open>Two servers that name each other as proxies, and a proxy that is not there.\<close>

lemma circle_of_proxies_hangs:
  assumes "next_hop w s = Some (h, t)" "next_hop w t = Some (h', s)"
  shows "proxy_chain w n s = None \<and> proxy_chain w n t = None"
  using assms by (induction n) auto

lemma unknown_proxy_accepted:
  assumes "map_of (nw_server w) server = Some s" "conf_string s ''proxy_cmd'' = ''''" "conf_string s ''proxy'' = name"
    "name \<noteq> ''''" "conf_string s ''proxy_type'' = ''''" "map_of (nw_server w) name = None"
  shows "get_proxy_route w server = Some (Inr [\<lparr>hop_name = name, hop_type = ''ssh'', hop_port = conf_string s ''port''\<rparr>])"
proof -
  have "next_hop w (server, ''ssh'') = Some (\<lparr>hop_name = name, hop_type = ''ssh'', hop_port = conf_string s ''port''\<rparr>, name, '''')"
    using assms by (simp add: next_hop_def proxy_of_def server_conf_def new_hop_def web_proxy_def)
  moreover have "next_hop w (name, '''') = None"
    using assms(6) unknown_name_no_proxy[of w name "''''"]
    by (auto simp: next_hop_def proxy_of_def server_conf_def zero_config_def conf_string_def zero_values_def web_proxy_def
        kind_of_def zero_value_def)
  ultimately have "proxy_chain w (Suc 0) (server, ''ssh'') = Some [\<lparr>hop_name = name, hop_type = ''ssh'', hop_port = conf_string s ''port''\<rparr>]"
    by simp
  then show ?thesis
    using route_loop_chain[of w "Suc 0" server "''ssh''" _ server "[]"] by (simp add: get_proxy_route_def)
qed

section \<open>Errors of proxies\<close>

text \<open>
  A proxy dialer that cannot be made stops the way of a bridge, but not the way of an SSH connection,
  which goes on with whatever dialer came with the error. When none fails both are the same.
\<close>

theorem proxy_error_dropped:
  "(web_proxy (hop_type p) \<and> dl_web l (hop_type p) (dl_direct l) (proxy_conf w (hop_name p)) = (d, Some e) \<longrightarrow>
      bridge_route l w (p # route) = Inl e \<and> connect_route l w (p # route) = fold_result (connect_hop l w) route d)
   \<and> (bridge_route l w hops = Inr d' \<longrightarrow> connect_route l w hops = Inr d')"
proof (intro conjI impI)
  assume "web_proxy (hop_type p) \<and> dl_web l (hop_type p) (dl_direct l) (proxy_conf w (hop_name p)) = (d, Some e)"
  then show "bridge_route l w (p # route) = Inl e" "connect_route l w (p # route) = fold_result (connect_hop l w) route d"
    by (simp_all add: bridge_route_def connect_route_def bridge_hop_def connect_hop_def)
next
  have "bridge_hop l w h x = Inr y \<Longrightarrow> connect_hop l w h x = Inr y" for h x y
    by (auto simp: bridge_hop_def connect_hop_def Let_def split: if_splits option.splits prod.splits)
  then have "fold_result (bridge_hop l w) hops x = Inr y \<Longrightarrow> fold_result (connect_hop l w) hops x = Inr y" for x y
    by (induction hops arbitrary: x) (auto split: sum.splits)
  then show "connect_route l w hops = Inr d'" if "bridge_route l w hops = Inr d'"
    using that by (simp add: bridge_route_def connect_route_def)
qed

section \<open>Control connections\<close>

text \<open>A direct connection neither is nor uses a control connection, whatever is configured.\<close>

lemma direct_connection_plan:
  "cn_master (connect_plan_of m w master server True) = ''no'' \<and> \<not> cn_reuse (connect_plan_of m w master server True)
   \<and> (cn_reuse (connect_plan_of m w master server b) \<longrightarrow> cn_master (connect_plan_of m w master server b) = ''auto'')"
  by (cases b; cases master) (auto simp: connect_plan_of_def Let_def effective_server_config_def set_master_def no_persist_def
      conf_bool_def conf_int_def)

end
