(* ===== verification/Go_HostPort.thy ===== *)
theory Go_HostPort
  imports Go_Base
begin

text \<open>\<open>net.SplitHostPort\<close> and \<open>net.JoinHostPort\<close> of the Go library.\<close>

definition index_char :: "char \<Rightarrow> string \<Rightarrow> nat option" where
  "index_char c s = (if c \<in> set s then Some (length (takeWhile (\<lambda>x. x \<noteq> c) s)) else None)"

definition last_index_char :: "char \<Rightarrow> string \<Rightarrow> nat option" where
  "last_index_char c s =
     (if c \<in> set s then Some (length s - 1 - length (takeWhile (\<lambda>x. x \<noteq> c) (rev s))) else None)"

definition quoted_char :: "char \<Rightarrow> string" where
  "quoted_char c = [CHR 0x27, c, CHR 0x27]"

definition addr_error :: "string \<Rightarrow> string \<Rightarrow> 'a result" where
  "addr_error addr why = errorf (''address '' @ addr @ '': '' @ why)"

text \<open>The checks at the end: no bracket behind the positions \<open>j\<close> and \<open>k\<close>; the port is behind the colon at \<open>i\<close>.\<close>

definition split_rest :: "string \<Rightarrow> nat \<Rightarrow> string \<Rightarrow> nat \<Rightarrow> nat \<Rightarrow> (string \<times> string) result" where
  "split_rest s i host j k =
     (if CHR ''['' \<in> set (drop j s) then addr_error s (''unexpected '' @ quoted_char CHR ''['' @ '' in address'')
      else if CHR '']'' \<in> set (drop k s) then addr_error s (''unexpected '' @ quoted_char CHR '']'' @ '' in address'')
      else Inr (host, drop (Suc i) s))"

definition split_host_port :: "string \<Rightarrow> (string \<times> string) result" where
  "split_host_port s =
     (case last_index_char CHR '':'' s of
        None \<Rightarrow> addr_error s ''missing port in address''
      | Some i \<Rightarrow>
          if has_prefix s ''[''
          then (case index_char CHR '']'' s of
                  None \<Rightarrow> addr_error s (''missing '' @ quoted_char CHR '']'' @ '' in address'')
                | Some e \<Rightarrow>
                    if e + 1 = length s then addr_error s ''missing port in address''
                    else if e + 1 = i then split_rest s i (drop 1 (take e s)) 1 (e + 1)
                    else if s ! (e + 1) = CHR '':'' then addr_error s ''too many colons in address''
                    else addr_error s ''missing port in address'')
          else if CHR '':'' \<in> set (take i s) then addr_error s ''too many colons in address''
          else split_rest s i (take i s) 0 0)"

definition join_host_port :: "string \<Rightarrow> string \<Rightarrow> string" where
  "join_host_port host port =
     (if CHR '':'' \<in> set host then ''['' @ host @ '']:'' @ port else host @ '':'' @ port)"

lemma last_index_char_append: "c \<notin> set b \<Longrightarrow> last_index_char c (a @ c # b) = Some (length a)"
proof -
  assume "c \<notin> set b"
  then have "takeWhile (\<lambda>x. x \<noteq> c) (rev b @ c # rev a) = rev b"
    by (subst takeWhile_append2) auto
  then show ?thesis
    by (simp add: last_index_char_def)
qed

lemma index_char_append: "c \<notin> set a \<Longrightarrow> index_char c (a @ c # b) = Some (length a)"
proof -
  assume "c \<notin> set a"
  then have "takeWhile (\<lambda>x. x \<noteq> c) (a @ c # b) = a"
    by (subst takeWhile_append2) auto
  then show ?thesis
    by (simp add: index_char_def)
qed

text \<open>A host without brackets and a port without colons and brackets are read back.\<close>

lemma split_join_host_port:
  assumes "CHR ''['' \<notin> set host" "CHR '']'' \<notin> set host" "CHR '':'' \<notin> set port" "CHR ''['' \<notin> set port" "CHR '']'' \<notin> set port"
  shows "split_host_port (join_host_port host port) = Inr (host, port)"
proof (cases "CHR '':'' \<in> set host")
  case True
  let ?s = "''['' @ host @ '']:'' @ port"
  have "last_index_char CHR '':'' ?s = Some (length host + 2)"
    using last_index_char_append[OF assms(3), of "''['' @ host @ '']''"] by simp
  moreover have "index_char CHR '']'' ?s = Some (length host + 1)"
    using index_char_append[of "CHR '']''" "''['' @ host" "'':'' @ port"] assms(2) by simp
  ultimately show ?thesis
    using True assms by (simp add: join_host_port_def split_host_port_def split_rest_def nth_append)
next
  case False
  have last: "last_index_char CHR '':'' (host @ '':'' @ port) = Some (length host)"
    using last_index_char_append[OF assms(3), of host] by simp
  have "\<not> has_prefix (host @ '':'' @ port) ''[''"
    using assms(1) by (cases host) auto
  with last False assms show ?thesis
    by (simp add: join_host_port_def split_host_port_def split_rest_def)
qed


end
