(* ===== verification/Conn_Run.thy ===== *)
theory Conn_Run
  imports Conf_Connector Cli_Spec Go_HostPort
begin

text \<open>
  Sessions through connectors, \<^verbatim>\<open>internal/ssh/connector.go\<close> with the forwards of \<^verbatim>\<open>run.go\<close>: the settings
  of a session, which forwards a connector can carry, and what is run in which order. What the
  sessions themselves do is left to the runtime; a session is an event with a result.
\<close>

section \<open>Options of a run\<close>

text \<open>The fields of \<open>Run\<close> that sessions read. \<open>ro_override\<close> gives the fields that replace a setting
  when they are not empty, by the key of the setting.\<close>

record run_options =
  ro_override :: "string \<Rightarrow> string"
  ro_forwards :: "port_forward option list"
  ro_is_none :: bool
  ro_x11 :: bool
  ro_x11_trusted :: bool
  ro_bashrc :: bool
  ro_not_bashrc :: bool
  ro_tunnel :: "(int \<times> int) option"

definition set_string :: "string \<Rightarrow> string \<Rightarrow> full_config \<Rightarrow> full_config" where
  "set_string key v c = c\<lparr>fc_values := (fc_values c)(key := V_String v)\<rparr>"

definition conf_strings :: "full_config \<Rightarrow> string \<Rightarrow> string list" where
  "conf_strings c key = (case fc_values c key of V_Strings ss \<Rightarrow> ss | _ \<Rightarrow> [])"

definition override :: "run_options \<Rightarrow> string \<Rightarrow> full_config \<Rightarrow> full_config" where
  "override r key c = (if ro_override r key \<noteq> '''' then set_string key (ro_override r key) c else c)"

text \<open>\<open>strings.ToUpper\<close>.\<close>

definition upper_char :: "char \<Rightarrow> char" where
  "upper_char c = (if 97 \<le> (of_char c :: nat) \<and> (of_char c :: nat) \<le> 122 then char_of ((of_char c :: nat) - 32) else c)"

definition to_upper :: "string \<Rightarrow> string" where
  "to_upper = map upper_char"

section \<open>Forwards\<close>

definition simple_forward :: "string \<Rightarrow> string \<Rightarrow> string \<Rightarrow> port_forward" where
  "simple_forward mode loc rem =
     \<lparr>pf_mode = mode, pf_local_network = '''', pf_local = loc, pf_remote_network = '''', pf_remote = rem\<rparr>"

text \<open>One entry of \<open>port_forwards\<close>; what cannot be read is skipped with a message.\<close>

definition read_forward :: "string \<Rightarrow> port_forward option list" where
  "read_forward f =
     (case split_at CHR '':'' f of
        None \<Rightarrow> []
      | Some (a, b) \<Rightarrow>
          (let mode = to_lower a;
               forward = (\<lambda>m. case parse_forward_port b of Inl e \<Rightarrow> [] | Inr (l, r) \<Rightarrow> [Some (simple_forward m l r)])
           in if mode \<in> set [''local'', ''l''] then forward ''L''
              else if mode \<in> set [''remote'', ''r''] then forward ''R'' else []))"

definition set_port_forwards :: "run_options \<Rightarrow> full_config \<Rightarrow> full_config" where
  "set_port_forwards r c =
     (let single = (if conf_string c ''port_forward_local'' \<noteq> '''' \<and> conf_string c ''port_forward_remote'' \<noteq> ''''
                    then [Some (simple_forward (conf_string c ''port_forward'') (conf_string c ''port_forward_local'')
                            (conf_string c ''port_forward_remote''))] else [])
      in c\<lparr>fc_forwards := fc_forwards c @ single @ concat (map read_forward (conf_strings c ''port_forwards''))
             @ ro_forwards r\<rparr>)"

definition is_remote :: "port_forward \<Rightarrow> bool" where
  "is_remote fw = (to_upper (pf_mode fw) = ''R'')"

text \<open>\<open>startPortForward\<close>: which side listens, and the networks and ends.\<close>

datatype forward_start = Start_Nothing | Start_Local string string string string | Start_Remote string string string string

definition start_port_forward :: "port_forward option \<Rightarrow> forward_start" where
  "start_port_forward fw =
     (case fw of None \<Rightarrow> Start_Nothing
      | Some fw \<Rightarrow>
          (let ln = (if pf_local_network fw = '''' then ''tcp'' else pf_local_network fw);
               rn = (if pf_remote_network fw = '''' then ''tcp'' else pf_remote_network fw)
           in if is_remote fw then Start_Remote ln (pf_local fw) rn (pf_remote fw)
              else Start_Local ln (pf_local fw) rn (pf_remote fw)))"

section \<open>Parallel sessions\<close>

definition parallel_ignored_features :: "run_options \<Rightarrow> full_config \<Rightarrow> string list" where
  "parallel_ignored_features r s =
     (let c = foldl (\<lambda>c key. override r key c) (set_port_forwards r s)
            [''dynamic_port_forward'', ''http_dynamic_port_forward'', ''nfs_dynamic_forward'', ''nfs_dynamic_forward_path'',
             ''smb_dynamic_forward'', ''smb_dynamic_forward_path''];
          get = conf_string c
      in concat (map (\<lambda>fw. case fw of None \<Rightarrow> [] | Some fw \<Rightarrow>
             if is_remote fw then [] else [''-L '' @ pf_local fw @ '':'' @ pf_remote fw]) (fc_forwards c))
         @ (if get ''dynamic_port_forward'' \<noteq> '''' then [''-D '' @ get ''dynamic_port_forward''] else [])
         @ (if get ''http_dynamic_port_forward'' \<noteq> '''' then [''-d '' @ get ''http_dynamic_port_forward''] else [])
         @ (if get ''nfs_dynamic_forward'' \<noteq> '''' \<and> get ''nfs_dynamic_forward_path'' \<noteq> ''''
            then [''-M '' @ get ''nfs_dynamic_forward'' @ '':'' @ get ''nfs_dynamic_forward_path''] else [])
         @ (if get ''smb_dynamic_forward'' \<noteq> '''' \<and> get ''smb_dynamic_forward_path'' \<noteq> ''''
            then [''-S '' @ get ''smb_dynamic_forward'' @ '':'' @ get ''smb_dynamic_forward_path''] else [])
         @ (case ro_tunnel r of None \<Rightarrow> [] | Some (a, b) \<Rightarrow> [''--tunnel '' @ itoa a @ '':'' @ itoa b]))"

definition prepare_parallel_forward_config :: "run_options \<Rightarrow> full_config \<Rightarrow> full_config" where
  "prepare_parallel_forward_config r s =
     (let c = foldl (\<lambda>c key. override r key c) (set_port_forwards r s)
            [''reverse_dynamic_port_forward'', ''http_reverse_dynamic_port_forward'', ''nfs_reverse_dynamic_forward'',
             ''nfs_reverse_dynamic_forward_path'', ''smb_reverse_dynamic_forward'', ''smb_reverse_dynamic_forward_path''];
          c = c\<lparr>fc_forwards := filter (\<lambda>fw. case fw of None \<Rightarrow> False | Some fw \<Rightarrow> is_remote fw) (fc_forwards c)\<rparr>
      in foldl (\<lambda>c key. set_string key '''' c) c
           [''dynamic_port_forward'', ''http_dynamic_port_forward'', ''nfs_dynamic_forward'', ''nfs_dynamic_forward_path'',
            ''smb_dynamic_forward'', ''smb_dynamic_forward_path''])"

section \<open>The settings of a session\<close>

definition resolve_shell_config :: "run_options \<Rightarrow> full_config \<Rightarrow> full_config" where
  "resolve_shell_config r s =
     (let c = foldl (\<lambda>c key. override r key c) (set_port_forwards r s)
            [''dynamic_port_forward'', ''reverse_dynamic_port_forward'', ''http_dynamic_port_forward'',
             ''http_reverse_dynamic_port_forward'', ''nfs_dynamic_forward'', ''nfs_dynamic_forward_path'',
             ''smb_dynamic_forward'', ''smb_dynamic_forward_path'', ''nfs_reverse_dynamic_forward'',
             ''nfs_reverse_dynamic_forward_path'', ''smb_reverse_dynamic_forward'', ''smb_reverse_dynamic_forward_path''];
          c = (if ro_bashrc r then set_string ''local_rc'' ''yes'' c else c)
      in if ro_not_bashrc r then set_string ''local_rc'' ''no'' c else c)"

definition connector_has_forwarding :: "full_config \<Rightarrow> bool" where
  "connector_has_forwarding c =
     (fc_forwards c \<noteq> [] \<or> list_ex (\<lambda>key. conf_string c key \<noteq> '''')
        [''dynamic_port_forward'', ''reverse_dynamic_port_forward'', ''http_dynamic_port_forward'',
         ''http_reverse_dynamic_port_forward'', ''nfs_dynamic_forward'', ''nfs_reverse_dynamic_forward'',
         ''smb_dynamic_forward'', ''smb_reverse_dynamic_forward''])"

definition forwarding_shares_shell :: "run_options \<Rightarrow> full_config \<Rightarrow> prepared \<Rightarrow> bool" where
  "forwarding_shares_shell r c p =
     (let dynamic = trim_space (conf_string c ''dynamic_port_forward'') \<noteq> '''';
          http = trim_space (conf_string c ''http_dynamic_port_forward'') \<noteq> ''''
      in if ro_is_none r then False
         else if \<not> pd_shared_forward p then False
         else if dynamic \<and> http then False
         else (dynamic \<or> http) \<and> fc_forwards c = []
              \<and> list_all (\<lambda>key. conf_string c key = '''')
                  [''reverse_dynamic_port_forward'', ''http_reverse_dynamic_port_forward'', ''nfs_dynamic_forward'',
                   ''nfs_reverse_dynamic_forward'', ''smb_dynamic_forward'', ''smb_reverse_dynamic_forward''])"

definition connector_forward_mode :: "full_config \<Rightarrow> string result" where
  "connector_forward_mode c =
     (let loc = fc_forwards c \<noteq> [];
          dynamic = trim_space (conf_string c ''dynamic_port_forward'') \<noteq> '''';
          http = trim_space (conf_string c ''http_dynamic_port_forward'') \<noteq> '''';
          given = (\<lambda>key. conf_string c key \<noteq> '''')
      in if loc \<and> (dynamic \<or> http) then errorf ''combining local (-L) and dynamic (-D/-d) port forwarding is not supported''
         else if dynamic \<and> http then errorf ''combining dynamic (-D) and http dynamic (-d) port forwarding is not supported''
         else if given ''reverse_dynamic_port_forward''
         then errorf ''reverse dynamic port forwarding (-R port) is not supported yet''
         else if given ''http_dynamic_port_forward'' then Inr ''http-dynamic''
         else if given ''http_reverse_dynamic_port_forward''
         then errorf ''http reverse dynamic port forwarding (-r) is not supported yet''
         else if given ''nfs_dynamic_forward'' \<or> given ''nfs_dynamic_forward_path''
         then errorf ''nfs dynamic forwarding (-M) is not supported yet''
         else if given ''nfs_reverse_dynamic_forward'' \<or> given ''nfs_reverse_dynamic_forward_path''
         then errorf ''nfs reverse dynamic forwarding (-m) is not supported yet''
         else if given ''smb_dynamic_forward'' \<or> given ''smb_dynamic_forward_path''
         then errorf ''smb dynamic forwarding (-S) is not supported yet''
         else if given ''smb_reverse_dynamic_forward'' \<or> given ''smb_reverse_dynamic_forward_path''
         then errorf ''smb reverse dynamic forwarding (-s) is not supported yet''
         else if loc then Inr ''local''
         else if dynamic then Inr ''dynamic''
         else errorf ''forwarding is not configured'')"

text \<open>The two specifications of ports on this machine.\<close>

definition dynamic_forward_spec :: "full_config \<Rightarrow> string result" where
  "dynamic_forward_spec c =
     (let port = trim_space (conf_string c ''dynamic_port_forward'')
      in if port = '''' then errorf ''dynamic port forwarding is not configured''
         else (case atoi port of
                 None \<Rightarrow> errorf (''dynamic port forwarding port '' @ quoted_text port @ '' is invalid'')
               | Some n \<Rightarrow> Inr port))"

definition http_dynamic_forward_spec :: "full_config \<Rightarrow> string result" where
  "http_dynamic_forward_spec c =
     (let port = trim_space (conf_string c ''http_dynamic_port_forward'')
      in if port = '''' then errorf ''http dynamic port forwarding is not configured''
         else (case atoi port of
                 None \<Rightarrow> errorf (''http dynamic port forwarding port '' @ quoted_text port @ '' is invalid'')
               | Some n \<Rightarrow> Inr port))"

record local_spec =
  ls_local :: string
  ls_remote :: string
  ls_listen_host :: string
  ls_listen_port :: string
  ls_target_host :: string
  ls_target_port :: string

definition wrap_error :: "string \<Rightarrow> 'a result \<Rightarrow> 'a result" where
  "wrap_error text r = (case r of Inl e \<Rightarrow> Inl (Go_Error (err_not_exist e) (text @ err_message e)) | Inr x \<Rightarrow> Inr x)"

definition local_forward_spec :: "full_config \<Rightarrow> local_spec result" where
  "local_forward_spec c =
     (if list_ex (\<lambda>key. conf_string c key \<noteq> '''')
           [''dynamic_port_forward'', ''reverse_dynamic_port_forward'', ''http_dynamic_port_forward'',
            ''http_reverse_dynamic_port_forward'', ''nfs_dynamic_forward'', ''nfs_reverse_dynamic_forward'',
            ''smb_dynamic_forward'', ''smb_reverse_dynamic_forward'']
      then errorf ''only simple local tcp port forwarding is supported''
      else (case fc_forwards c of
              [fw] \<Rightarrow>
                (case fw of
                   None \<Rightarrow> errorf ''local port forward is not configured''
                 | Some fw \<Rightarrow>
                     if to_upper (pf_mode fw) \<noteq> ''L'' then errorf ''only local port forwarding is supported''
                     else if pf_local_network fw \<noteq> '''' \<and> pf_local_network fw \<noteq> ''tcp''
                     then errorf (''local port forward network '' @ quoted_text (pf_local_network fw) @ '' is not supported'')
                     else if pf_remote_network fw \<noteq> '''' \<and> pf_remote_network fw \<noteq> ''tcp''
                     then errorf (''remote port forward network '' @ quoted_text (pf_remote_network fw) @ '' is not supported'')
                     else (case wrap_error (''invalid local port forward endpoint '' @ quoted_text (pf_local fw) @ '': '')
                                  (split_host_port (pf_local fw)) of
                             Inl e \<Rightarrow> Inl e
                           | Inr (lh, lp) \<Rightarrow>
                               (case wrap_error (''invalid remote port forward endpoint '' @ quoted_text (pf_remote fw) @ '': '')
                                       (split_host_port (pf_remote fw)) of
                                  Inl e \<Rightarrow> Inl e
                                | Inr (th, tp) \<Rightarrow>
                                    Inr \<lparr>ls_local = pf_local fw, ls_remote = pf_remote fw, ls_listen_host = lh, ls_listen_port = lp,
                                         ls_target_host = th, ls_target_port = tp\<rparr>)))
            | _ \<Rightarrow> errorf ''exactly one local port forward is required''))"

definition local_rc_enabled :: "run_options \<Rightarrow> full_config \<Rightarrow> bool" where
  "local_rc_enabled r c =
     (if ro_not_bashrc r then False else if ro_bashrc r then True else conf_string c ''local_rc'' = ''yes'')"

definition plan_supports_local_rc :: "prepared \<Rightarrow> bool" where
  "plan_supports_local_rc p = (pd_local_rc p \<or> pd_managed_ssh p)"

section \<open>Operations\<close>

definition operation :: "string \<Rightarrow> connector_operation" where
  "operation name = \<lparr>co_name = name, co_command = [], co_options = []\<rparr>"

text \<open>\<open>prepareConnectorOperation\<close>, whose check does not trim the name.\<close>

definition prepare_connector_operation :: "provider_calls \<Rightarrow> site \<Rightarrow> string \<Rightarrow> connector_operation \<Rightarrow> prepared result" where
  "prepare_connector_operation p c server op =
     (if built_in_name (connector_name_of p c server)
      then errorf (''server '' @ quoted_text server @ '' does not use an external connector'')
      else prepare_connector_runtime p c server op)"

definition unsupported :: "string \<Rightarrow> prepared \<Rightarrow> go_error" where
  "unsupported server q =
     Go_Error False (''server '' @ quoted_text server @ '' connector '' @ quoted_text (pd_connector q) @ '': '' @ pd_reason q)"

definition prepare_dial_transport :: "provider_calls \<Rightarrow> site \<Rightarrow> string \<Rightarrow> string \<Rightarrow> string \<Rightarrow> prepared result" where
  "prepare_dial_transport p c server host port =
     (case prepare_connector_operation p c server
             (operation ''tcp_dial_transport''\<lparr>co_options := [(''target_host'', D_String host), (''target_port'', D_String port)]\<rparr>) of
        Inl e \<Rightarrow> Inl e
      | Inr q \<Rightarrow> if \<not> pd_supported q then Inl (unsupported server q) else Inr q)"

text \<open>\<open>dialConnectorTarget\<close> up to the dialling itself.\<close>

datatype dial_way = Dial_Managed | Dial_Provider connector_plan

definition dial_connector_target :: "provider_calls \<Rightarrow> site \<Rightarrow> string \<Rightarrow> string \<Rightarrow> string \<Rightarrow> dial_way result" where
  "dial_connector_target p c server net address =
     (let net = (if net = '''' then ''tcp'' else net)
      in if net \<noteq> ''tcp'' then errorf ''connector dial transport supports only tcp network''
         else (case wrap_error (''invalid dial target '' @ quoted_text address @ '': '') (split_host_port address) of
                 Inl e \<Rightarrow> Inl e
               | Inr (host, port) \<Rightarrow>
                   (case prepare_dial_transport p c server host port of
                      Inl e \<Rightarrow> Inl e
                    | Inr q \<Rightarrow>
                        if pd_managed_ssh q then Inr Dial_Managed
                        else (case pd_provider_plan q of
                                Some plan \<Rightarrow> Inr (Dial_Provider plan)
                              | None \<Rightarrow>
                                  let who = ''server '' @ quoted_text server @ '' connector '' @ quoted_text (pd_connector q)
                                  in if pd_kind q \<noteq> '''' then errorf (who @ '' returned unsupported dial plan kind '' @ quoted_text (pd_kind q))
                                     else errorf (who @ '' returned unsupported dial runtime'')))))"

section \<open>Sessions\<close>

text \<open>What a session runs, in order. The runtime gives each its result.\<close>

datatype session_event =
    Local_Command string
  | Command_Shell command_plan
  | Managed_Shell
  | Provider_Shell connector_plan bool    \<comment> \<open>with a startup command for the local rc files\<close>
  | Managed_Forward "port_forward option list"
  | Socks_Server string
  | Http_Server string

type_synonym runtime = "session_event \<Rightarrow> go_error option"
type_synonym session = "session_event list \<times> go_error option"

definition refuse :: "string \<Rightarrow> session" where
  "refuse text = ([], Some (Go_Error False text))"

definition run_event :: "runtime \<Rightarrow> session_event \<Rightarrow> session" where
  "run_event rt e = ([e], rt e)"

definition with_pre_post :: "full_config \<Rightarrow> session \<Rightarrow> session" where
  "with_pre_post c s =
     ((if conf_string c ''pre_cmd'' \<noteq> '''' then [Local_Command (conf_string c ''pre_cmd'')] else []) @ fst s
      @ (if conf_string c ''post_cmd'' \<noteq> '''' then [Local_Command (conf_string c ''post_cmd'')] else []), snd s)"

definition run_command_plan :: "runtime \<Rightarrow> command_plan \<Rightarrow> session" where
  "run_command_plan rt plan =
     (if trim_space (cp_program plan) = '''' then refuse ''connector command plan is missing program''
      else run_event rt (Command_Shell plan))"

definition who :: "string \<Rightarrow> string \<Rightarrow> string" where
  "who server connector = ''server '' @ quoted_text server @ '' uses connector '' @ quoted_text connector @ ''; ''"

definition bad_plan :: "string \<Rightarrow> prepared \<Rightarrow> session" where
  "bad_plan server q =
     refuse (''server '' @ quoted_text server @ '' connector '' @ quoted_text (pd_connector q)
       @ '' returned unsupported plan kind '' @ quoted_text (pd_kind q))"

definition run_shell_only :: "runtime \<Rightarrow> run_options \<Rightarrow> string \<Rightarrow> full_config \<Rightarrow> prepared \<Rightarrow> session" where
  "run_shell_only rt r server c q =
     (if \<not> pd_supported q then ([], Some (unsupported server q))
      else if local_rc_enabled r c \<and> \<not> plan_supports_local_rc q
      then refuse (who server (pd_connector q) @ ''localrc is not supported'')
      else with_pre_post c
        (case pd_command q of
           Some plan \<Rightarrow> run_command_plan rt plan
         | None \<Rightarrow>
             if pd_managed_ssh q then run_event rt Managed_Shell
             else (case pd_provider_plan q of
                     Some plan \<Rightarrow> run_event rt (Provider_Shell plan (local_rc_enabled r c))
                   | None \<Rightarrow> bad_plan server q)))"

text \<open>The two proxy servers, started once their port is valid and the connector can dial.\<close>

definition proxy_session ::
    "runtime \<Rightarrow> provider_calls \<Rightarrow> site \<Rightarrow> run_options \<Rightarrow> string \<Rightarrow> full_config \<Rightarrow> string \<Rightarrow> string result
      \<Rightarrow> string \<Rightarrow> (string \<Rightarrow> session_event) \<Rightarrow> session" where
  "proxy_session rt p site r server c connector spec kind event =
     (case wrap_error (who server connector) spec of
        Inl e \<Rightarrow> ([], Some e)
      | Inr port \<Rightarrow>
          if ro_x11 r \<or> ro_x11_trusted r
          then refuse (who server connector @ ''X11 forwarding is not supported with '' @ kind @ '' port forwarding'')
          else (case prepare_dial_transport p site server ''example.com'' ''80'' of
                  Inl e \<Rightarrow> ([], Some e)
                | Inr q \<Rightarrow> run_event rt (event port)))"

definition dynamic_session ::
    "runtime \<Rightarrow> provider_calls \<Rightarrow> site \<Rightarrow> run_options \<Rightarrow> string \<Rightarrow> full_config \<Rightarrow> string \<Rightarrow> session" where
  "dynamic_session rt p site r server c connector =
     proxy_session rt p site r server c connector (dynamic_forward_spec c) ''dynamic'' Socks_Server"

definition http_dynamic_session ::
    "runtime \<Rightarrow> provider_calls \<Rightarrow> site \<Rightarrow> run_options \<Rightarrow> string \<Rightarrow> full_config \<Rightarrow> string \<Rightarrow> session" where
  "http_dynamic_session rt p site r server c connector =
     proxy_session rt p site r server c connector (http_dynamic_forward_spec c) ''http dynamic'' Http_Server"

definition run_local_port_forward ::
    "runtime \<Rightarrow> provider_calls \<Rightarrow> site \<Rightarrow> run_options \<Rightarrow> string \<Rightarrow> full_config \<Rightarrow> string \<Rightarrow> session" where
  "run_local_port_forward rt p site r server c connector =
     (case wrap_error (who server connector) (local_forward_spec c) of
        Inl e \<Rightarrow> ([], Some e)
      | Inr spec \<Rightarrow>
          if ro_x11 r \<or> ro_x11_trusted r
          then refuse (who server connector @ ''X11 forwarding is not supported with local port forwarding'')
          else (case prepare_connector_operation p site server
                       (operation ''port_forward_local''\<lparr>co_options :=
                          [(''listen_host'', D_String (ls_listen_host spec)), (''listen_port'', D_String (ls_listen_port spec)),
                           (''target_host'', D_String (ls_target_host spec)), (''target_port'', D_String (ls_target_port spec))]\<rparr>) of
                  Inl e \<Rightarrow> ([], Some e)
                | Inr q \<Rightarrow>
                    if \<not> pd_supported q then ([], Some (unsupported server q))
                    else with_pre_post c
                      (case pd_command q of
                         Some plan \<Rightarrow> run_command_plan rt plan
                       | None \<Rightarrow> if pd_managed_ssh q then run_event rt (Managed_Forward (fc_forwards c)) else bad_plan server q)))"

definition run_forwarding ::
    "runtime \<Rightarrow> provider_calls \<Rightarrow> site \<Rightarrow> run_options \<Rightarrow> string \<Rightarrow> full_config \<Rightarrow> string \<Rightarrow> session" where
  "run_forwarding rt p site r server c connector =
     (case wrap_error (who server connector) (connector_forward_mode c) of
        Inl e \<Rightarrow> ([], Some e)
      | Inr mode \<Rightarrow>
          if mode = ''local'' then run_local_port_forward rt p site r server c connector
          else if mode = ''dynamic'' then with_pre_post c (dynamic_session rt p site r server c connector)
          else if mode = ''http-dynamic'' then with_pre_post c (http_dynamic_session rt p site r server c connector)
          else refuse (who server connector @ ''unsupported forwarding mode '' @ quoted_text mode))"

text \<open>The shell with a proxy server beside it, which is stopped when the shell ends; its events are listed
  before those of the shell.\<close>

definition run_shared_forwarding ::
    "runtime \<Rightarrow> provider_calls \<Rightarrow> site \<Rightarrow> run_options \<Rightarrow> string \<Rightarrow> full_config \<Rightarrow> prepared \<Rightarrow> session" where
  "run_shared_forwarding rt p site r server c q =
     (if \<not> pd_supported q then ([], Some (unsupported server q))
      else if local_rc_enabled r c \<and> \<not> plan_supports_local_rc q
      then refuse (who server (pd_connector q) @ ''localrc is not supported'')
      else with_pre_post c
        (let forward = (if trim_space (conf_string c ''dynamic_port_forward'') \<noteq> ''''
                        then dynamic_session rt p site r server c (pd_connector q)
                        else if trim_space (conf_string c ''http_dynamic_port_forward'') \<noteq> ''''
                        then http_dynamic_session rt p site r server c (pd_connector q) else ([], None));
             shell = (if pd_managed_ssh q then Some (run_event rt Managed_Shell)
                      else map_option (\<lambda>plan. run_event rt (Provider_Shell plan (local_rc_enabled r c))) (pd_provider_plan q))
         in case shell of
              None \<Rightarrow> (fst forward, Some (Go_Error False
                 (''connector '' @ quoted_text (pd_connector q) @ '' is not supported in the core runtime yet'')))
            | Some (events, e) \<Rightarrow> (fst forward @ events, (case e of Some e \<Rightarrow> Some e | None \<Rightarrow> snd forward))))"

definition run_connector_shell ::
    "runtime \<Rightarrow> provider_calls \<Rightarrow> site \<Rightarrow> run_options \<Rightarrow> string \<Rightarrow> session" where
  "run_connector_shell rt p site r server =
     (let c = resolve_shell_config r (case map_of (st_server site) server of None \<Rightarrow> zero_config | Some s \<Rightarrow> s)
      in case prepare_connector_operation p site server (operation ''shell'') of
           Inl e \<Rightarrow> ([], Some e)
         | Inr q \<Rightarrow>
             if built_in_name (pd_connector q)
             then refuse (''server '' @ quoted_text server @ '' does not use an external connector'')
             else if ro_tunnel r \<noteq> None then refuse (who server (pd_connector q) @ ''ssh tunnel devices are not supported'')
             else if connector_has_forwarding c
             then (if forwarding_shares_shell r c q then run_shared_forwarding rt p site r server c q
                   else run_forwarding rt p site r server c (pd_connector q))
             else run_shell_only rt r server c q)"

text \<open>\<open>runConnectorCommandOperation\<close>: what is executed.\<close>

datatype exec_way = Exec_Command command_plan | Exec_Managed | Exec_Provider connector_plan

definition run_connector_command :: "provider_calls \<Rightarrow> site \<Rightarrow> string \<Rightarrow> connector_operation \<Rightarrow> exec_way result" where
  "run_connector_command p site server op =
     (case prepare_connector_operation p site server op of
        Inl e \<Rightarrow> Inl e
      | Inr q \<Rightarrow>
          if \<not> pd_supported q then Inl (unsupported server q)
          else (case pd_command q of
                  Some plan \<Rightarrow> if trim_space (cp_program plan) = '''' then errorf ''connector command plan is missing program''
                               else Inr (Exec_Command plan)
                | None \<Rightarrow>
                    if pd_managed_ssh q then Inr Exec_Managed
                    else (case pd_provider_plan q of
                            Some plan \<Rightarrow> Inr (Exec_Provider plan)
                          | None \<Rightarrow> errorf (''connector '' @ quoted_text (pd_connector q) @ '' does not support exec in the core runtime yet''))))"

section \<open>Which forwards a connector carries\<close>

definition unsupported_keys :: "string list" where
  "unsupported_keys =
     [''reverse_dynamic_port_forward'', ''http_reverse_dynamic_port_forward'', ''nfs_dynamic_forward'', ''nfs_dynamic_forward_path'',
      ''nfs_reverse_dynamic_forward'', ''nfs_reverse_dynamic_forward_path'', ''smb_dynamic_forward'', ''smb_dynamic_forward_path'',
      ''smb_reverse_dynamic_forward'', ''smb_reverse_dynamic_forward_path'']"

lemma forward_chain:
  assumes "hp \<longrightarrow> h"
    and "m = (if l \<and> (d \<or> hp) then Inl e1 else if d \<and> hp then Inl e2 else if a then Inl e3 else if h then Inr ''http-dynamic''
      else if b then Inl e4 else if n1 \<or> n2 then Inl e5 else if n3 \<or> n4 then Inl e6 else if s1 \<or> s2 then Inl e7
      else if s3 \<or> s4 then Inl e8 else if l then Inr ''local'' else if d then Inr ''dynamic'' else Inl e9)"
  shows "(m = Inr ''local'' \<longleftrightarrow> l \<and> \<not> d \<and> \<not> h \<and> \<not> a \<and> \<not> b \<and> \<not> n1 \<and> \<not> n2 \<and> \<not> n3 \<and> \<not> n4 \<and> \<not> s1 \<and> \<not> s2 \<and> \<not> s3 \<and> \<not> s4)
    \<and> (m = Inr ''dynamic'' \<longleftrightarrow> \<not> l \<and> d \<and> \<not> h \<and> \<not> a \<and> \<not> b \<and> \<not> n1 \<and> \<not> n2 \<and> \<not> n3 \<and> \<not> n4 \<and> \<not> s1 \<and> \<not> s2 \<and> \<not> s3 \<and> \<not> s4)
    \<and> (m = Inr ''http-dynamic'' \<longleftrightarrow> h \<and> \<not> a \<and> \<not> (l \<and> (d \<or> hp)) \<and> \<not> (d \<and> hp))
    \<and> m \<in> range Inl \<union> Inr ` {''local'', ''dynamic'', ''http-dynamic''}"
proof -
  have ends: "(if p then Inl e else x) \<in> range Inl \<longleftrightarrow> p \<or> x \<in> range Inl" for p and e :: 'a and x :: "'a + string"
    by simp
  consider (refused) "l \<and> (d \<or> hp) \<or> d \<and> hp \<or> a" | (http) "\<not> (l \<and> (d \<or> hp))" "\<not> (d \<and> hp)" "\<not> a" "h"
    | (others) "\<not> a" "\<not> h" "b \<or> n1 \<or> n2 \<or> n3 \<or> n4 \<or> s1 \<or> s2 \<or> s3 \<or> s4" "\<not> (l \<and> (d \<or> hp))" "\<not> (d \<and> hp)"
    | (plain) "\<not> (l \<and> (d \<or> hp))" "\<not> (d \<and> hp)" "\<not> a" "\<not> h" "\<not> b" "\<not> n1" "\<not> n2" "\<not> n3" "\<not> n4" "\<not> s1" "\<not> s2" "\<not> s3" "\<not> s4"
    by argo
  then show ?thesis
  proof cases
    case refused
    then have "m \<in> range Inl"
      unfolding assms(2) ends by argo
    with refused assms(1) show ?thesis
      by auto
  next
    case http
    then show ?thesis
      unfolding assms(2) by simp
  next
    case others
    then have "m \<in> range Inl"
      by (simp only: assms(2) ends if_False) argo
    with others show ?thesis
      by auto
  next
    case plain
    then show ?thesis
      unfolding assms(2) using assms(1) by auto
  qed
qed

text \<open>
  Local forwards and the SOCKS server need that nothing else is asked for; the HTTP proxy is chosen even
  when forwards that cannot be carried are configured too, and these are then left out without a word.
\<close>

theorem connector_forward_mode_spec:
  "(let loc = fc_forwards c \<noteq> [];
        dynamic = trim_space (conf_string c ''dynamic_port_forward'') \<noteq> '''';
        http = conf_string c ''http_dynamic_port_forward'' \<noteq> '''';
        http_port = trim_space (conf_string c ''http_dynamic_port_forward'') \<noteq> '''';
        none_else = list_all (\<lambda>key. conf_string c key = '''') unsupported_keys
    in (connector_forward_mode c = Inr ''local'' \<longleftrightarrow> loc \<and> \<not> dynamic \<and> \<not> http \<and> none_else)
     \<and> (connector_forward_mode c = Inr ''dynamic'' \<longleftrightarrow> \<not> loc \<and> dynamic \<and> \<not> http \<and> none_else)
     \<and> (connector_forward_mode c = Inr ''http-dynamic'' \<longleftrightarrow>
          http \<and> conf_string c ''reverse_dynamic_port_forward'' = '''' \<and> \<not> (loc \<and> (dynamic \<or> http_port)) \<and> \<not> (dynamic \<and> http_port))
     \<and> connector_forward_mode c \<in> range Inl \<union> Inr ` {''local'', ''dynamic'', ''http-dynamic''})"
proof -
  have blank: "trim_space '''' = ''''"
    by code_simp
  then have "trim_space (conf_string c ''http_dynamic_port_forward'') \<noteq> '''' \<longrightarrow> conf_string c ''http_dynamic_port_forward'' \<noteq> ''''"
    by metis
  note chain = forward_chain[OF this connector_forward_mode_def[of c, unfolded Let_def errorf_def]]
  show ?thesis
    using chain unfolding unsupported_keys_def Let_def list.pred_inject(2) eqTrueI[OF list.pred_inject(1)] simp_thms not_not by (elim conjE) (intro conjI; assumption)
qed

section \<open>Settings\<close>

lemma conf_string_override:
  "conf_string (override r key' c) key = (if key = key' \<and> ro_override r key' \<noteq> '''' then ro_override r key' else conf_string c key)"
  by (simp add: override_def set_string_def conf_string_def)

lemma fc_forwards_override [simp]:
  "fc_forwards (override r key c) = fc_forwards c" "fc_forwards (set_string key v c) = fc_forwards c"
  by (simp_all add: override_def set_string_def)

lemma forwards_foldl [simp]:
  "fc_forwards (foldl (\<lambda>c key. override r key c) c keys) = fc_forwards c"
  "fc_forwards (foldl (\<lambda>c key. set_string key v c) c keys) = fc_forwards c"
  by (induction keys arbitrary: c) simp_all

lemma conf_string_overrides:
  "conf_string (foldl (\<lambda>c key. override r key c) c keys) key =
     (if key \<in> set keys \<and> ro_override r key \<noteq> '''' then ro_override r key else conf_string c key)"
  by (induction keys arbitrary: c) (auto simp: conf_string_override)

lemma conf_string_set: "conf_string (set_string key' v c) key = (if key = key' then v else conf_string c key)"
  by (simp add: conf_string_def set_string_def)

text \<open>
  In parallel sessions every forward is either started from the far side or named as ignored, and
  nothing that listens on this machine is started.
\<close>

theorem parallel_forwards_split:
  "(let all_forwards = fc_forwards (set_port_forwards r s);
        here = filter (\<lambda>fw. \<not> is_remote fw) (concat (map (\<lambda>fw. case fw of None \<Rightarrow> [] | Some fw \<Rightarrow> [fw]) all_forwards));
        kept = fc_forwards (prepare_parallel_forward_config r s)
    in mset (filter (\<lambda>fw. fw \<noteq> None) all_forwards) = mset (map Some here) + mset kept
     \<and> list_all (\<lambda>fw. case start_port_forward fw of Start_Remote _ _ _ _ \<Rightarrow> True | _ \<Rightarrow> False) kept
     \<and> prefix (map (\<lambda>fw. ''-L '' @ pf_local fw @ '':'' @ pf_remote fw) here) (parallel_ignored_features r s)
     \<and> list_all (\<lambda>key. conf_string (prepare_parallel_forward_config r s) key = '''')
          [''dynamic_port_forward'', ''http_dynamic_port_forward'', ''nfs_dynamic_forward'', ''smb_dynamic_forward''])"
proof -
  let ?all = "fc_forwards (set_port_forwards r s)"
  let ?some = "\<lambda>fw. case fw of None \<Rightarrow> [] | Some fw \<Rightarrow> [fw]"
  have kept: "fc_forwards (prepare_parallel_forward_config r s)
      = filter (\<lambda>fw. case fw of None \<Rightarrow> False | Some fw \<Rightarrow> is_remote fw) ?all"
    by (simp add: prepare_parallel_forward_config_def Let_def)
  have "mset (filter (\<lambda>fw. fw \<noteq> None) fs) = mset (map Some (filter (\<lambda>fw. \<not> is_remote fw) (concat (map ?some fs))))
      + mset (filter (\<lambda>fw. case fw of None \<Rightarrow> False | Some fw \<Rightarrow> is_remote fw) fs)" for fs
    by (induction fs) (auto split: option.split)
  moreover have "list_all (\<lambda>fw. case start_port_forward fw of Start_Remote _ _ _ _ \<Rightarrow> True | _ \<Rightarrow> False)
      (filter (\<lambda>fw. case fw of None \<Rightarrow> False | Some fw \<Rightarrow> is_remote fw) fs)" for fs
    by (induction fs) (auto simp: start_port_forward_def split: option.split)
  moreover have "concat (map (\<lambda>fw. case fw of None \<Rightarrow> [] | Some fw \<Rightarrow>
             if is_remote fw then [] else [''-L '' @ pf_local fw @ '':'' @ pf_remote fw]) fs)
      = map (\<lambda>fw. ''-L '' @ pf_local fw @ '':'' @ pf_remote fw) (filter (\<lambda>fw. \<not> is_remote fw) (concat (map ?some fs)))" for fs
    by (induction fs) (auto split: option.split)
  ultimately show ?thesis
    unfolding Let_def kept
    by (auto simp: parallel_ignored_features_def prepare_parallel_forward_config_def Let_def conf_string_set)
qed

section \<open>Dialling\<close>

lemma prepared_operation:
  assumes "prepare_connector_operation p c server op = Inr q"
  shows "\<exists>r name. q = prepared_connector_from_provider r name op \<and> \<not> built_in_name name"
  using assms prepared_runtime by (auto simp: prepare_connector_operation_def errorf_def split: if_splits)

text \<open>A connection for another connection is never a managed one, so dialling never calls itself.\<close>

theorem dial_never_managed:
  "dial_connector_target p c server net address \<noteq> Inr Dial_Managed"
proof -
  have "\<not> pd_managed_ssh q" if "prepare_dial_transport p c server host port = Inr q" for host port q
    using that prepared_operation by (fastforce simp: prepare_dial_transport_def operation_def prepared_connector_from_provider_def
        managed_ssh_plan_def Let_def split: sum.splits if_splits)
  then show ?thesis
    by (auto simp: dial_connector_target_def errorf_def Let_def split: if_splits sum.splits option.splits)
qed

section \<open>Local commands around a session\<close>

definition pre_events :: "full_config \<Rightarrow> session_event list" where
  "pre_events c = (if conf_string c ''pre_cmd'' \<noteq> '''' then [Local_Command (conf_string c ''pre_cmd'')] else [])"

definition post_events :: "full_config \<Rightarrow> session_event list" where
  "post_events c = (if conf_string c ''post_cmd'' \<noteq> '''' then [Local_Command (conf_string c ''post_cmd'')] else [])"

fun is_local_command :: "session_event \<Rightarrow> bool" where
  "is_local_command (Local_Command _) = True"
| "is_local_command _ = False"

text \<open>
  A body of a session, what runs between the two local commands: nothing local, and success only
  when something ran and nothing failed.
\<close>

definition good_body :: "runtime \<Rightarrow> session \<Rightarrow> bool" where
  "good_body rt s \<longleftrightarrow> list_all (\<lambda>e. \<not> is_local_command e) (fst s)
     \<and> (snd s = None \<longrightarrow> fst s \<noteq> [] \<and> list_all (\<lambda>e. rt e = None) (fst s))"

definition good_session :: "runtime \<Rightarrow> full_config \<Rightarrow> session \<Rightarrow> bool" where
  "good_session rt c s \<longleftrightarrow> (fst s = [] \<and> snd s \<noteq> None) \<or>
     (\<exists>body. good_body rt (body, snd s) \<and> fst s = pre_events c @ body @ post_events c)"

named_theorems bodies

lemma good_refuse [bodies]: "good_body rt (refuse t)" "good_body rt (bad_plan server q)" "good_body rt ([], Some e)"
  by (simp_all add: good_body_def refuse_def bad_plan_def)

lemma good_event [bodies]: "\<not> is_local_command e \<Longrightarrow> good_body rt (run_event rt e)"
  by (simp add: good_body_def run_event_def)

lemma good_command [bodies]: "good_body rt (run_command_plan rt plan)"
  by (simp add: run_command_plan_def bodies)

lemma good_proxy_session:
  assumes "\<And>port. \<not> is_local_command (event port)"
  shows "good_body rt (proxy_session rt p site r server c connector spec kind event)"
  using assms by (simp add: proxy_session_def bodies split: sum.split)

lemma good_dynamic [bodies]:
  "good_body rt (dynamic_session rt p site r server c connector)" "good_body rt (http_dynamic_session rt p site r server c connector)"
  by (simp_all add: dynamic_session_def http_dynamic_session_def good_proxy_session)

lemma good_with_pre_post: "good_body rt s \<Longrightarrow> good_session rt c (with_pre_post c s)"
  by (auto simp: good_session_def with_pre_post_def pre_events_def post_events_def)

lemma good_refused: "good_session rt c (refuse t)" "good_session rt c ([], Some e)"
  by (simp_all add: good_session_def refuse_def)

lemma good_shell_only: "good_session rt c (run_shell_only rt r server c q)"
  by (simp add: run_shell_only_def good_refused good_with_pre_post bodies split: option.split)

lemma good_local_forward: "good_session rt c (run_local_port_forward rt p site r server c connector)"
  by (simp add: run_local_port_forward_def good_refused good_with_pre_post bodies split: option.split sum.split)

lemma good_forwarding: "good_session rt c (run_forwarding rt p site r server c connector)"
  by (simp add: run_forwarding_def good_refused good_with_pre_post good_local_forward bodies split: sum.split)

lemma good_beside:
  assumes "good_body rt fwd \<or> fwd = ([], None)" "\<not> is_local_command ev"
  shows "good_body rt (fst fwd @ [ev], case rt ev of Some e \<Rightarrow> Some e | None \<Rightarrow> snd fwd)"
    and "good_body rt (fst fwd, Some e)"
  using assms by (auto simp: good_body_def split: option.split)

lemma good_shared: "good_session rt c (run_shared_forwarding rt p site r server c q)"
proof -
  define fwd where "fwd = (if trim_space (conf_string c ''dynamic_port_forward'') \<noteq> ''''
      then dynamic_session rt p site r server c (pd_connector q)
      else if trim_space (conf_string c ''http_dynamic_port_forward'') \<noteq> ''''
      then http_dynamic_session rt p site r server c (pd_connector q) else ([], None))"
  have "good_body rt fwd \<or> fwd = ([], None)"
    by (simp add: fwd_def bodies)
  note beside = good_beside[OF this]
  show ?thesis
    unfolding run_shared_forwarding_def fwd_def[symmetric] Let_def
    by (cases "pd_managed_ssh q"; cases "pd_provider_plan q")
      (simp_all add: good_refused run_event_def good_with_pre_post beside(1) beside(2)[of Managed_Shell])
qed

text \<open>
  C30. A session through a connector either is refused before anything runs, or its first command is the
  local command before it and its last the one after it, whatever fails in between; and it succeeds
  only when something was run between them and everything that ran between them succeeded. The two local
  commands themselves have no say: \<open>execLocalCommand\<close> drops their errors, so a session whose
  command before it or after it fails goes on and succeeds all the same.
\<close>

theorem connector_session_order:
  "(let s = run_connector_shell rt p site r server;
        c = resolve_shell_config r (case map_of (st_server site) server of None \<Rightarrow> zero_config | Some s \<Rightarrow> s)
    in good_session rt c s)"
  by (auto simp: run_connector_shell_def Let_def good_refused good_shared good_forwarding good_shell_only split: sum.split)

end
