(* ===== verification/Socks_Proxy.thy ===== *)
theory Socks_Proxy
  imports Go_Bytes Go_HostPort
begin

text \<open>
  The SOCKS5 server for connectors, \<^verbatim>\<open>internal/ssh/connector_dynamic_forward.go\<close>: the negotiation, the
  request, the replies and what is relayed. The stream of a client is the list of all bytes it sends
  until it closes; dialling and writing to the client are parameters.
\<close>

section \<open>Addresses in text\<close>

text \<open>\<open>net.IP.String\<close> for four bytes, and for sixteen with the longest run of zero groups left out.\<close>

definition ip4_string :: "bytes \<Rightarrow> string" where
  "ip4_string b = join_with ''.'' (map (\<lambda>x. decimal (unat x)) b)"

fun groups_of :: "bytes \<Rightarrow> nat list" where
  "groups_of (x # y # bs) = (256 * unat x + unat y) # groups_of bs"
| "groups_of bs = []"

definition hex_char :: "nat \<Rightarrow> char" where
  "hex_char n = (if n < 10 then char_of (48 + n) else char_of (87 + n))"

fun hex_string :: "nat \<Rightarrow> string" where
  "hex_string n = (if n < 16 then [hex_char n] else hex_string (n div 16) @ [hex_char (n mod 16)])"

declare hex_string.simps [simp del]

definition zero_run :: "nat list \<Rightarrow> nat \<Rightarrow> nat" where
  "zero_run gs i = length (takeWhile (\<lambda>g. g = 0) (drop i gs))"

text \<open>The first of the longest runs of at least two zero groups, as start and length.\<close>

definition longest_zeros :: "nat list \<Rightarrow> (nat \<times> nat) option" where
  "longest_zeros gs =
     foldl (\<lambda>best i. if 2 \<le> zero_run gs i \<and> (case best of None \<Rightarrow> True | Some (s, l) \<Rightarrow> l < zero_run gs i)
                     then Some (i, zero_run gs i) else best) None [0..<length gs]"

definition ip6_string :: "bytes \<Rightarrow> string" where
  "ip6_string b =
     (let gs = groups_of b; text = (\<lambda>gs. join_with '':'' (map hex_string gs))
      in case longest_zeros gs of
           None \<Rightarrow> text gs
         | Some (i, n) \<Rightarrow> text (take i gs) @ ''::'' @ text (drop (i + n) gs))"

definition v4_mapped :: "bytes \<Rightarrow> bool" where
  "v4_mapped b = (take 12 b = replicate 10 0 @ [255, 255])"

definition ip_string :: "bytes \<Rightarrow> string" where
  "ip_string b = (if length b = 4 then ip4_string b else if v4_mapped b then ip4_string (drop 12 b) else ip6_string b)"

section \<open>Reading\<close>

text \<open>\<open>io.ReadFull\<close>.\<close>

definition read_exactly :: "nat \<Rightarrow> bytes \<Rightarrow> (bytes \<times> bytes) result" where
  "read_exactly n s =
     (if n \<le> length s then Inr (take n s, drop n s)
      else if s = [] then errorf ''EOF'' else errorf ''unexpected EOF'')"

definition byte_text :: "byte \<Rightarrow> string" where
  "byte_text b = decimal (unat b)"

text \<open>What a step writes to the client and what it leaves of the stream. \<open>write\<close> gives the error of a write.\<close>

type_synonym writer = "bytes \<Rightarrow> go_error option"

definition socks5_negotiate_no_auth :: "writer \<Rightarrow> bytes \<Rightarrow> bytes list \<times> bytes result" where
  "socks5_negotiate_no_auth write s =
     (case read_exactly 2 s of Inl e \<Rightarrow> ([], Inl e)
      | Inr (header, s) \<Rightarrow>
          if header ! 0 \<noteq> 5 then ([], errorf (''unsupported socks version '' @ byte_text (header ! 0)))
          else (case read_exactly (unat (header ! 1)) s of Inl e \<Rightarrow> ([], Inl e)
                | Inr (methods, s) \<Rightarrow>
                    if 0 \<notin> set methods then ([[5, 255]], errorf ''socks5 client does not support no-auth method'')
                    else ([[5, 0]], (case write [5, 0] of Some e \<Rightarrow> Inl e | None \<Rightarrow> Inr s))))"

definition socks5_read_address :: "byte \<Rightarrow> bytes \<Rightarrow> (string \<times> bytes) result" where
  "socks5_read_address atyp s =
     (if atyp = 1 then (case read_exactly 4 s of Inl e \<Rightarrow> Inl e | Inr (b, s) \<Rightarrow> Inr (ip_string b, s))
      else if atyp = 3
      then (case s of [] \<Rightarrow> errorf ''EOF''
            | n # s \<Rightarrow> (case read_exactly (unat n) s of Inl e \<Rightarrow> Inl e | Inr (b, s) \<Rightarrow> Inr (string_of b, s)))
      else if atyp = 4 then (case read_exactly 16 s of Inl e \<Rightarrow> Inl e | Inr (b, s) \<Rightarrow> Inr (ip_string b, s))
      else errorf (''unsupported socks address type '' @ byte_text atyp))"

definition socks5_read_connect_target :: "bytes \<Rightarrow> (string \<times> bytes) result" where
  "socks5_read_connect_target s =
     (case read_exactly 4 s of Inl e \<Rightarrow> Inl e
      | Inr (header, s) \<Rightarrow>
          if header ! 0 \<noteq> 5 then errorf (''unsupported socks request version '' @ byte_text (header ! 0))
          else if header ! 1 \<noteq> 1 then errorf ''only socks5 CONNECT is supported''
          else (case socks5_read_address (header ! 3) s of Inl e \<Rightarrow> Inl e
                | Inr (host, s) \<Rightarrow>
                    (case read_exactly 2 s of Inl e \<Rightarrow> Inl e
                     | Inr (port, s) \<Rightarrow> Inr (join_host_port host (decimal (nat (be_value port))), s))))"

definition socks5_reply :: "byte \<Rightarrow> bytes" where
  "socks5_reply status = [5, status, 0, 1, 0, 0, 0, 0, 0, 0]"

section \<open>One connection\<close>

text \<open>The end of \<open>handleConn\<close>: an error, or a relay of the rest of the stream.\<close>

datatype 'c handled = Refused go_error | Dial_Failed string go_error | Relaying string 'c bytes

definition handle_conn :: "writer \<Rightarrow> (string \<Rightarrow> 'c result) \<Rightarrow> bytes \<Rightarrow> bytes list \<times> 'c handled" where
  "handle_conn write dial s =
     (case socks5_negotiate_no_auth write s of
        (out, Inl e) \<Rightarrow> (out, Refused e)
      | (out, Inr s) \<Rightarrow>
          (case socks5_read_connect_target s of
             Inl e \<Rightarrow> (out @ [socks5_reply 1], Refused e)
           | Inr (target, s) \<Rightarrow>
               (case dial target of
                  Inl e \<Rightarrow> (out @ [socks5_reply 4], Dial_Failed target e)
                | Inr c \<Rightarrow>
                    (out @ [socks5_reply 0],
                     (case write (socks5_reply 0) of Some e \<Rightarrow> Refused e | None \<Rightarrow> Relaying target c s)))))"

section \<open>What is dialled\<close>

text \<open>An address as a client names it: four or sixteen bytes, or a name of at most 255.\<close>

datatype socks_address = Socks_V4 bytes | Socks_Name bytes | Socks_V6 bytes

fun valid_address :: "socks_address \<Rightarrow> bool" where
  "valid_address (Socks_V4 b) = (length b = 4)"
| "valid_address (Socks_Name b) = (length b < 256)"
| "valid_address (Socks_V6 b) = (length b = 16)"

fun address_bytes :: "socks_address \<Rightarrow> bytes" where
  "address_bytes (Socks_V4 b) = 1 # b"
| "address_bytes (Socks_Name b) = 3 # of_nat (length b) # b"
| "address_bytes (Socks_V6 b) = 4 # b"

fun address_host :: "socks_address \<Rightarrow> string" where
  "address_host (Socks_V4 b) = ip_string b"
| "address_host (Socks_Name b) = string_of b"
| "address_host (Socks_V6 b) = ip_string b"

text \<open>A greeting with its methods and a request for an address and a port.\<close>

definition greeting :: "bytes \<Rightarrow> bytes" where
  "greeting methods = [5, of_nat (length methods)] @ methods"

definition request :: "byte \<Rightarrow> socks_address \<Rightarrow> byte \<Rightarrow> byte \<Rightarrow> bytes" where
  "request reserved a hi lo = [5, 1, reserved] @ address_bytes a @ [hi, lo]"

definition target_of_request :: "socks_address \<Rightarrow> byte \<Rightarrow> byte \<Rightarrow> string" where
  "target_of_request a hi lo = join_host_port (address_host a) (decimal (256 * unat hi + unat lo))"

lemma read_exactly_Inr: "read_exactly n s = Inr (a, b) \<longleftrightarrow> s = a @ b \<and> length a = n"
  by (auto simp: read_exactly_def errorf_def)

lemma read_exactly_append: "length a = n \<Longrightarrow> read_exactly n (a @ b) = Inr (a, b)"
  by (simp add: read_exactly_Inr)

lemma read_address_bytes:
  assumes "valid_address a"
  shows "socks5_read_address (hd (address_bytes a)) (tl (address_bytes a) @ s) = Inr (address_host a, s)"
  using assms by (cases a) (simp_all add: socks5_read_address_def read_exactly_append unat_of_nat)

lemma read_address_Inr:
  assumes "socks5_read_address atyp s = Inr (host, rest)"
  shows "\<exists>a. valid_address a \<and> atyp # s = address_bytes a @ rest \<and> host = address_host a"
proof -
  consider (v4) "atyp = 1" | (name) "atyp = 3" | (v6) "atyp = 4"
    using assms by (auto simp: socks5_read_address_def errorf_def split: if_splits)
  then show ?thesis
  proof cases
    case v4
    then obtain b where "s = b @ rest" "length b = 4" "host = ip_string b"
      using assms by (auto simp: socks5_read_address_def read_exactly_Inr split: sum.splits)
    with v4 show ?thesis
      by (intro exI[of _ "Socks_V4 b"]) simp
  next
    case name
    then obtain n b where "s = n # b @ rest" "length b = unat n" "host = string_of b"
      using assms by (auto simp: socks5_read_address_def read_exactly_Inr errorf_def split: sum.splits list.splits)
    with name show ?thesis
      using unsigned_less[of n, where ?'a = nat] by (intro exI[of _ "Socks_Name b"]) simp
  next
    case v6
    then obtain b where "s = b @ rest" "length b = 16" "host = ip_string b"
      using assms by (auto simp: socks5_read_address_def read_exactly_Inr split: sum.splits)
    with v6 show ?thesis
      by (intro exI[of _ "Socks_V6 b"]) simp
  qed
qed

lemma be_value_two: "nat (be_value [hi, lo]) = 256 * unat hi + unat lo"
  by (simp add: be_value_def nat_add_distrib nat_mult_distrib)

lemma negotiate_Inr:
  "snd (socks5_negotiate_no_auth write s) = Inr rest \<longleftrightarrow>
     write [5, 0] = None \<and> (\<exists>methods. length methods < 256 \<and> 0 \<in> set methods \<and> s = greeting methods @ rest)"
proof
  assume "snd (socks5_negotiate_no_auth write s) = Inr rest"
  then obtain header methods s' where h: "s = header @ s'" "length header = 2" "header ! 0 = 5" "0 \<in> set methods"
    "s' = methods @ rest" "length methods = unat (header ! 1)" "write [5, 0] = None"
    by (auto simp: socks5_negotiate_no_auth_def read_exactly_Inr errorf_def split: sum.splits if_splits option.splits)
  then obtain v n where "header = [v, n]"
    by (auto simp: length_Suc_conv numeral_2_eq_2)
  with h have "s = greeting methods @ rest" "length methods < 256"
    using unsigned_less[of n, where ?'a = nat] by (simp_all add: greeting_def)
  with h show "write [5, 0] = None \<and> (\<exists>methods. length methods < 256 \<and> 0 \<in> set methods \<and> s = greeting methods @ rest)"
    by blast
next
  assume "write [5, 0] = None \<and> (\<exists>methods. length methods < 256 \<and> 0 \<in> set methods \<and> s = greeting methods @ rest)"
  then obtain methods where m: "length methods < 256" "0 \<in> set methods" "s = greeting methods @ rest" "write [5, 0] = None"
    by blast
  have "read_exactly 2 s = Inr ([5, of_nat (length methods)], methods @ rest)"
    unfolding m(3) greeting_def using read_exactly_append[of "[5, of_nat (length methods)]" 2] by simp
  with m show "snd (socks5_negotiate_no_auth write s) = Inr rest"
    by (simp add: socks5_negotiate_no_auth_def read_exactly_append unat_of_nat)
qed

lemma read_target_Inr:
  "socks5_read_connect_target s = Inr (target, rest) \<longleftrightarrow>
     (\<exists>reserved a hi lo. valid_address a \<and> s = request reserved a hi lo @ rest \<and> target = target_of_request a hi lo)"
proof
  assume "socks5_read_connect_target s = Inr (target, rest)"
  then obtain header s' host port s'' where h: "s = header @ s'" "length header = 4" "header ! 0 = 5" "header ! 1 = 1"
    "socks5_read_address (header ! 3) s' = Inr (host, s'')" "s'' = port @ rest" "length port = 2"
    "target = join_host_port host (decimal (nat (be_value port)))"
    by (auto simp: socks5_read_connect_target_def read_exactly_Inr errorf_def split: sum.splits if_splits)
  from h(2) obtain v c reserved atyp where header: "header = [v, c, reserved, atyp]"
    by (auto simp: length_Suc_conv numeral_eq_Suc)
  from h(7) obtain hi lo where port: "port = [hi, lo]"
    by (auto simp: length_Suc_conv numeral_2_eq_2)
  from read_address_Inr[OF h(5)] obtain a where a: "valid_address a" "header ! 3 # s' = address_bytes a @ s''" "host = address_host a"
    by blast
  then have "valid_address a \<and> s = request reserved a hi lo @ rest \<and> target = target_of_request a hi lo"
    using h header port by (simp add: request_def target_of_request_def be_value_two)
  then show "\<exists>reserved a hi lo. valid_address a \<and> s = request reserved a hi lo @ rest \<and> target = target_of_request a hi lo"
    by blast
next
  assume "\<exists>reserved a hi lo. valid_address a \<and> s = request reserved a hi lo @ rest \<and> target = target_of_request a hi lo"
  then obtain reserved a hi lo where r: "valid_address a" "s = request reserved a hi lo @ rest" "target = target_of_request a hi lo"
    by blast
  have bytes: "address_bytes a = hd (address_bytes a) # tl (address_bytes a)"
    by (cases a) simp_all
  have "read_exactly 4 s = Inr ([5, 1, reserved, hd (address_bytes a)], tl (address_bytes a) @ [hi, lo] @ rest)"
    unfolding r(2) request_def read_exactly_Inr by (subst bytes) simp
  with r read_address_bytes[OF r(1), of "[hi, lo] @ rest"] show "socks5_read_connect_target s = Inr (target, rest)"
    using read_exactly_append[of "[hi, lo]" 2 rest]
    by (simp add: socks5_read_connect_target_def target_of_request_def be_value_two)
qed

text \<open>
  A connection is relayed exactly when the client greets with a method without authentication, asks to
  connect to an address, and that can be dialled; the target dialled is the one it asked for, and what
  is relayed is what it sent behind the request, whether or not it waited for the replies.
\<close>

theorem socks_relays_iff:
  "snd (handle_conn write dial s) = Relaying target c rest \<longleftrightarrow>
     (\<exists>methods reserved a hi lo. length methods < 256 \<and> 0 \<in> set methods \<and> valid_address a
        \<and> s = greeting methods @ request reserved a hi lo @ rest \<and> target = target_of_request a hi lo)
     \<and> dial target = Inr c \<and> write [5, 0] = None \<and> write (socks5_reply 0) = None"
proof -
  have "snd (handle_conn write dial s) = Relaying target c rest \<longleftrightarrow>
      (\<exists>s'. snd (socks5_negotiate_no_auth write s) = Inr s' \<and> socks5_read_connect_target s' = Inr (target, rest))
      \<and> dial target = Inr c \<and> write (socks5_reply 0) = None"
    by (auto simp: handle_conn_def split: prod.split sum.splits option.splits)
  then show ?thesis
    unfolding negotiate_Inr read_target_Inr by blast
qed

section \<open>The target is read back\<close>

definition no_brackets :: "string \<Rightarrow> bool" where
  "no_brackets s \<longleftrightarrow> CHR ''['' \<notin> set s \<and> CHR '']'' \<notin> set s"

lemma decimal_digits: "c \<in> set (decimal n) \<Longrightarrow> is_digit c"
proof (induction n rule: decimal.induct)
  case (1 n)
  then show ?case
    by (subst (asm) (2) decimal.simps) (auto simp: is_digit_def split: if_splits)
qed

lemma decimal_plain: "no_brackets (decimal n) \<and> CHR '':'' \<notin> set (decimal n)"
proof -
  have "\<not> is_digit CHR ''[''" "\<not> is_digit CHR '']''" "\<not> is_digit CHR '':''"
    by code_simp+
  then show ?thesis
    using decimal_digits[of _ n] unfolding no_brackets_def by blast
qed

lemma hex_char_plain: "n < 16 \<Longrightarrow> hex_char n \<noteq> CHR ''['' \<and> hex_char n \<noteq> CHR '']''"
proof -
  assume "n < 16"
  then have "n \<in> set [0..<16]"
    by simp
  moreover have "list_all (\<lambda>n. hex_char n \<noteq> CHR ''['' \<and> hex_char n \<noteq> CHR '']'') [0..<16]"
    by code_simp
  ultimately show ?thesis
    by (simp add: list_all_iff del: set_upt)
qed

lemma hex_plain: "no_brackets (hex_string n)"
proof (induction n rule: hex_string.induct)
  case (1 n)
  then show ?case
    using hex_char_plain[of n] hex_char_plain[of "n mod 16"] by (subst hex_string.simps) (auto simp: no_brackets_def)
qed

lemma join_plain: "list_all no_brackets ts \<Longrightarrow> no_brackets sep \<Longrightarrow> no_brackets (join_with sep ts)"
  by (induction sep ts rule: join_with.induct) (auto simp: no_brackets_def)

lemma ip_string_plain: "no_brackets (ip_string b)"
proof -
  have ip4: "no_brackets (ip4_string b)" for b
    unfolding ip4_string_def by (rule join_plain) (use decimal_plain in \<open>auto simp: list_all_iff no_brackets_def\<close>)
  have groups: "no_brackets (join_with '':'' (map hex_string gs))" for gs
    by (rule join_plain) (use hex_plain in \<open>auto simp: list_all_iff no_brackets_def\<close>)
  have "no_brackets (ip6_string b)"
    using groups by (auto simp: ip6_string_def Let_def no_brackets_def split: option.split)
  with ip4 show ?thesis
    by (simp add: ip_string_def)
qed

text \<open>Only a name with brackets is not taken apart again as it was put together.\<close>

lemma target_of_request_split:
  assumes "no_brackets (address_host a)"
  shows "split_host_port (target_of_request a hi lo) = Inr (address_host a, decimal (256 * unat hi + unat lo))"
  unfolding target_of_request_def
  by (rule split_join_host_port) (use assms decimal_plain in \<open>auto simp: no_brackets_def\<close>)

lemma address_host_plain: "\<not> (\<exists>b. a = Socks_Name b) \<Longrightarrow> no_brackets (address_host a)"
  by (cases a) (simp_all add: ip_string_plain)

end
