(* ===== verification/Socks_Server.thy ===== *)
theory Socks_Server
  imports Socks_Proxy
begin

text \<open>
  What runs beside each other in the proxies for connectors, \<^verbatim>\<open>internal/ssh/connector_dynamic_forward.go\<close>
  and \<^verbatim>\<open>connector_http_dynamic_forward.go\<close>: the two copies of a relay, and the accept loop with the
  shutdown of the server.
\<close>

section \<open>A relay\<close>

text \<open>What either side has still to copy and what it has copied. The two flags say whether the client and
  the target close their side after their last byte.\<close>

record relay =
  ry_up :: bytes
  ry_down :: bytes
  ry_to_remote :: bytes
  ry_to_client :: bytes
  ry_closed :: bool

definition start_relay :: "bytes \<Rightarrow> bytes \<Rightarrow> relay" where
  "start_relay up down = \<lparr>ry_up = up, ry_down = down, ry_to_remote = [], ry_to_client = [], ry_closed = False\<rparr>"

text \<open>The first copy that ends closes both connections.\<close>

inductive relay_step :: "bool \<Rightarrow> bool \<Rightarrow> relay \<Rightarrow> relay \<Rightarrow> bool" for client_ends remote_ends where
  copy_up: "\<not> ry_closed r \<Longrightarrow> ry_up r = b # bs \<Longrightarrow>
    relay_step client_ends remote_ends r (r\<lparr>ry_up := bs, ry_to_remote := ry_to_remote r @ [b]\<rparr>)"
| copy_down: "\<not> ry_closed r \<Longrightarrow> ry_down r = b # bs \<Longrightarrow>
    relay_step client_ends remote_ends r (r\<lparr>ry_down := bs, ry_to_client := ry_to_client r @ [b]\<rparr>)"
| end_up: "\<not> ry_closed r \<Longrightarrow> ry_up r = [] \<Longrightarrow> client_ends \<Longrightarrow> relay_step client_ends remote_ends r (r\<lparr>ry_closed := True\<rparr>)"
| end_down: "\<not> ry_closed r \<Longrightarrow> ry_down r = [] \<Longrightarrow> remote_ends \<Longrightarrow> relay_step client_ends remote_ends r (r\<lparr>ry_closed := True\<rparr>)"

definition relay_run :: "bool \<Rightarrow> bool \<Rightarrow> relay \<Rightarrow> relay \<Rightarrow> bool" where
  "relay_run client_ends remote_ends = (relay_step client_ends remote_ends)\<^sup>*\<^sup>*"

lemma relay_run_inv:
  assumes "relay_run ce re (start_relay up down) r"
  shows "ry_to_remote r @ ry_up r = up \<and> ry_to_client r @ ry_down r = down
    \<and> (ry_closed r \<longrightarrow> ry_up r = [] \<and> ce \<or> ry_down r = [] \<and> re)"
  using assms unfolding relay_run_def
proof (induction rule: rtranclp_induct)
  case base
  then show ?case
    by (simp add: start_relay_def)
next
  case (step r r')
  from step(2,3) show ?case
    by (cases rule: relay_step.cases) auto
qed

lemma relay_copies_up: "relay_run ce re (start_relay up down) ((start_relay [] down)\<lparr>ry_to_remote := up\<rparr>)"
proof -
  have "relay_run ce re ((start_relay bs down)\<lparr>ry_to_remote := done\<rparr>) ((start_relay [] down)\<lparr>ry_to_remote := done @ bs\<rparr>)" for bs "done"
  proof (induction bs arbitrary: "done")
    case (Cons b bs)
    have "relay_step ce re ((start_relay (b # bs) down)\<lparr>ry_to_remote := done\<rparr>) ((start_relay bs down)\<lparr>ry_to_remote := done @ [b]\<rparr>)"
      using copy_up[of "(start_relay (b # bs) down)\<lparr>ry_to_remote := done\<rparr>" b bs ce re] by (simp add: start_relay_def)
    then show ?case
      using Cons[of "done @ [b]"] unfolding relay_run_def by simp
  qed (simp add: relay_run_def)
  from this[of "[]" up] show ?thesis
    by (simp add: start_relay_def)
qed

text \<open>
  Neither copy loses, repeats or reorders bytes. But a client that closes its sending side behind its
  request, as it may, can be left without any byte of the answer.
\<close>

theorem relay_exact:
  "(relay_run ce re (start_relay up down) r \<longrightarrow> prefix (ry_to_remote r) up \<and> prefix (ry_to_client r) down
      \<and> (ry_closed r \<and> \<not> ce \<longrightarrow> ry_to_client r = down) \<and> (ry_closed r \<and> \<not> re \<longrightarrow> ry_to_remote r = up))
   \<and> (\<exists>r'. relay_run True re (start_relay up down) r' \<and> ry_closed r' \<and> ry_to_remote r' = up \<and> ry_to_client r' = [])"
proof (intro conjI impI)
  assume "relay_run ce re (start_relay up down) r"
  note inv = relay_run_inv[OF this]
  then show "prefix (ry_to_remote r) up" "prefix (ry_to_client r) down"
    by (auto simp: prefix_def)
  show "ry_to_client r = down" if "ry_closed r \<and> \<not> ce"
    using inv that by auto
  show "ry_to_remote r = up" if "ry_closed r \<and> \<not> re"
    using inv that by auto
next
  let ?r = "(start_relay [] down)\<lparr>ry_to_remote := up\<rparr>"
  have "relay_step True re ?r (?r\<lparr>ry_closed := True\<rparr>)"
    by (rule end_up) (simp_all add: start_relay_def)
  then have "relay_run True re (start_relay up down) (?r\<lparr>ry_closed := True\<rparr>)"
    using relay_copies_up[of True re up down] unfolding relay_run_def by simp
  then show "\<exists>r'. relay_run True re (start_relay up down) r' \<and> ry_closed r' \<and> ry_to_remote r' = up \<and> ry_to_client r' = []"
    by (intro exI[of _ "?r\<lparr>ry_closed := True\<rparr>"]) (simp add: start_relay_def)
qed

section \<open>The accept loop and the shutdown\<close>

datatype stage = Running | Listener_Closed | Conns_Closed | Returned

text \<open>\<open>sv_held\<close> is the connection the accept loop has in its hands, and whether it is tracked already;
  \<open>sv_handling\<close> are those the wait group counts, \<open>sv_seen\<close> all that were ever accepted.\<close>

record 'c server =
  sv_listening :: bool
  sv_held :: "('c \<times> bool) option"
  sv_active :: "'c set"
  sv_handling :: "'c set"
  sv_closed :: "'c set"
  sv_seen :: "'c set"
  sv_stage :: stage

definition new_server :: "'c server" where
  "new_server = \<lparr>sv_listening = True, sv_held = None, sv_active = {}, sv_handling = {}, sv_closed = {}, sv_seen = {},
     sv_stage = Running\<rparr>"

inductive server_step :: "'c server \<Rightarrow> 'c server \<Rightarrow> bool" where
  accept: "sv_listening s \<Longrightarrow> sv_held s = None \<Longrightarrow> c \<notin> sv_seen s \<Longrightarrow>
    server_step s (s\<lparr>sv_held := Some (c, False), sv_seen := insert c (sv_seen s)\<rparr>)"
| track_conn: "sv_held s = Some (c, False) \<Longrightarrow>
    server_step s (s\<lparr>sv_held := Some (c, True), sv_active := insert c (sv_active s)\<rparr>)"
| spawn: "sv_held s = Some (c, True) \<Longrightarrow> server_step s (s\<lparr>sv_held := None, sv_handling := insert c (sv_handling s)\<rparr>)"
| handled: "c \<in> sv_handling s \<Longrightarrow>
    server_step s (s\<lparr>sv_handling := sv_handling s - {c}, sv_active := sv_active s - {c}, sv_closed := insert c (sv_closed s)\<rparr>)"
| close_listener: "sv_stage s = Running \<Longrightarrow> server_step s (s\<lparr>sv_listening := False, sv_stage := Listener_Closed\<rparr>)"
| close_conns: "sv_stage s = Listener_Closed \<Longrightarrow>
    server_step s (s\<lparr>sv_closed := sv_closed s \<union> sv_active s, sv_stage := Conns_Closed\<rparr>)"
| waited: "sv_stage s = Conns_Closed \<Longrightarrow> sv_handling s = {} \<Longrightarrow> server_step s (s\<lparr>sv_stage := Returned\<rparr>)"

definition held_conns :: "'c server \<Rightarrow> 'c set" where
  "held_conns s = (case sv_held s of None \<Rightarrow> {} | Some (c, b) \<Rightarrow> {c})"

definition open_conns :: "'c server \<Rightarrow> 'c set" where
  "open_conns s = (sv_handling s \<union> held_conns s) - sv_closed s"

definition server_inv :: "'c server \<Rightarrow> bool" where
  "server_inv s \<longleftrightarrow> sv_handling s \<subseteq> sv_active s \<and> (\<forall>c. sv_held s = Some (c, True) \<longrightarrow> c \<in> sv_active s)
     \<and> sv_handling s \<union> held_conns s \<subseteq> sv_seen s \<and> sv_handling s \<inter> held_conns s = {}
     \<and> (sv_listening s \<longrightarrow> sv_stage s = Running)
     \<and> (sv_stage s = Conns_Closed \<or> sv_stage s = Returned \<longrightarrow> (\<exists>c. open_conns s \<subseteq> {c}))"

lemma held_conns_simps [simp]:
  "sv_held s = None \<Longrightarrow> held_conns s = {}" "sv_held s = Some (c, b) \<Longrightarrow> held_conns s = {c}"
  by (simp_all add: held_conns_def)

lemma held_conns_single: "\<exists>c. held_conns s \<subseteq> {c}"
  by (auto simp: held_conns_def split: option.split)

lemma track_conn_inv:
  assumes "sv_held s = Some (c, False)" "server_inv s"
  shows "server_inv (s\<lparr>sv_held := Some (c, True), sv_active := insert c (sv_active s)\<rparr>)" (is "server_inv ?t")
proof -
  have "held_conns s = {c}" "held_conns ?t = {c}"
    using assms(1) by (simp_all add: held_conns_def)
  moreover from this have "open_conns ?t = open_conns s"
    by (simp add: open_conns_def)
  ultimately show ?thesis
    using assms(2) by (simp add: server_inv_def subset_insertI2)
qed

lemma spawn_inv:
  assumes "sv_held s = Some (c, True)" "server_inv s"
  shows "server_inv (s\<lparr>sv_held := None, sv_handling := insert c (sv_handling s)\<rparr>)" (is "server_inv ?t")
proof -
  have "held_conns s = {c}" "held_conns ?t = {}"
    using assms(1) by (simp_all add: held_conns_def)
  moreover from this have "open_conns ?t = open_conns s"
    by (simp add: open_conns_def)
  ultimately show ?thesis
    using assms by (simp add: server_inv_def)
qed

lemma handled_inv:
  assumes "c \<in> sv_handling s" "server_inv s"
  shows "server_inv (s\<lparr>sv_handling := sv_handling s - {c}, sv_active := sv_active s - {c}, sv_closed := insert c (sv_closed s)\<rparr>)" (is "server_inv ?t")
proof -
  have held: "held_conns ?t = held_conns s"
    by (simp add: held_conns_def)
  then have "open_conns ?t \<subseteq> open_conns s"
    by (auto simp: open_conns_def)
  moreover have "sv_held s \<noteq> Some (c, True)"
    using assms by (auto simp: server_inv_def)
  moreover have "sv_stage s = Conns_Closed \<or> sv_stage s = Returned \<longrightarrow> (\<exists>d. open_conns ?t \<subseteq> {d})"
    using assms(2) \<open>open_conns ?t \<subseteq> open_conns s\<close> unfolding server_inv_def by (meson order.trans)
  ultimately show ?thesis
    using assms(2) held unfolding server_inv_def by (auto simp del: subset_singleton_iff)
qed

lemma server_step_inv: "server_step s t \<Longrightarrow> server_inv s \<Longrightarrow> server_inv t"
proof (induction rule: server_step.induct)
  case (accept s c)
  then show ?case
    by (auto simp: server_inv_def)
next
  case (track_conn s c)
  then show ?case
    by (rule track_conn_inv)
next
  case (spawn s c)
  then show ?case
    by (rule spawn_inv)
next
  case (handled c s)
  then show ?case
    by (rule handled_inv)
next
  case (close_conns s)
  let ?t = "s\<lparr>sv_closed := sv_closed s \<union> sv_active s, sv_stage := Conns_Closed\<rparr>"
  have held: "held_conns ?t = held_conns s"
    by (simp add: held_conns_def)
  then have "open_conns ?t \<subseteq> held_conns s"
    using close_conns by (auto simp: open_conns_def server_inv_def)
  then have "\<exists>c. open_conns ?t \<subseteq> {c}"
    using held_conns_single[of s] by blast
  with close_conns show ?case
    unfolding server_inv_def held by simp
next
  case (close_listener s)
  then show ?case
    by (simp add: server_inv_def held_conns_def)
next
  case (waited s)
  then show ?case
    by (simp add: server_inv_def open_conns_def held_conns_def)
qed

text \<open>
  C31. When the shutdown has closed the connections, at most one is still open: the one the accept loop had
  in its hands but had not tracked yet. It can be left behind even when the shutdown has returned.
\<close>

theorem shutdown_leaves_at_most_one:
  assumes "server_step\<^sup>*\<^sup>* new_server s" "sv_stage s \<in> {Conns_Closed, Returned}"
  shows "\<not> sv_listening s \<and> (\<exists>c. open_conns s \<subseteq> {c})"
proof -
  have "server_inv s"
    using assms(1)
  proof (induction rule: rtranclp_induct)
    case base
    then show ?case
      by (simp add: server_inv_def new_server_def)
  qed (blast intro: server_step_inv)
  with assms(2) show ?thesis
    by (auto simp: server_inv_def)
qed

definition left_behind :: "nat server" where
  "left_behind = \<lparr>sv_listening = False, sv_held = None, sv_active = {7}, sv_handling = {7}, sv_closed = {}, sv_seen = {7},
     sv_stage = Returned\<rparr>"

lemma reach_left_behind: "server_step\<^sup>*\<^sup>* new_server left_behind"
proof -
  have "server_step new_server (new_server\<lparr>sv_held := Some (7, False), sv_seen := {7 :: nat}\<rparr>)" (is "server_step _ ?a")
    using accept[of new_server 7] by (simp add: new_server_def)
  moreover have "server_step ?a (?a\<lparr>sv_listening := False, sv_stage := Listener_Closed\<rparr>)" (is "server_step _ ?b")
    by (rule close_listener) (simp add: new_server_def)
  moreover have "server_step ?b (?b\<lparr>sv_stage := Conns_Closed\<rparr>)" (is "server_step _ ?c")
    using close_conns[of ?b] by (simp add: new_server_def)
  moreover have "server_step ?c (?c\<lparr>sv_stage := Returned\<rparr>)" (is "server_step _ ?d")
    by (rule waited) (simp_all add: new_server_def)
  moreover have "server_step ?d (?d\<lparr>sv_held := Some (7, True), sv_active := {7}\<rparr>)" (is "server_step _ ?e")
    using track_conn[of ?d 7] by (simp add: new_server_def)
  moreover have "server_step ?e left_behind"
    using spawn[of ?e 7] by (simp add: new_server_def left_behind_def)
  ultimately show ?thesis
    by (meson converse_rtranclp_into_rtranclp rtranclp.rtrancl_refl)
qed

lemma shutdown_leaves_at_most_one_witness:
  "\<not> sv_listening left_behind \<and> (\<exists>c. open_conns left_behind \<subseteq> {c}) \<and> 7 \<in> open_conns left_behind"
  using shutdown_leaves_at_most_one[OF reach_left_behind]
  by (simp add: left_behind_def open_conns_def)

section \<open>How the server ends\<close>

definition is_closed_network_error :: "go_error option \<Rightarrow> bool" where
  "is_closed_network_error e =
     (case e of None \<Rightarrow> False | Some e \<Rightarrow> contains (to_lower (err_message e)) ''use of closed network connection'')"

text \<open>The accept loop ended by itself, the context ended, or the user interrupted. \<open>net_closed\<close> is \<open>errors.Is\<close>
  with the error of a closed listener; the result is the kind of shutdown and the error.\<close>

datatype stop_cause = Accept_Failed "go_error option" | Context_Done | Interrupted "go_error option"

datatype stop_kind = No_Shutdown | Shutdown_No_Wait | Shutdown_Wait

definition serve_until_stop :: "(go_error option \<Rightarrow> bool) \<Rightarrow> stop_cause \<Rightarrow> stop_kind \<times> go_error option" where
  "serve_until_stop net_closed cause =
     (case cause of
        Accept_Failed e \<Rightarrow> (No_Shutdown, e)
      | Context_Done \<Rightarrow> (Shutdown_No_Wait, None)
      | Interrupted e \<Rightarrow> (Shutdown_Wait, if e = None \<or> net_closed e \<or> is_closed_network_error e then None else e))"

section \<open>The HTTP proxy\<close>

text \<open>\<open>handleHTTPSProxy\<close>: what a CONNECT request comes to. \<open>dial\<close> and \<open>hijack\<close> give the connections or an error,
  with the number of bytes that were read ahead; \<open>write\<close> is the error of the answer.\<close>

datatype https_end =
    Unavailable string bool              \<comment> \<open>the answer 503, and whether the target is closed\<close>
  | Answer_Failed
  | Tunnel "bytes list" bool             \<comment> \<open>what is answered, and whether the client's whole stream is copied before the relay\<close>

definition established :: bytes where
  "established = bytes_of (''HTTP/1.1 200 Connection established'' @ [CHR 0x0D, CHR 0x0A, CHR 0x0D, CHR 0x0A])"

definition handle_https_proxy ::
    "(string \<Rightarrow> go_error option) \<Rightarrow> bool \<Rightarrow> nat result \<Rightarrow> (bytes \<Rightarrow> go_error option) \<Rightarrow> string \<Rightarrow> https_end" where
  "handle_https_proxy dial hijackable hijack write host =
     (case dial host of
        Some e \<Rightarrow> Unavailable (err_message e) False
      | None \<Rightarrow>
          if \<not> hijackable then Unavailable ''http hijacking is not supported'' True
          else (case hijack of
                  Inl e \<Rightarrow> Unavailable (err_message e) True
                | Inr buffered \<Rightarrow>
                    if write established \<noteq> None then Answer_Failed else Tunnel [established] (0 < buffered)))"

text \<open>The answer of the target as far as the client gets it while it keeps its side open: nothing when its
  stream is copied first, since that copy ends only with the stream.\<close>

definition answer_while_open :: "https_end \<Rightarrow> bytes \<Rightarrow> bytes" where
  "answer_while_open r answer =
     (case r of Tunnel out waits \<Rightarrow> if waits then [] else answer | _ \<Rightarrow> [])"

end
