(* ===== verification/Scp_Path.thy ===== *)
theory Scp_Path
  imports Go_Path
begin

text \<open>
  Where a file of lscp goes: \<^verbatim>\<open>internal/scp/path_resolution.go\<close>, the names shown for local files
  (\<open>displayPathAt\<close>, \<open>displayLocalPath\<close> of \<^verbatim>\<open>main.go\<close>). On the platforms modelled \<open>filepath\<close> is \<open>path\<close> and \<open>ToSlash\<close> changes nothing.
\<close>

text \<open>The code takes an empty string when there is an error.\<close>

definition rel_or_empty :: "string \<Rightarrow> string \<Rightarrow> string" where
  "rel_or_empty base targ = (case filepath_rel base targ of None \<Rightarrow> '''' | Some r \<Rightarrow> r)"

section \<open>Destinations\<close>

definition should_treat_local_destination_as_dir :: "(string \<Rightarrow> bool) \<Rightarrow> string \<Rightarrow> bool \<Rightarrow> bool" where
  "should_treat_local_destination_as_dir is_dir destination force_dir =
     (if force_dir then True else if has_suffix destination ''/'' then True else is_dir destination)"

definition scp_source_base :: "string \<Rightarrow> bool \<Rightarrow> bool \<Rightarrow> string" where
  "scp_source_base source_path source_is_dir preserve_source_name =
     (let source_path = path_clean source_path
      in if source_is_dir \<and> \<not> preserve_source_name then source_path else path_dir source_path)"

definition should_treat_remote_destination_as_dir :: "string \<Rightarrow> bool \<Rightarrow> bool \<Rightarrow> bool \<Rightarrow> bool" where
  "should_treat_remote_destination_as_dir destination target_exists_as_dir source_is_dir multiple_sources =
     (target_exists_as_dir \<or> source_is_dir \<or> multiple_sources \<or> has_suffix destination ''/'')"

definition resolve_remote_destination_path :: "string \<Rightarrow> string \<Rightarrow> bool \<Rightarrow> string" where
  "resolve_remote_destination_path destination relpath treat_as_dir =
     (let clean = path_clean destination
      in if \<not> treat_as_dir \<or> relpath = '''' \<or> relpath = ''.'' then clean else path_join [clean, relpath])"

definition resolve_local_destination_path :: "string \<Rightarrow> string \<Rightarrow> bool \<Rightarrow> string" where
  "resolve_local_destination_path destination relpath treat_as_dir =
     (if \<not> treat_as_dir \<or> relpath = '''' \<or> relpath = ''.'' then path_clean destination
      else path_join [destination, relpath])"

section \<open>Names shown\<close>

definition display_path_at :: "string list \<Rightarrow> nat \<Rightarrow> string \<Rightarrow> string" where
  "display_path_at display_paths index fallback =
     (if index < length display_paths \<and> trim_space (display_paths ! index) \<noteq> '''' then display_paths ! index else fallback)"

definition display_local_path :: "string \<Rightarrow> string \<Rightarrow> string \<Rightarrow> string" where
  "display_local_path root display_root current =
     (let display_root = trim_space display_root
      in if display_root = '''' then current
         else (case filepath_rel root current of
                 None \<Rightarrow> display_root
               | Some relpath \<Rightarrow>
                   if relpath = ''.'' then display_root
                   else (let joined = path_join [display_root, relpath]
                         in if has_prefix display_root ''./'' \<and> \<not> has_prefix joined ''./'' \<and> \<not> has_prefix joined ''../''
                            then ''./'' @ joined else joined)))"

section \<open>What the relative path of a walked file is\<close>

lemma join_with_proper:
  assumes "list_all proper_elem fs" "fs \<noteq> []"
  shows "join_with ''/'' fs \<noteq> ''''" "join_with ''/'' fs \<noteq> ''.''"
proof -
  have "split_on CHR ''/'' (join_with ''/'' fs) = fs"
    using assms list_all_proper_no_slash[OF assms(1)] by (intro split_on_join) auto
  moreover have "fs \<noteq> ['''']" "fs \<noteq> [''.'']"
    using assms by (auto simp: proper_elem_def)
  ultimately show "join_with ''/'' fs \<noteq> ''''" "join_with ''/'' fs \<noteq> ''.''"
    by auto
qed

text \<open>A file below a source keeps its place below the destination, with the name of the source in
  front when that is preserved.\<close>

definition placed :: "bool \<Rightarrow> string list \<Rightarrow> string list \<Rightarrow> string list" where
  "placed preserve source below = (if preserve then last source # below else below)"

lemma source_base_abs:
  "list_all proper_elem es \<Longrightarrow>
     scp_source_base (abs_path es) is_dir preserve = abs_path (if is_dir \<and> \<not> preserve then es else butlast es)"
  by (simp add: scp_source_base_def Let_def)

lemma rel_to_source:
  assumes "list_all proper_elem es" "es \<noteq> []" "list_all proper_elem fs" "is_dir \<or> preserve"
  shows "filepath_rel (scp_source_base (abs_path es) is_dir preserve) (abs_path (es @ fs))
     = Some (if placed preserve es fs = [] then ''.'' else join_with ''/'' (placed preserve es fs))"
proof (cases preserve)
  case True
  have proper: "list_all proper_elem (butlast es)" "list_all proper_elem (last es # fs)"
    using assms(1-3) by (auto simp: list_all_iff dest: in_set_butlastD)
  have eq: "butlast es @ last es # fs = es @ fs"
    using assms(2) by (metis append_butlast_last_id append_Cons append_Nil append_assoc)
  show ?thesis
    using filepath_rel_below[OF proper] assms(1,2) True unfolding eq by (simp add: source_base_abs placed_def)
next
  case False
  with assms filepath_rel_below[OF assms(1,3)] show ?thesis
    by (simp add: source_base_abs placed_def)
qed

lemma placed_proper: "list_all proper_elem es \<Longrightarrow> es \<noteq> [] \<Longrightarrow> list_all proper_elem fs \<Longrightarrow> list_all proper_elem (placed preserve es fs)"
  by (auto simp: placed_def list_all_iff)

lemma resolve_remote_below:
  assumes "list_all proper_elem ts" "list_all proper_elem fs"
  shows "resolve_remote_destination_path (abs_path ts) (if fs = [] then ''.'' else join_with ''/'' fs) True = abs_path (ts @ fs)"
  using assms join_with_proper[OF assms(2)] by (simp add: resolve_remote_destination_path_def Let_def path_join_abs_path)

lemma resolve_local_below:
  assumes "list_all proper_elem ts" "list_all proper_elem fs"
  shows "resolve_local_destination_path (abs_path ts) (if fs = [] then ''.'' else join_with ''/'' fs) True = abs_path (ts @ fs)"
  using assms join_with_proper[OF assms(2)] by (simp add: resolve_local_destination_path_def path_join_abs_path)

end
