(* ===== verification/Scp_Copy.thy ===== *)
theory Scp_Copy
  imports Scp_Path Sync_Plan Prov_Data Go_Bytes
begin

text \<open>
  The copies of lscp, \<^verbatim>\<open>internal/scp/main.go\<close>: from this machine to servers (\<open>push\<close>), between servers
  (\<open>viaPush\<close>) and from servers to this machine (\<open>pull\<close>). The SFTP client and the local file system
  are parameters. A worker is handed the files one at a time over a channel without a buffer; the
  model runs each file when it is handed over, which is what one worker does, and a file that no
  worker takes blocks the sender for ever (\<open>None\<close>). Lines for the user are kept in the order they are
  written; progress bars are left out.
\<close>

section \<open>File systems and output\<close>

record 'r sftp_ops =
  sf_lstat :: "'r \<Rightarrow> string \<Rightarrow> file_info result"
  sf_mkdir :: "string \<Rightarrow> ('r, unit) io"
  sf_mkdir_all :: "string \<Rightarrow> ('r, unit) io"
  sf_open :: "string \<Rightarrow> ('r, unit) io"      \<comment> \<open>for writing, created when it is not there\<close>
  sf_truncate :: "string \<Rightarrow> ('r, unit) io"
  sf_write :: "string \<Rightarrow> string \<Rightarrow> ('r, unit) io"
  sf_chmod :: "string \<Rightarrow> nat \<Rightarrow> ('r, unit) io"

text \<open>A reader delivers a text and then ends, possibly with an error.\<close>

record source_ops =
  so_lstat :: "string \<Rightarrow> file_info result"
  so_walk :: "string \<Rightarrow> (string \<times> file_info option) list"
  so_open :: "string \<Rightarrow> (string \<times> go_error option) result"

datatype scp_line = Dry_Run string string | Message string

record 'r scp_world =
  sw_fs :: 'r
  sw_lines :: "scp_line list"

definition say :: "scp_line \<Rightarrow> ('r scp_world, unit) io" where
  "say l = io_modify (\<lambda>w. w\<lparr>sw_lines := sw_lines w @ [l]\<rparr>)"

definition on_fs :: "('r, 'a) io \<Rightarrow> ('r scp_world, 'a) io" where
  "on_fs m = (\<lambda>w. case m (sw_fs w) of (x, r) \<Rightarrow> (x, w\<lparr>sw_fs := r\<rparr>))"

text \<open>An error is printed and passed on, or it is dropped.\<close>

definition logged :: "string \<Rightarrow> ('r scp_world, unit) io \<Rightarrow> ('r scp_world, unit) io" where
  "logged text m = (\<lambda>w. case m w of
      (Inl e, w) \<Rightarrow> (Inl e, w\<lparr>sw_lines := sw_lines w @ [Message (text @ err_message e)]\<rparr>)
    | (Inr u, w) \<Rightarrow> (Inr u, w))"

definition ignored :: "('w, unit) io \<Rightarrow> 'w \<Rightarrow> 'w" where
  "ignored m w = snd (m w)"

definition copy_text :: "(string \<Rightarrow> string \<Rightarrow> ('r, unit) io) \<Rightarrow> string \<Rightarrow> string \<times> go_error option \<Rightarrow> ('r, unit) io" where
  "copy_text write p reader =
     (case reader of (text, fault) \<Rightarrow>
        io_bind (write p text) (\<lambda>_. case fault of None \<Rightarrow> io_return () | Some e \<Rightarrow> io_fail e))"

section \<open>To a server\<close>

record scp_job =
  sj_from :: "string list"
  sj_to :: string
  sj_dry_run :: bool
  sj_permission :: bool

record path_set =
  ps_root :: string
  ps_display :: string
  ps_root_is_dir :: bool
  ps_paths :: "string list"

definition exists_as_directory :: "'r sftp_ops \<Rightarrow> 'r \<Rightarrow> string \<Rightarrow> bool" where
  "exists_as_directory fs r p = (case sf_lstat fs r p of Inl e \<Rightarrow> False | Inr info \<Rightarrow> fi_is_dir info)"

definition push_file ::
    "'r sftp_ops \<Rightarrow> bool \<Rightarrow> string \<Rightarrow> string \<Rightarrow> string \<Rightarrow> string \<times> go_error option \<Rightarrow> ('r scp_world, unit) io" where
  "push_file fs dry server src p reader =
     (if dry then say (Dry_Run ''copy'' (''local:'' @ src @ '' -> '' @ server @ '':'' @ p))
      else logged ''''
        (io_bind (on_fs (sf_mkdir_all fs (path_dir p))) (\<lambda>_.
         io_bind (io_read (\<lambda>w. exists_as_directory fs (sw_fs w) p)) (\<lambda>is_dir.
           if is_dir then io_fail (Go_Error False (''copy failed: remote path '' @ quoted_text p @ '' is a directory''))
           else io_bind (on_fs (sf_open fs p)) (\<lambda>_.
                io_bind (on_fs (sf_truncate fs p)) (\<lambda>_.
                on_fs (copy_text (sf_write fs) p reader)))))))"

text \<open>The place of a file on the server; \<open>exists_dir\<close> says whether the destination is a directory now.\<close>

definition push_target :: "bool \<Rightarrow> scp_job \<Rightarrow> path_set \<Rightarrow> string \<Rightarrow> string" where
  "push_target exists_dir job ps p =
     (let preserve = (exists_dir \<or> length (sj_from job) > 1 \<or> has_suffix (sj_to job) ''/'');
          base = scp_source_base (ps_root ps) (ps_root_is_dir ps) preserve
      in resolve_remote_destination_path (sj_to job) (rel_or_empty base p)
           (should_treat_remote_destination_as_dir (sj_to job) exists_dir (ps_root_is_dir ps) (length (sj_from job) > 1)))"

definition chmod_line :: "scp_job \<Rightarrow> string \<Rightarrow> string \<Rightarrow> ('r scp_world, unit) io" where
  "chmod_line job server p = (if sj_permission job then say (Dry_Run ''chmod'' (server @ '':'' @ p)) else io_return ())"

text \<open>\<open>pushPath\<close>: what is done with a path once its place is known, and the whole.\<close>

definition push_found_at ::
    "'r sftp_ops \<Rightarrow> source_ops \<Rightarrow> scp_job \<Rightarrow> string \<Rightarrow> path_set \<Rightarrow> string \<Rightarrow> file_info \<Rightarrow> string \<Rightarrow> ('r scp_world, unit) io" where
  "push_found_at fs src job server ps p info rpath =
     (let shown = display_local_path (ps_root ps) (ps_display ps) p;
         set_mode = (if sj_permission job
                     then (if sj_dry_run job then say (Dry_Run ''chmod'' (server @ '':'' @ rpath))
                           else (\<lambda>w. (Inr (), ignored (on_fs (sf_chmod fs rpath (fi_mode info))) w)))
                     else io_return ())
     in if fi_is_dir info
        then io_bind (if sj_dry_run job then say (Dry_Run ''mkdir'' (server @ '':'' @ rpath))
                      else (\<lambda>w. (Inr (), ignored (on_fs (sf_mkdir fs rpath)) w)))
               (\<lambda>_. set_mode)
        else if sj_dry_run job
        then io_bind (say (Dry_Run ''copy'' (''local:'' @ shown @ '' -> '' @ server @ '':'' @ rpath)))
               (\<lambda>_. chmod_line job server rpath)
        else io_bind (logged '''' (case so_open src p of Inl e \<Rightarrow> io_fail e
                                   | Inr reader \<Rightarrow> push_file fs False server shown rpath reader))
               (\<lambda>_. set_mode))"

definition push_found ::
    "'r sftp_ops \<Rightarrow> source_ops \<Rightarrow> scp_job \<Rightarrow> string \<Rightarrow> path_set \<Rightarrow> string \<Rightarrow> file_info \<Rightarrow> ('r scp_world, unit) io" where
  "push_found fs src job server ps p info =
     io_bind (io_read (\<lambda>w. push_target (exists_as_directory fs (sw_fs w) (sj_to job)) job ps p))
       (push_found_at fs src job server ps p info)"

text \<open>A path that is gone since it was listed leaves a nil file information, which panics.\<close>

definition push_path ::
    "'r sftp_ops \<Rightarrow> source_ops \<Rightarrow> scp_job \<Rightarrow> string \<Rightarrow> path_set \<Rightarrow> string \<Rightarrow> 'r scp_world \<Rightarrow> 'r scp_world outcome" where
  "push_path fs src job server ps p w =
     (case so_lstat src p of
        Inl e \<Rightarrow> Panicked
      | Inr info \<Rightarrow> Done (ignored (push_found fs src job server ps p info) w))"

fun push_paths ::
    "'r sftp_ops \<Rightarrow> source_ops \<Rightarrow> scp_job \<Rightarrow> string \<Rightarrow> path_set \<Rightarrow> string list \<Rightarrow> 'r scp_world \<Rightarrow> 'r scp_world outcome" where
  "push_paths fs src job server ps [] w = Done w"
| "push_paths fs src job server ps (p # paths) w =
     and_then (push_path fs src job server ps p w) (push_paths fs src job server ps paths)"

fun push_sets ::
    "'r sftp_ops \<Rightarrow> source_ops \<Rightarrow> scp_job \<Rightarrow> string \<Rightarrow> path_set list \<Rightarrow> 'r scp_world \<Rightarrow> 'r scp_world outcome" where
  "push_sets fs src job server [] w = Done w"
| "push_sets fs src job server (ps # sets) w =
     and_then (push_paths fs src job server ps (ps_paths ps) w) (push_sets fs src job server sets)"

text \<open>\<open>WalkDir\<close>: directories get a slash; an entry without information panics.\<close>

definition walk_dir :: "source_ops \<Rightarrow> string \<Rightarrow> string list outcome" where
  "walk_dir src d =
     (case so_lstat src d of
        Inl e \<Rightarrow> Failed e
      | Inr _ \<Rightarrow>
          if list_ex (\<lambda>(p, info). info = None) (so_walk src d) then Panicked
          else Done (map (\<lambda>(p, info). if (case info of None \<Rightarrow> False | Some i \<Rightarrow> fi_is_dir i) then p @ ''/'' else p)
                 (so_walk src d)))"

fun list_sources :: "source_ops \<Rightarrow> string list \<Rightarrow> nat \<Rightarrow> string list \<Rightarrow> path_set list outcome" where
  "list_sources src displays i [] = Done []"
| "list_sources src displays i (p # ps) =
     (case so_lstat src p of
        Inl e \<Rightarrow> Failed (Go_Error False (''scp: failed to stat source path '' @ quoted_text p @ '': '' @ err_message e))
      | Inr info \<Rightarrow>
          (case walk_dir src p of
             Failed e \<Rightarrow> list_sources src displays (i + 1) ps
           | Panicked \<Rightarrow> Panicked
           | Done found \<Rightarrow>
               and_then (list_sources src displays (i + 1) ps)
                 (\<lambda>sets. Done (\<lparr>ps_root = p, ps_display = display_path_at displays i p, ps_root_is_dir = fi_is_dir info,
                               ps_paths = sort found\<rparr> # sets))))"

text \<open>\<open>push\<close> for one server; no file is copied when no connection could be made.\<close>

definition push_server ::
    "'r sftp_ops \<Rightarrow> source_ops \<Rightarrow> scp_job \<Rightarrow> string list \<Rightarrow> string \<Rightarrow> nat \<Rightarrow> 'r scp_world \<Rightarrow> 'r scp_world outcome" where
  "push_server fs src job displays server workers w =
     (case list_sources src displays 0 (sj_from job) of
        Failed e \<Rightarrow> Done (w\<lparr>sw_lines := sw_lines w @ [Message (err_message e)]\<rparr>)
      | Panicked \<Rightarrow> Panicked
      | Done sets \<Rightarrow> if workers = 0 then Done w else push_sets fs src job server sets w)"

section \<open>Between servers\<close>

text \<open>The walk of the source server and the files it opens; each target has its own file system.\<close>

record 'r via_world =
  vw_lines :: "scp_line list"
  vw_target :: "string \<Rightarrow> 'r scp_world"

definition at_target :: "string \<Rightarrow> ('r scp_world, unit) io \<Rightarrow> 'r via_world \<Rightarrow> 'r via_world" where
  "at_target server m w = w\<lparr>vw_target := (vw_target w)(server := ignored m (vw_target w server))\<rparr>"

definition via_directory :: "'r sftp_ops \<Rightarrow> bool \<Rightarrow> string \<Rightarrow> string \<Rightarrow> 'r via_world \<Rightarrow> 'r via_world" where
  "via_directory fs dry server p =
     at_target server (if dry then say (Dry_Run ''mkdir'' (server @ '':'' @ p)) else on_fs (sf_mkdir fs p))"

definition via_file ::
    "'r sftp_ops \<Rightarrow> (string \<Rightarrow> (string \<times> go_error option) result) \<Rightarrow> bool \<Rightarrow> string \<Rightarrow> string \<Rightarrow> string
      \<Rightarrow> 'r via_world \<Rightarrow> 'r via_world" where
  "via_file fs open_source dry source server p =
     at_target server
       (if dry then say (Dry_Run ''copy'' (source @ '':'' @ p @ '' -> '' @ server @ '':'' @ p))
        else (case open_source p of
                Inl e \<Rightarrow> say (Message (''Error: '' @ err_message e))
              | Inr reader \<Rightarrow> push_file fs False server p p reader))"

text \<open>One entry for all targets, each with its number of workers.\<close>

fun via_entry ::
    "'r sftp_ops \<Rightarrow> (string \<Rightarrow> (string \<times> go_error option) result) \<Rightarrow> bool \<Rightarrow> string \<Rightarrow> (string \<times> nat) list
      \<Rightarrow> string \<times> file_info \<Rightarrow> 'r via_world \<Rightarrow> 'r via_world option" where
  "via_entry fs open_source dry source [] entry w = Some w"
| "via_entry fs open_source dry source ((server, workers) # targets) entry w =
     (if fi_is_dir (snd entry)
      then via_entry fs open_source dry source targets entry (via_directory fs dry server (fst entry) w)
      else if workers = 0 then None
      else via_entry fs open_source dry source targets entry (via_file fs open_source dry source server (fst entry) w))"

fun via_entries ::
    "'r sftp_ops \<Rightarrow> (string \<Rightarrow> (string \<times> go_error option) result) \<Rightarrow> bool \<Rightarrow> string \<Rightarrow> (string \<times> nat) list
      \<Rightarrow> (string \<times> file_info) result list \<Rightarrow> 'r via_world \<Rightarrow> 'r via_world option" where
  "via_entries fs open_source dry source targets [] w = Some w"
| "via_entries fs open_source dry source targets (Inl e # es) w =
     via_entries fs open_source dry source targets es (w\<lparr>vw_lines := vw_lines w @ [Message (''Error: '' @ err_message e)]\<rparr>)"
| "via_entries fs open_source dry source targets (Inr entry # es) w =
     Option.bind (via_entry fs open_source dry source targets entry w) (via_entries fs open_source dry source targets es)"

text \<open>\<open>viaPush\<close> with the walks of all source paths one after the other.\<close>

definition via_push ::
    "'r sftp_ops \<Rightarrow> (string \<Rightarrow> (string \<times> file_info) result list) \<Rightarrow> (string \<Rightarrow> (string \<times> go_error option) result)
      \<Rightarrow> scp_job \<Rightarrow> string \<Rightarrow> (string \<times> nat) list \<Rightarrow> 'r via_world \<Rightarrow> 'r via_world option" where
  "via_push fs walk open_source job source targets w =
     (if targets = [] then Some (w\<lparr>vw_lines := vw_lines w @ [Message ''There is no host to connect to'']\<rparr>)
      else via_entries fs open_source (sj_dry_run job) source targets (concat (map walk (sj_from job))) w)"

section \<open>To this machine\<close>

record 'l local_ops =
  lo_is_dir :: "'l \<Rightarrow> string \<Rightarrow> bool"
  lo_mkdir_all :: "string \<Rightarrow> ('l, unit) io"
  lo_open :: "string \<Rightarrow> ('l, unit) io"
  lo_truncate :: "string \<Rightarrow> ('l, unit) io"
  lo_write :: "string \<Rightarrow> string \<Rightarrow> ('l, unit) io"
  lo_chmod :: "string \<Rightarrow> nat \<Rightarrow> ('l, unit) io"

record pull_source =
  pl_glob :: "string \<Rightarrow> string list result"
  pl_stat :: "string \<Rightarrow> file_info result"
  pl_walk :: "string \<Rightarrow> (string \<times> file_info) result list"
  pl_open :: "string \<Rightarrow> (string \<times> go_error option) result"

text \<open>What a worker does with a file. The directories are made before the dry run is looked at.\<close>

definition pull_file ::
    "'l local_ops \<Rightarrow> pull_source \<Rightarrow> scp_job \<Rightarrow> string \<Rightarrow> string \<Rightarrow> string \<Rightarrow> file_info \<Rightarrow> ('l scp_world, unit) io" where
  "pull_file lo src job server rpath lpath info =
     (case pl_open src rpath of
        Inl e \<Rightarrow> logged ''Error: '' (io_fail e)
      | Inr reader \<Rightarrow>
          io_bind (logged ''Error: '' (on_fs (lo_mkdir_all lo (path_dir lpath)))) (\<lambda>_.
          if sj_dry_run job
          then io_bind (say (Dry_Run ''copy'' (server @ '':'' @ rpath @ '' -> local:'' @ lpath)))
                 (\<lambda>_. if sj_permission job then say (Dry_Run ''chmod'' (''local:'' @ lpath)) else io_return ())
          else io_bind (logged ''Error: '' (io_bind (on_fs (lo_open lo lpath)) (\<lambda>_.
                          io_bind (on_fs (lo_truncate lo lpath)) (\<lambda>_. on_fs (copy_text (lo_write lo) lpath reader)))))
                 (\<lambda>_. if sj_permission job then (\<lambda>w. (Inr (), ignored (on_fs (lo_chmod lo lpath (fi_mode info))) w))
                      else io_return ())))"

definition pull_directory :: "'l local_ops \<Rightarrow> scp_job \<Rightarrow> string \<Rightarrow> ('l scp_world, unit) io" where
  "pull_directory lo job lpath =
     (if sj_dry_run job
      then io_bind (say (Dry_Run ''mkdir'' (''local:'' @ lpath)))
             (\<lambda>_. if sj_permission job then say (Dry_Run ''chmod'' (''local:'' @ lpath)) else io_return ())
      else (\<lambda>w. (Inr (), ignored (on_fs (lo_mkdir_all lo lpath)) w)))"

definition pull_target :: "string \<Rightarrow> bool \<Rightarrow> bool \<Rightarrow> string \<Rightarrow> string \<Rightarrow> string" where
  "pull_target destination preserve source_is_dir gp p =
     resolve_local_destination_path destination (rel_or_empty (scp_source_base gp source_is_dir preserve) p)
       (preserve \<or> source_is_dir)"

fun pull_entries ::
    "'l local_ops \<Rightarrow> pull_source \<Rightarrow> scp_job \<Rightarrow> string \<Rightarrow> nat \<Rightarrow> (string \<Rightarrow> string) \<Rightarrow> (string \<times> file_info) result list
      \<Rightarrow> 'l scp_world \<Rightarrow> 'l scp_world option" where
  "pull_entries lo src job server workers target [] w = Some w"
| "pull_entries lo src job server workers target (Inl e # es) w =
     pull_entries lo src job server workers target es (ignored (logged ''Error: '' (io_fail e)) w)"
| "pull_entries lo src job server workers target (Inr (p, info) # es) w =
     (if fi_is_dir info
      then pull_entries lo src job server workers target es (ignored (pull_directory lo job (target p)) w)
      else if workers = 0 then None
      else pull_entries lo src job server workers target es (ignored (pull_file lo src job server p (target p) info) w))"

fun pull_globbed ::
    "'l local_ops \<Rightarrow> pull_source \<Rightarrow> scp_job \<Rightarrow> string \<Rightarrow> nat \<Rightarrow> string \<Rightarrow> bool \<Rightarrow> string list
      \<Rightarrow> 'l scp_world \<Rightarrow> 'l scp_world option" where
  "pull_globbed lo src job server workers destination preserve [] w = Some w"
| "pull_globbed lo src job server workers destination preserve (gp # gps) w =
     (case pl_stat src gp of
        Inl e \<Rightarrow> pull_globbed lo src job server workers destination preserve gps (ignored (logged ''Error: '' (io_fail e)) w)
      | Inr info \<Rightarrow>
          Option.bind (pull_entries lo src job server workers (pull_target destination preserve (fi_is_dir info) gp) (pl_walk src gp) w)
            (pull_globbed lo src job server workers destination preserve gps))"

fun pull_sources ::
    "'l local_ops \<Rightarrow> pull_source \<Rightarrow> scp_job \<Rightarrow> string \<Rightarrow> nat \<Rightarrow> string \<Rightarrow> bool \<Rightarrow> string list
      \<Rightarrow> 'l scp_world \<Rightarrow> 'l scp_world option" where
  "pull_sources lo src job server workers destination is_dir [] w = Some w"
| "pull_sources lo src job server workers destination is_dir (p # ps) w =
     (case pl_glob src p of
        Inl e \<Rightarrow> pull_sources lo src job server workers destination is_dir ps (ignored (logged ''Error: '' (io_fail e)) w)
      | Inr gps \<Rightarrow>
          Option.bind (pull_globbed lo src job server workers destination (is_dir \<or> length gps > 1) gps w)
            (pull_sources lo src job server workers destination is_dir ps))"

text \<open>\<open>pullPath\<close> for one of \<open>servers\<close> servers.\<close>

definition pull_path ::
    "'l local_ops \<Rightarrow> pull_source \<Rightarrow> scp_job \<Rightarrow> nat \<Rightarrow> string \<Rightarrow> nat \<Rightarrow> 'l scp_world \<Rightarrow> 'l scp_world option" where
  "pull_path lo src job servers server workers w =
     (let is_dir = should_treat_local_destination_as_dir (lo_is_dir lo (sw_fs w)) (sj_to job)
                     (servers > 1 \<or> length (sj_from job) > 1)
      in if servers > 1
         then (let destination = path_join [sj_to job, server]
               in case (if sj_dry_run job then say (Dry_Run ''mkdir'' (''local:'' @ destination))
                        else logged ''Error: '' (on_fs (lo_mkdir_all lo destination))) w of
                    (Inl e, w) \<Rightarrow> Some w
                  | (Inr _, w) \<Rightarrow> pull_sources lo src job server workers destination is_dir (sj_from job) w)
         else pull_sources lo src job server workers (sj_to job) is_dir (sj_from job) w)"

section \<open>Where files land\<close>

lemma rel_or_empty_clean: "is_abs p \<Longrightarrow> rel_or_empty base (path_clean p) = rel_or_empty base p"
  using clean_elems_abs_path[OF clean_elems_proper, of p] by (simp add: rel_or_empty_def filepath_rel_def path_clean_abs)

lemma push_target_place:
  assumes "list_all proper_elem ts" "list_all proper_elem es" "es \<noteq> []" "list_all proper_elem fs"
    and "sj_to job = abs_path ts" "length (sj_from job) = 1" "ps_root ps = abs_path es" "ps_root_is_dir ps"
    and "path_clean p = abs_path (es @ fs)"
  shows "push_target exists_dir job ps p = abs_path (ts @ placed (exists_dir \<or> ts = []) es fs)"
proof -
  have proper: "list_all proper_elem (placed (exists_dir \<or> ts = []) es fs)" "list_all proper_elem (es @ fs)"
    using assms(2-4) by (simp_all add: placed_proper)
  have "rel_or_empty base p = rel_or_empty base (abs_path (es @ fs))" for base
    using rel_or_empty_clean[of p base] is_abs_path_clean[of p] unfolding assms(9) by simp
  then have "rel_or_empty (scp_source_base (abs_path es) True (exists_dir \<or> ts = [])) p
      = (if placed (exists_dir \<or> ts = []) es fs = [] then ''.'' else join_with ''/'' (placed (exists_dir \<or> ts = []) es fs))"
    using rel_to_source[OF assms(2-4), of True] by (simp add: rel_or_empty_def)
  then show ?thesis
    using resolve_remote_below[OF assms(1) proper(1)] assms(1,5-8)
    by (simp add: push_target_def Let_def should_treat_remote_destination_as_dir_def)
qed

lemma dir_entry_clean:
  "list_all proper_elem es \<Longrightarrow> es \<noteq> [] \<Longrightarrow> path_clean (abs_path es @ ''/'') = abs_path es"
  by (rule path_clean_trailing_slash)

text \<open>What is said of a path in a dry run.\<close>

definition action_lines :: "scp_job \<Rightarrow> string \<Rightarrow> path_set \<Rightarrow> string \<Rightarrow> file_info \<Rightarrow> string \<Rightarrow> scp_line list" where
  "action_lines job server ps p info rpath =
     (if fi_is_dir info then [Dry_Run ''mkdir'' (server @ '':'' @ rpath)]
      else [Dry_Run ''copy'' (''local:'' @ display_local_path (ps_root ps) (ps_display ps) p @ '' -> '' @ server @ '':'' @ rpath)])
     @ (if sj_permission job then [Dry_Run ''chmod'' (server @ '':'' @ rpath)] else [])"

lemma push_found_at_dry:
  "sj_dry_run job \<Longrightarrow> ignored (push_found_at fs src job server ps p info rpath) w =
     w\<lparr>sw_lines := sw_lines w @ action_lines job server ps p info rpath\<rparr>"
  by (simp add: push_found_at_def action_lines_def chmod_line_def ignored_def io_bind_def say_def io_modify_def
      io_return_def Let_def)

lemma push_path_at:
  "so_lstat src p = Inr info \<Longrightarrow> push_target (exists_as_directory fs (sw_fs w) (sj_to job)) job ps p = rpath \<Longrightarrow>
     push_path fs src job server ps p w = Done (ignored (push_found_at fs src job server ps p info rpath) w)"
  by (simp add: push_path_def push_found_def ignored_def io_bind_def io_read_def)

text \<open>A server on which a directory stays one, whatever is made, written or changed.\<close>

definition still_directory :: "'r sftp_ops \<Rightarrow> string \<Rightarrow> 'r \<Rightarrow> 'r \<Rightarrow> bool" where
  "still_directory fs p r r' = (exists_as_directory fs r p \<longrightarrow> exists_as_directory fs r' p)"

definition keeps_directory :: "'r sftp_ops \<Rightarrow> string \<Rightarrow> bool" where
  "keeps_directory fs p \<longleftrightarrow> (\<forall>q text mode.
       io_keeps (still_directory fs p) (sf_mkdir fs q) \<and> io_keeps (still_directory fs p) (sf_mkdir_all fs q)
     \<and> io_keeps (still_directory fs p) (sf_open fs q) \<and> io_keeps (still_directory fs p) (sf_truncate fs q)
     \<and> io_keeps (still_directory fs p) (sf_write fs q text) \<and> io_keeps (still_directory fs p) (sf_chmod fs q mode))"

abbreviation still :: "'r sftp_ops \<Rightarrow> string \<Rightarrow> 'r scp_world \<Rightarrow> 'r scp_world \<Rightarrow> bool" where
  "still fs p w w' \<equiv> still_directory fs p (sw_fs w) (sw_fs w')"

lemma still_laws [simp]:
  "reflp (still_directory fs p)" "transp (still_directory fs p)" "reflp (still fs p)" "transp (still fs p)"
  by (auto simp: still_directory_def reflp_def transp_def)

lemma on_fs_still: "io_keeps (still_directory fs p) m \<Longrightarrow> io_keeps (still fs p) (on_fs m)"
  by (simp add: io_keeps_def on_fs_def split_beta)

lemma logged_still: "io_keeps (still fs p) m \<Longrightarrow> io_keeps (still fs p) (logged text m)"
  by (auto simp: io_keeps_def logged_def split: prod.split sum.split) (metis snd_conv)+

lemma dropped_still: "io_keeps (still fs p) m \<Longrightarrow> io_keeps (still fs p) (\<lambda>w. (Inr u, ignored m w))"
  by (simp add: io_keeps_def ignored_def)

lemma copy_text_still:
  "(\<And>q text. io_keeps (still_directory fs p) (write q text)) \<Longrightarrow> io_keeps (still_directory fs p) (copy_text write q reader)"
  unfolding copy_text_def by (auto intro!: io_intros split: prod.split option.split)

lemma keeps_directoryD:
  assumes "keeps_directory fs p"
  shows "io_keeps (still_directory fs p) (sf_mkdir fs q)" "io_keeps (still_directory fs p) (sf_mkdir_all fs q)"
    "io_keeps (still_directory fs p) (sf_open fs q)" "io_keeps (still_directory fs p) (sf_truncate fs q)"
    "io_keeps (still_directory fs p) (sf_write fs q text)" "io_keeps (still_directory fs p) (sf_chmod fs q mode)"
  using assms unfolding keeps_directory_def by blast+

lemma push_found_at_still:
  assumes "keeps_directory fs d" and "\<not> sj_dry_run job" and "exists_as_directory fs (sw_fs w) d"
  shows "exists_as_directory fs (sw_fs (ignored (push_found_at fs src job server ps p info rpath) w)) d"
proof -
  note k = keeps_directoryD[OF assms(1)]
  have "io_keeps (still fs d) (push_found_at fs src job server ps p info rpath)"
    unfolding push_found_at_def push_file_def Let_def using assms(2)
    by (auto intro!: io_intros logged_still dropped_still on_fs_still copy_text_still k split: sum.split)
  then show ?thesis
    using assms(3) by (simp add: io_keeps_def ignored_def still_directory_def)
qed

text \<open>
  An entry of the listing of a source directory: the path as it is listed, the elements of the path below the
  source, and what the file system says of it.
\<close>

definition listed_entry :: "source_ops \<Rightarrow> string list \<Rightarrow> string \<times> string list \<times> file_info \<Rightarrow> bool" where
  "listed_entry src es = (\<lambda>(p, us, info). list_all proper_elem us \<and> path_clean p = abs_path (es @ us)
     \<and> so_lstat src p = Inr info)"

text \<open>All entries are copied while it does not change whether the destination is a directory.\<close>

lemma push_paths_dry_places:
  assumes "list_all proper_elem ts" "ts \<noteq> []" "list_all proper_elem es" "es \<noteq> []"
    and "sj_to job = abs_path ts" "sj_from job = [abs_path es]" "ps_root ps = abs_path es" "ps_root_is_dir ps"
    and "sj_dry_run job" "list_all (listed_entry src es) entries" "\<not> exists_as_directory fs (sw_fs w) (abs_path ts)"
  shows "push_paths fs src job server ps (map fst entries) w =
     Done (w\<lparr>sw_lines := sw_lines w @ concat (map (\<lambda>(p, us, info). action_lines job server ps p info (abs_path (ts @ us))) entries)\<rparr>)"
  using assms(10,11)
proof (induction entries arbitrary: w)
  case (Cons entry entries)
  obtain p us info where e: "entry = (p, us, info)"
    by (rule prod_cases3)
  have "push_target (exists_as_directory fs (sw_fs w) (sj_to job)) job ps p = abs_path (ts @ us)"
    using push_target_place[OF assms(1,3,4) _ assms(5) _ assms(7,8), of us p False] assms(2,5,6) Cons.prems e
    by (simp add: listed_entry_def placed_def)
  then have head: "push_path fs src job server ps p w =
      Done (w\<lparr>sw_lines := sw_lines w @ action_lines job server ps p info (abs_path (ts @ us))\<rparr>)" (is "_ = Done ?v")
    using push_path_at[of src p info fs w job ps _ server] Cons.prems(1) e
    by (simp add: listed_entry_def push_found_at_dry[OF assms(9)])
  have "\<not> exists_as_directory fs (sw_fs ?v) (abs_path ts)"
    using Cons.prems(2) by simp
  from Cons.IH[OF _ this] Cons.prems(1) show ?case
    by (simp add: e head)
qed simp

lemma push_paths_below:
  assumes "list_all proper_elem ts" "ts \<noteq> []" "list_all proper_elem es" "es \<noteq> []"
    and "sj_to job = abs_path ts" "sj_from job = [abs_path es]" "ps_root ps = abs_path es" "ps_root_is_dir ps"
    and "\<not> sj_dry_run job" "keeps_directory fs (abs_path ts)"
    and "list_all (listed_entry src es) entries" "exists_as_directory fs (sw_fs w) (abs_path ts)"
  shows "push_paths fs src job server ps (map fst entries) w =
     Done (fold (\<lambda>(p, us, info). ignored (push_found_at fs src job server ps p info (abs_path (ts @ last es # us)))) entries w)"
  using assms(11,12)
proof (induction entries arbitrary: w)
  case (Cons entry entries)
  obtain p us info where e: "entry = (p, us, info)"
    by (rule prod_cases3)
  have "push_target (exists_as_directory fs (sw_fs w) (sj_to job)) job ps p = abs_path (ts @ last es # us)"
    using push_target_place[OF assms(1,3,4) _ assms(5) _ assms(7,8), of us p True] assms(2,4,5,6) Cons.prems e
    by (simp add: listed_entry_def placed_def)
  then show ?case
    using Cons push_path_at[of src p info fs w job ps _ server] push_found_at_still[OF assms(10,9)] e
    by (simp add: listed_entry_def)
qed simp


section \<open>Dry runs\<close>

definition same_fs :: "'r scp_world \<Rightarrow> 'r scp_world \<Rightarrow> bool" where
  "same_fs w w' = (sw_fs w' = sw_fs w)"

lemma same_fs_laws [simp]: "reflp same_fs" "transp same_fs"
  by (auto simp: same_fs_def reflp_def transp_def)

lemma say_same [io_intros]: "io_keeps same_fs (say l)"
  by (simp add: io_keeps_def same_fs_def say_def io_modify_def)

lemma logged_same [io_intros]: "io_keeps same_fs m \<Longrightarrow> io_keeps same_fs (logged text m)"
  by (auto simp: io_keeps_def same_fs_def logged_def split: prod.split sum.split) (metis snd_conv)+

lemma push_found_dry: "sj_dry_run job \<Longrightarrow> io_keeps same_fs (push_found fs src job server ps p info)"
  unfolding push_found_def push_found_at_def Let_def chmod_line_def by (auto intro!: io_intros)

lemma push_paths_dry:
  "sj_dry_run job \<Longrightarrow> push_paths fs src job server ps paths w = Done w' \<Longrightarrow> same_fs w w'"
proof (induction fs src job server ps paths w rule: push_paths.induct)
  case (2 fs src job server ps p paths w)
  then obtain v where v: "push_path fs src job server ps p w = Done v" "push_paths fs src job server ps paths v = Done w'"
    by (auto simp: and_then_Done)
  then obtain info where "v = snd (push_found fs src job server ps p info w)"
    by (auto simp: push_path_def ignored_def split: sum.splits)
  then have "same_fs w v"
    using push_found_dry[OF 2(2), of fs src server ps p info] by (simp add: io_keeps_def)
  with 2(1)[OF 2(2) v(2)] show ?case
    by (simp add: same_fs_def)
qed (simp add: same_fs_def)

lemma push_sets_dry: "sj_dry_run job \<Longrightarrow> push_sets fs src job server sets w = Done w' \<Longrightarrow> same_fs w w'"
proof (induction fs src job server sets w rule: push_sets.induct)
  case (2 fs src job server ps sets w)
  then obtain v where v: "push_paths fs src job server ps (ps_paths ps) w = Done v" "push_sets fs src job server sets v = Done w'"
    by (auto simp: and_then_Done)
  with 2(1)[OF 2(2) v(2)] push_paths_dry[OF 2(2) v(1)] show ?case
    by (simp add: same_fs_def)
qed (simp add: same_fs_def)

text \<open>
  A dry run to a server leaves the server as it is. A dry run from a server does not leave this machine
  as it is: the worker makes the directory of each file before it looks at the flag.
\<close>

theorem dry_run_of_copies:
  assumes "sj_dry_run job"
  shows "(case push_server fs src job displays server workers w of Done w' \<Rightarrow> sw_fs w' = sw_fs w | _ \<Rightarrow> True)
    \<and> (case pl_open from_src rpath of Inl e \<Rightarrow> True
       | Inr reader \<Rightarrow> sw_fs (ignored (pull_file lo from_src job server rpath lpath info) v) = snd (lo_mkdir_all lo (path_dir lpath) (sw_fs v)))"
proof (intro conjI)
  show "case push_server fs src job displays server workers w of Done w' \<Rightarrow> sw_fs w' = sw_fs w | _ \<Rightarrow> True"
    using push_sets_dry[OF assms] by (auto simp: push_server_def same_fs_def split: outcome.splits)
  show "case pl_open from_src rpath of Inl e \<Rightarrow> True
       | Inr reader \<Rightarrow> sw_fs (ignored (pull_file lo from_src job server rpath lpath info) v) = snd (lo_mkdir_all lo (path_dir lpath) (sw_fs v))"
    using assms
    by (auto simp: pull_file_def ignored_def io_bind_def logged_def on_fs_def say_def io_modify_def io_return_def
        split: sum.split prod.split)
qed

text \<open>A server that knows its directories, and a source directory \<open>/home/d\<close> with one file.\<close>

definition dir_info :: "bool \<Rightarrow> file_info" where
  "dir_info b = \<lparr>fi_mode = 0, fi_size = 0, fi_mtime = 0, fi_is_dir = b\<rparr>"

definition dirs_only :: "string list sftp_ops" where
  "dirs_only = \<lparr>sf_lstat = (\<lambda>r p. if p \<in> set r then Inr (dir_info True) else errorf ''no such file''),
     sf_mkdir = (\<lambda>p r. (Inr (), p # r)), sf_mkdir_all = (\<lambda>p r. (Inr (), p # r)), sf_open = (\<lambda>p r. (Inr (), r)),
     sf_truncate = (\<lambda>p r. (Inr (), r)), sf_write = (\<lambda>p t r. (Inr (), r)), sf_chmod = (\<lambda>p m r. (Inr (), r))\<rparr>"

definition one_file_source :: source_ops where
  "one_file_source = \<lparr>so_lstat = (\<lambda>p. Inr (dir_info (p \<noteq> ''/home/d/f''))), so_walk = (\<lambda>p. []), so_open = (\<lambda>p. Inr (''text'', None))\<rparr>"

lemma dirs_only_keeps: "keeps_directory dirs_only p"
  by (auto simp: keeps_directory_def io_keeps_def still_directory_def exists_as_directory_def dirs_only_def errorf_def)


section \<open>Files from servers\<close>

text \<open>A file below a source of the server lands below the destination, at the same place.\<close>

theorem pull_lands_below:
  assumes "list_all proper_elem ts" "list_all proper_elem es" "es \<noteq> []" "list_all proper_elem us"
  shows "pull_target (abs_path ts) preserve is_dir (abs_path es) (abs_path (es @ us))
     = abs_path (ts @ (if preserve \<or> is_dir then placed preserve es us else []))"
proof (cases "preserve \<or> is_dir")
  case True
  then have "rel_or_empty (scp_source_base (abs_path es) is_dir preserve) (abs_path (es @ us))
      = (if placed preserve es us = [] then ''.'' else join_with ''/'' (placed preserve es us))"
    using rel_to_source[OF assms(2-4), of is_dir preserve] by (auto simp: rel_or_empty_def)
  with True resolve_local_below[OF assms(1) placed_proper[OF assms(2-4), of preserve]] show ?thesis
    by (simp add: pull_target_def)
next
  case False
  with assms(1) show ?thesis
    by (simp add: pull_target_def resolve_local_destination_path_def)
qed

lemma pull_lands_below_witness:
  "pull_target ''/tmp'' True True ''/srv/app'' ''/srv/app/a/b'' = ''/tmp/app/a/b''"
proof -
  have w: "list_all proper_elem [''tmp'']" "list_all proper_elem [''srv'', ''app'']" "list_all proper_elem [''a'', ''b'']"
    by code_simp+
  have "abs_path [''tmp''] = ''/tmp''" "abs_path [''srv'', ''app''] = ''/srv/app''" "abs_path ([''srv'', ''app''] @ [''a'', ''b'']) = ''/srv/app/a/b''"
      "abs_path ([''tmp''] @ (if True \<or> True then placed True [''srv'', ''app''] [''a'', ''b''] else [])) = ''/tmp/app/a/b''"
    by code_simp+
  then show ?thesis
    using pull_lands_below[OF w(1,2) _ w(3), of True True] by simp
qed

section \<open>Copies without a worker\<close>

definition is_file_entry :: "(string \<times> file_info) result \<Rightarrow> bool" where
  "is_file_entry e = (case e of Inl _ \<Rightarrow> False | Inr (p, i) \<Rightarrow> \<not> fi_is_dir i)"

lemma pull_entries_None:
  "pull_entries lo src job server workers target es w = None \<longleftrightarrow> workers = 0 \<and> list_ex is_file_entry es"
  by (induction lo src job server workers target es w rule: pull_entries.induct) (auto simp: is_file_entry_def)

lemma via_entry_None:
  "via_entry fs op dry source targets e w = None \<longleftrightarrow> \<not> fi_is_dir (snd e) \<and> list_ex (\<lambda>t. snd t = 0) targets"
  by (induction fs op dry source targets e w rule: via_entry.induct) auto

lemma via_entries_None:
  "via_entries fs op dry source targets es w = None \<longleftrightarrow> list_ex (\<lambda>t. snd t = 0) targets \<and> list_ex is_file_entry es"
proof (induction fs op dry source targets es w rule: via_entries.induct)
  case (3 fs op dry source targets e es w)
  have "fi_is_dir (snd e) \<longleftrightarrow> \<not> is_file_entry (Inr e)"
    by (simp add: is_file_entry_def split: prod.split)
  with 3 via_entry_None[of fs op dry source targets e w] show ?case
    by (cases "via_entry fs op dry source targets e w") auto
qed (simp_all add: is_file_entry_def)

lemma pull_globbed_returns: "workers \<noteq> 0 \<Longrightarrow> pull_globbed lo src job server workers destination preserve gps w \<noteq> None"
  by (induction lo src job server workers destination preserve gps w rule: pull_globbed.induct)
    (auto simp: pull_entries_None simp del: not_None_eq split: sum.splits bind_splits)

lemma pull_sources_returns: "workers \<noteq> 0 \<Longrightarrow> pull_sources lo src job server workers destination is_dir ps w \<noteq> None"
  by (induction lo src job server workers destination is_dir ps w rule: pull_sources.induct)
    (auto simp: pull_globbed_returns simp del: not_None_eq split: sum.splits bind_splits)

text \<open>
  A copy from a server returns when it has a worker. Without one, because the second connections were
  refused, it waits for ever at the first file; so does a copy between servers when one target has no
  worker, and it holds up the other targets.
\<close>

theorem copies_return_iff:
  "(pull_path lo src job servers server (Suc n) w \<noteq> None)
   \<and> (pull_entries lo src job server workers target es w = None \<longleftrightarrow> workers = 0 \<and> list_ex is_file_entry es)
   \<and> (via_push fs walk open_source job source targets v = None
       \<longleftrightarrow> list_ex (\<lambda>t. snd t = 0) targets \<and> list_ex is_file_entry (concat (map walk (sj_from job))))"
proof (intro conjI)
  show "pull_path lo src job servers server (Suc n) w \<noteq> None"
    by (simp add: pull_path_def Let_def pull_sources_returns del: not_None_eq split: prod.split sum.split)
  show "pull_entries lo src job server workers target es w = None \<longleftrightarrow> workers = 0 \<and> list_ex is_file_entry es"
    by (rule pull_entries_None)
  show "via_push fs walk open_source job source targets v = None
       \<longleftrightarrow> list_ex (\<lambda>t. snd t = 0) targets \<and> list_ex is_file_entry (concat (map walk (sj_from job)))"
    by (auto simp: via_push_def via_entries_None)
qed

text \<open>A copy between servers never looks at the destination: a file goes to the path it has.\<close>

lemma via_ignores_destination: "via_push fs walk open_source (job\<lparr>sj_to := p\<rparr>) source targets w = via_push fs walk open_source job source targets w"
  by (simp add: via_push_def)

end
