(* ===== verification/Plan_OpenSSH.thy ===== *)
theory Plan_OpenSSH
  imports Conf_Connector Go_HostPort
begin

text \<open>
  The connector that runs the ssh program: \<^verbatim>\<open>provider-connector-openssh/opensshlib/plan.go\<close> and the
  answers of \<^verbatim>\<open>provider-connector-openssh/main.go\<close> to \<open>connector.describe\<close> and \<open>connector.prepare\<close>. The
  accessors of \<^verbatim>\<open>providerapi/common.go\<close> are those of Prov_Data.
\<close>

section \<open>Settings\<close>

record openssh_target =
  ot_ssh_path :: string
  ot_host :: string
  ot_user :: string
  ot_port :: string
  ot_identity_file :: string
  ot_config_file :: string
  ot_known_hosts_file :: string
  ot_strict_checking :: string
  ot_batch_mode :: bool
  ot_forward_agent :: bool
  ot_extra_options :: "string list"

fun first_non_empty :: "string list \<Rightarrow> string" where
  "first_non_empty [] = ''''"
| "first_non_empty (v # vs) = (if trim_space v \<noteq> '''' then v else first_non_empty vs)"

fun first_string_slice :: "string list list \<Rightarrow> string list" where
  "first_string_slice [] = []"
| "first_string_slice (v # vs) = (if v \<noteq> [] then v else first_string_slice vs)"

definition parse_bool :: "table \<Rightarrow> string \<Rightarrow> bool" where
  "parse_bool raw key = (to_lower (provider_string raw key) \<in> set [''1'', ''true'', ''yes'', ''on''])"

definition config_from_maps :: "table \<Rightarrow> table \<Rightarrow> openssh_target result" where
  "config_from_maps provider target =
     (let both = (\<lambda>key. [provider_string target key, provider_string provider key]);
          cfg = \<lparr>ot_ssh_path = first_non_empty (both ''ssh_path'' @ [''ssh'']), ot_host = first_non_empty (both ''addr''),
                 ot_user = first_non_empty (both ''user''), ot_port = first_non_empty (both ''port''),
                 ot_identity_file = first_non_empty (provider_string target ''key'' # both ''identity_file''),
                 ot_config_file = first_non_empty (both ''ssh_config_file''),
                 ot_known_hosts_file = first_non_empty (both ''user_known_hosts_file''),
                 ot_strict_checking = first_non_empty (both ''strict_host_key_checking''),
                 ot_batch_mode = (parse_bool target ''batch_mode'' \<or> parse_bool provider ''batch_mode''),
                 ot_forward_agent = (parse_bool target ''forward_agent'' \<or> parse_bool provider ''forward_agent''),
                 ot_extra_options = first_string_slice [provider_string_slice target ''ssh_options'',
                   provider_string_slice provider ''ssh_options'']\<rparr>
      in if trim_space (ot_host cfg) = '''' then errorf ''target addr is required'' else Inr cfg)"

section \<open>Plans\<close>

definition flag_arg :: "string \<Rightarrow> string \<Rightarrow> string list" where
  "flag_arg flag v = (if v \<noteq> '''' then [flag, v] else [])"

definition option_arg :: "string \<Rightarrow> string \<Rightarrow> string list" where
  "option_arg name v = (if v \<noteq> '''' then [''-o'', name @ ''='' @ v] else [])"

definition base_args :: "openssh_target \<Rightarrow> string list" where
  "base_args cfg =
     flag_arg ''-F'' (ot_config_file cfg) @ flag_arg ''-l'' (ot_user cfg) @ flag_arg ''-p'' (ot_port cfg)
     @ flag_arg ''-i'' (ot_identity_file cfg) @ (if ot_forward_agent cfg then [''-A''] else [])
     @ (if ot_batch_mode cfg then [''-o'', ''BatchMode=yes''] else [])
     @ option_arg ''UserKnownHostsFile'' (ot_known_hosts_file cfg) @ option_arg ''StrictHostKeyChecking'' (ot_strict_checking cfg)
     @ concat (map (\<lambda>v. if trim_space v = '''' then [] else [''-o'', v]) (ot_extra_options cfg))"

definition destination :: "openssh_target \<Rightarrow> string" where
  "destination cfg = (if ot_user cfg = '''' then ot_host cfg else ot_user cfg @ ''@'' @ ot_host cfg)"

definition ssh_plan :: "openssh_target \<Rightarrow> string list \<Rightarrow> table \<Rightarrow> connector_plan" where
  "ssh_plan cfg args details =
     \<lparr>pl_kind = ''command'', pl_program = ot_ssh_path cfg, pl_args = args, pl_env = [],
      pl_details = (''connector'', D_String ''openssh'') # details\<rparr>"

definition build_shell_plan :: "openssh_target \<Rightarrow> connector_plan" where
  "build_shell_plan cfg =
     ssh_plan cfg (base_args cfg @ [destination cfg])
       [(''operation'', D_String ''shell''), (''transport'', D_String ''shell_transport'')]"

definition build_exec_plan :: "openssh_target \<Rightarrow> connector_operation \<Rightarrow> bool \<Rightarrow> connector_plan" where
  "build_exec_plan cfg op pty =
     ssh_plan cfg (base_args cfg @ (if co_name op = ''exec_pty'' \<or> pty then [''-tt''] else []) @ [destination cfg] @ co_command op)
       [(''operation'', D_String (co_name op)), (''transport'', D_String ''exec_transport'')]"

definition build_sftp_transport_plan :: "openssh_target \<Rightarrow> connector_plan" where
  "build_sftp_transport_plan cfg =
     ssh_plan cfg (base_args cfg @ [destination cfg, ''-s'', ''sftp''])
       [(''operation'', D_String ''sftp_transport''), (''transport'', D_String ''sftp_transport''), (''protocol'', D_String ''sftp'')]"

definition build_local_forward_plan :: "openssh_target \<Rightarrow> string \<Rightarrow> string \<Rightarrow> string \<Rightarrow> string \<Rightarrow> connector_plan" where
  "build_local_forward_plan cfg listen_host listen_port target_host target_port =
     ssh_plan cfg (base_args cfg
         @ [''-N'', ''-L'', join_host_port listen_host listen_port @ '':'' @ target_host @ '':'' @ target_port] @ [destination cfg])
       [(''operation'', D_String ''port_forward_local''), (''transport'', D_String ''port_forward_transport'')]"

section \<open>Answers of the connector\<close>

record capability =
  cap_supported :: bool
  cap_reason :: string
  cap_requires :: "string list"
  cap_preferred :: bool

definition capability_of :: "bool \<Rightarrow> string \<Rightarrow> string list \<Rightarrow> bool \<Rightarrow> capability" where
  "capability_of s r q p = \<lparr>cap_supported = s, cap_reason = r, cap_requires = q, cap_preferred = p\<rparr>"

definition unsupported_reason :: "bool \<Rightarrow> string \<Rightarrow> string" where
  "unsupported_reason supported reason = (if supported then '''' else reason)"

definition openssh_describe :: "string \<Rightarrow> table \<Rightarrow> connector_target \<Rightarrow> (string \<times> capability) list" where
  "openssh_describe os config target =
     (let supported = (case config_from_maps config (ct_config target) of Inl _ \<Rightarrow> False | Inr _ \<Rightarrow> True);
          reason = unsupported_reason supported ''target addr is required for openssh transport'';
          mount_supported = (supported \<and> (os = ''linux'' \<or> os = ''darwin''));
          mount_reason = (if \<not> supported then reason
                          else unsupported_reason mount_supported ''mount via sftp_transport currently supports linux and macos only'');
          cap = (\<lambda>requires preferred. capability_of supported reason requires preferred)
      in [(''shell'', cap [] True), (''exec'', cap [] True), (''exec_pty'', cap [] False), (''shell_transport'', cap [] False),
          (''exec_transport'', cap [] False), (''sftp_transport'', cap [] False), (''port_forward_transport'', cap [] False),
          (''upload'', cap [''sftp_transport''] False), (''download'', cap [''sftp_transport''] False),
          (''port_forward_local'', cap [''port_forward_transport''] False),
          (''port_forward_remote'', cap [''port_forward_transport''] False), (''agent_forward'', cap [] False),
          (''mount'', capability_of mount_supported mount_reason [''sftp_transport''] False)])"

definition refused_plan :: "string \<Rightarrow> string \<Rightarrow> string \<Rightarrow> prepare_result" where
  "refused_plan kind connector reason =
     \<lparr>pr_supported = False, pr_plan = \<lparr>pl_kind = kind, pl_program = '''', pl_args = [], pl_env = [],
        pl_details = [(''connector'', D_String connector), (''reason'', D_String reason)]\<rparr>\<rparr>"

definition planned :: "connector_plan \<Rightarrow> prepare_result" where
  "planned plan = \<lparr>pr_supported = True, pr_plan = plan\<rparr>"

definition openssh_prepare :: "string \<Rightarrow> table \<Rightarrow> connector_target \<Rightarrow> connector_operation \<Rightarrow> bool \<Rightarrow> prepare_result result" where
  "openssh_prepare os config target op pty =
     (case config_from_maps config (ct_config target) of Inl e \<Rightarrow> Inl e
      | Inr cfg \<Rightarrow>
          (let name = co_name op
           in Inr (if name = ''shell'' then planned (build_shell_plan cfg)
              else if name \<in> set [''exec'', ''exec_pty''] then planned (build_exec_plan cfg op pty)
              else if name \<in> set [''sftp_transport'', ''upload'', ''download''] then planned (build_sftp_transport_plan cfg)
              else if name = ''mount''
              then (if os \<noteq> ''linux'' \<and> os \<noteq> ''darwin''
                    then refused_plan ''command'' ''openssh'' ''mount via sftp_transport currently supports linux and macos only''
                    else planned (build_sftp_transport_plan cfg))
              else refused_plan ''command'' ''openssh''
                     (''operation '' @ quoted_text name @ '' is not supported by the openssh connector''))))"

section \<open>What is described and what is prepared\<close>

definition prepared_names :: "string list" where
  "prepared_names = [''shell'', ''exec'', ''exec_pty'', ''sftp_transport'', ''upload'', ''download'', ''mount'']"

text \<open>
  For every capability the connector lists, preparing that operation agrees with what is described only
  for seven of them: the two kinds of port forwarding, the agent and three transports are described as
  supported whenever there is an address, and refused when they are prepared.
\<close>

theorem openssh_described_but_refused:
  assumes "(name, cap) \<in> set (openssh_describe os config target)" "config_from_maps config (ct_config target) = Inr cfg"
    "co_name op = name"
  shows "case openssh_prepare os config target op pty of
      Inl e \<Rightarrow> False
    | Inr r \<Rightarrow> (pr_supported r \<longleftrightarrow> cap_supported cap \<and> name \<in> set prepared_names)
        \<and> (cap_supported cap \<longleftrightarrow> name \<noteq> ''mount'' \<or> os = ''linux'' \<or> os = ''darwin'')"
  using assms
  by (auto simp: openssh_describe_def openssh_prepare_def Let_def capability_of_def planned_def refused_plan_def prepared_names_def)

lemma openssh_described_but_refused_witness:
  "\<exists>cap. (''port_forward_local'', cap) \<in> set (openssh_describe ''linux'' [(''addr'', D_String ''h'')] \<lparr>ct_name = '''', ct_config = [], ct_meta = []\<rparr>)
     \<and> cap_supported cap
     \<and> (case openssh_prepare ''linux'' [(''addr'', D_String ''h'')] \<lparr>ct_name = '''', ct_config = [], ct_meta = []\<rparr>
            \<lparr>co_name = ''port_forward_local'', co_command = [], co_options = []\<rparr> False of
          Inl e \<Rightarrow> False | Inr r \<Rightarrow> \<not> pr_supported r)"
proof -
  let ?t = "\<lparr>ct_name = '''', ct_config = [], ct_meta = []\<rparr>"
  let ?op = "\<lparr>co_name = ''port_forward_local'', co_command = [], co_options = []\<rparr>"
  have ok: "case config_from_maps [(''addr'', D_String ''h'')] (ct_config ?t) of Inl _ \<Rightarrow> False | Inr _ \<Rightarrow> True"
    by code_simp
  then obtain cfg where cfg: "config_from_maps [(''addr'', D_String ''h'')] (ct_config ?t) = Inr cfg"
    by (auto split: sum.splits)
  let ?cap = "capability_of True '''' [''port_forward_transport''] False"
  have c: "(''port_forward_local'', ?cap) \<in> set (openssh_describe ''linux'' [(''addr'', D_String ''h'')] ?t)"
    using cfg by (simp add: openssh_describe_def Let_def unsupported_reason_def)
  have "co_name ?op = ''port_forward_local''"
    by simp
  from openssh_described_but_refused[OF c cfg this, of False] c show ?thesis
    by (auto simp: capability_of_def prepared_names_def split: sum.splits)
qed

text \<open>Options stand before the destination, the command behind it; the destination counts as an option
  when it starts with a hyphen, since nothing separates it from the options.\<close>

lemma exec_arguments:
  "pl_args (build_exec_plan cfg op pty) =
     base_args cfg @ (if co_name op = ''exec_pty'' \<or> pty then [''-tt''] else []) @ destination cfg # co_command op"
  by (simp add: build_exec_plan_def ssh_plan_def)

lemma destination_as_option: "ot_user cfg = '''' \<Longrightarrow> has_prefix (destination cfg) ''-'' \<longleftrightarrow> has_prefix (ot_host cfg) ''-''"
  by (simp add: destination_def)

end
