(* ===== verification/Prov_Source.thy ===== *)
theory Prov_Source
  imports Prov_Data
begin

text \<open>
  How a provider finds its secrets, \<^verbatim>\<open>providerapi/common.go\<close>: a setting of its own, a variable of the
  environment, or a file of assignments as a shell would read it.
\<close>

section \<open>Paths\<close>

text \<open>\<open>expandPath\<close>; \<open>None\<close> is an unknown home directory.\<close>

definition expand_path :: "string option \<Rightarrow> string \<Rightarrow> string" where
  "expand_path home path =
     (case home of
        None \<Rightarrow> path
      | Some h \<Rightarrow> if path = ''~'' then h
                  else if has_prefix path ''~/'' then path_join [h, trim_prefix path ''~/''] else path)"

section \<open>Files of assignments\<close>

text \<open>\<open>strings.Trim\<close> with a set of bytes.\<close>

definition trim_set :: "char list \<Rightarrow> string \<Rightarrow> string" where
  "trim_set cs s = rev (dropWhile (\<lambda>c. c \<in> set cs) (rev (dropWhile (\<lambda>c. c \<in> set cs) s)))"

text \<open>
  \<open>bufio.Scanner\<close> over lines: a line ends before a line feed and loses one carriage return, an empty
  rest is no line, and a line that fills the buffer of 64 KiB is an error.
\<close>

definition drop_cr :: "string \<Rightarrow> string" where
  "drop_cr l = (if l \<noteq> '''' \<and> last l = CHR 0x0D then butlast l else l)"

definition scan_lines :: "string \<Rightarrow> string list result" where
  "scan_lines text =
     (let ls = split_on (CHR 0x0A) text; ls = (if last ls = '''' then butlast ls else ls)
      in if list_ex (\<lambda>l. 65536 \<le> length l) ls then errorf ''bufio.Scanner: token too long'' else Inr (map drop_cr ls))"

definition quote_chars :: "char list" where
  "quote_chars = [CHR 0x22, CHR 0x27]"

definition env_line :: "string \<Rightarrow> (string \<times> string) list \<Rightarrow> (string \<times> string) list" where
  "env_line raw vals =
     (let line = trim_space raw
      in if line = '''' \<or> has_prefix line ''#'' then vals
         else (case split_at CHR ''='' (trim_prefix line ''export '') of
                 None \<Rightarrow> vals
               | Some (k, v) \<Rightarrow> AList.update (trim_space k) (trim_set quote_chars (trim_space v)) vals))"

text \<open>\<open>read_file\<close> gives the text of a file.\<close>

definition read_env_source_file ::
    "(string \<Rightarrow> string result) \<Rightarrow> string option \<Rightarrow> string \<Rightarrow> (string \<times> string) list result" where
  "read_env_source_file read_file home path =
     (case read_file (expand_path home path) of Inl e \<Rightarrow> Inl e
      | Inr text \<Rightarrow> (case scan_lines text of Inl e \<Rightarrow> Inl e | Inr ls \<Rightarrow> Inr (fold env_line ls [])))"

section \<open>Settings that may stand elsewhere\<close>

definition upper_char :: "char \<Rightarrow> char" where
  "upper_char c = (if 97 \<le> (of_char c :: nat) \<and> (of_char c :: nat) \<le> 122 then char_of ((of_char c :: nat) - 32) else c)"

text \<open>The name of the variable a file defines for a setting; the case of ASCII letters only.\<close>

definition source_env_name :: "table \<Rightarrow> string \<Rightarrow> string" where
  "source_env_name raw key =
     (let name = provider_string raw (key @ ''_source_env'')
      in if name = '''' then map upper_char (map (\<lambda>c. if c = CHR ''-'' then CHR ''_'' else c) key) else name)"

definition lookup_text :: "(string \<times> string) list \<Rightarrow> string \<Rightarrow> string" where
  "lookup_text m key = (case map_of m key of None \<Rightarrow> '''' | Some v \<Rightarrow> v)"

record source_env =
  se_getenv :: "string \<Rightarrow> string"
  se_read :: "string \<Rightarrow> string result"
  se_home :: "string option"

definition resolve_config_value :: "source_env \<Rightarrow> table \<Rightarrow> string \<Rightarrow> string result" where
  "resolve_config_value env raw key =
     (let own = provider_string raw key; env_name = provider_string raw (key @ ''_env'');
          path = provider_string raw (key @ ''_source'')
      in if own \<noteq> '''' then Inr own
         else if env_name \<noteq> ''''
         then (if se_getenv env env_name = ''''
               then errorf (key @ ''_env is set but environment variable '' @ quoted_text env_name @ '' is empty'')
               else Inr (se_getenv env env_name))
         else if path \<noteq> ''''
         then (case read_env_source_file (se_read env) (se_home env) path of Inl e \<Rightarrow> Inl e
               | Inr vals \<Rightarrow>
                   (let v = lookup_text vals (source_env_name raw key)
                    in if v = '''' then errorf (key @ ''_source did not define '' @ quoted_text (source_env_name raw key)) else Inr v))
         else Inr '''')"

section \<open>What a written file reads back as\<close>

text \<open>A byte that is neither white space nor part of a rune that is.\<close>

definition solid_char :: "char \<Rightarrow> bool" where
  "solid_char c \<longleftrightarrow> \<not> ascii_space c \<and> (of_char c :: nat) < 128"

lemma space_len_solid:
  assumes "solid_char c" "\<forall>w \<in> set ws. w \<noteq> [] \<and> 128 \<le> (of_char (hd w) :: nat)"
  shows "space_len ws (c # s) = 0"
proof -
  have "\<not> has_prefix (c # s) w" if "w \<in> set ws" for w
    using assms that by (cases w) (auto simp: solid_char_def)
  then have "find (has_prefix (c # s)) ws = None"
    by (auto simp: find_None_iff)
  with assms(1) show ?thesis
    by (simp add: space_len_def solid_char_def)
qed

lemma wide_heads:
  "\<forall>w \<in> set wide_spaces. w \<noteq> [] \<and> 128 \<le> (of_char (hd w) :: nat)"
  "\<forall>w \<in> set (map rev wide_spaces). w \<noteq> [] \<and> 128 \<le> (of_char (hd w) :: nat)"
  by (simp_all add: wide_spaces_def)

lemma trim_left_with_zero: "space_len ws s = 0 \<Longrightarrow> trim_left_with ws s = s"
  by (simp add: trim_left_with.simps)

lemma trim_space_solid:
  assumes "s = '''' \<or> solid_char (hd s) \<and> solid_char (last s)"
  shows "trim_space s = s"
proof (cases s rule: rev_cases)
  case Nil
  then show ?thesis
    by (simp add: trim_space_def trim_right_def trim_left_def trim_left_with_zero space_len_def)
next
  case (snoc t c)
  have "trim_left s = s"
    using assms snoc space_len_solid[OF _ wide_heads(1)] unfolding trim_left_def
    by (metis list.collapse snoc_eq_iff_butlast trim_left_with_zero)
  moreover have "trim_right s = s"
    using assms space_len_solid[OF _ wide_heads(2), of c "rev t"] unfolding trim_right_def snoc
    by (simp add: trim_left_with_zero)
  ultimately show ?thesis
    by (simp add: trim_space_def)
qed

definition plain_name :: "string \<Rightarrow> bool" where
  "plain_name k \<longleftrightarrow> k \<noteq> '''' \<and> list_all solid_char k \<and> CHR ''='' \<notin> set k"

definition plain_value :: "string \<Rightarrow> bool" where
  "plain_value v \<longleftrightarrow> CHR 0x0A \<notin> set v \<and> (v \<noteq> '''' \<longrightarrow> hd v \<notin> set quote_chars \<and> last v \<notin> set quote_chars)"

definition assignment :: "string \<times> string \<Rightarrow> string" where
  "assignment kv = ''export '' @ fst kv @ ''='' @ CHR 0x22 # snd kv @ [CHR 0x22]"

definition source_text :: "(string \<times> string) list \<Rightarrow> string" where
  "source_text kvs = concat (map (\<lambda>kv. assignment kv @ [CHR 0x0A]) kvs)"

lemma trim_set_quotes: "plain_value v \<Longrightarrow> trim_set quote_chars (CHR 0x22 # v @ [CHR 0x22]) = v"
proof (cases v rule: rev_cases)
  case (snoc t c)
  assume "plain_value v"
  then have "hd v \<notin> set quote_chars" "c \<notin> set quote_chars"
    using snoc by (auto simp: plain_value_def)
  moreover from this have "dropWhile (\<lambda>c. c \<in> set quote_chars) (v @ [CHR 0x22]) = v @ [CHR 0x22]"
    using snoc by (cases t) simp_all
  ultimately show ?thesis
    using snoc by (simp add: trim_set_def quote_chars_def)
qed (simp add: trim_set_def quote_chars_def)

lemma solid_ends: "solid_char CHR ''e''" "solid_char CHR 0x22"
  by code_simp+

lemma env_line_assignment:
  assumes "plain_name (fst kv)" "plain_value (snd kv)"
  shows "env_line (assignment kv) vals = AList.update (fst kv) (snd kv) vals"
proof -
  obtain k v where kv: "kv = (k, v)"
    by fastforce
  have line: "trim_space (assignment kv) = assignment kv"
    by (rule trim_space_solid) (simp add: assignment_def solid_ends)
  have rest: "trim_prefix (assignment kv) ''export '' = k @ CHR ''='' # CHR 0x22 # v @ [CHR 0x22]"
    unfolding kv assignment_def by (simp only: trim_prefix_append fst_conv snd_conv) simp
  have split: "split_at CHR ''='' (k @ CHR ''='' # CHR 0x22 # v @ [CHR 0x22]) = Some (k, CHR 0x22 # v @ [CHR 0x22])"
    using assms(1) by (simp add: split_at_Some plain_name_def kv)
  have name: "trim_space k = k"
    using assms(1) by (intro trim_space_solid) (auto simp: plain_name_def kv list_all_iff)
  have quoted: "trim_space (CHR 0x22 # v @ [CHR 0x22]) = CHR 0x22 # v @ [CHR 0x22]"
    by (rule trim_space_solid) (simp add: solid_ends)
  have "\<not> has_prefix (assignment kv) ''#''" "assignment kv \<noteq> ''''"
    by (simp_all add: assignment_def)
  then show ?thesis
    using trim_set_quotes assms(2) by (simp add: env_line_def Let_def line[unfolded kv] rest[unfolded kv] split name quoted kv)
qed

lemma split_source_text:
  "(\<forall>kv \<in> set kvs. CHR 0x0A \<notin> set (assignment kv)) \<Longrightarrow> split_on CHR 0x0A (source_text kvs) = map assignment kvs @ ['''']"
  by (induction kvs) (auto simp: source_text_def split_on_append)

lemma assignment_one_line:
  assumes "plain_name (fst kv)" "plain_value (snd kv)"
  shows "CHR 0x0A \<notin> set (assignment kv)"
  using assms by (auto simp: assignment_def plain_name_def plain_value_def list_all_iff solid_char_def ascii_space_def)

lemma map_of_updates: "map_of (fold (\<lambda>kv. AList.update (fst kv) (snd kv)) kvs vals) = map_of vals ++ map_of (rev kvs)"
  by (induction kvs arbitrary: vals) (auto simp: update_conv' map_add_def fun_eq_iff split: option.splits)

lemma scan_source_text:
  assumes "\<forall>kv \<in> set kvs. plain_name (fst kv) \<and> plain_value (snd kv) \<and> length (assignment kv) < 65536"
  shows "scan_lines (source_text kvs) = Inr (map assignment kvs)"
proof -
  have "drop_cr (assignment kv) = assignment kv" for kv
    by (simp add: drop_cr_def assignment_def)
  then show ?thesis
    using assms assignment_one_line
    by (subst scan_lines_def, subst split_source_text) (auto simp: Let_def list_ex_iff not_le)
qed

lemma read_source_text:
  assumes "\<forall>kv \<in> set kvs. plain_name (fst kv) \<and> plain_value (snd kv) \<and> length (assignment kv) < 65536"
    and "read_file (expand_path home path) = Inr (source_text kvs)"
  shows "\<exists>vals. read_env_source_file read_file home path = Inr vals \<and> map_of vals = map_of (rev kvs)"
proof -
  have "fold env_line (map assignment kvs) vals = fold (\<lambda>kv. AList.update (fst kv) (snd kv)) kvs vals" for vals
    using assms(1) by (induction kvs arbitrary: vals) (simp_all add: env_line_assignment)
  then show ?thesis
    using scan_source_text[OF assms(1)] assms(2) map_of_updates[of kvs "[]"] by (simp add: read_env_source_file_def)
qed

text \<open>
  A setting that is kept in a file of exported, quoted assignments is read back, the last assignment of
  its variable winning; a value that itself starts or ends with a quote is not.
\<close>

theorem source_setting_roundtrip:
  assumes "\<forall>kv \<in> set kvs. plain_name (fst kv) \<and> plain_value (snd kv) \<and> length (assignment kv) < 65536"
    and "se_read env (expand_path (se_home env) (provider_string raw (key @ ''_source''))) = Inr (source_text kvs)"
    and "provider_string raw key = ''''" "provider_string raw (key @ ''_env'') = ''''" "provider_string raw (key @ ''_source'') \<noteq> ''''"
    and "map_of (rev kvs) (source_env_name raw key) = Some v" "v \<noteq> ''''"
  shows "resolve_config_value env raw key = Inr v"
proof -
  obtain vals where "read_env_source_file (se_read env) (se_home env) (provider_string raw (key @ ''_source'')) = Inr vals"
      "map_of vals = map_of (rev kvs)"
    using read_source_text[of kvs "se_read env" "se_home env"] assms(1,2) by blast
  with assms(3-7) show ?thesis
    by (simp add: resolve_config_value_def lookup_text_def)
qed

lemma source_setting_roundtrip_witness:
  "resolve_config_value \<lparr>se_getenv = (\<lambda>_. ''''), se_read = (\<lambda>_. Inr (source_text [(''SECRET'', ''a = b''), (''SECRET'', ''c#'')])),
      se_home = None\<rparr> [(''secret_source'', D_String ''~/azure.env'')] ''secret'' = Inr ''c#''"
proof (rule source_setting_roundtrip[where kvs = "[(''SECRET'', ''a = b''), (''SECRET'', ''c#'')]"])
  show "\<forall>kv \<in> set [(''SECRET'', ''a = b''), (''SECRET'', ''c#'')].
      plain_name (fst kv) \<and> plain_value (snd kv) \<and> length (assignment kv) < 65536"
    by (simp add: plain_name_def plain_value_def assignment_def solid_char_def ascii_space_def quote_chars_def)
next
  have "source_env_name [(''secret_source'', D_String ''~/azure.env'')] ''secret'' = ''SECRET''"
    by code_simp
  then show "map_of (rev [(''SECRET'', ''a = b''), (''SECRET'', ''c#'')])
      (source_env_name [(''secret_source'', D_String ''~/azure.env'')] ''secret'') = Some ''c#''"
    by simp
qed (simp_all add: provider_string_def)

end
