(* ===== verification/Plan_Dial.thy ===== *)
theory Plan_Dial
  imports Plan_OpenSSH Prov_Source Conn_Run
begin

text \<open>
  What the connectors of the cloud providers have in common: the plans a provider carries out itself,
  and the contract of a connector whose plan for a transport depends on the port it is asked for, and not
  on the host.
\<close>

definition managed_plan :: "table \<Rightarrow> connector_plan" where
  "managed_plan details = \<lparr>pl_kind = ''provider-managed'', pl_program = '''', pl_args = [], pl_env = [], pl_details = details\<rparr>"

text \<open>The options of an operation, as the providers of GCP and of Azure read them.\<close>

definition option_string :: "table \<Rightarrow> string \<Rightarrow> string" where
  "option_string raw key =
     (case map_of raw key of None \<Rightarrow> '''' | Some v \<Rightarrow> if v = D_Nil then '''' else trim_space (sprint v))"

text \<open>A program and its arguments.\<close>

definition runtime_plan :: "string \<Rightarrow> string \<Rightarrow> string \<Rightarrow> string list \<Rightarrow> prepare_result" where
  "runtime_plan program connector name args =
     planned \<lparr>pl_kind = ''command'', pl_program = program, pl_args = args, pl_env = [],
       pl_details = [(''connector'', D_String connector), (''operation'', D_String name), (''runtime'', D_String ''command'')]\<rparr>"

lemma plain_port: "list_all is_digit port \<Longrightarrow> CHR '':'' \<notin> set port \<and> CHR ''['' \<notin> set port \<and> CHR '']'' \<notin> set port"
  by (auto simp: list_all_iff is_digit_def)

locale port_only_connector =
  fixes prepare :: "table \<Rightarrow> connector_target \<Rightarrow> connector_operation \<Rightarrow> prepare_result result"
  assumes same_port: "co_name op = ''tcp_dial_transport'' \<Longrightarrow> co_name op' = ''tcp_dial_transport'' \<Longrightarrow>
    map_of (co_options op) ''target_port'' = map_of (co_options op') ''target_port'' \<Longrightarrow>
    prepare raw target op = prepare raw target op'"
begin

lemma dial_ignores_host:
  assumes "pc_prepare p = (\<lambda>name. prepare)"
    and "CHR ''['' \<notin> set h" "CHR '']'' \<notin> set h" "CHR ''['' \<notin> set h'" "CHR '']'' \<notin> set h'" "list_all is_digit port"
  shows "dial_connector_target p site server ''tcp'' (join_host_port h port)
     = dial_connector_target p site server ''tcp'' (join_host_port h' port)"
proof -
  define op where "op h = operation ''tcp_dial_transport''\<lparr>co_options := [(''target_host'', D_String h), (''target_port'', D_String port)]\<rparr>" for h
  have "prepare raw target (op h) = prepare raw target (op h')" for raw target
    by (rule same_port) (simp_all add: op_def operation_def)
  then have asked: "prepare_connector p site server (op h) = prepare_connector p site server (op h')"
    by (simp add: prepare_connector_def assms(1))
  have read: "prepared_connector_from_provider r c (op h) = prepared_connector_from_provider r c (op h')" for r c
    by (simp add: prepared_connector_from_provider_def supports_local_rc_def shares_shell_forward_def managed_ssh_plan_def op_def
        operation_def Let_def)
  have "prepare_connector_operation p site server (op h) = prepare_connector_operation p site server (op h')"
    unfolding prepare_connector_operation_def prepare_connector_runtime_def asked read ..
  then have "prepare_dial_transport p site server h port = prepare_dial_transport p site server h' port"
    by (simp add: prepare_dial_transport_def op_def)
  then show ?thesis
    using plain_port[OF assms(6)] assms(2-5) by (simp add: dial_connector_target_def split_join_host_port wrap_error_def)
qed

end

end
