(* ===== verification/Plan_Aws.thy ===== *)
theory Plan_Aws
  imports Plan_Dial
begin

text \<open>
  The connectors of the AWS provider, \<^verbatim>\<open>provider-mixed-aws-ec2/connector.go\<close> with the commands of
  \<^verbatim>\<open>eiceconnector/eiceconnector.go\<close>: Session Manager (\<open>aws-ssm\<close>) and EC2 Instance Connect (\<open>aws-eice\<close>).
  What Systems Manager says of an instance and the home directory are parameters. Only ASCII letters
  change their case.
\<close>

section \<open>Settings\<close>

definition meta_string :: "connector_target \<Rightarrow> string \<Rightarrow> string" where
  "meta_string target key = (case map_of (ct_meta target) key of None \<Rightarrow> '''' | Some v \<Rightarrow> v)"

definition aws_bool :: "table \<Rightarrow> string \<Rightarrow> bool \<Rightarrow> bool" where
  "aws_bool raw key def =
     (let v = trim_space (to_lower (provider_string raw key))
      in if v = '''' then def
         else if v \<in> set [''1'', ''true'', ''yes'', ''on''] then True
         else if v \<in> set [''0'', ''false'', ''no'', ''off''] then False else def)"

definition aws_option_bool :: "table \<Rightarrow> string \<Rightarrow> bool" where
  "aws_option_bool raw key =
     (case map_of raw key of
        Some (D_Bool b) \<Rightarrow> b
      | Some (D_String s) \<Rightarrow> trim_space (to_lower s) \<in> set [''1'', ''true'', ''yes'', ''on'']
      | _ \<Rightarrow> False)"

definition aws_option_string :: "table \<Rightarrow> string \<Rightarrow> string" where
  "aws_option_string raw key = detail_string raw key"

record ssm_target =
  st_instance_id :: string
  st_region :: string
  st_platform :: string
  st_shell_document :: string
  st_command_document :: string
  st_require_online :: bool

record ssm_probe =
  sp_managed :: bool
  sp_online :: bool
  sp_platform :: string

text \<open>The settings of a target, from its metadata, its own table and that of the provider.\<close>

definition aws_setting :: "table \<Rightarrow> connector_target \<Rightarrow> string \<Rightarrow> string \<Rightarrow> string" where
  "aws_setting config target meta key =
     first_non_empty [meta_string target meta, provider_string (ct_config target) key, provider_string config key]"

definition missing_keys :: "string \<Rightarrow> string \<Rightarrow> string list" where
  "missing_keys instance_id region =
     (if instance_id = '''' then [''instance_id''] else []) @ (if region = '''' then [''region''] else [])"

definition ssm_target_from_params :: "table \<Rightarrow> connector_target \<Rightarrow> ssm_target \<times> string list" where
  "ssm_target_from_params config target =
     (let r = \<lparr>st_instance_id = aws_setting config target ''instance_id'' ''instance_id'',
               st_region = aws_setting config target ''region'' ''region'',
               st_platform = to_lower (aws_setting config target ''platform'' ''platform''),
               st_shell_document = provider_string config ''ssm_shell_document'',
               st_command_document = provider_string config ''ssm_interactive_command_document'',
               st_require_online = aws_bool config ''ssm_require_online'' True\<rparr>
      in (r, missing_keys (st_instance_id r) (st_region r)))"

definition ssm_shell_runtime :: "table \<Rightarrow> string" where
  "ssm_shell_runtime config =
     (if to_lower (trim_space (provider_string config ''ssm_shell_runtime'')) = ''native'' then ''native'' else ''plugin'')"

definition ssm_port_forward_runtime :: "table \<Rightarrow> string" where
  "ssm_port_forward_runtime config =
     (let v = to_lower (trim_space (provider_string config ''ssm_port_forward_runtime''))
      in if v = ''plugin'' then ''plugin'' else if v = ''native'' then ''native'' else ssm_shell_runtime config)"

definition aws_connector_name :: "table \<Rightarrow> connector_target \<Rightarrow> string" where
  "aws_connector_name config target =
     (let own = trim_space (provider_string (ct_config target) ''connector_name'')
      in if own \<noteq> '''' then own else trim_space (provider_string config ''default_connector_name''))"

section \<open>Probing an instance\<close>

text \<open>\<open>None\<close> when Systems Manager does not know the instance, else whether it answers, and its platform.\<close>

definition ssm_probe_of :: "ssm_target \<Rightarrow> (bool \<times> string) option \<Rightarrow> ssm_probe" where
  "ssm_probe_of target info =
     (case info of
        None \<Rightarrow> \<lparr>sp_managed = False, sp_online = False, sp_platform = st_platform target\<rparr>
      | Some (online, platform) \<Rightarrow>
          \<lparr>sp_managed = True, sp_online = (online \<or> \<not> st_require_online target),
           sp_platform = (if st_platform target = '''' then to_lower platform else st_platform target)\<rparr>)"

definition ssm_unsupported_reason :: "ssm_probe \<Rightarrow> string \<Rightarrow> string" where
  "ssm_unsupported_reason probe fallback =
     (if \<not> sp_managed probe then ''target is not managed by AWS Systems Manager''
      else if \<not> sp_online probe then ''target is managed by AWS Systems Manager but not online'' else fallback)"

section \<open>Operations\<close>

definition ssm_session_action :: "connector_operation \<Rightarrow> (string \<times> string) result" where
  "ssm_session_action op =
     (let attach = aws_option_bool (co_options op) ''attach''; detach = aws_option_bool (co_options op) ''detach'';
          session = trim_space (aws_option_string (co_options op) ''session_id'')
      in if co_name op \<noteq> ''shell'' \<and> (attach \<or> detach \<or> session \<noteq> '''')
         then errorf ''attach/detach options are only supported for shell operations''
         else if attach \<and> detach then errorf ''attach and detach cannot be used together''
         else if (attach \<or> detach) \<and> co_command op \<noteq> [] then errorf ''attach/detach options cannot be used with command arguments''
         else if attach then (if session = '''' then errorf ''attach requires session_id'' else Inr (''attach'', session))
         else if session \<noteq> '''' then errorf ''session_id can only be used together with attach''
         else if detach then Inr (''detach'', '''') else Inr (''start'', ''''))"

text \<open>\<open>net.ParseIP\<close> takes no zone; an address of the form \<open>::ffff:a.b.c.d\<close> is an IPv4 address.\<close>

definition is_loopback_ip :: "string \<Rightarrow> bool" where
  "is_loopback_ip s =
     (case parse_addr s of None \<Rightarrow> False
      | Some a \<Rightarrow> (case unmap a of
            Ip4 w \<Rightarrow> drop_bit 24 w = 127
          | Ip6 w z \<Rightarrow> z = '''' \<and> w = 1))"

definition is_loopback_host :: "string \<Rightarrow> bool" where
  "is_loopback_host host =
     (let n = trim_space host
      in if n = '''' then True
         else if to_lower n \<in> set [''localhost'', ''127.0.0.1'', ''::1''] then True else is_loopback_ip n)"

record aws_forward =
  af_listen_host :: string
  af_listen_port :: string
  af_target_host :: string
  af_target_port :: string

definition local_forward_of_operation :: "connector_operation \<Rightarrow> aws_forward result" where
  "local_forward_of_operation op =
     (let get = (\<lambda>key. trim_space (aws_option_string (co_options op) key));
          listen_host = (if get ''listen_host'' = '''' then ''localhost'' else get ''listen_host'')
      in if get ''listen_port'' = '''' \<or> get ''target_host'' = '''' \<or> get ''target_port'' = ''''
         then errorf ''local port forward requires listen_port, target_host, and target_port''
         else if \<not> is_loopback_host listen_host
         then errorf ''aws ssm local port forward only supports localhost bind addresses''
         else Inr \<lparr>af_listen_host = listen_host, af_listen_port = get ''listen_port'',
                   af_target_host = get ''target_host'', af_target_port = get ''target_port''\<rparr>)"

definition dial_transport_of_operation :: "connector_operation \<Rightarrow> (string \<times> string) result" where
  "dial_transport_of_operation op =
     (let get = (\<lambda>key. trim_space (aws_option_string (co_options op) key))
      in if get ''target_host'' = '''' \<or> get ''target_port'' = ''''
         then errorf ''tcp dial transport requires target_host and target_port''
         else Inr (get ''target_host'', get ''target_port''))"

section \<open>Session Manager\<close>

definition named :: "string \<Rightarrow> string \<Rightarrow> table" where
  "named key v = (if v \<noteq> '''' then [(key, D_String v)] else [])"

text \<open>What every plan has, and what each operation adds; \<open>None\<close> is an operation the connector does not have.\<close>

definition ssm_base_details :: "table \<Rightarrow> ssm_target \<Rightarrow> ssm_probe \<Rightarrow> connector_operation \<Rightarrow> table" where
  "ssm_base_details config target probe op =
     [(''connector'', D_String ''aws-ssm''), (''instance_id'', D_String (st_instance_id target)),
      (''region'', D_String (st_region target)),
      (''platform'', D_String (first_non_empty [sp_platform probe, st_platform target])),
      (''profile'', D_String (provider_string config ''profile'')),
      (''shared_config_files'', D_Strings (provider_string_slice config ''shared_config_files'')),
      (''shared_credentials_files'', D_Strings (provider_string_slice config ''shared_credentials_files'')),
      (''poll_interval_sec'', D_Int 2), (''timeout_sec'', D_Int 60), (''operation'', D_String (co_name op)),
      (''shell_runtime'', D_String (ssm_shell_runtime config)),
      (''port_forward_runtime'', D_String (ssm_port_forward_runtime config))]"

definition ssm_operation_details ::
    "table \<Rightarrow> ssm_target \<Rightarrow> ssm_probe \<Rightarrow> string \<times> string \<Rightarrow> connector_operation \<Rightarrow> table option result" where
  "ssm_operation_details config target probe action op =
     (let document = named ''document_name'' (provider_string config ''ssm_port_forward_document'')
      in if co_name op = ''shell''
         then Inr (Some ([(''session_mode'', D_String ''shell''), (''session_action'', D_String (fst action))]
                @ named ''session_id'' (snd action) @ named ''document_name'' (st_shell_document target)))
         else if co_name op = ''exec''
         then Inr (Some [(''session_mode'', D_String ''send-command''), (''command'', D_Strings (co_command op)),
                (''command_line'', D_String (first_non_empty [aws_option_string (co_options op) ''command_line'',
                   trim_space (join_with '' '' (co_command op))])),
                (''command_document_name'',
                  D_String (if to_lower (first_non_empty [sp_platform probe, st_platform target]) = ''windows''
                            then ''AWS-RunPowerShellScript'' else ''AWS-RunShellScript''))])
         else if co_name op = ''exec_pty''
         then Inr (Some ([(''session_mode'', D_String ''interactive-command''), (''command'', D_Strings (co_command op))]
                @ named ''document_name'' (st_command_document target)))
         else if co_name op = ''port_forward_local''
         then (case local_forward_of_operation op of Inl e \<Rightarrow> Inl e
               | Inr f \<Rightarrow> Inr (Some ([(''session_mode'', D_String ''port-forward-local''),
                   (''listen_host'', D_String (af_listen_host f)), (''listen_port'', D_String (af_listen_port f)),
                   (''target_host'', D_String (af_target_host f)), (''target_port'', D_String (af_target_port f))] @ document)))
         else if co_name op = ''tcp_dial_transport''
         then (case dial_transport_of_operation op of Inl e \<Rightarrow> Inl e
               | Inr (host, port) \<Rightarrow> Inr (Some ([(''session_mode'', D_String ''tcp-dial-transport''),
                   (''target_host'', D_String host), (''target_port'', D_String port)] @ document)))
         else Inr None)"

definition ssm_prepare ::
    "(table \<Rightarrow> ssm_target \<Rightarrow> ssm_probe result) \<Rightarrow> table \<Rightarrow> connector_target \<Rightarrow> connector_operation \<Rightarrow> prepare_result result" where
  "ssm_prepare probe_target config target op =
     (case ssm_target_from_params config target of (t, missing) \<Rightarrow>
        if missing \<noteq> []
        then Inr (refused_plan ''provider-managed'' ''aws-ssm'' (''aws ssm target metadata is missing: '' @ join_with '', '' missing))
        else (case probe_target config t of Inl e \<Rightarrow> Inl e
              | Inr probe \<Rightarrow>
                  (case ssm_session_action op of Inl e \<Rightarrow> Inl e
                   | Inr action \<Rightarrow>
                       (case ssm_operation_details config t probe action op of Inl e \<Rightarrow> Inl e
                        | Inr None \<Rightarrow> Inr (refused_plan ''provider-managed'' ''aws-ssm''
                            (''operation '' @ quoted_text (co_name op) @ '' is not supported by the aws ssm connector''))
                        | Inr (Some details) \<Rightarrow>
                            (let supported = (sp_managed probe \<and> sp_online probe)
                             in Inr \<lparr>pr_supported = supported, pr_plan = managed_plan
                                  (ssm_base_details config t probe op @ details
                                   @ (if supported then []
                                      else [(''reason'', D_String (ssm_unsupported_reason probe ''aws ssm target is not online''))]))\<rparr>)))))"

definition ssm_describe ::
    "(table \<Rightarrow> ssm_target \<Rightarrow> ssm_probe result) \<Rightarrow> table \<Rightarrow> connector_target \<Rightarrow> (string \<times> capability) list result" where
  "ssm_describe probe_target config target =
     (case ssm_target_from_params config target of (t, missing) \<Rightarrow>
        if missing \<noteq> []
        then (let cap = capability_of False (''aws ssm target metadata is missing: '' @ join_with '', '' missing) [] False
              in Inr [(''shell'', cap), (''exec'', cap), (''exec_pty'', cap)])
        else (case probe_target config t of Inl e \<Rightarrow> Inl e
              | Inr probe \<Rightarrow>
                  (let cap = (\<lambda>reason. capability_of (sp_managed probe \<and> sp_online probe) (ssm_unsupported_reason probe reason)
                                 [''aws:ssm_managed_instance'']);
                       none = (\<lambda>reason. capability_of False reason [] False)
                   in Inr [(''shell'', cap ''interactive session requires an SSM-managed online instance'' True),
                           (''exec'', cap ''command execution requires an SSM-managed online instance'' True),
                           (''exec_pty'', cap ''pty-like command execution requires an SSM-managed online instance'' False),
                           (''upload'', none ''aws ssm native file transfer is not implemented in the first connector wave''),
                           (''download'', none ''aws ssm native file transfer is not implemented in the first connector wave''),
                           (''mount'', none ''aws ssm does not provide mount semantics''),
                           (''port_forward_local'', cap ''local port forwarding requires an SSM-managed online instance'' False),
                           (''tcp_dial_transport'', cap ''dial transport requires an SSM-managed online instance'' False),
                           (''port_forward_remote'', none ''aws ssm remote port forwarding is not implemented in the first connector wave''),
                           (''agent_forward'', none ''aws ssm does not provide ssh agent forwarding'')])))"

section \<open>Instance Connect\<close>

text \<open>\<open>expandPath\<close> of \<^verbatim>\<open>eiceconnector.go\<close>; \<open>None\<close> is an unknown home directory.\<close>

definition eice_expand_path :: "string option \<Rightarrow> string \<Rightarrow> string" where
  "eice_expand_path home path =
     (if trim_space path = '''' \<or> hd path \<noteq> CHR ''~'' then path
      else (case home of None \<Rightarrow> path
            | Some h \<Rightarrow> if path = ''~'' then h else if has_prefix path ''~/'' then h @ tl path else path))"

record eice_target =
  et_instance_id :: string
  et_region :: string
  et_private_ip :: string
  et_profile :: string
  et_config_files :: "string list"
  et_credentials_files :: "string list"
  et_endpoint_id :: string
  et_endpoint_dns_name :: string
  et_user :: string
  et_key_file :: string
  et_port :: string

definition eice_target_from_params :: "string option \<Rightarrow> table \<Rightarrow> connector_target \<Rightarrow> eice_target \<times> string list" where
  "eice_target_from_params home config target =
     (let both = (\<lambda>key. first_non_empty [provider_string (ct_config target) key, provider_string config key]);
          r = \<lparr>et_instance_id = aws_setting config target ''instance_id'' ''instance_id'',
               et_region = aws_setting config target ''region'' ''region'',
               et_private_ip = aws_setting config target ''private_ip'' ''private_ip_address'', et_profile = both ''profile'',
               et_config_files = map (expand_path home) (provider_string_slice config ''shared_config_files''),
               et_credentials_files = map (expand_path home) (provider_string_slice config ''shared_credentials_files''),
               et_endpoint_id = both ''instance_connect_endpoint_id'',
               et_endpoint_dns_name = both ''instance_connect_endpoint_dns_name'',
               et_user = provider_string (ct_config target) ''user'',
               et_key_file = expand_path home (provider_string (ct_config target) ''key''),
               et_port = first_non_empty [provider_string (ct_config target) ''port'', ''22'']\<rparr>
      in (r, missing_keys (et_instance_id r) (et_region r)))"

definition eice_runtime :: "table \<Rightarrow> table \<Rightarrow> string" where
  "eice_runtime config target_config =
     (if to_lower (trim_space (first_non_empty [provider_string target_config ''eice_runtime'', provider_string config ''eice_runtime'']))
         = ''command'' then ''command'' else ''sdk'')"

text \<open>\<open>SSHProxyCommand\<close>: the words are joined by spaces, without quoting.\<close>

definition ssh_proxy_command :: "eice_target \<Rightarrow> string \<Rightarrow> string" where
  "ssh_proxy_command t port =
     join_with '' '' ([''aws'', ''ec2-instance-connect'', ''open-tunnel'', ''--instance-id'', et_instance_id t,
         ''--region'', et_region t, ''--remote-port'', (if port = '''' then ''22'' else port)]
       @ flag_arg ''--profile'' (et_profile t) @ flag_arg ''--instance-connect-endpoint-id'' (et_endpoint_id t)
       @ flag_arg ''--instance-connect-endpoint-dns-name'' (et_endpoint_dns_name t)
       @ flag_arg ''--private-ip-address'' (et_private_ip t))"

text \<open>The file list whose first path \<open>ExpandForCommand\<close> has replaced in place.\<close>

definition first_file :: "string option \<Rightarrow> string \<Rightarrow> string list \<Rightarrow> (string \<times> string) list" where
  "first_file home key fs =
     (case fs of [] \<Rightarrow> [] | f # _ \<Rightarrow> if trim_space (eice_expand_path home f) \<noteq> '''' then [(key, eice_expand_path home f)] else [])"

definition command_env :: "string option \<Rightarrow> eice_target \<Rightarrow> (string \<times> string) list" where
  "command_env home t =
     first_file home ''AWS_CONFIG_FILE'' (et_config_files t) @ first_file home ''AWS_SHARED_CREDENTIALS_FILE'' (et_credentials_files t)"

definition eice_prepare_command ::
    "string option \<Rightarrow> eice_target \<Rightarrow> connector_operation \<Rightarrow> bool \<Rightarrow> prepare_result result" where
  "eice_prepare_command home t op pty =
     (let cfg = \<lparr>ot_ssh_path = ''ssh'', ot_host = et_instance_id t, ot_user = et_user t, ot_port = et_port t,
            ot_identity_file = et_key_file t, ot_config_file = '''', ot_known_hosts_file = '''', ot_strict_checking = '''',
            ot_batch_mode = False, ot_forward_agent = False,
            ot_extra_options = [''ProxyCommand='' @ ssh_proxy_command t (et_port t)]\<rparr>;
          finish = (\<lambda>plan. Inr (planned (plan\<lparr>pl_env := command_env home t,
            pl_details := AList.update ''connector'' (D_String ''aws-eice'') (pl_details plan) @ [(''runtime'', D_String ''command'')]\<rparr>)))
      in if co_name op = ''shell'' then finish (build_shell_plan cfg)
         else if co_name op \<in> set [''exec'', ''exec_pty''] then finish (build_exec_plan cfg op pty)
         else if co_name op \<in> set [''sftp_transport'', ''mount''] then finish (build_sftp_transport_plan cfg)
         else if co_name op = ''port_forward_local''
         then (case local_forward_of_operation op of Inl e \<Rightarrow> Inl e
               | Inr f \<Rightarrow> finish (build_local_forward_plan cfg (af_listen_host f) (af_listen_port f) (af_target_host f) (af_target_port f)))
         else Inr (refused_plan ''command'' ''aws-eice''
                (''operation '' @ quoted_text (co_name op) @ '' is not supported by the aws eice command runtime'')))"

definition eice_sdk_details :: "eice_target \<Rightarrow> connector_operation \<Rightarrow> table" where
  "eice_sdk_details t op =
     [(''connector'', D_String ''aws-eice''), (''ssh_runtime'', D_String ''sdk''), (''transport'', D_String ''ssh_transport''),
      (''operation'', D_String (co_name op)), (''instance_id'', D_String (et_instance_id t)), (''region'', D_String (et_region t)),
      (''private_ip_address'', D_String (et_private_ip t)), (''instance_connect_endpoint_id'', D_String (et_endpoint_id t)),
      (''instance_connect_endpoint_dns_name'', D_String (et_endpoint_dns_name t)), (''profile'', D_String (et_profile t)),
      (''shared_config_files'', D_Strings (et_config_files t)), (''shared_credentials_files'', D_Strings (et_credentials_files t)),
      (''target_port'', D_String (let p = first_non_empty [aws_option_string (co_options op) ''target_port'', et_port t]
                                  in if p = '''' then ''22'' else p))]"

definition eice_prepare ::
    "string option \<Rightarrow> table \<Rightarrow> connector_target \<Rightarrow> connector_operation \<Rightarrow> bool \<Rightarrow> prepare_result result" where
  "eice_prepare home config target op pty =
     (case eice_target_from_params home config target of (t, missing) \<Rightarrow>
        if missing \<noteq> []
        then Inr (refused_plan ''provider-managed'' ''aws-eice'' (''aws eice target metadata is missing: '' @ join_with '', '' missing))
        else if eice_runtime config (ct_config target) = ''command'' then eice_prepare_command home t op pty
        else if co_name op \<in> set [''shell'', ''exec'', ''exec_pty'', ''sftp_transport'', ''mount'', ''port_forward_local'', ''tcp_dial_transport'']
        then Inr (planned (managed_plan (eice_sdk_details t op)))
        else Inr (refused_plan ''provider-managed'' ''aws-eice''
               (''operation '' @ quoted_text (co_name op) @ '' is not supported by the aws eice connector'')))"

definition eice_describe :: "string option \<Rightarrow> table \<Rightarrow> connector_target \<Rightarrow> (string \<times> capability) list" where
  "eice_describe home config target =
     (case eice_target_from_params home config target of (t, missing) \<Rightarrow>
        if missing \<noteq> []
        then [(''shell'', capability_of False (''aws eice target metadata is missing: '' @ join_with '', '' missing) [] False)]
        else (let sdk = (eice_runtime config (ct_config target) \<noteq> ''command'');
                  reason = unsupported_reason sdk ''aws eice sdk runtime is disabled by configuration'';
                  yes = (\<lambda>requires. capability_of True '''' requires False)
              in [(''shell'', capability_of True '''' [] sdk), (''exec'', yes []), (''exec_pty'', capability_of sdk reason [] False),
                  (''sftp_transport'', yes []), (''upload'', yes [''sftp_transport'']), (''download'', yes [''sftp_transport'']),
                  (''mount'', yes [''sftp_transport'']), (''port_forward_local'', yes []),
                  (''tcp_dial_transport'', capability_of sdk reason [] False),
                  (''port_forward_remote'', capability_of False
                     ''aws eice does not support remote port forwarding in the first connector wave'' [] False),
                  (''agent_forward'', capability_of False
                     ''aws eice does not provide agent forwarding in the first connector wave'' [] False)]))"

section \<open>Both connectors\<close>

definition aws_connector_prepare ::
    "(table \<Rightarrow> ssm_target \<Rightarrow> ssm_probe result) \<Rightarrow> string option \<Rightarrow> table \<Rightarrow> connector_target \<Rightarrow> connector_operation \<Rightarrow> bool
      \<Rightarrow> prepare_result result" where
  "aws_connector_prepare probe_target home config target op pty =
     (if aws_connector_name config target = ''aws-eice'' then eice_prepare home config target op pty
      else ssm_prepare probe_target config target op)"

definition aws_connector_describe ::
    "(table \<Rightarrow> ssm_target \<Rightarrow> ssm_probe result) \<Rightarrow> string option \<Rightarrow> table \<Rightarrow> connector_target \<Rightarrow> (string \<times> capability) list result" where
  "aws_connector_describe probe_target home config target =
     (if aws_connector_name config target = ''aws-eice'' then Inr (eice_describe home config target)
      else ssm_describe probe_target config target)"

section \<open>What sessions get\<close>

lemma ssm_operation_keys:
  assumes "ssm_operation_details config t probe action op = Inr (Some d)"
  shows "''transport'' \<notin> fst ` set d"
proof -
  consider "co_name op = ''shell''" | "co_name op = ''exec''" | "co_name op = ''exec_pty''" | "co_name op = ''port_forward_local''"
    | "co_name op = ''tcp_dial_transport''"
    using assms by (cases "co_name op \<in> {''shell'', ''exec'', ''exec_pty'', ''port_forward_local'', ''tcp_dial_transport''}")
      (auto simp: ssm_operation_details_def)
  then show ?thesis
    using assms by cases (auto simp: ssm_operation_details_def Let_def named_def split: sum.splits if_splits prod.splits)
qed

lemma ssm_prepare_cases:
  assumes "ssm_prepare probe config target op = Inr r"
  shows "(\<exists>reason. r = refused_plan ''provider-managed'' ''aws-ssm'' reason)
    \<or> (\<exists>t pr action d tail. ssm_operation_details config t pr action op = Inr (Some d) \<and> ssm_session_action op = Inr action
        \<and> r = \<lparr>pr_supported = (sp_managed pr \<and> sp_online pr), pr_plan = managed_plan (ssm_base_details config t pr op @ d @ tail)\<rparr>
        \<and> fst ` set tail \<subseteq> {''reason''})"
proof -
  obtain t missing where t: "ssm_target_from_params config target = (t, missing)"
    by fastforce
  show ?thesis
  proof (cases "missing = []")
    case True
    with assms t obtain pr where pr: "probe config t = Inr pr"
      by (auto simp: ssm_prepare_def split: sum.splits)
    with assms t True obtain action where action: "ssm_session_action op = Inr action"
      by (auto simp: ssm_prepare_def split: sum.splits)
    with assms t True pr obtain found where found: "ssm_operation_details config t pr action op = Inr found"
      by (auto simp: ssm_prepare_def split: sum.splits)
    show ?thesis
    proof (cases found)
      case None
      with assms t True pr action found show ?thesis
        by (auto simp: ssm_prepare_def)
    next
      case (Some d)
      define tail where "tail = (if sp_managed pr \<and> sp_online pr then []
          else [(''reason'', D_String (ssm_unsupported_reason pr ''aws ssm target is not online''))])"
      have "r = \<lparr>pr_supported = (sp_managed pr \<and> sp_online pr), pr_plan = managed_plan (ssm_base_details config t pr op @ d @ tail)\<rparr>"
        using assms t True pr action found Some by (simp add: ssm_prepare_def Let_def tail_def)
      moreover have "fst ` set tail \<subseteq> {''reason''}"
        by (simp add: tail_def)
      ultimately show ?thesis
        using found Some action by blast
    qed
  qed (use assms t in \<open>auto simp: ssm_prepare_def\<close>)
qed

text \<open>A session of Systems Manager is never a managed SSH connection.\<close>

lemma ssm_never_managed:
  assumes "ssm_prepare probe config target op = Inr r"
  shows "\<not> pd_managed_ssh (prepared_connector_from_provider r name op')"
proof -
  have "map_of (pl_details (pr_plan r)) ''transport'' = None"
    using ssm_prepare_cases[OF assms]
  proof (elim disjE exE conjE)
    fix t pr action d tail
    assume d: "ssm_operation_details config t pr action op = Inr (Some d)" and tail: "fst ` set tail \<subseteq> {''reason''}"
      and r: "r = \<lparr>pr_supported = (sp_managed pr \<and> sp_online pr), pr_plan = managed_plan (ssm_base_details config t pr op @ d @ tail)\<rparr>"
    have "''transport'' \<notin> fst ` set tail" "''transport'' \<notin> fst ` set (ssm_base_details config t pr op)"
      using tail by (auto simp: ssm_base_details_def)
    with ssm_operation_keys[OF d] show ?thesis
      unfolding map_of_eq_None_iff r by (simp add: managed_plan_def image_Un)
  qed (simp add: refused_plan_def)
  then show ?thesis
    by (simp add: prepared_connector_from_provider_def managed_ssh_plan_def detail_string_def Let_def)
qed

section \<open>Local forwards\<close>

lemma base_details_keys:
  "map_of (ssm_base_details config t pr op) ''listen_host'' = None"
  "map_of (ssm_base_details config t pr op) ''listen_port'' = None"
  "map_of (ssm_base_details config t pr op) ''target_host'' = None"
  "map_of (ssm_base_details config t pr op) ''target_port'' = None"
  by (simp_all add: ssm_base_details_def)

text \<open>
  A local forward that Systems Manager carries listens on a loopback address and has the ports and the
  host the operation names.
\<close>

theorem ssm_forward_listens_locally:
  assumes "ssm_prepare probe config target op = Inr r" "co_name op = ''port_forward_local''" "pr_supported r"
  shows "\<exists>f. local_forward_of_operation op = Inr f \<and> is_loopback_host (af_listen_host f)
    \<and> map (map_of (pl_details (pr_plan r))) [''listen_host'', ''listen_port'', ''target_host'', ''target_port'']
      = map (\<lambda>v. Some (D_String v)) [af_listen_host f, af_listen_port f, af_target_host f, af_target_port f]"
proof -
  obtain t pr action d tail where d: "ssm_operation_details config t pr action op = Inr (Some d)"
    and r: "r = \<lparr>pr_supported = (sp_managed pr \<and> sp_online pr), pr_plan = managed_plan (ssm_base_details config t pr op @ d @ tail)\<rparr>"
    using ssm_prepare_cases[OF assms(1)] assms(3) by (auto simp: refused_plan_def)
  obtain f where f: "local_forward_of_operation op = Inr f"
    using d assms(2) by (auto simp: ssm_operation_details_def Let_def split: sum.splits)
  then have "is_loopback_host (af_listen_host f)"
    by (auto simp: local_forward_of_operation_def errorf_def Let_def split: if_splits)
  moreover obtain more where "d = [(''session_mode'', D_String ''port-forward-local''), (''listen_host'', D_String (af_listen_host f)),
      (''listen_port'', D_String (af_listen_port f)), (''target_host'', D_String (af_target_host f)),
      (''target_port'', D_String (af_target_port f))] @ more"
    using d f assms(2) by (auto simp: ssm_operation_details_def Let_def)
  ultimately show ?thesis
    using f unfolding r by (intro exI[of _ f] conjI) (simp_all add: managed_plan_def base_details_keys map_add_def)
qed

section \<open>Dialling through a proxy\<close>

interpretation eice: port_only_connector "\<lambda>raw target op. eice_prepare home raw target op pty" for home pty
proof (unfold_locales, goal_cases)
  case (1 op op' config target)
  then have port: "aws_option_string (co_options op) ''target_port'' = aws_option_string (co_options op') ''target_port''"
    by (simp add: aws_option_string_def detail_string_def)
  have "eice_sdk_details t op = eice_sdk_details t op'" "eice_prepare_command home t op pty = eice_prepare_command home t op' pty" for t
    using 1 port by (simp_all add: eice_sdk_details_def eice_prepare_command_def Let_def)
  with 1 show ?case
    by (simp add: eice_prepare_def split: prod.split)
qed

text \<open>
  The proxy of a session through Instance Connect asks for a transport to a host and a port, but the
  plan depends on the port only: whatever host a client names, it is connected to the instance itself.
\<close>

theorem eice_dial_ignores_host:
  assumes "pc_prepare p = (\<lambda>name raw target op. eice_prepare home raw target op False)"
    and "CHR ''['' \<notin> set h" "CHR '']'' \<notin> set h" "CHR ''['' \<notin> set h'" "CHR '']'' \<notin> set h'" "list_all is_digit port"
  shows "dial_connector_target p site server ''tcp'' (join_host_port h port)
     = dial_connector_target p site server ''tcp'' (join_host_port h' port)"
  using assms by (rule eice.dial_ignores_host)

text \<open>A site with one server behind Instance Connect.\<close>

definition eice_calls :: provider_calls where
  "eice_calls = \<lparr>pc_describe = (\<lambda>_. Inr [''aws-eice'']), pc_connector_describe = (\<lambda>_ _ _. Inr []),
     pc_prepare = (\<lambda>name raw target op. eice_prepare None raw target op False)\<rparr>"

definition eice_server :: full_config where
  "eice_server = zero_config\<lparr>fc_values := zero_values(''connector_name'' := V_String ''aws-eice''),
     fc_provider_meta := [(''instance_id'', ''i-1''), (''region'', ''r'')]\<rparr>"

definition eice_provider :: table where
  "eice_provider = [(''capabilities'', D_Strings [''connector''])]"

definition eice_site :: site where
  "eice_site = \<lparr>st_server = [(''web'', eice_server)], st_provider = [(''aws'', eice_provider)]\<rparr>"

definition eice_asked :: connector_target where
  "eice_asked = \<lparr>ct_name = ''web'', ct_config = [(''connector_name'', D_String ''aws-eice'')],
     ct_meta = [(''instance_id'', ''i-1''), (''region'', ''r'')]\<rparr>"

lemma eice_table: "server_config_to_toml_map eice_server = [(''connector_name'', D_String ''aws-eice'')]"
  by code_simp

lemma eice_names: "connector_name_of eice_calls eice_site ''web'' = ''aws-eice''"
    "server_connector_name eice_calls eice_site eice_server = ''aws-eice''" "trim_space ''aws-eice'' = ''aws-eice''"
    "resolve_connector_provider eice_calls eice_site eice_server ''aws-eice'' = Inr (''aws'', eice_provider)"
  by code_simp+

lemma eice_asks: "prepare_connector eice_calls eice_site ''web'' op = eice_prepare None eice_provider eice_asked op False"
proof -
  have "map_of (st_server eice_site) ''web'' = Some eice_server" "target_of ''web'' eice_server = eice_asked"
    by (simp_all add: eice_site_def target_of_def eice_table eice_asked_def) (simp add: eice_server_def)
  then show ?thesis
    by (simp add: prepare_connector_def with_connector_def eice_names built_in_name_def eice_calls_def[THEN arg_cong[of _ _ pc_prepare]])
qed

lemma eice_dials_db:
  "case dial_connector_target eice_calls eice_site ''web'' ''tcp'' (join_host_port ''db'' ''5432'') of
     Inr (Dial_Provider plan) \<Rightarrow> map_of (pl_details plan) ''instance_id'' = Some (D_String ''i-1'')
       \<and> map_of (pl_details plan) ''target_port'' = Some (D_String ''5432'') \<and> map_of (pl_details plan) ''target_host'' = None
   | _ \<Rightarrow> False"
proof -
  let ?op = "operation ''tcp_dial_transport''\<lparr>co_options := [(''target_host'', D_String ''db''), (''target_port'', D_String ''5432'')]\<rparr>"
  have site: "map_of (st_server eice_site) ''web'' = Some eice_server"
    by (simp add: eice_site_def)
  have plan: "case eice_prepare None eice_provider eice_asked ?op False of
      Inr r \<Rightarrow> pr_supported r \<and> pl_kind (pr_plan r) = ''provider-managed''
        \<and> map_of (pl_details (pr_plan r)) ''instance_id'' = Some (D_String ''i-1'')
        \<and> map_of (pl_details (pr_plan r)) ''target_port'' = Some (D_String ''5432'') \<and> map_of (pl_details (pr_plan r)) ''target_host'' = None
    | _ \<Rightarrow> False"
    by code_simp
  then obtain r where r: "eice_prepare None eice_provider eice_asked ?op False = Inr r"
    by (auto split: sum.splits)
  have host: "split_host_port (join_host_port ''db'' ''5432'') = Inr (''db'', ''5432'')"
    by code_simp
  have "prepare_dial_transport eice_calls eice_site ''web'' ''db'' ''5432'' = Inr (prepared_connector_from_provider r ''aws-eice'' ?op)"
    using plan unfolding prepare_dial_transport_def prepare_connector_operation_def prepare_connector_runtime_def eice_asks r eice_names site
    by (simp add: built_in_name_def eice_names prepared_connector_from_provider_def Let_def)
  with plan host show ?thesis
    unfolding r by (simp add: dial_connector_target_def wrap_error_def prepared_connector_from_provider_def Let_def managed_ssh_plan_def operation_def)
qed

lemma eice_dial_ignores_host_witness:
  "case dial_connector_target eice_calls eice_site ''web'' ''tcp'' (join_host_port ''cache'' ''5432'') of
     Inr (Dial_Provider plan) \<Rightarrow> map_of (pl_details plan) ''instance_id'' = Some (D_String ''i-1'')
       \<and> map_of (pl_details plan) ''target_port'' = Some (D_String ''5432'') \<and> map_of (pl_details plan) ''target_host'' = None
   | _ \<Rightarrow> False"
proof -
  have "dial_connector_target eice_calls eice_site ''web'' ''tcp'' (join_host_port ''db'' ''5432'')
      = dial_connector_target eice_calls eice_site ''web'' ''tcp'' (join_host_port ''cache'' ''5432'')"
    by (rule eice_dial_ignores_host[where home = None]) (simp_all add: eice_calls_def is_digit_def)
  with eice_dials_db show ?thesis
    by simp
qed

text \<open>Systems Manager is told both.\<close>

theorem ssm_dial_reaches_target:
  assumes "ssm_prepare probe config target op = Inr r" "co_name op = ''tcp_dial_transport''" "pr_supported r"
  shows "\<exists>host port. dial_transport_of_operation op = Inr (host, port)
    \<and> map_of (pl_details (pr_plan r)) ''target_host'' = Some (D_String host)
    \<and> map_of (pl_details (pr_plan r)) ''target_port'' = Some (D_String port)"
proof -
  obtain t pr action d tail where d: "ssm_operation_details config t pr action op = Inr (Some d)"
    and r: "r = \<lparr>pr_supported = (sp_managed pr \<and> sp_online pr), pr_plan = managed_plan (ssm_base_details config t pr op @ d @ tail)\<rparr>"
    using ssm_prepare_cases[OF assms(1)] assms(3) by (auto simp: refused_plan_def)
  obtain host port where t: "dial_transport_of_operation op = Inr (host, port)"
    using d assms(2) by (auto simp: ssm_operation_details_def Let_def split: sum.splits)
  then obtain more where "d = [(''session_mode'', D_String ''tcp-dial-transport''), (''target_host'', D_String host),
      (''target_port'', D_String port)] @ more"
    using d assms(2) by (auto simp: ssm_operation_details_def Let_def)
  with t show ?thesis
    unfolding r by (simp add: managed_plan_def base_details_keys map_add_def)
qed

section \<open>Sessions to attach to\<close>

text \<open>Which combinations of the options of a shell are accepted, and what each means.\<close>

lemma session_action_spec:
  "ssm_session_action op = Inr (action, session) \<longleftrightarrow>
     (let attach = aws_option_bool (co_options op) ''attach''; detach = aws_option_bool (co_options op) ''detach'';
          given = trim_space (aws_option_string (co_options op) ''session_id'')
      in if co_name op = ''shell'' \<and> (attach \<or> detach)
         then attach \<noteq> detach \<and> co_command op = [] \<and> (attach \<longleftrightarrow> given \<noteq> '''') \<and> session = given
              \<and> action = (if attach then ''attach'' else ''detach'')
         else \<not> attach \<and> \<not> detach \<and> given = '''' \<and> session = '''' \<and> action = ''start'')"
  by (auto simp: ssm_session_action_def errorf_def Let_def)

end
