(* ===== verification/Plan_Gcp.thy ===== *)
theory Plan_Gcp
  imports Plan_Dial
begin

text \<open>
  The connector of the GCP provider, \<^verbatim>\<open>provider-mixed-gcp-compute/main.go\<close>: what \<open>gcp-iap\<close> describes and
  prepares. The quoting of \<open>shellquote.Join\<close>, which is not part of the repository, is a parameter.
\<close>

section \<open>Settings\<close>

record gcp_iap_config =
  gi_project :: string
  gi_zone :: string
  gi_instance_name :: string
  gi_interface :: string
  gi_user :: string
  gi_key_file :: string
  gi_port :: string
  gi_credentials :: string
  gi_scopes :: "string list"

definition gcp_settings :: "string option \<Rightarrow> table \<Rightarrow> connector_target \<Rightarrow> gcp_iap_config" where
  "gcp_settings home config target =
     (let own = provider_string (ct_config target); both = (\<lambda>key. [own key, provider_string config key])
      in \<lparr>gi_project = first_non_empty (both ''project''),
          gi_zone = first_non_empty (lookup_text (ct_meta target) ''zone'' # both ''zone''),
          gi_instance_name = first_non_empty [lookup_text (ct_meta target) ''name'', own ''instance_name''],
          gi_interface = first_non_empty (both ''interface'' @ [''nic0'']), gi_user = own ''user'',
          gi_key_file = expand_path home (own ''key''), gi_port = first_non_empty [own ''port'', ''22''],
          gi_credentials = expand_path home (first_non_empty (both ''credentials_file'')),
          gi_scopes = first_string_slice [provider_string_slice (ct_config target) ''scopes'', provider_string_slice config ''scopes'']\<rparr>)"

definition gcp_connector_config :: "string option \<Rightarrow> table \<Rightarrow> connector_target \<Rightarrow> gcp_iap_config result" where
  "gcp_connector_config home config target =
     (let cfg = gcp_settings home config target
      in if gi_project cfg = '''' then errorf ''project is required for gcp-iap connector''
         else if gi_zone cfg = '''' then errorf ''zone is required for gcp-iap connector''
         else if gi_instance_name cfg = '''' then errorf ''instance_name metadata is required for gcp-iap connector''
         else Inr cfg)"

definition gcp_connector_runtime :: "table \<Rightarrow> table \<Rightarrow> string" where
  "gcp_connector_runtime config target_config =
     (if to_lower (trim_space (first_non_empty [provider_string target_config ''iap_runtime'', provider_string config ''iap_runtime'']))
         = ''command'' then ''command'' else ''sdk'')"

definition gcp_destination :: "gcp_iap_config \<Rightarrow> string" where
  "gcp_destination cfg = (if gi_user cfg = '''' then gi_instance_name cfg else gi_user cfg @ ''@'' @ gi_instance_name cfg)"

section \<open>Describing\<close>

definition gcp_describe :: "string \<Rightarrow> string option \<Rightarrow> table \<Rightarrow> connector_target \<Rightarrow> (string \<times> capability) list result" where
  "gcp_describe os home config target =
     (case gcp_connector_config home config target of Inl e \<Rightarrow> Inl e
      | Inr cfg \<Rightarrow>
          (let sdk = (gcp_connector_runtime config (ct_config target) \<noteq> ''command'');
               sdk_reason = (if sdk then '''' else ''gcp-iap sdk runtime is disabled by configuration'');
               mounts = (sdk \<and> (os = ''linux'' \<or> os = ''darwin''));
               mount_reason = (if sdk \<and> \<not> mounts then ''mount via gcp-iap sdk runtime currently supports linux and macos only''
                               else sdk_reason);
               named = (gi_instance_name cfg \<noteq> '''');
               always = capability_of named (unsupported_reason named ''gcp-iap requires instance_name metadata'') [];
               with_sdk = (\<lambda>requires. capability_of (sdk \<and> named) (unsupported_reason (sdk \<and> named) sdk_reason) requires False);
               never = (\<lambda>reason. capability_of False reason [] False)
           in Inr [(''shell'', always sdk), (''exec'', always True), (''exec_pty'', with_sdk []), (''sftp_transport'', with_sdk []),
              (''upload'', with_sdk [''sftp_transport'']), (''download'', with_sdk [''sftp_transport'']),
              (''mount'', capability_of (mounts \<and> named) (unsupported_reason (mounts \<and> named) mount_reason) [''sftp_transport''] False),
              (''port_forward_local'', always False), (''tcp_dial_transport'', with_sdk []),
              (''port_forward_remote'', never ''gcp-iap does not support remote port forwarding in the first connector wave''),
              (''agent_forward'', never ''gcp-iap command and sdk runtimes do not provide agent forwarding in the first connector wave'')]))"

section \<open>Preparing\<close>

definition gcp_target_port :: "gcp_iap_config \<Rightarrow> connector_operation \<Rightarrow> string" where
  "gcp_target_port cfg op = first_non_empty [option_string (co_options op) ''target_port'', gi_port cfg]"

definition gcp_prepare_sdk :: "gcp_iap_config \<Rightarrow> connector_operation \<Rightarrow> prepare_result" where
  "gcp_prepare_sdk cfg op =
     planned (managed_plan
       ([(''connector'', D_String ''gcp-iap''), (''ssh_runtime'', D_String ''sdk''), (''transport'', D_String ''ssh_transport''),
         (''operation'', D_String (co_name op)), (''project'', D_String (gi_project cfg)), (''zone'', D_String (gi_zone cfg)),
         (''instance_name'', D_String (gi_instance_name cfg)), (''interface'', D_String (gi_interface cfg)),
         (''target_port'', D_String (gcp_target_port cfg op)), (''credentials_file'', D_String (gi_credentials cfg))]
        @ (if gi_scopes cfg \<noteq> [] then [(''scopes'', D_List (map D_String (gi_scopes cfg)))] else [])))"

definition gcloud_args :: "gcp_iap_config \<Rightarrow> string list" where
  "gcloud_args cfg =
     [''compute'', ''ssh'', gcp_destination cfg, ''--project'', gi_project cfg, ''--zone'', gi_zone cfg, ''--tunnel-through-iap'']
     @ flag_arg ''--ssh-key-file'' (gi_key_file cfg)
     @ (if gi_port cfg \<noteq> '''' \<and> gi_port cfg \<noteq> ''22'' then [''--ssh-flag'', ''-p'', ''--ssh-flag'', gi_port cfg] else [])"

definition gcp_prepare_command ::
    "(string list \<Rightarrow> string) \<Rightarrow> gcp_iap_config \<Rightarrow> connector_operation \<Rightarrow> prepare_result result" where
  "gcp_prepare_command quote_join cfg op =
     (let option_text = option_string (co_options op); finish = (\<lambda>args. Inr (runtime_plan ''gcloud'' ''gcp-iap'' (co_name op) args))
      in if co_name op = ''shell'' then finish (gcloud_args cfg)
         else if co_name op \<in> set [''exec'', ''exec_pty'']
         then (let line = trim_space (option_text ''command_line''); line = (if line = '''' then quote_join (co_command op) else line)
               in if line = '''' then errorf ''gcp-iap command runtime requires a command''
                  else finish (gcloud_args cfg @ [''--command'', line]))
         else if co_name op = ''port_forward_local''
         then (let listen_host = first_non_empty [option_text ''listen_host'', ''localhost'']; listen_port = option_text ''listen_port'';
                   host = option_text ''target_host''; port = gcp_target_port cfg op
               in if listen_port = '''' \<or> host = '''' \<or> port = ''''
                  then errorf ''gcp-iap local forward requires listen_port, target_host, and target_port''
                  else finish (gcloud_args cfg @ [''--'', ''-N'', ''-L'', join_host_port listen_host listen_port @ '':'' @ host @ '':'' @ port]))
         else Inr (refused_plan ''command'' ''gcp-iap''
                (''operation '' @ quoted_text (co_name op) @ '' is not supported by the gcp-iap command runtime'')))"

definition gcp_prepare ::
    "(string list \<Rightarrow> string) \<Rightarrow> string option \<Rightarrow> table \<Rightarrow> connector_target \<Rightarrow> connector_operation \<Rightarrow> prepare_result result" where
  "gcp_prepare quote_join home config target op =
     (case gcp_connector_config home config target of Inl e \<Rightarrow> Inl e
      | Inr cfg \<Rightarrow>
          if gcp_connector_runtime config (ct_config target) = ''command'' then gcp_prepare_command quote_join cfg op
          else Inr (gcp_prepare_sdk cfg op))"

section \<open>Dialling through a proxy\<close>

interpretation gcp: port_only_connector "gcp_prepare quote_join home" for quote_join home
proof (unfold_locales, goal_cases)
  case (1 op op' config target)
  then have port: "gcp_target_port cfg op = gcp_target_port cfg op'" for cfg
    by (simp add: gcp_target_port_def option_string_def)
  have "gcp_prepare_sdk cfg op = gcp_prepare_sdk cfg op'" "gcp_prepare_command q cfg op = gcp_prepare_command q cfg op'" for q cfg
    using 1 port by (simp_all add: gcp_prepare_sdk_def gcp_prepare_command_def)
  then show ?case
    by (simp add: gcp_prepare_def split: sum.split)
qed

lemma gcp_dial_ignores_host:
  assumes "pc_prepare p = (\<lambda>name. gcp_prepare quote_join home)"
    and "CHR ''['' \<notin> set h" "CHR '']'' \<notin> set h" "CHR ''['' \<notin> set h'" "CHR '']'' \<notin> set h'" "list_all is_digit port"
  shows "dial_connector_target p site server ''tcp'' (join_host_port h port)
     = dial_connector_target p site server ''tcp'' (join_host_port h' port)"
  using assms by (rule gcp.dial_ignores_host)

section \<open>What is described and what is prepared\<close>

definition gcp_undescribed :: "string \<Rightarrow> bool \<Rightarrow> string \<Rightarrow> bool" where
  "gcp_undescribed os sdk name =
     (if sdk then name \<in> set [''port_forward_remote'', ''agent_forward''] \<or> name = ''mount'' \<and> os \<noteq> ''linux'' \<and> os \<noteq> ''darwin''
      else name = ''exec_pty'')"

lemma gcp_connector_config_named: "gcp_connector_config home config target = Inr cfg \<Longrightarrow> gi_instance_name cfg \<noteq> ''''"
  by (auto simp: gcp_connector_config_def Let_def errorf_def split: if_splits)

lemma gcp_command_supported:
  "gcp_prepare_command q cfg op = Inr r \<Longrightarrow>
     pr_supported r \<longleftrightarrow> co_name op \<in> set [''shell'', ''exec'', ''exec_pty'', ''port_forward_local'']"
  by (auto simp: gcp_prepare_command_def Let_def errorf_def runtime_plan_def planned_def refused_plan_def split: if_splits)

text \<open>
  Whatever is described as supported is prepared; and the library's runtime also prepares remote forwards,
  agents and mounts it describes as unsupported, as the command runtime does with a pseudo terminal.
\<close>

theorem gcp_described_and_prepared:
  assumes "gcp_describe os home config target = Inr caps" "(co_name op, cap) \<in> set caps" "gcp_prepare q home config target op = Inr r"
  shows "pr_supported r \<longleftrightarrow>
    cap_supported cap \<or> gcp_undescribed os (gcp_connector_runtime config (ct_config target) \<noteq> ''command'') (co_name op)"
proof -
  obtain cfg where cfg: "gcp_connector_config home config target = Inr cfg"
    using assms(1) by (auto simp: gcp_describe_def split: sum.splits)
  note named = gcp_connector_config_named[OF cfg]
  show ?thesis
  proof (cases "gcp_connector_runtime config (ct_config target) = ''command''")
    case True
    have "gcp_prepare_command q cfg op = Inr r"
      using assms(3) by (simp add: gcp_prepare_def cfg True)
    from gcp_command_supported[OF this] show ?thesis
      using assms(1,2) named by (auto simp: gcp_describe_def cfg True Let_def capability_of_def gcp_undescribed_def)
  next
    case False
    have "pr_supported r"
      using assms(3) by (auto simp: gcp_prepare_def cfg False gcp_prepare_sdk_def planned_def)
    then show ?thesis
      using assms(1,2) named by (auto simp: gcp_describe_def cfg False Let_def capability_of_def gcp_undescribed_def)
  qed
qed

definition gcp_example :: connector_target where
  "gcp_example = \<lparr>ct_name = ''web'', ct_config = [], ct_meta = [(''name'', ''vm-1''), (''zone'', ''z-a'')]\<rparr>"

lemma gcp_described_and_prepared_witness:
  "\<exists>caps cap. gcp_describe ''linux'' None [(''project'', D_String ''p'')] gcp_example = Inr caps
     \<and> (''agent_forward'', cap) \<in> set caps \<and> \<not> cap_supported cap
     \<and> (\<exists>r. gcp_prepare (join_with '' '') None [(''project'', D_String ''p'')] gcp_example
              \<lparr>co_name = ''agent_forward'', co_command = [], co_options = []\<rparr> = Inr r \<and> pr_supported r)"
proof -
  let ?op = "\<lparr>co_name = ''agent_forward'', co_command = [], co_options = []\<rparr>"
  have "case gcp_describe ''linux'' None [(''project'', D_String ''p'')] gcp_example of
      Inl e \<Rightarrow> False | Inr caps \<Rightarrow> list_ex (\<lambda>(n, c). n = ''agent_forward'' \<and> \<not> cap_supported c) caps"
    by code_simp
  then obtain caps cap where caps: "gcp_describe ''linux'' None [(''project'', D_String ''p'')] gcp_example = Inr caps"
      "(''agent_forward'', cap) \<in> set caps" "\<not> cap_supported cap"
    by (auto simp: list_ex_iff split: sum.splits)
  have "case gcp_prepare (join_with '' '') None [(''project'', D_String ''p'')] gcp_example ?op of Inl e \<Rightarrow> False | Inr r \<Rightarrow> True"
    by code_simp
  then obtain r where r: "gcp_prepare (join_with '' '') None [(''project'', D_String ''p'')] gcp_example ?op = Inr r"
    by (auto split: sum.splits)
  have "gcp_connector_runtime [(''project'', D_String ''p'')] (ct_config gcp_example) \<noteq> ''command''"
    by code_simp
  with gcp_described_and_prepared[OF caps(1) _ r, of cap] caps(2) have "pr_supported r"
    by (simp add: gcp_undescribed_def)
  with caps r show ?thesis
    by blast
qed

end
