(* ===== verification/Inv_Cloud.thy ===== *)
theory Inv_Cloud
  imports Plan_Aws Plan_Gcp Conf_Read
begin

text \<open>
  The inventories of the AWS and the GCP provider, \<^verbatim>\<open>provider-mixed-aws-ec2/main.go\<close> and
  \<^verbatim>\<open>provider-mixed-gcp-compute/main.go\<close>: which instances become servers, with which name, address and
  metadata. The instances the services answer with are parameters; a Go map is a list in an order of iteration.
\<close>

section \<open>Addresses\<close>

text \<open>The functions of the three cloud providers are the same.\<close>

definition addr_strategy :: "table \<Rightarrow> string" where
  "addr_strategy config =
     (let v = trim_space (to_lower (provider_string config ''addr_strategy''))
      in if v \<in> set [''public_first'', ''private_only'', ''public_only''] then v else ''private_first'')"

definition select_address :: "string \<Rightarrow> string \<Rightarrow> string \<Rightarrow> string" where
  "select_address private_ip public_ip strategy =
     (if strategy = ''public_first'' then (if public_ip \<noteq> '''' then public_ip else private_ip)
      else if strategy = ''private_only'' then private_ip
      else if strategy = ''public_only'' then public_ip
      else if private_ip \<noteq> '''' then private_ip else public_ip)"

section \<open>AWS\<close>

text \<open>An instance; \<open>None\<close> is a nil pointer.\<close>

record aws_instance =
  ai_state :: "string option"
  ai_tags :: "(string option \<times> string option) list"
  ai_private_ip :: "string option"
  ai_public_ip :: "string option"
  ai_id :: "string option"
  ai_zone :: "string option option"
  ai_platform :: string

definition aws_string :: "string option \<Rightarrow> string" where
  "aws_string v = (case v of None \<Rightarrow> '''' | Some s \<Rightarrow> s)"

definition add_tag :: "string option \<times> string option \<Rightarrow> (string \<times> string) list \<Rightarrow> (string \<times> string) list" where
  "add_tag tag m = (if aws_string (fst tag) = '''' then m else AList.update (aws_string (fst tag)) (aws_string (snd tag)) m)"

definition aws_tags :: "(string option \<times> string option) list \<Rightarrow> (string \<times> string) list" where
  "aws_tags tags = fold add_tag tags []"

definition tag_pairs :: "string \<Rightarrow> (string \<times> string) list \<Rightarrow> (string \<times> string) list" where
  "tag_pairs kind tags = map (\<lambda>(k, v). (''${'' @ kind @ ''.'' @ k @ ''}'', v)) tags"

definition render_template :: "string \<Rightarrow> string \<Rightarrow> string \<Rightarrow> string \<Rightarrow> string \<Rightarrow> (string \<times> string) list \<Rightarrow> string" where
  "render_template template instance_id private_ip public_ip region tags =
     (if template = '''' then ''''
      else new_replacer ([(''${instance_id}'', instance_id), (''${private_ip}'', private_ip), (''${public_ip}'', public_ip),
             (''${region}'', region)] @ tag_pairs ''tags'' tags) template)"

definition aws_regions :: "table \<Rightarrow> string list" where
  "aws_regions config =
     (let rs = provider_string_slice config ''regions''; rs = (if rs = [] then [provider_string config ''region''] else rs)
      in if hd rs = '''' then [''us-east-1''] else rs)"

text \<open>The tags a server takes over as settings.\<close>

definition include_tag :: "(string \<times> string) list \<Rightarrow> string \<Rightarrow> table \<Rightarrow> table" where
  "include_tag tags key cfg =
     (if lookup_text tags key \<noteq> '''' then AList.update (''tag_'' @ to_lower key) (D_String (lookup_text tags key)) cfg else cfg)"

definition put_all :: "string \<Rightarrow> (string \<times> string) list \<Rightarrow> (string \<times> string) list \<Rightarrow> (string \<times> string) list" where
  "put_all pre kvs m = fold (\<lambda>(k, v). AList.update (pre @ k) v) kvs m"

definition aws_name_template :: "table \<Rightarrow> string" where
  "aws_name_template config =
     (let t = provider_string config ''server_name_template'' in if t = '''' then ''aws:${tags.Name}'' else t)"

definition aws_server :: "table \<Rightarrow> string \<Rightarrow> aws_instance \<Rightarrow> inv_server" where
  "aws_server config region i =
     (let tags = aws_tags (ai_tags i); private_ip = aws_string (ai_private_ip i); public_ip = aws_string (ai_public_ip i);
          instance_id = aws_string (ai_id i); zone = (case ai_zone i of None \<Rightarrow> '''' | Some z \<Rightarrow> aws_string z);
          platform = (if ai_platform i = ''windows'' then ''windows'' else ''linux'');
          rendered = render_template (aws_name_template config) instance_id private_ip public_ip region tags;
          cfg = [(''addr'', D_String (select_address private_ip public_ip (addr_strategy config))),
            (''note'', D_String (render_template (provider_string config ''note_template'') instance_id private_ip public_ip region tags))];
          meta = [(''provider'', ''aws''), (''plugin'', ''provider-mixed-aws-ec2''), (''instance_id'', instance_id),
            (''private_ip'', private_ip), (''public_ip'', public_ip), (''region'', region), (''zone'', zone), (''platform'', platform)]
      in \<lparr>is_name = (if rendered = '''' then ''aws:'' @ instance_id else rendered),
          is_config = fold (include_tag tags) (provider_string_slice config ''include_tags'') cfg,
          is_meta = put_all ''tag.'' tags meta\<rparr>)"

definition aws_running :: "aws_instance \<Rightarrow> bool" where
  "aws_running i = (ai_state i = Some ''running'')"

text \<open>\<open>describe\<close> gives the instances of a region, or the first error of its client and its pages.\<close>

definition list_aws :: "(string \<Rightarrow> aws_instance list result) \<Rightarrow> table \<Rightarrow> inv_server list result" where
  "list_aws describe config =
     fold_result (\<lambda>region out. case describe region of Inl e \<Rightarrow> Inl e
         | Inr found \<Rightarrow> Inr (out @ map (aws_server config region) (filter aws_running found)))
       (aws_regions config) []"

definition normalize_lower_strings :: "string list \<Rightarrow> string list" where
  "normalize_lower_strings vs = filter (\<lambda>v. v \<noteq> '''') (map (\<lambda>v. trim_space (to_lower v)) vs)"

definition aws_health_check_scopes :: "table \<Rightarrow> bool \<times> bool" where
  "aws_health_check_scopes config =
     (let capabilities = normalize_lower_strings (provider_string_slice config ''capabilities'');
          connector_names = normalize_lower_strings (provider_string_slice config ''connector_names'')
      in if capabilities \<noteq> [] then (True, ''connector'' \<in> set capabilities)
         else if connector_names \<noteq> [] then (True, ''aws-ssm'' \<in> set connector_names) else (True, True))"

definition aws_health_check_message :: "bool \<Rightarrow> bool \<Rightarrow> string" where
  "aws_health_check_message check_ec2 check_ssm =
     (if check_ec2 \<and> check_ssm then ''aws mixed provider can access EC2 and SSM''
      else if check_ec2 then ''aws mixed provider can access EC2''
      else if check_ssm then ''aws mixed provider can access SSM'' else ''aws mixed provider health check completed'')"

section \<open>GCP\<close>

text \<open>The interfaces of an instance: the network address and the addresses of the access configurations.\<close>

record gcp_instance =
  gc_status :: string
  gc_name :: string
  gc_id :: nat
  gc_interfaces :: "(string \<times> string list) list"
  gc_zone :: string
  gc_labels :: "(string \<times> string) list"

definition basename :: "string \<Rightarrow> string" where
  "basename v = last (split_on CHR ''/'' v)"

definition render_gcp_template :: "string \<Rightarrow> string \<Rightarrow> string \<Rightarrow> string \<Rightarrow> string \<Rightarrow> string \<Rightarrow> (string \<times> string) list \<Rightarrow> string" where
  "render_gcp_template template name number private_ip public_ip zone labels =
     (if template = '''' then ''''
      else new_replacer ([(''${name}'', name), (''${id}'', number), (''${private_ip}'', private_ip), (''${public_ip}'', public_ip),
             (''${zone}'', basename zone)] @ tag_pairs ''labels'' labels) template)"

definition gcp_addresses :: "gcp_instance \<Rightarrow> string \<times> string" where
  "gcp_addresses i =
     (case gc_interfaces i of
        [] \<Rightarrow> ('''', '''')
      | (private_ip, access) # _ \<Rightarrow> (private_ip, case access of [] \<Rightarrow> '''' | a # _ \<Rightarrow> a))"

definition gcp_server :: "string \<Rightarrow> string \<Rightarrow> string \<Rightarrow> string \<Rightarrow> gcp_instance \<Rightarrow> inv_server" where
  "gcp_server project name_template note_template strategy i =
     (case gcp_addresses i of (private_ip, public_ip) \<Rightarrow>
       (let render = (\<lambda>t. render_gcp_template t (gc_name i) (decimal (gc_id i)) private_ip public_ip (gc_zone i) (gc_labels i))
        in \<lparr>is_name = render name_template,
            is_config = [(''addr'', D_String (select_address private_ip public_ip strategy)), (''note'', D_String (render note_template))],
            is_meta = put_all ''label.'' (gc_labels i)
              [(''provider'', ''gcp''), (''plugin'', ''provider-mixed-gcp-compute''), (''id'', decimal (gc_id i)), (''name'', gc_name i),
               (''project'', project), (''private_ip'', private_ip), (''public_ip'', public_ip), (''zone'', basename (gc_zone i))]\<rparr>))"

definition convert_gcp_instances ::
    "gcp_instance option list \<Rightarrow> string \<Rightarrow> string \<Rightarrow> string \<Rightarrow> string \<Rightarrow> inv_server list" where
  "convert_gcp_instances found project name_template note_template strategy =
     map (gcp_server project name_template note_template strategy)
       (filter (\<lambda>i. gc_status i = ''RUNNING'') (map the (filter (\<lambda>i. i \<noteq> None) found)))"

text \<open>\<open>in_zone\<close> lists the instances of one zone of a project, \<open>aggregated\<close> those of all its zones, in an order
  of iteration of the map of the answer.\<close>

definition list_gcp ::
    "(string \<Rightarrow> string \<Rightarrow> gcp_instance option list result) \<Rightarrow> (string \<Rightarrow> (string \<times> gcp_instance option list) list result)
      \<Rightarrow> table \<Rightarrow> inv_server list result" where
  "list_gcp in_zone aggregated config =
     (let project = provider_string config ''project''; zone = provider_string config ''zone'';
          t = provider_string config ''server_name_template'';
          convert = (\<lambda>found. convert_gcp_instances found project (if t = '''' then ''gcp:${name}'' else t)
            (provider_string config ''note_template'') (addr_strategy config))
      in if project = '''' then errorf ''project is required''
         else if zone \<noteq> '''' then map_sum id convert (in_zone project zone)
         else map_sum id (\<lambda>scopes. concat (map (\<lambda>(z, found). convert found) scopes)) (aggregated project))"

section \<open>Names\<close>

lemma new_replacer_plain:
  assumes "\<forall>p \<in> set pairs. has_prefix (fst p) ''$''" "CHR ''$'' \<notin> set s"
  shows "new_replacer pairs (s @ t) = s @ new_replacer pairs t"
  using assms(2)
proof (induction s)
  case (Cons c s)
  have "\<not> has_prefix (c # s @ t) (fst p)" if "p \<in> set pairs" for p
    using assms(1) that Cons.prems by (cases "fst p") auto
  then have "find (\<lambda>(old, new). old \<noteq> [] \<and> has_prefix (c # s @ t) old) pairs = None"
    by (auto simp: find_None_iff)
  with Cons show ?case
    by simp
qed simp

definition untagged :: "aws_instance \<Rightarrow> bool" where
  "untagged i \<longleftrightarrow> ''Name'' \<notin> fst ` set (aws_tags (ai_tags i))"

definition placeholder :: string where
  "placeholder = ''aws:${tags.Name}''"

lemma render_untagged:
  assumes "''Name'' \<notin> fst ` set tags"
  shows "render_template placeholder i a b r tags = placeholder"
proof -
  let ?pairs = "[(''${instance_id}'', i), (''${private_ip}'', a), (''${public_ip}'', b), (''${region}'', r)] @ tag_pairs ''tags'' tags"
  have heads: "\<forall>p \<in> set ?pairs. has_prefix (fst p) ''$''"
    by (auto simp: tag_pairs_def)
  have "\<not> has_prefix ''${tags.Name}'' (''${tags.'' @ k @ ''}'')" if "k \<in> fst ` set tags" for k
  proof
    assume "has_prefix ''${tags.Name}'' (''${tags.'' @ k @ ''}'')"
    then have "k = ''Name''"
      by (auto simp: has_prefix_iff prefix_def Cons_eq_append_conv append_eq_Cons_conv)
    with that assms show False
      by simp
  qed
  then have "find (\<lambda>(old, new). old \<noteq> [] \<and> has_prefix ''${tags.Name}'' old) ?pairs = None"
    by (force simp: find_None_iff tag_pairs_def)
  then have "new_replacer ?pairs ''${tags.Name}'' = CHR ''$'' # new_replacer ?pairs ''{tags.Name}''"
    by (subst new_replacer.simps) simp
  moreover have "new_replacer ?pairs ''{tags.Name}'' = ''{tags.Name}''"
    using new_replacer_plain[OF heads, of "''{tags.Name}''" "''''"] by simp
  moreover have "new_replacer ?pairs (''aws:'' @ ''${tags.Name}'') = ''aws:'' @ new_replacer ?pairs ''${tags.Name}''"
    by (rule new_replacer_plain[OF heads]) simp
  ultimately show ?thesis
    by (simp add: render_template_def placeholder_def)
qed

lemma untagged_name:
  assumes "provider_string config ''server_name_template'' = ''''" "untagged i"
  shows "is_name (aws_server config region i) = placeholder"
  using render_untagged assms
  by (simp add: aws_server_def Let_def untagged_def aws_name_template_def placeholder_def[symmetric]) (simp add: placeholder_def)

section \<open>What is listed\<close>

lemma list_aws_fold:
  "fold_result (\<lambda>region out. case describe region of Inl e \<Rightarrow> Inl e
        | Inr found \<Rightarrow> Inr (out @ map (aws_server config region) (filter aws_running found))) rs out = Inr servers \<longleftrightarrow>
     (\<forall>r \<in> set rs. \<exists>found. describe r = Inr found)
     \<and> servers = out @ concat (map (\<lambda>r. map (aws_server config r) (filter aws_running (projr (describe r)))) rs)"
proof (induction rs arbitrary: out)
  case (Cons r rs)
  then show ?case
    by (cases "describe r") auto
qed auto

lemma list_aws_spec:
  "list_aws describe config = Inr servers \<longleftrightarrow>
     (\<forall>r \<in> set (aws_regions config). \<exists>found. describe r = Inr found)
     \<and> servers = concat (map (\<lambda>r. map (aws_server config r) (filter aws_running (projr (describe r)))) (aws_regions config))"
  unfolding list_aws_def list_aws_fold by simp

lemma generated_server_puts:
  assumes "generated_server env provider raw base ms s c = Inr c'"
  shows "\<exists>x. c' = put_server (is_name s) x c \<and> fc_provider_meta x = is_meta s"
  using assms by (auto simp: generated_server_def errorf_def Let_def split: if_splits sum.splits)

text \<open>Of several servers of one provider with the same name the last is kept.\<close>

lemma same_name_last_wins:
  assumes "fold_result (generated_server env provider raw base ms) servers c = Inr c'"
  shows "if n \<in> is_name ` set servers
    then \<exists>x. map_of (cg_server c') n = Some x \<and> fc_provider_meta x = is_meta (last (filter (\<lambda>s. is_name s = n) servers))
    else map_of (cg_server c') n = map_of (cg_server c) n"
  using assms
proof (induction servers arbitrary: c' rule: rev_induct)
  case (snoc s servers)
  obtain d where d: "fold_result (generated_server env provider raw base ms) servers c = Inr d"
      "generated_server env provider raw base ms s d = Inr c'"
    using snoc.prems by (auto simp: fold_result_append split: sum.splits)
  obtain x where x: "c' = put_server (is_name s) x d" "fc_provider_meta x = is_meta s"
    using generated_server_puts[OF d(2)] by blast
  show ?case
  proof (cases "is_name s = n")
    case True
    with x show ?thesis
      by (simp add: put_server_def update_conv')
  next
    case False
    with snoc.IH[OF d(1)] x show ?thesis
      by (auto simp: put_server_def update_conv' split: if_splits)
  qed
qed simp

lemma read_inventory_provider_servers:
  assumes "read_inventory_provider env (name, raw) c = Inr c'" "provider_enabled raw" "provider_has_capability raw ''inventory''"
    and "re_inventory env name raw = Inr servers"
  shows "\<exists>base ms. fold_result (generated_server env name raw base ms) servers c = Inr c'"
  using assms by (auto simp: read_inventory_provider_def Let_def split: sum.splits)

text \<open>
  C28. Without a template of its own the AWS provider names a server after its tag Name. An instance without
  that tag keeps the placeholder as its name, since the fallback to the instance id is for empty names only.
  All such instances are listed under this one name, and the configuration keeps only the last of them.
\<close>

theorem untagged_instances_collapse:
  assumes "read_inventory_provider env (name, raw) c = Inr c'" "provider_enabled raw" "provider_has_capability raw ''inventory''"
    and "re_inventory env name raw = list_aws describe config" "list_aws describe config = Inr servers"
    and "provider_string config ''server_name_template'' = ''''"
    and "region \<in> set (aws_regions config)" "describe region = Inr found" "i \<in> set found" "aws_running i" "untagged i"
  shows "let us = filter (\<lambda>s. is_name s = placeholder) servers
    in aws_server config region i \<in> set us
       \<and> (\<exists>x. map_of (cg_server c') placeholder = Some x \<and> fc_provider_meta x = is_meta (last us))"
proof -
  let ?us = "filter (\<lambda>s. is_name s = placeholder) servers"
  have "servers = concat (map (\<lambda>r. map (aws_server config r) (filter aws_running (projr (describe r)))) (aws_regions config))"
    using assms(5) by (simp add: list_aws_spec)
  then have "aws_server config region i \<in> set servers"
    using assms(7-10) by (auto intro!: bexI[of _ region])
  with untagged_name[OF assms(6) assms(11)] have found: "aws_server config region i \<in> set ?us"
    by simp
  obtain base ms where "fold_result (generated_server env name raw base ms) servers c = Inr c'"
    using read_inventory_provider_servers[OF assms(1-3)] assms(4,5) by auto
  moreover have "placeholder \<in> is_name ` set servers"
    using found by force
  ultimately show ?thesis
    using same_name_last_wins[of env name raw base ms servers c c' placeholder] found by (simp add: Let_def)
qed

text \<open>Two instances without tags in one region.\<close>

definition bare_instance :: "string \<Rightarrow> aws_instance" where
  "bare_instance number = \<lparr>ai_state = Some ''running'', ai_tags = [], ai_private_ip = Some ''10.0.0.1'', ai_public_ip = None,
     ai_id = Some number, ai_zone = None, ai_platform = ''''\<rparr>"

definition two_instances :: "string \<Rightarrow> aws_instance list result" where
  "two_instances region = Inr [bare_instance ''i-1'', bare_instance ''i-2'']"

definition aws_site :: read_env where
  "aws_site = one_file\<lparr>re_inventory := (\<lambda>name raw. list_aws two_instances [])\<rparr>"

definition aws_raw :: table where
  "aws_raw = [(''capabilities'', D_Strings [''inventory'']), (''reserved_keys'', D_Strings [])]"

lemma aws_site_reads: "case read_inventory_provider aws_site (''aws'', aws_raw) empty_config of Inl e \<Rightarrow> False | Inr c \<Rightarrow> True"
  by code_simp

lemma untagged_instances_collapse_witness:
  "case read_inventory_provider aws_site (''aws'', aws_raw) empty_config of
     Inl e \<Rightarrow> False
   | Inr c \<Rightarrow> \<exists>x. map_of (cg_server c) placeholder = Some x \<and> fc_provider_meta x = is_meta (aws_server [] ''us-east-1'' (bare_instance ''i-2''))"
proof -
  let ?servers = "map (aws_server [] ''us-east-1'') [bare_instance ''i-1'', bare_instance ''i-2'']"
  obtain c where c: "read_inventory_provider aws_site (''aws'', aws_raw) empty_config = Inr c"
    using aws_site_reads by (auto split: sum.splits)
  have regions: "aws_regions [] = [''us-east-1'']"
    by code_simp
  have listed: "list_aws two_instances [] = Inr ?servers"
    by (simp add: list_aws_spec regions two_instances_def bare_instance_def aws_running_def)
  have bare: "untagged (bare_instance number)" for number
    by (simp add: untagged_def aws_tags_def bare_instance_def)
  have usual: "provider_string [] ''server_name_template'' = ''''"
    by (simp add: provider_string_def)
  have used: "provider_enabled aws_raw" "provider_has_capability aws_raw ''inventory''"
    by code_simp+
  have runs: "aws_running (bare_instance number)" for number
    by (simp add: aws_running_def bare_instance_def)
  have asks: "re_inventory aws_site ''aws'' aws_raw = list_aws two_instances []"
    by (simp add: aws_site_def)
  have region: "''us-east-1'' \<in> set (aws_regions [])"
    by (simp add: regions)
  have "let us = filter (\<lambda>s. is_name s = placeholder) ?servers in
      aws_server [] ''us-east-1'' (bare_instance ''i-1'') \<in> set us
      \<and> (\<exists>x. map_of (cg_server c) placeholder = Some x \<and> fc_provider_meta x = is_meta (last us))"
    using untagged_instances_collapse[OF c used asks listed usual region _ _ runs bare,
        of "[bare_instance ''i-1'', bare_instance ''i-2'']" "''i-1''"]
    by (simp only: two_instances_def list.set_intros simp_thms)
  then have "\<exists>x. map_of (cg_server c) placeholder = Some x
      \<and> fc_provider_meta x = is_meta (last (filter (\<lambda>s. is_name s = placeholder) ?servers))"
    by (simp only: Let_def)
  then show ?thesis
    using untagged_name[OF usual bare] by (simp add: c)
qed

section \<open>Servers as targets\<close>

lemma put_all_other: "\<not> has_prefix key pre \<Longrightarrow> map_of (put_all pre kvs m) key = map_of m key"
  unfolding put_all_def by (induction kvs arbitrary: m) (auto simp: update_conv')

lemma listed_meta:
  "map_of (is_meta (aws_server config region i)) ''instance_id'' = Some (aws_string (ai_id i))"
  "map_of (is_meta (aws_server config region i)) ''region'' = Some region"
  by (simp_all add: aws_server_def Let_def put_all_other)

text \<open>A listed instance is a complete target of both connectors, for its own id, region and address.\<close>

theorem listed_instance_is_target:
  assumes "ct_meta target = is_meta (aws_server config region i)" "trim_space (aws_string (ai_id i)) \<noteq> ''''" "trim_space region \<noteq> ''''"
  shows "(case ssm_target_from_params config' target of (t, missing) \<Rightarrow>
       missing = [] \<and> st_instance_id t = aws_string (ai_id i) \<and> st_region t = region)
    \<and> (case eice_target_from_params home config' target of (t, missing) \<Rightarrow>
       missing = [] \<and> et_instance_id t = aws_string (ai_id i) \<and> et_region t = region)"
proof -
  have "aws_setting config' target ''instance_id'' k = aws_string (ai_id i)" "aws_setting config' target ''region'' k = region" for k
    using assms by (simp_all add: aws_setting_def meta_string_def listed_meta)
  moreover have "aws_string (ai_id i) \<noteq> ''''" "region \<noteq> ''''"
    using assms(2,3) trim_space_solid[of "''''"] by auto
  ultimately show ?thesis
    by (simp add: ssm_target_from_params_def eice_target_from_params_def missing_keys_def Let_def)
qed

lemma gcp_listed_meta:
  "map_of (is_meta (gcp_server project nt tt strategy i)) ''name'' = Some (gc_name i)"
  "map_of (is_meta (gcp_server project nt tt strategy i)) ''zone'' = Some (basename (gc_zone i))"
  by (simp_all add: gcp_server_def Let_def put_all_other split: prod.split)

theorem gcp_listed_instance_is_target:
  assumes "ct_meta target = is_meta (gcp_server project nt tt strategy i)" "trim_space (gc_name i) \<noteq> ''''"
    and "trim_space (basename (gc_zone i)) \<noteq> ''''" "gcp_connector_config home config target = Inr cfg"
  shows "gi_instance_name cfg = gc_name i \<and> gi_zone cfg = basename (gc_zone i)"
proof -
  have "cfg = gcp_settings home config target"
    using assms(4) by (simp add: gcp_connector_config_def Let_def errorf_def split: if_splits)
  then show ?thesis
    using assms(2,3) by (simp add: gcp_settings_def lookup_text_def assms(1) gcp_listed_meta Let_def)
qed

text \<open>With the usual template two instances of different zones that share their name share the server too.\<close>

lemma gcp_name_is_instance_name: "is_name (gcp_server project ''gcp:${name}'' tt strategy i) = ''gcp:'' @ gc_name i"
proof -
  obtain a b where ab: "gcp_addresses i = (a, b)"
    by fastforce
  let ?pairs = "[(''${name}'', gc_name i), (''${id}'', decimal (gc_id i)), (''${private_ip}'', a), (''${public_ip}'', b),
      (''${zone}'', basename (gc_zone i))] @ tag_pairs ''labels'' (gc_labels i)"
  have "new_replacer ?pairs (''gcp:'' @ ''${name}'') = ''gcp:'' @ new_replacer ?pairs ''${name}''"
    by (rule new_replacer_plain) (auto simp: tag_pairs_def)
  then show ?thesis
    by (simp add: gcp_server_def Let_def ab render_gcp_template_def)
qed

text \<open>The address of a server is one of the two its instance has, and stays within the strategy.\<close>

lemma select_address_spec:
  "select_address private_ip public_ip (addr_strategy config) \<in> {private_ip, public_ip}"
  "addr_strategy config = ''private_only'' \<Longrightarrow> select_address private_ip public_ip (addr_strategy config) = private_ip"
  "addr_strategy config = ''public_only'' \<Longrightarrow> select_address private_ip public_ip (addr_strategy config) = public_ip"
  "addr_strategy config \<in> {''private_first'', ''public_first''} \<Longrightarrow>
     select_address private_ip public_ip (addr_strategy config) = '''' \<longleftrightarrow> private_ip = '''' \<and> public_ip = ''''"
  by (auto simp: select_address_def)

end
