(* ===== verification/Plan_Azure.thy ===== *)
theory Plan_Azure
  imports Plan_Dial
begin

text \<open>
  The connector of the Azure provider, \<^verbatim>\<open>provider-mixed-azure-compute/main.go\<close>: what \<open>azure-bastion\<close>
  describes and prepares.
\<close>

section \<open>Settings\<close>

record bastion_config =
  ba_name :: string
  ba_group :: string
  ba_target :: string
  ba_subscription :: string
  ba_user :: string
  ba_key_file :: string
  ba_port :: string

definition bastion_settings :: "string option \<Rightarrow> table \<Rightarrow> connector_target \<Rightarrow> bastion_config" where
  "bastion_settings home config target =
     (let own = provider_string (ct_config target); both = (\<lambda>key. [own key, provider_string config key]);
          meta = lookup_text (ct_meta target)
      in \<lparr>ba_name = first_non_empty (both ''bastion_name''),
          ba_group = first_non_empty (both ''bastion_resource_group'' @ [meta ''resource_group'']),
          ba_target = first_non_empty [meta ''id'', own ''target_resource_id''],
          ba_subscription = first_non_empty (meta ''subscription_id'' # both ''subscription_id''), ba_user = own ''user'',
          ba_key_file = expand_path home (own ''key''), ba_port = first_non_empty [own ''port'', ''22'']\<rparr>)"

definition azure_connector_config :: "string option \<Rightarrow> table \<Rightarrow> connector_target \<Rightarrow> bastion_config result" where
  "azure_connector_config home config target =
     (let cfg = bastion_settings home config target
      in if ba_name cfg = '''' then errorf ''bastion_name is required for azure-bastion connector''
         else if ba_group cfg = '''' then errorf ''bastion_resource_group is required for azure-bastion connector''
         else if ba_target cfg = '''' then errorf ''target_resource_id metadata is required for azure-bastion connector''
         else Inr cfg)"

definition azure_connector_runtime :: "table \<Rightarrow> table \<Rightarrow> string" where
  "azure_connector_runtime config target_config =
     (if to_lower (trim_space (first_non_empty
           [provider_string target_config ''bastion_runtime'', provider_string config ''bastion_runtime''])) = ''command''
      then ''command'' else ''sdk'')"

section \<open>Describing\<close>

definition azure_describe :: "string \<Rightarrow> string option \<Rightarrow> table \<Rightarrow> connector_target \<Rightarrow> (string \<times> capability) list result" where
  "azure_describe os home config target =
     (case azure_connector_config home config target of Inl e \<Rightarrow> Inl e
      | Inr cfg \<Rightarrow>
          (let sdk = (azure_connector_runtime config (ct_config target) \<noteq> ''command'');
               sdk_reason = (if sdk then '''' else ''azure-bastion sdk runtime is disabled by configuration'');
               mounts = (sdk \<and> (os = ''linux'' \<or> os = ''darwin''));
               mount_reason = (if sdk \<and> \<not> mounts then ''mount via azure-bastion sdk runtime currently supports linux and macos only''
                               else sdk_reason);
               known = (ba_target cfg \<noteq> '''');
               always = capability_of known (unsupported_reason known ''azure-bastion requires target_resource_id metadata'') [];
               only_sdk = (\<lambda>reason requires. capability_of (sdk \<and> known) (unsupported_reason (sdk \<and> known) reason) requires False);
               never = (\<lambda>reason. capability_of False reason [] False)
           in Inr [(''shell'', always sdk), (''exec'', only_sdk ''azure-bastion exec is available only in sdk runtime'' []),
              (''exec_pty'', only_sdk ''azure-bastion exec_pty is available only in sdk runtime'' []),
              (''sftp_transport'', only_sdk sdk_reason []), (''upload'', only_sdk sdk_reason [''sftp_transport'']),
              (''download'', only_sdk sdk_reason [''sftp_transport'']),
              (''mount'', capability_of (mounts \<and> known) (unsupported_reason (mounts \<and> known) mount_reason) [''sftp_transport''] False),
              (''port_forward_local'', always False), (''tcp_dial_transport'', only_sdk sdk_reason []),
              (''port_forward_remote'', never ''azure-bastion does not support remote port forwarding in the first connector wave''),
              (''agent_forward'', never ''azure-bastion does not provide agent forwarding in the first connector wave'')]))"

section \<open>Preparing\<close>

definition azure_target_port :: "bastion_config \<Rightarrow> connector_operation \<Rightarrow> string" where
  "azure_target_port cfg op = first_non_empty [option_string (co_options op) ''target_port'', ba_port cfg]"

definition azure_prepare_sdk :: "bastion_config \<Rightarrow> connector_operation \<Rightarrow> prepare_result" where
  "azure_prepare_sdk cfg op =
     planned (managed_plan
       [(''connector'', D_String ''azure-bastion''), (''ssh_runtime'', D_String ''sdk''), (''transport'', D_String ''ssh_transport''),
        (''operation'', D_String (co_name op)), (''bastion_name'', D_String (ba_name cfg)),
        (''bastion_resource_group'', D_String (ba_group cfg)), (''target_resource_id'', D_String (ba_target cfg)),
        (''subscription_id'', D_String (ba_subscription cfg)), (''target_port'', D_String (azure_target_port cfg op))])"

definition az_args :: "table \<Rightarrow> connector_target \<Rightarrow> bastion_config \<Rightarrow> string list" where
  "az_args config target cfg =
     [''network'', ''bastion'', ''ssh'', ''--name'', ba_name cfg, ''--resource-group'', ba_group cfg, ''--target-resource-id'', ba_target cfg]
     @ flag_arg ''--subscription'' (ba_subscription cfg) @ flag_arg ''--username'' (ba_user cfg)
     @ (if ba_key_file cfg \<noteq> '''' then [''--auth-type'', ''ssh-key'', ''--ssh-key'', ba_key_file cfg]
        else [''--auth-type'', first_non_empty [provider_string (ct_config target) ''bastion_auth_type'',
                provider_string config ''bastion_auth_type'', ''AAD'']])"

definition azure_prepare_command :: "table \<Rightarrow> connector_target \<Rightarrow> bastion_config \<Rightarrow> connector_operation \<Rightarrow> prepare_result result" where
  "azure_prepare_command config target cfg op =
     (let option_text = option_string (co_options op);
          finish = (\<lambda>more. Inr (runtime_plan ''az'' ''azure-bastion'' (co_name op) (az_args config target cfg @ more)))
      in if co_name op = ''shell'' then finish []
         else if co_name op = ''port_forward_local''
         then (let listen_port = option_text ''listen_port''; host = option_text ''target_host''; port = azure_target_port cfg op
               in if listen_port = '''' \<or> host = '''' \<or> port = ''''
                  then errorf ''azure-bastion local forward requires listen_port, target_host, and target_port''
                  else finish [''--'', ''-N'', ''-L'', listen_port @ '':'' @ host @ '':'' @ port])
         else Inr (refused_plan ''command'' ''azure-bastion''
                (''operation '' @ quoted_text (co_name op) @ '' is not supported by the azure-bastion command runtime'')))"

definition azure_prepare :: "string option \<Rightarrow> table \<Rightarrow> connector_target \<Rightarrow> connector_operation \<Rightarrow> prepare_result result" where
  "azure_prepare home config target op =
     (case azure_connector_config home config target of Inl e \<Rightarrow> Inl e
      | Inr cfg \<Rightarrow>
          if azure_connector_runtime config (ct_config target) = ''command'' then azure_prepare_command config target cfg op
          else Inr (azure_prepare_sdk cfg op))"

section \<open>Dialling through a proxy\<close>

interpretation azure: port_only_connector "azure_prepare home" for home
proof (unfold_locales, goal_cases)
  case (1 op op' config target)
  then have port: "azure_target_port cfg op = azure_target_port cfg op'" for cfg
    by (simp add: azure_target_port_def option_string_def)
  have "azure_prepare_sdk cfg op = azure_prepare_sdk cfg op'"
      "azure_prepare_command config target cfg op = azure_prepare_command config target cfg op'" for cfg
    using 1 port by (simp_all add: azure_prepare_sdk_def azure_prepare_command_def)
  then show ?case
    by (simp add: azure_prepare_def split: sum.split)
qed

lemma azure_dial_ignores_host:
  assumes "pc_prepare p = (\<lambda>name. azure_prepare home)"
    and "CHR ''['' \<notin> set h" "CHR '']'' \<notin> set h" "CHR ''['' \<notin> set h'" "CHR '']'' \<notin> set h'" "list_all is_digit port"
  shows "dial_connector_target p site server ''tcp'' (join_host_port h port)
     = dial_connector_target p site server ''tcp'' (join_host_port h' port)"
  using assms by (rule azure.dial_ignores_host)

section \<open>What the command runtime leaves out\<close>

text \<open>
  The command line of \<open>az\<close> depends neither on the port of the server nor on the address to listen on: a
  server on another port is reached on the default one, and a forward for one address gets the same listener
  as a forward for another.
\<close>

lemma az_ignores_port: "az_args config target (cfg\<lparr>ba_port := port\<rparr>) = az_args config target cfg"
  by (simp add: az_args_def)

theorem az_forward_ignores_listen_host:
  assumes "azure_connector_runtime config (ct_config target) = ''command''" "co_name op = ''port_forward_local''"
    and "\<forall>key \<in> {''listen_port'', ''target_host'', ''target_port''}. map_of opts key = map_of (co_options op) key"
  shows "azure_prepare home config target (op\<lparr>co_options := opts\<rparr>) = azure_prepare home config target op"
proof -
  have "option_string opts key = option_string (co_options op) key" if "key \<in> {''listen_port'', ''target_host'', ''target_port''}" for key
    using assms(3) that by (auto simp: option_string_def)
  then have "azure_prepare_command config target cfg (op\<lparr>co_options := opts\<rparr>) = azure_prepare_command config target cfg op" for cfg
    using assms(2) by (simp add: azure_prepare_command_def azure_target_port_def Let_def)
  then show ?thesis
    by (simp add: azure_prepare_def assms(1) split: sum.split)
qed

definition azure_example :: connector_target where
  "azure_example = \<lparr>ct_name = ''web'', ct_config = [(''bastion_runtime'', D_String ''command''), (''bastion_name'', D_String ''b'')],
     ct_meta = [(''id'', ''/vm/1''), (''resource_group'', ''g'')]\<rparr>"

definition forward_options :: "string \<Rightarrow> table" where
  "forward_options host = [(''listen_host'', D_String host), (''listen_port'', D_String ''8080''),
     (''target_host'', D_String ''db''), (''target_port'', D_String ''5432'')]"

lemma az_forward_ignores_listen_host_witness:
  "azure_prepare None [] azure_example \<lparr>co_name = ''port_forward_local'', co_command = [], co_options = forward_options ''127.0.0.1''\<rparr>
   = azure_prepare None [] azure_example \<lparr>co_name = ''port_forward_local'', co_command = [], co_options = forward_options ''0.0.0.0''\<rparr>"
proof -
  have "azure_connector_runtime [] (ct_config azure_example) = ''command''"
    by code_simp
  from az_forward_ignores_listen_host[OF this,
      of "\<lparr>co_name = ''port_forward_local'', co_command = [], co_options = forward_options ''0.0.0.0''\<rparr>"
        "forward_options ''127.0.0.1''" None]
  show ?thesis
    by (simp add: forward_options_def)
qed

end
