(* ===== verification/Inv_Azure.thy ===== *)
theory Inv_Azure
  imports Inv_Cloud Plan_Azure
begin

text \<open>
  The inventory of the Azure provider, \<^verbatim>\<open>provider-mixed-azure-compute/main.go\<close>: the client with its
  credentials, subscription and caches, the pages of the list of machines, their power states and addresses, and the
  servers they become. Requests, the decoding of their answers and the credential library are parameters.
  Only ASCII letters change their case.
\<close>

section \<open>Requests\<close>

record azure_vm =
  av_id :: string
  av_name :: string
  av_location :: string
  av_tags :: "(string \<times> string) list"
  av_provisioning :: string
  av_os_type :: string
  av_nics :: "string list"
  av_statuses :: "string list"

text \<open>The configurations of an interface: the private address and the id of the public one.\<close>

type_synonym ip_configs = "(string \<times> string) list"

text \<open>What a request answers: its status code, the status as text, the body.\<close>

record azure_api =
  aa_http :: "string \<Rightarrow> (int \<times> string \<times> string) result"
  aa_decode_vms :: "string \<Rightarrow> (azure_vm list \<times> string) result"
  aa_decode_nic :: "string \<Rightarrow> ip_configs result"
  aa_decode_address :: "string \<Rightarrow> string result"
  aa_decode_statuses :: "string \<Rightarrow> (string list) result"

record azure_client =
  ac_base_url :: string
  ac_token :: string
  ac_subscription :: string

record azure_caches =
  nic_cache :: "(string \<times> ip_configs) list"
  address_cache :: "(string \<times> string) list"

definition get_json :: "azure_api \<Rightarrow> (string \<Rightarrow> 'a result) \<Rightarrow> string \<Rightarrow> 'a result" where
  "get_json api decode url =
     (case aa_http api url of Inl e \<Rightarrow> Inl e
      | Inr (code, status, body) \<Rightarrow>
          if code < 200 \<or> 300 \<le> code
          then errorf (''azure api request failed: status='' @ status @ '' url='' @ url @ '' body='' @ body)
          else decode body)"

section \<open>Addresses of requests\<close>

definition hex_digit :: "nat \<Rightarrow> char" where
  "hex_digit n = (if n < 10 then char_of (48 + n) else char_of (55 + n))"

text \<open>\<open>url.PathEscape\<close>.\<close>

definition unescaped :: "char \<Rightarrow> bool" where
  "unescaped c =
     (let n = (of_char c :: nat)
      in 48 \<le> n \<and> n \<le> 57 \<or> 65 \<le> n \<and> n \<le> 90 \<or> 97 \<le> n \<and> n \<le> 122 \<or> c \<in> set ''-_.~$&+=:@'')"

definition path_escape :: "string \<Rightarrow> string" where
  "path_escape s =
     concat (map (\<lambda>c. if unescaped c then [c]
       else [CHR ''%'', hex_digit ((of_char c :: nat) div 16), hex_digit ((of_char c :: nat) mod 16)]) s)"

definition azure_vm_list_path :: "string \<Rightarrow> string \<Rightarrow> string \<Rightarrow> bool \<Rightarrow> string" where
  "azure_vm_list_path base_url subscription rgroup status_only =
     (if rgroup \<noteq> ''''
      then base_url @ ''/subscriptions/'' @ path_escape subscription @ ''/resourceGroups/'' @ path_escape rgroup
           @ ''/providers/Microsoft.Compute/virtualMachines?api-version=2025-04-01''
      else base_url @ ''/subscriptions/'' @ path_escape subscription
           @ ''/providers/Microsoft.Compute/virtualMachines?api-version=2025-04-01'' @ (if status_only then ''&statusOnly=true'' else ''''))"

definition resource_url :: "azure_client \<Rightarrow> string \<Rightarrow> string \<Rightarrow> string" where
  "resource_url client resource version = ac_base_url client @ resource @ ''?api-version='' @ version"

section \<open>The list of machines\<close>

text \<open>The loop over the pages; \<open>None\<close> is a loop that never ends.\<close>

partial_function (option) list_pages :: "azure_api \<Rightarrow> string \<Rightarrow> azure_vm list \<Rightarrow> azure_vm list result option" where
  "list_pages api url out =
     (if url = '''' then Some (Inr out)
      else (case get_json api (aa_decode_vms api) url of Inl e \<Rightarrow> Some (Inl e)
            | Inr (vms, next_link) \<Rightarrow> list_pages api next_link (out @ vms)))"

definition list_vms :: "azure_api \<Rightarrow> azure_client \<Rightarrow> table \<Rightarrow> bool \<Rightarrow> azure_vm list result option" where
  "list_vms api client config status_only =
     (if ac_subscription client = '''' then Some (errorf ''subscription_id is required'')
      else list_pages api (azure_vm_list_path (ac_base_url client) (ac_subscription client)
             (provider_string config ''resource_group'') status_only) [])"

section \<open>Power states\<close>

fun azure_power_state :: "string list \<Rightarrow> string" where
  "azure_power_state [] = ''''"
| "azure_power_state (code # codes) =
     (if has_prefix (to_lower code) ''powerstate/'' then to_lower (trim_prefix code ''PowerState/'') else azure_power_state codes)"

definition note_power_state :: "azure_vm \<Rightarrow> (string \<times> string) list \<Rightarrow> (string \<times> string) list" where
  "note_power_state vm m =
     (if av_id vm = '''' \<or> azure_power_state (av_statuses vm) = '''' then m
      else AList.update (to_lower (av_id vm)) (azure_power_state (av_statuses vm)) m)"

definition azure_power_state_map :: "azure_vm list \<Rightarrow> (string \<times> string) list" where
  "azure_power_state_map vms = fold note_power_state vms []"

definition supports_vm_status_list :: "table \<Rightarrow> bool" where
  "supports_vm_status_list config = (trim_space (provider_string config ''resource_group'') = '''')"

definition list_power_states :: "azure_api \<Rightarrow> azure_client \<Rightarrow> table \<Rightarrow> (string \<times> string) list result option" where
  "list_power_states api client config =
     (if supports_vm_status_list config
      then map_option (map_sum id azure_power_state_map) (list_vms api client config True) else Some (Inr []))"

definition vm_statuses :: "azure_api \<Rightarrow> azure_client \<Rightarrow> string \<Rightarrow> (string list) result" where
  "vm_statuses api client resource =
     get_json api (aa_decode_statuses api) (resource_url client (resource @ ''/instanceView'') ''2025-04-01'')"

text \<open>What is known from the list, from the machine itself, or from a request of its own.\<close>

definition entry_power_state :: "azure_api \<Rightarrow> azure_client \<Rightarrow> azure_vm \<Rightarrow> string \<Rightarrow> string result" where
  "entry_power_state api client vm known =
     (let s = (if known = '''' then azure_power_state (av_statuses vm) else known)
      in if s = '''' \<and> av_id vm \<noteq> '''' then map_sum id azure_power_state (vm_statuses api client (av_id vm)) else Inr s)"

section \<open>Filters\<close>

definition azure_bool :: "table \<Rightarrow> string \<Rightarrow> bool" where
  "azure_bool config key =
     (case map_of config key of
        Some (D_Bool b) \<Rightarrow> b
      | Some (D_String s) \<Rightarrow> to_lower s \<in> set [''1'', ''true'', ''yes'', ''on'']
      | _ \<Rightarrow> False)"

definition normalized_string_set :: "string list \<Rightarrow> string list" where
  "normalized_string_set vs = filter (\<lambda>v. v \<noteq> '''') (map (\<lambda>v. to_lower (trim_space v)) vs)"

definition azure_statuses :: "table \<Rightarrow> string list" where
  "azure_statuses config =
     (let statuses = normalized_string_set (provider_string_slice config ''statuses'')
      in if statuses \<noteq> [] then statuses
         else ''running'' # (if azure_bool config ''include_stopped'' then [''stopped'', ''deallocated'', ''stopping'', ''starting''] else []))"

definition azure_matches :: "string list \<Rightarrow> string \<Rightarrow> bool" where
  "azure_matches statuses state = (statuses = [] \<or> to_lower state \<in> set statuses)"

section \<open>Addresses and their caches\<close>

definition get_nic ::
    "azure_api \<Rightarrow> azure_client \<Rightarrow> string \<Rightarrow> azure_caches \<Rightarrow> ip_configs result \<times> azure_caches" where
  "get_nic api client resource c =
     (case map_of (nic_cache c) resource of Some n \<Rightarrow> (Inr n, c)
      | None \<Rightarrow>
          (case get_json api (aa_decode_nic api) (resource_url client resource ''2024-07-01'') of Inl e \<Rightarrow> (Inl e, c)
           | Inr n \<Rightarrow> (Inr n, c\<lparr>nic_cache := AList.update resource n (nic_cache c)\<rparr>)))"

definition get_public_ip ::
    "azure_api \<Rightarrow> azure_client \<Rightarrow> string \<Rightarrow> azure_caches \<Rightarrow> string result \<times> azure_caches" where
  "get_public_ip api client resource c =
     (case map_of (address_cache c) resource of Some n \<Rightarrow> (Inr n, c)
      | None \<Rightarrow>
          (case get_json api (aa_decode_address api) (resource_url client resource ''2024-07-01'') of Inl e \<Rightarrow> (Inl e, c)
           | Inr n \<Rightarrow> (Inr n, c\<lparr>address_cache := AList.update resource n (address_cache c)\<rparr>)))"

text \<open>The private and the public address, and the error with which the search for them ended; \<open>None\<close> goes on.\<close>

type_synonym addresses = "string \<times> string \<times> go_error option"

fun ip_loop :: "azure_api \<Rightarrow> azure_client \<Rightarrow> ip_configs \<Rightarrow> azure_caches \<Rightarrow> addresses option \<times> azure_caches" where
  "ip_loop api client [] c = (None, c)"
| "ip_loop api client ((private_ip, public_id) # rest) c =
     (case (if public_id = '''' then (Inr '''', c) else get_public_ip api client public_id c) of
        (Inl e, d) \<Rightarrow> (Some (private_ip, '''', Some e), d)
      | (Inr public_ip, d) \<Rightarrow>
          if private_ip \<noteq> '''' \<or> public_ip \<noteq> '''' then (Some (private_ip, public_ip, None), d) else ip_loop api client rest d)"

fun nic_loop :: "azure_api \<Rightarrow> azure_client \<Rightarrow> string list \<Rightarrow> azure_caches \<Rightarrow> addresses \<times> azure_caches" where
  "nic_loop api client [] c = (('''', '''', None), c)"
| "nic_loop api client (nic # nics) c =
     (if nic = '''' then nic_loop api client nics c
      else (case get_nic api client nic c of
              (Inl e, d) \<Rightarrow> (('''', '''', Some e), d)
            | (Inr configs, d) \<Rightarrow>
                (case ip_loop api client configs d of
                   (Some a, d') \<Rightarrow> (a, d') | (None, d') \<Rightarrow> nic_loop api client nics d')))"

definition vm_ips :: "azure_api \<Rightarrow> azure_client \<Rightarrow> azure_vm \<Rightarrow> azure_caches \<Rightarrow> addresses \<times> azure_caches" where
  "vm_ips api client vm c = nic_loop api client (av_nics vm) c"

section \<open>Servers\<close>

fun group_of_parts :: "string list \<Rightarrow> string" where
  "group_of_parts (p # q # parts) = (if to_lower p = ''resourcegroups'' then q else group_of_parts (q # parts))"
| "group_of_parts _ = ''''"

definition azure_resource_group :: "string \<Rightarrow> string" where
  "azure_resource_group resource = group_of_parts (split_on CHR ''/'' resource)"

definition render_azure_template :: "string \<Rightarrow> azure_vm \<Rightarrow> string \<Rightarrow> string \<Rightarrow> string \<Rightarrow> string \<Rightarrow> string" where
  "render_azure_template template vm rgroup private_ip public_ip power_state =
     (if template = '''' then ''''
      else new_replacer ([(''${id}'', av_id vm), (''${name}'', av_name vm), (''${location}'', av_location vm), (''${resource_group}'', rgroup),
             (''${private_ip}'', private_ip), (''${public_ip}'', public_ip), (''${power_state}'', power_state),
             (''${os_type}'', to_lower (av_os_type vm))] @ tag_pairs ''tags'' (av_tags vm)) template)"

record entry_options =
  eo_statuses :: "string list"
  eo_name_template :: string
  eo_note_template :: string
  eo_strategy :: string
  eo_include_tags :: "string list"

definition azure_server :: "azure_client \<Rightarrow> entry_options \<Rightarrow> azure_vm \<Rightarrow> string \<Rightarrow> string \<Rightarrow> string \<Rightarrow> inv_server" where
  "azure_server client opts vm state private_ip public_ip =
     (let rgroup = azure_resource_group (av_id vm);
          render = (\<lambda>t. render_azure_template t vm rgroup private_ip public_ip state);
          meta = [(''provider'', ''azure''), (''plugin'', ''provider-mixed-azure-compute''), (''id'', av_id vm), (''name'', av_name vm),
            (''subscription_id'', ac_subscription client), (''resource_group'', rgroup), (''location'', av_location vm),
            (''private_ip'', private_ip), (''public_ip'', public_ip), (''power_state'', state),
            (''provisioning_state'', av_provisioning vm), (''os_type'', to_lower (av_os_type vm))];
          cfg = [(''addr'', D_String (select_address private_ip public_ip (eo_strategy opts))),
            (''note'', D_String (render (eo_note_template opts)))]
      in \<lparr>is_name = (if render (eo_name_template opts) = '''' then ''azure:'' @ av_name vm else render (eo_name_template opts)),
          is_config = fold (include_tag (av_tags vm)) (eo_include_tags opts) cfg, is_meta = put_all ''tag.'' (av_tags vm) meta\<rparr>)"

text \<open>A machine that the filter leaves out has no server; an error of its addresses is only a warning.\<close>

definition build_inventory_entry ::
    "azure_api \<Rightarrow> azure_client \<Rightarrow> (string \<times> string) list \<Rightarrow> entry_options \<Rightarrow> azure_vm \<Rightarrow> azure_caches
      \<Rightarrow> (inv_server option \<times> string) result \<times> azure_caches" where
  "build_inventory_entry api client states opts vm c =
     (case vm_ips api client vm c of ((private_ip, public_ip, ip_err), d) \<Rightarrow>
       (case entry_power_state api client vm (lookup_text states (to_lower (av_id vm))) of
          Inl e \<Rightarrow> Inl e
        | Inr state \<Rightarrow>
            if \<not> azure_matches (eo_statuses opts) state then Inr (None, '''')
            else Inr (Some (azure_server client opts vm state private_ip public_ip),
                      case ip_err of None \<Rightarrow> ''''
                      | Some e \<Rightarrow> ''warning: failed to resolve VM network for '' @ av_name vm @ '': '' @ err_message e), d))"

text \<open>
  The machines are asked about in parallel and share the caches; \<open>order\<close> is the order in which they are
  finished, as their indices. The first error is kept, the results stand at the places of their machines.
  Here the requests of one machine are one block, and a request is answered the same whenever it is made;
  Inv_Azure_Steps has the goroutines step by step, and shows that their runs end as these do.
\<close>

record entries_state =
  es_error :: "go_error option"
  es_results :: "inv_server option list"
  es_caches :: azure_caches

definition finish_entry ::
    "azure_api \<Rightarrow> azure_client \<Rightarrow> (string \<times> string) list \<Rightarrow> entry_options \<Rightarrow> azure_vm list \<Rightarrow> nat \<Rightarrow> entries_state \<Rightarrow> entries_state" where
  "finish_entry api client states opts vms i s =
     (case build_inventory_entry api client states opts (vms ! i) (es_caches s) of
        (Inl e, d) \<Rightarrow> s\<lparr>es_error := (case es_error s of None \<Rightarrow> Some e | Some f \<Rightarrow> Some f), es_caches := d\<rparr>
      | (Inr (server, warn), d) \<Rightarrow> s\<lparr>es_results := (es_results s)[i := server], es_caches := d\<rparr>)"

definition build_inventory_entries ::
    "azure_api \<Rightarrow> azure_client \<Rightarrow> (string \<times> string) list \<Rightarrow> entry_options \<Rightarrow> azure_vm list \<Rightarrow> nat list \<Rightarrow> azure_caches
      \<Rightarrow> inv_server option list result" where
  "build_inventory_entries api client states opts vms order c =
     (let s = fold (finish_entry api client states opts vms) order
        \<lparr>es_error = None, es_results = replicate (length vms) None, es_caches = c\<rparr>
      in case es_error s of Some e \<Rightarrow> Inl e | None \<Rightarrow> Inr (es_results s))"

section \<open>The client\<close>

definition trim_slashes :: "string \<Rightarrow> string" where
  "trim_slashes s = rev (dropWhile (\<lambda>c. c = CHR ''/'') (rev s))"

definition azure_base_url :: "table \<Rightarrow> string" where
  "azure_base_url config =
     (let endpoint = trim_slashes (provider_string config ''endpoint'')
      in if endpoint = '''' then ''https://management.azure.com'' else endpoint)"

definition azure_token_scope :: "table \<Rightarrow> string" where
  "azure_token_scope config = azure_base_url config @ ''/.default''"

text \<open>What a client logs in with: the tokens a secret and the surroundings give for a scope, requests with a
  token, and the decoder of subscriptions and their states.\<close>

record azure_login =
  al_env :: source_env
  al_secret_token :: "string \<Rightarrow> string \<Rightarrow> string \<Rightarrow> string \<Rightarrow> string result"
  al_default_token :: "string \<Rightarrow> string result"
  al_http :: "string \<Rightarrow> string \<Rightarrow> (int \<times> string \<times> string) result"
  al_decode :: "string \<Rightarrow> ((string \<times> string) list) result"

definition azure_secret_token :: "azure_login \<Rightarrow> string \<Rightarrow> string \<Rightarrow> string \<Rightarrow> string \<Rightarrow> string result" where
  "azure_secret_token login tenant client_id secret scope =
     (if tenant = '''' \<or> client_id = '''' \<or> secret = ''''
      then errorf ''tenant_id, client_id, and client_secret must all be set together''
      else (case al_secret_token login tenant client_id secret scope of Inl e \<Rightarrow> Inl e
            | Inr token \<Rightarrow> if token = '''' then errorf ''azure sdk client secret credential did not return an access token'' else Inr token))"

definition azure_default_token :: "azure_login \<Rightarrow> string \<Rightarrow> string result" where
  "azure_default_token login scope =
     (case al_default_token login scope of
        Inl e \<Rightarrow> Inl (Go_Error (err_not_exist e) (''default azure credential token acquisition failed: '' @ err_message e))
      | Inr token \<Rightarrow> if token = '''' then errorf ''default azure credential did not return an access token'' else Inr token)"

definition azure_access_token :: "azure_login \<Rightarrow> table \<Rightarrow> string result" where
  "azure_access_token login config =
     (let resolve = resolve_config_value (al_env login) config; scope = azure_token_scope config
      in case resolve ''access_token'' of Inl e \<Rightarrow> Inl e
         | Inr token \<Rightarrow>
             if token \<noteq> '''' then Inr token
             else (case resolve ''tenant_id'' of Inl e \<Rightarrow> Inl e | Inr tenant \<Rightarrow>
                   (case resolve ''client_id'' of Inl e \<Rightarrow> Inl e | Inr client_id \<Rightarrow>
                   (case resolve ''client_secret'' of Inl e \<Rightarrow> Inl e | Inr secret \<Rightarrow>
                     if tenant \<noteq> '''' \<or> client_id \<noteq> '''' \<or> secret \<noteq> ''''
                     then azure_secret_token login tenant client_id secret scope else azure_default_token login scope))))"

definition select_subscription :: "(string \<times> string) list \<Rightarrow> string result" where
  "select_subscription subscriptions =
     (case filter (\<lambda>(sub, state). trim_space sub \<noteq> '''' \<and> (state = '''' \<or> to_lower state = ''enabled'')) subscriptions of
        [] \<Rightarrow> errorf ''subscription_id is required: Azure did not return any enabled subscriptions''
      | [(sub, state)] \<Rightarrow> Inr sub
      | _ \<Rightarrow> errorf ''subscription_id is required: multiple enabled subscriptions are available; set subscription_id, subscription_id_env, subscription_id_source, or AZURE_SUBSCRIPTION_ID'')"

definition discover_subscription :: "azure_login \<Rightarrow> string \<Rightarrow> string \<Rightarrow> string result" where
  "discover_subscription login base_url token =
     (case al_http login token (trim_slashes base_url @ ''/subscriptions?api-version=2022-12-01'') of Inl e \<Rightarrow> Inl e
      | Inr (code, status, body) \<Rightarrow>
          if code < 200 \<or> 300 \<le> code then errorf (''azure subscription discovery failed: status='' @ status @ '' body='' @ body)
          else (case al_decode login body of Inl e \<Rightarrow> Inl e | Inr subscriptions \<Rightarrow> select_subscription subscriptions))"

definition azure_subscription :: "azure_login \<Rightarrow> table \<Rightarrow> string \<Rightarrow> string \<Rightarrow> string result" where
  "azure_subscription login config base_url token =
     (case resolve_config_value (al_env login) config ''subscription_id'' of Inl e \<Rightarrow> Inl e
      | Inr own \<Rightarrow>
          (let set_there = trim_space (se_getenv (al_env login) ''AZURE_SUBSCRIPTION_ID'')
           in if own \<noteq> '''' then Inr own else if set_there \<noteq> '''' then Inr set_there
              else if token = '''' then errorf ''subscription_id is required''
              else discover_subscription login base_url token))"

definition new_azure_client :: "azure_login \<Rightarrow> table \<Rightarrow> azure_client result" where
  "new_azure_client login config =
     (case azure_access_token login config of Inl e \<Rightarrow> Inl e
      | Inr token \<Rightarrow>
          (case azure_subscription login config (azure_base_url config) token of Inl e \<Rightarrow> Inl e
           | Inr sub \<Rightarrow> Inr \<lparr>ac_base_url = azure_base_url config, ac_token = token, ac_subscription = sub\<rparr>))"

text \<open>\<open>listAzure\<close>: the requests of a client with its token are \<open>api\<close> of the client; \<open>None\<close> never returns.\<close>

definition entry_options_of :: "table \<Rightarrow> entry_options" where
  "entry_options_of config =
     (let t = provider_string config ''server_name_template''
      in \<lparr>eo_statuses = azure_statuses config, eo_name_template = (if t = '''' then ''azure:${name}'' else t),
          eo_note_template = provider_string config ''note_template'', eo_strategy = addr_strategy config,
          eo_include_tags = provider_string_slice config ''include_tags''\<rparr>)"

definition no_caches :: azure_caches where
  "no_caches = \<lparr>nic_cache = [], address_cache = []\<rparr>"

definition list_with_client ::
    "azure_api \<Rightarrow> azure_client \<Rightarrow> (azure_vm list \<Rightarrow> nat list) \<Rightarrow> table \<Rightarrow> inv_server list result option" where
  "list_with_client api client order config =
     (case list_vms api client config False of
        None \<Rightarrow> None
      | Some (Inl e) \<Rightarrow> Some (Inl e)
      | Some (Inr vms) \<Rightarrow>
          (case list_power_states api client config of
             None \<Rightarrow> None
           | Some (Inl e) \<Rightarrow> Some (Inl e)
           | Some (Inr states) \<Rightarrow>
               Some (map_sum id (\<lambda>entries. map the (filter (\<lambda>e. e \<noteq> None) entries))
                 (build_inventory_entries api client states (entry_options_of config) vms (order vms) no_caches))))"

definition list_azure ::
    "azure_login \<Rightarrow> (azure_client \<Rightarrow> azure_api) \<Rightarrow> (azure_vm list \<Rightarrow> nat list) \<Rightarrow> table \<Rightarrow> inv_server list result option" where
  "list_azure login api order config =
     (case new_azure_client login config of Inl e \<Rightarrow> Some (Inl e)
      | Inr client \<Rightarrow> list_with_client (api client) client order config)"

definition azure_health_check :: "azure_login \<Rightarrow> (azure_client \<Rightarrow> azure_api) \<Rightarrow> table \<Rightarrow> string result option" where
  "azure_health_check login api config =
     (case new_azure_client login config of Inl e \<Rightarrow> Some (Inl e)
      | Inr client \<Rightarrow>
          map_option (map_sum id (\<lambda>vms. ''azure inventory provider can access Compute and Network resources''))
            (list_vms (api client) client config True))"

section \<open>Memories\<close>

text \<open>
  A memory of the answers of requests: as long as it is sound it answers what the request would, and it
  stays sound.
\<close>

locale remembered =
  fixes fetch :: "'k \<Rightarrow> 'v result"
    and get :: "'k \<Rightarrow> 'c \<Rightarrow> 'v result \<times> 'c"
    and sound :: "'c \<Rightarrow> bool"
  assumes get_answer: "sound c \<Longrightarrow> fst (get k c) = fetch k"
    and get_sound: "sound c \<Longrightarrow> sound (snd (get k c))"
begin

lemma get_cases: "sound c \<Longrightarrow> get k c = (a, d) \<Longrightarrow> a = fetch k \<and> sound d"
  using get_answer[of c k] get_sound[of c k] by simp

lemma sound_after: "sound c \<Longrightarrow> sound (fold (\<lambda>k c. snd (get k c)) ks c)"
  by (induction ks arbitrary: c) (simp_all add: get_sound)

text \<open>An answer does not depend on what was asked before.\<close>

lemma answer_after: "sound c \<Longrightarrow> fst (get k (fold (\<lambda>k c. snd (get k c)) ks c)) = fetch k"
  by (simp add: get_answer sound_after)

end

definition fetch_nic :: "azure_api \<Rightarrow> azure_client \<Rightarrow> string \<Rightarrow> ip_configs result" where
  "fetch_nic api client resource = get_json api (aa_decode_nic api) (resource_url client resource ''2024-07-01'')"

definition fetch_address :: "azure_api \<Rightarrow> azure_client \<Rightarrow> string \<Rightarrow> string result" where
  "fetch_address api client resource = get_json api (aa_decode_address api) (resource_url client resource ''2024-07-01'')"

definition sound_caches :: "azure_api \<Rightarrow> azure_client \<Rightarrow> azure_caches \<Rightarrow> bool" where
  "sound_caches api client c \<longleftrightarrow> (\<forall>k n. map_of (nic_cache c) k = Some n \<longrightarrow> fetch_nic api client k = Inr n)
     \<and> (\<forall>k a. map_of (address_cache c) k = Some a \<longrightarrow> fetch_address api client k = Inr a)"

interpretation nics: remembered "fetch_nic api client" "get_nic api client" "sound_caches api client" for api client
  by unfold_locales
    (auto simp: get_nic_def sound_caches_def fetch_nic_def update_conv' split: option.splits sum.splits if_splits)

interpretation public_ips: remembered "fetch_address api client" "get_public_ip api client" "sound_caches api client" for api client
  by unfold_locales
    (auto simp: get_public_ip_def sound_caches_def fetch_address_def update_conv' split: option.splits sum.splits if_splits)

section \<open>Entries without caches\<close>

fun plain_ips :: "azure_api \<Rightarrow> azure_client \<Rightarrow> ip_configs \<Rightarrow> addresses option" where
  "plain_ips api client [] = None"
| "plain_ips api client ((private_ip, public_id) # rest) =
     (case (if public_id = '''' then Inr '''' else fetch_address api client public_id) of
        Inl e \<Rightarrow> Some (private_ip, '''', Some e)
      | Inr public_ip \<Rightarrow>
          if private_ip \<noteq> '''' \<or> public_ip \<noteq> '''' then Some (private_ip, public_ip, None) else plain_ips api client rest)"

fun plain_nics :: "azure_api \<Rightarrow> azure_client \<Rightarrow> string list \<Rightarrow> addresses" where
  "plain_nics api client [] = ('''', '''', None)"
| "plain_nics api client (nic # nics) =
     (if nic = '''' then plain_nics api client nics
      else (case fetch_nic api client nic of
              Inl e \<Rightarrow> ('''', '''', Some e)
            | Inr configs \<Rightarrow> (case plain_ips api client configs of Some a \<Rightarrow> a | None \<Rightarrow> plain_nics api client nics)))"

lemma ip_loop_plain:
  "sound_caches api client c \<Longrightarrow>
     fst (ip_loop api client configs c) = plain_ips api client configs \<and> sound_caches api client (snd (ip_loop api client configs c))"
proof (induction configs arbitrary: c)
  case (Cons config rest)
  obtain private_ip public_id where config: "config = (private_ip, public_id)"
    by fastforce
  show ?case
  proof (cases "public_id = ''''")
    case False
    obtain a d where ad: "get_public_ip api client public_id c = (a, d)"
      by fastforce
    note found = public_ips.get_cases[OF Cons.prems ad]
    show ?thesis
    proof (cases a)
      case (Inr v)
      with found False ad Cons.IH[of d] show ?thesis
        by (auto simp: config split: sum.splits)
    qed (use found False ad in \<open>auto simp: config split: sum.splits\<close>)
  qed (use Cons in \<open>simp add: config\<close>)
qed simp

lemma nic_loop_plain:
  "sound_caches api client c \<Longrightarrow>
     fst (nic_loop api client nics c) = plain_nics api client nics \<and> sound_caches api client (snd (nic_loop api client nics c))"
proof (induction nics arbitrary: c)
  case (Cons nic nics)
  show ?case
  proof (cases "nic = ''''")
    case False
    obtain a d where ad: "get_nic api client nic c = (a, d)"
      by fastforce
    note found = nics.get_cases[OF Cons.prems ad]
    show ?thesis
    proof (cases a)
      case (Inr configs)
      obtain o' d' where loop: "ip_loop api client configs d = (o', d')"
        by fastforce
      with ip_loop_plain[of api client d configs] found have "o' = plain_ips api client configs" "sound_caches api client d'"
        by auto
      with Inr False ad found loop Cons.IH[of d'] show ?thesis
        by (auto split: sum.splits option.splits)
    qed (use found False ad in \<open>auto split: sum.splits\<close>)
  qed (use Cons in simp)
qed simp

text \<open>What becomes of one machine when nothing is remembered.\<close>

definition plain_entry ::
    "azure_api \<Rightarrow> azure_client \<Rightarrow> (string \<times> string) list \<Rightarrow> entry_options \<Rightarrow> azure_vm \<Rightarrow> inv_server option result" where
  "plain_entry api client states opts vm =
     (case plain_nics api client (av_nics vm) of (private_ip, public_ip, e) \<Rightarrow>
       map_sum id (\<lambda>state. if azure_matches (eo_statuses opts) state then Some (azure_server client opts vm state private_ip public_ip) else None)
         (entry_power_state api client vm (lookup_text states (to_lower (av_id vm)))))"

lemma build_entry_plain:
  assumes "sound_caches api client c"
  shows "map_sum id fst (fst (build_inventory_entry api client states opts vm c)) = plain_entry api client states opts vm
    \<and> sound_caches api client (snd (build_inventory_entry api client states opts vm c))"
proof -
  obtain a b e d where ips: "vm_ips api client vm c = ((a, b, e), d)"
    by (metis prod.exhaust)
  with nic_loop_plain[OF assms, of "av_nics vm"] have "plain_nics api client (av_nics vm) = (a, b, e)" "sound_caches api client d"
    by (simp_all add: vm_ips_def)
  with ips show ?thesis
    by (auto simp: build_inventory_entry_def plain_entry_def split: sum.split)
qed

text \<open>The state after some machines are finished.\<close>

definition entries_so_far ::
    "azure_api \<Rightarrow> azure_client \<Rightarrow> (string \<times> string) list \<Rightarrow> entry_options \<Rightarrow> azure_vm list \<Rightarrow> nat set \<Rightarrow> entries_state \<Rightarrow> bool" where
  "entries_so_far api client states opts vms fin s \<longleftrightarrow> sound_caches api client (es_caches s) \<and> length (es_results s) = length vms
     \<and> (case es_error s of
          Some e \<Rightarrow> \<exists>i \<in> fin. plain_entry api client states opts (vms ! i) = Inl e
        | None \<Rightarrow> \<forall>i \<in> fin. plain_entry api client states opts (vms ! i) = Inr (es_results s ! i))"

lemma finish_entry_so_far:
  assumes "entries_so_far api client states opts vms fin s" "i < length vms" "i \<notin> fin"
  shows "entries_so_far api client states opts vms (insert i fin) (finish_entry api client states opts vms i s)"
proof -
  obtain r d where b: "build_inventory_entry api client states opts (vms ! i) (es_caches s) = (r, d)"
    by fastforce
  with build_entry_plain[of api client "es_caches s" states opts "vms ! i"] assms(1)
  have r: "map_sum id fst r = plain_entry api client states opts (vms ! i)" and d: "sound_caches api client d"
    by (auto simp: entries_so_far_def)
  show ?thesis
  proof (cases r)
    case (Inl e)
    with r have "plain_entry api client states opts (vms ! i) = Inl e"
      by simp
    with assms d b Inl show ?thesis
      by (auto simp: entries_so_far_def finish_entry_def split: option.splits)
  next
    case (Inr q)
    then obtain server warn where "q = (server, warn)"
      by fastforce
    moreover from this r Inr have "plain_entry api client states opts (vms ! i) = Inr server"
      by simp
    ultimately show ?thesis
      using assms d b Inr by (auto simp: entries_so_far_def finish_entry_def nth_list_update split: option.splits)
  qed
qed

lemma finish_entries_so_far:
  assumes "entries_so_far api client states opts vms fin s" "distinct order" "set order \<inter> fin = {}" "set order \<subseteq> {..<length vms}"
  shows "entries_so_far api client states opts vms (set order \<union> fin) (fold (finish_entry api client states opts vms) order s)"
  using assms
proof (induction order arbitrary: fin s)
  case (Cons i order)
  from Cons.IH[OF finish_entry_so_far[OF Cons.prems(1), of i]] Cons.prems(2-4) show ?case
    by auto
qed simp

text \<open>
  C17. However the parallel requests of the machines are ordered, and whatever sound content the caches have,
  the inventory is what each machine gives on its own; when it fails, it fails with the error of one of them.
  The order is that of the machines, the requests of one of them a block: that requests of different machines in
  between each other end in the same way is \<open>azure_run_refines_blocks\<close> of Inv_Azure_Steps. The answers of
  requests do not change in between.
\<close>

theorem azure_inventory_order_irrelevant:
  assumes "sound_caches api client c" "distinct order" "set order = {..<length vms}"
  shows "case build_inventory_entries api client states opts vms order c of
      Inl e \<Rightarrow> \<exists>vm \<in> set vms. plain_entry api client states opts vm = Inl e
    | Inr servers \<Rightarrow> map (plain_entry api client states opts) vms = map Inr servers"
proof -
  define s where "s = fold (finish_entry api client states opts vms) order
      \<lparr>es_error = None, es_results = replicate (length vms) None, es_caches = c\<rparr>"
  have start: "entries_so_far api client states opts vms {} \<lparr>es_error = None, es_results = replicate (length vms) None, es_caches = c\<rparr>"
    using assms(1) by (simp add: entries_so_far_def)
  have end': "entries_so_far api client states opts vms {..<length vms} s"
    using finish_entries_so_far[OF start assms(2)] assms(3) by (simp add: s_def)
  show ?thesis
  proof (cases "es_error s")
    case None
    then have "map (plain_entry api client states opts) vms = map Inr (es_results s)"
      using end' by (auto simp: entries_so_far_def intro: nth_equalityI)
    with None show ?thesis
      by (simp add: build_inventory_entries_def Let_def s_def[symmetric])
  next
    case (Some e)
    then show ?thesis
      using end' by (auto simp: build_inventory_entries_def Let_def s_def[symmetric] entries_so_far_def intro: bexI[OF _ nth_mem])
  qed
qed

text \<open>Two machines that share an interface; only the first request for it is made.\<close>

definition example_api :: azure_api where
  "example_api = \<lparr>aa_http = (\<lambda>url. Inr (200, ''200 OK'', url)), aa_decode_vms = (\<lambda>body. Inr ([], '''')),
     aa_decode_nic = (\<lambda>body. Inr [(''10.0.0.4'', ''/ip'')]), aa_decode_address = (\<lambda>body. Inr ''203.0.113.9''),
     aa_decode_statuses = (\<lambda>body. Inr [''PowerState/running''])\<rparr>"

definition example_client :: azure_client where
  "example_client = \<lparr>ac_base_url = ''b'', ac_token = ''t'', ac_subscription = ''s''\<rparr>"

definition example_vm :: "string \<Rightarrow> azure_vm" where
  "example_vm name = \<lparr>av_id = '''', av_name = name, av_location = '''', av_tags = [], av_provisioning = '''', av_os_type = ''Linux'',
     av_nics = [''/nic''], av_statuses = [''PowerState/running'']\<rparr>"

lemma azure_inventory_order_irrelevant_witness:
  "case build_inventory_entries example_api example_client [] (entry_options_of []) [example_vm ''a'', example_vm ''b''] [1, 0] no_caches of
     Inl e \<Rightarrow> False
   | Inr servers \<Rightarrow> map Inr servers
       = map (plain_entry example_api example_client [] (entry_options_of [])) [example_vm ''a'', example_vm ''b'']"
proof -
  have "sound_caches example_api example_client no_caches"
    by (simp add: sound_caches_def no_caches_def)
  from azure_inventory_order_irrelevant[OF this, of "[1, 0]" "[example_vm ''a'', example_vm ''b'']" "[]" "entry_options_of []"]
  have all: "case build_inventory_entries example_api example_client [] (entry_options_of []) [example_vm ''a'', example_vm ''b''] [1, 0] no_caches of
      Inl e \<Rightarrow> \<exists>vm \<in> set [example_vm ''a'', example_vm ''b'']. plain_entry example_api example_client [] (entry_options_of []) vm = Inl e
    | Inr servers \<Rightarrow> map (plain_entry example_api example_client [] (entry_options_of [])) [example_vm ''a'', example_vm ''b''] = map Inr servers"
    by (simp add: lessThan_Suc numeral_2_eq_2 insert_commute)
  have "case build_inventory_entries example_api example_client [] (entry_options_of []) [example_vm ''a'', example_vm ''b''] [1, 0] no_caches of
      Inl e \<Rightarrow> False | Inr servers \<Rightarrow> True"
    by code_simp
  with all show ?thesis
    by (auto split: sum.splits)
qed

section \<open>Pages\<close>

text \<open>The pages of an answer: each one names the next, and the last names none.\<close>

fun page_chain :: "azure_api \<Rightarrow> string \<Rightarrow> (azure_vm list \<times> string) list \<Rightarrow> bool" where
  "page_chain api url [] \<longleftrightarrow> url = ''''"
| "page_chain api url (page # pages) \<longleftrightarrow>
     url \<noteq> '''' \<and> get_json api (aa_decode_vms api) url = Inr page \<and> page_chain api (snd page) pages"

lemma chain_listed: "page_chain api url pages \<Longrightarrow> list_pages api url out = Some (Inr (out @ concat (map fst pages)))"
proof (induction pages arbitrary: url out)
  case (Cons page pages)
  then show ?case
    by (subst list_pages.simps) (auto simp: case_prod_beta)
qed (simp add: list_pages.simps)

lemma listed_chain:
  assumes "list_pages api url out = Some r"
  shows "\<forall>vms. r = Inr vms \<longrightarrow> (\<exists>pages. page_chain api url pages \<and> vms = out @ concat (map fst pages))"
proof (rule list_pages.raw_induct[OF _ assms, where P = "\<lambda>api url out r.
    \<forall>vms. r = Inr vms \<longrightarrow> (\<exists>pages. page_chain api url pages \<and> vms = out @ concat (map fst pages))"], intro allI impI)
  fix loop api url out r vms
  assume step: "\<And>api url out r. loop api url out = Some r \<Longrightarrow>
      \<forall>vms. r = Inr vms \<longrightarrow> (\<exists>pages. page_chain api url pages \<and> vms = out @ concat (map fst pages))"
    and body: "(if url = '''' then Some (Inr out)
      else (case get_json api (aa_decode_vms api) url of Inl e \<Rightarrow> Some (Inl e)
            | Inr (vms, next_link) \<Rightarrow> loop api next_link (out @ vms))) = Some r" and r: "r = Inr vms"
  show "\<exists>pages. page_chain api url pages \<and> vms = out @ concat (map fst pages)"
  proof (cases "url = ''''")
    case False
    with body r obtain page where page: "get_json api (aa_decode_vms api) url = Inr page" "loop api (snd page) (out @ fst page) = Some (Inr vms)"
      by (auto split: sum.splits)
    from step[OF page(2)] obtain pages where "page_chain api (snd page) pages" "vms = (out @ fst page) @ concat (map fst pages)"
      by blast
    with False page(1) show ?thesis
      by (intro exI[of _ "page # pages"]) simp
  qed (use body r in \<open>auto intro: exI[of _ "[]"]\<close>)
qed

text \<open>
  The list of machines is complete exactly when the pages form a chain with an end, and then it has the
  machines of every page in order.
\<close>

theorem list_pages_spec:
  "list_pages api url out = Some (Inr vms) \<longleftrightarrow> (\<exists>pages. page_chain api url pages \<and> vms = out @ concat (map fst pages))"
  using chain_listed listed_chain by blast

definition circle :: "azure_api \<Rightarrow> string set \<Rightarrow> bool" where
  "circle api U \<longleftrightarrow> (\<forall>u \<in> U. u \<noteq> '''' \<and> (\<exists>vms n. get_json api (aa_decode_vms api) u = Inr (vms, n) \<and> n \<in> U))"

lemma circle_not_listed:
  assumes "list_pages api url out = Some r"
  shows "circle api U \<longrightarrow> url \<notin> U"
proof (rule list_pages.raw_induct[OF _ assms, where P = "\<lambda>api url out r. circle api U \<longrightarrow> url \<notin> U"], intro impI notI)
  fix loop api url out r
  assume step: "\<And>api url out r. loop api url out = Some r \<Longrightarrow> circle api U \<longrightarrow> url \<notin> U"
    and body: "(if url = '''' then Some (Inr out)
      else (case get_json api (aa_decode_vms api) url of Inl e \<Rightarrow> Some (Inl e)
            | Inr (vms, next_link) \<Rightarrow> loop api next_link (out @ vms))) = Some r"
    and "circle api U" "url \<in> U"
  then obtain vms n where "url \<noteq> ''''" "get_json api (aa_decode_vms api) url = Inr (vms, n)" "n \<in> U"
    unfolding circle_def by blast
  with body step[of api n "out @ vms" r] \<open>circle api U\<close> show False
    by simp
qed

text \<open>Links that lead in a circle are followed for ever: no page limit and no memory of the links stops the loop.\<close>

lemma list_pages_endless:
  assumes "circle api U" "url \<in> U"
  shows "list_pages api url out = None"
  using circle_not_listed[of api url out _ U] assms by (cases "list_pages api url out") auto

section \<open>Power states and targets\<close>

lemma to_lower_idem: "to_lower (to_lower s) = to_lower s"
proof -
  have "lower_char (lower_char c) = lower_char c" for c
    by (cases "65 \<le> (of_char c :: nat) \<and> (of_char c :: nat) \<le> 90") (auto simp: lower_char_def of_char_mod_256)
  then show ?thesis
    by (simp add: to_lower_def)
qed

text \<open>
  The search for the power state ignores the case, the removal of its prefix does not: a state whose prefix
  is written otherwise keeps it and is never the state running.
\<close>

lemma power_state_spec:
  assumes "has_prefix (to_lower code) ''powerstate/''"
  shows "azure_power_state (code # codes) =
    (if has_prefix code ''PowerState/'' then to_lower (drop 11 code) else to_lower code)"
  using assms by (simp add: trim_prefix_def numeral_eq_Suc)

lemma misspelt_state_not_running:
  assumes "has_prefix (to_lower code) ''powerstate/''" "\<not> has_prefix code ''PowerState/''"
  shows "\<not> azure_matches [''running''] (azure_power_state (code # codes))"
proof -
  have "to_lower code \<noteq> ''running''"
    using assms(1) by auto
  then show ?thesis
    using assms by (simp add: azure_matches_def power_state_spec to_lower_idem del: azure_power_state.simps)
qed

lemma resource_group_of_id:
  assumes "CHR ''/'' \<notin> set sub" "CHR ''/'' \<notin> set g" "to_lower sub \<noteq> ''resourcegroups''"
  shows "azure_resource_group (''/subscriptions/'' @ sub @ ''/resourceGroups/'' @ g @ ''/'' @ rest) = g"
proof -
  have "split_on CHR ''/'' (''/subscriptions/'' @ sub @ ''/resourceGroups/'' @ g @ ''/'' @ rest)
      = ['''', ''subscriptions'', sub, ''resourceGroups'', g] @ split_on CHR ''/'' rest"
    using split_on_append[of "CHR ''/''" sub "''resourceGroups/'' @ g @ ''/'' @ rest"]
      split_on_append[of "CHR ''/''" g rest] assms(1,2) by simp
  moreover have "to_lower '''' \<noteq> ''resourcegroups''" "to_lower ''subscriptions'' \<noteq> ''resourcegroups''"
      "to_lower ''resourceGroups'' = ''resourcegroups''"
    by code_simp+
  ultimately show ?thesis
    using assms(3) by (simp add: azure_resource_group_def)
qed

lemma azure_listed_meta:
  "map_of (is_meta (azure_server client opts vm state a b)) ''id'' = Some (av_id vm)"
  "map_of (is_meta (azure_server client opts vm state a b)) ''resource_group'' = Some (azure_resource_group (av_id vm))"
  "map_of (is_meta (azure_server client opts vm state a b)) ''subscription_id'' = Some (ac_subscription client)"
  by (simp_all add: azure_server_def Let_def put_all_other)

text \<open>A listed machine is reached through the bastion as itself, in the subscription it was listed from.\<close>

theorem azure_listed_vm_is_target:
  assumes "ct_meta target = is_meta (azure_server client opts vm state a b)" "trim_space (av_id vm) \<noteq> ''''"
    and "trim_space (ac_subscription client) \<noteq> ''''" "azure_connector_config home config target = Inr cfg"
  shows "ba_target cfg = av_id vm \<and> ba_subscription cfg = ac_subscription client"
proof -
  have "cfg = bastion_settings home config target"
    using assms(4) by (simp add: azure_connector_config_def Let_def errorf_def split: if_splits)
  then show ?thesis
    using assms(2,3) by (simp add: bastion_settings_def lookup_text_def assms(1) azure_listed_meta Let_def)
qed

text \<open>Credentials are complete or none: what is set of the three is used only together.\<close>

lemma access_token_from_secret:
  assumes "azure_access_token login config = Inr token"
    and "resolve_config_value (al_env login) config ''access_token'' = Inr ''''"
    and "resolve_config_value (al_env login) config key = Inr v" "v \<noteq> ''''" "key \<in> {''tenant_id'', ''client_id'', ''client_secret''}"
  shows "\<exists>t c s. resolve_config_value (al_env login) config ''tenant_id'' = Inr t \<and> t \<noteq> ''''
    \<and> resolve_config_value (al_env login) config ''client_id'' = Inr c \<and> c \<noteq> ''''
    \<and> resolve_config_value (al_env login) config ''client_secret'' = Inr s \<and> s \<noteq> ''''
    \<and> al_secret_token login t c s (azure_token_scope config) = Inr token \<and> token \<noteq> ''''"
  using assms by (auto simp: azure_access_token_def azure_secret_token_def errorf_def Let_def split: sum.splits if_splits)

end
