(* ===== verification/Inv_Azure_Steps.thy ===== *)
theory Inv_Azure_Steps
  imports Inv_Azure
begin

text \<open>
  The goroutines of \<open>buildInventoryEntries\<close> in \<^verbatim>\<open>provider-mixed-azure-compute/main.go\<close>, one access
  to the shared caches or one request at a time. Inv_Azure takes the requests of a machine as one
  block; here they interleave with those of the other machines: a machine waits for one of eight places, then its power
  state and its addresses are looked for side by side, a cache is read, a request made and its answer kept
  in three steps, and other machines may come in between. Every such run ends as a run in blocks does, and
  every run ends. A request is answered the same whenever it is made.
\<close>

section \<open>Steps\<close>

text \<open>The search of \<open>vmIPs\<close> between two steps: what it does next, with what is left to look at.\<close>

datatype net_search =
    Next_Nic "string list"
  | Ask_Nic string "string list"
  | Keep_Nic string ip_configs "string list"
  | Next_Ip ip_configs "string list"
  | Ask_Ip string string ip_configs "string list"
  | Keep_Ip string string string ip_configs "string list"
  | Searched addresses

definition with_address :: "string \<Rightarrow> string \<Rightarrow> ip_configs \<Rightarrow> string list \<Rightarrow> net_search" where
  "with_address private_ip public_ip rest nics =
     (if private_ip \<noteq> '''' \<or> public_ip \<noteq> '''' then Searched (private_ip, public_ip, None) else Next_Ip rest nics)"

fun net_step :: "azure_api \<Rightarrow> azure_client \<Rightarrow> net_search \<Rightarrow> azure_caches \<Rightarrow> net_search \<times> azure_caches" where
  "net_step api client (Next_Nic []) c = (Searched ('''', '''', None), c)"
| "net_step api client (Next_Nic (nic # nics)) c =
     (if nic = '''' then Next_Nic nics
      else (case map_of (nic_cache c) nic of Some configs \<Rightarrow> Next_Ip configs nics | None \<Rightarrow> Ask_Nic nic nics), c)"
| "net_step api client (Ask_Nic nic nics) c =
     (case get_json api (aa_decode_nic api) (resource_url client nic ''2024-07-01'') of
        Inl e \<Rightarrow> Searched ('''', '''', Some e) | Inr configs \<Rightarrow> Keep_Nic nic configs nics, c)"
| "net_step api client (Keep_Nic nic configs nics) c =
     (Next_Ip configs nics, c\<lparr>nic_cache := AList.update nic configs (nic_cache c)\<rparr>)"
| "net_step api client (Next_Ip [] nics) c = (Next_Nic nics, c)"
| "net_step api client (Next_Ip ((private_ip, public_id) # rest) nics) c =
     (if public_id = '''' then with_address private_ip '''' rest nics
      else (case map_of (address_cache c) public_id of
              Some public_ip \<Rightarrow> with_address private_ip public_ip rest nics
            | None \<Rightarrow> Ask_Ip private_ip public_id rest nics), c)"
| "net_step api client (Ask_Ip private_ip public_id rest nics) c =
     (case get_json api (aa_decode_address api) (resource_url client public_id ''2024-07-01'') of
        Inl e \<Rightarrow> Searched (private_ip, '''', Some e) | Inr public_ip \<Rightarrow> Keep_Ip private_ip public_id public_ip rest nics, c)"
| "net_step api client (Keep_Ip private_ip public_id public_ip rest nics) c =
     (with_address private_ip public_ip rest nics,
      c\<lparr>address_cache := AList.update public_id public_ip (address_cache c)\<rparr>)"
| "net_step api client (Searched a) c = (Searched a, c)"

text \<open>The goroutine of a machine: the power state, once it is known, and the search for its addresses.\<close>

datatype machine_task = Task_Waiting | Task_Running "string result option" net_search | Task_Over

definition running_task :: "machine_task \<Rightarrow> bool" where
  "running_task t = (case t of Task_Running p n \<Rightarrow> True | _ \<Rightarrow> False)"

record azure_run =
  ar_tasks :: "machine_task list"
  ar_state :: entries_state

definition start_run :: "azure_vm list \<Rightarrow> azure_caches \<Rightarrow> azure_run" where
  "start_run vms c = \<lparr>ar_tasks = replicate (length vms) Task_Waiting,
     ar_state = \<lparr>es_error = None, es_results = replicate (length vms) None, es_caches = c\<rparr>\<rparr>"

definition known_power_state :: "azure_api \<Rightarrow> azure_client \<Rightarrow> (string \<times> string) list \<Rightarrow> azure_vm \<Rightarrow> string result" where
  "known_power_state api client states vm = entry_power_state api client vm (lookup_text states (to_lower (av_id vm)))"

definition set_task :: "nat \<Rightarrow> machine_task \<Rightarrow> azure_run \<Rightarrow> azure_run" where
  "set_task i t r = r\<lparr>ar_tasks := (ar_tasks r)[i := t]\<rparr>"

definition entry_of_search :: "azure_client \<Rightarrow> entry_options \<Rightarrow> azure_vm \<Rightarrow> string \<Rightarrow> addresses \<Rightarrow> inv_server option" where
  "entry_of_search client opts vm state a =
     (case a of (private_ip, public_ip, err) \<Rightarrow>
        if azure_matches (eo_statuses opts) state then Some (azure_server client opts vm state private_ip public_ip) else None)"

inductive azure_step ::
    "azure_api \<Rightarrow> azure_client \<Rightarrow> (string \<times> string) list \<Rightarrow> entry_options \<Rightarrow> azure_vm list \<Rightarrow> azure_run \<Rightarrow> azure_run \<Rightarrow> bool"
  for api client states opts vms
where
  begin_task: "i < length (ar_tasks r) \<Longrightarrow> ar_tasks r ! i = Task_Waiting \<Longrightarrow>
     length (filter running_task (ar_tasks r)) < 8 \<Longrightarrow>
     azure_step api client states opts vms r (set_task i (Task_Running None (Next_Nic (av_nics (vms ! i)))) r)"
| power_task: "i < length (ar_tasks r) \<Longrightarrow> ar_tasks r ! i = Task_Running None n \<Longrightarrow>
     azure_step api client states opts vms r
       (set_task i (Task_Running (Some (known_power_state api client states (vms ! i))) n) r)"
| net_task: "i < length (ar_tasks r) \<Longrightarrow> ar_tasks r ! i = Task_Running p n \<Longrightarrow> \<forall>a. n \<noteq> Searched a \<Longrightarrow>
     net_step api client n (es_caches (ar_state r)) = (n', c) \<Longrightarrow>
     azure_step api client states opts vms r
       ((set_task i (Task_Running p n') r)\<lparr>ar_state := (ar_state r)\<lparr>es_caches := c\<rparr>\<rparr>)"
| fail_task: "i < length (ar_tasks r) \<Longrightarrow> ar_tasks r ! i = Task_Running (Some (Inl e)) (Searched a) \<Longrightarrow>
     azure_step api client states opts vms r
       ((set_task i Task_Over r)\<lparr>ar_state := (ar_state r)\<lparr>es_error :=
          (case es_error (ar_state r) of None \<Rightarrow> Some e | Some f \<Rightarrow> Some f)\<rparr>\<rparr>)"
| end_task: "i < length (ar_tasks r) \<Longrightarrow> ar_tasks r ! i = Task_Running (Some (Inr state)) (Searched a) \<Longrightarrow>
     azure_step api client states opts vms r
       ((set_task i Task_Over r)\<lparr>ar_state := (ar_state r)\<lparr>es_results :=
          (es_results (ar_state r))[i := entry_of_search client opts (vms ! i) state a]\<rparr>\<rparr>)"

definition run_over :: "azure_run \<Rightarrow> bool" where
  "run_over r = list_all (\<lambda>t. t = Task_Over) (ar_tasks r)"

definition run_result :: "azure_run \<Rightarrow> inv_server option list result" where
  "run_result r = (case es_error (ar_state r) of Some e \<Rightarrow> Inl e | None \<Rightarrow> Inr (es_results (ar_state r)))"

section \<open>What a search finds\<close>

definition after_ips :: "azure_api \<Rightarrow> azure_client \<Rightarrow> ip_configs \<Rightarrow> string list \<Rightarrow> addresses" where
  "after_ips api client configs nics =
     (case plain_ips api client configs of Some a \<Rightarrow> a | None \<Rightarrow> plain_nics api client nics)"

fun expected :: "azure_api \<Rightarrow> azure_client \<Rightarrow> net_search \<Rightarrow> addresses" where
  "expected api client (Next_Nic nics) = plain_nics api client nics"
| "expected api client (Ask_Nic nic nics) = plain_nics api client (nic # nics)"
| "expected api client (Keep_Nic nic configs nics) = after_ips api client configs nics"
| "expected api client (Next_Ip configs nics) = after_ips api client configs nics"
| "expected api client (Ask_Ip private_ip public_id rest nics) = after_ips api client ((private_ip, public_id) # rest) nics"
| "expected api client (Keep_Ip private_ip public_id public_ip rest nics) =
     (if private_ip \<noteq> '''' \<or> public_ip \<noteq> '''' then (private_ip, public_ip, None) else after_ips api client rest nics)"
| "expected api client (Searched a) = a"

fun search_ok :: "azure_api \<Rightarrow> azure_client \<Rightarrow> net_search \<Rightarrow> bool" where
  "search_ok api client (Ask_Nic nic nics) = (nic \<noteq> '''')"
| "search_ok api client (Keep_Nic nic configs nics) = (fetch_nic api client nic = Inr configs)"
| "search_ok api client (Ask_Ip private_ip public_id rest nics) = (public_id \<noteq> '''')"
| "search_ok api client (Keep_Ip private_ip public_id public_ip rest nics) = (fetch_address api client public_id = Inr public_ip)"
| "search_ok api client n = True"

lemma with_address_ok [simp]:
  "search_ok api client (with_address private_ip public_ip rest nics)"
  "expected api client (with_address private_ip public_ip rest nics) =
     (if private_ip \<noteq> '''' \<or> public_ip \<noteq> '''' then (private_ip, public_ip, None) else after_ips api client rest nics)"
  by (simp_all add: with_address_def)

lemma sound_keep:
  "sound_caches api client c \<Longrightarrow> fetch_nic api client k = Inr n \<Longrightarrow>
     sound_caches api client (c\<lparr>nic_cache := AList.update k n (nic_cache c)\<rparr>)"
  "sound_caches api client c \<Longrightarrow> fetch_address api client k = Inr a \<Longrightarrow>
     sound_caches api client (c\<lparr>address_cache := AList.update k a (address_cache c)\<rparr>)"
  by (simp_all add: sound_caches_def update_conv')

lemma sound_hit:
  "sound_caches api client c \<Longrightarrow> map_of (nic_cache c) k = Some n \<Longrightarrow> fetch_nic api client k = Inr n"
  "sound_caches api client c \<Longrightarrow> map_of (address_cache c) k = Some a \<Longrightarrow> fetch_address api client k = Inr a"
  by (simp_all add: sound_caches_def)

text \<open>A step of one search does not change what it will find, and leaves the caches sound for the others.\<close>

lemma net_step_ok:
  assumes "search_ok api client n" "sound_caches api client c" "net_step api client n c = (n', c')"
  shows "search_ok api client n' \<and> expected api client n' = expected api client n \<and> sound_caches api client c'"
  using assms
proof (induction api client n c rule: net_step.induct)
  case (2 api client nic nics c)
  then show ?case
    by (auto simp: after_ips_def sound_hit split: if_splits option.splits)
next
  case (3 api client nic nics c)
  then show ?case
    by (auto simp: after_ips_def fetch_nic_def split: sum.splits option.splits)
next
  case (6 api client private_ip public_id rest nics c)
  then show ?case
    by (auto simp: after_ips_def sound_hit split: if_splits option.splits)
next
  case (7 api client private_ip public_id rest nics c)
  then show ?case
    by (auto simp: after_ips_def fetch_address_def split: sum.splits option.splits)
qed (auto simp: after_ips_def sound_keep)

section \<open>Runs in blocks\<close>

text \<open>What a block adds to the results does not depend on the caches.\<close>

definition add_entry :: "inv_server option result \<Rightarrow> nat \<Rightarrow> go_error option \<times> inv_server option list \<Rightarrow> go_error option \<times> inv_server option list" where
  "add_entry x i = (\<lambda>(err, results). case x of
       Inl e \<Rightarrow> ((case err of None \<Rightarrow> Some e | Some f \<Rightarrow> Some f), results)
     | Inr server \<Rightarrow> (err, results[i := server]))"

lemma finish_entry_adds:
  assumes "sound_caches api client (es_caches s)"
  shows "(es_error (finish_entry api client states opts vms i s), es_results (finish_entry api client states opts vms i s)) =
      add_entry (plain_entry api client states opts (vms ! i)) i (es_error s, es_results s)"
    and "sound_caches api client (es_caches (finish_entry api client states opts vms i s))"
proof -
  obtain x d where b: "build_inventory_entry api client states opts (vms ! i) (es_caches s) = (x, d)"
    by fastforce
  with build_entry_plain[OF assms, of states opts "vms ! i"]
  have x: "plain_entry api client states opts (vms ! i) = map_sum id fst x" and d: "sound_caches api client d"
    by auto
  show "(es_error (finish_entry api client states opts vms i s), es_results (finish_entry api client states opts vms i s)) =
      add_entry (plain_entry api client states opts (vms ! i)) i (es_error s, es_results s)"
    unfolding x by (cases x) (auto simp: finish_entry_def b add_entry_def)
  show "sound_caches api client (es_caches (finish_entry api client states opts vms i s))"
    using d by (auto simp: finish_entry_def b split: sum.split prod.split)
qed

lemma finish_entries_add:
  assumes "sound_caches api client (es_caches s)"
  shows "(es_error (fold (finish_entry api client states opts vms) order s), es_results (fold (finish_entry api client states opts vms) order s)) =
      fold (\<lambda>i. add_entry (plain_entry api client states opts (vms ! i)) i) order (es_error s, es_results s)"
  using assms
proof (induction order arbitrary: s)
  case (Cons i order)
  show ?case
    using Cons.IH[OF finish_entry_adds(2)[OF Cons.prems]] finish_entry_adds(1)[OF Cons.prems, of states opts vms i]
    by simp
qed simp

section \<open>Invariant\<close>

definition task_ok :: "azure_api \<Rightarrow> azure_client \<Rightarrow> (string \<times> string) list \<Rightarrow> azure_vm \<Rightarrow> machine_task \<Rightarrow> bool" where
  "task_ok api client states vm t =
     (case t of Task_Running p n \<Rightarrow> search_ok api client n \<and> expected api client n = plain_nics api client (av_nics vm)
          \<and> (p = None \<or> p = Some (known_power_state api client states vm))
      | _ \<Rightarrow> True)"

definition run_inv ::
    "azure_api \<Rightarrow> azure_client \<Rightarrow> (string \<times> string) list \<Rightarrow> entry_options \<Rightarrow> azure_vm list \<Rightarrow> azure_run \<Rightarrow> bool" where
  "run_inv api client states opts vms r \<longleftrightarrow> length (ar_tasks r) = length vms \<and> sound_caches api client (es_caches (ar_state r))
     \<and> (\<forall>i < length vms. task_ok api client states (vms ! i) (ar_tasks r ! i))
     \<and> (\<exists>order. distinct order \<and> set order = {i. i < length vms \<and> ar_tasks r ! i = Task_Over}
          \<and> (es_error (ar_state r), es_results (ar_state r)) =
              fold (\<lambda>i. add_entry (plain_entry api client states opts (vms ! i)) i) order (None, replicate (length vms) None))"

lemma run_inv_start: "sound_caches api client c \<Longrightarrow> run_inv api client states opts vms (start_run vms c)"
  unfolding run_inv_def start_run_def by (auto simp: task_ok_def intro!: exI[of _ "[]"])

lemma searched_entry:
  assumes "task_ok api client states vm (Task_Running (Some p) (Searched a))"
  shows "plain_entry api client states opts vm = map_sum id (\<lambda>state. entry_of_search client opts vm state a) p"
  using assms
  by (cases a) (auto simp: task_ok_def plain_entry_def entry_of_search_def known_power_state_def case_prod_beta)

text \<open>A step that neither ends a task nor adds a result.\<close>

lemma run_inv_task:
  assumes "run_inv api client states opts vms r" "i < length (ar_tasks r)" "ar_tasks r ! i \<noteq> Task_Over"
    and "t \<noteq> Task_Over" "task_ok api client states (vms ! i) t" "sound_caches api client c"
  shows "run_inv api client states opts vms ((set_task i t r)\<lparr>ar_state := (ar_state r)\<lparr>es_caches := c\<rparr>\<rparr>)"
proof -
  have "{j. j < length vms \<and> (ar_tasks r)[i := t] ! j = Task_Over} = {j. j < length vms \<and> ar_tasks r ! j = Task_Over}"
    using assms(1-4) by (auto simp: run_inv_def nth_list_update)
  then show ?thesis
    using assms(1,2,5,6) by (auto simp: run_inv_def set_task_def nth_list_update)
qed

text \<open>A step that ends a task adds what the machine gives on its own.\<close>

lemma run_inv_over:
  assumes "run_inv api client states opts vms r" "i < length (ar_tasks r)"
    and "ar_tasks r ! i = Task_Running (Some p) (Searched a)"
    and "x = map_sum id (\<lambda>state. entry_of_search client opts (vms ! i) state a) p"
    and "(es_error s, es_results s) = add_entry x i (es_error (ar_state r), es_results (ar_state r))"
    and "es_caches s = es_caches (ar_state r)"
  shows "run_inv api client states opts vms ((set_task i Task_Over r)\<lparr>ar_state := s\<rparr>)"
proof -
  have len: "length (ar_tasks r) = length vms" and ok: "task_ok api client states (vms ! i) (ar_tasks r ! i)"
    using assms(1,2) by (auto simp: run_inv_def)
  have x: "x = plain_entry api client states opts (vms ! i)"
    using searched_entry[of api client states "vms ! i" p a opts] ok assms(3,4) by simp
  obtain order where order: "distinct order" "set order = {j. j < length vms \<and> ar_tasks r ! j = Task_Over}"
    and so_far: "(es_error (ar_state r), es_results (ar_state r)) =
              fold (\<lambda>i. add_entry (plain_entry api client states opts (vms ! i)) i) order (None, replicate (length vms) None)"
    using assms(1) unfolding run_inv_def by blast
  have "{j. j < length vms \<and> (ar_tasks r)[i := Task_Over] ! j = Task_Over} = insert i (set order)"
    using assms(2) len order(2) by (auto simp: nth_list_update)
  moreover have "i \<notin> set order"
    using order(2) assms(3) by simp
  moreover have "(es_error s, es_results s) =
      fold (\<lambda>i. add_entry (plain_entry api client states opts (vms ! i)) i) (order @ [i]) (None, replicate (length vms) None)"
    by (simp add: so_far[symmetric] assms(5) x)
  ultimately have "\<exists>order. distinct order \<and> set order = {j. j < length vms \<and> (ar_tasks r)[i := Task_Over] ! j = Task_Over}
      \<and> (es_error s, es_results s) =
          fold (\<lambda>i. add_entry (plain_entry api client states opts (vms ! i)) i) order (None, replicate (length vms) None)"
    using order(1) by (intro exI[of _ "order @ [i]"]) auto
  then show ?thesis
    using assms(1,2,6) by (auto simp: run_inv_def set_task_def nth_list_update task_ok_def)
qed

lemma same_caches: "r = r\<lparr>ar_state := (ar_state r)\<lparr>es_caches := es_caches (ar_state r)\<rparr>\<rparr>" for r :: azure_run
  by simp

lemma azure_step_inv:
  "azure_step api client states opts vms r r' \<Longrightarrow> run_inv api client states opts vms r \<Longrightarrow> run_inv api client states opts vms r'"
proof (induction rule: azure_step.induct)
  case (begin_task i r)
  have "run_inv api client states opts vms
      ((set_task i (Task_Running None (Next_Nic (av_nics (vms ! i)))) r)\<lparr>ar_state := (ar_state r)\<lparr>es_caches := es_caches (ar_state r)\<rparr>\<rparr>)"
    using begin_task by (intro run_inv_task) (auto simp: task_ok_def run_inv_def)
  then show ?case
    by (simp add: set_task_def)
next
  case (power_task i r n)
  have "task_ok api client states (vms ! i) (ar_tasks r ! i)"
    using power_task(1,3) by (auto simp: run_inv_def)
  then have "run_inv api client states opts vms
      ((set_task i (Task_Running (Some (known_power_state api client states (vms ! i))) n) r)
         \<lparr>ar_state := (ar_state r)\<lparr>es_caches := es_caches (ar_state r)\<rparr>\<rparr>)"
    using power_task by (intro run_inv_task) (auto simp: task_ok_def run_inv_def)
  then show ?case
    by (simp add: set_task_def)
next
  case (net_task i r p n n' c)
  have ok: "task_ok api client states (vms ! i) (Task_Running p n)" "sound_caches api client (es_caches (ar_state r))"
    using net_task(1,2,5) by (auto simp: run_inv_def)
  then have "search_ok api client n' \<and> expected api client n' = expected api client n \<and> sound_caches api client c"
    using net_task(4) by (intro net_step_ok[of api client n]) (auto simp: task_ok_def)
  then show ?case
    using net_task ok by (intro run_inv_task) (auto simp: task_ok_def)
next
  case (fail_task i r e a)
  then show ?case
    by (intro run_inv_over[of api client states opts vms r i "Inl e" a "Inl e"]) (auto simp: add_entry_def)
next
  case (end_task i r state a)
  then show ?case
    by (intro run_inv_over[of api client states opts vms r i "Inr state" a "Inr (entry_of_search client opts (vms ! i) state a)"])
      (auto simp: add_entry_def)
qed

lemma reachable_run_inv:
  assumes "(azure_step api client states opts vms)\<^sup>*\<^sup>* (start_run vms c) r" "sound_caches api client c"
  shows "run_inv api client states opts vms r"
  using assms(1) by (induction rule: rtranclp_induct) (auto intro: run_inv_start[OF assms(2)] azure_step_inv)

text \<open>
  However the goroutines interleave, at the end the inventory, or the error, is that of the machines asked
  one after the other, each in one block, in the order in which the goroutines ended.
\<close>

theorem azure_run_refines_blocks:
  assumes "(azure_step api client states opts vms)\<^sup>*\<^sup>* (start_run vms c) r" "sound_caches api client c" "run_over r"
  shows "\<exists>order. distinct order \<and> set order = {..<length vms}
     \<and> run_result r = build_inventory_entries api client states opts vms order c"
proof -
  have inv: "run_inv api client states opts vms r"
    using assms(1,2) by (rule reachable_run_inv)
  then obtain order where order: "distinct order" "set order = {i. i < length vms \<and> ar_tasks r ! i = Task_Over}"
    and at: "(es_error (ar_state r), es_results (ar_state r)) =
              fold (\<lambda>i. add_entry (plain_entry api client states opts (vms ! i)) i) order (None, replicate (length vms) None)"
    unfolding run_inv_def by blast
  have "set order = {..<length vms}"
    using order(2) assms(3) inv by (auto simp: run_over_def run_inv_def list_all_length)
  moreover define s where "s = fold (finish_entry api client states opts vms) order
      \<lparr>es_error = None, es_results = replicate (length vms) None, es_caches = c\<rparr>"
  have "(es_error s, es_results s) = (es_error (ar_state r), es_results (ar_state r))"
    unfolding s_def at by (subst finish_entries_add) (simp_all add: assms(2))
  then have "run_result r = build_inventory_entries api client states opts vms order c"
    by (auto simp: run_result_def build_inventory_entries_def s_def[symmetric] split: option.split)
  ultimately show ?thesis
    using order(1) by blast
qed

section \<open>Every run ends\<close>

text \<open>Some goroutine can move until all are over: when none is running, one that waits gets a place.\<close>

theorem azure_run_goes_on:
  assumes "\<not> run_over r"
  shows "\<exists>r'. azure_step api client states opts vms r r'"
proof (cases "\<exists>i < length (ar_tasks r). running_task (ar_tasks r ! i)")
  case True
  then obtain i where "i < length (ar_tasks r)" "running_task (ar_tasks r ! i)"
    by blast
  then obtain p n where i: "i < length (ar_tasks r)" "ar_tasks r ! i = Task_Running p n"
    by (cases "ar_tasks r ! i") (simp_all add: running_task_def)
  show ?thesis
  proof (cases "\<exists>a. n = Searched a")
    case False
    obtain n' c where "net_step api client n (es_caches (ar_state r)) = (n', c)"
      by (rule prod.exhaust)
    with False i show ?thesis
      by (blast intro: net_task)
  next
    case True
    with i show ?thesis
      by (cases p rule: option.exhaust; (cases "the p")?) (auto intro: power_task fail_task end_task)
  qed
next
  case False
  then have "filter running_task (ar_tasks r) = []"
    by (auto simp: filter_empty_conv in_set_conv_nth)
  then have "length (filter running_task (ar_tasks r)) < 8"
    by simp
  moreover obtain i where "i < length (ar_tasks r)" "ar_tasks r ! i \<noteq> Task_Over"
    using assms by (auto simp: run_over_def list_all_length)
  moreover from this False have "ar_tasks r ! i = Task_Waiting"
    by (cases "ar_tasks r ! i") (auto simp: running_task_def)
  ultimately show ?thesis
    by (blast intro: azure_step.begin_task)
qed

text \<open>How many steps a search has left at most.\<close>

definition ips_steps :: "ip_configs \<Rightarrow> nat" where
  "ips_steps configs = 1 + 3 * length configs"

definition nic_steps :: "azure_api \<Rightarrow> azure_client \<Rightarrow> string \<Rightarrow> nat" where
  "nic_steps api client nic = 3 + (case fetch_nic api client nic of Inl e \<Rightarrow> 0 | Inr configs \<Rightarrow> ips_steps configs)"

definition nics_steps :: "azure_api \<Rightarrow> azure_client \<Rightarrow> string list \<Rightarrow> nat" where
  "nics_steps api client nics = 1 + sum_list (map (nic_steps api client) nics)"

fun search_steps :: "azure_api \<Rightarrow> azure_client \<Rightarrow> net_search \<Rightarrow> nat" where
  "search_steps api client (Next_Nic nics) = nics_steps api client nics"
| "search_steps api client (Ask_Nic nic nics) = nics_steps api client (nic # nics) - 1"
| "search_steps api client (Keep_Nic nic configs nics) = 1 + ips_steps configs + nics_steps api client nics"
| "search_steps api client (Next_Ip configs nics) = ips_steps configs + nics_steps api client nics"
| "search_steps api client (Ask_Ip private_ip public_id rest nics) = 2 + ips_steps rest + nics_steps api client nics"
| "search_steps api client (Keep_Ip private_ip public_id public_ip rest nics) = 1 + ips_steps rest + nics_steps api client nics"
| "search_steps api client (Searched a) = 0"

lemma with_address_steps:
  "search_steps api client (with_address private_ip public_ip rest nics) \<le> ips_steps rest + nics_steps api client nics"
  by (simp add: with_address_def)

lemma net_step_steps:
  assumes "search_ok api client n" "sound_caches api client c" "\<forall>a. n \<noteq> Searched a"
  shows "search_steps api client (fst (net_step api client n c)) < search_steps api client n"
  using assms
proof (induction api client n c rule: net_step.induct)
  case (2 api client nic nics c)
  then show ?case
    by (auto simp: nics_steps_def nic_steps_def sound_hit split: option.split)
next
  case (3 api client nic nics c)
  then show ?case
    by (auto simp: nics_steps_def nic_steps_def fetch_nic_def split: sum.split)
next
  case (6 api client private_ip public_id rest nics c)
  have "search_steps api client (with_address private_ip public_ip rest nics) < ips_steps ((private_ip, public_id) # rest) + nics_steps api client nics"
    for public_ip
    using with_address_steps[of api client private_ip public_ip rest nics] by (simp add: ips_steps_def)
  then show ?case
    by (auto simp: ips_steps_def split: option.split)
next
  case (8 api client private_ip public_id public_ip rest nics c)
  then show ?case
    using with_address_steps[of api client private_ip public_ip rest nics] by (simp add: less_Suc_eq_le)
qed (auto simp: nics_steps_def ips_steps_def split: sum.split)

fun task_steps :: "azure_api \<Rightarrow> azure_client \<Rightarrow> azure_vm \<Rightarrow> machine_task \<Rightarrow> nat" where
  "task_steps api client vm Task_Waiting = 3 + nics_steps api client (av_nics vm)"
| "task_steps api client vm (Task_Running p n) = (if p = None then 2 else 1) + search_steps api client n"
| "task_steps api client vm Task_Over = 0"

definition run_steps :: "azure_api \<Rightarrow> azure_client \<Rightarrow> azure_vm list \<Rightarrow> azure_run \<Rightarrow> nat" where
  "run_steps api client vms r = (\<Sum>i < length (ar_tasks r). task_steps api client (vms ! i) (ar_tasks r ! i))"

lemma set_task_steps:
  assumes "i < length (ar_tasks r)" "task_steps api client (vms ! i) t < task_steps api client (vms ! i) (ar_tasks r ! i)"
  shows "run_steps api client vms (set_task i t r) < run_steps api client vms r"
proof -
  have "run_steps api client vms (set_task i t r) =
      (\<Sum>j < length (ar_tasks r). task_steps api client (vms ! j) (if j = i then t else ar_tasks r ! j))"
    by (auto simp: run_steps_def set_task_def nth_list_update intro!: sum.cong)
  also have "\<dots> < run_steps api client vms r"
    unfolding run_steps_def using assms by (intro sum_strict_mono_ex1) auto
  finally show ?thesis .
qed

lemma run_steps_state [simp]: "run_steps api client vms (r\<lparr>ar_state := s\<rparr>) = run_steps api client vms r"
  by (simp add: run_steps_def)

lemma azure_step_steps:
  "azure_step api client states opts vms r r' \<Longrightarrow> run_inv api client states opts vms r \<Longrightarrow>
     run_steps api client vms r' < run_steps api client vms r"
proof (induction rule: azure_step.induct)
  case (net_task i r p n n' c)
  then have "task_ok api client states (vms ! i) (Task_Running p n)" "sound_caches api client (es_caches (ar_state r))"
    by (auto simp: run_inv_def)
  with net_step_steps[of api client n "es_caches (ar_state r)"] net_task
  have "search_steps api client n' < search_steps api client n"
    by (simp add: task_ok_def)
  with net_task show ?case
    by (simp add: set_task_steps)
qed (auto intro!: set_task_steps)

text \<open>
  The number of steps is bounded by the interfaces of the machines and the configurations the requests for
  them answer. As some goroutine can move until all are over, every run ends.
\<close>

theorem azure_run_bounded:
  assumes "(azure_step api client states opts vms ^^ m) (start_run vms c) r" "sound_caches api client c"
  shows "m \<le> (\<Sum>vm \<leftarrow> vms. 3 + nics_steps api client (av_nics vm))"
proof -
  have "m + run_steps api client vms r \<le> run_steps api client vms q \<and> run_inv api client states opts vms r"
    if "(azure_step api client states opts vms ^^ m) q r" "run_inv api client states opts vms q" for q
    using that
  proof (induction m arbitrary: r)
    case (Suc m)
    then obtain t where "(azure_step api client states opts vms ^^ m) q t" and st: "azure_step api client states opts vms t r"
      by auto
    with Suc.IH[of t] Suc.prems(2) have "m + run_steps api client vms t \<le> run_steps api client vms q"
      and inv: "run_inv api client states opts vms t"
      by blast+
    with azure_step_steps[OF st inv] azure_step_inv[OF st inv] show ?case
      by simp
  qed simp
  from this[OF assms(1) run_inv_start[OF assms(2)]]
  have "m \<le> run_steps api client vms (start_run vms c)"
    by simp
  also have "\<dots> = (\<Sum>i < length vms. 3 + nics_steps api client (av_nics (vms ! i)))"
    by (simp add: run_steps_def start_run_def)
  also have "\<dots> = (\<Sum>vm \<leftarrow> vms. 3 + nics_steps api client (av_nics vm))"
    by (simp add: sum_list_sum_nth atLeast0LessThan)
  finally show ?thesis .
qed

end
