(* ===== verification/Inv_Proxmox.thy ===== *)
theory Inv_Proxmox
  imports Inv_Cloud
begin

text \<open>
  The inventory of the Proxmox provider, \<^verbatim>\<open>provider-inventory-proxmox/main.go\<close>: logging in, the
  requests, the search for the operating systems of the guests, the filter and the servers. Sending a request and the
  decoding of its answer are parameters; the base address is part of sending.
\<close>

section \<open>Settings\<close>

text \<open>\<open>strconv.ParseBool\<close> knows these spellings of true.\<close>

definition proxmox_bool :: "table \<Rightarrow> string \<Rightarrow> bool" where
  "proxmox_bool config key =
     (case map_of config key of
        Some (D_Bool b) \<Rightarrow> b
      | Some (D_String s) \<Rightarrow> s \<in> set [''1'', ''t'', ''T'', ''TRUE'', ''true'', ''True'']
      | _ \<Rightarrow> False)"

record proxmox_resource =
  px_name :: string
  px_node :: string
  px_status :: string
  px_vmid :: int
  px_type :: string
  px_template :: int
  px_id :: string

record proxmox_filter =
  pf_templates :: bool
  pf_statuses :: "string list"
  pf_vm_types :: "string list"
  pf_os_families :: "string list"

definition proxmox_filter_from_config :: "table \<Rightarrow> proxmox_filter" where
  "proxmox_filter_from_config config =
     (let statuses = provider_string_slice config ''statuses''
      in \<lparr>pf_templates = proxmox_bool config ''include_templates'',
          pf_statuses = (if statuses \<noteq> [] then statuses
            else ''running'' # (if proxmox_bool config ''include_stopped'' then [''stopped''] else [])),
          pf_vm_types = provider_string_slice config ''vm_types'',
          pf_os_families = map to_lower (provider_string_slice config ''os_families'')\<rparr>)"

definition proxmox_matches :: "proxmox_filter \<Rightarrow> proxmox_resource \<Rightarrow> string \<Rightarrow> bool" where
  "proxmox_matches f r os_family =
     (if \<not> pf_templates f \<and> px_template r \<noteq> 0 then False
      else if pf_statuses f \<noteq> [] \<and> px_status r \<notin> set (pf_statuses f) then False
      else if pf_vm_types f \<noteq> [] \<and> px_type r \<notin> set (pf_vm_types f) then False
      else if pf_os_families f \<noteq> [] \<and> os_family \<notin> set (pf_os_families f) then False else True)"

definition proxmox_os_family :: "string \<Rightarrow> string \<Rightarrow> string" where
  "proxmox_os_family resource_type ostype =
     (if resource_type = ''lxc'' then ''non-windows''
      else if ostype = '''' then ''unknown''
      else if has_prefix (to_lower ostype) ''w'' then ''windows'' else ''non-windows'')"

definition render_proxmox_template :: "string \<Rightarrow> string \<Rightarrow> string \<Rightarrow> int \<Rightarrow> string" where
  "render_proxmox_template template name node vmid =
     (if template = '''' then '''' else new_replacer [(''${name}'', name), (''${node}'', node), (''${vmid}'', itoa vmid)] template)"

section \<open>Requests\<close>

record proxmox_api =
  pa_send :: "(string \<times> string) list \<Rightarrow> string \<Rightarrow> string \<Rightarrow> (int \<times> string \<times> string) result"
  pa_login :: "string \<Rightarrow> string \<Rightarrow> (int \<times> string \<times> string) result"
  pa_decode_ticket :: "string \<Rightarrow> (string \<times> string) result"
  pa_decode_resources :: "string \<Rightarrow> proxmox_resource list result"
  pa_decode_nodes :: "string \<Rightarrow> ((string \<times> string) list) result"
  pa_decode_ostype :: "string \<Rightarrow> string result"

definition proxmox_request_path :: "string \<Rightarrow> string \<Rightarrow> string" where
  "proxmox_request_path path query = (if query = '''' then path else path @ ''?'' @ query)"

definition proxmox_http_error :: "string \<Rightarrow> string \<Rightarrow> string \<Rightarrow> string \<Rightarrow> 'a result" where
  "proxmox_http_error subject status path body =
     errorf (subject @ '': status='' @ status @ '' path='' @ path
       @ (if trim_space body = '''' then '''' else '' body='' @ trim_space body))"

definition proxmox_endpoint :: "string \<Rightarrow> string \<times> string" where
  "proxmox_endpoint path =
     (let p = trim_prefix path ''/''
      in case split_at CHR ''?'' p of None \<Rightarrow> (''/api2/json/'' @ p, '''') | Some (a, b) \<Rightarrow> (''/api2/json/'' @ a, b))"

definition proxmox_api_get :: "proxmox_api \<Rightarrow> (string \<times> string) list \<Rightarrow> string \<Rightarrow> string result" where
  "proxmox_api_get api headers path =
     (case proxmox_endpoint path of (p, q) \<Rightarrow>
       (case pa_send api headers p q of Inl e \<Rightarrow> Inl e
        | Inr (code, status, body) \<Rightarrow>
            if code < 200 \<or> 300 \<le> code
            then proxmox_http_error ''proxmox api request failed'' status (proxmox_request_path p q) body else Inr body))"

definition proxmox_ticket_headers :: "proxmox_api \<Rightarrow> string \<Rightarrow> string \<Rightarrow> ((string \<times> string) list) result" where
  "proxmox_ticket_headers api username password =
     (case pa_login api username password of Inl e \<Rightarrow> Inl e
      | Inr (code, status, body) \<Rightarrow>
          if code < 200 \<or> 300 \<le> code then proxmox_http_error ''proxmox auth failed'' status ''/api2/json/access/ticket'' body
          else (case pa_decode_ticket api body of Inl e \<Rightarrow> Inl e
                | Inr (ticket, csrf) \<Rightarrow>
                    if ticket = '''' then errorf ''proxmox auth failed: no ticket returned''
                    else Inr ((''Cookie'', ''PVEAuthCookie='' @ ticket)
                           # (if csrf \<noteq> '''' then [(''CSRFPreventionToken'', csrf)] else []))))"

definition proxmox_auth_headers :: "proxmox_api \<Rightarrow> source_env \<Rightarrow> table \<Rightarrow> ((string \<times> string) list) result" where
  "proxmox_auth_headers api env config =
     (case resolve_config_value env config ''token_id'' of Inl e \<Rightarrow> Inl e | Inr token_id \<Rightarrow>
      (case resolve_config_value env config ''token_secret'' of Inl e \<Rightarrow> Inl e | Inr token_secret \<Rightarrow>
        if token_id \<noteq> '''' \<or> token_secret \<noteq> ''''
        then (if token_id = '''' \<or> token_secret = '''' then errorf ''token_id and token_secret must both be set''
              else Inr [(''Authorization'', ''PVEAPIToken='' @ token_id @ ''='' @ token_secret)])
        else (let user = provider_string config ''username'';
                  username = (if user = '''' then provider_string config ''user'' else user)
              in case resolve_config_value env config ''password'' of Inl e \<Rightarrow> Inl e
                 | Inr password \<Rightarrow>
                     if username = '''' \<or> password = ''''
                     then errorf ''either token_id/token_secret or username/password is required''
                     else proxmox_ticket_headers api username password)))"

section \<open>Operating systems\<close>

definition proxmox_node_statuses :: "proxmox_api \<Rightarrow> (string \<times> string) list \<Rightarrow> ((string \<times> string) list) result" where
  "proxmox_node_statuses api headers =
     (case proxmox_api_get api headers ''/cluster/resources?type=node'' of Inl e \<Rightarrow> Inl e
      | Inr body \<Rightarrow>
          map_sum id (\<lambda>nodes. fold (\<lambda>(node, status) m. if node = '''' then m else AList.update node status m) nodes [])
            (pa_decode_nodes api body))"

definition proxmox_guest_os_type :: "proxmox_api \<Rightarrow> (string \<times> string) list \<Rightarrow> proxmox_resource \<Rightarrow> string result" where
  "proxmox_guest_os_type api headers r =
     (case proxmox_api_get api headers (''/nodes/'' @ px_node r @ ''/qemu/'' @ itoa (px_vmid r) @ ''/config'') of Inl e \<Rightarrow> Inl e
      | Inr body \<Rightarrow> pa_decode_ostype api body)"

definition looked_up :: "(string \<times> string) list \<Rightarrow> proxmox_resource \<Rightarrow> bool" where
  "looked_up nodes r = (px_type r = ''qemu'' \<and> (let s = lookup_text nodes (px_node r) in s = '''' \<or> s = ''online''))"

text \<open>The guests are asked about in parallel; \<open>order\<close> is a list of those that are looked up, in the order in
  which they are finished. A failed lookup is only a warning.\<close>

definition note_os_type :: "(proxmox_resource \<Rightarrow> string result) \<Rightarrow> proxmox_resource \<Rightarrow> (string \<times> string) list \<Rightarrow> (string \<times> string) list" where
  "note_os_type lookup r m = (case lookup r of Inl e \<Rightarrow> m | Inr ostype \<Rightarrow> AList.update (px_id r) ostype m)"

definition proxmox_resource_os_types ::
    "(proxmox_resource list \<Rightarrow> proxmox_resource list) \<Rightarrow> proxmox_resource list \<Rightarrow> (string \<times> string) list
      \<Rightarrow> (proxmox_resource \<Rightarrow> string result) \<Rightarrow> (string \<times> string) list" where
  "proxmox_resource_os_types order resources nodes lookup =
     fold (note_os_type lookup) (order (filter (looked_up nodes) resources)) []"

definition proxmox_warnings ::
    "proxmox_resource list \<Rightarrow> (string \<times> string) list \<Rightarrow> (proxmox_resource \<Rightarrow> string result) \<Rightarrow> string list" where
  "proxmox_warnings resources nodes lookup =
     concat (map (\<lambda>r.
       if px_type r \<noteq> ''qemu'' then []
       else if \<not> looked_up nodes r
       then [''warning: skip ostype lookup for '' @ px_id r @ '' because node '' @ px_node r @ '' is '' @ lookup_text nodes (px_node r)]
       else (case lookup r of Inl e \<Rightarrow> [''warning: failed to get ostype for '' @ px_id r @ '': '' @ err_message e] | Inr t \<Rightarrow> []))
       resources)"

section \<open>Servers\<close>

definition proxmox_server :: "table \<Rightarrow> proxmox_resource \<Rightarrow> string \<Rightarrow> inv_server" where
  "proxmox_server config r ostype =
     (let render = (\<lambda>t. render_proxmox_template t (px_name r) (px_node r) (px_vmid r));
          name_template = provider_string config ''server_name_template'';
          addr_template = provider_string config ''addr_template''; node_prefix = provider_string config ''node_addr_prefix''
      in \<lparr>is_name = render (if name_template = '''' then ''pve:${node}:${name}'' else name_template),
          is_config = [(''addr'', D_String (if addr_template \<noteq> '''' then render addr_template
                         else if node_prefix \<noteq> '''' then node_prefix @ px_node r else '''')),
            (''note'', D_String (render (provider_string config ''note_template'')))],
          is_meta = [(''provider'', ''proxmox''), (''plugin'', ''provider-inventory-proxmox''), (''name'', px_name r), (''node'', px_node r),
            (''vmid'', itoa (px_vmid r)), (''type'', px_type r), (''id'', px_id r), (''status'', px_status r),
            (''os_family'', proxmox_os_family (px_type r) ostype)] @ (if ostype \<noteq> '''' then [(''ostype'', ostype)] else [])\<rparr>)"

definition proxmox_listed :: "table \<Rightarrow> (string \<times> string) list \<Rightarrow> proxmox_resource \<Rightarrow> bool" where
  "proxmox_listed config ostypes r =
     proxmox_matches (proxmox_filter_from_config config) r (proxmox_os_family (px_type r) (lookup_text ostypes (px_id r)))"

definition list_proxmox ::
    "proxmox_api \<Rightarrow> source_env \<Rightarrow> (proxmox_resource list \<Rightarrow> proxmox_resource list) \<Rightarrow> table \<Rightarrow> inv_server list result" where
  "list_proxmox api env order config =
     (case proxmox_auth_headers api env config of Inl e \<Rightarrow> Inl e | Inr headers \<Rightarrow>
      (case proxmox_api_get api headers ''/cluster/resources?type=vm'' of Inl e \<Rightarrow> Inl e | Inr body \<Rightarrow>
      (case pa_decode_resources api body of Inl e \<Rightarrow> Inl e | Inr resources \<Rightarrow>
      (case proxmox_node_statuses api headers of Inl e \<Rightarrow> Inl e | Inr nodes \<Rightarrow>
        (let ostypes = proxmox_resource_os_types order resources nodes (proxmox_guest_os_type api headers)
         in Inr (map (\<lambda>r. proxmox_server config r (lookup_text ostypes (px_id r))) (filter (proxmox_listed config ostypes) resources)))))))"

definition proxmox_health_check :: "proxmox_api \<Rightarrow> source_env \<Rightarrow> table \<Rightarrow> string result" where
  "proxmox_health_check api env config =
     (case proxmox_auth_headers api env config of Inl e \<Rightarrow> Inl e
      | Inr headers \<Rightarrow> map_sum id (\<lambda>body. ''proxmox inventory provider can access the API'') (proxmox_api_get api headers ''/version''))"

section \<open>Requests keep their query apart\<close>

lemma endpoint_of_path:
  assumes "CHR ''?'' \<notin> set path"
  shows "proxmox_endpoint (CHR ''/'' # path @ ''?'' @ query) = (''/api2/json/'' @ path, query)"
    "proxmox_endpoint (CHR ''/'' # path) = (''/api2/json/'' @ path, '''')"
proof -
  have "split_at CHR ''?'' (path @ ''?'' @ query) = Some (path, query)" "split_at CHR ''?'' path = None"
    using assms by (auto simp: split_at_Some split_at_None)
  then show "proxmox_endpoint (CHR ''/'' # path @ ''?'' @ query) = (''/api2/json/'' @ path, query)"
    "proxmox_endpoint (CHR ''/'' # path) = (''/api2/json/'' @ path, '''')"
    by (simp_all add: proxmox_endpoint_def trim_prefix_def)
qed

text \<open>The secrets of a login are in the headers only when they are complete; a token is preferred to a password.\<close>

lemma auth_headers_cases:
  assumes "proxmox_auth_headers api env config = Inr headers"
  shows "(\<exists>i s. resolve_config_value env config ''token_id'' = Inr i \<and> resolve_config_value env config ''token_secret'' = Inr s
       \<and> i \<noteq> '''' \<and> s \<noteq> '''' \<and> headers = [(''Authorization'', ''PVEAPIToken='' @ i @ ''='' @ s)])
    \<or> (resolve_config_value env config ''token_id'' = Inr '''' \<and> resolve_config_value env config ''token_secret'' = Inr ''''
       \<and> (\<exists>u p. u \<noteq> '''' \<and> p \<noteq> '''' \<and> resolve_config_value env config ''password'' = Inr p
            \<and> proxmox_ticket_headers api u p = Inr headers))"
proof -
  obtain i s where i: "resolve_config_value env config ''token_id'' = Inr i" and s: "resolve_config_value env config ''token_secret'' = Inr s"
    using assms by (auto simp: proxmox_auth_headers_def split: sum.splits)
  show ?thesis
  proof (cases "i = '''' \<and> s = ''''")
    case True
    then obtain p where "resolve_config_value env config ''password'' = Inr p"
      using assms i s by (auto simp: proxmox_auth_headers_def Let_def split: sum.splits)
    with True assms i s show ?thesis
      by (auto simp: proxmox_auth_headers_def Let_def errorf_def split: if_splits)
  qed (use assms i s in \<open>auto simp: proxmox_auth_headers_def errorf_def split: if_splits\<close>)
qed

section \<open>The order of the lookups\<close>

lemma os_types_fold:
  assumes "inj_on px_id (set rs)"
  shows "map_of (fold (note_os_type lookup) rs m) key =
    (case find (\<lambda>r. px_id r = key \<and> \<not> isl (lookup r)) rs of Some r \<Rightarrow> Some (projr (lookup r)) | None \<Rightarrow> map_of m key)"
  using assms
proof (induction rs arbitrary: m)
  case (Cons r rs)
  have rest: "inj_on px_id (set rs)"
    using Cons.prems by (auto simp: inj_on_def)
  show ?case
  proof (cases "px_id r = key \<and> \<not> isl (lookup r)")
    case True
    then obtain t where t: "lookup r = Inr t"
      by (cases "lookup r") auto
    have "find (\<lambda>q. px_id q = key \<and> \<not> isl (lookup q)) rs = None \<or> find (\<lambda>q. px_id q = key \<and> \<not> isl (lookup q)) rs = Some r"
    proof (cases "find (\<lambda>q. px_id q = key \<and> \<not> isl (lookup q)) rs")
      case (Some q)
      then have "q \<in> set rs" "px_id q = key"
        by (auto simp: find_Some_iff)
      then have "q = r"
        using Cons.prems True by (auto simp: inj_on_def)
      with Some show ?thesis
        by simp
    qed simp
    moreover have "note_os_type lookup r m = AList.update (px_id r) t m"
      by (simp add: note_os_type_def t)
    ultimately show ?thesis
      using True t by (auto simp: Cons.IH[OF rest] update_conv')
  next
    case False
    have "map_of (note_os_type lookup r m) key = map_of m key"
      using False by (cases "lookup r") (auto simp: note_os_type_def update_conv')
    with False show ?thesis
      by (auto simp: Cons.IH[OF rest] split: option.split)
  qed
qed simp

lemma find_same_set:
  assumes "set rs = set qs" "inj_on px_id (set rs)"
  shows "find (\<lambda>r. px_id r = key \<and> P r) rs = find (\<lambda>r. px_id r = key \<and> P r) qs"
proof (cases "find (\<lambda>r. px_id r = key \<and> P r) rs")
  case None
  with assms(1) have "\<not> (\<exists>r \<in> set qs. px_id r = key \<and> P r)"
    by (auto simp: find_None_iff)
  then have "find (\<lambda>r. px_id r = key \<and> P r) qs = None"
    by (auto simp: find_None_iff)
  with None show ?thesis
    by simp
next
  case (Some r)
  then have r: "r \<in> set rs" "px_id r = key" "P r"
    by (auto simp: find_Some_iff)
  show ?thesis
  proof (cases "find (\<lambda>r. px_id r = key \<and> P r) qs")
    case None
    with r assms(1) show ?thesis
      by (auto simp: find_None_iff)
  next
    case (Some q)
    then have "q \<in> set qs" "px_id q = key"
      by (auto simp: find_Some_iff)
    with r assms have "q = r"
      by (auto simp: inj_on_def)
    with Some \<open>find (\<lambda>r. px_id r = key \<and> P r) rs = Some r\<close> show ?thesis
      by simp
  qed
qed

text \<open>In whichever order the parallel lookups finish, the guests are listed with the same operating systems.\<close>

theorem proxmox_lookup_order_irrelevant:
  assumes "set (order (filter (looked_up nodes) resources)) = set (filter (looked_up nodes) resources)" "inj_on px_id (set resources)"
  shows "map_of (proxmox_resource_os_types order resources nodes lookup) = map_of (proxmox_resource_os_types id resources nodes lookup)"
proof
  fix key
  have inj: "inj_on px_id (set (filter (looked_up nodes) resources))"
    using assms(2) by (auto simp: inj_on_def)
  with assms(1) have inj': "inj_on px_id (set (order (filter (looked_up nodes) resources)))"
    by simp
  show "map_of (proxmox_resource_os_types order resources nodes lookup) key = map_of (proxmox_resource_os_types id resources nodes lookup) key"
    unfolding proxmox_resource_os_types_def id_apply os_types_fold[OF inj] os_types_fold[OF inj'] find_same_set[OF assms(1) inj'] ..
qed

text \<open>
  A guest whose lookup is skipped or fails has an unknown operating system, so a filter for windows or
  non-windows hides it; containers are never hidden from the latter.
\<close>

lemma unknown_os_filtered:
  assumes "px_type r \<noteq> ''lxc''" "lookup_text ostypes (px_id r) = ''''" "proxmox_listed config ostypes r"
  shows "provider_string_slice config ''os_families'' = [] \<or> ''unknown'' \<in> to_lower ` set (provider_string_slice config ''os_families'')"
  using assms by (auto simp: proxmox_listed_def proxmox_matches_def proxmox_os_family_def proxmox_filter_from_config_def Let_def split: if_splits)

end
