(* ===== verification/Spec2Isabelle.thy ===== *)
theory Spec2Isabelle
  imports Sync_Pool Cli_Spec Mux_Invariant Lsdiff_Align Conf_Match_Props
    Ssm_Session Ssm_Streams Iap_Conn Telnet Ssh_Settings Ssh_Include
    Pshell_Subst Prov_Redact Conf_Read Proxy_Route Conn_Run Socks_Server
    Scp_Copy Inv_Azure_Steps Inv_Proxmox
begin

text \<open>
  Verification development for lssh, a family of command line programs that
  choose hosts of a configuration and connect to them by SSH, copy and
  synchronise files, compare files, and show several sessions in one terminal.
  The Go packages are under src/internal, the connectors that reach a host by
  other means (AWS Session Manager, the GCP tunnel, telnet) under src/provider.

  Prelude.  Go_Base holds the hint collections and lemmas on strings, lists and
  sums and the functions of the Go package strings that the code calls; Go_Path
  is path.Clean, path.Join, path.Dir and path.Base, Go_Match path.Match; Go_Bytes the byte
  slices, the results (value, error or panic), big-endian numbers and the
  interface of a framed byte stream; Go_Netip the addresses and prefixes of
  net/netip.

  File synchronisation (internal/sync).  Sync_Path holds the decisions on
  destination paths, Sync_Plan the file system interface, BuildPlan and
  pathsToDelete, Sync_Bidirectional the snapshots and the plans of both
  directions, Sync_Apply ApplyPlan with the copy of one file and the removal of
  what a source no longer has, and Sync_Pool the worker goroutines of copyFiles as
  a step relation.  The file system is a record of operations over an abstract
  state; the properties assume only the laws of a tree of files, and a small
  concrete tree shows they can hold.  Shown: what a plan contains, that removals
  are exact and come in a safe order, that both directions never meet on a key and
  plan every key of either side as the comparison says,
  that a dry run changes nothing, that the pool itself always goes on until it ends, and copies
  every file once when it reports no error, and that an error of the data copy is
  lost when a progress printer is used.

  Copies (internal/scp).  Scp_Path says where a file goes, Scp_Copy copies to servers,
  between servers and from servers, with dry runs and workers.  Shown: where files land,
  that a dry run to a server changes nothing, when a copy waits for ever, and that a new
  destination changes the paths while a directory is copied.

  Command lines (internal/common, internal/sync/command.go, internal/lsdiff,
  internal/pshell).  Cli_Spec holds the host selectors, the forward and tunnel
  specifications, the sync arguments and the targeted commands.  Shown: round
  trips, the choice of the longest selector, bounds of accepted arguments.

  Terminal multiplexer (internal/mux).  Mux_Layout is the tree of panes with split,
  removal, compaction and the balanced grid; Mux_Manager the pages, panes,
  selectors, connections and keys; Mux_Invariant the invariant of the manager, kept
  by every operation.

  Comparison (internal/lsdiff).  Lsdiff_Align is AlignDocuments; the operations of
  the difflib library are a parameter which has to tile both documents.

  Conditional settings (internal/config).  Conf_Match holds the conditions, their
  validation, resolution and the overriding of a server's fields; Conf_Match_Props
  its properties.

  Connectors (src/provider).  Web_Socket holds the frames both cloud connectors
  use and interprets the interface of a framed stream; Ssm_Message, Ssm_Session and
  Ssm_Streams the messages, the read loop and the text streams of the AWS session;
  Iap_Conn the connection of the GCP tunnel; Telnet the command filter and the
  escaping of telnet.

  Layers, providers, OpenSSH servers (internal/config).  Conf_Reduct holds the fields
  with their kinds, decoding and the laying of one configuration over another;
  Prov_Data the tables of providers and the search for their executables; Prov_Match
  the branches that change the servers of an inventory; Prov_Redact a call of a
  provider and the removal of secrets from logs and messages; Conf_OpenSSH the
  servers an OpenSSH configuration gives; Conf_Read the reading of the whole configuration,
  with defaults, OpenSSH files, included files, inventories, branches and the final check.
  Shown: the laws of layers, that the applicable branch of the greatest priority wins, that
  executables stay below the configured directories (but for a plugin called ..), that the
  secrets of a request and its response are replaced in all that is logged of them, and that what is read
  has the types of its fields and what a connection needs.

  Plans of connectors (src/provider).  Plan_OpenSSH builds the command lines of the ssh
  program, Plan_Aws the plans of Session Manager and Instance Connect, Plan_Gcp and
  Plan_Azure those of the tunnels of the other clouds; Plan_Dial is the contract of a
  connector that is told a port only, which three of them meet.  Shown: what is
  described and then refused or the other way round, that forwards listen locally, and
  what of a target a dialled connection depends on.

  Inventories (src/provider).  Prov_Source finds settings in the environment or in a file,
  Inv_Cloud turns the instances of AWS and GCP into servers, Inv_Azure lists the machines of
  Azure with its pages, power states and caches, Inv_Azure_Steps the goroutines that do so,
  one request at a time, Inv_Proxmox the guests of Proxmox.  Shown:
  settings written to a file are read back, listed instances are complete targets of the
  connectors, what becomes of instances that share a name, and that neither caches nor the
  order of parallel requests change an inventory, as long as a request is answered the same
  each time; the goroutines always end.  The loop over the pages is a partial
  function, since a circle of links is followed for ever.

  Connections (internal/config, internal/ssh).  Conf_Connector holds the connector of a
  server, the providers that offer it and what they are asked to prepare; Go_HostPort is
  net.SplitHostPort and net.JoinHostPort; Proxy_Route the chain of proxies of a server and the
  hops that are dialled; Conn_Run the choice of a session through a connector with its
  forwards; Socks_Proxy the SOCKS and HTTP requests, Socks_Server the listening proxy
  with its open connections and the relay of a connection.  Shown: the chain of proxies is
  returned unless it is a circle, forwards that a connector does not support end the session,
  which requests reach a target, that a shutdown closes what it tracks, that a relay
  delivers what it reads.  The theorems of this theory join components: what becomes of
  a remote forward of an OpenSSH configuration when a session starts, and what a SOCKS
  request makes the provider prepare.

  OpenSSH configuration (internal/ssh_config).  Ssh_Config holds the patterns, the
  Host and Match blocks and the lookup through included files; Ssh_Settings the
  tables of keywords, the check of values and the lookup in the user's and the
  system's files; Ssh_Lexer and Ssh_Parser the state functions of the lexer and the
  parser with included files and printing.  Ssh_Lines reads single lines, Ssh_Roundtrip
  shows that printing and parsing agree, Ssh_Grammar that no text makes the parser
  panic, Ssh_Include what becomes of circles and comments of Include lines.

  Parallel shell (internal/pshell).  Pshell_Line leads from the syntax tree of the
  shell library to joined stages and aliases, Pshell_Exec wires the stages of a line
  and chooses its hosts, Pshell_Subst runs and replaces process substitutions.  Shown:
  every stage is started and wired to its neighbours, no word is lost, quoted words
  are read back.

  Parameters.  The JSON library, SHA-256, the clock, the random masks of the
  WebSocket, the largest allocation, the opcodes of difflib, time.ParseDuration, the
  file system, the shell's parser and the processes are arguments of the definitions
  that use them.  Their laws are hypotheses of the properties; each such property
  has a witness with concrete functions.

  Bounds and termination.  Loops over data use structural recursion or a measure on
  the remaining input.  The loop of pathsToDelete that climbs to the root is a
  partial function, proved to return on clean absolute paths; the square root of
  the grid counts up with a bound that is proved to suffice; included files nest as a
  finite tree, because the parser limits their depth.  stmt_loop of the parallel
  shell is a partial function, since the code hangs on some inputs.  Machine integers are words
  where the code depends on their width (lengths of frames, acknowledged bytes);
  elsewhere a Go int holds the length of a slice and is an int or a nat.

  Not modelled.  Drawing and key events of the terminal libraries, SSH sessions,
  sockets, processes and cloud services: their code sequences library calls and
  takes few decisions of its own.  The manifest lists these parts one by one.
\<close>

section \<open>Properties across components\<close>

lemma put_note: "put ''note'' v vals ''port_forward_local'' = vals ''port_forward_local''"
  "put ''note'' v vals ''port_forward_remote'' = vals ''port_forward_remote''"
  "put ''note'' v vals ''port_forward'' = vals ''port_forward''"
  by (simp_all add: put_def)

lemma kind_of_forward: "kind_of ''port_forward'' = K_String"
  by code_simp

lemma typed_string: "typed_config s \<Longrightarrow> kind_of key = K_String \<Longrightarrow> \<exists>t. fc_values s key = V_String t"
  unfolding typed_config_def using has_kind_string by metis

text \<open>
  C20. The remote forward of a host in an OpenSSH configuration, laid over common settings that set no
  mode and no list of forwards, is the first forward a session starts, and it starts with the listener on this machine.
\<close>

theorem openssh_remote_forward_listens_here:
  assumes "split_at CHR '' '' (openssh_value lu cfg host ''RemoteForward'') = Some (a, b)" "a \<noteq> ''''" "b \<noteq> ''''"
    and "(name, s) \<in> set (get_openssh_config path [(host, openssh_entry pd exists d lu cfg user host)])"
    and "typed_config common" "conf_string common ''port_forward'' = ''''" "fc_forwards common = []"
  shows "take 1 (map start_port_forward (fc_forwards (set_port_forwards r (server_config_reduct common s))))
     = [Start_Local ''tcp'' (forward_end a) ''tcp'' (forward_end b)]"
proof -
  note entry = remote_forward_becomes_local[OF assms(1), of pd exists d user]
  have filled: "forward_end a \<noteq> ''''" "forward_end b \<noteq> ''''"
    using assms(2,3) by (auto simp: forward_end_def split: option.splits)
  have s: "s = zero_config\<lparr>fc_values := put ''note'' (''from:'' @ source_name path) (openssh_entry pd exists d lu cfg user host)\<rparr>"
    using assms(4) by (simp add: get_openssh_config_def)
  obtain l m n where common: "fc_values common ''port_forward_local'' = V_String l"
      "fc_values common ''port_forward_remote'' = V_String m" "fc_values common ''port_forward'' = V_String n"
    using typed_string[OF assms(5)] kinds(2,3) kind_of_forward by metis
  let ?c = "server_config_reduct common s"
  have "fc_values ?c ''port_forward_local'' = V_String (forward_end a)" "fc_values ?c ''port_forward_remote'' = V_String (forward_end b)"
    using entry filled common by (simp_all add: s server_config_reduct_def put_note)
  moreover have "fc_values ?c ''port_forward'' = V_String ''''"
    using entry common assms(6) by (simp add: s server_config_reduct_def put_note conf_string_def)
  moreover have "fc_forwards ?c = []"
    by (simp add: s server_config_reduct_def assms(7) zero_config_def)
  ultimately have "\<exists>fs. fc_forwards (set_port_forwards r ?c) = Some (simple_forward '''' (forward_end a) (forward_end b)) # fs"
    using filled by (simp add: set_port_forwards_def Let_def conf_string_def)
  then show ?thesis
    by (auto simp: start_port_forward_def simple_forward_def is_remote_def to_upper_def)
qed

lemma openssh_remote_forward_listens_here_witness:
  "\<exists>cfg. decode_bytes \<lparr>pe_home = '''', pe_glob = (\<lambda>p. Inr []), pe_read = (\<lambda>p. errorf '''')\<rparr>
            (''Host web'' @ LF # ''RemoteForward 8080 db:5432'' @ [LF]) = Done cfg
     \<and> (\<forall>r. take 1 (map start_port_forward (fc_forwards (set_port_forwards r (server_config_reduct zero_config
           (snd (hd (get_openssh_config ''c'' [(''web'', openssh_entry (\<lambda>_. None) (\<lambda>_. False) \<lparr>dr_home = None, dr_cwd = None\<rparr> '''' cfg ''u'' ''web'')])))))))
        = [Start_Local ''tcp'' ''localhost:8080'' ''tcp'' ''db:5432''])"
proof -
  define cfg where "cfg = (case decode_bytes \<lparr>pe_home = '''', pe_glob = (\<lambda>p. Inr []), pe_read = (\<lambda>p. errorf '''')\<rparr>
       (''Host web'' @ LF # ''RemoteForward 8080 db:5432'' @ [LF]) of Done c \<Rightarrow> c | _ \<Rightarrow> [])"
  have cfg: "decode_bytes \<lparr>pe_home = '''', pe_glob = (\<lambda>p. Inr []), pe_read = (\<lambda>p. errorf '''')\<rparr>
       (''Host web'' @ LF # ''RemoteForward 8080 db:5432'' @ [LF]) = Done cfg
     \<and> split_at CHR '' '' (openssh_value '''' cfg ''web'' ''RemoteForward'') = Some (''8080'', ''db:5432'')"
    unfolding cfg_def by code_simp
  have ends: "forward_end ''8080'' = ''localhost:8080''" "forward_end ''db:5432'' = ''db:5432''"
    by code_simp+
  have zero: "typed_config zero_config" "conf_string zero_config ''port_forward'' = ''''" "fc_forwards zero_config = []"
    by (simp add: typed_config_def zero_config_def zero_values_def,
        simp_all add: zero_config_def zero_values_def conf_string_def kind_of_forward zero_value_def)
  show ?thesis
    using cfg openssh_remote_forward_listens_here[of "''''" cfg "''web''" "''8080''" "''db:5432''", OF conjunct2[OF cfg] _ _ _ zero] ends
    by (auto simp: get_openssh_config_def)
qed

text \<open>
  C38. A connection that the proxy of a connector session relays goes to what the client asked for: the
  provider was asked to prepare a transport to that very host and port, unless the host is a name
  with brackets, and answered with a plan that could be opened.
\<close>

theorem socks_target_prepared:
  assumes "snd (handle_conn write (\<lambda>target. case dial_connector_target p site server ''tcp'' target of
      Inl e \<Rightarrow> Inl e | Inr way \<Rightarrow> open_way way) s) = Relaying target c rest"
  shows "\<exists>methods reserved a hi lo. 0 \<in> set methods \<and> s = greeting methods @ request reserved a hi lo @ rest
     \<and> (\<not> no_brackets (address_host a)
       \<or> (\<exists>q plan. prepare_dial_transport p site server (address_host a) (decimal (256 * unat hi + unat lo)) = Inr q
            \<and> pd_supported q \<and> pd_provider_plan q = Some plan \<and> open_way (Dial_Provider plan) = Inr c))"
proof -
  from assms obtain methods reserved a hi lo where request: "0 \<in> set methods"
      "s = greeting methods @ request reserved a hi lo @ rest" "target = target_of_request a hi lo"
    and dialled: "(case dial_connector_target p site server ''tcp'' target of Inl e \<Rightarrow> Inl e | Inr way \<Rightarrow> open_way way) = Inr c"
    unfolding socks_relays_iff by blast
  have "\<exists>q plan. prepare_dial_transport p site server (address_host a) (decimal (256 * unat hi + unat lo)) = Inr q
            \<and> pd_supported q \<and> pd_provider_plan q = Some plan \<and> open_way (Dial_Provider plan) = Inr c"
    if plain: "no_brackets (address_host a)"
    using dialled dial_never_managed[of p site server "''tcp''" target]
    unfolding request(3) dial_connector_target_def target_of_request_split[OF plain]
    by (auto simp: wrap_error_def prepare_dial_transport_def errorf_def Let_def split: sum.splits if_splits option.splits)
  with request show ?thesis
    by blast
qed

text \<open>A server with the connector of a provider that can dial, and a client that asks for 10.0.0.5 at port 80.\<close>

definition ssm_calls :: provider_calls where
  "ssm_calls = \<lparr>pc_describe = (\<lambda>_. Inr [''ssm'']), pc_connector_describe = (\<lambda>_ _ _. Inr []),
     pc_prepare = (\<lambda>_ _ _ _. Inr \<lparr>pr_supported = True,
       pr_plan = \<lparr>pl_kind = ''provider-managed'', pl_program = '''', pl_args = [], pl_env = [], pl_details = []\<rparr>\<rparr>)\<rparr>"

definition ssm_site :: site where
  "ssm_site = \<lparr>st_server = [(''web'', zero_config\<lparr>fc_values := zero_values(''connector_name'' := V_String ''ssm'')\<rparr>)],
     st_provider = [(''aws'', [(''capabilities'', D_Strings [''connector''])])]\<rparr>"

lemma ssm_relays:
  "snd (handle_conn (\<lambda>_. None) (\<lambda>target. case dial_connector_target ssm_calls ssm_site ''web'' ''tcp'' target of
       Inl e \<Rightarrow> Inl e | Inr way \<Rightarrow> Inr (7::nat)) [5, 1, 0, 5, 1, 0, 1, 10, 0, 0, 5, 0, 80, 71])
     = Relaying ''10.0.0.5:80'' 7 [71]"
  by code_simp

lemma socks_target_prepared_witness:
  "\<exists>methods reserved a hi lo. 0 \<in> set methods
     \<and> [5, 1, 0, 5, 1, 0, 1, 10, 0, 0, 5, 0, 80, 71] = greeting methods @ request reserved a hi lo @ [71]
     \<and> (\<not> no_brackets (address_host a)
       \<or> (\<exists>q plan. prepare_dial_transport ssm_calls ssm_site ''web'' (address_host a) (decimal (256 * unat hi + unat lo)) = Inr q
            \<and> pd_supported q \<and> pd_provider_plan q = Some plan))"
  using socks_target_prepared[OF ssm_relays] by blast

end
